(* ===== verification/Prelude.thy ===== *)
theory Prelude
  imports Main "HOL-Library.Word" "HOL-Library.Monad_Syntax"
begin

text \<open>
  What every component theory shares: the names of the Go types, the reading of a Go map
  (a missing key gives the zero value), association lists for the maps whose iteration order
  the code is exposed to, and the simplification collections.

  Conventions of the whole library:
  \<^item> a Go map that is only read and written by key is a partial function; a Go map that the
    code ranges over is an association list with distinct keys, whose order stands for the
    order the run-time happens to choose, so a theorem for all lists is a theorem for every
    iteration order;
  \<^item> \<^verbatim>\<open>time.Time\<close> is an \<open>int\<close> (nanoseconds, \<open>0\<close> is the zero \<open>Time\<close> that
    \<^verbatim>\<open>IsZero\<close> recognises), \<^verbatim>\<open>time.Duration\<close> an \<open>int\<close> (nanoseconds);
    \<^verbatim>\<open>time.Now()\<close> becomes an argument \<open>now\<close> of the operation;
  \<^item> mutexes disappear: every operation of the code that holds a component's mutex from its
    first to its last access is one atomic function of that component's state;
  \<^item> an \<^verbatim>\<open>error\<close> result is the left side of a sum; a function whose loops follow
    pointers returns an \<open>option\<close>, \<open>None\<close> where the code would loop or panic.
\<close>

unbundle bit_operations_syntax

section \<open>Types and collections\<close>

type_synonym byte = "8 word"
type_synonym uint32 = "32 word"
type_synonym uint64 = "64 word"
type_synonym int64 = "64 word"
type_synonym hash = "256 word"
type_synonym gotime = int
type_synonym duration = int

named_theorems go_simps \<open>equations of the Go primitives the components use\<close>
named_theorems inv_intro \<open>preservation of the components' invariants\<close>

text \<open>Durations, in nanoseconds.\<close>

abbreviation millisecond :: duration where "millisecond \<equiv> 1000000"
abbreviation second :: duration where "second \<equiv> 1000000000"
abbreviation minute :: duration where "minute \<equiv> 60000000000"

section \<open>Go maps\<close>

text \<open>\<open>m[k]\<close> as an expression: the stored value, or the zero value of the element type.\<close>

definition go_get :: "'v \<Rightarrow> ('k \<rightharpoonup> 'v) \<Rightarrow> 'k \<Rightarrow> 'v" where
  "go_get z m k = (case m k of None \<Rightarrow> z | Some v \<Rightarrow> v)"

lemma go_get_Some [simp]: "m k = Some v \<Longrightarrow> go_get z m k = v"
  by (simp add: go_get_def)

lemma go_get_None [simp]: "m k = None \<Longrightarrow> go_get z m k = z"
  by (simp add: go_get_def)

lemma go_get_upd: "go_get z (m(k \<mapsto> v)) j = (if j = k then v else go_get z m j)"
  by (simp add: go_get_def)

text \<open>
  Maps the code iterates over: \<open>al_put\<close> overwrites in place or appends, \<open>al_del\<close> removes.
\<close>

fun al_put :: "'k \<Rightarrow> 'v \<Rightarrow> ('k \<times> 'v) list \<Rightarrow> ('k \<times> 'v) list" where
  "al_put k v [] = [(k, v)]"
| "al_put k v ((j, w) # xs) = (if j = k then (k, v) # xs else (j, w) # al_put k v xs)"

definition al_del :: "'k \<Rightarrow> ('k \<times> 'v) list \<Rightarrow> ('k \<times> 'v) list" where
  "al_del k xs = filter (\<lambda>(j, _). j \<noteq> k) xs"

abbreviation al_keys :: "('k \<times> 'v) list \<Rightarrow> 'k list" where
  "al_keys xs \<equiv> map fst xs"

lemma al_del_simps [simp]:
  "al_del k [] = []"
  "al_del k ((j, w) # xs) = (if j = k then al_del k xs else (j, w) # al_del k xs)"
  by (auto simp: al_del_def)

lemma map_of_al_put: "map_of (al_put k v xs) = (map_of xs)(k \<mapsto> v)"
  by (induction k v xs rule: al_put.induct) auto

lemma map_of_al_del: "map_of (al_del k xs) = (map_of xs)(k := None)"
  by (induction xs) auto

lemma set_al_put_keys: "set (al_keys (al_put k v xs)) = insert k (set (al_keys xs))"
  by (induction k v xs rule: al_put.induct) auto

lemma set_al_del: "set (al_del k xs) = {x \<in> set xs. fst x \<noteq> k}"
  by (auto simp: al_del_def)

lemma set_al_del_keys: "set (al_keys (al_del k xs)) = set (al_keys xs) - {k}"
  by (auto simp: set_al_del image_iff)

lemma set_al_put_subset: "set (al_put k v xs) \<subseteq> insert (k, v) (set xs)"
  by (induction k v xs rule: al_put.induct) auto

lemma al_put_in [simp]: "(k, v) \<in> set (al_put k v xs)"
  by (induction k v xs rule: al_put.induct) auto

lemma distinct_al_put: "distinct (al_keys xs) \<Longrightarrow> distinct (al_keys (al_put k v xs))"
proof (induction k v xs rule: al_put.induct)
  case (2 k v j w xs)
  then show ?case using set_al_put_keys [of k v xs] by auto
qed simp

lemma distinct_al_del: "distinct (al_keys xs) \<Longrightarrow> distinct (al_keys (al_del k xs))"
proof (induction xs)
  case (Cons x xs)
  then show ?case using set_al_del_keys [of k xs] by (cases x) auto
qed simp

lemma length_al_put_new: "k \<notin> set (al_keys xs) \<Longrightarrow> length (al_put k v xs) = Suc (length xs)"
  by (induction k v xs rule: al_put.induct) auto

lemma length_al_put_old: "k \<in> set (al_keys xs) \<Longrightarrow> length (al_put k v xs) = length xs"
  by (induction k v xs rule: al_put.induct) auto

lemma length_al_del_le: "length (al_del k xs) \<le> length xs"
  by (simp add: al_del_def)

lemma length_al_del_less: "k \<in> set (al_keys xs) \<Longrightarrow> length (al_del k xs) < length xs"
  unfolding al_del_def by (auto intro!: length_filter_less)

section \<open>Iteration order\<close>

text \<open>
  \<^verbatim>\<open>range\<close> over a Go map visits every entry that is not deleted meanwhile exactly
  once, in an unspecified order that may change from one loop to the next. An operation that
  ranges over a map takes a \<open>ranging\<close>, the order of each of its passes; the language
  guarantees that it is a reordering of the entries.
\<close>

type_synonym 'a ranging = "nat \<Rightarrow> 'a list \<Rightarrow> 'a list"

definition fair_ranging :: "'a ranging \<Rightarrow> bool" where
  "fair_ranging ord \<longleftrightarrow> (\<forall>i xs. set (ord i xs) = set xs \<and> length (ord i xs) = length xs)"

lemma fair_ranging_set: "fair_ranging ord \<Longrightarrow> set (ord i xs) = set xs"
  by (simp add: fair_ranging_def)

lemma fair_ranging_id: "fair_ranging (\<lambda>_ xs. xs)"
  by (simp add: fair_ranging_def)

lemma fair_ranging_rev: "fair_ranging (\<lambda>_. rev)"
  by (simp add: fair_ranging_def)

end
