(* ===== verification/ChainWalk.thy ===== *)
theory ChainWalk
  imports Prelude
begin

text \<open>
  The loops of \<^verbatim>\<open>internal/blockchain/chain.go\<close> that follow parent pointers, as
  functions of the pointer map, and the interface \<open>block_tree\<close> under which they return:
  every known hash other than the root has a known parent one level below it. A loop that is
  not bounded by a counter is a \<open>partial_function (option)\<close>, so \<open>None\<close> is a loop that
  does not end; the lemmas of the interface show that each of them returns, and what.
\<close>

section \<open>The loops\<close>

text \<open>\<^verbatim>\<open>for oh > nh { o = parent[o]; oh-- }\<close>\<close>

function climb :: "('h \<Rightarrow> 'h) \<Rightarrow> uint64 \<Rightarrow> uint64 \<Rightarrow> 'h \<Rightarrow> 'h \<times> uint64" where
  "climb par oh nh h = (if oh > nh then climb par (oh - 1) nh (par h) else (h, oh))"
  by pat_completeness auto
termination
  by (relation "measure (\<lambda>(par, oh, nh, h). unat oh)")
    (auto intro!: measure_unat)

declare climb.simps [simp del]

text \<open>\<^verbatim>\<open>for o != n { o = parent[o]; n = parent[n] }\<close>\<close>

partial_function (option) meet :: "('h \<Rightarrow> 'h) \<Rightarrow> 'h \<Rightarrow> 'h \<Rightarrow> 'h option" where
  "meet par x y = (if x \<noteq> y then meet par (par x) (par y) else Some x)"

text \<open>\<^verbatim>\<open>for h := tip; h != common; h = parent[h] { acc = append(acc, blocks[h]) }\<close>\<close>

partial_function (option) segment ::
    "('h \<Rightarrow> 'h) \<Rightarrow> ('h \<Rightarrow> 'b) \<Rightarrow> 'h \<Rightarrow> 'h \<Rightarrow> 'b list \<Rightarrow> 'b list option" where
  "segment par blk common h acc =
     (if h \<noteq> common then segment par blk common (par h) (acc @ [blk h]) else Some acc)"

text \<open>\<^verbatim>\<open>for h := tip; ; h = parent[h] { acc = append(acc, h); if h == genesis { break } }\<close>\<close>

partial_function (option) back_to :: "('h \<Rightarrow> 'h) \<Rightarrow> 'h \<Rightarrow> 'h \<Rightarrow> 'h list \<Rightarrow> 'h list option" where
  "back_to par g h acc =
     (if h = g then Some (acc @ [h]) else back_to par g (par h) (acc @ [h]))"

text \<open>\<^verbatim>\<open>for i := 0; i < step && height > 0; i++ { h = parent[h]; height-- }\<close>\<close>

function step_back :: "('h \<Rightarrow> 'h) \<Rightarrow> uint64 \<Rightarrow> uint64 \<Rightarrow> 'h \<Rightarrow> uint64 \<Rightarrow> 'h \<times> uint64" where
  "step_back par i step h height =
     (if i < step \<and> height > 0 then step_back par (i + 1) step (par h) (height - 1)
      else (h, height))"
  by pat_completeness auto
termination
  by (relation "measure (\<lambda>(par, i, step, h, height). unat height)") (auto simp: measure_unat word_gt_0)

declare step_back.simps [simp del]

text \<open>The outer loop of the locator; \<open>r\<close> is \<^verbatim>\<open>max - len(out)\<close>.\<close>

fun locator_loop ::
    "('h \<Rightarrow> 'h) \<Rightarrow> 'h \<Rightarrow> nat \<Rightarrow> 'h list \<Rightarrow> 'h \<Rightarrow> uint64 \<Rightarrow> uint64 \<Rightarrow> 'h list" where
  "locator_loop par g 0 out h height step = out"
| "locator_loop par g (Suc r) out h height step =
     (let out = out @ [h] in
      if h = g \<or> height = 0 then out
      else (let (h', height') = step_back par 0 step h height;
                step' = (if length out \<ge> 10 then step * 2 else step)
            in locator_loop par g r out h' height' step'))"

text \<open>The in-place reversal \<^verbatim>\<open>for i, j := 0, len-1; i < j; i, j = i+1, j-1\<close>.\<close>

function reverse_loop :: "nat \<Rightarrow> nat \<Rightarrow> 'a list \<Rightarrow> 'a list" where
  "reverse_loop i j xs =
     (if i < j then reverse_loop (i + 1) (j - 1) (xs[i := xs ! j, j := xs ! i]) else xs)"
  by pat_completeness auto
termination by (relation "measure (\<lambda>(i, j, xs). j - i)") auto

declare reverse_loop.simps [simp del]

definition reverse_list :: "'a list \<Rightarrow> 'a list" where
  "reverse_list xs = reverse_loop 0 (length xs - 1) xs"

lemma reverse_loop_swap:
  "i + j = n - 1 \<Longrightarrow> length xs = n \<Longrightarrow> i \<le> n - i \<Longrightarrow> k < n \<Longrightarrow>
   reverse_loop i j xs ! k = (if i \<le> k \<and> k \<le> j then xs ! (n - 1 - k) else xs ! k)"
proof (induction i j xs arbitrary: k rule: reverse_loop.induct)
  case (1 i j xs)
  show ?case
  proof (cases "i < j")
    case True
    let ?ys = "xs[i := xs ! j, j := xs ! i]"
    have "reverse_loop (i + 1) (j - 1) ?ys ! k
        = (if i + 1 \<le> k \<and> k \<le> j - 1 then ?ys ! (n - 1 - k) else ?ys ! k)"
      using 1 True by (intro "1.IH") auto
    moreover have n: "n - 1 - j = i" "n - 1 - i = j" "i < length xs" "j < length xs"
      using 1 True by auto
    ultimately have eq: "reverse_loop i j xs ! k
        = (if i + 1 \<le> k \<and> k \<le> j - 1 then ?ys ! (n - 1 - k) else ?ys ! k)"
      using True by (subst reverse_loop.simps) simp
    consider "k = i" | "k = j" "i < k" | "i < k" "k < j" | "k < i" | "j < k" by linarith
    then show ?thesis
    proof cases
      case 3
      then have "n - 1 - k \<noteq> i" "n - 1 - k \<noteq> j" "i + 1 \<le> k" "k \<le> j - 1" using n by auto
      with 3 show ?thesis unfolding eq by simp
    next
      case 5
      then have "\<not> k \<le> j - 1" "k \<noteq> i" using True by auto
      with 5 show ?thesis unfolding eq by simp
    qed (unfold eq, use True n in auto)
  next
    case False
    moreover have "n - 1 - k = k" if "i \<le> k" "k \<le> j" using 1 False that by auto
    ultimately show ?thesis using 1 by (subst reverse_loop.simps) auto
  qed
qed

lemma length_reverse_loop [simp]: "length (reverse_loop i j xs) = length xs"
  by (induction i j xs rule: reverse_loop.induct) (subst reverse_loop.simps, simp)

lemma reverse_list_rev [simp]: "reverse_list xs = rev xs"
proof (rule nth_equalityI)
  fix k assume "k < length (reverse_list xs)"
  then have "k < length xs" by (simp add: reverse_list_def)
  then show "reverse_list xs ! k = rev xs ! k"
    by (auto simp: reverse_list_def reverse_loop_swap [of _ _ "length xs"] rev_nth)
qed (simp add: reverse_list_def)

section \<open>The interface\<close>

text \<open>The path from the root to \<open>h\<close>, \<open>n\<close> levels above it.\<close>

primrec chain_to :: "('h \<Rightarrow> 'h) \<Rightarrow> nat \<Rightarrow> 'h \<Rightarrow> 'h list" where
  "chain_to par 0 h = [h]"
| "chain_to par (Suc n) h = chain_to par n (par h) @ [h]"

lemma length_chain_to [simp]: "length (chain_to par n h) = Suc n"
  by (induction n arbitrary: h) auto

lemma chain_to_nth: "i \<le> n \<Longrightarrow> chain_to par n h ! i = (par ^^ (n - i)) h"
proof (induction n arbitrary: h)
  case (Suc n)
  then show ?case
    by (cases "i = Suc n") (auto simp: nth_append Suc_diff_le funpow_swap1)
qed simp

lemma last_chain_to [simp]: "last (chain_to par n h) = h"
  by (cases n) auto

lemma chain_to_append: "k \<le> n \<Longrightarrow>
  chain_to par n h = chain_to par (n - k) ((par ^^ k) h) @ rev (map (\<lambda>i. (par ^^ i) h) [0..<k])"
proof (induction k)
  case (Suc k)
  then have "n - k = Suc (n - Suc k)" by simp
  with Suc show ?case by simp
qed simp

locale block_tree =
  fixes inv :: "'s \<Rightarrow> bool"
    and known :: "'s \<Rightarrow> 'h set"
    and par :: "'s \<Rightarrow> 'h \<Rightarrow> 'h"
    and ht :: "'s \<Rightarrow> 'h \<Rightarrow> uint64"
    and root :: "'s \<Rightarrow> 'h"
  assumes root_known: "inv s \<Longrightarrow> root s \<in> known s"
    and root_height: "inv s \<Longrightarrow> ht s (root s) = 0"
    and parent_known: "inv s \<Longrightarrow> h \<in> known s \<Longrightarrow> h \<noteq> root s \<Longrightarrow> par s h \<in> known s"
    and parent_height: "inv s \<Longrightarrow> h \<in> known s \<Longrightarrow> h \<noteq> root s \<Longrightarrow>
           unat (ht s h) = Suc (unat (ht s (par s h)))"
begin

lemma height_zero: "inv s \<Longrightarrow> h \<in> known s \<Longrightarrow> ht s h = 0 \<longleftrightarrow> h = root s"
  using parent_height root_height by (metis nat.distinct(1) unat_0)

lemma ancestor:
  "inv s \<Longrightarrow> h \<in> known s \<Longrightarrow> k \<le> unat (ht s h) \<Longrightarrow>
   (par s ^^ k) h \<in> known s \<and> unat (ht s ((par s ^^ k) h)) = unat (ht s h) - k"
proof (induction k)
  case (Suc k)
  let ?a = "(par s ^^ k) h"
  from Suc have a: "?a \<in> known s" "unat (ht s ?a) = unat (ht s h) - k" by auto
  with Suc.prems have "?a \<noteq> root s" using root_height by fastforce
  with a Suc.prems parent_known parent_height [of s ?a] show ?case by simp
qed simp

lemmas ancestor_known = ancestor [THEN conjunct1]
lemmas ancestor_height = ancestor [THEN conjunct2]

lemma ancestor_root:
  assumes "inv s" "h \<in> known s"
  shows "(par s ^^ unat (ht s h)) h = root s"
proof -
  have "unat (ht s ((par s ^^ unat (ht s h)) h)) = 0"
    using ancestor_height [OF assms order_refl] by simp
  then show ?thesis
    using height_zero [OF assms(1) ancestor_known [OF assms order_refl]]
    by (metis unat_eq_zero)
qed

lemma ancestor_inj:
  assumes "inv s" "h \<in> known s" "i \<le> unat (ht s h)" "j \<le> unat (ht s h)"
    and "(par s ^^ i) h = (par s ^^ j) h"
  shows "i = j"
  using ancestor_height [OF assms(1,2,3)] ancestor_height [OF assms(1,2,4)] assms by simp

lemma back_to_returns:
  assumes "inv s" "h \<in> known s"
  shows "back_to (par s) (root s) h acc = Some (acc @ rev (chain_to (par s) (unat (ht s h)) h))"
  using assms(2)
proof (induction "unat (ht s h)" arbitrary: h acc)
  case 0
  then have "h = root s" using height_zero [OF assms(1)] by (metis unat_eq_zero)
  then show ?case using 0 by (subst back_to.simps) (simp add: root_height assms(1))
next
  case (Suc n)
  then have nr: "h \<noteq> root s" using root_height [OF assms(1)] by auto
  then have "n = unat (ht s (par s h))" and "par s h \<in> known s"
    using Suc parent_height parent_known assms(1) by auto
  with Suc nr show ?case
    by (subst back_to.simps) (simp add: Suc.hyps(2) [symmetric])
qed

lemma climb_returns:
  assumes "inv s" "h \<in> known s" "unat nh \<le> unat (ht s h)"
  shows "climb (par s) (ht s h) nh h = ((par s ^^ (unat (ht s h) - unat nh)) h, nh)"
  using assms(2,3)
proof (induction "unat (ht s h) - unat nh" arbitrary: h)
  case 0
  then have "ht s h = nh" by (metis diff_is_0_eq le_antisym word_unat_eq_iff)
  then show ?case by (subst climb.simps) simp
next
  case (Suc n)
  then have gt: "nh < ht s h" by (simp add: word_less_nat_alt)
  then have nr: "h \<noteq> root s" using root_height [OF assms(1)] by auto
  let ?p = "par s h"
  have p: "?p \<in> known s" "unat (ht s h) = Suc (unat (ht s ?p))"
    using parent_known parent_height assms(1) Suc.prems nr by auto
  have pm: "ht s h - 1 = ht s ?p"
    using p(2) gt by (simp add: word_unat_eq_iff unat_minus_one)
  have "climb (par s) (ht s ?p) nh ?p = ((par s ^^ (unat (ht s ?p) - unat nh)) ?p, nh)"
    using Suc p by (intro Suc.hyps) auto
  moreover have "unat (ht s h) - unat nh = Suc (unat (ht s ?p) - unat nh)"
    using Suc.hyps(2) p(2) by simp
  ultimately show ?case
    using gt by (subst climb.simps) (simp add: pm funpow_swap1)
qed

lemma meet_returns:
  assumes "inv s" "x \<in> known s" "y \<in> known s" "ht s x = ht s y"
  shows "\<exists>k \<le> unat (ht s x). meet (par s) x y = Some ((par s ^^ k) x)
           \<and> (par s ^^ k) x = (par s ^^ k) y \<and> (\<forall>j < k. (par s ^^ j) x \<noteq> (par s ^^ j) y)"
  using assms(2-4)
proof (induction "unat (ht s x)" arbitrary: x y)
  case 0
  then have "x = y" using height_zero [OF assms(1)] by (metis unat_eq_zero)
  then show ?case using 0 by (intro exI [of _ 0]) (simp add: meet.simps)
next
  case (Suc n)
  show ?case
  proof (cases "x = y")
    case True
    then show ?thesis by (intro exI [of _ 0]) (simp add: meet.simps)
  next
    case False
    have nr: "x \<noteq> root s" "y \<noteq> root s" using Suc root_height [OF assms(1)] by auto
    have px: "par s x \<in> known s" "unat (ht s x) = Suc (unat (ht s (par s x)))"
      and py: "par s y \<in> known s" "unat (ht s y) = Suc (unat (ht s (par s y)))"
      using Suc.prems nr by (blast intro: parent_known [OF assms(1)] parent_height [OF assms(1)])+
    have "Suc (unat (ht s (par s x))) = Suc (unat (ht s (par s y)))"
      using px(2) py(2) Suc.prems(3) by metis
    then have "ht s (par s x) = ht s (par s y)" by (simp add: word_unat_eq_iff)
    with px py obtain k where k: "k \<le> unat (ht s (par s x))"
        "meet (par s) (par s x) (par s y) = Some ((par s ^^ k) (par s x))"
        "(par s ^^ k) (par s x) = (par s ^^ k) (par s y)"
        "\<forall>j < k. (par s ^^ j) (par s x) \<noteq> (par s ^^ j) (par s y)"
      using Suc.hyps(1) [of "par s x" "par s y"] Suc.hyps(2) px py by auto
    have "\<forall>j < Suc k. (par s ^^ j) x \<noteq> (par s ^^ j) y"
      using k(4) False by (auto simp: less_Suc_eq_0_disj funpow_swap1)
    with k px False show ?thesis
      by (intro exI [of _ "Suc k"]) (simp add: meet.simps [of _ x y] funpow_swap1)
  qed
qed

lemma segment_returns:
  assumes "inv s" "h \<in> known s" "k \<le> unat (ht s h)"
  shows "segment (par s) blk ((par s ^^ k) h) h acc
           = Some (acc @ map (\<lambda>i. blk ((par s ^^ i) h)) [0..<k])"
  using assms(2,3)
proof (induction k arbitrary: h acc)
  case 0
  then show ?case by (subst segment.simps) simp
next
  case (Suc k)
  have "h \<noteq> (par s ^^ Suc k) h"
    using ancestor_inj [OF assms(1) Suc.prems(1), of 0 "Suc k"] Suc.prems by auto
  moreover have nr: "h \<noteq> root s" using Suc.prems root_height [OF assms(1)] by auto
  moreover have "par s h \<in> known s" "k \<le> unat (ht s (par s h))"
    using parent_known parent_height assms(1) Suc.prems nr by auto
  moreover have "map (\<lambda>i. blk ((par s ^^ i) h)) [0..<Suc k]
      = blk h # map (\<lambda>i. blk ((par s ^^ i) (par s h))) [0..<k]"
    by (simp add: upt_conv_Cons map_Suc_upt [symmetric] funpow_swap1 del: upt_Suc)
  ultimately show ?case
    using Suc.IH [of "par s h" "acc @ [blk h]"]
    by (subst segment.simps) (simp add: funpow_swap1)
qed

lemma chain_to_root:
  assumes "inv s" "h \<in> known s"
  shows "hd (chain_to (par s) (unat (ht s h)) h) = root s"
  using chain_to_nth [of 0 "unat (ht s h)" "par s" h] ancestor_root [OF assms]
  by (simp add: hd_conv_nth length_greater_0_conv [symmetric] del: length_greater_0_conv)

lemma chain_to_known:
  assumes "inv s" "h \<in> known s" "x \<in> set (chain_to (par s) (unat (ht s h)) h)"
  shows "x \<in> known s"
  using assms by (auto simp: in_set_conv_nth chain_to_nth intro!: ancestor_known)

lemma chain_to_height:
  assumes "inv s" "h \<in> known s" "i \<le> unat (ht s h)"
  shows "unat (ht s (chain_to (par s) (unat (ht s h)) h ! i)) = i"
  using assms by (simp add: chain_to_nth ancestor_height)

end

end
