(* ===== verification/GoTypes.thy ===== *)
theory GoTypes
  imports Prelude
begin

text \<open>
  \<^verbatim>\<open>internal/types\<close>: blocks, transactions and the messages of the protocol. A Go
  \<^verbatim>\<open>string\<close> is its list of bytes (\<open>string\<close>), a \<^verbatim>\<open>[]byte\<close> a \<open>byte list\<close>.
  \<^verbatim>\<open>Hash\<close>, a comparable \<^verbatim>\<open>[32]byte\<close>, is a 256-bit word whose most significant
  byte is \<^verbatim>\<open>h[0]\<close>; \<open>hash_bytes\<close> and \<open>hash_of_bytes\<close> are the two views.
\<close>

section \<open>Hashes\<close>

definition hash_bytes :: "hash \<Rightarrow> byte list" where
  "hash_bytes h = map (\<lambda>i. ucast (drop_bit (8 * (31 - i)) h)) [0..<32]"

definition hash_of_bytes :: "byte list \<Rightarrow> hash" where
  "hash_of_bytes bs = foldl (\<lambda>a b. push_bit 8 a OR ucast b) 0 bs"

text \<open>\<^verbatim>\<open>Hash.IsZero\<close> walks the bytes and stops at the first non-zero one.\<close>

fun all_zero :: "byte list \<Rightarrow> bool" where
  "all_zero [] = True"
| "all_zero (b # bs) = (if b \<noteq> 0 then False else all_zero bs)"

definition IsZero :: "hash \<Rightarrow> bool" where
  "IsZero h = all_zero (hash_bytes h)"

lemma length_hash_bytes [simp]: "length (hash_bytes h) = 32"
  by (simp add: hash_bytes_def)

lemma hash_bytes_nth: "i < 32 \<Longrightarrow> hash_bytes h ! i = ucast (drop_bit (8 * (31 - i)) h)"
  by (simp add: hash_bytes_def)

lemma bit_hash_bytes_nth: "i < 32 \<Longrightarrow> j < 8 \<Longrightarrow> bit (hash_bytes h ! i) j = bit h (8 * (31 - i) + j)"
  by (simp add: hash_bytes_nth bit_ucast_iff bit_drop_bit_eq)

lemma hash_bytes_inj: "hash_bytes g = hash_bytes h \<longleftrightarrow> g = h"
proof
  assume eq: "hash_bytes g = hash_bytes h"
  show "g = h"
  proof (rule bit_word_eqI)
    fix n assume n: "n < LENGTH(256)"
    define i where "i = 31 - n div 8"
    have i: "i < 32" and d: "8 * (31 - i) + n mod 8 = n" using n by (auto simp: i_def)
    have "bit (hash_bytes g ! i) (n mod 8) = bit (hash_bytes h ! i) (n mod 8)" by (simp add: eq)
    then show "bit g n = bit h n" using i d by (simp add: bit_hash_bytes_nth)
  qed
qed simp

lemma all_zero_iff: "all_zero bs \<longleftrightarrow> (\<forall>b \<in> set bs. b = 0)"
  by (induction bs) auto

lemma hash_bytes_0 [simp]: "hash_bytes 0 = replicate 32 0"
  by (rule nth_equalityI) (auto simp: hash_bytes_nth)

lemma IsZero_iff [simp, go_simps]: "IsZero h \<longleftrightarrow> h = 0"
proof -
  have "IsZero h \<longleftrightarrow> hash_bytes h = replicate 32 0"
    by (simp add: IsZero_def all_zero_iff list_eq_iff_nth_eq all_set_conv_all_nth)
  also have "\<dots> \<longleftrightarrow> hash_bytes h = hash_bytes 0" by simp
  finally show ?thesis by (simp only: hash_bytes_inj)
qed

section \<open>Blocks and transactions\<close>

record transaction =
  tx_ID :: string
  tx_Timestamp :: int64
  tx_Payload :: string

record block_header =
  bh_Height :: uint64
  bh_PrevHash :: hash
  bh_Timestamp :: int64
  bh_Difficulty :: uint32
  bh_MinerID :: string
  bh_TxRoot :: hash

record block =
  blk_Header :: block_header
  blk_Nonce :: uint64
  blk_Hash :: hash
  blk_Txs :: "transaction list"

record block_meta =
  bm_Header :: block_header
  bm_Nonce :: uint64
  bm_Hash :: hash

definition NewGenesisBlock :: block where
  "NewGenesisBlock =
     \<lparr>blk_Header = \<lparr>bh_Height = 0, bh_PrevHash = 0, bh_Timestamp = 0, bh_Difficulty = 0,
                    bh_MinerID = ''genesis'', bh_TxRoot = 0\<rparr>,
      blk_Nonce = 0, blk_Hash = 0, blk_Txs = []\<rparr>"

text \<open>
  A block is read through pointers everywhere and never written after it is stored, so the
  deep copy \<^verbatim>\<open>cloneBlock\<close> of a non-nil block is the block itself.
\<close>

definition cloneBlock :: "block option \<Rightarrow> block option" where
  "cloneBlock b = (case b of None \<Rightarrow> None | Some x \<Rightarrow> Some (x\<lparr>blk_Txs := blk_Txs x\<rparr>))"

lemma cloneBlock_id [simp, go_simps]: "cloneBlock b = b"
  by (cases b) (simp_all add: cloneBlock_def)

definition meta_of :: "block \<Rightarrow> block_meta" where
  "meta_of b = \<lparr>bm_Header = blk_Header b, bm_Nonce = blk_Nonce b, bm_Hash = blk_Hash b\<rparr>"

end
