(* ===== verification/Json.thy ===== *)
theory Json
  imports GoTypes
begin

text \<open>
  What \<^verbatim>\<open>encoding/json\<close>, \<^verbatim>\<open>encoding/hex\<close> and \<^verbatim>\<open>strconv\<close> do for the
  values of this program: compact JSON text with Go's string escaping (HTML-safe, invalid
  UTF-8 replaced by \<^verbatim>\<open>\ufffd\<close>, U+2028 and U+2029 escaped), decimal numbers, hexadecimal
  byte strings. Strings are byte lists, so the escaping works on UTF-8 sequences.
\<close>

section \<open>Numbers and hexadecimal\<close>

text \<open>\<^verbatim>\<open>hextable\<close>, whose first ten entries are the decimal digits.\<close>

definition digit_char :: "nat \<Rightarrow> char" where
  "digit_char d = ''0123456789abcdef'' ! d"

fun dec_nat :: "nat \<Rightarrow> string" where
  "dec_nat n = (if n < 10 then [digit_char n] else dec_nat (n div 10) @ [digit_char (n mod 10)])"

declare dec_nat.simps [simp del]

definition dec_int :: "int \<Rightarrow> string" where
  "dec_int i = (if i < 0 then CHR ''-'' # dec_nat (nat (- i)) else dec_nat (nat i))"

definition hex_byte :: "byte \<Rightarrow> string" where
  "hex_byte b = [digit_char (unat b div 16), digit_char (unat b mod 16)]"

definition EncodeToString :: "byte list \<Rightarrow> string" where
  "EncodeToString bs = concat (map hex_byte bs)"

text \<open>\<^verbatim>\<open>Hash.String\<close>.\<close>

definition hash_String :: "hash \<Rightarrow> string" where
  "hash_String h = EncodeToString (hash_bytes h)"

definition bytes_of :: "string \<Rightarrow> byte list" where
  "bytes_of s = map (\<lambda>c. of_char c) s"

definition string_of :: "byte list \<Rightarrow> string" where
  "string_of bs = map (\<lambda>b. char_of (unat b)) bs"

section \<open>UTF-8\<close>

definition utf8_cont :: "nat \<Rightarrow> bool" where
  "utf8_cont b \<longleftrightarrow> 128 \<le> b \<and> b \<le> 191"

definition utf8_second :: "nat \<Rightarrow> nat \<Rightarrow> bool" where
  "utf8_second a b =
     (if a = 0xE0 then 0xA0 \<le> b \<and> b \<le> 0xBF
      else if a = 0xED then 0x80 \<le> b \<and> b \<le> 0x9F
      else if a = 0xF0 then 0x90 \<le> b \<and> b \<le> 0xBF
      else if a = 0xF4 then 0x80 \<le> b \<and> b \<le> 0x8F
      else utf8_cont b)"

text \<open>The size of the rune at the front, \<open>0\<close> where \<^verbatim>\<open>utf8.DecodeRune\<close> reports an error.\<close>

fun utf8_size :: "string \<Rightarrow> nat" where
  "utf8_size [] = 0"
| "utf8_size (c # cs) =
     (let a = of_char c :: nat in
      if a < 0x80 then 1
      else if 0xC2 \<le> a \<and> a \<le> 0xDF then
        (case cs of d # _ \<Rightarrow> if utf8_cont (of_char d) then 2 else 0 | _ \<Rightarrow> 0)
      else if 0xE0 \<le> a \<and> a \<le> 0xEF then
        (case cs of d # e # _ \<Rightarrow>
           if utf8_second a (of_char d) \<and> utf8_cont (of_char e) then 3 else 0 | _ \<Rightarrow> 0)
      else if 0xF0 \<le> a \<and> a \<le> 0xF4 then
        (case cs of d # e # f # _ \<Rightarrow>
           if utf8_second a (of_char d) \<and> utf8_cont (of_char e) \<and> utf8_cont (of_char f)
           then 4 else 0 | _ \<Rightarrow> 0)
      else 0)"

lemma utf8_size_le: "utf8_size cs \<le> length cs"
  by (cases cs) (auto simp: Let_def split: list.splits)

function valid_utf8 :: "string \<Rightarrow> bool" where
  "valid_utf8 s = (if s = [] then True
     else if utf8_size s = 0 then False else valid_utf8 (drop (utf8_size s) s))"
  by pat_completeness auto
termination by (relation "measure length") auto

declare valid_utf8.simps [simp del]

text \<open>
  What a string is after it went through JSON: a byte that starts no rune is written as
  \<^verbatim>\<open>\ufffd\<close> and read back as the three bytes of U+FFFD.
\<close>

function utf8_coerce :: "string \<Rightarrow> string" where
  "utf8_coerce s = (if s = [] then []
     else if utf8_size s = 0 then [CHR 0xEF, CHR 0xBF, CHR 0xBD] @ utf8_coerce (tl s)
     else take (utf8_size s) s @ utf8_coerce (drop (utf8_size s) s))"
  by pat_completeness auto
termination by (relation "measure length") auto

declare utf8_coerce.simps [simp del]

lemma utf8_coerce_valid: "valid_utf8 s \<Longrightarrow> utf8_coerce s = s"
proof (induction s rule: valid_utf8.induct)
  case (1 s)
  show ?case
  proof (cases "s = []")
    case False
    then have "utf8_size s \<noteq> 0" "valid_utf8 (drop (utf8_size s) s)"
      using 1(2) by (simp_all add: valid_utf8.simps [of s] split: if_splits)
    then show ?thesis using False 1(1) by (subst utf8_coerce.simps) simp
  qed (simp add: utf8_coerce.simps)
qed

lemma ascii_valid: "\<forall>c \<in> set s. of_char c < (128::nat) \<Longrightarrow> valid_utf8 s"
proof (induction s)
  case (Cons c s)
  then show ?case by (subst valid_utf8.simps) simp
qed (simp add: valid_utf8.simps)

section \<open>Strings\<close>

text \<open>The escape of one byte below \<^verbatim>\<open>utf8.RuneSelf\<close>.\<close>

definition escape_ascii :: "char \<Rightarrow> string" where
  "escape_ascii c =
     (if c = CHR 0x5C \<or> c = CHR 0x22 then [CHR 0x5C, c]
      else if c = CHR 0x08 then [CHR 0x5C, CHR ''b'']
      else if c = CHR 0x0C then [CHR 0x5C, CHR ''f'']
      else if c = CHR 0x0A then [CHR 0x5C, CHR ''n'']
      else if c = CHR 0x0D then [CHR 0x5C, CHR ''r'']
      else if c = CHR 0x09 then [CHR 0x5C, CHR ''t'']
      else if of_char c < (32::nat) \<or> c = CHR ''<'' \<or> c = CHR ''>'' \<or> c = CHR 0x26
      then [CHR 0x5C, CHR ''u'', CHR ''0'', CHR ''0'',
            digit_char (of_char c div 16), digit_char (of_char c mod 16)]
      else [c])"

text \<open>\<^verbatim>\<open>appendString\<close> of \<^verbatim>\<open>encoding/json\<close>, without the quotes.\<close>

function json_escape :: "string \<Rightarrow> string" where
  "json_escape [] = []"
| "json_escape (c # cs) =
     (if of_char c < (128::nat) then escape_ascii c @ json_escape cs
      else if utf8_size (c # cs) = 0 then [CHR 0x5C] @ ''ufffd'' @ json_escape cs
      else if take 3 (c # cs) = [CHR 0xE2, CHR 0x80, CHR 0xA8]
      then [CHR 0x5C] @ ''u2028'' @ json_escape (drop 2 cs)
      else if take 3 (c # cs) = [CHR 0xE2, CHR 0x80, CHR 0xA9]
      then [CHR 0x5C] @ ''u2029'' @ json_escape (drop 2 cs)
      else take (utf8_size (c # cs)) (c # cs) @ json_escape (drop (utf8_size (c # cs) - 1) cs))"
  by pat_completeness auto
termination by (relation "measure length") auto

definition json_quote :: "string \<Rightarrow> string" where
  "json_quote s = [CHR 0x22] @ json_escape s @ [CHR 0x22]"

section \<open>Values\<close>

text \<open>A number keeps its literal, as \<^verbatim>\<open>json.RawMessage\<close> does.\<close>

datatype json =
    JNull
  | JBool bool
  | JNum string
  | JStr string
  | JArr "json list"
  | JObj "(string \<times> json) list"

fun comma_join :: "string list \<Rightarrow> string" where
  "comma_join [] = []"
| "comma_join [x] = x"
| "comma_join (x # y # zs) = x @ CHR '','' # comma_join (y # zs)"

fun print_json :: "json \<Rightarrow> string" where
  "print_json JNull = ''null''"
| "print_json (JBool b) = (if b then ''true'' else ''false'')"
| "print_json (JNum n) = n"
| "print_json (JStr s) = json_quote s"
| "print_json (JArr xs) = ''['' @ comma_join (map print_json xs) @ '']''"
| "print_json (JObj fs) =
     [CHR 0x7B] @ comma_join (map (\<lambda>(k, v). json_quote k @ '':'' @ print_json v) fs) @ [CHR 0x7D]"

text \<open>
  The same with white space: \<open>nl k\<close> before every element and the closing bracket at depth \<open>k\<close>, \<open>sep\<close>
  behind every key; empty arrays and objects stay closed. \<^verbatim>\<open>json.MarshalIndent(v, "", "  ")\<close> breaks
  lines and indents by two spaces.
\<close>

fun lay_json :: "(nat \<Rightarrow> string) \<Rightarrow> string \<Rightarrow> nat \<Rightarrow> json \<Rightarrow> string" where
  "lay_json nl sep k (JArr xs) =
     (if xs = [] then ''[]''
      else ''['' @ comma_join (map (\<lambda>x. nl (Suc k) @ lay_json nl sep (Suc k) x) xs) @ nl k @ '']'')"
| "lay_json nl sep k (JObj fs) =
     (if fs = [] then [CHR 0x7B, CHR 0x7D]
      else [CHR 0x7B] @ comma_join (map (\<lambda>(n, v). nl (Suc k) @ json_quote n @ sep @ lay_json nl sep (Suc k) v) fs) @ nl k @ [CHR 0x7D])"
| "lay_json nl sep k j = print_json j"

lemma lay_json_compact: "lay_json (\<lambda>_. []) '':'' k j = print_json j"
proof (induction j arbitrary: k)
  case (JObj fs)
  have "map (\<lambda>(n, v). json_quote n @ '':'' @ lay_json (\<lambda>_. []) '':'' (Suc k) v) fs =
      map (\<lambda>(n, v). json_quote n @ '':'' @ print_json v) fs"
    using JObj by (intro map_cong) (auto simp: snds.simps)
  then show ?case by (cases "fs = []") (simp_all only: lay_json.simps print_json.simps append_Nil if_False, simp)
next
  case (JArr xs)
  then have "map (lay_json (\<lambda>_. []) '':'' (Suc k)) xs = map print_json xs" by (intro map_cong) simp_all
  then show ?case by (cases "xs = []") (simp_all only: lay_json.simps print_json.simps append_Nil if_False, simp)
qed simp_all

definition MarshalIndent :: "json \<Rightarrow> string" where
  "MarshalIndent j = lay_json (\<lambda>k. CHR 0x0A # replicate (2 * k) (CHR '' '')) '': '' 0 j"

end
