(* ===== verification/Pow.thy ===== *)
theory Pow
  imports Json
begin

text \<open>
  \<^verbatim>\<open>internal/crypto/pow.go\<close>: header serialisation, block and transaction hashes,
  difficulty and work. The digest \<^verbatim>\<open>sha256.Sum256\<close> is an argument \<open>sha\<close> of
  every definition that uses it, so the theorems hold for each digest function.
\<close>

type_synonym digest = "byte list \<Rightarrow> hash"

section \<open>Header serialisation and hashes\<close>

text \<open>Errors of \<^verbatim>\<open>json.Marshal\<close>; no value of the header type produces one.\<close>

datatype marshal_error = UnsupportedValue

definition header_json :: "block_header \<Rightarrow> json" where
  "header_json h = JObj
     [(''height'', JNum (dec_nat (unat (bh_Height h)))),
      (''prevHash'', JStr (hash_String (bh_PrevHash h))),
      (''timestamp'', JNum (dec_int (sint (bh_Timestamp h)))),
      (''difficulty'', JNum (dec_nat (unat (bh_Difficulty h)))),
      (''minerId'', JStr (bh_MinerID h)),
      (''txRoot'', JStr (hash_String (bh_TxRoot h)))]"

definition SerializeHeader :: "block_header \<Rightarrow> marshal_error + byte list" where
  "SerializeHeader h = Inr (bytes_of (print_json (header_json h)))"

text \<open>\<^verbatim>\<open>binary.LittleEndian.PutUint64\<close>.\<close>

definition PutUint64 :: "uint64 \<Rightarrow> byte list" where
  "PutUint64 n = map (\<lambda>i. ucast (drop_bit (8 * i) n)) [0..<8]"

definition HashHeaderNonce :: "digest \<Rightarrow> block_header \<Rightarrow> uint64 \<Rightarrow> marshal_error + hash" where
  "HashHeaderNonce sha h nonce =
     (case SerializeHeader h of
        Inl err \<Rightarrow> Inl err
      | Inr buf \<Rightarrow> Inr (sha (buf @ PutUint64 nonce)))"

text \<open>The hash itself, for statements: the error branch is never taken.\<close>

definition header_hash :: "digest \<Rightarrow> block_header \<Rightarrow> uint64 \<Rightarrow> hash" where
  "header_hash sha h nonce = sha (bytes_of (print_json (header_json h)) @ PutUint64 nonce)"

lemma HashHeaderNonce_eq [simp, go_simps]: "HashHeaderNonce sha h n = Inr (header_hash sha h n)"
  by (simp add: HashHeaderNonce_def SerializeHeader_def header_hash_def)

text \<open>The bytes written into the transaction digest, id after id.\<close>

fun write_ids :: "nat \<Rightarrow> transaction list \<Rightarrow> byte list" where
  "write_ids i [] = []"
| "write_ids i (tx # txs) =
     (if i > 0 then [10] else []) @ bytes_of (tx_ID tx) @ write_ids (Suc i) txs"

definition HashTransactions :: "digest \<Rightarrow> transaction list \<Rightarrow> hash" where
  "HashTransactions sha txs = sha (write_ids 0 txs)"

lemma write_ids_cong: "map tx_ID xs = map tx_ID ys \<Longrightarrow> write_ids i xs = write_ids i ys"
proof (induction xs arbitrary: i ys)
  case (Cons x xs)
  from Cons.prems obtain y zs where ys: "ys = y # zs" "tx_ID x = tx_ID y" "map tx_ID xs = map tx_ID zs"
    by auto
  from ys(3) have "write_ids (Suc i) xs = write_ids (Suc i) zs" by (rule Cons.IH)
  with ys show ?case by simp
qed simp

section \<open>Difficulty\<close>

text \<open>The inner loop of \<^verbatim>\<open>LeadingZeroBits\<close>: \<open>True\<close> when it returns from the function.\<close>

fun lzb_byte :: "byte \<Rightarrow> nat \<Rightarrow> uint32 \<Rightarrow> uint32 \<times> bool" where
  "lzb_byte b 0 count = (count, False)"
| "lzb_byte b (Suc i) count =
     (if drop_bit i b AND 1 = 0 then lzb_byte b i (count + 1) else (count, True))"

fun lzb_loop :: "byte list \<Rightarrow> uint32 \<Rightarrow> uint32" where
  "lzb_loop [] count = count"
| "lzb_loop (b # bs) count =
     (if b = 0 then lzb_loop bs (count + 8)
      else (case lzb_byte b 8 count of
              (c, True) \<Rightarrow> c
            | (c, False) \<Rightarrow> lzb_loop bs c))"

definition LeadingZeroBits :: "hash \<Rightarrow> uint32" where
  "LeadingZeroBits h = lzb_loop (hash_bytes h) 0"

definition MeetsDifficulty :: "hash \<Rightarrow> uint32 \<Rightarrow> bool" where
  "MeetsDifficulty h d \<longleftrightarrow> LeadingZeroBits h \<ge> d"

text \<open>\<^verbatim>\<open>big.Int\<close> values are unbounded integers.\<close>

definition WorkForDifficulty :: "uint32 \<Rightarrow> int" where
  "WorkForDifficulty d = (if d = 0 then 1 else push_bit (unat d) 1)"

lemma WorkForDifficulty_pow: "WorkForDifficulty d = 2 ^ unat d"
  by (simp add: WorkForDifficulty_def push_bit_eq_mult)

lemma WorkForDifficulty_pos [simp]: "0 < WorkForDifficulty d"
  by (simp add: WorkForDifficulty_pow)

text \<open>The loops count the bits in front of the first set bit of the byte string.\<close>

definition byte_bits :: "byte \<Rightarrow> bool list" where
  "byte_bits b = map (bit b) (rev [0..<8])"

lemma lzb_byte_count:
  "lzb_byte b i count =
     (count + of_nat (length (takeWhile Not (map (bit b) (rev [0..<i])))),
      \<exists>j < i. bit b j)"
proof (induction b i count rule: lzb_byte.induct)
  case (2 b i count)
  have bit: "(drop_bit i b AND 1 = 0) \<longleftrightarrow> \<not> bit b i"
    by (simp add: and_one_eq bit_iff_odd_drop_bit even_iff_mod_2_eq_zero)
  show ?case
  proof (cases "bit b i")
    case True
    then show ?thesis by (auto simp: bit)
  next
    case False
    then show ?thesis using 2 by (auto simp: bit less_Suc_eq add.assoc)
  qed
qed simp

lemma bit_list_replicate: "b = 0 \<Longrightarrow> byte_bits b = replicate 8 False" for b :: byte
  by (simp add: byte_bits_def upt_rec numeral_eq_Suc)

lemma byte_bits_nonzero: "b \<noteq> 0 \<Longrightarrow> \<exists>j < 8. bit b j" for b :: byte
proof (rule ccontr)
  assume "b \<noteq> 0" and "\<not> (\<exists>j < 8. bit b j)"
  then have "b = 0" by (intro bit_word_eqI) auto
  with \<open>b \<noteq> 0\<close> show False by simp
qed

lemma lzb_loop_count:
  "lzb_loop bs count = count + of_nat (length (takeWhile Not (concat (map byte_bits bs))))"
proof (induction bs arbitrary: count)
  case (Cons b bs)
  show ?case
  proof (cases "b = 0")
    case True
    have "takeWhile Not (replicate 8 False @ xs) = replicate 8 False @ takeWhile Not xs" for xs
      by (rule takeWhile_append2) auto
    then show ?thesis using True Cons by (simp add: bit_list_replicate add.assoc)
  next
    case False
    then have ex: "\<exists>j < 8. bit b j" by (rule byte_bits_nonzero)
    then have "True \<in> set (byte_bits b)" by (auto simp: byte_bits_def image_iff)
    then have "takeWhile Not (byte_bits b @ xs) = takeWhile Not (byte_bits b)" for xs
      by (intro takeWhile_append1) auto
    then show ?thesis using False ex by (auto simp: lzb_byte_count byte_bits_def)
  qed
qed simp

lemma map_rev_upt_nth: "n < N \<Longrightarrow> map f (rev [0..<N]) ! n = f (N - 1 - n)"
  by (simp add: rev_nth)

lemma concat_byte_bits: "concat (map byte_bits (hash_bytes h)) = map (bit h) (rev [0..<256])"
proof -
  have len: "length (concat (map byte_bits bs)) = 8 * length bs" for bs
    by (induction bs) (auto simp: byte_bits_def)
  have nth: "concat (map byte_bits bs) ! n = bit (bs ! (n div 8)) (7 - n mod 8)"
    if "n < 8 * length bs" for bs n
    using that
  proof (induction bs arbitrary: n)
    case (Cons b bs)
    show ?case
    proof (cases "n < 8")
      case True
      then show ?thesis by (simp add: nth_append byte_bits_def rev_nth)
    next
      case False
      then have "n div 8 = Suc ((n - 8) div 8)" and "n mod 8 = (n - 8) mod 8"
        by (simp_all add: le_div_geq le_mod_geq)
      with False Cons show ?thesis by (simp add: nth_append byte_bits_def)
    qed
  qed simp
  show ?thesis
  proof (rule nth_equalityI)
    fix n assume "n < length (concat (map byte_bits (hash_bytes h)))"
    then have n: "n < 256" by (simp add: len)
    have "8 * (n div 8) + n mod 8 = n" "n mod 8 < 8" by simp_all
    then have "8 * (31 - n div 8) + (7 - n mod 8) = 256 - 1 - n" using n by linarith
    moreover have "concat (map byte_bits (hash_bytes h)) ! n = bit (hash_bytes h ! (n div 8)) (7 - n mod 8)"
      by (rule nth) (simp add: n)
    moreover have "bit (hash_bytes h ! (n div 8)) (7 - n mod 8)
        = bit h (8 * (31 - n div 8) + (7 - n mod 8))"
      using n by (intro bit_hash_bytes_nth) simp_all
    ultimately have "concat (map byte_bits (hash_bytes h)) ! n = bit h (256 - 1 - n)" by simp
    then show "concat (map byte_bits (hash_bytes h)) ! n = map (bit h) (rev [0..<256]) ! n"
      by (simp only: map_rev_upt_nth [OF n])
  qed (simp add: len)
qed

lemma unat_LeadingZeroBits:
  "unat (LeadingZeroBits h) = length (takeWhile Not (map (bit h) (rev [0..<256])))"
proof -
  let ?n = "length (takeWhile Not (map (bit h) (rev [0..<256])))"
  have "?n \<le> 256" by (metis length_takeWhile_le length_map length_rev length_upt diff_zero)
  then show ?thesis
    by (simp add: LeadingZeroBits_def lzb_loop_count concat_byte_bits unat_of_nat take_bit_eq_mod)
qed

lemma takeWhile_length_ge_iff:
  "k \<le> length (takeWhile P xs) \<longleftrightarrow> k \<le> length xs \<and> (\<forall>i < k. P (xs ! i))"
proof (induction xs arbitrary: k)
  case (Cons x xs)
  then show ?case by (cases k) (auto simp: less_Suc_eq_0_disj nth_Cons split: nat.splits)
qed auto

lemma hash_below_iff:
  fixes h :: hash
  assumes "k \<le> 256"
  shows "(\<forall>i < k. \<not> bit h (255 - i)) \<longleftrightarrow> unat h < 2 ^ (256 - k)"
proof -
  have "unat h < 2 ^ (256 - k) \<longleftrightarrow> take_bit (256 - k) (unat h) = unat h"
    by (rule take_bit_nat_eq_self_iff [symmetric])
  also have "\<dots> \<longleftrightarrow> (\<forall>n < 256. 256 - k \<le> n \<longrightarrow> \<not> bit h n)"
  proof -
    have "n < 256" if "bit h n" for n using bit_imp_le_length [OF that] by simp
    then have "(\<forall>n. (n < 256 - k \<and> bit h n) = bit h n) \<longleftrightarrow> (\<forall>n < 256. 256 - k \<le> n \<longrightarrow> \<not> bit h n)"
      using not_less by blast
    then show ?thesis by (simp add: bit_eq_iff bit_take_bit_iff bit_unsigned_iff)
  qed
  also have "\<dots> \<longleftrightarrow> (\<forall>i < k. \<not> bit h (255 - i))"
  proof (intro iffI allI impI)
    fix n assume *: "\<forall>i < k. \<not> bit h (255 - i)" and "n < 256" "256 - k \<le> n"
    then have "255 - n < k" and "255 - (255 - n) = n" using assms by auto
    with * show "\<not> bit h n" by metis
  qed (use assms in auto)
  finally show ?thesis by simp
qed

lemma MeetsDifficulty_target:
  "MeetsDifficulty h d \<longleftrightarrow> unat d \<le> 256 \<and> unat h < 2 ^ (256 - unat d)"
proof -
  have "MeetsDifficulty h d \<longleftrightarrow> unat d \<le> 256 \<and> (\<forall>i < unat d. \<not> bit h (255 - i))"
    by (auto simp: MeetsDifficulty_def word_le_nat_alt unat_LeadingZeroBits
        takeWhile_length_ge_iff rev_nth)
  then show ?thesis using hash_below_iff by auto
qed

end
