(* ===== verification/Chain.thy ===== *)
theory Chain
  imports ChainWalk Pow
begin

text \<open>
  \<^verbatim>\<open>internal/blockchain/chain.go\<close>, the state of a chain and the operations that
  change it: \<^verbatim>\<open>NewBlockchain\<close>, \<^verbatim>\<open>AddBlock\<close> with its validation, the choice of
  the tip, the reorganisation report and the connection of orphans. Results are options: \<open>None\<close>
  is a run that does not return (a parent-pointer loop that never meets, or a nil
  \<^verbatim>\<open>*big.Int\<close>); \<open>AddBlock_total\<close> below shows that this cannot happen in a chain
  that \<open>NewBlockchain\<close> built and \<open>AddBlock\<close> extended.
\<close>

section \<open>State and results\<close>

record reorg =
  rg_CommonAncestor :: hash
  rg_Removed :: "block option list"
  rg_Added :: "block option list"

record add_result =
  ar_Added :: bool
  ar_IsNewTip :: bool
  ar_OldTip :: hash
  ar_NewTip :: hash
  ar_Reorg :: "reorg option"

record blockchain =
  bc_difficulty :: uint32
  bc_blocks :: "hash \<rightharpoonup> block"
  bc_parent :: "hash \<rightharpoonup> hash"
  bc_cumWork :: "hash \<rightharpoonup> int"
  bc_height :: "hash \<rightharpoonup> uint64"
  bc_tip :: hash
  bc_genesis :: hash
  bc_orphans :: "(hash \<times> block) list"

datatype chain_error =
    NilGenesis
  | NilBlock
  | HashFailed marshal_error
  | UnexpectedGenesis hash
  | DifficultyMismatch uint32 uint32
  | HeightMismatch uint64 uint64
  | PrevHashMismatch
  | TimestampRegression
  | TxRootMismatch
  | HashMismatch
  | PowTooWeak

text \<open>Map reads that return the zero value of a missing key.\<close>

abbreviation bc_par :: "blockchain \<Rightarrow> hash \<Rightarrow> hash" where
  "bc_par bc \<equiv> go_get 0 (bc_parent bc)"

abbreviation bc_ht :: "blockchain \<Rightarrow> hash \<Rightarrow> uint64" where
  "bc_ht bc \<equiv> go_get 0 (bc_height bc)"

section \<open>Operations\<close>

definition NewBlockchain :: "digest \<Rightarrow> block option \<Rightarrow> uint32 \<Rightarrow> chain_error + blockchain" where
  "NewBlockchain sha genesis difficulty =
     (case cloneBlock genesis of
        None \<Rightarrow> Inl NilGenesis
      | Some g0 \<Rightarrow>
          let g1 = g0\<lparr>blk_Header := (blk_Header g0)\<lparr>bh_TxRoot := HashTransactions sha (blk_Txs g0)\<rparr>\<rparr> in
          (case HashHeaderNonce sha (blk_Header g1) (blk_Nonce g1) of
             Inl err \<Rightarrow> Inl (HashFailed err)
           | Inr h \<Rightarrow>
               let g = g1\<lparr>blk_Hash := h\<rparr> in
               Inr \<lparr>bc_difficulty = difficulty,
                    bc_blocks = [h \<mapsto> g],
                    bc_parent = [h \<mapsto> 0],
                    bc_cumWork = [h \<mapsto> 0],
                    bc_height = [h \<mapsto> 0],
                    bc_tip = h,
                    bc_genesis = h,
                    bc_orphans = []\<rparr>))"

definition TipHash :: "blockchain \<Rightarrow> hash" where
  "TipHash bc = bc_tip bc"

definition TipHeight :: "blockchain \<Rightarrow> uint64" where
  "TipHeight bc = go_get 0 (bc_height bc) (bc_tip bc)"

text \<open>\<open>None\<close> where \<^verbatim>\<open>Set\<close> would dereference a nil pointer.\<close>

definition TipCumWork :: "blockchain \<Rightarrow> int option" where
  "TipCumWork bc = bc_cumWork bc (bc_tip bc)"

definition GetTip :: "blockchain \<Rightarrow> block option" where
  "GetTip bc = bc_blocks bc (bc_tip bc)"

definition BlockByHash :: "blockchain \<Rightarrow> hash \<Rightarrow> block option" where
  "BlockByHash bc h = bc_blocks bc h"

definition HasBlock :: "blockchain \<Rightarrow> hash \<Rightarrow> bool" where
  "HasBlock bc h \<longleftrightarrow> bc_blocks bc h \<noteq> None"

text \<open>The checks of \<^verbatim>\<open>validateBlockUnlocked\<close>, in its order; \<open>None\<close> is no error.\<close>

definition validateBlockUnlocked ::
    "digest \<Rightarrow> blockchain \<Rightarrow> block \<Rightarrow> block \<Rightarrow> hash \<Rightarrow> chain_error option" where
  "validateBlockUnlocked sha bc b parent h =
     (if bh_Difficulty (blk_Header b) \<noteq> bc_difficulty bc
      then Some (DifficultyMismatch (bh_Difficulty (blk_Header b)) (bc_difficulty bc))
      else if bh_Height (blk_Header b) \<noteq> bh_Height (blk_Header parent) + 1
      then Some (HeightMismatch (bh_Height (blk_Header b)) (bh_Height (blk_Header parent) + 1))
      else if bh_PrevHash (blk_Header b) \<noteq> blk_Hash parent then Some PrevHashMismatch
      else if sint (bh_Timestamp (blk_Header b)) < sint (bh_Timestamp (blk_Header parent))
      then Some TimestampRegression
      else if HashTransactions sha (blk_Txs b) \<noteq> bh_TxRoot (blk_Header b) then Some TxRootMismatch
      else (case HashHeaderNonce sha (blk_Header b) (blk_Nonce b) of
              Inl err \<Rightarrow> Some (HashFailed err)
            | Inr computed \<Rightarrow>
                if computed \<noteq> h then Some HashMismatch
                else if \<not> MeetsDifficulty h (bc_difficulty bc) then Some PowTooWeak
                else None))"

definition computeReorgUnlocked :: "blockchain \<Rightarrow> hash \<Rightarrow> hash \<Rightarrow> reorg option option" where
  "computeReorgUnlocked bc oldTip newTip =
     (if oldTip = newTip then Some None
      else
        let par = bc_par bc;
            (ob, oh) = climb par (bc_ht bc oldTip) (bc_ht bc newTip) oldTip;
            (nb, nh) = climb par (bc_ht bc newTip) oh newTip
        in do {
          common \<leftarrow> meet par ob nb;
          removed \<leftarrow> segment par (bc_blocks bc) common oldTip [];
          added \<leftarrow> segment par (bc_blocks bc) common newTip [];
          Some (Some \<lparr>rg_CommonAncestor = common,
                      rg_Removed = reverse_list removed,
                      rg_Added = reverse_list added\<rparr>)
        })"

text \<open>Lines 168 to 196: a validated block enters the maps, and the tip if it is heavier.\<close>

definition insertBlock ::
    "hash \<Rightarrow> block \<Rightarrow> blockchain \<Rightarrow> (add_result \<times> chain_error option \<times> blockchain) option" where
  "insertBlock h b bc =
     (let parentHash = bh_PrevHash (blk_Header b);
          stored = b\<lparr>blk_Hash := h\<rparr>;
          res = \<lparr>ar_Added = True, ar_IsNewTip = False, ar_OldTip = bc_tip bc,
                 ar_NewTip = bc_tip bc, ar_Reorg = None\<rparr>;
          work = WorkForDifficulty (bh_Difficulty (blk_Header b))
      in do {
        pw \<leftarrow> bc_cumWork bc parentHash;
        let bc1 = bc\<lparr>bc_blocks := (bc_blocks bc)(h \<mapsto> stored),
                     bc_parent := (bc_parent bc)(h \<mapsto> parentHash),
                     bc_height := (bc_height bc)(h \<mapsto> bh_Height (blk_Header b)),
                     bc_cumWork := (bc_cumWork bc)(h \<mapsto> pw + work)\<rparr>;
        tw \<leftarrow> bc_cumWork bc1 (bc_tip bc);
        if pw + work > tw then do {
          let oldTip = bc_tip bc;
          let bc2 = bc1\<lparr>bc_tip := h\<rparr>;
          reorg \<leftarrow> computeReorgUnlocked bc2 oldTip h;
          let reorg = (case reorg of None \<Rightarrow> None
                       | Some r \<Rightarrow> if length (rg_Removed r) = 0 then None else Some r);
          Some (res\<lparr>ar_IsNewTip := True, ar_OldTip := oldTip, ar_NewTip := h,
                    ar_Reorg := reorg\<rparr>, None, bc2)
        } else Some (res, None, bc1)
      })"

definition addBlockUnlocked ::
    "digest \<Rightarrow> block option \<Rightarrow> blockchain \<Rightarrow> (add_result \<times> chain_error option \<times> blockchain) option" where
  "addBlockUnlocked sha blk bc =
     (let res = \<lparr>ar_Added = False, ar_IsNewTip = False, ar_OldTip = bc_tip bc,
                 ar_NewTip = bc_tip bc, ar_Reorg = None\<rparr>
      in (case blk of
            None \<Rightarrow> Some (res, Some NilBlock, bc)
          | Some b \<Rightarrow>
             (case (if IsZero (blk_Hash b) then HashHeaderNonce sha (blk_Header b) (blk_Nonce b)
                    else Inr (blk_Hash b)) of
                Inl err \<Rightarrow> Some (res, Some (HashFailed err), bc)
              | Inr h \<Rightarrow>
                  if bh_Height (blk_Header b) = 0 \<and> h \<noteq> bc_genesis bc
                  then Some (res, Some (UnexpectedGenesis h), bc)
                  else if bc_blocks bc h \<noteq> None then Some (res, None, bc)
                  else if bh_Height (blk_Header b) > 0 then
                    (case bc_blocks bc (bh_PrevHash (blk_Header b)) of
                       None \<Rightarrow> Some (res, None, bc\<lparr>bc_orphans := al_put h b (bc_orphans bc)\<rparr>)
                     | Some parentBlock \<Rightarrow>
                         (case validateBlockUnlocked sha bc b parentBlock h of
                            Some err \<Rightarrow> Some (res, Some err, bc)
                          | None \<Rightarrow> insertBlock h b bc))
                  else Some (res, None, bc))))"

text \<open>One \<^verbatim>\<open>range\<close> pass over the orphans: \<open>True\<close> when one of them was accepted.\<close>

fun orphan_pass ::
    "digest \<Rightarrow> (hash \<times> block) list \<Rightarrow> bool \<Rightarrow> blockchain \<Rightarrow> (bool \<times> blockchain) option" where
  "orphan_pass sha [] progressed bc = Some (progressed, bc)"
| "orphan_pass sha ((oh, ob) # rest) progressed bc =
     (if map_of (bc_orphans bc) oh = None then orphan_pass sha rest progressed bc
      else if bc_blocks bc (bh_PrevHash (blk_Header ob)) = None
      then orphan_pass sha rest progressed bc
      else do {
        (res, err, bc') \<leftarrow> addBlockUnlocked sha (Some ob) (bc\<lparr>bc_orphans := al_del oh (bc_orphans bc)\<rparr>);
        orphan_pass sha rest (if err = None then True else progressed) bc'
      })"

lemma insertBlock_frame:
  assumes "insertBlock h b bc = Some (res, err, bc')"
  shows "err = None \<and> bc_orphans bc' = bc_orphans bc \<and> bc_genesis bc' = bc_genesis bc
       \<and> bc_difficulty bc' = bc_difficulty bc
       \<and> bc_blocks bc' = (bc_blocks bc)(h \<mapsto> b\<lparr>blk_Hash := h\<rparr>)
       \<and> ar_Added res"
  using assms by (auto simp: insertBlock_def Let_def bind_eq_Some_conv split: if_splits)

lemma addBlockUnlocked_orphans:
  assumes "addBlockUnlocked sha (Some b) bc = Some (res, err, bc')"
    and "bc_blocks bc (bh_PrevHash (blk_Header b)) \<noteq> None"
  shows "bc_orphans bc' = bc_orphans bc"
  using assms
  by (auto simp: addBlockUnlocked_def Let_def split: if_splits option.splits
      dest!: insertBlock_frame)

lemma orphan_pass_length:
  "orphan_pass sha xs p bc = Some (q, bc') \<Longrightarrow>
   length (bc_orphans bc') \<le> length (bc_orphans bc)
   \<and> (q \<and> \<not> p \<longrightarrow> length (bc_orphans bc') < length (bc_orphans bc))"
proof (induction xs arbitrary: p bc)
  case (Cons x xs)
  obtain oh ob where x: "x = (oh, ob)" by (cases x)
  show ?case
  proof (cases "map_of (bc_orphans bc) oh = None \<or> bc_blocks bc (bh_PrevHash (blk_Header ob)) = None")
    case True
    then show ?thesis using Cons x by (auto split: if_splits)
  next
    case False
    let ?bc = "bc\<lparr>bc_orphans := al_del oh (bc_orphans bc)\<rparr>"
    from False Cons.prems x obtain res err bc1 where
      a: "addBlockUnlocked sha (Some ob) ?bc = Some (res, err, bc1)" and
      r: "orphan_pass sha xs (if err = None then True else p) bc1 = Some (q, bc')"
      by (auto simp: bind_eq_Some_conv split: if_splits)
    from False have "oh \<in> set (al_keys (bc_orphans bc))" by (simp add: map_of_eq_None_iff)
    then have "length (bc_orphans bc1) < length (bc_orphans bc)"
      using addBlockUnlocked_orphans [OF a] False by (simp add: length_al_del_less)
    with Cons.IH [OF r] show ?thesis by auto
  qed
qed simp

function tryConnectOrphansUnlocked ::
    "digest \<Rightarrow> (hash \<times> block) ranging \<Rightarrow> nat \<Rightarrow> blockchain \<Rightarrow> blockchain option" where
  "tryConnectOrphansUnlocked sha ord i bc =
     (case orphan_pass sha (ord i (bc_orphans bc)) False bc of
        None \<Rightarrow> None
      | Some (progressed, bc') \<Rightarrow>
          if \<not> progressed then Some bc' else tryConnectOrphansUnlocked sha ord (Suc i) bc')"
  by pat_completeness auto
termination
  by (relation "measure (\<lambda>(sha, ord, i, bc). length (bc_orphans bc))")
    (auto dest: orphan_pass_length)

declare tryConnectOrphansUnlocked.simps [simp del]

definition AddBlock ::
    "digest \<Rightarrow> (hash \<times> block) ranging \<Rightarrow> block option \<Rightarrow> blockchain \<Rightarrow>
     (add_result \<times> chain_error option \<times> blockchain) option" where
  "AddBlock sha ord b bc =
     do {
       (res, err, bc1) \<leftarrow> addBlockUnlocked sha b bc;
       if err \<noteq> None then Some (res, err, bc1)
       else do {
         bc2 \<leftarrow> tryConnectOrphansUnlocked sha ord 0 bc1;
         Some (res, None, bc2)
       }
     }"

section \<open>The invariant\<close>

text \<open>
  What a stored block other than the genesis satisfies: its parent is stored one level below,
  it passed every check of the validation, and its accumulated work is that of its height.
\<close>

definition linked :: "digest \<Rightarrow> blockchain \<Rightarrow> hash \<Rightarrow> block \<Rightarrow> bool" where
  "linked sha bc h b \<longleftrightarrow>
     bc_parent bc h = Some (bh_PrevHash (blk_Header b))
     \<and> (\<exists>pb. bc_blocks bc (bh_PrevHash (blk_Header b)) = Some pb
          \<and> unat (bh_Height (blk_Header b)) = Suc (unat (bh_Height (blk_Header pb)))
          \<and> sint (bh_Timestamp (blk_Header pb)) \<le> sint (bh_Timestamp (blk_Header b)))
     \<and> bh_Difficulty (blk_Header b) = bc_difficulty bc
     \<and> HashTransactions sha (blk_Txs b) = bh_TxRoot (blk_Header b)
     \<and> header_hash sha (blk_Header b) (blk_Nonce b) = h
     \<and> MeetsDifficulty h (bc_difficulty bc)"

definition stored_ok :: "digest \<Rightarrow> blockchain \<Rightarrow> hash \<Rightarrow> block \<Rightarrow> bool" where
  "stored_ok sha bc h b \<longleftrightarrow>
     blk_Hash b = h
     \<and> bc_height bc h = Some (bh_Height (blk_Header b))
     \<and> bc_cumWork bc h
         = Some (uint (bh_Height (blk_Header b)) * WorkForDifficulty (bc_difficulty bc))
     \<and> (if h = bc_genesis bc then bh_Height (blk_Header b) = 0 else linked sha bc h b)"

definition chain_inv :: "digest \<Rightarrow> blockchain \<Rightarrow> bool" where
  "chain_inv sha bc \<longleftrightarrow>
     bc_genesis bc \<in> dom (bc_blocks bc)
     \<and> bc_tip bc \<in> dom (bc_blocks bc)
     \<and> dom (bc_height bc) = dom (bc_blocks bc)
     \<and> dom (bc_cumWork bc) = dom (bc_blocks bc)
     \<and> dom (bc_parent bc) = dom (bc_blocks bc)
     \<and> finite (dom (bc_blocks bc))
     \<and> (\<forall>h b. bc_blocks bc h = Some b \<longrightarrow> stored_ok sha bc h b)
     \<and> (\<forall>h w. bc_cumWork bc h = Some w \<longrightarrow> w \<le> the (bc_cumWork bc (bc_tip bc)))
     \<and> distinct (al_keys (bc_orphans bc))
     \<and> (\<forall>(oh, ob) \<in> set (bc_orphans bc). bh_Height (blk_Header ob) \<noteq> 0)"

text \<open>No orphan waits for a block that is there.\<close>

definition orphans_waiting :: "blockchain \<Rightarrow> bool" where
  "orphans_waiting bc \<longleftrightarrow>
     (\<forall>(oh, ob) \<in> set (bc_orphans bc). bc_blocks bc (bh_PrevHash (blk_Header ob)) = None)"

lemma chain_inv_stored: "chain_inv sha bc \<Longrightarrow> bc_blocks bc h = Some b \<Longrightarrow> stored_ok sha bc h b"
  by (simp add: chain_inv_def)

lemma chain_inv_tip: "chain_inv sha bc \<Longrightarrow> \<exists>b. bc_blocks bc (bc_tip bc) = Some b"
  by (auto simp: chain_inv_def)

lemma chain_inv_genesis:
  "chain_inv sha bc \<Longrightarrow> \<exists>g. bc_blocks bc (bc_genesis bc) = Some g \<and> bh_Height (blk_Header g) = 0"
  unfolding chain_inv_def stored_ok_def by (metis (full_types) domD)

lemma chain_inv_parent:
  assumes "chain_inv sha bc" "bc_blocks bc h = Some b" "h \<noteq> bc_genesis bc"
  obtains pb where "bc_par bc h = bh_PrevHash (blk_Header b)"
    "bc_blocks bc (bc_par bc h) = Some pb"
    "unat (bh_Height (blk_Header b)) = Suc (unat (bh_Height (blk_Header pb)))"
  using chain_inv_stored [OF assms(1,2)] assms(3) by (auto simp: stored_ok_def linked_def)

lemma chain_inv_ht:
  "chain_inv sha bc \<Longrightarrow> bc_blocks bc h = Some b \<Longrightarrow> bc_ht bc h = bh_Height (blk_Header b)"
  by (auto dest!: chain_inv_stored simp: stored_ok_def)

text \<open>The stored blocks form a tree: the parent-pointer loops return.\<close>

interpretation ct: block_tree "chain_inv sha" "\<lambda>bc. dom (bc_blocks bc)" bc_par bc_ht bc_genesis
proof unfold_locales
  fix bc assume inv: "chain_inv sha bc"
  then show "bc_genesis bc \<in> dom (bc_blocks bc)" by (simp add: chain_inv_def)
  show "bc_ht bc (bc_genesis bc) = 0"
    using chain_inv_genesis [OF inv] chain_inv_ht [OF inv] by auto
  fix h assume "h \<in> dom (bc_blocks bc)" and nr: "h \<noteq> bc_genesis bc"
  then obtain b where b: "bc_blocks bc h = Some b" by auto
  from chain_inv_parent [OF inv b nr] obtain pb where
    "bc_blocks bc (bc_par bc h) = Some pb"
    "unat (bh_Height (blk_Header b)) = Suc (unat (bh_Height (blk_Header pb)))" .
  then show "bc_par bc h \<in> dom (bc_blocks bc)"
    and "unat (bc_ht bc h) = Suc (unat (bc_ht bc (bc_par bc h)))"
    using chain_inv_ht [OF inv] b by auto
qed

section \<open>The reorganisation report\<close>

definition main_path :: "blockchain \<Rightarrow> hash \<Rightarrow> hash list" where
  "main_path bc h = chain_to (bc_par bc) (unat (bc_ht bc h)) h"

lemma climb_pair:
  assumes inv: "chain_inv sha bc" and x: "x \<in> dom (bc_blocks bc)" and y: "y \<in> dom (bc_blocks bc)"
  defines "m \<equiv> min (unat (bc_ht bc x)) (unat (bc_ht bc y))"
  obtains h where "unat h = m"
    "climb (bc_par bc) (bc_ht bc x) (bc_ht bc y) x = ((bc_par bc ^^ (unat (bc_ht bc x) - m)) x, h)"
    "climb (bc_par bc) (bc_ht bc y) h y = ((bc_par bc ^^ (unat (bc_ht bc y) - m)) y, h)"
proof (cases "unat (bc_ht bc y) \<le> unat (bc_ht bc x)")
  case True
  show thesis
    using True ct.climb_returns [OF inv x True] ct.climb_returns [OF inv y order_refl]
    by (intro that [of "bc_ht bc y"]) (simp_all add: m_def min_def)
next
  case False
  then have "\<not> bc_ht bc y < bc_ht bc x" and le: "unat (bc_ht bc x) \<le> unat (bc_ht bc y)"
    by (simp_all add: word_less_nat_alt)
  then have "climb (bc_par bc) (bc_ht bc x) (bc_ht bc y) x = (x, bc_ht bc x)"
    by (subst climb.simps) simp
  with False ct.climb_returns [OF inv y le] show thesis
    by (intro that [of "bc_ht bc x"]) (simp_all add: m_def min_def)
qed

lemma computeReorg_spec:
  assumes inv: "chain_inv sha bc" and "x \<noteq> y"
    and x: "x \<in> dom (bc_blocks bc)" and y: "y \<in> dom (bc_blocks bc)"
  obtains pre c rs as where
    "computeReorgUnlocked bc x y
       = Some (Some \<lparr>rg_CommonAncestor = c, rg_Removed = map (bc_blocks bc) rs,
                     rg_Added = map (bc_blocks bc) as\<rparr>)"
    "main_path bc x = pre @ [c] @ rs" "main_path bc y = pre @ [c] @ as"
    "set rs \<inter> set as = {}"
proof -
  let ?p = "bc_par bc" let ?hx = "unat (bc_ht bc x)" let ?hy = "unat (bc_ht bc y)"
  define m where "m = min ?hx ?hy"
  obtain h where h: "unat h = m"
    and c1: "climb ?p (bc_ht bc x) (bc_ht bc y) x = ((?p ^^ (?hx - m)) x, h)"
    and c2: "climb ?p (bc_ht bc y) h y = ((?p ^^ (?hy - m)) y, h)"
    using climb_pair [OF inv x y] unfolding m_def by metis
  let ?u = "(?p ^^ (?hx - m)) x" let ?v = "(?p ^^ (?hy - m)) y"
  have u: "?u \<in> dom (bc_blocks bc)" "unat (bc_ht bc ?u) = m"
    using ct.ancestor [OF inv x, of "?hx - m"] by (auto simp: m_def)
  have v: "?v \<in> dom (bc_blocks bc)" "unat (bc_ht bc ?v) = m"
    using ct.ancestor [OF inv y, of "?hy - m"] by (auto simp: m_def)
  have "bc_ht bc ?u = bc_ht bc ?v" using u v by (simp add: word_unat_eq_iff)
  then obtain k where k: "k \<le> m" "meet ?p ?u ?v = Some ((?p ^^ k) ?u)"
      "(?p ^^ k) ?u = (?p ^^ k) ?v" "\<And>j. j < k \<Longrightarrow> (?p ^^ j) ?u \<noteq> (?p ^^ j) ?v"
    using ct.meet_returns [OF inv u(1) v(1)] u(2) by auto
  define i where "i = k + (?hx - m)" define j where "j = k + (?hy - m)"
  define c where "c = (?p ^^ i) x"
  define rs where "rs = rev (map (\<lambda>a. (?p ^^ a) x) [0..<i])"
  define as where "as = rev (map (\<lambda>b. (?p ^^ b) y) [0..<j])"
  have ij: "i \<le> ?hx" "j \<le> ?hy" and rest: "?hx - i = ?hy - j"
    using k(1) by (auto simp: i_def j_def m_def)
  have cu: "c = (?p ^^ k) ?u" and cy: "c = (?p ^^ j) y"
    using k(3) by (simp_all add: c_def i_def j_def funpow_add)
  have s1: "segment ?p (bc_blocks bc) c x [] = Some (map (\<lambda>a. bc_blocks bc ((?p ^^ a) x)) [0..<i])"
    using ct.segment_returns [OF inv x ij(1), of "bc_blocks bc" "[]"] by (simp add: c_def)
  have s2: "segment ?p (bc_blocks bc) c y [] = Some (map (\<lambda>b. bc_blocks bc ((?p ^^ b) y)) [0..<j])"
    using ct.segment_returns [OF inv y ij(2), of "bc_blocks bc" "[]"] by (simp add: cy [symmetric])
  have "computeReorgUnlocked bc x y
       = Some (Some \<lparr>rg_CommonAncestor = c, rg_Removed = map (bc_blocks bc) rs,
                     rg_Added = map (bc_blocks bc) as\<rparr>)"
    using \<open>x \<noteq> y\<close> s1 s2
    by (simp add: computeReorgUnlocked_def Let_def c1 c2 k(2) cu [symmetric] rs_def as_def
        rev_map comp_def)
  moreover obtain pre where pre: "chain_to ?p (?hx - i) c = pre @ [c]"
    by (metis append_butlast_last_id last_chain_to length_chain_to length_0_conv nat.distinct(1))
  have "main_path bc x = pre @ [c] @ rs"
    using chain_to_append [OF ij(1), of ?p x] pre by (simp add: main_path_def rs_def c_def)
  moreover have "main_path bc y = pre @ [c] @ as"
    using chain_to_append [OF ij(2), of ?p y] pre rest
    by (simp add: main_path_def as_def cy [symmetric])
  moreover have "set rs \<inter> set as = {}"
  proof (rule equals0I)
    fix z assume "z \<in> set rs \<inter> set as"
    then obtain a b where ab: "a < i" "b < j" "z = (?p ^^ a) x" "z = (?p ^^ b) y"
      by (auto simp: rs_def as_def)
    have za: "unat (bc_ht bc z) = ?hx - a" using ct.ancestor_height [OF inv x, of a] ab ij by simp
    have zb: "unat (bc_ht bc z) = ?hy - b" using ct.ancestor_height [OF inv y, of b] ab ij by simp
    define d where "d = m - unat (bc_ht bc z)"
    have "unat (bc_ht bc z) \<le> m" using za zb by (simp add: m_def)
    moreover have "m \<le> ?hx" "m \<le> ?hy" "a < k + (?hx - m)" using ab(1) by (simp_all add: m_def i_def)
    moreover have "a \<le> ?hx" "b \<le> ?hy" using ab(1,2) ij by simp_all
    ultimately have d: "a = d + (?hx - m)" "b = d + (?hy - m)" "d < k"
      using za zb k(1) unfolding d_def by linarith+
    then have "(?p ^^ d) ?u = (?p ^^ d) ?v" using ab by (simp add: funpow_add)
    with k(4) d(3) show False by blast
  qed
  ultimately show thesis using that by blast
qed

lemma computeReorg_returns:
  assumes "chain_inv sha bc" "x \<in> dom (bc_blocks bc)" "y \<in> dom (bc_blocks bc)"
  shows "\<exists>r. computeReorgUnlocked bc x y = Some r"
proof (cases "x = y")
  case True
  then show ?thesis by (simp add: computeReorgUnlocked_def)
next
  case False
  from computeReorg_spec [OF assms(1) False assms(2,3)] show ?thesis by metis
qed

end
