(* ===== verification/ChainInv.thy ===== *)
theory ChainInv
  imports Chain
begin

text \<open>
  The operations of \<open>Chain\<close> keep \<open>chain_inv\<close>, return in every chain that satisfies
  it, and report what they did; the chains that \<^verbatim>\<open>NewBlockchain\<close> and
  \<^verbatim>\<open>AddBlock\<close> can produce (\<open>chain_reachable\<close>) satisfy it.
\<close>

section \<open>The genesis\<close>

lemma NewBlockchain_inv:
  assumes "NewBlockchain sha (Some g) d = Inr bc" and "bh_Height (blk_Header g) = 0"
  shows "chain_inv sha bc \<and> orphans_waiting bc"
  using assms
  by (auto simp: NewBlockchain_def Let_def chain_inv_def stored_ok_def orphans_waiting_def
      split: if_splits)

lemma NewBlockchain_total: "\<exists>bc. NewBlockchain sha (Some g) d = Inr bc"
  by (simp add: NewBlockchain_def Let_def)

section \<open>Validation\<close>

lemma validate_None_iff:
  "validateBlockUnlocked sha bc b pb h = None \<longleftrightarrow>
     bh_Difficulty (blk_Header b) = bc_difficulty bc
     \<and> bh_Height (blk_Header b) = bh_Height (blk_Header pb) + 1
     \<and> bh_PrevHash (blk_Header b) = blk_Hash pb
     \<and> sint (bh_Timestamp (blk_Header pb)) \<le> sint (bh_Timestamp (blk_Header b))
     \<and> HashTransactions sha (blk_Txs b) = bh_TxRoot (blk_Header b)
     \<and> header_hash sha (blk_Header b) (blk_Nonce b) = h
     \<and> MeetsDifficulty h (bc_difficulty bc)"
  by (auto simp: validateBlockUnlocked_def)

lemma height_succ:
  "a = b + 1 \<Longrightarrow> a \<noteq> 0 \<Longrightarrow> unat a = Suc (unat b)" for a b :: uint64
  by (metis add.commute unatSuc)

lemma validate_height:
  assumes "validateBlockUnlocked sha bc b pb h = None" and "bh_Height (blk_Header b) \<noteq> 0"
  shows "unat (bh_Height (blk_Header b)) = Suc (unat (bh_Height (blk_Header pb)))"
    and "uint (bh_Height (blk_Header b)) = uint (bh_Height (blk_Header pb)) + 1"
proof -
  show "unat (bh_Height (blk_Header b)) = Suc (unat (bh_Height (blk_Header pb)))"
    using assms by (intro height_succ) (auto simp: validate_None_iff)
  then show "uint (bh_Height (blk_Header b)) = uint (bh_Height (blk_Header pb)) + 1"
    by (metis of_nat_Suc add.commute uint_nat)
qed

section \<open>Insertion\<close>

text \<open>The maps after the insertion, before the choice of the tip.\<close>

definition grown :: "hash \<Rightarrow> block \<Rightarrow> int \<Rightarrow> blockchain \<Rightarrow> blockchain" where
  "grown h b w bc = bc\<lparr>bc_blocks := (bc_blocks bc)(h \<mapsto> b\<lparr>blk_Hash := h\<rparr>),
     bc_parent := (bc_parent bc)(h \<mapsto> bh_PrevHash (blk_Header b)),
     bc_height := (bc_height bc)(h \<mapsto> bh_Height (blk_Header b)),
     bc_cumWork := (bc_cumWork bc)(h \<mapsto> w)\<rparr>"

lemma grown_simps [simp]:
  "bc_blocks (grown h b w bc) = (bc_blocks bc)(h \<mapsto> b\<lparr>blk_Hash := h\<rparr>)"
  "bc_parent (grown h b w bc) = (bc_parent bc)(h \<mapsto> bh_PrevHash (blk_Header b))"
  "bc_height (grown h b w bc) = (bc_height bc)(h \<mapsto> bh_Height (blk_Header b))"
  "bc_cumWork (grown h b w bc) = (bc_cumWork bc)(h \<mapsto> w)"
  "bc_difficulty (grown h b w bc) = bc_difficulty bc"
  "bc_genesis (grown h b w bc) = bc_genesis bc"
  "bc_tip (grown h b w bc) = bc_tip bc"
  "bc_orphans (grown h b w bc) = bc_orphans bc"
  by (simp_all add: grown_def)

lemma linked_grown:
  "linked sha bc h' b' \<Longrightarrow> bc_blocks bc h = None \<Longrightarrow> h' \<noteq> h \<Longrightarrow>
   linked sha ((grown h b w bc)\<lparr>bc_tip := t\<rparr>) h' b'"
  by (auto simp: linked_def)

lemma grown_inv:
  assumes inv: "chain_inv sha bc" and fresh: "bc_blocks bc h = None"
    and pb: "bc_blocks bc (bh_PrevHash (blk_Header b)) = Some pb"
    and val: "validateBlockUnlocked sha bc b pb h = None"
    and nz: "bh_Height (blk_Header b) \<noteq> 0"
    and w: "w = uint (bh_Height (blk_Header b)) * WorkForDifficulty (bc_difficulty bc)"
    and t: "t = (if the (bc_cumWork bc (bc_tip bc)) < w then h else bc_tip bc)"
  shows "chain_inv sha ((grown h b w bc)\<lparr>bc_tip := t\<rparr>)" (is "chain_inv sha ?bc")
proof -
  have hg: "h \<noteq> bc_genesis bc" using inv fresh by (auto simp: chain_inv_def)
  have new: "stored_ok sha ?bc h (b\<lparr>blk_Hash := h\<rparr>)"
    using val pb fresh hg w validate_height(1) [OF val nz]
    by (auto simp: stored_ok_def linked_def validate_None_iff)
  have old: "stored_ok sha ?bc h' b'" if "bc_blocks bc h' = Some b'" for h' b'
  proof -
    have "h' \<noteq> h" using that fresh by auto
    then show ?thesis
      using chain_inv_stored [OF inv that] linked_grown [OF _ fresh] by (auto simp: stored_ok_def)
  qed
  have "\<forall>h' b'. bc_blocks ?bc h' = Some b' \<longrightarrow> stored_ok sha ?bc h' b'" using new old by auto
  moreover have "\<forall>h' v. bc_cumWork ?bc h' = Some v \<longrightarrow> v \<le> the (bc_cumWork ?bc (bc_tip ?bc))"
  proof -
    have "bc_tip bc \<noteq> h" using inv fresh by (auto simp: chain_inv_def)
    moreover have "v \<le> the (bc_cumWork bc (bc_tip bc))" if "bc_cumWork bc h' = Some v" for h' v
      using inv that by (auto simp: chain_inv_def)
    ultimately show ?thesis using t by (fastforce split: if_splits)
  qed
  ultimately show ?thesis using inv t unfolding chain_inv_def by auto
qed

text \<open>
  The report of an insertion: the new tip, and the reorganisation exactly when blocks leave
  the main chain, as the two segments behind the last common block.
\<close>

definition report_ok :: "blockchain \<Rightarrow> blockchain \<Rightarrow> add_result \<Rightarrow> bool" where
  "report_ok bc bc' res \<longleftrightarrow>
     ar_OldTip res = bc_tip bc \<and> ar_NewTip res = bc_tip bc'
     \<and> (ar_IsNewTip res \<longleftrightarrow> bc_tip bc' \<noteq> bc_tip bc)
     \<and> (\<not> ar_IsNewTip res \<longrightarrow> ar_Reorg res = None)
     \<and> (ar_IsNewTip res \<longrightarrow> (\<exists>pre c rs as.
          main_path bc' (bc_tip bc) = pre @ [c] @ rs
          \<and> main_path bc' (bc_tip bc') = pre @ [c] @ as
          \<and> set rs \<inter> set as = {}
          \<and> ar_Reorg res = (if rs = [] then None
               else Some \<lparr>rg_CommonAncestor = c, rg_Removed = map (bc_blocks bc') rs,
                          rg_Added = map (bc_blocks bc') as\<rparr>)))"

lemma insertBlock_ok:
  assumes inv: "chain_inv sha bc" and fresh: "bc_blocks bc h = None"
    and pb: "bc_blocks bc (bh_PrevHash (blk_Header b)) = Some pb"
    and val: "validateBlockUnlocked sha bc b pb h = None"
    and nz: "bh_Height (blk_Header b) \<noteq> 0"
  obtains res w t where "insertBlock h b bc = Some (res, None, (grown h b w bc)\<lparr>bc_tip := t\<rparr>)"
    "chain_inv sha ((grown h b w bc)\<lparr>bc_tip := t\<rparr>)"
    "report_ok bc ((grown h b w bc)\<lparr>bc_tip := t\<rparr>) res" "ar_Added res"
    "t = (if the (bc_cumWork bc (bc_tip bc)) < w then h else bc_tip bc)"
proof -
  let ?W = "WorkForDifficulty (bc_difficulty bc)"
  define w where "w = uint (bh_Height (blk_Header b)) * ?W"
  obtain tb where tb: "bc_blocks bc (bc_tip bc) = Some tb" using chain_inv_tip [OF inv] by auto
  obtain tw where tw: "bc_cumWork bc (bc_tip bc) = Some tw"
    using chain_inv_stored [OF inv tb] by (auto simp: stored_ok_def)
  have th: "bc_tip bc \<noteq> h" using tb fresh by auto
  have pw: "bc_cumWork bc (bh_PrevHash (blk_Header b)) = Some (w - ?W)"
    using chain_inv_stored [OF inv pb] validate_height(2) [OF val nz]
    by (simp add: stored_ok_def w_def algebra_simps)
  have diff: "bh_Difficulty (blk_Header b) = bc_difficulty bc"
    using val by (simp add: validate_None_iff)
  let ?t = "if tw < w then h else bc_tip bc"
  let ?bc = "(grown h b w bc)\<lparr>bc_tip := ?t\<rparr>"
  have inv': "chain_inv sha ?bc" using grown_inv [OF inv fresh pb val nz w_def] tw by simp
  show thesis
  proof (cases "tw < w")
    case False
    let ?res = "\<lparr>ar_Added = True, ar_IsNewTip = False, ar_OldTip = bc_tip bc,
                 ar_NewTip = bc_tip bc, ar_Reorg = None\<rparr>"
    have "insertBlock h b bc = Some (?res, None, ?bc)"
      using False pw tw th diff by (simp add: insertBlock_def Let_def grown_def)
    with inv' tw False show thesis
      by (intro that [where res = ?res and w = w and t = ?t]) (auto simp: report_ok_def)
  next
    case True
    have dom: "bc_tip bc \<in> dom (bc_blocks ?bc)" "h \<in> dom (bc_blocks ?bc)" using tb by auto
    from computeReorg_spec [OF inv' th dom] obtain pre c rs as where
      r: "computeReorgUnlocked ?bc (bc_tip bc) h
           = Some (Some \<lparr>rg_CommonAncestor = c, rg_Removed = map (bc_blocks ?bc) rs,
                         rg_Added = map (bc_blocks ?bc) as\<rparr>)"
      and paths: "main_path ?bc (bc_tip bc) = pre @ [c] @ rs" "main_path ?bc h = pre @ [c] @ as"
        "set rs \<inter> set as = {}" .
    let ?reorg = "if rs = [] then None
      else Some \<lparr>rg_CommonAncestor = c, rg_Removed = map (bc_blocks ?bc) rs,
                 rg_Added = map (bc_blocks ?bc) as\<rparr>"
    let ?res = "\<lparr>ar_Added = True, ar_IsNewTip = True, ar_OldTip = bc_tip bc,
                 ar_NewTip = h, ar_Reorg = ?reorg\<rparr>"
    have "insertBlock h b bc = Some (?res, None, ?bc)"
      using True pw tw th diff r by (simp add: insertBlock_def Let_def grown_def)
    with inv' tw True th paths show thesis
      by (intro that [where res = ?res and w = w and t = ?t]) (auto simp: report_ok_def)
  qed
qed

section \<open>Adding one block\<close>

text \<open>The key a block is filed under: its claimed hash, computed when it claims none.\<close>

definition block_key :: "digest \<Rightarrow> block \<Rightarrow> hash" where
  "block_key sha b =
     (if blk_Hash b = 0 then header_hash sha (blk_Header b) (blk_Nonce b) else blk_Hash b)"

definition extends :: "blockchain \<Rightarrow> blockchain \<Rightarrow> bool" where
  "extends bc bc' \<longleftrightarrow>
     bc_blocks bc \<subseteq>\<^sub>m bc_blocks bc' \<and> bc_genesis bc' = bc_genesis bc
     \<and> bc_difficulty bc' = bc_difficulty bc
     \<and> (bc_tip bc' = bc_tip bc
          \<or> the (bc_cumWork bc (bc_tip bc)) < the (bc_cumWork bc' (bc_tip bc')))"

lemma extends_refl [simp]: "extends bc bc"
  by (simp add: extends_def)

lemma extends_block: "extends bc bc' \<Longrightarrow> bc_blocks bc h = Some b \<Longrightarrow> bc_blocks bc' h = Some b"
  by (metis domI extends_def map_le_def)

lemma extends_work:
  assumes "extends bc bc'" "chain_inv sha bc" "chain_inv sha bc'"
    and "bc_blocks bc h \<noteq> None"
  shows "bc_cumWork bc' h = bc_cumWork bc h"
proof -
  obtain b where b: "bc_blocks bc h = Some b" using assms by auto
  then have "bc_blocks bc' h = Some b" by (rule extends_block [OF assms(1)])
  then show ?thesis
    using chain_inv_stored [OF assms(2) b] chain_inv_stored [OF assms(3)] assms(1)
    by (auto simp: stored_ok_def extends_def)
qed

lemma extends_trans:
  assumes "extends a b" "extends b c" "chain_inv sha a" "chain_inv sha b" "chain_inv sha c"
  shows "extends a c"
proof -
  have "bc_blocks a (bc_tip a) \<noteq> None" using chain_inv_tip [OF assms(3)] by auto
  then have "bc_cumWork b (bc_tip a) = bc_cumWork a (bc_tip a)"
    using extends_work [OF assms(1,3,4)] by simp
  moreover have "bc_blocks b (bc_tip b) \<noteq> None" using chain_inv_tip [OF assms(4)] by auto
  then have "bc_cumWork c (bc_tip b) = bc_cumWork b (bc_tip b)"
    using extends_work [OF assms(2,4,5)] by simp
  moreover have "bc_blocks a \<subseteq>\<^sub>m bc_blocks c"
    using assms(1,2) map_le_trans unfolding extends_def by blast
  ultimately show ?thesis using assms(1,2) unfolding extends_def by (elim conjE disjE) simp_all
qed

definition no_change :: "blockchain \<Rightarrow> add_result" where
  "no_change bc = \<lparr>ar_Added = False, ar_IsNewTip = False, ar_OldTip = bc_tip bc,
                   ar_NewTip = bc_tip bc, ar_Reorg = None\<rparr>"

lemma addBlockUnlocked_Some:
  "addBlockUnlocked sha (Some b) bc =
     (if bh_Height (blk_Header b) = 0 \<and> block_key sha b \<noteq> bc_genesis bc
      then Some (no_change bc, Some (UnexpectedGenesis (block_key sha b)), bc)
      else if bc_blocks bc (block_key sha b) \<noteq> None then Some (no_change bc, None, bc)
      else if bh_Height (blk_Header b) > 0 then
        (case bc_blocks bc (bh_PrevHash (blk_Header b)) of
           None \<Rightarrow> Some (no_change bc, None,
                     bc\<lparr>bc_orphans := al_put (block_key sha b) b (bc_orphans bc)\<rparr>)
         | Some pb \<Rightarrow>
             (case validateBlockUnlocked sha bc b pb (block_key sha b) of
                Some err \<Rightarrow> Some (no_change bc, Some err, bc)
              | None \<Rightarrow> insertBlock (block_key sha b) b bc))
      else Some (no_change bc, None, bc))"
  unfolding addBlockUnlocked_def block_key_def no_change_def Let_def
  by (cases "blk_Hash b = 0") (simp_all cong: option.case_cong)

text \<open>How one call can end.\<close>

inductive add_outcome ::
    "digest \<Rightarrow> blockchain \<Rightarrow> block option \<Rightarrow> add_result \<Rightarrow> chain_error option \<Rightarrow> blockchain \<Rightarrow> bool"
  for sha bc where
  rejected: "\<lbrakk>err \<noteq> None; \<not> ar_Added res; report_ok bc bc res\<rbrakk> \<Longrightarrow> add_outcome sha bc b res err bc"
| known: "\<lbrakk>bc_blocks bc (block_key sha b) \<noteq> None; \<not> ar_Added res; report_ok bc bc res\<rbrakk>
    \<Longrightarrow> add_outcome sha bc (Some b) res None bc"
| orphaned: "\<lbrakk>bc_blocks bc (block_key sha b) = None;
      bc_blocks bc (bh_PrevHash (blk_Header b)) = None; bh_Height (blk_Header b) \<noteq> 0;
      \<not> ar_Added res; bc' = bc\<lparr>bc_orphans := al_put (block_key sha b) b (bc_orphans bc)\<rparr>;
      report_ok bc bc' res\<rbrakk>
    \<Longrightarrow> add_outcome sha bc (Some b) res None bc'"
| inserted: "\<lbrakk>bc_blocks bc (block_key sha b) = None;
      bc_blocks bc (bh_PrevHash (blk_Header b)) = Some pb;
      validateBlockUnlocked sha bc b pb (block_key sha b) = None; bh_Height (blk_Header b) \<noteq> 0;
      ar_Added res; bc' = (grown (block_key sha b) b w bc)\<lparr>bc_tip := t\<rparr>;
      t = (if the (bc_cumWork bc (bc_tip bc)) < w then block_key sha b else bc_tip bc);
      report_ok bc bc' res\<rbrakk>
    \<Longrightarrow> add_outcome sha bc (Some b) res None bc'"

lemma no_change_ok: "bc_tip bc' = bc_tip bc \<Longrightarrow> report_ok bc bc' (no_change bc) \<and> \<not> ar_Added (no_change bc)"
  by (simp add: report_ok_def no_change_def)

lemma addBlockUnlocked_ok:
  assumes inv: "chain_inv sha bc"
  obtains res err bc' where "addBlockUnlocked sha b bc = Some (res, err, bc')"
    "add_outcome sha bc b res err bc'" "chain_inv sha bc'"
proof -
  let ?no = "no_change bc"
  have no: "report_ok bc bc ?no \<and> \<not> ar_Added ?no" by (rule no_change_ok) simp
  have rej: "add_outcome sha bc b ?no e bc" if "e \<noteq> None" for e
    using that no by (intro add_outcome.rejected) simp_all
  show thesis
  proof (cases b)
    case None
    then have "addBlockUnlocked sha b bc = Some (?no, Some NilBlock, bc)"
      by (simp add: addBlockUnlocked_def no_change_def Let_def)
    then show thesis using rej [of "Some NilBlock"] inv by (rule that) simp
  next
    case (Some blk)
    let ?h = "block_key sha blk"
    note add = addBlockUnlocked_Some Some
    consider (gen) "bh_Height (blk_Header blk) = 0" "?h \<noteq> bc_genesis bc"
      | (kn) "\<not> (bh_Height (blk_Header blk) = 0 \<and> ?h \<noteq> bc_genesis bc)" "bc_blocks bc ?h \<noteq> None"
      | (orph) "bh_Height (blk_Header blk) \<noteq> 0" "bc_blocks bc ?h = None"
          "bc_blocks bc (bh_PrevHash (blk_Header blk)) = None"
      | (par) pb where "bh_Height (blk_Header blk) \<noteq> 0" "bc_blocks bc ?h = None"
          "bc_blocks bc (bh_PrevHash (blk_Header blk)) = Some pb"
    proof -
      have "bc_blocks bc (bc_genesis bc) \<noteq> None" using chain_inv_genesis [OF inv] by auto
      then show thesis using gen kn orph par by (metis not_None_eq)
    qed
    then show thesis
    proof cases
      case gen
      then have "addBlockUnlocked sha b bc = Some (?no, Some (UnexpectedGenesis ?h), bc)"
        by (simp add: add)
      then show thesis using rej [of "Some (UnexpectedGenesis ?h)"] inv by (rule that) simp
    next
      case kn
      then have "addBlockUnlocked sha b bc = Some (?no, None, bc)" by (simp add: add)
      moreover have "add_outcome sha bc b ?no None bc"
        unfolding Some using kn no by (intro add_outcome.known) simp_all
      ultimately show thesis using inv by (rule that)
    next
      case orph
      let ?bc = "bc\<lparr>bc_orphans := al_put ?h blk (bc_orphans bc)\<rparr>"
      have "addBlockUnlocked sha b bc = Some (?no, None, ?bc)"
        using orph by (simp add: add word_gt_0)
      moreover have "add_outcome sha bc b ?no None ?bc"
        unfolding Some using orph by (intro add_outcome.orphaned) (auto simp: no_change_ok)
      moreover have "chain_inv sha ?bc"
        using inv orph set_al_put_subset [of ?h blk "bc_orphans bc"]
        unfolding chain_inv_def stored_ok_def linked_def by (auto simp: distinct_al_put)
      ultimately show thesis by (rule that)
    next
      case par
      show thesis
      proof (cases "validateBlockUnlocked sha bc blk pb ?h")
        case (Some err)
        then have "addBlockUnlocked sha b bc = Some (?no, Some err, bc)"
          using par by (simp add: add word_gt_0)
        then show thesis using rej [of "Some err"] inv by (rule that) simp
      next
        case None
        from insertBlock_ok [OF inv par(2,3) None par(1)] obtain res w t where
          ins: "insertBlock ?h blk bc = Some (res, None, (grown ?h blk w bc)\<lparr>bc_tip := t\<rparr>)"
          and inv': "chain_inv sha ((grown ?h blk w bc)\<lparr>bc_tip := t\<rparr>)"
          and rep: "report_ok bc ((grown ?h blk w bc)\<lparr>bc_tip := t\<rparr>) res" "ar_Added res"
            "t = (if the (bc_cumWork bc (bc_tip bc)) < w then ?h else bc_tip bc)" .
        have "addBlockUnlocked sha b bc = Some (res, None, (grown ?h blk w bc)\<lparr>bc_tip := t\<rparr>)"
          using par None ins by (simp add: add word_gt_0)
        moreover have "add_outcome sha bc b res None ((grown ?h blk w bc)\<lparr>bc_tip := t\<rparr>)"
          unfolding \<open>b = Some blk\<close> using par None rep by (intro add_outcome.inserted) auto
        ultimately show thesis using inv' by (rule that)
      qed
    qed
  qed
qed

lemma add_outcome_extends:
  assumes "add_outcome sha bc b res err bc'" "chain_inv sha bc" "chain_inv sha bc'"
  shows "extends bc bc'"
  using assms
proof cases
  case (inserted blk pb w t)
  then show ?thesis by (auto simp: extends_def map_le_def)
qed (auto simp: extends_def)

lemma add_outcome_error: "add_outcome sha bc b res (Some e) bc' \<Longrightarrow> bc' = bc"
  by (erule add_outcome.cases) auto

section \<open>Connecting orphans\<close>

lemma chain_inv_del_orphan:
  "chain_inv sha bc \<Longrightarrow> chain_inv sha (bc\<lparr>bc_orphans := al_del k (bc_orphans bc)\<rparr>)"
  unfolding chain_inv_def stored_ok_def linked_def
  by (auto simp: distinct_al_del set_al_del)

lemma add_outcome_known_parent:
  assumes "add_outcome sha bc (Some b) res err bc'" "bc_blocks bc (bh_PrevHash (blk_Header b)) \<noteq> None"
  shows "bc_orphans bc' = bc_orphans bc"
  using assms by cases auto

text \<open>
  One pass returns, keeps the invariant and extends the chain; a pass that made no progress
  leaves the blocks alone and every orphan it visited waits for an unknown parent.
\<close>

lemma orphan_pass_ok:
  assumes "chain_inv sha bc"
  shows "\<exists>q bc'. orphan_pass sha xs p bc = Some (q, bc') \<and> chain_inv sha bc' \<and> extends bc bc'
     \<and> set (bc_orphans bc') \<subseteq> set (bc_orphans bc)
     \<and> (\<not> q \<longrightarrow> \<not> p \<and> bc_blocks bc' = bc_blocks bc \<and> bc_tip bc' = bc_tip bc
          \<and> (\<forall>(oh, ob) \<in> set xs. (oh, ob) \<in> set (bc_orphans bc')
                \<longrightarrow> bc_blocks bc' (bh_PrevHash (blk_Header ob)) = None))"
  using assms
proof (induction xs arbitrary: p bc)
  case (Cons x xs)
  obtain oh ob where x: "x = (oh, ob)" by (cases x)
  show ?case
  proof (cases "map_of (bc_orphans bc) oh = None \<or> bc_blocks bc (bh_PrevHash (blk_Header ob)) = None")
    case True
    then have step: "orphan_pass sha (x # xs) p bc = orphan_pass sha xs p bc" using x by auto
    have skip: "(oh, ob) \<notin> set (bc_orphans bc) \<or> bc_blocks bc (bh_PrevHash (blk_Header ob)) = None"
      using True by (force simp: map_of_eq_None_iff)
    from Cons.IH [OF Cons.prems, of p] obtain q bc' where
      r: "orphan_pass sha xs p bc = Some (q, bc')" "chain_inv sha bc'" "extends bc bc'"
         "set (bc_orphans bc') \<subseteq> set (bc_orphans bc)"
         "\<not> q \<longrightarrow> \<not> p \<and> bc_blocks bc' = bc_blocks bc \<and> bc_tip bc' = bc_tip bc
            \<and> (\<forall>(oh, ob) \<in> set xs. (oh, ob) \<in> set (bc_orphans bc')
                  \<longrightarrow> bc_blocks bc' (bh_PrevHash (blk_Header ob)) = None)"
      by blast
    then show ?thesis
      unfolding step using skip x by (intro exI [of _ q] exI [of _ bc'] conjI) auto
  next
    case False
    let ?bc = "bc\<lparr>bc_orphans := al_del oh (bc_orphans bc)\<rparr>"
    have inv1: "chain_inv sha ?bc" using Cons.prems by (rule chain_inv_del_orphan)
    from addBlockUnlocked_ok [OF inv1] obtain res err bc1 where
      a: "addBlockUnlocked sha (Some ob) ?bc = Some (res, err, bc1)"
      and o: "add_outcome sha ?bc (Some ob) res err bc1" and inv: "chain_inv sha bc1" .
    have orph: "bc_orphans bc1 = al_del oh (bc_orphans bc)"
      using add_outcome_known_parent [OF o] False by simp
    have ex: "extends bc bc1"
      using add_outcome_extends [OF o inv1 inv] by (simp add: extends_def)
    have same: "bc_blocks bc1 = bc_blocks bc \<and> bc_tip bc1 = bc_tip bc" if "err \<noteq> None"
      using o that add_outcome_error by fastforce
    have step: "orphan_pass sha (x # xs) p bc
        = orphan_pass sha xs (if err = None then True else p) bc1"
      using x False a by auto
    from Cons.IH [OF inv, of "if err = None then True else p"] obtain q bc' where
      r: "orphan_pass sha xs (if err = None then True else p) bc1 = Some (q, bc')"
         "chain_inv sha bc'" "extends bc1 bc'" "set (bc_orphans bc') \<subseteq> set (bc_orphans bc1)"
         "\<not> q \<longrightarrow> \<not> (if err = None then True else p) \<and> bc_blocks bc' = bc_blocks bc1
            \<and> bc_tip bc' = bc_tip bc1
            \<and> (\<forall>(oh, ob) \<in> set xs. (oh, ob) \<in> set (bc_orphans bc')
                  \<longrightarrow> bc_blocks bc' (bh_PrevHash (blk_Header ob)) = None)"
      by blast
    have "extends bc bc'" using ex r(3) Cons.prems inv r(2) by (rule extends_trans)
    moreover have "(oh, ob) \<notin> set (bc_orphans bc')" using r(4) orph by (auto simp: set_al_del)
    ultimately show ?thesis
      unfolding step using r same x orph
      by (intro exI conjI) (auto simp: set_al_del split: if_splits)
  qed
qed simp

lemma tryConnect_ok:
  assumes "chain_inv sha bc"
  shows "\<exists>bc'. tryConnectOrphansUnlocked sha ord i bc = Some bc' \<and> chain_inv sha bc'
     \<and> extends bc bc' \<and> (fair_ranging ord \<longrightarrow> orphans_waiting bc')"
  using assms
proof (induction sha ord i bc rule: tryConnectOrphansUnlocked.induct)
  case (1 sha ord i bc)
  from orphan_pass_ok [OF 1(2), of "ord i (bc_orphans bc)" False] obtain q bc' where
    r: "orphan_pass sha (ord i (bc_orphans bc)) False bc = Some (q, bc')"
       "chain_inv sha bc'" "extends bc bc'" "set (bc_orphans bc') \<subseteq> set (bc_orphans bc)"
       "\<not> q \<longrightarrow> (\<forall>(oh, ob) \<in> set (ord i (bc_orphans bc)). (oh, ob) \<in> set (bc_orphans bc')
                \<longrightarrow> bc_blocks bc' (bh_PrevHash (blk_Header ob)) = None)"
    by blast
  show ?case
  proof (cases q)
    case True
    from "1.IH" [OF r(1) refl _ r(2)] True obtain bc2 where
      "tryConnectOrphansUnlocked sha ord (Suc i) bc' = Some bc2" "chain_inv sha bc2"
      "extends bc' bc2" "fair_ranging ord \<longrightarrow> orphans_waiting bc2" by blast
    moreover then have "extends bc bc2"
      using extends_trans [OF r(3)] 1(2) r(2) by blast
    ultimately show ?thesis
      using r(1) True by (subst tryConnectOrphansUnlocked.simps) simp
  next
    case False
    have "orphans_waiting bc'" if "fair_ranging ord"
      using r(4,5) False fair_ranging_set [OF that, of i "bc_orphans bc"]
      unfolding orphans_waiting_def by blast
    with False show ?thesis
      using r False by (subst tryConnectOrphansUnlocked.simps) simp
  qed
qed

section \<open>AddBlock\<close>

text \<open>
  \<^verbatim>\<open>AddBlock\<close> in two steps: the block itself (\<open>mid\<close>, with its report), then the
  orphans it connects, which the report does not mention.
\<close>

lemma AddBlock_ok:
  assumes inv: "chain_inv sha bc" and wait: "orphans_waiting bc"
  obtains res err mid bc' where "AddBlock sha ord b bc = Some (res, err, bc')"
    "add_outcome sha bc b res err mid" "chain_inv sha mid" "chain_inv sha bc'"
    "extends bc mid" "extends mid bc'" "err \<noteq> None \<Longrightarrow> bc' = bc"
    "fair_ranging ord \<Longrightarrow> orphans_waiting bc'"
proof -
  from addBlockUnlocked_ok [OF inv] obtain res err mid where
    a: "addBlockUnlocked sha b bc = Some (res, err, mid)"
    and o: "add_outcome sha bc b res err mid" and m: "chain_inv sha mid" .
  have ex: "extends bc mid" using add_outcome_extends [OF o inv m] .
  show thesis
  proof (cases err)
    case None
    from tryConnect_ok [OF m, of ord 0] obtain bc' where
      "tryConnectOrphansUnlocked sha ord 0 mid = Some bc'" "chain_inv sha bc'" "extends mid bc'"
      "fair_ranging ord \<longrightarrow> orphans_waiting bc'" by blast
    moreover from this have "AddBlock sha ord b bc = Some (res, err, bc')"
      using a None by (simp add: AddBlock_def)
    ultimately show thesis using o m ex None by (intro that) auto
  next
    case (Some e)
    then have "mid = bc" using o add_outcome_error by blast
    moreover have "AddBlock sha ord b bc = Some (res, err, mid)"
      using a Some by (simp add: AddBlock_def)
    ultimately show thesis using o m ex Some wait by (intro that) auto
  qed
qed

text \<open>The chains the program can hold.\<close>

inductive chain_reachable :: "digest \<Rightarrow> (hash \<times> block) ranging \<Rightarrow> blockchain \<Rightarrow> bool"
  for sha ord where
  init: "NewBlockchain sha (Some g) d = Inr bc \<Longrightarrow> bh_Height (blk_Header g) = 0 \<Longrightarrow>
     chain_reachable sha ord bc"
| add: "chain_reachable sha ord bc \<Longrightarrow> AddBlock sha ord b bc = Some (res, err, bc') \<Longrightarrow>
     chain_reachable sha ord bc'"

lemma chain_reachable_inv:
  assumes "chain_reachable sha ord bc" "fair_ranging ord"
  shows "chain_inv sha bc \<and> orphans_waiting bc"
  using assms(1)
proof (induction rule: chain_reachable.induct)
  case (init g d bc)
  then show ?case using NewBlockchain_inv by blast
next
  case (add bc b res err bc')
  from AddBlock_ok [of sha bc ord b] add(2,3) assms(2) show ?case by (metis option.inject prod.inject)
qed

end
