(* ===== verification/ChainSync.thy ===== *)
theory ChainSync
  imports ChainInv
begin

text \<open>
  The read side of \<^verbatim>\<open>internal/blockchain/chain.go\<close> that headers-first
  synchronisation uses: the main chain, the locator, the metas that follow a peer's locator and
  the blocks of the main chain. \<^verbatim>\<open>int\<close> arguments are 64-bit: the one addition that
  can wrap around is written out, and a slice with bad bounds is \<open>None\<close> (a panic).
\<close>

section \<open>Operations\<close>

definition mainChainHashesUnlocked :: "blockchain \<Rightarrow> hash list option" where
  "mainChainHashesUnlocked bc =
     (if IsZero (bc_tip bc) then Some []
      else do {
        reversed \<leftarrow> back_to (bc_par bc) (bc_genesis bc) (bc_tip bc) [];
        Some (reverse_list reversed)
      })"

definition Locator :: "int \<Rightarrow> blockchain \<Rightarrow> hash list" where
  "Locator mx bc =
     (let mx = (if mx \<le> 0 then 32 else mx)
      in locator_loop (bc_par bc) (bc_genesis bc) (nat mx) [] (bc_tip bc) (bc_ht bc (bc_tip bc)) 1)"

definition int_add :: "int \<Rightarrow> int \<Rightarrow> int" where
  "int_add a b = sint (word_of_int (a + b) :: int64)"

definition go_slice :: "'a list \<Rightarrow> int \<Rightarrow> int \<Rightarrow> 'a list option" where
  "go_slice xs lo hi =
     (if 0 \<le> lo \<and> lo \<le> hi \<and> hi \<le> int (length xs)
      then Some (take (nat hi - nat lo) (drop (nat lo) xs)) else None)"

fun index_map :: "nat \<Rightarrow> 'h list \<Rightarrow> ('h \<rightharpoonup> nat) \<Rightarrow> ('h \<rightharpoonup> nat)" where
  "index_map i [] m = m"
| "index_map i (h # hs) m = index_map (Suc i) hs (m(h \<mapsto> i))"

fun common_index :: "('h \<rightharpoonup> nat) \<Rightarrow> 'h list \<Rightarrow> nat" where
  "common_index index [] = 0"
| "common_index index (h # hs) =
     (case index h of Some i \<Rightarrow> i | None \<Rightarrow> common_index index hs)"

definition MainChainMetasFromLocator ::
    "hash list \<Rightarrow> int \<Rightarrow> blockchain \<Rightarrow> block_meta list option" where
  "MainChainMetasFromLocator locator mx bc =
     (let mx = (if mx \<le> 0 then 2000 else mx) in
      do {
        main \<leftarrow> mainChainHashesUnlocked bc;
        if length main = 0 then Some []
        else do {
          let index = index_map 0 main Map.empty;
          let commonIndex = common_index index locator;
          let start = int commonIndex + 1;
          if start \<ge> int (length main) then Some []
          else do {
            let end0 = int_add start mx;
            let end1 = (if end0 > int (length main) then int (length main) else end0);
            hs \<leftarrow> go_slice main start end1;
            Some (List.map_filter (\<lambda>h. map_option meta_of (bc_blocks bc h)) hs)
          }
        }
      })"

definition MainChainBlocks :: "int \<Rightarrow> blockchain \<Rightarrow> block list option" where
  "MainChainBlocks limit bc =
     do {
       hashes \<leftarrow> mainChainHashesUnlocked bc;
       if length hashes = 0 then Some []
       else do {
         hs \<leftarrow> (if limit > 0 \<and> limit < int (length hashes)
                then go_slice hashes (int (length hashes) - limit) (int (length hashes))
                else Some hashes);
         Some (List.map_filter (\<lambda>h. cloneBlock (bc_blocks bc h)) hs)
       }
     }"

section \<open>The main chain\<close>

lemma main_chain_eq:
  assumes "chain_inv sha bc" "bc_tip bc \<noteq> 0"
  shows "mainChainHashesUnlocked bc = Some (main_path bc (bc_tip bc))"
proof -
  have "bc_tip bc \<in> dom (bc_blocks bc)" using chain_inv_tip [OF assms(1)] by auto
  from ct.back_to_returns [OF assms(1) this, of "[]"] assms(2) show ?thesis
    by (simp add: mainChainHashesUnlocked_def main_path_def)
qed

lemma main_path_known:
  "chain_inv sha bc \<Longrightarrow> bc_blocks bc x = Some bx \<Longrightarrow> h \<in> set (main_path bc x) \<Longrightarrow>
   \<exists>b. bc_blocks bc h = Some b"
  using ct.chain_to_known [of sha bc x h] by (auto simp: main_path_def)

lemma main_path_0:
  "chain_inv sha bc \<Longrightarrow> bc_blocks bc x = Some bx \<Longrightarrow> main_path bc x ! 0 = bc_genesis bc"
  using ct.chain_to_root [of sha bc x]
  by (auto simp: main_path_def hd_conv_nth length_greater_0_conv [symmetric]
      simp del: length_greater_0_conv)

lemma main_path_height:
  assumes "chain_inv sha bc" "bc_blocks bc x = Some bx" "i < length (main_path bc x)"
    and "bc_blocks bc (main_path bc x ! i) = Some b"
  shows "unat (bh_Height (blk_Header b)) = i"
  using ct.chain_to_height [OF assms(1), of x i] assms chain_inv_ht [OF assms(1,4)]
  by (auto simp: main_path_def)

lemma length_main_path:
  "chain_inv sha bc \<Longrightarrow> bc_blocks bc x = Some bx \<Longrightarrow>
   length (main_path bc x) = Suc (unat (bh_Height (blk_Header bx)))"
  using chain_inv_ht by (simp add: main_path_def)

lemma last_main_path [simp]: "last (main_path bc x) = x"
  by (simp add: main_path_def)

lemma main_path_not_Nil [simp]: "main_path bc x \<noteq> []"
  by (metis length_chain_to list.size(3) main_path_def nat.distinct(1))

lemma distinct_main_path:
  assumes inv: "chain_inv sha bc" and x: "bc_blocks bc x = Some bx"
  shows "distinct (main_path bc x)"
proof (unfold distinct_conv_nth, intro allI impI)
  fix i j assume ij: "i < length (main_path bc x)" "j < length (main_path bc x)" "i \<noteq> j"
  then obtain b where "bc_blocks bc (main_path bc x ! i) = Some b"
    using main_path_known [OF inv x] nth_mem by blast
  with ij main_path_height [OF inv x] show "main_path bc x ! i \<noteq> main_path bc x ! j" by metis
qed

text \<open>Each hash of the path is the parent of the next.\<close>

lemma main_path_link:
  assumes inv: "chain_inv sha bc" and x: "bc_blocks bc x = Some bx"
    and i: "Suc i < length (main_path bc x)"
    and b: "bc_blocks bc (main_path bc x ! Suc i) = Some b"
  shows "linked sha bc (main_path bc x ! Suc i) b"
    and "bh_PrevHash (blk_Header b) = main_path bc x ! i"
proof -
  have "unat (bh_Height (blk_Header b)) = Suc i" by (rule main_path_height [OF inv x i b])
  then have "main_path bc x ! Suc i \<noteq> bc_genesis bc"
    using chain_inv_genesis [OF inv] b by auto
  then show l: "linked sha bc (main_path bc x ! Suc i) b"
    using chain_inv_stored [OF inv b] by (simp add: stored_ok_def)
  let ?n = "unat (bc_ht bc x)"
  have "Suc i \<le> ?n" using i by (simp add: main_path_def)
  then have "main_path bc x ! Suc i = (bc_par bc ^^ (?n - Suc i)) x"
    and "main_path bc x ! i = (bc_par bc ^^ Suc (?n - Suc i)) x"
    by (auto simp: main_path_def chain_to_nth Suc_diff_Suc)
  then have "bc_par bc (main_path bc x ! Suc i) = main_path bc x ! i" by simp
  with l show "bh_PrevHash (blk_Header b) = main_path bc x ! i" by (simp add: linked_def)
qed

section \<open>The locator\<close>

lemma step_back_returns:
  assumes "chain_inv sha bc" "h \<in> dom (bc_blocks bc)"
  shows "\<exists>k. fst (step_back (bc_par bc) i step h (bc_ht bc h)) = (bc_par bc ^^ k) h
     \<and> k \<le> unat (bc_ht bc h)
     \<and> snd (step_back (bc_par bc) i step h (bc_ht bc h)) = bc_ht bc ((bc_par bc ^^ k) h)
     \<and> (i < step \<and> bc_ht bc h \<noteq> 0 \<longrightarrow> k > 0)"
  using assms(2)
proof (induction "unat (bc_ht bc h)" arbitrary: h i)
  case 0
  then have "bc_ht bc h = 0" by (metis unat_eq_zero)
  then show ?case using 0 by (intro exI [of _ 0]) (subst (1 2) step_back.simps, simp)
next
  case (Suc n)
  show ?case
  proof (cases "i < step")
    case False
    then show ?thesis by (intro exI [of _ 0]) (subst (1 2) step_back.simps, simp)
  next
    case True
    have nz: "bc_ht bc h \<noteq> 0" using Suc.hyps(2) by auto
    then have nr: "h \<noteq> bc_genesis bc" using ct.root_height [OF assms(1)] by auto
    let ?p = "bc_par bc h"
    have p: "?p \<in> dom (bc_blocks bc)" "unat (bc_ht bc h) = Suc (unat (bc_ht bc ?p))"
      using ct.parent_known [OF assms(1) Suc.prems nr] ct.parent_height [OF assms(1) Suc.prems nr]
      by auto
    have pm: "bc_ht bc h - 1 = bc_ht bc ?p"
      using p(2) nz by (simp add: word_unat_eq_iff unat_minus_one)
    from Suc.hyps(1) [of ?p "i + 1"] p Suc.hyps(2) obtain k where
      "fst (step_back (bc_par bc) (i + 1) step ?p (bc_ht bc ?p)) = (bc_par bc ^^ k) ?p"
      "k \<le> unat (bc_ht bc ?p)"
      "snd (step_back (bc_par bc) (i + 1) step ?p (bc_ht bc ?p)) = bc_ht bc ((bc_par bc ^^ k) ?p)"
      by auto
    with True nz p(2) show ?thesis
      by (intro exI [of _ "Suc k"])
        (subst (1 2) step_back.simps, simp add: pm funpow_swap1 word_gt_0)
  qed
qed

text \<open>Every entry of the locator is an ancestor of the tip.\<close>

lemma locator_loop_ancestors:
  assumes "chain_inv sha bc" "t \<in> dom (bc_blocks bc)" "k \<le> unat (bc_ht bc t)"
    and "h = (bc_par bc ^^ k) t"
    and "set out \<subseteq> set (main_path bc t)"
  shows "set (locator_loop (bc_par bc) g r out h (bc_ht bc h) step) \<subseteq> set (main_path bc t)"
  using assms(3-5)
proof (induction r arbitrary: out h k step)
  case (Suc r)
  have "main_path bc t ! (unat (bc_ht bc t) - k) = h"
    using Suc.prems by (simp add: main_path_def chain_to_nth)
  moreover have "unat (bc_ht bc t) - k < length (main_path bc t)" by (simp add: main_path_def)
  ultimately have "h \<in> set (main_path bc t)" by (metis nth_mem)
  then have out: "set (out @ [h]) \<subseteq> set (main_path bc t)" using Suc.prems by simp
  have hd: "h \<in> dom (bc_blocks bc)" "unat (bc_ht bc h) = unat (bc_ht bc t) - k"
    using ct.ancestor [OF assms(1,2) Suc.prems(1)] Suc.prems(2) by auto
  show ?case
  proof (cases "h = g \<or> bc_ht bc h = 0")
    case True
    then show ?thesis using out by (auto simp: Let_def)
  next
    case False
    obtain j where j: "j \<le> unat (bc_ht bc h)"
      "step_back (bc_par bc) 0 step h (bc_ht bc h) = ((bc_par bc ^^ j) h, bc_ht bc ((bc_par bc ^^ j) h))"
      using step_back_returns [OF assms(1) hd(1), of 0 step] by (metis prod.collapse)
    have "j + k \<le> unat (bc_ht bc t)" "(bc_par bc ^^ j) h = (bc_par bc ^^ (j + k)) t"
      using j hd Suc.prems by (auto simp: funpow_add)
    from Suc.IH [OF this out] False j(2) show ?thesis by (simp add: Let_def)
  qed
qed simp

lemma Locator_ancestors:
  assumes "chain_inv sha bc"
  shows "set (Locator mx bc) \<subseteq> set (main_path bc (bc_tip bc))"
proof -
  have "bc_tip bc \<in> dom (bc_blocks bc)" using chain_inv_tip [OF assms] by auto
  from locator_loop_ancestors [OF assms this, of 0 "bc_tip bc" "[]"] show ?thesis
    by (simp add: Locator_def Let_def)
qed

text \<open>The locator starts with the tip and has at most the asked number of entries.\<close>

lemma locator_loop_prefix:
  "\<exists>rest. locator_loop par g r out h height step = out @ rest \<and> length rest \<le> r
     \<and> (r > 0 \<longrightarrow> (\<exists>rest'. rest = h # rest'))"
proof (induction r arbitrary: out h height step)
  case (Suc r)
  obtain h' height' where s: "step_back par 0 step h height = (h', height')" by force
  show ?case
  proof (cases "h = g \<or> height = 0")
    case True
    then show ?thesis by (auto simp: Let_def)
  next
    case False
    with Suc [of "out @ [h]" h' height' "if 10 \<le> length (out @ [h]) then step * 2 else step"] s
    show ?thesis by (auto simp: Let_def)
  qed
qed simp

lemma Locator_shape:
  "\<exists>rest. Locator mx bc = bc_tip bc # rest \<and> length (Locator mx bc) \<le> (if mx \<le> 0 then 32 else nat mx)"
  using locator_loop_prefix [of "bc_par bc" "bc_genesis bc" "nat (if mx \<le> 0 then 32 else mx)" "[]"
      "bc_tip bc" "bc_ht bc (bc_tip bc)" 1]
  by (auto simp: Locator_def Let_def split: if_splits)

section \<open>Metas after a locator\<close>

lemma index_map_notin: "h \<notin> set hs \<Longrightarrow> index_map i hs m h = m h"
  by (induction i hs m rule: index_map.induct) auto

lemma index_map_nth:
  "distinct hs \<Longrightarrow> k < length hs \<Longrightarrow> index_map i hs m (hs ! k) = Some (i + k)"
proof (induction i hs m arbitrary: k rule: index_map.induct)
  case (2 i h hs m)
  show ?case
  proof (cases k)
    case 0
    then show ?thesis using 2 by (simp add: index_map_notin)
  next
    case (Suc l)
    then have "distinct hs" "l < length hs" using 2 by auto
    from "2.IH" [OF this] Suc show ?thesis by (simp del: fun_upd_apply)
  qed
qed simp

lemma index_map_Some:
  assumes "distinct hs" "index_map i hs Map.empty h = Some j"
  shows "i \<le> j \<and> j - i < length hs \<and> hs ! (j - i) = h"
proof -
  have "h \<in> set hs" using assms index_map_notin [of h hs i Map.empty] by (cases "h \<in> set hs") auto
  then obtain k where "k < length hs" "hs ! k = h" by (auto simp: in_set_conv_nth)
  with assms index_map_nth [OF assms(1) this(1), of i Map.empty] show ?thesis by auto
qed

text \<open>The common block is on the main chain, and in the locator unless it is the default.\<close>

lemma common_index_spec:
  assumes "distinct main"
  shows "common_index (index_map 0 main Map.empty) loc = 0
     \<or> (common_index (index_map 0 main Map.empty) loc < length main
         \<and> main ! common_index (index_map 0 main Map.empty) loc \<in> set loc)"
  using index_map_Some [OF assms, of 0]
  by (induction loc) (auto split: option.splits)

lemma int_add_small: "0 \<le> a \<Longrightarrow> 0 \<le> b \<Longrightarrow> a + b < 2 ^ 63 \<Longrightarrow> int_add a b = a + b"
  unfolding int_add_def
  by (simp only: sint_sbintrunc' signed_take_bit_int_eq_self_iff) simp

lemma go_slice_ok:
  "lo \<le> hi \<Longrightarrow> hi \<le> length xs \<Longrightarrow> go_slice xs (int lo) (int hi) = Some (take (hi - lo) (drop lo xs))"
  by (simp add: go_slice_def)

lemma map_filter_stored:
  "\<forall>h \<in> set hs. bc_blocks bc h \<noteq> None \<Longrightarrow>
   List.map_filter (\<lambda>h. map_option f (bc_blocks bc h)) hs = map (\<lambda>h. f (the (bc_blocks bc h))) hs"
  by (induction hs) (auto simp: List.map_filter_simps)

text \<open>The metas are those of the main chain behind the common block, at most \<open>mx\<close> of them.\<close>

lemma metas_eq:
  fixes loc :: "hash list"
  assumes inv: "chain_inv sha bc" and nz: "bc_tip bc \<noteq> 0"
    and mx: "0 < mx" "mx + int (length (main_path bc (bc_tip bc))) < 2 ^ 63"
  defines "main \<equiv> main_path bc (bc_tip bc)"
  defines "c \<equiv> common_index (index_map 0 main Map.empty) loc"
  shows "MainChainMetasFromLocator loc mx bc
     = Some (map (\<lambda>h. meta_of (the (bc_blocks bc h))) (take (nat mx) (drop (Suc c) main)))"
proof -
  obtain tb where tb: "bc_blocks bc (bc_tip bc) = Some tb" using chain_inv_tip [OF inv] by auto
  have main: "mainChainHashesUnlocked bc = Some main"
    using main_chain_eq [OF inv nz] by (simp add: main_def)
  have ne: "main \<noteq> []" by (simp add: main_def)
  have stored: "\<forall>h \<in> set main. bc_blocks bc h \<noteq> None"
    using main_path_known [OF inv tb] by (auto simp: main_def)
  show ?thesis
  proof (cases "length main \<le> Suc c")
    case True
    then show ?thesis using mx ne
      by (simp add: MainChainMetasFromLocator_def main Let_def c_def)
  next
    case False
    let ?s = "Suc c" let ?e = "min (Suc c + nat mx) (length main)"
    let ?stop = "if int_add (int c + 1) mx > int (length main) then int (length main)
                else int_add (int c + 1) mx"
    have "int_add (int c + 1) mx = int ?s + mx"
      using int_add_small [of "int ?s" mx] mx False by (simp add: main_def add.commute)
    then have "?stop = int ?e"
      using mx(1) by (cases "Suc c + nat mx \<le> length main") auto
    moreover have "go_slice main (int ?s) (int ?e) = Some (take (?e - ?s) (drop ?s main))"
      using False by (intro go_slice_ok) auto
    moreover have "take (?e - ?s) (drop ?s main) = take (nat mx) (drop ?s main)"
      by (simp add: min_def)
    ultimately have slice: "go_slice main (int c + 1) ?stop = Some (take (nat mx) (drop ?s main))"
      by (simp add: add.commute)
    have known: "\<forall>h \<in> set (take (nat mx) (drop ?s main)). bc_blocks bc h \<noteq> None"
      using stored by (meson in_set_dropD in_set_takeD)
    have "MainChainMetasFromLocator loc mx bc = (go_slice main (int c + 1) ?stop \<bind>
        (\<lambda>hs. Some (List.map_filter (\<lambda>h. map_option meta_of (bc_blocks bc h)) hs)))"
      using mx(1) False ne by (simp add: MainChainMetasFromLocator_def main Let_def c_def [symmetric])
    then show ?thesis unfolding slice using known by (simp add: map_filter_stored)
  qed
qed

end
