(* ===== verification/Demo.thy ===== *)
theory Demo
  imports ChainSync
begin

text \<open>
  Concrete inputs for the witnesses: a digest whose value on a header and a nonce is the nonce
  (so that blocks with chosen hashes exist and evaluate), and small chains built with it at
  difficulty 0. Nothing here models code.
\<close>

definition demo_digest :: digest where
  "demo_digest bs = of_nat (foldr (\<lambda>b a. unat b + 256 * a) (drop (length bs - 8) bs) 0)"

lemma length_PutUint64 [simp]: "length (PutUint64 n) = 8"
  by (simp add: PutUint64_def)

lemma demo_header_hash: "header_hash demo_digest h n = demo_digest (PutUint64 n)"
  by (simp add: header_hash_def demo_digest_def)

lemma demo_root: "HashTransactions demo_digest [] = 0"
  by (simp add: HashTransactions_def demo_digest_def)

lemma demo_meets [simp]: "MeetsDifficulty h 0"
  by (simp add: MeetsDifficulty_def)

lemma demo_nonce:
  "demo_digest (PutUint64 1) = 1" "demo_digest (PutUint64 2) = 2"
  "demo_digest (PutUint64 3) = 3" "demo_digest (PutUint64 4) = 4"
  "demo_digest (PutUint64 5) = 5" "demo_digest (PutUint64 6) = 6"
  by (simp_all add: demo_digest_def PutUint64_def upt_rec)

definition demo_block :: "uint64 \<Rightarrow> hash \<Rightarrow> int64 \<Rightarrow> uint64 \<Rightarrow> block" where
  "demo_block height prev ts nonce =
     \<lparr>blk_Header = \<lparr>bh_Height = height, bh_PrevHash = prev, bh_Timestamp = ts, bh_Difficulty = 0,
                    bh_MinerID = ''m'', bh_TxRoot = 0\<rparr>,
      blk_Nonce = nonce, blk_Hash = demo_digest (PutUint64 nonce), blk_Txs = []\<rparr>"

lemma demo_block_simps [simp]:
  "bh_Height (blk_Header (demo_block e p t n)) = e"
  "bh_PrevHash (blk_Header (demo_block e p t n)) = p"
  "bh_Timestamp (blk_Header (demo_block e p t n)) = t"
  "bh_Difficulty (blk_Header (demo_block e p t n)) = 0"
  "bh_TxRoot (blk_Header (demo_block e p t n)) = 0"
  "blk_Nonce (demo_block e p t n) = n"
  "blk_Hash (demo_block e p t n) = demo_digest (PutUint64 n)"
  "blk_Txs (demo_block e p t n) = []"
  "(demo_block e p t n)\<lparr>blk_Hash := demo_digest (PutUint64 n)\<rparr> = demo_block e p t n"
  by (simp_all add: demo_block_def)

lemma demo_key [simp]: "block_key demo_digest (demo_block e p t n) = demo_digest (PutUint64 n)"
  by (simp add: block_key_def demo_header_hash)

lemma demo_stamp: "demo_digest (PutUint64 n) = x \<Longrightarrow> (demo_block e p t n)\<lparr>blk_Hash := x\<rparr> = demo_block e p t n"
  by (simp add: demo_block_def)

text \<open>The genesis has hash 1.\<close>

definition demo_genesis :: block where
  "demo_genesis = demo_block 0 0 0 1"

definition demo_chain :: blockchain where
  "demo_chain = \<lparr>bc_difficulty = 0, bc_blocks = [1 \<mapsto> demo_genesis], bc_parent = [1 \<mapsto> 0],
     bc_cumWork = [1 \<mapsto> 0], bc_height = [1 \<mapsto> 0], bc_tip = 1, bc_genesis = 1, bc_orphans = []\<rparr>"

lemma demo_chain_new: "NewBlockchain demo_digest (Some demo_genesis) 0 = Inr demo_chain"
  by (simp add: NewBlockchain_def Let_def demo_genesis_def demo_root demo_header_hash demo_nonce
      demo_chain_def) (simp add: demo_block_def demo_nonce)

lemma demo_chain_reachable: "chain_reachable demo_digest ord demo_chain"
  by (rule chain_reachable.init [OF demo_chain_new]) (simp add: demo_genesis_def)

text \<open>The rules that evaluate the chain operations on these blocks.\<close>

lemmas demo_eval = demo_stamp demo_header_hash demo_root demo_nonce addBlockUnlocked_Some insertBlock_def
  validateBlockUnlocked_def computeReorgUnlocked_def WorkForDifficulty_def no_change_def
  climb.simps meet.simps segment.simps tryConnectOrphansUnlocked.simps AddBlock_def

definition demo_chain2 :: blockchain where
  "demo_chain2 = \<lparr>bc_difficulty = 0,
     bc_blocks = [1 \<mapsto> demo_genesis, 2 \<mapsto> demo_block 1 1 0 2],
     bc_parent = [1 \<mapsto> 0, 2 \<mapsto> 1], bc_cumWork = [1 \<mapsto> 0, 2 \<mapsto> 1],
     bc_height = [1 \<mapsto> 0, 2 \<mapsto> 1], bc_tip = 2, bc_genesis = 1, bc_orphans = []\<rparr>"

lemma demo_add2:
  "AddBlock demo_digest (\<lambda>_ xs. xs) (Some (demo_block 1 1 0 2)) demo_chain
     = Some (\<lparr>ar_Added = True, ar_IsNewTip = True, ar_OldTip = 1, ar_NewTip = 2, ar_Reorg = None\<rparr>,
             None, demo_chain2)"
  by (simp add: demo_chain_def demo_chain2_def demo_eval demo_genesis_def Let_def)

lemma demo_chain2_reachable: "chain_reachable demo_digest (\<lambda>_ xs. xs) demo_chain2"
  by (rule chain_reachable.add [OF demo_chain_reachable demo_add2])

text \<open>A sibling of block 2 that is not heavier, and its child, which takes the tip over.\<close>

definition demo_fork :: blockchain where
  "demo_fork = demo_chain2\<lparr>
     bc_blocks := (bc_blocks demo_chain2)(3 \<mapsto> demo_block 1 1 0 3),
     bc_parent := (bc_parent demo_chain2)(3 \<mapsto> 1),
     bc_cumWork := (bc_cumWork demo_chain2)(3 \<mapsto> 1),
     bc_height := (bc_height demo_chain2)(3 \<mapsto> 1)\<rparr>"

lemma demo_add3:
  "AddBlock demo_digest (\<lambda>_ xs. xs) (Some (demo_block 1 1 0 3)) demo_chain2
     = Some (\<lparr>ar_Added = True, ar_IsNewTip = False, ar_OldTip = 2, ar_NewTip = 2, ar_Reorg = None\<rparr>,
             None, demo_fork)"
  by (simp add: demo_chain2_def demo_fork_def demo_eval demo_genesis_def Let_def)

definition demo_switched :: blockchain where
  "demo_switched = demo_fork\<lparr>
     bc_blocks := (bc_blocks demo_fork)(4 \<mapsto> demo_block 2 3 0 4),
     bc_parent := (bc_parent demo_fork)(4 \<mapsto> 3),
     bc_cumWork := (bc_cumWork demo_fork)(4 \<mapsto> 2),
     bc_height := (bc_height demo_fork)(4 \<mapsto> 2), bc_tip := 4\<rparr>"

lemma demo_add4:
  "AddBlock demo_digest (\<lambda>_ xs. xs) (Some (demo_block 2 3 0 4)) demo_fork
     = Some (\<lparr>ar_Added = True, ar_IsNewTip = True, ar_OldTip = 2, ar_NewTip = 4,
              ar_Reorg = Some \<lparr>rg_CommonAncestor = 1, rg_Removed = [Some (demo_block 1 1 0 2)],
                 rg_Added = [Some (demo_block 1 1 0 3), Some (demo_block 2 3 0 4)]\<rparr>\<rparr>,
             None, demo_switched)"
  by (simp add: demo_chain2_def demo_fork_def demo_switched_def demo_eval demo_genesis_def Let_def)

lemma demo_fork_reachable: "chain_reachable demo_digest (\<lambda>_ xs. xs) demo_fork"
  by (rule chain_reachable.add [OF demo_chain2_reachable demo_add3])

lemma demo_switched_reachable: "chain_reachable demo_digest (\<lambda>_ xs. xs) demo_switched"
  by (rule chain_reachable.add [OF demo_fork_reachable demo_add4])

text \<open>A chain that holds an orphan: block 3 waits for block 2.\<close>

definition demo_waiting :: blockchain where
  "demo_waiting = demo_chain\<lparr>bc_orphans := [(3, demo_block 2 2 0 3)]\<rparr>"

lemma demo_add_orphan:
  "AddBlock demo_digest (\<lambda>_ xs. xs) (Some (demo_block 2 2 0 3)) demo_chain
     = Some (no_change demo_chain, None, demo_waiting)"
  by (simp add: demo_chain_def demo_waiting_def demo_eval demo_genesis_def Let_def)

lemma demo_waiting_reachable: "chain_reachable demo_digest (\<lambda>_ xs. xs) demo_waiting"
  by (rule chain_reachable.add [OF demo_chain_reachable demo_add_orphan])

end
