(* ===== verification/ChainProps.thy ===== *)
theory ChainProps
  imports Demo
begin

text \<open>
  The properties of the blockchain: totality and the invariant, the choice of the tip, the
  reorganisation report, the main chain, the locator, and what the code does not promise.
\<close>

section \<open>Adding blocks\<close>

text \<open>
  C1: In every chain the program can hold, \<^verbatim>\<open>AddBlock\<close> returns on every argument (nil,
  known, invalid, orphan or valid, in whatever order the orphans are visited), the result is
  again a well-formed block tree whose tip is the heaviest block, and blocks once stored stay.
\<close>
theorem AddBlock_total:
  assumes "chain_reachable sha ord bc" and "fair_ranging ord"
  shows "\<exists>res err bc'. AddBlock sha ord b bc = Some (res, err, bc') \<and> chain_inv sha bc'
           \<and> extends bc bc'"
proof -
  have inv: "chain_inv sha bc" and w: "orphans_waiting bc"
    using chain_reachable_inv [OF assms] by auto
  from AddBlock_ok [OF inv w, of ord b] obtain res err mid bc' where
    "AddBlock sha ord b bc = Some (res, err, bc')" "chain_inv sha mid" "chain_inv sha bc'"
    "extends bc mid" "extends mid bc'" .
  then show ?thesis using extends_trans inv by blast
qed

theorem AddBlock_total_witness:
  "\<exists>res err bc'. AddBlock demo_digest (\<lambda>_ xs. xs) (Some (demo_block 2 7 0 5)) demo_chain2
     = Some (res, err, bc') \<and> chain_inv demo_digest bc' \<and> extends demo_chain2 bc'"
  by (rule AddBlock_total [OF demo_chain2_reachable fair_ranging_id])

text \<open>
  C2: The tip is a heaviest block: no stored block has more accumulated work than the tip, none
  is higher, and the work of the tip is its height times the work of one block.
\<close>
theorem tip_heaviest:
  assumes "chain_reachable sha ord bc" and "fair_ranging ord"
  shows "\<exists>tb. GetTip bc = Some tb
      \<and> TipCumWork bc = Some (uint (bh_Height (blk_Header tb)) * WorkForDifficulty (bc_difficulty bc))
      \<and> (\<forall>h b. BlockByHash bc h = Some b \<longrightarrow> bh_Height (blk_Header b) \<le> bh_Height (blk_Header tb)
           \<and> the (bc_cumWork bc h) \<le> the (TipCumWork bc))"
proof -
  have inv: "chain_inv sha bc" using chain_reachable_inv [OF assms] by auto
  obtain tb where tb: "bc_blocks bc (bc_tip bc) = Some tb" using chain_inv_tip [OF inv] by auto
  let ?W = "WorkForDifficulty (bc_difficulty bc)"
  have work: "bc_cumWork bc h = Some (uint (bh_Height (blk_Header b)) * ?W)"
    if "bc_blocks bc h = Some b" for h b
    using chain_inv_stored [OF inv that] by (simp add: stored_ok_def)
  have "bh_Height (blk_Header b) \<le> bh_Height (blk_Header tb)
      \<and> the (bc_cumWork bc h) \<le> the (bc_cumWork bc (bc_tip bc))" if b: "bc_blocks bc h = Some b" for h b
  proof -
    have le: "uint (bh_Height (blk_Header b)) * ?W \<le> the (bc_cumWork bc (bc_tip bc))"
      using inv work [OF b] by (auto simp: chain_inv_def)
    then have "uint (bh_Height (blk_Header b)) \<le> uint (bh_Height (blk_Header tb))"
      using work [OF tb] by (simp add: mult_le_cancel_right_pos)
    with le work [OF b] show ?thesis by (simp add: word_le_def)
  qed
  then show ?thesis using tb work [OF tb] by (auto simp: GetTip_def TipCumWork_def BlockByHash_def)
qed

theorem tip_heaviest_witness:
  "\<exists>tb. GetTip demo_chain2 = Some tb
      \<and> TipCumWork demo_chain2
          = Some (uint (bh_Height (blk_Header tb)) * WorkForDifficulty (bc_difficulty demo_chain2))
      \<and> (\<forall>h b. BlockByHash demo_chain2 h = Some b \<longrightarrow>
           bh_Height (blk_Header b) \<le> bh_Height (blk_Header tb)
           \<and> the (bc_cumWork demo_chain2 h) \<le> the (TipCumWork demo_chain2))"
  by (rule tip_heaviest [OF demo_chain2_reachable fair_ranging_id])

text \<open>
  C3: Every block a reachable chain stores, other than the genesis, passed the whole validation:
  its hash is the digest of its header and nonce and is below the difficulty target, its
  transaction root matches, and its parent is stored one level below, not later in time.
\<close>
theorem stored_blocks_valid:
  assumes "chain_reachable sha ord bc" and "fair_ranging ord"
    and "BlockByHash bc h = Some b" and "h \<noteq> bc_genesis bc"
  shows "blk_Hash b = h \<and> header_hash sha (blk_Header b) (blk_Nonce b) = h
     \<and> unat (bc_difficulty bc) \<le> 256 \<and> unat h < 2 ^ (256 - unat (bc_difficulty bc))
     \<and> HashTransactions sha (blk_Txs b) = bh_TxRoot (blk_Header b)
     \<and> (\<exists>pb. BlockByHash bc (bh_PrevHash (blk_Header b)) = Some pb
          \<and> unat (bh_Height (blk_Header b)) = Suc (unat (bh_Height (blk_Header pb)))
          \<and> sint (bh_Timestamp (blk_Header pb)) \<le> sint (bh_Timestamp (blk_Header b)))"
proof -
  have "chain_inv sha bc" using chain_reachable_inv [OF assms(1,2)] by auto
  moreover have "bc_blocks bc h = Some b" using assms(3) by (simp add: BlockByHash_def)
  ultimately have "stored_ok sha bc h b" by (rule chain_inv_stored)
  with assms(4) show ?thesis
    by (auto simp: stored_ok_def linked_def BlockByHash_def MeetsDifficulty_target)
qed

theorem stored_blocks_valid_witness:
  "blk_Hash (demo_block 1 1 0 2) = 2"
  using stored_blocks_valid [OF demo_chain2_reachable fair_ranging_id, of 2 "demo_block 1 1 0 2"]
  by (simp add: demo_chain2_def BlockByHash_def)

text \<open>
  C4: The tip moves only to a strictly heavier block (of two equally heavy branches the one
  seen first stays), and a call that reports an error has changed nothing.
\<close>
theorem tip_first_seen:
  assumes "chain_reachable sha ord bc" and "fair_ranging ord"
    and "AddBlock sha ord b bc = Some (res, err, bc')"
  shows "(TipHash bc' = TipHash bc \<or> the (TipCumWork bc) < the (TipCumWork bc'))
     \<and> (err \<noteq> None \<longrightarrow> bc' = bc)"
proof -
  have inv: "chain_inv sha bc" and w: "orphans_waiting bc"
    using chain_reachable_inv [OF assms(1,2)] by auto
  from AddBlock_ok [OF inv w, of ord b] obtain mid where
    "chain_inv sha mid" "chain_inv sha bc'" "extends bc mid" "extends mid bc'" "err \<noteq> None \<Longrightarrow> bc' = bc"
    using assms(3) by (metis option.inject prod.inject)
  then show ?thesis
    using extends_trans [of bc mid bc'] inv
    by (auto simp: extends_def TipHash_def TipCumWork_def)
qed

theorem tip_first_seen_witness:
  "TipHash demo_switched \<noteq> TipHash demo_fork \<and> the (TipCumWork demo_fork) < the (TipCumWork demo_switched)"
  using tip_first_seen [OF demo_fork_reachable fair_ranging_id demo_add4]
  by (simp add: TipHash_def demo_switched_def demo_fork_def demo_chain2_def)

text \<open>
  C5: After \<^verbatim>\<open>AddBlock\<close> no orphan is left whose parent is stored: every pass over the
  orphans, in whatever order the map is ranged over, ends only when nothing can be connected.
\<close>
theorem orphans_drained:
  assumes "chain_reachable sha ord bc" and "fair_ranging ord"
    and "AddBlock sha ord b bc = Some (res, err, bc')"
  shows "\<forall>(oh, ob) \<in> set (bc_orphans bc'). \<not> HasBlock bc' (bh_PrevHash (blk_Header ob))"
proof -
  from assms have "chain_reachable sha ord bc'" by (blast intro: chain_reachable.add)
  then have "orphans_waiting bc'" using chain_reachable_inv assms(2) by blast
  then show ?thesis by (auto simp: orphans_waiting_def HasBlock_def)
qed

theorem orphans_drained_witness:
  "bc_orphans demo_waiting = [(3, demo_block 2 2 0 3)] \<and> \<not> HasBlock demo_waiting 2"
  using orphans_drained [OF demo_chain_reachable fair_ranging_id demo_add_orphan]
  by (simp add: demo_waiting_def)

text \<open>
  C7: The reorganisation report of \<^verbatim>\<open>computeReorgUnlocked\<close> on two different stored
  blocks: both paths from the genesis share everything up to the reported common ancestor, the
  removed blocks are the rest of the old path and the added ones the rest of the new path, both
  oldest first, and no block is in both.
\<close>
theorem reorg_segments:
  assumes "chain_reachable sha ord bc" and "fair_ranging ord"
    and "HasBlock bc x" and "HasBlock bc y" and "x \<noteq> y"
  shows "\<exists>r pre rs as. computeReorgUnlocked bc x y = Some (Some r)
     \<and> main_path bc x = pre @ [rg_CommonAncestor r] @ rs
     \<and> main_path bc y = pre @ [rg_CommonAncestor r] @ as
     \<and> rg_Removed r = map (BlockByHash bc) rs \<and> rg_Added r = map (BlockByHash bc) as
     \<and> set rs \<inter> set as = {}"
proof -
  have inv: "chain_inv sha bc" using chain_reachable_inv [OF assms(1,2)] by auto
  have xy: "x \<in> dom (bc_blocks bc)" "y \<in> dom (bc_blocks bc)"
    using assms(3,4) by (auto simp: HasBlock_def)
  from computeReorg_spec [OF inv assms(5) xy] obtain pre c rs as where
    "computeReorgUnlocked bc x y = Some (Some \<lparr>rg_CommonAncestor = c,
       rg_Removed = map (bc_blocks bc) rs, rg_Added = map (bc_blocks bc) as\<rparr>)"
    "main_path bc x = pre @ [c] @ rs" "main_path bc y = pre @ [c] @ as" "set rs \<inter> set as = {}" .
  moreover have "BlockByHash bc = bc_blocks bc" by (simp add: BlockByHash_def fun_eq_iff)
  ultimately show ?thesis by (intro exI conjI) (assumption | simp)+
qed

theorem reorg_segments_witness:
  "\<exists>r pre rs as. computeReorgUnlocked demo_switched 2 4 = Some (Some r)
     \<and> main_path demo_switched 2 = pre @ [rg_CommonAncestor r] @ rs
     \<and> main_path demo_switched 4 = pre @ [rg_CommonAncestor r] @ as
     \<and> rg_Removed r = map (BlockByHash demo_switched) rs
     \<and> rg_Added r = map (BlockByHash demo_switched) as \<and> set rs \<inter> set as = {}"
  by (rule reorg_segments [OF demo_switched_reachable fair_ranging_id])
    (simp_all add: HasBlock_def demo_switched_def demo_fork_def demo_chain2_def)

section \<open>What the result of AddBlock reports\<close>

lemma orphan_pass_waiting:
  "\<forall>(oh, ob) \<in> set xs. bc_blocks bc (bh_PrevHash (blk_Header ob)) = None \<Longrightarrow>
   orphan_pass sha xs p bc = Some (p, bc)"
  by (induction xs) auto

lemma tryConnect_waiting:
  assumes "orphans_waiting bc" "fair_ranging ord"
  shows "tryConnectOrphansUnlocked sha ord i bc = Some bc"
proof -
  have "orphan_pass sha (ord i (bc_orphans bc)) False bc = Some (False, bc)"
    using assms fair_ranging_set [OF assms(2), of i "bc_orphans bc"]
    by (intro orphan_pass_waiting) (auto simp: orphans_waiting_def)
  then show ?thesis by (subst tryConnectOrphansUnlocked.simps) simp
qed

lemma AddBlock_no_child:
  assumes inv: "chain_inv sha bc" and wait: "orphans_waiting bc" and fair: "fair_ranging ord"
    and add: "AddBlock sha ord (Some b) bc = Some (res, err, bc')"
    and none: "\<forall>(oh, ob) \<in> set (bc_orphans bc). bh_PrevHash (blk_Header ob) \<noteq> block_key sha b"
  shows "add_outcome sha bc (Some b) res err bc'"
proof -
  from addBlockUnlocked_ok [OF inv, of "Some b"] obtain res' err' mid where
    a: "addBlockUnlocked sha (Some b) bc = Some (res', err', mid)"
    and o: "add_outcome sha bc (Some b) res' err' mid" .
  from o have "orphans_waiting mid"
  proof cases
    case orphaned
    then show ?thesis
      using wait set_al_put_subset [of "block_key sha b" b "bc_orphans bc"]
      by (auto simp: orphans_waiting_def)
  next
    case inserted
    then show ?thesis using wait none by (auto simp: orphans_waiting_def)
  qed (use wait in simp_all)
  with fair have "tryConnectOrphansUnlocked sha ord 0 mid = Some mid" by (simp add: tryConnect_waiting)
  then have "AddBlock sha ord (Some b) bc = Some (res', err', mid)"
    using a by (auto simp: AddBlock_def)
  with add o show ?thesis by simp
qed

text \<open>
  C36: When no orphan waits for the block, the result of \<^verbatim>\<open>AddBlock\<close> is exact: old and
  new tip are the tips before and after, a new tip is reported exactly when the tip moved, and a
  reorganisation exactly when blocks left the main chain, with the two segments of the paths.
\<close>
theorem report_exact:
  assumes "chain_reachable sha ord bc" and "fair_ranging ord"
    and "AddBlock sha ord (Some b) bc = Some (res, err, bc')"
    and "\<forall>(oh, ob) \<in> set (bc_orphans bc). bh_PrevHash (blk_Header ob) \<noteq> block_key sha b"
  shows "ar_OldTip res = TipHash bc \<and> ar_NewTip res = TipHash bc'
     \<and> (ar_IsNewTip res \<longleftrightarrow> TipHash bc' \<noteq> TipHash bc)
     \<and> (ar_Added res \<longleftrightarrow> \<not> HasBlock bc (block_key sha b) \<and> HasBlock bc' (block_key sha b))
     \<and> (ar_IsNewTip res \<longrightarrow> (\<exists>pre c rs as.
          main_path bc' (TipHash bc) = pre @ [c] @ rs \<and> main_path bc' (TipHash bc') = pre @ [c] @ as
          \<and> ar_Reorg res = (if rs = [] then None
               else Some \<lparr>rg_CommonAncestor = c, rg_Removed = map (bc_blocks bc') rs,
                          rg_Added = map (bc_blocks bc') as\<rparr>)))"
proof -
  have inv: "chain_inv sha bc" and w: "orphans_waiting bc"
    using chain_reachable_inv [OF assms(1,2)] by auto
  have o: "add_outcome sha bc (Some b) res err bc'"
    by (rule AddBlock_no_child [OF inv w assms(2,3,4)])
  then have "report_ok bc bc' res" by cases auto
  moreover from o have "ar_Added res \<longleftrightarrow> \<not> HasBlock bc (block_key sha b) \<and> HasBlock bc' (block_key sha b)"
    by cases (auto simp: HasBlock_def)
  ultimately show ?thesis unfolding report_ok_def TipHash_def by blast
qed

theorem report_exact_witness:
  "ar_OldTip (\<lparr>ar_Added = True, ar_IsNewTip = False, ar_OldTip = 2, ar_NewTip = 2, ar_Reorg = None\<rparr>)
     = TipHash demo_chain2"
  using report_exact [OF demo_chain2_reachable fair_ranging_id demo_add3]
  by (simp add: demo_chain2_def)

text \<open>
  The report says nothing about the orphans a block connects: here the added block 2 brings
  in the waiting block 3, the tip is block 3, and the result names block 2 as the new tip and
  counts the move as a plain extension by one block.
\<close>
lemma connected_tip_not_reported:
  "\<exists>bc res bc'. chain_reachable demo_digest (\<lambda>_ xs. xs) bc
     \<and> AddBlock demo_digest (\<lambda>_ xs. xs) (Some (demo_block 1 1 0 2)) bc = Some (res, None, bc')
     \<and> ar_IsNewTip res \<and> ar_NewTip res = 2 \<and> ar_Reorg res = None
     \<and> TipHash bc' = 3 \<and> TipHeight bc' = 2"
proof -
  have "\<exists>bc'. AddBlock demo_digest (\<lambda>_ xs. xs) (Some (demo_block 1 1 0 2)) demo_waiting
     = Some (\<lparr>ar_Added = True, ar_IsNewTip = True, ar_OldTip = 1, ar_NewTip = 2, ar_Reorg = None\<rparr>,
             None, bc') \<and> TipHash bc' = 3 \<and> TipHeight bc' = 2"
    by (simp add: demo_waiting_def demo_chain_def demo_eval demo_genesis_def Let_def
        TipHash_def TipHeight_def)
  then show ?thesis using demo_waiting_reachable by fastforce
qed

text \<open>
  A block whose parent is unknown is filed unchecked under the hash it claims: whatever its
  proof of work, an orphan already filed under that hash is replaced by it.
\<close>
lemma orphan_filed_unchecked:
  assumes "chain_reachable sha ord bc" and "fair_ranging ord"
    and "blk_Hash b \<noteq> 0" and "bh_Height (blk_Header b) \<noteq> 0" and "\<not> HasBlock bc (blk_Hash b)"
    and "\<not> HasBlock bc (bh_PrevHash (blk_Header b))"
  shows "\<exists>res bc'. AddBlock sha ord (Some b) bc = Some (res, None, bc') \<and> \<not> ar_Added res
     \<and> map_of (bc_orphans bc') = (map_of (bc_orphans bc))(blk_Hash b \<mapsto> b)
     \<and> bc_blocks bc' = bc_blocks bc"
proof -
  let ?bc = "bc\<lparr>bc_orphans := al_put (blk_Hash b) b (bc_orphans bc)\<rparr>"
  have w: "orphans_waiting bc" using chain_reachable_inv [OF assms(1,2)] by auto
  have "addBlockUnlocked sha (Some b) bc = Some (no_change bc, None, ?bc)"
    using assms(3-6) by (simp add: addBlockUnlocked_Some block_key_def HasBlock_def word_gt_0)
  moreover have "orphans_waiting ?bc"
    using w assms(6) set_al_put_subset [of "blk_Hash b" b "bc_orphans bc"]
    by (auto simp: orphans_waiting_def HasBlock_def)
  ultimately have "AddBlock sha ord (Some b) bc = Some (no_change bc, None, ?bc)"
    using assms(2) by (simp add: AddBlock_def tryConnect_waiting)
  then show ?thesis by (simp add: map_of_al_put no_change_def)
qed

lemma orphan_filed_unchecked_witness:
  "\<exists>res bc'. AddBlock demo_digest (\<lambda>_ xs. xs)
        (Some ((demo_block 9 9 0 5)\<lparr>blk_Hash := 3\<rparr>)) demo_waiting = Some (res, None, bc')
     \<and> \<not> ar_Added res
     \<and> map_of (bc_orphans bc') = (map_of (bc_orphans demo_waiting))(3 \<mapsto> (demo_block 9 9 0 5)\<lparr>blk_Hash := 3\<rparr>)
     \<and> bc_blocks bc' = bc_blocks demo_waiting"
  using orphan_filed_unchecked [OF demo_waiting_reachable fair_ranging_id,
      of "(demo_block 9 9 0 5)\<lparr>blk_Hash := 3\<rparr>"]
  by (simp add: HasBlock_def demo_waiting_def demo_chain_def)

text \<open>
  The hash of a block commits to the ids of its transactions only: a valid block stays valid,
  under the same hash, when the payloads and timestamps of its transactions are replaced.
\<close>
lemma payload_not_bound:
  assumes "validateBlockUnlocked sha bc b pb h = None" and "map tx_ID txs = map tx_ID (blk_Txs b)"
  shows "validateBlockUnlocked sha bc (b\<lparr>blk_Txs := txs\<rparr>) pb h = None"
  using assms write_ids_cong [OF assms(2), of 0]
  by (simp add: validate_None_iff HashTransactions_def)

lemma payload_not_bound_witness:
  "let t = (\<lambda>p. \<lparr>tx_ID = ''1234567'', tx_Timestamp = 0, tx_Payload = p\<rparr>);
       b = (\<lambda>p. let d = demo_block 1 1 0 2 in
              d\<lparr>blk_Txs := [t p], blk_Header := (blk_Header d)\<lparr>bh_TxRoot := HashTransactions demo_digest [t p]\<rparr>\<rparr>)
   in validateBlockUnlocked demo_digest demo_chain ((b ''pay alice'')\<lparr>blk_Txs := [t ''pay bob'']\<rparr>)
        demo_genesis 2 = None"
  unfolding Let_def
  by (rule payload_not_bound)
    (simp_all add: validate_None_iff demo_chain_def demo_genesis_def demo_header_hash demo_nonce)

end
