(* ===== verification/Mempool.thy ===== *)
theory Mempool
  imports Json
begin

text \<open>
  \<^verbatim>\<open>internal/mempool/mempool.go\<close>: pending transactions in arrival order, with a set of
  known ids, an expiry per id, a byte count and the times of the last announcements. Removing by
  id and expiring both filter the slice in place (\<^verbatim>\<open>filtered := m.txs[:0]\<close>): \<open>sweep\<close> is that
  loop, reading and writing the same backing array. The interface the node uses is the locale
  \<open>tx_pool\<close>, interpreted at the end on these definitions. Byte counts are \<open>int\<close>: they stay
  far below 2^63 because each counted byte is held in memory.
\<close>

section \<open>State\<close>

record mempool_config =
  mc_MaxTxs :: int
  mc_MaxBytes :: int
  mc_TTL :: duration
  mc_InvBroadcastCooldown :: duration

definition DefaultConfig :: mempool_config where
  "DefaultConfig = \<lparr>mc_MaxTxs = 5000, mc_MaxBytes = 10 * 1024 * 1024, mc_TTL = 10 * minute,
     mc_InvBroadcastCooldown = 30 * second\<rparr>"

record tx_entry =
  te_tx :: transaction
  te_addedAt :: gotime
  te_expiresAt :: gotime
  te_size :: int

record mempool =
  mp_cfg :: mempool_config
  mp_txs :: "tx_entry list"
  mp_seen :: "string set"
  mp_txExpiry :: "string \<rightharpoonup> gotime"
  mp_totalBytes :: int
  mp_lastInvBroadcast :: "string \<rightharpoonup> gotime"

abbreviation entry_id :: "tx_entry \<Rightarrow> string" where
  "entry_id e \<equiv> tx_ID (te_tx e)"

section \<open>Operations\<close>

definition New :: "mempool_config \<Rightarrow> mempool" where
  "New cfg =
     (let cfg = (if mc_MaxTxs cfg \<le> 0 then cfg\<lparr>mc_MaxTxs := 5000\<rparr> else cfg);
          cfg = (if mc_MaxBytes cfg \<le> 0 then cfg\<lparr>mc_MaxBytes := 10 * 1024 * 1024\<rparr> else cfg);
          cfg = (if mc_TTL cfg \<le> 0 then cfg\<lparr>mc_TTL := 10 * minute\<rparr> else cfg);
          cfg = (if mc_InvBroadcastCooldown cfg \<le> 0
                 then cfg\<lparr>mc_InvBroadcastCooldown := 30 * second\<rparr> else cfg)
      in \<lparr>mp_cfg = cfg, mp_txs = [], mp_seen = {}, mp_txExpiry = Map.empty, mp_totalBytes = 0,
          mp_lastInvBroadcast = Map.empty\<rparr>)"

definition estimateTxSize :: "transaction \<Rightarrow> int" where
  "estimateTxSize tx =
     (let s = int (length (tx_ID tx)) + int (length (tx_Payload tx)); s = s + 8 in s + 100)"

definition Add :: "gotime \<Rightarrow> transaction \<Rightarrow> mempool \<Rightarrow> bool \<times> mempool" where
  "Add now tx mp =
     (if tx_ID tx \<in> mp_seen mp then (False, mp)
      else let txSize = estimateTxSize tx in
        if int (length (mp_txs mp)) \<ge> mc_MaxTxs (mp_cfg mp) then (False, mp)
        else if mp_totalBytes mp + txSize > mc_MaxBytes (mp_cfg mp) then (False, mp)
        else let entry = \<lparr>te_tx = tx, te_addedAt = now,
                          te_expiresAt = now + mc_TTL (mp_cfg mp), te_size = txSize\<rparr>
          in (True, mp\<lparr>mp_seen := insert (tx_ID tx) (mp_seen mp),
                       mp_txExpiry := (mp_txExpiry mp)(tx_ID tx \<mapsto> te_expiresAt entry),
                       mp_txs := mp_txs mp @ [entry],
                       mp_totalBytes := mp_totalBytes mp + txSize\<rparr>))"

text \<open>The body of the loop of \<^verbatim>\<open>Pop\<close>: one popped entry leaves the auxiliary maps.\<close>

definition pop_cleanup :: "tx_entry \<Rightarrow> mempool \<Rightarrow> mempool" where
  "pop_cleanup entry mp =
     mp\<lparr>mp_seen := mp_seen mp - {entry_id entry},
        mp_txExpiry := (mp_txExpiry mp)(entry_id entry := None),
        mp_lastInvBroadcast := (mp_lastInvBroadcast mp)(entry_id entry := None),
        mp_totalBytes := mp_totalBytes mp - te_size entry\<rparr>"

definition Pop :: "int \<Rightarrow> mempool \<Rightarrow> transaction list \<times> mempool" where
  "Pop mx mp =
     (if mx \<le> 0 \<or> length (mp_txs mp) = 0 then ([], mp)
      else let mx = (if mx > int (length (mp_txs mp)) then int (length (mp_txs mp)) else mx);
               poppedEntries = take (nat mx) (mp_txs mp);
               out = map te_tx poppedEntries;
               mp = fold pop_cleanup poppedEntries mp;
               mp = mp\<lparr>mp_txs := drop (nat mx) (mp_txs mp)\<rparr>;
               mp = (if length (mp_txs mp) = 0 then mp\<lparr>mp_totalBytes := 0\<rparr> else mp)
           in (out, mp))"

text \<open>\<^verbatim>\<open>Return\<close> calls \<^verbatim>\<open>Add\<close> for each transaction; \<open>clock\<close> is the time each call reads.\<close>

primrec Return :: "(nat \<Rightarrow> gotime) \<Rightarrow> transaction list \<Rightarrow> mempool \<Rightarrow> mempool" where
  "Return clock [] mp = mp"
| "Return clock (tx # txs) mp = Return (clock \<circ> Suc) txs (snd (Add (clock 0) tx mp))"

text \<open>
  The in-place filter: index \<open>i\<close> of the range reads the backing array that the appends to
  \<^verbatim>\<open>filtered\<close> (whose length is \<open>j\<close>) are overwriting from the front.
\<close>

fun sweep :: "(tx_entry \<Rightarrow> bool) \<Rightarrow> (string \<Rightarrow> mempool \<Rightarrow> mempool) \<Rightarrow> nat list \<Rightarrow> nat \<Rightarrow>
    mempool \<Rightarrow> nat \<times> mempool" where
  "sweep gone forget [] j mp = (j, mp)"
| "sweep gone forget (i # is) j mp =
     (let entry = mp_txs mp ! i in
      if gone entry then sweep gone forget is j (forget (entry_id entry) mp)
      else sweep gone forget is (Suc j)
             (mp\<lparr>mp_txs := (mp_txs mp)[j := entry], mp_totalBytes := mp_totalBytes mp + te_size entry\<rparr>))"

definition forget_removed :: "string \<Rightarrow> mempool \<Rightarrow> mempool" where
  "forget_removed i mp =
     mp\<lparr>mp_seen := mp_seen mp - {i}, mp_txExpiry := (mp_txExpiry mp)(i := None)\<rparr>"

definition forget_expired :: "string \<Rightarrow> mempool \<Rightarrow> mempool" where
  "forget_expired i mp =
     mp\<lparr>mp_seen := mp_seen mp - {i}, mp_txExpiry := (mp_txExpiry mp)(i := None),
        mp_lastInvBroadcast := (mp_lastInvBroadcast mp)(i := None)\<rparr>"

definition RemoveByID :: "string set \<Rightarrow> mempool \<Rightarrow> mempool" where
  "RemoveByID ids mp =
     (if ids = {} \<or> length (mp_txs mp) = 0 then mp
      else let (j, mp) = sweep (\<lambda>e. entry_id e \<in> ids) forget_removed [0..<length (mp_txs mp)] 0
                           (mp\<lparr>mp_totalBytes := 0\<rparr>)
           in mp\<lparr>mp_txs := take j (mp_txs mp)\<rparr>)"

definition CleanExpired :: "gotime \<Rightarrow> mempool \<Rightarrow> mempool" where
  "CleanExpired now mp =
     (let (j, mp) = sweep (\<lambda>e. now > te_expiresAt e) forget_expired [0..<length (mp_txs mp)] 0
                      (mp\<lparr>mp_totalBytes := 0\<rparr>)
      in mp\<lparr>mp_txs := take j (mp_txs mp)\<rparr>)"

definition Size :: "mempool \<Rightarrow> int" where
  "Size mp = int (length (mp_txs mp))"

definition Snapshot :: "int \<Rightarrow> mempool \<Rightarrow> transaction list" where
  "Snapshot mx mp =
     (if length (mp_txs mp) = 0 \<or> mx = 0 then []
      else let mx = (if mx < 0 \<or> mx > int (length (mp_txs mp)) then int (length (mp_txs mp)) else mx)
           in map (\<lambda>i. te_tx (mp_txs mp ! i)) [0..<nat mx])"

definition CanBroadcast :: "gotime \<Rightarrow> string \<Rightarrow> mempool \<Rightarrow> bool" where
  "CanBroadcast now txid mp =
     (case mp_lastInvBroadcast mp txid of
        None \<Rightarrow> True
      | Some lastTime \<Rightarrow> now - lastTime \<ge> mc_InvBroadcastCooldown (mp_cfg mp))"

definition MarkBroadcast :: "gotime \<Rightarrow> string \<Rightarrow> mempool \<Rightarrow> mempool" where
  "MarkBroadcast now txid mp =
     mp\<lparr>mp_lastInvBroadcast := (mp_lastInvBroadcast mp)(txid \<mapsto> now)\<rparr>"

definition DebugInfo :: "mempool \<Rightarrow> string" where
  "DebugInfo mp =
     ''Txs: '' @ dec_int (int (length (mp_txs mp))) @ ''/'' @ dec_int (mc_MaxTxs (mp_cfg mp)) @
     '', Bytes: '' @ dec_int (mp_totalBytes mp) @ ''/'' @ dec_int (mc_MaxBytes (mp_cfg mp))"

section \<open>The in-place filter\<close>

text \<open>
  Both loops are one function up to whether they also drop the announcement time; \<open>sweep\<close>
  leaves in the first \<open>j\<close> cells of the array exactly the entries a \<open>filter\<close> keeps.
\<close>

definition forget_gen :: "bool \<Rightarrow> string set \<Rightarrow> mempool \<Rightarrow> mempool" where
  "forget_gen c is mp =
     mp\<lparr>mp_seen := mp_seen mp - is, mp_txExpiry := mp_txExpiry mp |` (- is),
        mp_lastInvBroadcast := (if c then mp_lastInvBroadcast mp |` (- is) else mp_lastInvBroadcast mp)\<rparr>"

lemma restrict_map_insert: "m |` (- insert i A) = (m |` (- A))(i := None)"
  by (auto simp: restrict_map_def fun_eq_iff)

lemma restrict_map_upd_None: "(m(i := None)) |` (- A) = m |` (- insert i A)"
  by (auto simp: restrict_map_def fun_eq_iff)

lemma forget_one:
  "forget_removed i = forget_gen False {i}" "forget_expired i = forget_gen True {i}"
  by (auto simp: forget_removed_def forget_expired_def forget_gen_def fun_eq_iff restrict_map_def
      intro!: arg_cong2 [where f = mp_txExpiry_update] )

lemma forget_gen_simps [simp]:
  "mp_txs (forget_gen c A mp) = mp_txs mp" "mp_cfg (forget_gen c A mp) = mp_cfg mp"
  "mp_totalBytes (forget_gen c A mp) = mp_totalBytes mp"
  "forget_gen c A (mp\<lparr>mp_txs := xs\<rparr>) = (forget_gen c A mp)\<lparr>mp_txs := xs\<rparr>"
  "forget_gen c A (mp\<lparr>mp_totalBytes := k\<rparr>) = (forget_gen c A mp)\<lparr>mp_totalBytes := k\<rparr>"
  "forget_gen c {} mp = mp"
  by (auto simp: forget_gen_def restrict_map_def)

lemma forget_gen_twice [simp]:
  "forget_gen c A (forget_gen c B mp) = forget_gen c (A \<union> B) mp"
proof -
  have "mp_seen mp - B - A = mp_seen mp - (A \<union> B)" by auto
  moreover have "- B \<inter> - A = - (A \<union> B)" by auto
  ultimately show ?thesis by (simp add: forget_gen_def)
qed

lemma take_update_grow: "j < length xs \<Longrightarrow> take (Suc j) (xs[j := x]) = take j xs @ [x]"
  by (simp add: take_Suc_conv_app_nth)

lemma sweep_filter:
  assumes "i + length es = length (mp_txs mp)" "j \<le> i" "drop i (mp_txs mp) = es"
  shows "\<exists>k B. sweep gone (\<lambda>i. forget_gen c {i}) [i..<length (mp_txs mp)] j mp
      = (k, (forget_gen c (entry_id ` {e \<in> set es. gone e}) mp)
              \<lparr>mp_txs := B, mp_totalBytes := mp_totalBytes mp + sum_list (map te_size (filter (Not \<circ> gone) es))\<rparr>)
      \<and> take k B = take j (mp_txs mp) @ filter (Not \<circ> gone) es"
  using assms
proof (induction es arbitrary: i j mp)
  case Nil
  then show ?case by (auto intro!: exI [of _ j] exI [of _ "mp_txs mp"])
next
  case (Cons e es)
  let ?n = "length (mp_txs mp)"
  have i: "i < ?n" and e: "mp_txs mp ! i = e" and d: "drop (Suc i) (mp_txs mp) = es"
    using Cons.prems by (auto simp: Cons_nth_drop_Suc [symmetric] simp del: drop_eq_Nil)
  have upt: "[i..<?n] = i # [Suc i..<?n]" using i by (rule upt_conv_Cons)
  show ?case
  proof (cases "gone e")
    case True
    have "{e' \<in> set (e # es). gone e'} = insert e {e \<in> set es. gone e}" using True by auto
    with True show ?thesis
      using Cons.IH [of "Suc i" "forget_gen c {entry_id e} mp" j] Cons.prems d e
      by (simp add: upt Let_def)
  next
    case False
    let ?mp = "mp\<lparr>mp_txs := (mp_txs mp)[j := e], mp_totalBytes := mp_totalBytes mp + te_size e\<rparr>"
    have "{e' \<in> set (e # es). gone e'} = {e \<in> set es. gone e}" using False by auto
    moreover have "j < ?n" using i Cons.prems(2) by simp
    moreover have "drop (Suc i) ((mp_txs mp)[j := e]) = es" using d Cons.prems(2) by simp
    ultimately show ?thesis
      using Cons.IH [of "Suc i" ?mp "Suc j"] Cons.prems e False
      by (simp add: upt Let_def take_update_grow add.assoc)
  qed
qed

lemma sweep_all:
  obtains k B where "sweep gone (\<lambda>i. forget_gen c {i}) [0..<length (mp_txs mp)] 0 (mp\<lparr>mp_totalBytes := 0\<rparr>)
      = (k, (forget_gen c (entry_id ` {e \<in> set (mp_txs mp). gone e}) mp)
              \<lparr>mp_txs := B, mp_totalBytes := sum_list (map te_size (filter (Not \<circ> gone) (mp_txs mp)))\<rparr>)"
    "take k B = filter (Not \<circ> gone) (mp_txs mp)"
  using sweep_filter [of 0 "mp_txs mp" "mp\<lparr>mp_totalBytes := 0\<rparr>" 0 gone c] by auto

lemma RemoveByID_eq:
  assumes "mp_totalBytes mp = sum_list (map te_size (mp_txs mp))"
  shows "RemoveByID ids mp = (let keep = filter (\<lambda>e. entry_id e \<notin> ids) (mp_txs mp) in
     (forget_gen False (entry_id ` set (mp_txs mp) \<inter> ids) mp)
       \<lparr>mp_txs := keep, mp_totalBytes := sum_list (map te_size keep)\<rparr>)"
proof (cases "ids = {} \<or> mp_txs mp = []")
  case True
  then show ?thesis using assms by (auto simp: RemoveByID_def Let_def)
next
  case False
  obtain k B where "sweep (\<lambda>e. entry_id e \<in> ids) (\<lambda>i. forget_gen False {i}) [0..<length (mp_txs mp)] 0
        (mp\<lparr>mp_totalBytes := 0\<rparr>)
      = (k, (forget_gen False (entry_id ` {e \<in> set (mp_txs mp). entry_id e \<in> ids}) mp)
          \<lparr>mp_txs := B, mp_totalBytes := sum_list (map te_size (filter (Not \<circ> (\<lambda>e. entry_id e \<in> ids)) (mp_txs mp)))\<rparr>)"
    "take k B = filter (Not \<circ> (\<lambda>e. entry_id e \<in> ids)) (mp_txs mp)"
    by (rule sweep_all)
  moreover have "entry_id ` {e \<in> set (mp_txs mp). entry_id e \<in> ids} = entry_id ` set (mp_txs mp) \<inter> ids"
    by auto
  ultimately show ?thesis using False
    by (simp add: RemoveByID_def Let_def o_def forget_one [abs_def])
qed

lemma CleanExpired_eq:
  "CleanExpired now mp = (let keep = filter (\<lambda>e. now \<le> te_expiresAt e) (mp_txs mp) in
     (forget_gen True (entry_id ` {e \<in> set (mp_txs mp). te_expiresAt e < now}) mp)
       \<lparr>mp_txs := keep, mp_totalBytes := sum_list (map te_size keep)\<rparr>)"
proof -
  obtain k B where "sweep (\<lambda>e. te_expiresAt e < now) (\<lambda>i. forget_gen True {i}) [0..<length (mp_txs mp)] 0
        (mp\<lparr>mp_totalBytes := 0\<rparr>)
      = (k, (forget_gen True (entry_id ` {e \<in> set (mp_txs mp). te_expiresAt e < now}) mp)
          \<lparr>mp_txs := B, mp_totalBytes := sum_list (map te_size (filter (Not \<circ> (\<lambda>e. te_expiresAt e < now)) (mp_txs mp)))\<rparr>)"
    "take k B = filter (Not \<circ> (\<lambda>e. te_expiresAt e < now)) (mp_txs mp)"
    by (rule sweep_all)
  then show ?thesis
    by (simp add: CleanExpired_def Let_def o_def not_less forget_one [abs_def])
qed

section \<open>Invariant\<close>

abbreviation expiries :: "tx_entry list \<Rightarrow> string \<rightharpoonup> gotime" where
  "expiries es \<equiv> map_of (map (\<lambda>e. (entry_id e, te_expiresAt e)) es)"

definition pool_inv :: "mempool \<Rightarrow> bool" where
  "pool_inv mp \<longleftrightarrow>
     distinct (map entry_id (mp_txs mp))
     \<and> mp_seen mp = entry_id ` set (mp_txs mp)
     \<and> mp_txExpiry mp = expiries (mp_txs mp)
     \<and> mp_totalBytes mp = sum_list (map te_size (mp_txs mp))
     \<and> (\<forall>e \<in> set (mp_txs mp). te_size e = estimateTxSize (te_tx e)
            \<and> te_expiresAt e = te_addedAt e + mc_TTL (mp_cfg mp))
     \<and> int (length (mp_txs mp)) \<le> mc_MaxTxs (mp_cfg mp)
     \<and> mp_totalBytes mp \<le> mc_MaxBytes (mp_cfg mp)
     \<and> 0 < mc_MaxTxs (mp_cfg mp) \<and> 0 < mc_MaxBytes (mp_cfg mp) \<and> 0 < mc_TTL (mp_cfg mp)
     \<and> 0 < mc_InvBroadcastCooldown (mp_cfg mp)"

lemma estimateTxSize_pos: "0 < estimateTxSize tx"
  by (simp add: estimateTxSize_def Let_def)

lemma expiries_notin: "i \<notin> entry_id ` set es \<Longrightarrow> expiries es i = None"
  by (induction es) auto

lemma expiries_append_new:
  "entry_id e \<notin> entry_id ` set es \<Longrightarrow> expiries (es @ [e]) = (expiries es)(entry_id e \<mapsto> te_expiresAt e)"
  by (induction es) (auto simp: fun_eq_iff)

lemma expiries_filter:
  "distinct (map entry_id es) \<Longrightarrow>
   expiries (filter P es) = expiries es |` (- (entry_id ` {e \<in> set es. \<not> P e}))"
proof (induction es)
  case (Cons e es)
  have "expiries es (entry_id e) = None" using Cons.prems by (auto intro!: expiries_notin)
  moreover have "{x \<in> set (e # es). \<not> P x} = (if P e then {} else {e}) \<union> {x \<in> set es. \<not> P x}" by auto
  ultimately show ?case using Cons by (auto simp: restrict_map_def fun_eq_iff image_iff)
qed (simp add: restrict_map_def)

lemma sum_filter_le:
  "\<forall>e \<in> set es. 0 \<le> te_size e \<Longrightarrow> sum_list (map te_size (filter P es)) \<le> sum_list (map te_size es)"
  by (induction es) auto

lemma New_inv [inv_intro]: "pool_inv (New cfg)"
  by (simp add: pool_inv_def New_def Let_def)

lemma Add_inv [inv_intro]:
  assumes "pool_inv mp" shows "pool_inv (snd (Add now tx mp))"
  using assms expiries_append_new [of "\<lparr>te_tx = tx, te_addedAt = now,
      te_expiresAt = now + mc_TTL (mp_cfg mp), te_size = estimateTxSize tx\<rparr>" "mp_txs mp"]
  by (auto simp: pool_inv_def Add_def Let_def)

text \<open>Keeping the entries that satisfy \<open>P\<close>, whatever happens to the announcement times.\<close>

lemma keep_inv:
  assumes inv: "pool_inv mp" and keep: "keep = filter P (mp_txs mp)"
    and gone: "A = entry_id ` {e \<in> set (mp_txs mp). \<not> P e}"
  shows "pool_inv ((forget_gen c A mp)\<lparr>mp_txs := keep, mp_totalBytes := sum_list (map te_size keep)\<rparr>)"
proof -
  have d: "distinct (map entry_id (mp_txs mp))" using inv by (simp add: pool_inv_def)
  have pos: "\<forall>e \<in> set (mp_txs mp). 0 \<le> te_size e"
    using inv estimateTxSize_pos by (auto simp: pool_inv_def intro: less_imp_le)
  have "mp_seen mp - A = entry_id ` set keep"
    using inv d by (auto simp: pool_inv_def keep gone distinct_map inj_on_def)
  moreover have "mp_txExpiry mp |` (- A) = expiries keep"
    using inv expiries_filter [OF d, of P] by (simp add: pool_inv_def keep gone)
  moreover have "int (length keep) \<le> mc_MaxTxs (mp_cfg mp)"
    using inv length_filter_le [of P "mp_txs mp"] by (simp add: pool_inv_def keep del: length_filter_le)
  moreover have "distinct (map entry_id keep)" using d by (simp add: keep distinct_map_filter)
  moreover have "sum_list (map te_size keep) \<le> mp_totalBytes mp"
    using inv sum_filter_le [OF pos] by (simp add: pool_inv_def keep)
  ultimately show ?thesis
    using inv by (simp add: pool_inv_def forget_gen_def) (auto simp: keep)
qed

lemma RemoveByID_inv [inv_intro]: "pool_inv mp \<Longrightarrow> pool_inv (RemoveByID ids mp)"
  by (subst RemoveByID_eq) (auto simp: pool_inv_def [of mp] Let_def intro!: keep_inv)

lemma CleanExpired_inv [inv_intro]: "pool_inv mp \<Longrightarrow> pool_inv (CleanExpired now mp)"
  by (auto simp: CleanExpired_eq Let_def intro!: keep_inv)

lemma MarkBroadcast_inv [inv_intro]: "pool_inv mp \<Longrightarrow> pool_inv (MarkBroadcast now i mp)"
  by (simp add: pool_inv_def MarkBroadcast_def)

lemma Return_inv [inv_intro]: "pool_inv mp \<Longrightarrow> pool_inv (Return clock txs mp)"
  by (induction txs arbitrary: clock mp) (auto intro: Add_inv)

text \<open>Popping.\<close>

abbreviation pending :: "mempool \<Rightarrow> transaction list" where
  "pending mp \<equiv> map te_tx (mp_txs mp)"

lemma fold_pop_cleanup:
  "fold pop_cleanup es mp =
     (forget_gen True (entry_id ` set es) mp)\<lparr>mp_totalBytes := mp_totalBytes mp - sum_list (map te_size es)\<rparr>"
proof (induction es arbitrary: mp)
  case (Cons e es)
  have "pop_cleanup e mp = (forget_gen True {entry_id e} mp)\<lparr>mp_totalBytes := mp_totalBytes mp - te_size e\<rparr>"
    unfolding forget_one(2) [symmetric] by (simp add: pop_cleanup_def forget_expired_def)
  then show ?case using Cons.IH [of "pop_cleanup e mp"] by (simp add: algebra_simps)
qed (simp add: forget_gen_def restrict_map_def)

lemma drop_as_filter:
  assumes "distinct (map entry_id es)"
  shows "drop n es = filter (\<lambda>e. e \<notin> set (take n es)) es"
proof -
  have "distinct es" using assms by (simp add: distinct_map)
  then have d: "set (take n es) \<inter> set (drop n es) = {}"
    by (metis append_take_drop_id distinct_append)
  have "filter (\<lambda>e. e \<notin> set (take n es)) (take n es @ drop n es) = drop n es"
    using d by (subst filter_append) (auto simp: filter_empty_conv filter_id_conv simp del: append_take_drop_id)
  then show ?thesis by simp
qed

lemma sum_take_drop:
  "sum_list (map f xs) = sum_list (map f (take n xs)) + (sum_list (map f (drop n xs)) :: int)"
  by (metis append_take_drop_id map_append sum_list_append)

lemma Pop_eq:
  assumes inv: "pool_inv mp"
  shows "Pop mx mp = (let n = nat mx; keep = drop n (mp_txs mp) in
     (take n (pending mp),
      (forget_gen True (entry_id ` {e \<in> set (mp_txs mp). \<not> e \<notin> set (take n (mp_txs mp))}) mp)
         \<lparr>mp_txs := keep, mp_totalBytes := sum_list (map te_size keep)\<rparr>))"
proof (cases "mx \<le> 0 \<or> mp_txs mp = []")
  case True
  then show ?thesis using inv by (auto simp: Pop_def Let_def pool_inv_def)
next
  case False
  let ?es = "mp_txs mp" let ?k = "if mx > int (length ?es) then int (length ?es) else mx"
  have k: "take (nat ?k) ?es = take (nat mx) ?es" "drop (nat ?k) ?es = drop (nat mx) ?es" by auto
  have "{e \<in> set ?es. \<not> e \<notin> set (take (nat mx) ?es)} = set (take (nat mx) ?es)"
    by (auto dest: in_set_takeD)
  moreover have "mp_totalBytes mp - sum_list (map te_size (take (nat mx) ?es))
      = sum_list (map te_size (drop (nat mx) ?es))"
    using inv sum_take_drop [of te_size ?es "nat mx"] by (simp add: pool_inv_def)
  ultimately show ?thesis using False
    unfolding Pop_def Let_def fold_pop_cleanup k by (simp add: take_map)
qed

lemma Pop_inv [inv_intro]:
  assumes inv: "pool_inv mp" shows "pool_inv (snd (Pop mx mp))"
proof -
  have "distinct (map entry_id (mp_txs mp))" using inv by (simp add: pool_inv_def)
  from keep_inv [OF inv drop_as_filter [OF this] refl] show ?thesis
    by (simp add: Pop_eq [OF inv] Let_def)
qed

section \<open>The interface of the pool\<close>

text \<open>
  What the node and the miner rely on: an accepted transaction is queued last, popping takes a
  prefix, removal by id removes exactly those ids, and no two pending transactions share an id.
\<close>

locale tx_pool =
  fixes inv :: "'m \<Rightarrow> bool" and queue :: "'m \<Rightarrow> transaction list"
    and add :: "transaction \<Rightarrow> 'm \<Rightarrow> bool \<times> 'm"
    and pop :: "int \<Rightarrow> 'm \<Rightarrow> transaction list \<times> 'm"
    and remove :: "string set \<Rightarrow> 'm \<Rightarrow> 'm"
  assumes distinct_queue: "inv m \<Longrightarrow> distinct (map tx_ID (queue m))"
    and add_inv: "inv m \<Longrightarrow> inv (snd (add t m))"
    and add_accepts: "inv m \<Longrightarrow> add t m = (True, m') \<Longrightarrow> queue m' = queue m @ [t]"
    and add_rejects: "inv m \<Longrightarrow> add t m = (False, m') \<Longrightarrow> m' = m"
    and pop_inv: "inv m \<Longrightarrow> inv (snd (pop n m))"
    and pop_prefix: "inv m \<Longrightarrow> fst (pop n m) = take (nat n) (queue m)"
    and pop_rest: "inv m \<Longrightarrow> queue (snd (pop n m)) = drop (nat n) (queue m)"
    and remove_inv: "inv m \<Longrightarrow> inv (remove ids m)"
    and remove_queue: "inv m \<Longrightarrow> queue (remove ids m) = filter (\<lambda>t. tx_ID t \<notin> ids) (queue m)"
begin

text \<open>What is handed out leaves the pool for good: no id is both popped and pending.\<close>

lemma popped_not_pending:
  assumes "inv m" "t \<in> set (fst (pop n m))"
  shows "tx_ID t \<notin> tx_ID ` set (queue (snd (pop n m)))"
proof -
  have "distinct (map tx_ID (take (nat n) (queue m) @ drop (nat n) (queue m)))"
    using distinct_queue [OF assms(1)] by simp
  then have "tx_ID ` set (take (nat n) (queue m)) \<inter> tx_ID ` set (drop (nat n) (queue m)) = {}"
    by (simp only: map_append distinct_append set_map)
  then show ?thesis using assms by (auto simp: pop_prefix pop_rest)
qed

text \<open>Two successive pops hand out what one pop of both amounts would, in arrival order.\<close>

lemma pop_pop:
  assumes "inv m" "0 \<le> a" "0 \<le> b"
  shows "fst (pop a m) @ fst (pop b (snd (pop a m))) = fst (pop (a + b) m)"
  using assms by (simp add: pop_prefix pop_rest pop_inv nat_add_distrib take_add)

lemma removed_not_pending:
  "inv m \<Longrightarrow> ids \<inter> tx_ID ` set (queue (remove ids m)) = {}"
  by (auto simp: remove_queue)

text \<open>Removing the ids of a confirmed block commutes with a pop that was already under way.\<close>

lemma remove_pop:
  "inv m \<Longrightarrow> ids \<inter> tx_ID ` set (fst (pop n m)) = {} \<Longrightarrow>
   fst (pop n m) @ queue (remove ids (snd (pop n m))) = queue (remove ids m)"
proof -
  assume inv: "inv m" and d: "ids \<inter> tx_ID ` set (fst (pop n m)) = {}"
  have "filter (\<lambda>t. tx_ID t \<notin> ids) (take (nat n) (queue m)) = take (nat n) (queue m)"
    using d inv by (auto simp: pop_prefix filter_id_conv)
  then have "filter (\<lambda>t. tx_ID t \<notin> ids) (take (nat n) (queue m) @ drop (nat n) (queue m))
      = take (nat n) (queue m) @ filter (\<lambda>t. tx_ID t \<notin> ids) (drop (nat n) (queue m))"
    by (simp only: filter_append)
  then show ?thesis using inv by (simp add: pop_prefix pop_rest pop_inv remove_queue)
qed

end

lemma pool_distinct: "pool_inv mp \<Longrightarrow> distinct (map tx_ID (pending mp))"
  by (simp add: pool_inv_def o_def)

lemma Add_accepts: "Add now t mp = (True, mp') \<Longrightarrow> pending mp' = pending mp @ [t]"
  by (auto simp: Add_def Let_def split: if_splits)

lemma Add_rejects: "Add now t mp = (False, mp') \<Longrightarrow> mp' = mp"
  by (auto simp: Add_def Let_def split: if_splits)

lemma RemoveByID_pending:
  "pool_inv mp \<Longrightarrow> pending (RemoveByID ids mp) = filter (\<lambda>t. tx_ID t \<notin> ids) (pending mp)"
  by (subst RemoveByID_eq) (auto simp: pool_inv_def Let_def filter_map o_def)

lemma Pop_prefix: "pool_inv mp \<Longrightarrow> fst (Pop n mp) = take (nat n) (pending mp)"
  by (simp add: Pop_eq Let_def)

lemma Pop_rest: "pool_inv mp \<Longrightarrow> pending (snd (Pop n mp)) = drop (nat n) (pending mp)"
  by (simp add: Pop_eq Let_def drop_map)

interpretation pool: tx_pool pool_inv pending "Add now" Pop RemoveByID for now
  by unfold_locales
    (rule pool_distinct Add_inv Add_accepts Add_rejects Pop_inv Pop_prefix Pop_rest RemoveByID_inv
      RemoveByID_pending; assumption)+

section \<open>Reachable pools\<close>

inductive pool_reachable :: "mempool \<Rightarrow> bool" where
  new: "pool_reachable (New cfg)"
| add: "pool_reachable mp \<Longrightarrow> pool_reachable (snd (Add now tx mp))"
| pop: "pool_reachable mp \<Longrightarrow> pool_reachable (snd (Pop n mp))"
| remove: "pool_reachable mp \<Longrightarrow> pool_reachable (RemoveByID ids mp)"
| clean: "pool_reachable mp \<Longrightarrow> pool_reachable (CleanExpired now mp)"
| mark: "pool_reachable mp \<Longrightarrow> pool_reachable (MarkBroadcast now i mp)"

lemma pool_reachable_inv: "pool_reachable mp \<Longrightarrow> pool_inv mp"
  by (induction rule: pool_reachable.induct) (intro inv_intro, assumption?)+

lemma pool_reachable_Return: "pool_reachable mp \<Longrightarrow> pool_reachable (Return clock txs mp)"
  by (induction txs arbitrary: clock mp) (auto intro: pool_reachable.add)

lemma Return_accepts:
  assumes "pool_inv mp" "distinct (map tx_ID txs)" "tx_ID ` set txs \<inter> tx_ID ` set (pending mp) = {}"
    and "int (length (mp_txs mp)) + int (length txs) \<le> mc_MaxTxs (mp_cfg mp)"
    and "mp_totalBytes mp + sum_list (map estimateTxSize txs) \<le> mc_MaxBytes (mp_cfg mp)"
  shows "pending (Return clock txs mp) = pending mp @ txs"
  using assms
proof (induction txs arbitrary: clock mp)
  case (Cons t txs)
  obtain ok mp' where a: "Add (clock 0) t mp = (ok, mp')" by fastforce
  have new: "tx_ID t \<notin> mp_seen mp" using Cons.prems(1,3) by (auto simp: pool_inv_def image_image)
  have pos: "0 \<le> sum_list (map estimateTxSize txs)"
    by (rule sum_list_nonneg) (auto intro: less_imp_le [OF estimateTxSize_pos])
  have ok: "ok = True" using a new Cons.prems(4,5) pos by (auto simp: Add_def Let_def split: if_splits)
  have eq: "mp_cfg mp' = mp_cfg mp" "mp_totalBytes mp' = mp_totalBytes mp + estimateTxSize t"
      "length (mp_txs mp') = Suc (length (mp_txs mp))"
    using a ok by (auto simp: Add_def Let_def split: if_splits)
  have q: "pending mp' = pending mp @ [t]" using Add_accepts a ok by simp
  have "pending (Return (clock \<circ> Suc) txs mp') = pending mp' @ txs"
    using Cons.prems Add_inv [of mp "clock 0" t] a q eq by (intro Cons.IH) auto
  then show ?case using a q by simp
qed simp

section \<open>Properties\<close>

text \<open>A small pool for the witnesses.\<close>

definition demo_tx :: "char \<Rightarrow> transaction" where
  "demo_tx c = \<lparr>tx_ID = [c], tx_Timestamp = 0, tx_Payload = ''pay''\<rparr>"

definition demo_pool :: mempool where
  "demo_pool = Return (\<lambda>i. int i) [demo_tx CHR ''a'', demo_tx CHR ''b'', demo_tx CHR ''a'', demo_tx CHR ''c'']
     (New \<lparr>mc_MaxTxs = 10, mc_MaxBytes = 1000, mc_TTL = 5, mc_InvBroadcastCooldown = 3\<rparr>)"

lemma demo_pool_reachable: "pool_reachable demo_pool"
  unfolding demo_pool_def by (intro pool_reachable_Return pool_reachable.new)

lemma demo_pool_pending: "pending demo_pool = [demo_tx CHR ''a'', demo_tx CHR ''b'', demo_tx CHR ''c'']"
  by (simp add: demo_pool_def New_def Add_def Let_def demo_tx_def estimateTxSize_def)

text \<open>
  C17: In every mempool the program can build, the ids are distinct, the set of seen ids and the
  expiry map hold exactly the pending ids (each with its entry's deadline), the byte count is the
  exact sum of the entry sizes, and the caps on the number of transactions and on the bytes hold.
\<close>
theorem mempool_consistent:
  assumes "pool_reachable mp"
  shows "distinct (map entry_id (mp_txs mp)) \<and> mp_seen mp = entry_id ` set (mp_txs mp)
     \<and> mp_txExpiry mp = map_of (map (\<lambda>e. (entry_id e, te_addedAt e + mc_TTL (mp_cfg mp))) (mp_txs mp))
     \<and> mp_totalBytes mp = sum_list (map estimateTxSize (pending mp))
     \<and> Size mp \<le> mc_MaxTxs (mp_cfg mp) \<and> mp_totalBytes mp \<le> mc_MaxBytes (mp_cfg mp)"
proof -
  have inv: "pool_inv mp" using assms by (rule pool_reachable_inv)
  then have "map te_size (mp_txs mp) = map estimateTxSize (pending mp)"
    and "map (\<lambda>e. (entry_id e, te_addedAt e + mc_TTL (mp_cfg mp))) (mp_txs mp)
       = map (\<lambda>e. (entry_id e, te_expiresAt e)) (mp_txs mp)"
    by (auto simp: pool_inv_def)
  then show ?thesis using inv unfolding pool_inv_def Size_def by metis
qed

theorem mempool_consistent_witness:
  "mp_totalBytes demo_pool = 336 \<and> mp_seen demo_pool = {''a'', ''b'', ''c''}"
  using mempool_consistent [OF demo_pool_reachable] demo_pool_pending
  by (simp add: demo_tx_def estimateTxSize_def Let_def flip: image_image) (auto simp flip: set_map)

text \<open>
  C39: The in-place filters are right although they overwrite the slice they are ranging over:
  \<^verbatim>\<open>RemoveByID\<close> and \<^verbatim>\<open>CleanExpired\<close> keep, in order, exactly the transactions whose id is not listed
  (whose deadline has not passed), and forget exactly the other ids.
\<close>
theorem filter_in_place:
  assumes "pool_reachable mp"
  shows "mp_txs (RemoveByID ids mp) = filter (\<lambda>e. entry_id e \<notin> ids) (mp_txs mp)
     \<and> mp_seen (RemoveByID ids mp) = mp_seen mp - ids
     \<and> mp_txs (CleanExpired now mp) = filter (\<lambda>e. now \<le> te_expiresAt e) (mp_txs mp)
     \<and> mp_seen (CleanExpired now mp) = mp_seen mp - entry_id ` {e \<in> set (mp_txs mp). te_expiresAt e < now}"
proof -
  have inv: "pool_inv mp" using assms by (rule pool_reachable_inv)
  then have "mp_totalBytes mp = sum_list (map te_size (mp_txs mp))" "mp_seen mp = entry_id ` set (mp_txs mp)"
    by (auto simp: pool_inv_def)
  then show ?thesis
    by (auto simp: RemoveByID_eq CleanExpired_eq Let_def forget_gen_def)
qed

theorem filter_in_place_witness:
  "pending (RemoveByID {''b'', ''z''} demo_pool) = [demo_tx CHR ''a'', demo_tx CHR ''c'']"
proof -
  have "pending (RemoveByID {''b'', ''z''} demo_pool)
      = filter (\<lambda>t. tx_ID t \<notin> {''b'', ''z''}) (pending demo_pool)"
    using filter_in_place [OF demo_pool_reachable, of "{''b'', ''z''}"] by (simp add: filter_map o_def)
  then show ?thesis unfolding demo_pool_pending by (simp add: demo_tx_def)
qed

text \<open>
  \<^verbatim>\<open>Pop\<close> hands out the oldest transactions, up to the number asked for, and giving them
  straight back with \<^verbatim>\<open>Return\<close> never loses one: all of them are accepted again, behind the rest.
\<close>

lemma pop_return_keeps_all:
  assumes "pool_reachable mp" and "Pop n mp = (out, mp')"
  shows "out @ pending mp' = pending mp \<and> length out = min (nat n) (length (pending mp))
     \<and> pending (Return clock out mp') = pending mp' @ out"
proof -
  have inv: "pool_inv mp" using assms(1) by (rule pool_reachable_inv)
  have out: "out = take (nat n) (pending mp)" and rest: "pending mp' = drop (nat n) (pending mp)"
    using assms(2) Pop_prefix [OF inv, of n] Pop_rest [OF inv, of n] by auto
  have inv': "pool_inv mp'" using Pop_inv [OF inv, of n] assms(2) by simp
  have split: "out @ pending mp' = pending mp" by (simp add: out rest)
  have cfg: "mp_cfg mp' = mp_cfg mp" using assms(2) inv by (auto simp: Pop_eq Let_def)
  have d: "distinct (map tx_ID (out @ pending mp'))"
    using pool_distinct [OF inv] by (simp only: split)
  have len: "int (length (mp_txs mp')) + int (length out) = int (length (mp_txs mp))"
    using arg_cong [OF split, of length] by simp
  have size: "mp_totalBytes m = sum_list (map estimateTxSize (pending m))" if "pool_inv m" for m
    using that by (auto simp: pool_inv_def intro: arg_cong [where f = sum_list])
  have bytes: "mp_totalBytes mp' + sum_list (map estimateTxSize out) = mp_totalBytes mp"
    unfolding size [OF inv] size [OF inv'] by (simp flip: split)
  have "pending (Return clock out mp') = pending mp' @ out"
    using inv d len bytes by (intro Return_accepts [OF inv']) (auto simp: cfg pool_inv_def)
  with out split show ?thesis by simp
qed

lemma pop_return_keeps_all_witness:
  "pending (Return (\<lambda>_. 9) (fst (Pop 2 demo_pool)) (snd (Pop 2 demo_pool)))
     = [demo_tx CHR ''c'', demo_tx CHR ''a'', demo_tx CHR ''b'']"
  unfolding conjunct2 [OF conjunct2 [OF pop_return_keeps_all [OF demo_pool_reachable prod.collapse [symmetric]]]]
  using Pop_prefix [OF pool_reachable_inv [OF demo_pool_reachable], of 2]
    Pop_rest [OF pool_reachable_inv [OF demo_pool_reachable], of 2]
  by (simp add: demo_pool_pending)

text \<open>
  After an announcement of an id at time \<open>t\<close> the id may be announced again exactly from
  \<open>t\<close> plus the cooldown on, and removing the transaction by id (a block confirmed it) does not
  forget the announcement, while popping it or letting it expire does.
\<close>
lemma announcement_cooldown:
  assumes "pool_reachable mp"
  shows "CanBroadcast now i (MarkBroadcast t i mp) = (t + mc_InvBroadcastCooldown (mp_cfg mp) \<le> now)
     \<and> mp_lastInvBroadcast (RemoveByID ids mp) = mp_lastInvBroadcast mp
     \<and> (\<forall>tx \<in> set (fst (Pop n mp)). CanBroadcast now (tx_ID tx) (snd (Pop n mp)))
     \<and> (\<forall>e \<in> set (mp_txs mp). te_expiresAt e < t \<longrightarrow> CanBroadcast now (entry_id e) (CleanExpired t mp))"
proof -
  have inv: "pool_inv mp" using assms by (rule pool_reachable_inv)
  then have "mp_lastInvBroadcast (RemoveByID ids mp) = mp_lastInvBroadcast mp"
    by (subst RemoveByID_eq) (auto simp: pool_inv_def Let_def forget_gen_def)
  moreover have "CanBroadcast now (tx_ID tx) (snd (Pop n mp))" if "tx \<in> set (fst (Pop n mp))" for tx
    using that
    by (auto simp: Pop_eq [OF inv] Let_def CanBroadcast_def forget_gen_def restrict_map_def take_map
        dest: in_set_takeD)
  moreover have "CanBroadcast now (entry_id e) (CleanExpired t mp)"
    if "e \<in> set (mp_txs mp)" "te_expiresAt e < t" for e
    using that by (auto simp: CleanExpired_eq Let_def CanBroadcast_def forget_gen_def restrict_map_def)
  ultimately show ?thesis by (auto simp: CanBroadcast_def MarkBroadcast_def)
qed

lemma announcement_cooldown_witness:
  "\<not> CanBroadcast 9 ''a'' (MarkBroadcast 7 ''a'' demo_pool) \<and> CanBroadcast 10 ''a'' (MarkBroadcast 7 ''a'' demo_pool)"
  using announcement_cooldown [OF demo_pool_reachable, of _ "''a''" 7]
  by (simp add: demo_pool_def New_def Add_def Let_def demo_tx_def estimateTxSize_def)

end
