(* ===== verification/Peers.thy ===== *)
theory Peers
  imports GoTypes "HOL-Library.Product_Lexorder" "HOL-Library.Option_ord"
begin

text \<open>
  \<^verbatim>\<open>internal/peer/peermanager.go\<close>: the local view of the peers and the choice of the peer to
  follow. The map of peers is ranged over by \<^verbatim>\<open>BestPeer\<close> and \<^verbatim>\<open>Snapshot\<close>, so it is an association
  list. \<^verbatim>\<open>*big.Int\<close> is an \<open>int option\<close> (\<open>None\<close> is nil). The choice is an instance of the locale
  \<open>running_best\<close>: one pass over a list that keeps a best entry by some key.
\<close>

section \<open>State and operations\<close>

record peer_info =
  pi_ID :: string
  pi_TipHeight :: uint64
  pi_TipHash :: hash
  pi_CumWork :: "int option"
  pi_LastRTT :: duration
  pi_Timeouts :: int
  pi_Errors :: int
  pi_CooldownUntil :: gotime
  pi_LastSuccessful :: gotime
  pi_LastUpdated :: gotime

record manager =
  pm_peers :: "(string \<times> peer_info) list"
  pm_backoff :: duration

definition NewManager :: "duration \<Rightarrow> manager" where
  "NewManager backoff =
     (let backoff = (if backoff \<le> 0 then 800 * millisecond else backoff)
      in \<lparr>pm_peers = [], pm_backoff = backoff\<rparr>)"

definition new_info :: "string \<Rightarrow> peer_info" where
  "new_info i = \<lparr>pi_ID = i, pi_TipHeight = 0, pi_TipHash = 0, pi_CumWork = Some 0, pi_LastRTT = 0,
     pi_Timeouts = 0, pi_Errors = 0, pi_CooldownUntil = 0, pi_LastSuccessful = 0, pi_LastUpdated = 0\<rparr>"

text \<open>\<^verbatim>\<open>ensureLocked\<close> returns a pointer into the map; its users write the record back under the key.\<close>

definition ensureLocked :: "string \<Rightarrow> manager \<Rightarrow> peer_info \<times> manager" where
  "ensureLocked i m =
     (case map_of (pm_peers m) i of
        Some p \<Rightarrow> (p, m)
      | None \<Rightarrow> let p = new_info i in (p, m\<lparr>pm_peers := al_put i p (pm_peers m)\<rparr>))"

definition store_peer :: "string \<Rightarrow> peer_info \<Rightarrow> manager \<Rightarrow> manager" where
  "store_peer i p m = m\<lparr>pm_peers := al_put i p (pm_peers m)\<rparr>"

definition Upsert :: "string \<Rightarrow> manager \<Rightarrow> manager" where
  "Upsert i m =
     (if i = '''' then m
      else case map_of (pm_peers m) i of
             Some _ \<Rightarrow> m
           | None \<Rightarrow> m\<lparr>pm_peers := al_put i (new_info i) (pm_peers m)\<rparr>)"

definition UpdateTip ::
    "gotime \<Rightarrow> string \<Rightarrow> uint64 \<Rightarrow> hash \<Rightarrow> int option \<Rightarrow> duration \<Rightarrow> manager \<Rightarrow> manager" where
  "UpdateTip now i height tipHash cumWork rtt m =
     (case cumWork of
        None \<Rightarrow> m
      | Some w \<Rightarrow>
          if i = '''' then m
          else let (p, m) = ensureLocked i m;
                   p = p\<lparr>pi_TipHeight := height, pi_TipHash := tipHash, pi_CumWork := Some w,
                         pi_LastRTT := rtt, pi_LastUpdated := now, pi_LastSuccessful := now\<rparr>;
                   p = (if pi_CooldownUntil p < now then p\<lparr>pi_CooldownUntil := 0\<rparr> else p)
               in store_peer i p m)"

definition reportFailure :: "gotime \<Rightarrow> string \<Rightarrow> bool \<Rightarrow> manager \<Rightarrow> manager" where
  "reportFailure now i timeout m =
     (if i = '''' then m
      else let (p, m) = ensureLocked i m;
               p = (if timeout then p\<lparr>pi_Timeouts := pi_Timeouts p + 1\<rparr>
                    else p\<lparr>pi_Errors := pi_Errors p + 1\<rparr>);
               p = p\<lparr>pi_LastUpdated := now, pi_CooldownUntil := now + pm_backoff m\<rparr>
           in store_peer i p m)"

definition ReportTimeout :: "gotime \<Rightarrow> string \<Rightarrow> manager \<Rightarrow> manager" where
  "ReportTimeout now i m = reportFailure now i True m"

definition ReportError :: "gotime \<Rightarrow> string \<Rightarrow> manager \<Rightarrow> manager" where
  "ReportError now i m = reportFailure now i False m"

text \<open>One iteration of the loop of \<^verbatim>\<open>BestPeer\<close>.\<close>

definition in_cooldown :: "gotime \<Rightarrow> peer_info \<Rightarrow> bool" where
  "in_cooldown now p \<longleftrightarrow> pi_CooldownUntil p \<noteq> 0 \<and> pi_CooldownUntil p > now"

definition tie_break :: "peer_info \<Rightarrow> peer_info \<Rightarrow> peer_info" where
  "tie_break best p =
     (if pi_TipHeight p > pi_TipHeight best then p
      else if pi_TipHeight p < pi_TipHeight best then best
      else if pi_LastRTT best = 0 \<or> (pi_LastRTT p > 0 \<and> pi_LastRTT p < pi_LastRTT best) then p
      else best)"

definition best_step :: "gotime \<Rightarrow> peer_info option \<Rightarrow> peer_info \<Rightarrow> peer_info option" where
  "best_step now best p =
     (if in_cooldown now p then best
      else case best of
             None \<Rightarrow> Some p
           | Some b \<Rightarrow>
               Some (case (pi_CumWork p, pi_CumWork b) of
                       (Some wp, Some wb) \<Rightarrow>
                         if wp > wb then p else if wp < wb then b else tie_break b p
                     | _ \<Rightarrow> tie_break b p))"

text \<open>
  The result: the id, height, hash and work of the best peer, the empty id and a nil work when
  there is none; \<open>None\<close> is the nil dereference that a stored peer with a nil work would cause.
\<close>

definition BestPeer ::
    "(string \<times> peer_info) ranging \<Rightarrow> gotime \<Rightarrow> manager \<Rightarrow> (string \<times> uint64 \<times> hash \<times> int option) option" where
  "BestPeer ord now m =
     (case foldl (best_step now) None (map snd (ord 0 (pm_peers m))) of
        None \<Rightarrow> Some ('''', 0, 0, None)
      | Some best \<Rightarrow> do {
          w \<leftarrow> pi_CumWork best;
          Some (pi_ID best, pi_TipHeight best, pi_TipHash best, Some w)
        })"

definition peer_Snapshot :: "(string \<times> peer_info) ranging \<Rightarrow> manager \<Rightarrow> peer_info list" where
  "peer_Snapshot ord m = map snd (ord 0 (pm_peers m))"

section \<open>A running best\<close>

text \<open>
  A pass that skips some elements and replaces its candidate by a step that always keeps the
  greater key ends with an element of the greatest key, whatever the order of the list.
\<close>

locale running_best =
  fixes skip :: "'a \<Rightarrow> bool" and key :: "'a \<Rightarrow> 'k::linorder"
    and step :: "'a option \<Rightarrow> 'a \<Rightarrow> 'a option" and ok :: "'a \<Rightarrow> bool"
  assumes step_skip: "skip p \<Longrightarrow> step c p = c"
    and step_first: "\<not> skip p \<Longrightarrow> step None p = Some p"
    and step_next: "\<not> skip p \<Longrightarrow> ok b \<Longrightarrow> ok p \<Longrightarrow>
          (step (Some b) p = Some b \<and> key p \<le> key b) \<or> (step (Some b) p = Some p \<and> key b \<le> key p)"
begin

lemma fold_from:
  assumes "\<forall>p \<in> set xs. ok p" "ok b"
  shows "\<exists>r. foldl step (Some b) xs = Some r \<and> r \<in> insert b {p \<in> set xs. \<not> skip p}
     \<and> key b \<le> key r \<and> (\<forall>p \<in> set xs. \<not> skip p \<longrightarrow> key p \<le> key r)"
  using assms
proof (induction xs arbitrary: b)
  case (Cons x xs)
  show ?case
  proof (cases "skip x")
    case True
    then show ?thesis using Cons.IH [of b] Cons.prems by (auto simp: step_skip)
  next
    case False
    then consider "step (Some b) x = Some b" "key x \<le> key b" | "step (Some b) x = Some x" "key b \<le> key x"
      using step_next [of x b] Cons.prems by auto
    then show ?thesis
    proof cases
      case 1
      then show ?thesis using Cons.IH [of b] Cons.prems False by (auto intro: order_trans)
    next
      case 2
      then show ?thesis using Cons.IH [of x] Cons.prems False by (auto intro: order_trans)
    qed
  qed
qed auto

lemma fold_none: "\<forall>p \<in> set xs. skip p \<Longrightarrow> foldl step None xs = None"
  by (induction xs) (auto simp: step_skip)

lemma fold_best:
  assumes "\<forall>p \<in> set xs. ok p" "\<exists>p \<in> set xs. \<not> skip p"
  shows "\<exists>r. foldl step None xs = Some r \<and> r \<in> set xs \<and> \<not> skip r
     \<and> (\<forall>p \<in> set xs. \<not> skip p \<longrightarrow> key p \<le> key r)"
  using assms
proof (induction xs)
  case (Cons x xs)
  show ?case
  proof (cases "skip x")
    case True
    then show ?thesis using Cons by (auto simp: step_skip)
  next
    case False
    then show ?thesis using fold_from [of xs x] Cons.prems by (auto simp: step_first)
  qed
qed simp

end

section \<open>Invariant\<close>

definition peers_inv :: "manager \<Rightarrow> bool" where
  "peers_inv m \<longleftrightarrow> distinct (al_keys (pm_peers m)) \<and> 0 < pm_backoff m
     \<and> (\<forall>(i, p) \<in> set (pm_peers m). i \<noteq> '''' \<and> pi_ID p = i \<and> (\<exists>w. pi_CumWork p = Some w))"

lemma NewManager_inv [inv_intro]: "peers_inv (NewManager b)"
  by (simp add: peers_inv_def NewManager_def Let_def)

lemma store_peer_inv:
  assumes "peers_inv m" "i \<noteq> ''''" "pi_ID p = i" "pi_CumWork p \<noteq> None"
  shows "peers_inv (store_peer i p m)"
proof -
  have "j \<noteq> '''' \<and> pi_ID q = j \<and> (\<exists>w. pi_CumWork q = Some w)" if "(j, q) \<in> set (al_put i p (pm_peers m))" for j q
    using that set_al_put_subset [of i p "pm_peers m"] assms by (auto simp: peers_inv_def)
  then show ?thesis using assms(1) by (auto simp: peers_inv_def store_peer_def distinct_al_put)
qed

text \<open>The record \<^verbatim>\<open>ensureLocked\<close> hands out, and what the map holds once it is written back.\<close>

definition peer_of :: "string \<Rightarrow> manager \<Rightarrow> peer_info" where
  "peer_of i m = (case map_of (pm_peers m) i of Some q \<Rightarrow> q | None \<Rightarrow> new_info i)"

lemma ensureLocked_eq:
  "ensureLocked i m = (peer_of i m, if map_of (pm_peers m) i = None then store_peer i (new_info i) m else m)"
  by (auto simp: ensureLocked_def peer_of_def store_peer_def Let_def split: option.split)

lemma peer_of_ok:
  assumes "peers_inv m" shows "pi_ID (peer_of i m) = i" "\<exists>w. pi_CumWork (peer_of i m) = Some w"
  using assms map_of_SomeD [of "pm_peers m" i]
  by (auto simp: peer_of_def peers_inv_def new_info_def split: option.split)

lemma ensureLocked_inv: "peers_inv m \<Longrightarrow> i \<noteq> '''' \<Longrightarrow> peers_inv (snd (ensureLocked i m))"
  by (simp add: ensureLocked_eq store_peer_inv new_info_def)

lemma store_ensured:
  "map_of (pm_peers (store_peer i p (snd (ensureLocked i m)))) = (map_of (pm_peers m))(i \<mapsto> p)"
  by (simp add: ensureLocked_eq store_peer_def map_of_al_put)

text \<open>The two writers as one update of the peer's record.\<close>

definition tip_update :: "gotime \<Rightarrow> uint64 \<Rightarrow> hash \<Rightarrow> int \<Rightarrow> duration \<Rightarrow> peer_info \<Rightarrow> peer_info" where
  "tip_update now h t w rtt p =
     p\<lparr>pi_TipHeight := h, pi_TipHash := t, pi_CumWork := Some w, pi_LastRTT := rtt,
       pi_LastUpdated := now, pi_LastSuccessful := now,
       pi_CooldownUntil := (if pi_CooldownUntil p < now then 0 else pi_CooldownUntil p)\<rparr>"

lemma UpdateTip_eq:
  "UpdateTip now i h t (Some w) rtt m =
     (if i = '''' then m else store_peer i (tip_update now h t w rtt (peer_of i m)) (snd (ensureLocked i m)))"
  by (simp add: UpdateTip_def Let_def ensureLocked_eq tip_update_def)

lemma pm_backoff_ensureLocked [simp]: "pm_backoff (snd (ensureLocked i m)) = pm_backoff m"
  by (simp add: ensureLocked_eq store_peer_def)

definition fail_update :: "gotime \<Rightarrow> duration \<Rightarrow> bool \<Rightarrow> peer_info \<Rightarrow> peer_info" where
  "fail_update now d timeout p =
     p\<lparr>pi_Timeouts := (if timeout then pi_Timeouts p + 1 else pi_Timeouts p),
       pi_Errors := (if timeout then pi_Errors p else pi_Errors p + 1),
       pi_LastUpdated := now, pi_CooldownUntil := now + d\<rparr>"

lemma reportFailure_eq:
  "reportFailure now i b m =
     (if i = '''' then m
      else store_peer i (fail_update now (pm_backoff m) b (peer_of i m)) (snd (ensureLocked i m)))"
  using pm_backoff_ensureLocked [of i m]
  by (auto simp: reportFailure_def Let_def ensureLocked_eq fail_update_def simp del: pm_backoff_ensureLocked)

lemma Upsert_eq:
  "Upsert i m = (if i = '''' then m else snd (ensureLocked i m))"
  by (simp add: Upsert_def ensureLocked_eq store_peer_def split: option.split)

lemma Upsert_inv [inv_intro]: "peers_inv m \<Longrightarrow> peers_inv (Upsert i m)"
  by (simp add: Upsert_eq ensureLocked_inv)

lemma UpdateTip_inv [inv_intro]: "peers_inv m \<Longrightarrow> peers_inv (UpdateTip now i h t w rtt m)"
  using peer_of_ok [of m i]
  by (cases w) (auto simp: UpdateTip_eq tip_update_def UpdateTip_def [of _ _ _ _ None]
      intro!: store_peer_inv ensureLocked_inv)

lemma reportFailure_inv [inv_intro]: "peers_inv m \<Longrightarrow> peers_inv (reportFailure now i b m)"
  using peer_of_ok [of m i]
  by (auto simp: reportFailure_eq fail_update_def intro!: store_peer_inv ensureLocked_inv)

section \<open>The choice\<close>

text \<open>
  What \<^verbatim>\<open>BestPeer\<close> maximises: work, then height, then a known (positive) round trip time, the
  shorter the better.
\<close>

definition rtt_rank :: "duration \<Rightarrow> int option" where
  "rtt_rank r = (if r > 0 then Some (- r) else None)"

definition peer_key :: "peer_info \<Rightarrow> int \<times> uint64 \<times> int option" where
  "peer_key p = (the (pi_CumWork p), pi_TipHeight p, rtt_rank (pi_LastRTT p))"

definition peer_ok :: "peer_info \<Rightarrow> bool" where
  "peer_ok p \<longleftrightarrow> pi_CumWork p \<noteq> None \<and> 0 \<le> pi_LastRTT p"

interpretation best: running_best "in_cooldown now" peer_key "best_step now" peer_ok for now
proof unfold_locales
  fix p b
  assume s: "\<not> in_cooldown now p" and ok: "peer_ok b" "peer_ok p"
  then obtain wp wb where w: "pi_CumWork p = Some wp" "pi_CumWork b = Some wb"
    by (auto simp: peer_ok_def)
  have "(tie_break b p = b \<and> (pi_TipHeight p, rtt_rank (pi_LastRTT p)) \<le> (pi_TipHeight b, rtt_rank (pi_LastRTT b)))
    \<or> (tie_break b p = p \<and> (pi_TipHeight b, rtt_rank (pi_LastRTT b)) \<le> (pi_TipHeight p, rtt_rank (pi_LastRTT p)))"
    using ok by (auto simp: tie_break_def rtt_rank_def peer_ok_def)
  then show "(best_step now (Some b) p = Some b \<and> peer_key p \<le> peer_key b)
    \<or> (best_step now (Some b) p = Some p \<and> peer_key b \<le> peer_key p)"
    using s w by (auto simp: best_step_def peer_key_def)
qed (auto simp: best_step_def)

section \<open>Runs\<close>

text \<open>
  The operations in the order they take the mutex, on a clock that does not run backwards. The instants are
  taken to be in the same order: \<^verbatim>\<open>UpdateTip\<close> and \<^verbatim>\<open>reportFailure\<close> read the clock just before they lock, so
  of two calls that overlap the one with the earlier instant is assumed to lock first. Round trip times are \<^verbatim>\<open>time.Since\<close> of an earlier instant, so they are not negative.
\<close>

inductive peer_run :: "gotime \<Rightarrow> manager \<Rightarrow> gotime \<Rightarrow> manager \<Rightarrow> bool" where
  stay: "peer_run t m t m"
| tick: "peer_run t m t1 m1 \<Longrightarrow> t1 \<le> t2 \<Longrightarrow> peer_run t m t2 m1"
| upsert: "peer_run t m t1 m1 \<Longrightarrow> peer_run t m t1 (Upsert i m1)"
| tip: "peer_run t m t1 m1 \<Longrightarrow> 0 \<le> rtt \<Longrightarrow> peer_run t m t1 (UpdateTip t1 i h th w rtt m1)"
| fail: "peer_run t m t1 m1 \<Longrightarrow> peer_run t m t1 (reportFailure t1 i timeout m1)"

abbreviation peer_recs :: "manager \<Rightarrow> peer_info set" where
  "peer_recs m \<equiv> snd ` set (pm_peers m)"

definition peers_good :: "manager \<Rightarrow> bool" where
  "peers_good m \<longleftrightarrow> peers_inv m \<and> (\<forall>p \<in> peer_recs m. 0 \<le> pi_LastRTT p)"

lemma peer_recs_store: "peer_recs (store_peer i q m) \<subseteq> insert q (peer_recs m)"
  using set_al_put_subset [of i q "pm_peers m"] by (fastforce simp: store_peer_def)

lemma peer_recs_ensure: "peer_recs (snd (ensureLocked i m)) \<subseteq> insert (new_info i) (peer_recs m)"
  using peer_recs_store by (auto simp: ensureLocked_eq split: if_splits)

lemma peer_of_recs: "peer_of i m \<in> insert (new_info i) (peer_recs m)"
  using map_of_SomeD [of "pm_peers m" i] by (force simp: peer_of_def split: option.split)

lemma peer_of_store [simp]:
  "peer_of i (store_peer j q (snd (ensureLocked j m))) = (if i = j then q else peer_of i m)"
  "peer_of i (snd (ensureLocked j m)) = peer_of i m"
  by (auto simp: peer_of_def store_ensured)
    (auto simp: ensureLocked_eq store_peer_def map_of_al_put split: option.split)

lemma pm_backoff_store [simp]: "pm_backoff (store_peer j q m) = pm_backoff m"
  by (simp add: store_peer_def)

lemma UpdateTip_nil [simp]: "UpdateTip now i h t None rtt m = m"
  by (simp add: UpdateTip_def)

lemma update_fields [simp]:
  "pi_LastRTT (tip_update now h t w rtt p) = rtt" "pi_LastRTT (fail_update now d b p) = pi_LastRTT p"
  "pi_LastRTT (new_info i) = 0" "pi_CooldownUntil (fail_update now d b p) = now + d"
  "pi_CooldownUntil (tip_update now h t w rtt p) = (if pi_CooldownUntil p < now then 0 else pi_CooldownUntil p)"
  by (simp_all add: tip_update_def fail_update_def new_info_def)

lemma good_store:
  assumes "peers_good m" "0 \<le> pi_LastRTT q"
  shows "\<forall>p \<in> peer_recs (store_peer i q (snd (ensureLocked i m))). 0 \<le> pi_LastRTT p"
    "\<forall>p \<in> peer_recs (snd (ensureLocked i m)). 0 \<le> pi_LastRTT p"
proof -
  show *: "\<forall>p \<in> peer_recs (snd (ensureLocked i m)). 0 \<le> pi_LastRTT p"
    using peer_recs_ensure [of i m] assms(1) by (fastforce simp: peers_good_def)
  show "\<forall>p \<in> peer_recs (store_peer i q (snd (ensureLocked i m))). 0 \<le> pi_LastRTT p"
    using peer_recs_store [of i q "snd (ensureLocked i m)"] * assms(2) by blast
qed

lemma peers_good_run:
  assumes "peer_run t m t' m'" "peers_good m" shows "peers_good m' \<and> t \<le> t'"
  using assms
proof (induction rule: peer_run.induct)
  case (tip t m t1 m1 rtt i h th w)
  then have g: "peers_good m1" by simp
  show ?case
  proof (cases w)
    case (Some x)
    with UpdateTip_inv [of m1 t1 i h th w rtt] tip
      good_store(1) [OF g, of "tip_update t1 h th x rtt (peer_of i m1)" i]
    show ?thesis by (simp add: peers_good_def UpdateTip_eq)
  qed (use tip in simp)
next
  case (fail t m t1 m1 i timeout)
  then have g: "peers_good m1" by simp
  have "0 \<le> pi_LastRTT (peer_of i m1)"
    using peer_of_recs [of i m1] g by (auto simp: peers_good_def)
  with reportFailure_inv [of m1 t1 i timeout] fail
    good_store(1) [OF g, of "fail_update t1 (pm_backoff m1) timeout (peer_of i m1)" i] show ?case
    by (simp add: peers_good_def reportFailure_eq)
next
  case (upsert t m t1 m1 i)
  then have g: "peers_good m1" by simp
  with Upsert_inv [of m1 i] good_store(2) [OF g, of "new_info i"] upsert show ?case
    by (simp add: peers_good_def Upsert_eq)
qed auto

lemma NewManager_good: "peers_good (NewManager b)"
  using NewManager_inv [of b] by (simp add: peers_good_def) (simp add: NewManager_def Let_def)

text \<open>The candidates of a call, and what the call computes on them.\<close>

lemma BestPeer_fold:
  assumes "peers_good m" "fair_ranging ord"
  shows "set (map snd (ord 0 (pm_peers m))) = peer_recs m"
    "\<forall>p \<in> set (map snd (ord 0 (pm_peers m))). peer_ok p"
  using assms by (auto simp: fair_ranging_set peers_good_def peers_inv_def peer_ok_def)

lemma BestPeer_none:
  assumes "peers_good m" "fair_ranging ord" "\<forall>p \<in> peer_recs m. in_cooldown now p"
  shows "BestPeer ord now m = Some ('''', 0, 0, None)"
proof -
  have "foldl (best_step now) None (map snd (ord 0 (pm_peers m))) = None"
    using assms(3) unfolding BestPeer_fold(1) [OF assms(1,2), symmetric] by (rule best.fold_none)
  then show ?thesis by (simp add: BestPeer_def)
qed

lemma BestPeer_some:
  assumes "peers_good m" "fair_ranging ord" "p \<in> peer_recs m" "\<not> in_cooldown now p"
  obtains q where "(pi_ID q, q) \<in> set (pm_peers m)" "\<not> in_cooldown now q"
    "BestPeer ord now m = Some (pi_ID q, pi_TipHeight q, pi_TipHash q, pi_CumWork q)"
    "\<forall>p \<in> peer_recs m. \<not> in_cooldown now p \<longrightarrow> peer_key p \<le> peer_key q"
proof -
  note F = BestPeer_fold [OF assms(1,2)]
  obtain q where q: "foldl (best_step now) None (map snd (ord 0 (pm_peers m))) = Some q"
      "q \<in> peer_recs m" "\<not> in_cooldown now q"
      "\<forall>p \<in> peer_recs m. \<not> in_cooldown now p \<longrightarrow> peer_key p \<le> peer_key q"
    using best.fold_best [OF F(2), of now] assms(3,4) unfolding F(1) by blast
  then obtain j where j: "(j, q) \<in> set (pm_peers m)" by auto
  then have e: "pi_ID q = j" and "\<exists>w. pi_CumWork q = Some w"
    using assms(1) by (auto simp: peers_good_def peers_inv_def)
  then have "BestPeer ord now m = Some (pi_ID q, pi_TipHeight q, pi_TipHash q, pi_CumWork q)"
    using q(1) by (auto simp: BestPeer_def)
  then show ?thesis by (intro that [of q]) (use e j q in auto)
qed

lemma cooldown_kept:
  assumes "peer_run t m t' m'" "peers_good m" "t' < until" "0 < until"
    and "until \<le> t + pm_backoff m" "until \<le> pi_CooldownUntil (peer_of i m)"
  shows "until \<le> pi_CooldownUntil (peer_of i m') \<and> pm_backoff m' = pm_backoff m"
  using assms
proof (induction rule: peer_run.induct)
  case (tip t m t1 m1 rtt j h th w)
  then show ?case by (cases w) (auto simp: UpdateTip_eq)
next
  case (fail t m t1 m1 j timeout)
  then show ?case using peers_good_run [OF fail(1,3)] by (auto simp: reportFailure_eq)
next
  case (upsert t m t1 m1 j)
  then show ?case by (auto simp: Upsert_eq)
qed auto

section \<open>Properties\<close>

text \<open>Peers for the witnesses.\<close>

definition demo_peers :: manager where
  "demo_peers = UpdateTip 5 ''c'' 3 8 (Some 30) 0 (UpdateTip 5 ''b'' 3 9 (Some 30) 4
     (UpdateTip 5 ''a'' 7 9 (Some 20) 1 (Upsert ''d'' (NewManager 0))))"

lemma demo_peers_run: "peer_run 5 (NewManager 0) 5 demo_peers"
  unfolding demo_peers_def
  by (rule peer_run.tip [OF peer_run.tip [OF peer_run.tip [OF peer_run.upsert [OF peer_run.stay]]]]) simp_all

lemma demo_peers_eval:
  "pm_peers demo_peers = [(''d'', new_info ''d''), (''a'', tip_update 5 7 9 20 1 (new_info ''a'')),
     (''b'', tip_update 5 3 9 30 4 (new_info ''b'')), (''c'', tip_update 5 3 8 30 0 (new_info ''c''))]"
  by (simp add: demo_peers_def UpdateTip_eq ensureLocked_eq Upsert_eq NewManager_def Let_def store_peer_def
      peer_of_def)

text \<open>
  C20: In every state the peer manager can reach, and for every order in which the map is ranged
  over, \<^verbatim>\<open>BestPeer\<close> returns without dereferencing nil: nobody if all peers are cooling down, and
  otherwise a known peer that is not, of the greatest work, among those the greatest height,
  among those a measured round trip time before an unmeasured one and the shortest first.
\<close>
theorem BestPeer_greatest:
  assumes "peer_run t (NewManager b) t' m" and "fair_ranging ord"
  shows "if \<forall>p \<in> peer_recs m. in_cooldown now p then BestPeer ord now m = Some ('''', 0, 0, None)
     else \<exists>q. (pi_ID q, q) \<in> set (pm_peers m) \<and> \<not> in_cooldown now q
        \<and> BestPeer ord now m = Some (pi_ID q, pi_TipHeight q, pi_TipHash q, pi_CumWork q)
        \<and> (\<forall>p \<in> peer_recs m. \<not> in_cooldown now p \<longrightarrow>
             (the (pi_CumWork p), pi_TipHeight p, rtt_rank (pi_LastRTT p))
               \<le> (the (pi_CumWork q), pi_TipHeight q, rtt_rank (pi_LastRTT q)))"
proof -
  have g: "peers_good m" using peers_good_run [OF assms(1) NewManager_good] by simp
  show ?thesis
  proof (cases "\<forall>p \<in> peer_recs m. in_cooldown now p")
    case True
    then show ?thesis unfolding if_P [OF True] by (rule BestPeer_none [OF g assms(2)])
  next
    case False
    then obtain p where "p \<in> peer_recs m" "\<not> in_cooldown now p" by blast
    from BestPeer_some [OF g assms(2) this] False show ?thesis
      unfolding peer_key_def if_not_P [OF False] by blast
  qed
qed

theorem BestPeer_greatest_witness:
  "BestPeer (\<lambda>_. rev) 6 demo_peers = Some (''b'', 3, 9, Some 30)"
proof -
  have c: "\<forall>p \<in> peer_recs demo_peers. \<not> in_cooldown 6 p"
    by (simp add: demo_peers_eval in_cooldown_def new_info_def)
  then have "\<not> (\<forall>p \<in> peer_recs demo_peers. in_cooldown 6 p)" by (simp add: demo_peers_eval)
  then obtain q where q0: "(pi_ID q, q) \<in> set (pm_peers demo_peers)" and q:
      "BestPeer (\<lambda>_. rev) 6 demo_peers = Some (pi_ID q, pi_TipHeight q, pi_TipHash q, pi_CumWork q)"
      "\<forall>p \<in> peer_recs demo_peers. \<not> in_cooldown 6 p \<longrightarrow> peer_key p \<le> peer_key q"
    using BestPeer_greatest [OF demo_peers_run fair_ranging_rev, of 6] unfolding peer_key_def
    by (simp only: if_False) blast
  from q(2) c have k: "\<forall>p \<in> peer_recs demo_peers. peer_key p \<le> peer_key q" by blast
  from q0 consider "q = new_info ''d''" | "q = tip_update 5 7 9 20 1 (new_info ''a'')"
    | "q = tip_update 5 3 9 30 4 (new_info ''b'')" | "q = tip_update 5 3 8 30 0 (new_info ''c'')"
    unfolding demo_peers_eval by auto
  then show ?thesis
  proof cases
    case 3
    then show ?thesis using q(1) by (simp add: tip_update_def new_info_def)
  qed (use k in \<open>simp_all add: demo_peers_eval peer_key_def tip_update_def new_info_def rtt_rank_def\<close>)
qed

text \<open>
  C40: After a failure of a peer is reported at time \<open>t\<close>, \<^verbatim>\<open>BestPeer\<close> does not choose that peer before
  \<open>t\<close> plus the backoff, whatever happens meanwhile: new tips of the peer do not end its cooldown,
  and further failures only prolong it (calls that overlap lock in the order of their instants).
\<close>
theorem cooldown_respected:
  assumes "peer_run t0 (NewManager b) t m" and "fair_ranging ord" and "0 < t" and "i \<noteq> ''''"
    and "peer_run t (reportFailure t i timeout m) t' m'"
    and "t' \<le> now" and "now < t + pm_backoff m"
  shows "\<exists>j h th w. BestPeer ord now m' = Some (j, h, th, w) \<and> j \<noteq> i"
proof -
  have g: "peers_good m" using peers_good_run [OF assms(1) NewManager_good] by simp
  let ?m = "reportFailure t i timeout m"
  have g1: "peers_good ?m" using peers_good_run [OF peer_run.fail [OF peer_run.stay] g] by simp
  have pos: "0 < pm_backoff m" using g by (simp add: peers_good_def peers_inv_def)
  have g': "peers_good m'" using peers_good_run [OF assms(5) g1] by simp
  have "t + pm_backoff m \<le> pi_CooldownUntil (peer_of i m')"
    using cooldown_kept [OF assms(5) g1, of "t + pm_backoff m" i] assms(3,4,6,7) pos
    by (simp add: reportFailure_eq)
  then have cool: "in_cooldown now p" if "(i, p) \<in> set (pm_peers m')" for p
    using that g' assms(3,7) pos by (auto simp: in_cooldown_def peer_of_def peers_good_def peers_inv_def)
  show ?thesis
  proof (cases "\<forall>p \<in> peer_recs m'. in_cooldown now p")
    case True
    with BestPeer_none [OF g' assms(2)] assms(4) show ?thesis by blast
  next
    case False
    then obtain p where "p \<in> peer_recs m'" "\<not> in_cooldown now p" by blast
    from BestPeer_some [OF g' assms(2) this] cool show ?thesis by metis
  qed
qed

theorem cooldown_respected_witness:
  "\<exists>j h th w. BestPeer (\<lambda>_ xs. xs) 7 (UpdateTip 6 ''b'' 9 9 (Some 90) 1 (reportFailure 5 ''b'' True demo_peers))
     = Some (j, h, th, w) \<and> j \<noteq> ''b''"
  by (rule cooldown_respected [OF demo_peers_run fair_ranging_id _ _
        peer_run.tip [OF peer_run.tick [OF peer_run.stay]]])
    (simp_all add: demo_peers_def UpdateTip_eq Upsert_eq NewManager_def Let_def)

end
