(* ===== verification/Metrics.thy ===== *)
theory Metrics
  imports GoTypes Complex_Main "HOL-Library.Signed_Division"
begin

text \<open>
  \<^verbatim>\<open>internal/syncer/metrics.go\<close>: success counts and round trip times per peer, the rule that
  avoids failing peers, and the choice among candidates. Success rates are IEEE doubles:
  \<open>fl\<close> rounds a rational to the nearest one (ties to even), as the division and the subtraction of
  the code do. \<^verbatim>\<open>sort.Slice\<close> on at most 12 elements is an insertion sort, which is written out
  because the comparison is no strict weak order and the order of its swaps shows in the result; on longer
  slices it is the parameter \<open>pdq\<close>. One call of an operation reads the clock once.
\<close>

section \<open>Doubles\<close>

primrec doublings :: "nat \<Rightarrow> rat \<Rightarrow> nat" where
  "doublings 0 x = 0"
| "doublings (Suc n) x = (if x \<ge> 1 then 0 else Suc (doublings n (2 * x)))"

definition round_half_even :: "rat \<Rightarrow> int" where
  "round_half_even x =
     (let f = \<lfloor>x\<rfloor>; d = x - of_int f
      in if d < 1 / 2 then f else if d > 1 / 2 then f + 1 else if even f then f else f + 1)"

text \<open>For \<open>\<bar>x\<bar> < 2\<close>: 53 significant bits, the least exponent of a double being -1074.\<close>

definition fl :: "rat \<Rightarrow> rat" where
  "fl x =
     (if x = 0 then 0
      else let k = 52 + doublings 1022 \<bar>x\<bar> in sgn x * of_int (round_half_even (\<bar>x\<bar> * 2 ^ k)) / 2 ^ k)"

definition float_tenth :: rat where
  "float_tenth = 3602879701896397 / 36028797018963968"

section \<open>State and operations\<close>

record peer_metrics =
  me_peerID :: string
  me_totalRequests :: int
  me_successCount :: int
  me_failureCount :: int
  me_totalRTT :: duration
  me_avgRTT :: duration
  me_lastTimeout :: gotime
  me_consecutiveFailures :: int
  me_lastSuccess :: gotime

record metrics_tracker =
  mt_peers :: "string \<rightharpoonup> peer_metrics"

definition newMetricsTracker :: metrics_tracker where
  "newMetricsTracker = \<lparr>mt_peers = Map.empty\<rparr>"

definition new_metrics :: "string \<Rightarrow> peer_metrics" where
  "new_metrics i = \<lparr>me_peerID = i, me_totalRequests = 0, me_successCount = 0, me_failureCount = 0,
     me_totalRTT = 0, me_avgRTT = 0, me_lastTimeout = 0, me_consecutiveFailures = 0, me_lastSuccess = 0\<rparr>"

definition recordRequest :: "gotime \<Rightarrow> string \<Rightarrow> gotime \<Rightarrow> bool \<Rightarrow> metrics_tracker \<Rightarrow> metrics_tracker" where
  "recordRequest now peerID startTime success mt =
     (let m = (case mt_peers mt peerID of Some m \<Rightarrow> m | None \<Rightarrow> new_metrics peerID);
          m = m\<lparr>me_totalRequests := me_totalRequests m + 1\<rparr>;
          rtt = now - startTime;
          m = (if success then
                 let m = m\<lparr>me_successCount := me_successCount m + 1, me_consecutiveFailures := 0,
                           me_lastSuccess := now, me_lastTimeout := 0,
                           me_totalRTT := me_totalRTT m + rtt\<rparr>
                 in if me_successCount m > 0
                    then m\<lparr>me_avgRTT := me_totalRTT m sdiv me_successCount m\<rparr> else m
               else m\<lparr>me_failureCount := me_failureCount m + 1,
                      me_consecutiveFailures := me_consecutiveFailures m + 1, me_lastTimeout := now\<rparr>)
      in mt\<lparr>mt_peers := (mt_peers mt)(peerID \<mapsto> m)\<rparr>)"

definition shouldBackoffPeerLocked :: "gotime \<Rightarrow> string \<Rightarrow> metrics_tracker \<Rightarrow> bool" where
  "shouldBackoffPeerLocked now peerID mt =
     (case mt_peers mt peerID of
        None \<Rightarrow> False
      | Some m \<Rightarrow>
          if me_consecutiveFailures m > 3 then True
          else if me_lastTimeout m \<noteq> 0 \<and> now - me_lastTimeout m < 30 * second then True
          else False)"

definition shouldBackoffPeer :: "gotime \<Rightarrow> string \<Rightarrow> metrics_tracker \<Rightarrow> bool" where
  "shouldBackoffPeer now peerID mt = shouldBackoffPeerLocked now peerID mt"

text \<open>The comparison the code sorts by.\<close>

definition success_rate :: "peer_metrics \<Rightarrow> rat" where
  "success_rate m =
     (if me_totalRequests m > 0 then fl (of_int (me_successCount m) / of_int (me_totalRequests m)) else 0)"

definition less_peer :: "metrics_tracker \<Rightarrow> string \<Rightarrow> string \<Rightarrow> bool" where
  "less_peer mt a b =
     (case mt_peers mt a of
        None \<Rightarrow> False
      | Some mi \<Rightarrow>
          (case mt_peers mt b of
             None \<Rightarrow> True
           | Some mj \<Rightarrow>
               let ratei = success_rate mi; ratej = success_rate mj
               in if fl (ratei - ratej) > float_tenth then True
                  else if fl (ratej - ratei) > float_tenth then False
                  else me_avgRTT mi < me_avgRTT mj))"

text \<open>
  \<^verbatim>\<open>insertionSort\<close> of the standard library: element \<open>i\<close> is swapped to the left while it is less
  than its neighbour. The sorted prefix is kept reversed.
\<close>

fun sink :: "('a \<Rightarrow> 'a \<Rightarrow> bool) \<Rightarrow> 'a \<Rightarrow> 'a list \<Rightarrow> 'a list" where
  "sink lt x [] = [x]"
| "sink lt x (y # ys) = (if lt x y then y # sink lt x ys else x # y # ys)"

definition insertion_sort :: "('a \<Rightarrow> 'a \<Rightarrow> bool) \<Rightarrow> 'a list \<Rightarrow> 'a list" where
  "insertion_sort lt xs = rev (foldl (\<lambda>acc x. sink lt x acc) [] xs)"

type_synonym sorter = "(string \<Rightarrow> string \<Rightarrow> bool) \<Rightarrow> string list \<Rightarrow> string list"

definition sort_Slice :: "sorter \<Rightarrow> sorter" where
  "sort_Slice pdq lt xs = (if length xs \<le> 12 then insertion_sort lt xs else pdq lt xs)"

text \<open>\<open>None\<close> would be the panic of indexing an empty slice.\<close>

definition getBestPeer :: "sorter \<Rightarrow> gotime \<Rightarrow> string list \<Rightarrow> metrics_tracker \<Rightarrow> string option" where
  "getBestPeer pdq now candidates mt =
     (if length candidates = 0 then Some ''''
      else let viable = filter (\<lambda>p. \<not> shouldBackoffPeerLocked now p mt) candidates
        in if length viable = 0 then Some (candidates ! 0)
           else case sort_Slice pdq (less_peer mt) viable of [] \<Rightarrow> None | p # _ \<Rightarrow> Some p)"

definition getPeerMetrics :: "string \<Rightarrow> metrics_tracker \<Rightarrow> peer_metrics option" where
  "getPeerMetrics peerID mt = mt_peers mt peerID"

definition mt_reset :: "metrics_tracker \<Rightarrow> metrics_tracker" where
  "mt_reset mt = mt\<lparr>mt_peers := Map.empty\<rparr>"

section \<open>What the metrics mean\<close>

text \<open>
  The history of a tracker: the requests recorded, oldest first. The metrics of a peer are
  functions of the requests to that peer.
\<close>

record request_event =
  re_peer :: string
  re_start :: gotime
  re_time :: gotime
  re_ok :: bool

definition record_all :: "request_event list \<Rightarrow> metrics_tracker" where
  "record_all hs =
     foldl (\<lambda>mt e. recordRequest (re_time e) (re_peer e) (re_start e) (re_ok e) mt) newMetricsTracker hs"

definition requests_to :: "string \<Rightarrow> request_event list \<Rightarrow> request_event list" where
  "requests_to i hs = filter (\<lambda>e. re_peer e = i) hs"

definition trailing_failures :: "request_event list \<Rightarrow> nat" where
  "trailing_failures hs = length (takeWhile (\<lambda>e. \<not> re_ok e) (rev hs))"

definition metrics_spec :: "string \<Rightarrow> request_event list \<Rightarrow> peer_metrics" where
  "metrics_spec i hs =
     (let oks = filter re_ok hs; rtts = sum_list (map (\<lambda>e. re_time e - re_start e) oks)
      in \<lparr>me_peerID = i, me_totalRequests = int (length hs), me_successCount = int (length oks),
          me_failureCount = int (length hs) - int (length oks), me_totalRTT = rtts,
          me_avgRTT = (if oks = [] then 0 else rtts sdiv int (length oks)),
          me_lastTimeout = (if hs = [] \<or> re_ok (last hs) then 0 else re_time (last hs)),
          me_consecutiveFailures = int (trailing_failures hs),
          me_lastSuccess = (if oks = [] then 0 else re_time (last oks))\<rparr>)"

lemma record_all_snoc:
  "record_all (hs @ [e]) = recordRequest (re_time e) (re_peer e) (re_start e) (re_ok e) (record_all hs)"
  by (simp add: record_all_def)

lemma requests_to_snoc:
  "requests_to i (hs @ [e]) = (if re_peer e = i then requests_to i hs @ [e] else requests_to i hs)"
  by (simp add: requests_to_def)

lemma trailing_failures_snoc:
  "trailing_failures (hs @ [e]) = (if re_ok e then 0 else Suc (trailing_failures hs))"
  by (simp add: trailing_failures_def)

lemma metrics_spec_Nil: "metrics_spec i [] = new_metrics i"
  by (simp add: metrics_spec_def new_metrics_def trailing_failures_def)

lemma record_spec:
  "mt_peers (recordRequest (re_time e) i (re_start e) (re_ok e) mt) i =
     Some (metrics_spec i (hs @ [e]))"
  if "(case mt_peers mt i of Some m \<Rightarrow> m | None \<Rightarrow> new_metrics i) = metrics_spec i hs"
  unfolding recordRequest_def that
  by (simp add: metrics_spec_def trailing_failures_snoc Let_def add.commute)

lemma metrics_of_history:
  "mt_peers (record_all hs) i =
     (if requests_to i hs = [] then None else Some (metrics_spec i (requests_to i hs)))"
proof (induction hs rule: rev_induct)
  case Nil
  then show ?case by (simp add: record_all_def newMetricsTracker_def requests_to_def)
next
  case (snoc e hs)
  show ?case
  proof (cases "re_peer e = i")
    case True
    have "(case mt_peers (record_all hs) i of Some m \<Rightarrow> m | None \<Rightarrow> new_metrics i)
        = metrics_spec i (requests_to i hs)"
      using snoc.IH by (simp add: metrics_spec_Nil)
    from record_spec [OF this] True show ?thesis by (simp add: record_all_snoc requests_to_snoc)
  next
    case False
    then show ?thesis using snoc.IH
      by (simp add: record_all_snoc requests_to_snoc recordRequest_def Let_def)
  qed
qed

section \<open>Sorting\<close>

lemma set_sink: "set (sink lt x ys) = insert x (set ys)"
  by (induction ys) auto

lemma set_insertion_fold: "set (foldl (\<lambda>acc x. sink lt x acc) acc xs) = set acc \<union> set xs"
  by (induction xs arbitrary: acc) (auto simp: set_sink)

lemma set_insertion_sort: "set (insertion_sort lt xs) = set xs"
  by (simp add: insertion_sort_def set_insertion_fold)

lemma sink_ordered:
  fixes key :: "'a \<Rightarrow> 'k::linorder"
  assumes "\<forall>a \<in> insert x (set ys). \<forall>b \<in> insert x (set ys). lt a b \<longleftrightarrow> key a < key b"
    and "sorted_wrt (\<lambda>a b. key b \<le> key a) ys"
  shows "sorted_wrt (\<lambda>a b. key b \<le> key a) (sink lt x ys)"
  using assms
proof (induction ys)
  case (Cons y ys)
  then show ?case by (auto simp: set_sink)
qed simp

lemma insertion_fold_ordered:
  fixes key :: "'a \<Rightarrow> 'k::linorder"
  assumes "\<forall>a \<in> set acc \<union> set xs. \<forall>b \<in> set acc \<union> set xs. lt a b \<longleftrightarrow> key a < key b"
    and "sorted_wrt (\<lambda>a b. key b \<le> key a) acc"
  shows "sorted_wrt (\<lambda>a b. key b \<le> key a) (foldl (\<lambda>acc x. sink lt x acc) acc xs)"
  using assms
proof (induction xs arbitrary: acc)
  case (Cons x xs)
  have "sorted_wrt (\<lambda>a b. key b \<le> key a) (sink lt x acc)"
    using Cons.prems by (intro sink_ordered) auto
  then show ?case using Cons.prems by (simp, intro Cons.IH) (auto simp: set_sink)
qed simp

lemma insertion_sort_ordered:
  fixes key :: "'a \<Rightarrow> 'k::linorder"
  assumes "\<forall>a \<in> set xs. \<forall>b \<in> set xs. lt a b \<longleftrightarrow> key a < key b"
  shows "sorted_wrt (\<lambda>a b. key a \<le> key b) (insertion_sort lt xs)"
  using insertion_fold_ordered [of "[]" xs lt key] assms
  by (simp add: insertion_sort_def sorted_wrt_rev)

text \<open>What the documentation of \<^verbatim>\<open>sort.Slice\<close> promises for every comparison: a permutation.\<close>

definition permuting :: "sorter \<Rightarrow> bool" where
  "permuting pdq \<longleftrightarrow> (\<forall>lt xs. set (pdq lt xs) = set xs)"

lemma permuting_insertion: "permuting insertion_sort"
  by (simp add: permuting_def set_insertion_sort)

lemma set_sort_Slice: "permuting pdq \<Longrightarrow> set (sort_Slice pdq lt xs) = set xs"
  by (simp add: sort_Slice_def set_insertion_sort permuting_def)

section \<open>Properties\<close>

text \<open>
  A peer is avoided exactly when its last recorded request failed and either its last four
  requests failed or that failure is less than 30 seconds ago: the counters stand for the history.
  In particular four failures in a row avoid it until a request to it succeeds, however long.
\<close>
lemma backoff_rule:
  assumes "\<forall>e \<in> set hs. re_time e \<noteq> 0"
  shows "shouldBackoffPeer now i (record_all hs) \<longleftrightarrow>
     (let rs = requests_to i hs in rs \<noteq> [] \<and> \<not> re_ok (last rs)
        \<and> (4 \<le> trailing_failures rs \<or> now - re_time (last rs) < 30 * second))"
proof (cases "requests_to i hs = []")
  case True
  then show ?thesis
    by (simp add: shouldBackoffPeer_def shouldBackoffPeerLocked_def metrics_of_history)
next
  case False
  let ?rs = "requests_to i hs"
  have last: "last ?rs \<in> set ?rs" using False by simp
  then have "last ?rs \<in> set hs" by (auto simp: requests_to_def)
  then have "re_time (last ?rs) \<noteq> 0" using assms by blast
  moreover have "re_ok (last ?rs) \<Longrightarrow> trailing_failures ?rs = 0"
    using False trailing_failures_snoc [of "butlast ?rs" "last ?rs"] by simp
  ultimately show ?thesis using False
    by (auto simp: shouldBackoffPeer_def shouldBackoffPeerLocked_def metrics_of_history metrics_spec_def
        Let_def)
qed

definition demo_history :: "request_event list" where
  "demo_history =
     [\<lparr>re_peer = ''a'', re_start = 1, re_time = 9, re_ok = True\<rparr>,
      \<lparr>re_peer = ''b'', re_start = 2, re_time = 10, re_ok = False\<rparr>,
      \<lparr>re_peer = ''a'', re_start = 3, re_time = 11, re_ok = False\<rparr>,
      \<lparr>re_peer = ''a'', re_start = 4, re_time = 12, re_ok = True\<rparr>]"

lemma backoff_rule_witness:
  "shouldBackoffPeer (29 * second) ''b'' (record_all demo_history)
     \<and> \<not> shouldBackoffPeer (40 * second) ''b'' (record_all demo_history)
     \<and> \<not> shouldBackoffPeer 13 ''a'' (record_all demo_history)"
proof -
  have "\<forall>e \<in> set demo_history. re_time e \<noteq> 0" by (simp add: demo_history_def)
  note R = backoff_rule [OF this]
  show ?thesis unfolding R by (simp add: demo_history_def requests_to_def trailing_failures_def)
qed

text \<open>
  C21: The metrics of a peer are determined by the requests to it: totals, the mean of the round
  trip times of the successful ones (truncated), the trailing failures; other peers are not touched.
\<close>
theorem metrics_refine_history:
  "getPeerMetrics i (record_all hs) =
     (if requests_to i hs = [] then None else Some (metrics_spec i (requests_to i hs)))"
  by (simp add: getPeerMetrics_def metrics_of_history)

text \<open>
  \<^verbatim>\<open>getBestPeer\<close> never panics and returns a candidate; one that is not avoided if there is
  one. Among at most 12 usable candidates that have metrics and whose success rates are pairwise within
  the tolerance it returns one with the least average round trip time.
\<close>
lemma getBestPeer_choice:
  assumes "permuting pdq" and "candidates \<noteq> []"
    and "usable = filter (\<lambda>p. \<not> shouldBackoffPeer now p mt) candidates"
  shows "\<exists>p. getBestPeer pdq now candidates mt = Some p \<and> p \<in> set candidates
     \<and> (usable \<noteq> [] \<longrightarrow> p \<in> set usable)
     \<and> (length usable \<le> 12 \<and> (\<forall>a \<in> set usable. \<forall>b \<in> set usable. \<exists>ma mb.
            mt_peers mt a = Some ma \<and> mt_peers mt b = Some mb
            \<and> fl (success_rate ma - success_rate mb) \<le> float_tenth)
          \<longrightarrow> (\<forall>q \<in> set usable. me_avgRTT (the (mt_peers mt p)) \<le> me_avgRTT (the (mt_peers mt q))))"
proof (cases "usable = []")
  case True
  then show ?thesis using assms by (auto simp: getBestPeer_def Let_def shouldBackoffPeer_def)
next
  case False
  let ?s = "sort_Slice pdq (less_peer mt) usable"
  have set: "set ?s = set usable" by (rule set_sort_Slice [OF assms(1)])
  then obtain p ps where s: "?s = p # ps" using False by (cases ?s) auto
  have p: "p \<in> set usable" using set s by auto
  have get: "getBestPeer pdq now candidates mt = Some p"
    using assms(2) False s by (simp add: getBestPeer_def Let_def assms(3) shouldBackoffPeer_def)
  have "\<forall>q \<in> set usable. me_avgRTT (the (mt_peers mt p)) \<le> me_avgRTT (the (mt_peers mt q))"
    if len: "length usable \<le> 12" and close: "\<forall>a \<in> set usable. \<forall>b \<in> set usable. \<exists>ma mb.
            mt_peers mt a = Some ma \<and> mt_peers mt b = Some mb
            \<and> fl (success_rate ma - success_rate mb) \<le> float_tenth"
  proof -
    let ?key = "\<lambda>q. me_avgRTT (the (mt_peers mt q))"
    have "less_peer mt a b \<longleftrightarrow> ?key a < ?key b" if "a \<in> set usable" "b \<in> set usable" for a b
      using close [rule_format, OF that] close [rule_format, OF that(2,1)]
      by (auto simp: less_peer_def Let_def)
    then have "sorted_wrt (\<lambda>a b. ?key a \<le> ?key b) (p # ps)"
      using insertion_sort_ordered [of usable "less_peer mt" ?key] len s by (simp add: sort_Slice_def)
    then show ?thesis using set s by auto
  qed
  then show ?thesis using get p assms(3) by auto
qed

lemma getBestPeer_choice_witness:
  "getBestPeer (\<lambda>_ xs. xs) (40 * second) [''a''] (record_all demo_history) = Some ''a''"
  using getBestPeer_choice [of "\<lambda>_ xs. xs" "[''a'']"] by (auto simp: permuting_def)

text \<open>Three peers whose rates differ pairwise by 0.05, 0.07 and 0.12.\<close>

definition demo_metrics :: "int \<Rightarrow> duration \<Rightarrow> peer_metrics" where
  "demo_metrics oks rtt = (new_metrics [])\<lparr>me_totalRequests := 100, me_successCount := oks,
     me_failureCount := 100 - oks, me_avgRTT := rtt\<rparr>"

definition demo_tracker :: metrics_tracker where
  "demo_tracker = \<lparr>mt_peers = [''a'' \<mapsto> demo_metrics 100 30, ''b'' \<mapsto> demo_metrics 95 20, ''c'' \<mapsto> demo_metrics 88 10]\<rparr>"

lemma round_half_even_near:
  assumes "\<bar>x - of_int r\<bar> < 1 / 2" shows "round_half_even x = r"
proof (cases "of_int r \<le> x")
  case True
  then have "\<lfloor>x\<rfloor> = r" using assms by (intro floor_unique) auto
  then show ?thesis using assms True by (simp add: round_half_even_def Let_def)
next
  case False
  then have "\<lfloor>x\<rfloor> = r - 1" using assms by (intro floor_unique) auto
  then show ?thesis using assms False by (simp add: round_half_even_def Let_def)
qed

lemma doublings_eq:
  "k \<le> n \<Longrightarrow> 1 \<le> x * 2 ^ k \<Longrightarrow> k = 0 \<or> x * 2 ^ (k - 1) < 1 \<Longrightarrow> 0 < x \<Longrightarrow> doublings n x = k"
proof (induction n arbitrary: k x)
  case (Suc n)
  show ?case
  proof (cases k)
    case (Suc k')
    have "x * 1 \<le> x * 2 ^ k'" using Suc.prems(4) by (intro mult_left_mono) auto
    then have "x < 1" using Suc.prems(3) Suc by auto
    moreover have "doublings n (2 * x) = k'"
    proof (intro Suc.IH)
      show "k' = 0 \<or> 2 * x * 2 ^ (k' - 1) < 1" using Suc.prems(3) Suc by (cases k') (auto simp: ac_simps)
    qed (use Suc.prems Suc in \<open>auto simp: ac_simps\<close>)
    ultimately show ?thesis using Suc by simp
  qed (use Suc.prems in simp)
qed simp

lemma fl_near:
  assumes "0 < x" "k \<le> 1022" "1 \<le> x * 2 ^ k" "k = 0 \<or> x * 2 ^ (k - 1) < 1"
    and "\<bar>x * 2 ^ (52 + k) - of_int r\<bar> < 1 / 2"
  shows "fl x = of_int r / 2 ^ (52 + k)"
  using assms doublings_eq [OF assms(2,3,4,1)] round_half_even_near [OF assms(5)]
  by (simp add: fl_def Let_def)

lemma fl_neg: "fl (- x) = - fl x"
  by (simp add: fl_def Let_def sgn_minus del: sgn_neg)

lemma demo_rates:
  "success_rate (demo_metrics 100 r) = 1"
  "success_rate (demo_metrics 95 r) = 4278419646001971 / 4503599627370496"
  "success_rate (demo_metrics 88 r) = 7926335344172073 / 9007199254740992"
  using fl_near [of 1 0 "2 ^ 52"] fl_near [of "19 / 20" 1 "2 * 4278419646001971"]
    fl_near [of "22 / 25" 1 7926335344172073]
  by (simp_all add: success_rate_def demo_metrics_def)

lemma demo_gaps:
  "fl (225179981368525 / 4503599627370496) = 225179981368525 / 4503599627370496"
  "fl (1080863910568919 / 9007199254740992) = 1080863910568919 / 9007199254740992"
  "fl (630503947831869 / 9007199254740992) = 630503947831869 / 9007199254740992"
  using fl_near [of "225179981368525 / 4503599627370496" 5 "225179981368525 * 32"]
    fl_near [of "1080863910568919 / 9007199254740992" 4 "1080863910568919 * 8"]
    fl_near [of "630503947831869 / 9007199254740992" 4 "630503947831869 * 8"]
  by simp_all

lemma demo_less:
  "less_peer demo_tracker ''a'' ''c''" "less_peer demo_tracker ''c'' ''b''" "less_peer demo_tracker ''b'' ''a''"
  "\<not> less_peer demo_tracker ''c'' ''a''" "\<not> less_peer demo_tracker ''b'' ''c''" "\<not> less_peer demo_tracker ''a'' ''b''"
  unfolding less_peer_def
  by (simp_all add: demo_tracker_def demo_rates demo_gaps fl_neg Let_def float_tenth_def) (simp_all add: demo_metrics_def)

lemma demo_usable: "\<not> shouldBackoffPeerLocked now i demo_tracker"
  by (auto simp: shouldBackoffPeerLocked_def demo_tracker_def demo_metrics_def new_metrics_def)

text \<open>
  The comparison handed to \<^verbatim>\<open>sort.Slice\<close> is no strict weak order: with three peers of success
  rates 1.0, 0.95 and 0.88 and falling round trip times each precedes the next in a cycle, and the
  order in which the candidates are listed decides which of the three is called the best.
\<close>
lemma best_depends_on_order:
  "less_peer demo_tracker ''a'' ''c'' \<and> less_peer demo_tracker ''c'' ''b'' \<and> less_peer demo_tracker ''b'' ''a''
   \<and> getBestPeer pdq now [''c'', ''a'', ''b''] demo_tracker = Some ''a''
   \<and> getBestPeer pdq now [''a'', ''b'', ''c''] demo_tracker = Some ''b''
   \<and> getBestPeer pdq now [''b'', ''c'', ''a''] demo_tracker = Some ''c''"
  using demo_less by (simp add: getBestPeer_def demo_usable sort_Slice_def insertion_sort_def Let_def)

end
