(* ===== verification/Messages.thy ===== *)
theory Messages
  imports Json
begin

text \<open>
  \<^verbatim>\<open>internal/types/message.go\<close> and \<^verbatim>\<open>internal/transport/transport.go\<close>: the protocol
  messages and what a component hands to the transport. \<^verbatim>\<open>Payload any\<close> is the datatype of
  the payload structs, with the arguments in the order of the fields; a type assertion is a
  pattern match. The codec of the TCP transport is in the theory \<open>Codec\<close>.
\<close>

section \<open>Message types\<close>

type_synonym msg_type = string

abbreviation "MsgHello \<equiv> ''Hello''"
abbreviation "MsgHelloAck \<equiv> ''HelloAck''"
abbreviation "MsgAuth \<equiv> ''Auth''"
abbreviation "MsgGetPeers \<equiv> ''GetPeers''"
abbreviation "MsgPeers \<equiv> ''Peers''"
abbreviation "MsgInvTx \<equiv> ''InvTx''"
abbreviation "MsgGetTx \<equiv> ''GetTx''"
abbreviation "MsgTx \<equiv> ''Tx''"
abbreviation "MsgInvBlock \<equiv> ''InvBlock''"
abbreviation "MsgGetBlock \<equiv> ''GetBlock''"
abbreviation "MsgBlock \<equiv> ''Block''"
abbreviation "MsgGetTip \<equiv> ''GetTip''"
abbreviation "MsgTip \<equiv> ''Tip''"
abbreviation "MsgGetHeaders \<equiv> ''GetHeaders''"
abbreviation "MsgHeaders \<equiv> ''Headers''"
abbreviation "MsgGetBlocks \<equiv> ''GetBlocks''"
abbreviation "MsgBlocks \<equiv> ''Blocks''"

section \<open>Payloads\<close>

text \<open>
  \<^item> \<open>HelloPayload\<close> magic version pubKey listenAddr nonce timestamp
  \<^item> \<open>HelloAckPayload\<close> magic version pubKey listenAddr nonce echoNonce sigOverEcho timestamp
  \<^item> \<open>AuthPayload\<close> echoNonce sig timestamp
  \<^item> \<open>TipPayload\<close> tipHash tipHeight cumWork; \<open>GetHeadersPayload\<close> locator max
  \<^item> \<open>RawPayload\<close> is a \<^verbatim>\<open>json.RawMessage\<close> (the value its text denotes), \<open>NilPayload\<close> a nil interface.
\<close>

datatype payload =
    HelloPayload string int "byte list" string "byte list" int64
  | HelloAckPayload string int "byte list" string "byte list" "byte list" "byte list" int64
  | AuthPayload "byte list" "byte list" int64
  | GetPeersPayload int
  | PeersPayload "string list"
  | InvTxPayload string
  | GetTxPayload string
  | TxPayload transaction
  | InvBlockPayload block_meta
  | GetBlockPayload hash
  | BlockPayload "block option"
  | GetTipPayload
  | TipPayload hash uint64 string
  | GetHeadersPayload "hash list" int
  | HeadersPayload "block_meta list"
  | GetBlocksPayload "hash list"
  | BlocksPayload "block option list"
  | RawPayload json
  | NilPayload

record message =
  msg_Type :: msg_type
  msg_From :: string
  msg_To :: string
  msg_Timestamp :: int64
  msg_TraceID :: string
  msg_Payload :: payload

section \<open>Effects\<close>

text \<open>\<^verbatim>\<open>time.Now().UnixMilli()\<close>.\<close>

definition UnixMilli :: "gotime \<Rightarrow> int64" where
  "UnixMilli now = word_of_int (now div millisecond)"

text \<open>
  What a component asks of the outside, in order: the two sends of \<^verbatim>\<open>Transport\<close>, a request
  by the RPC helper (whose answer comes back as an event), and a timer that forgets a
  transaction request.
\<close>

datatype effect =
    Send string message
  | Broadcast string message
  | StartRPC string msg_type payload duration
  | StartTxTimer string duration

text \<open>A message without a recipient or a trace, and one addressed to a peer.\<close>

definition inv_message :: "gotime \<Rightarrow> string \<Rightarrow> msg_type \<Rightarrow> payload \<Rightarrow> message" where
  "inv_message now self typ pl = \<lparr>msg_Type = typ, msg_From = self, msg_To = '''',
     msg_Timestamp = UnixMilli now, msg_TraceID = '''', msg_Payload = pl\<rparr>"

definition direct_message :: "gotime \<Rightarrow> string \<Rightarrow> string \<Rightarrow> string \<Rightarrow> msg_type \<Rightarrow> payload \<Rightarrow> message" where
  "direct_message now self to trace typ pl = \<lparr>msg_Type = typ, msg_From = self, msg_To = to,
     msg_Timestamp = UnixMilli now, msg_TraceID = trace, msg_Payload = pl\<rparr>"

section \<open>New transactions\<close>

text \<open>
  \<^verbatim>\<open>newTxID\<close> and \<^verbatim>\<open>NewTransaction\<close>: the clock is read twice, the 16 random bytes
  are an argument.
\<close>

definition UnixNano :: "gotime \<Rightarrow> int64" where
  "UnixNano now = word_of_int now"

definition newTxID :: "gotime \<Rightarrow> byte list \<Rightarrow> string" where
  "newTxID now rnd = dec_int (sint (UnixNano now)) @ ''-'' @ EncodeToString rnd"

definition NewTransaction :: "gotime \<Rightarrow> gotime \<Rightarrow> byte list \<Rightarrow> string \<Rightarrow> transaction" where
  "NewTransaction t1 t2 rnd pl = \<lparr>tx_ID = newTxID t1 rnd, tx_Timestamp = UnixMilli t2, tx_Payload = pl\<rparr>"

end
