(* ===== verification/Syncer.thy ===== *)
theory Syncer
  imports ChainSync Peers Metrics Messages
begin

text \<open>
  \<^verbatim>\<open>internal/syncer/syncer.go\<close>: which blocks to fetch, from whom, how many at a time, and
  the headers-first state machine. The chain, read through \<^verbatim>\<open>s.cfg.Chain\<close>, is the argument
  \<open>bc\<close>; the peer manager behind \<^verbatim>\<open>s.cfg.Peers\<close> and the metrics are fields of the state; sends
  are returned as effects in their order. \<^verbatim>\<open>time.Now()\<close> within one call is the argument
  \<open>now\<close>. A request to the RPC helper runs in a goroutine: it is the effect \<open>StartRPC\<close>, and its
  answer is a later event that puts a result into \<open>sy_headersCh\<close> (the buffered channel
  together with the senders waiting on it, in order). \<open>None\<close> is a nil dereference.
\<close>

section \<open>State\<close>

datatype sync_state = SyncIdle | SyncingHeaders | SyncingBlocks | SyncBackoff

datatype req_kind = BlkSync | BlkInv | BlkParent

record inflight_req =
  ir_peer :: string
  ir_kind :: req_kind
  ir_attempts :: int
  ir_deadline :: gotime

record headers_result =
  hr_peer :: string
  hr_ok :: bool
  hr_metas :: "block_meta list"

text \<open>The interfaces and callbacks of the configuration: only whether they are set.\<close>

record sync_config =
  sc_NodeID :: string
  sc_Transport :: bool
  sc_Chain :: bool
  sc_RPC :: bool
  sc_SyncTimeout :: duration
  sc_MaxHeaders :: int
  sc_BlocksBatchSize :: int
  sc_ProbeInterval :: duration
  sc_MaxInflightBlocks :: int
  sc_BlockRetryLimit :: int
  sc_HeaderRetryLimit :: int
  sc_BackoffDuration :: duration

text \<open>A queue of hashes with its index, e.g. \<^verbatim>\<open>queueSync\<close> and \<^verbatim>\<open>queuedSync\<close>.\<close>

record wanted =
  wq_queue :: "hash list"
  wq_queued :: "(hash \<times> string) list"

record syncer =
  sy_cfg :: sync_config
  sy_inflightBlocks :: "(hash \<times> inflight_req) list"
  sy_inflightTx :: "string set"
  sy_parent :: wanted
  sy_sync :: wanted
  sy_inv :: wanted
  sy_state :: sync_state
  sy_syncPeer :: string
  sy_backoffUntil :: gotime
  sy_headerReqInFlight :: bool
  sy_headerRetries :: int
  sy_headersCh :: "headers_result list"
  sy_metrics :: metrics_tracker
  sy_peers :: manager

text \<open>The iteration orders of the maps a call ranges over.\<close>

record orders =
  od_peers :: "(string \<times> peer_info) ranging"
  od_inflight :: "(hash \<times> inflight_req) ranging"
  od_retry :: "(string \<times> hash list) ranging"

definition no_wanted :: wanted where
  "no_wanted = \<lparr>wq_queue = [], wq_queued = []\<rparr>"

definition NewSyncer :: "sync_config \<Rightarrow> manager option \<Rightarrow> syncer" where
  "NewSyncer cfg peers =
     (let cfg = (if sc_MaxHeaders cfg \<le> 0 then cfg\<lparr>sc_MaxHeaders := 2000\<rparr> else cfg);
          cfg = (if sc_BlocksBatchSize cfg \<le> 0 then cfg\<lparr>sc_BlocksBatchSize := 64\<rparr> else cfg);
          cfg = (if sc_SyncTimeout cfg \<le> 0 then cfg\<lparr>sc_SyncTimeout := 2 * second\<rparr> else cfg);
          cfg = (if sc_ProbeInterval cfg \<le> 0 then cfg\<lparr>sc_ProbeInterval := 900 * millisecond\<rparr> else cfg);
          cfg = (if sc_MaxInflightBlocks cfg \<le> 0 then cfg\<lparr>sc_MaxInflightBlocks := 16\<rparr> else cfg);
          cfg = (if sc_BlockRetryLimit cfg \<le> 0 then cfg\<lparr>sc_BlockRetryLimit := 3\<rparr> else cfg);
          cfg = (if sc_HeaderRetryLimit cfg \<le> 0 then cfg\<lparr>sc_HeaderRetryLimit := 2\<rparr> else cfg);
          cfg = (if sc_BackoffDuration cfg \<le> 0 then cfg\<lparr>sc_BackoffDuration := 1200 * millisecond\<rparr> else cfg);
          peers = (case peers of None \<Rightarrow> NewManager (800 * millisecond) | Some p \<Rightarrow> p)
      in \<lparr>sy_cfg = cfg, sy_inflightBlocks = [], sy_inflightTx = {}, sy_parent = no_wanted,
          sy_sync = no_wanted, sy_inv = no_wanted, sy_state = SyncIdle, sy_syncPeer = '''',
          sy_backoffUntil = 0, sy_headerReqInFlight = False, sy_headerRetries = 0,
          sy_headersCh = [], sy_metrics = newMetricsTracker, sy_peers = peers\<rparr>)"

abbreviation max_inflight :: "syncer \<Rightarrow> int" where
  "max_inflight s \<equiv> sc_MaxInflightBlocks (sy_cfg s)"

abbreviation self_id :: "syncer \<Rightarrow> string" where
  "self_id s \<equiv> sc_NodeID (sy_cfg s)"

definition is_inflight :: "hash \<Rightarrow> syncer \<Rightarrow> bool" where
  "is_inflight h s \<longleftrightarrow> map_of (sy_inflightBlocks s) h \<noteq> None"

definition best_peer :: "orders \<Rightarrow> gotime \<Rightarrow> syncer \<Rightarrow> string option" where
  "best_peer od now s = map_option fst (BestPeer (od_peers od) now (sy_peers s))"

section \<open>Queues\<close>

definition wanted_add :: "hash \<Rightarrow> string \<Rightarrow> wanted \<Rightarrow> wanted" where
  "wanted_add h p w =
     (if map_of (wq_queued w) h \<noteq> None then w
      else w\<lparr>wq_queued := al_put h p (wq_queued w), wq_queue := wq_queue w @ [h]\<rparr>)"

definition enqueueBlock :: "blockchain \<Rightarrow> hash \<Rightarrow> string \<Rightarrow> req_kind \<Rightarrow> syncer \<Rightarrow> syncer" where
  "enqueueBlock bc h preferredPeer kind s =
     (if \<not> sc_Transport (sy_cfg s) \<or> \<not> sc_Chain (sy_cfg s) \<or> IsZero h then s
      else if HasBlock bc h then s
      else if is_inflight h s then s
      else case kind of
             BlkParent \<Rightarrow> s\<lparr>sy_parent := wanted_add h preferredPeer (sy_parent s)\<rparr>
           | BlkSync \<Rightarrow> s\<lparr>sy_sync := wanted_add h preferredPeer (sy_sync s)\<rparr>
           | BlkInv \<Rightarrow> s\<lparr>sy_inv := wanted_add h preferredPeer (sy_inv s)\<rparr>)"

text \<open>The loop over one queue: hashes that the index no longer knows are dropped.\<close>

fun wanted_pop :: "hash list \<Rightarrow> (hash \<times> string) list \<Rightarrow> (hash \<times> string) option \<times> wanted" where
  "wanted_pop [] m = (None, \<lparr>wq_queue = [], wq_queued = m\<rparr>)"
| "wanted_pop (h # q) m =
     (case map_of m h of
        None \<Rightarrow> wanted_pop q m
      | Some p \<Rightarrow> (Some (h, p), \<lparr>wq_queue = q, wq_queued = al_del h m\<rparr>))"

definition popNextQueuedLocked :: "syncer \<Rightarrow> (hash \<times> string \<times> req_kind) option \<times> syncer" where
  "popNextQueuedLocked s =
     (case wanted_pop (wq_queue (sy_parent s)) (wq_queued (sy_parent s)) of
        (Some (h, p), w) \<Rightarrow> (Some (h, p, BlkParent), s\<lparr>sy_parent := w\<rparr>)
      | (None, w) \<Rightarrow>
          let s = s\<lparr>sy_parent := w\<rparr> in
          (case wanted_pop (wq_queue (sy_sync s)) (wq_queued (sy_sync s)) of
             (Some (h, p), w) \<Rightarrow> (Some (h, p, BlkSync), s\<lparr>sy_sync := w\<rparr>)
           | (None, w) \<Rightarrow>
               let s = s\<lparr>sy_sync := w\<rparr> in
               (case wanted_pop (wq_queue (sy_inv s)) (wq_queued (sy_inv s)) of
                  (Some (h, p), w) \<Rightarrow> (Some (h, p, BlkInv), s\<lparr>sy_inv := w\<rparr>)
                | (None, w) \<Rightarrow> (None, s\<lparr>sy_inv := w\<rparr>))))"

definition queued_total :: "syncer \<Rightarrow> nat" where
  "queued_total s = length (wq_queue (sy_parent s)) + length (wq_queue (sy_sync s))
     + length (wq_queue (sy_inv s))"

lemma wanted_pop_length:
  "wanted_pop q m = (r, w) \<Longrightarrow> length (wq_queue w) + (if r = None then 0 else 1) \<le> length q"
proof (induction q m arbitrary: r w rule: wanted_pop.induct)
  case (2 h q m)
  then show ?case by (cases "map_of m h") (fastforce, auto)
qed auto

lemma popNext_decreases:
  assumes "popNextQueuedLocked s = (Some x, s')" shows "queued_total s' < queued_total s"
  using assms unfolding popNextQueuedLocked_def Let_def queued_total_def
  by (auto split: prod.splits option.splits dest!: wanted_pop_length)

section \<open>Dispatch\<close>

definition track :: "gotime \<Rightarrow> hash \<Rightarrow> string \<Rightarrow> req_kind \<Rightarrow> syncer \<Rightarrow> syncer" where
  "track now h p kind s =
     s\<lparr>sy_inflightBlocks := al_put h \<lparr>ir_peer = p, ir_kind = kind, ir_attempts = 1,
         ir_deadline = now + sc_SyncTimeout (sy_cfg s)\<rparr> (sy_inflightBlocks s)\<rparr>"

text \<open>A popped sync hash goes back to the front of its queue.\<close>

definition put_back_sync :: "hash \<Rightarrow> string \<Rightarrow> syncer \<Rightarrow> syncer" where
  "put_back_sync h p s =
     s\<lparr>sy_sync := \<lparr>wq_queue = h # wq_queue (sy_sync s), wq_queued = al_put h p (wq_queued (sy_sync s))\<rparr>\<rparr>"

text \<open>
  What the two single-block loops do with a popped hash: skip it (\<^verbatim>\<open>continue\<close>), or put it in
  flight and note the request.
\<close>

definition admit :: "gotime \<Rightarrow> blockchain \<Rightarrow> string \<Rightarrow> hash \<Rightarrow> string \<Rightarrow> req_kind \<Rightarrow>
    syncer \<times> (string \<times> hash) list \<Rightarrow> syncer \<times> (string \<times> hash) list" where
  "admit now bc bestPeer h peerID kind st =
     (case st of (s, sends) \<Rightarrow>
      if HasBlock bc h then (s, sends)
      else if is_inflight h s then (s, sends)
      else let peerID = (if peerID = '''' then bestPeer else peerID) in
        if peerID = '''' \<or> peerID = self_id s then (s, sends)
        else (track now h peerID kind s, sends @ [(peerID, h)]))"

lemma admit_queues:
  "queued_total (fst (admit now bc best h p kind (s, sends))) = queued_total s"
  "sy_inv (fst (admit now bc best h p kind (s, sends))) = sy_inv s"
  by (simp_all add: admit_def Let_def track_def queued_total_def)

function dispatch_front :: "gotime \<Rightarrow> blockchain \<Rightarrow> string \<Rightarrow> syncer \<times> (string \<times> hash) list \<Rightarrow>
    syncer \<times> (string \<times> hash) list" where
  "dispatch_front now bc bestPeer (s, sends) =
     (if int (length (sy_inflightBlocks s)) < max_inflight s then
        (case popNextQueuedLocked s of
           (None, s1) \<Rightarrow> (s1, sends)
         | (Some (h, peerID, kind), s1) \<Rightarrow>
             if kind = BlkSync then (put_back_sync h peerID s1, sends)
             else dispatch_front now bc bestPeer (admit now bc bestPeer h peerID kind (s1, sends)))
      else (s, sends))"
  by pat_completeness auto
termination
  by (relation "measure (\<lambda>(_, _, _, s, _). queued_total s)")
    (auto dest!: popNext_decreases [OF sym] simp: admit_queues split_def)

declare dispatch_front.simps [simp del]

text \<open>One batch: \<open>n\<close> hashes leave the sync queue, those still missing are tracked and collected.\<close>

fun take_batch :: "gotime \<Rightarrow> blockchain \<Rightarrow> string \<Rightarrow> nat \<Rightarrow> syncer \<Rightarrow> hash list \<Rightarrow> syncer \<times> hash list" where
  "take_batch now bc p 0 s hashes = (s, hashes)"
| "take_batch now bc p (Suc n) s hashes =
     (case wq_queue (sy_sync s) of
        [] \<Rightarrow> (s, hashes)
      | h # q \<Rightarrow>
          let s = s\<lparr>sy_sync := \<lparr>wq_queue = q, wq_queued = al_del h (wq_queued (sy_sync s))\<rparr>\<rparr> in
          if IsZero h \<or> HasBlock bc h then take_batch now bc p n s hashes
          else if is_inflight h s then take_batch now bc p n s hashes
          else take_batch now bc p n (track now h p BlkSync s) (hashes @ [h]))"

definition batch_size :: "syncer \<Rightarrow> int" where
  "batch_size s =
     (let remaining = max_inflight s - int (length (sy_inflightBlocks s));
          bs = sc_BlocksBatchSize (sy_cfg s);
          bs = (if bs \<le> 0 then 1 else bs);
          bs = (if bs > remaining then remaining else bs)
      in if bs > int (length (wq_queue (sy_sync s))) then int (length (wq_queue (sy_sync s))) else bs)"

lemma take_batch_queue:
  "take_batch now bc p n s hs = (s', hs') \<Longrightarrow> wq_queue (sy_sync s') = drop n (wq_queue (sy_sync s))"
  by (induction now bc p n s hs rule: take_batch.induct)
    (auto simp: Let_def track_def split: list.splits if_splits)

function dispatch_sync :: "gotime \<Rightarrow> blockchain \<Rightarrow> string \<Rightarrow> syncer \<Rightarrow> (string \<times> hash list) list \<Rightarrow>
    syncer \<times> (string \<times> hash list) list" where
  "dispatch_sync now bc p s batches =
     (if int (length (sy_inflightBlocks s)) < max_inflight s \<and> length (wq_queue (sy_sync s)) > 0 then
        let bs = batch_size s in
        if bs \<le> 0 then (s, batches)
        else if p = '''' \<or> p = self_id s then (s, batches)
        else (case take_batch now bc p (nat bs) s [] of (s1, hashes) \<Rightarrow>
                dispatch_sync now bc p s1 (if hashes \<noteq> [] then batches @ [(p, hashes)] else batches))
      else (s, batches))"
  by pat_completeness auto
termination
  by (relation "measure (\<lambda>(_, _, _, s, _). length (wq_queue (sy_sync s)))")
    (auto dest!: take_batch_queue [OF sym])

declare dispatch_sync.simps [simp del]

function dispatch_inv :: "gotime \<Rightarrow> blockchain \<Rightarrow> string \<Rightarrow> syncer \<times> (string \<times> hash) list \<Rightarrow>
    syncer \<times> (string \<times> hash) list" where
  "dispatch_inv now bc bestPeer (s, sends) =
     (if int (length (sy_inflightBlocks s)) < max_inflight s then
        (case wq_queue (sy_inv s) of
           [] \<Rightarrow> (s, sends)
         | h # q \<Rightarrow>
             let peerID = go_get '''' (map_of (wq_queued (sy_inv s))) h;
                 s = s\<lparr>sy_inv := \<lparr>wq_queue = q, wq_queued = al_del h (wq_queued (sy_inv s))\<rparr>\<rparr>
             in dispatch_inv now bc bestPeer
                  (if IsZero h then (s, sends) else admit now bc bestPeer h peerID BlkInv (s, sends)))
      else (s, sends))"
  by pat_completeness auto
termination
  by (relation "measure (\<lambda>(_, _, _, s, _). length (wq_queue (sy_inv s)))")
    (auto simp: admit_queues split_def)

declare dispatch_inv.simps [simp del]

definition get_block_effect :: "gotime \<Rightarrow> syncer \<Rightarrow> string \<times> hash \<Rightarrow> effect" where
  "get_block_effect now s r =
     Send (fst r) (direct_message now (self_id s) (fst r) '''' MsgGetBlock (GetBlockPayload (snd r)))"

definition sendGetBlocks :: "gotime \<Rightarrow> syncer \<Rightarrow> string \<times> hash list \<Rightarrow> effect list" where
  "sendGetBlocks now s b =
     (if \<not> sc_Transport (sy_cfg s) \<or> fst b = '''' \<or> fst b = self_id s \<or> length (snd b) = 0 then []
      else [Send (fst b) (direct_message now (self_id s) (fst b) '''' MsgGetBlocks (GetBlocksPayload (snd b)))])"

definition dispatchQueuedBlocks ::
    "orders \<Rightarrow> blockchain \<Rightarrow> gotime \<Rightarrow> syncer \<Rightarrow> (syncer \<times> effect list) option" where
  "dispatchQueuedBlocks od bc now s =
     (if \<not> sc_Transport (sy_cfg s) \<or> \<not> sc_Chain (sy_cfg s) then Some (s, [])
      else do {
        bestPeer \<leftarrow> best_peer od now s;
        let (s, sends) = dispatch_front now bc bestPeer (s, []);
        let syncPeer = (if sy_syncPeer s = '''' then bestPeer else sy_syncPeer s);
        let (s, batches) = dispatch_sync now bc syncPeer s [];
        let (s, sends) = dispatch_inv now bc bestPeer (s, sends);
        Some (s, map (get_block_effect now s) sends @ concat (map (sendGetBlocks now s) batches))
      })"

section \<open>Announcements and answers\<close>

definition onBlockArrived :: "hash \<Rightarrow> syncer \<Rightarrow> syncer" where
  "onBlockArrived h s =
     (if IsZero h then s else s\<lparr>sy_inflightBlocks := al_del h (sy_inflightBlocks s)\<rparr>)"

definition HandleInvBlock :: "digest \<Rightarrow> orders \<Rightarrow> blockchain \<Rightarrow> gotime \<Rightarrow> block_meta \<Rightarrow> string \<Rightarrow> syncer \<Rightarrow>
    (syncer \<times> effect list) option" where
  "HandleInvBlock sha od bc now meta fromPeer s =
     (if \<not> sc_Transport (sy_cfg s) \<or> \<not> sc_Chain (sy_cfg s) then Some (s, [])
      else if fromPeer = '''' \<or> IsZero (bm_Hash meta) then Some (s, [])
      else if HasBlock bc (bm_Hash meta) then Some (s, [])
      else if bh_Difficulty (bm_Header meta) \<noteq> bc_difficulty bc then Some (s, [])
      else case HashHeaderNonce sha (bm_Header meta) (bm_Nonce meta) of
             Inl err \<Rightarrow> Some (s, [])
           | Inr computed \<Rightarrow>
               if computed \<noteq> bm_Hash meta \<or> \<not> MeetsDifficulty (bm_Hash meta) (bc_difficulty bc)
               then Some (s, [])
               else let prev = bh_PrevHash (bm_Header meta);
                        s = (if bh_Height (bm_Header meta) > 0 \<and> \<not> IsZero prev \<and> \<not> HasBlock bc prev
                             then enqueueBlock bc prev fromPeer BlkParent s else s);
                        s = enqueueBlock bc (bm_Hash meta) fromPeer BlkInv s
                    in dispatchQueuedBlocks od bc now s)"

text \<open>The key a received block is booked under: the hash it claims, or the computed one.\<close>

definition claimed_hash :: "digest \<Rightarrow> block \<Rightarrow> hash" where
  "claimed_hash sha b =
     (if IsZero (blk_Hash b)
      then (case HashHeaderNonce sha (blk_Header b) (blk_Nonce b) of Inr c \<Rightarrow> c | Inl _ \<Rightarrow> blk_Hash b)
      else blk_Hash b)"

text \<open>\<^verbatim>\<open>metrics.recordRequest\<close> for an answered block, if it was in flight.\<close>

definition record_answer :: "gotime \<Rightarrow> hash \<Rightarrow> string \<Rightarrow> syncer \<Rightarrow> syncer" where
  "record_answer now h fromPeer s =
     (case map_of (sy_inflightBlocks s) h of
        None \<Rightarrow> s
      | Some req \<Rightarrow>
          if fromPeer = '''' then s
          else let startTime = ir_deadline req + - sc_SyncTimeout (sy_cfg s)
               in s\<lparr>sy_metrics := recordRequest now fromPeer startTime True (sy_metrics s)\<rparr>)"

text \<open>
  \<^verbatim>\<open>cfg.OnBlock\<close> is the argument \<open>onb\<close>, acting on the rest of the program (\<open>'w\<close>);
  \<open>None\<close> when it is not set.
\<close>

definition HandleBlock :: "digest \<Rightarrow> (block \<Rightarrow> string \<Rightarrow> 'w \<Rightarrow> 'w) option \<Rightarrow> gotime \<Rightarrow> block option \<Rightarrow> string \<Rightarrow>
    syncer \<times> 'w \<Rightarrow> syncer \<times> 'w" where
  "HandleBlock sha onb now b fromPeer sw =
     (case (b, onb) of
        (Some b, Some cb) \<Rightarrow>
          (case sw of (s, w) \<Rightarrow>
             let h = claimed_hash sha b;
                 s = record_answer now h fromPeer s;
                 s = onBlockArrived h s
             in (s, cb b fromPeer w))
      | _ \<Rightarrow> sw)"

primrec handle_each :: "digest \<Rightarrow> (block \<Rightarrow> string \<Rightarrow> 'w \<Rightarrow> 'w) \<Rightarrow> string \<Rightarrow> block option list \<Rightarrow>
    syncer \<times> 'w \<Rightarrow> syncer \<times> 'w" where
  "handle_each sha cb fromPeer [] sw = sw"
| "handle_each sha cb fromPeer (b # bs) sw =
     (case b of
        None \<Rightarrow> handle_each sha cb fromPeer bs sw
      | Some b \<Rightarrow> handle_each sha cb fromPeer bs
          (onBlockArrived (claimed_hash sha b) (fst sw), cb b fromPeer (snd sw)))"

text \<open>The first block is read without a nil check when the sender is known: \<open>None\<close> is that panic.\<close>

definition HandleBlocks :: "digest \<Rightarrow> (block \<Rightarrow> string \<Rightarrow> 'w \<Rightarrow> 'w) option \<Rightarrow> gotime \<Rightarrow> block option list \<Rightarrow>
    string \<Rightarrow> syncer \<times> 'w \<Rightarrow> (syncer \<times> 'w) option" where
  "HandleBlocks sha onb now blocks fromPeer sw =
     (case onb of
        None \<Rightarrow> Some sw
      | Some cb \<Rightarrow>
          if length blocks = 0 then Some sw
          else do {
            s \<leftarrow> (if fromPeer \<noteq> '''' \<and> length blocks > 0
                 then (case blocks ! 0 of
                         None \<Rightarrow> None
                       | Some b0 \<Rightarrow> Some (record_answer now (claimed_hash sha b0) fromPeer (fst sw)))
                 else Some (fst sw));
            Some (handle_each sha cb fromPeer blocks (s, snd sw))
          })"

definition HandleInvTx :: "(string \<Rightarrow> bool) option \<Rightarrow> gotime \<Rightarrow> string \<Rightarrow> string \<Rightarrow> syncer \<Rightarrow>
    syncer \<times> effect list" where
  "HandleInvTx hasTx now txid fromPeer s =
     (if \<not> sc_Transport (sy_cfg s) \<or> txid = '''' \<or> fromPeer = '''' then (s, [])
      else if (case hasTx of None \<Rightarrow> False | Some f \<Rightarrow> f txid) then (s, [])
      else if txid \<in> sy_inflightTx s then (s, [])
      else (s\<lparr>sy_inflightTx := insert txid (sy_inflightTx s)\<rparr>,
            [StartTxTimer txid (sc_SyncTimeout (sy_cfg s)),
             Send fromPeer (direct_message now (self_id s) fromPeer '''' MsgGetTx (GetTxPayload txid))]))"

text \<open>The function run by the timer.\<close>

definition forget_tx_request :: "string \<Rightarrow> syncer \<Rightarrow> syncer" where
  "forget_tx_request txid s = s\<lparr>sy_inflightTx := sy_inflightTx s - {txid}\<rparr>"

definition HandleTx :: "(transaction \<Rightarrow> string \<Rightarrow> 'w \<Rightarrow> bool \<times> 'w) option \<Rightarrow> gotime \<Rightarrow> transaction \<Rightarrow> string \<Rightarrow>
    syncer \<times> 'w \<Rightarrow> (syncer \<times> 'w) \<times> effect list" where
  "HandleTx onTx now tx fromPeer sw =
     (if tx_ID tx = '''' then (sw, [])
      else let s = forget_tx_request (tx_ID tx) (fst sw) in
        (case onTx of
           None \<Rightarrow> ((s, snd sw), [])
         | Some f \<Rightarrow>
             (case f tx fromPeer (snd sw) of
                (added, w) \<Rightarrow>
                  if \<not> added \<or> \<not> sc_Transport (sy_cfg s) then ((s, w), [])
                  else ((s, w), [Broadcast (self_id s)
                                   (inv_message now (self_id s) MsgInvTx (InvTxPayload (tx_ID tx)))]))))"

section \<open>Probing tips\<close>

text \<open>\<^verbatim>\<open>big.Int.SetString(s, 10)\<close>: an optional sign and at least one decimal digit.\<close>

definition digit_value :: "char \<Rightarrow> int option" where
  "digit_value c = (if 48 \<le> (of_char c :: nat) \<and> of_char c \<le> (57::nat) then Some (of_char c - 48) else None)"

fun dec_digits :: "string \<Rightarrow> int \<Rightarrow> int option" where
  "dec_digits [] acc = Some acc"
| "dec_digits (c # cs) acc =
     (case digit_value c of None \<Rightarrow> None | Some d \<Rightarrow> dec_digits cs (10 * acc + d))"

fun SetString10 :: "string \<Rightarrow> int option" where
  "SetString10 [] = None"
| "SetString10 (c # cs) =
     (if c = CHR ''-'' then (if cs = [] then None else map_option uminus (dec_digits cs 0))
      else if c = CHR ''+'' then (if cs = [] then None else dec_digits cs 0)
      else dec_digits (c # cs) 0)"

text \<open>What the goroutine of one peer reports: the answer of the RPC, if any, read as a tip.\<close>

definition tip_of_reply :: "message option \<Rightarrow> (uint64 \<times> hash \<times> int) option" where
  "tip_of_reply resp =
     (case resp of
        None \<Rightarrow> None
      | Some m \<Rightarrow>
          if msg_Type m \<noteq> MsgTip then None
          else (case msg_Payload m of
                  TipPayload th ht work \<Rightarrow>
                    (case SetString10 work of None \<Rightarrow> None | Some w \<Rightarrow> Some (ht, th, w))
                | _ \<Rightarrow> None))"

definition probe_targets :: "string list \<Rightarrow> syncer \<Rightarrow> string list" where
  "probe_targets peers s = filter (\<lambda>p. \<not> (p = '''' \<or> p = self_id s)) peers"

text \<open>
  First every target becomes a known peer and is asked (by its own goroutine); then the answers
  are booked in the order \<open>arrived\<close> in which they come in, each with its arrival time, the
  answer and the round trip time.
\<close>

definition probe_start :: "string list \<Rightarrow> syncer \<Rightarrow> syncer \<times> effect list" where
  "probe_start peers s =
     (if \<not> sc_Transport (sy_cfg s) \<or> \<not> sc_Chain (sy_cfg s) \<or> \<not> sc_RPC (sy_cfg s) then (s, [])
      else (s\<lparr>sy_peers := fold Upsert (probe_targets peers s) (sy_peers s)\<rparr>,
            map (\<lambda>p. StartRPC p MsgGetTip GetTipPayload (sc_SyncTimeout (sy_cfg s))) (probe_targets peers s)))"

definition probe_result :: "gotime \<Rightarrow> string \<Rightarrow> message option \<Rightarrow> duration \<Rightarrow> syncer \<Rightarrow> syncer" where
  "probe_result now p resp rtt s =
     (case tip_of_reply resp of
        None \<Rightarrow> s\<lparr>sy_peers := ReportTimeout now p (sy_peers s)\<rparr>
      | Some (height, h, work) \<Rightarrow> s\<lparr>sy_peers := UpdateTip now p height h (Some work) rtt (sy_peers s)\<rparr>)"

section \<open>The headers-first state machine\<close>

text \<open>What \<^verbatim>\<open>enterBackoff\<close> and \<^verbatim>\<open>resetSyncState\<close> clear.\<close>

definition drop_sync_work :: "syncer \<Rightarrow> syncer" where
  "drop_sync_work s =
     s\<lparr>sy_sync := no_wanted,
       sy_inflightBlocks := filter (\<lambda>(h, req). ir_kind req \<noteq> BlkSync) (sy_inflightBlocks s)\<rparr>"

definition enterBackoff :: "gotime \<Rightarrow> syncer \<Rightarrow> syncer" where
  "enterBackoff now s =
     drop_sync_work (s\<lparr>sy_state := SyncBackoff,
       sy_backoffUntil := now + sc_BackoffDuration (sy_cfg s), sy_syncPeer := '''',
       sy_headerRetries := 0, sy_headerReqInFlight := False\<rparr>)"

definition resetSyncState :: "syncer \<Rightarrow> syncer" where
  "resetSyncState s =
     drop_sync_work (s\<lparr>sy_state := SyncIdle, sy_syncPeer := '''', sy_headerRetries := 0,
       sy_headerReqInFlight := False\<rparr>)"

definition syncWorkDone :: "syncer \<Rightarrow> bool" where
  "syncWorkDone s \<longleftrightarrow>
     \<not> length (wq_queued (sy_sync s)) > 0 \<and> (\<forall>(h, req) \<in> set (sy_inflightBlocks s). ir_kind req \<noteq> BlkSync)"

definition maybeStartHeaderRequest :: "blockchain \<Rightarrow> string \<Rightarrow> syncer \<Rightarrow> syncer \<times> effect list" where
  "maybeStartHeaderRequest bc peerID s =
     (if \<not> sc_RPC (sy_cfg s) \<or> \<not> sc_Chain (sy_cfg s) \<or> peerID = '''' \<or> peerID = self_id s then (s, [])
      else if sy_state s \<noteq> SyncingHeaders \<or> sy_headerReqInFlight s then (s, [])
      else let s = s\<lparr>sy_headerReqInFlight := True\<rparr>;
               s = (if sy_syncPeer s = '''' then s\<lparr>sy_syncPeer := peerID\<rparr> else s)
           in (s, [StartRPC peerID MsgGetHeaders (GetHeadersPayload (Locator 32 bc) (sc_MaxHeaders (sy_cfg s)))
                     (sc_SyncTimeout (sy_cfg s))]))"

text \<open>The end of the goroutine that asked \<open>p\<close> for headers.\<close>

definition header_reply :: "string \<Rightarrow> message option \<Rightarrow> syncer \<Rightarrow> syncer" where
  "header_reply p resp s =
     (let r = (case resp of
                 None \<Rightarrow> \<lparr>hr_peer = p, hr_ok = False, hr_metas = []\<rparr>
               | Some m \<Rightarrow>
                   if msg_Type m \<noteq> MsgHeaders then \<lparr>hr_peer = p, hr_ok = False, hr_metas = []\<rparr>
                   else (case msg_Payload m of
                           HeadersPayload metas \<Rightarrow> \<lparr>hr_peer = p, hr_ok = True, hr_metas = metas\<rparr>
                         | _ \<Rightarrow> \<lparr>hr_peer = p, hr_ok = False, hr_metas = []\<rparr>))
      in s\<lparr>sy_headersCh := sy_headersCh s @ [r]\<rparr>)"

text \<open>The loop over the metas: the new state and whether anything is missing.\<close>

fun queue_metas :: "blockchain \<Rightarrow> string \<Rightarrow> block_meta list \<Rightarrow> syncer \<Rightarrow> bool \<Rightarrow> syncer \<times> bool" where
  "queue_metas bc p [] s queuedAny = (s, queuedAny)"
| "queue_metas bc p (m # ms) s queuedAny =
     (if IsZero (bm_Hash m) then queue_metas bc p ms s queuedAny
      else if sc_Chain (sy_cfg s) \<and> HasBlock bc (bm_Hash m) then queue_metas bc p ms s queuedAny
      else queue_metas bc p ms (enqueueBlock bc (bm_Hash m) p BlkSync s) True)"

definition header_result :: "orders \<Rightarrow> blockchain \<Rightarrow> gotime \<Rightarrow> headers_result \<Rightarrow> syncer \<Rightarrow>
    (syncer \<times> effect list) option" where
  "header_result od bc now r s =
     (let s = s\<lparr>sy_headerReqInFlight := False\<rparr> in
      if \<not> hr_ok r then
        let s = (if hr_peer r \<noteq> '''' then s\<lparr>sy_peers := ReportTimeout now (hr_peer r) (sy_peers s)\<rparr> else s);
            s = s\<lparr>sy_headerRetries := sy_headerRetries s + 1\<rparr>;
            shouldBackoff = sy_headerRetries s \<ge> sc_HeaderRetryLimit (sy_cfg s)
        in Some (if shouldBackoff then enterBackoff now s else s, [])
      else
        let s = s\<lparr>sy_headerRetries := 0\<rparr>;
            (s, queuedAny) = queue_metas bc (hr_peer r) (hr_metas r) s False
        in if queuedAny then
             let s = (if sy_state s = SyncingHeaders then s\<lparr>sy_state := SyncingBlocks\<rparr> else s);
                 s = (if sy_syncPeer s = '''' then s\<lparr>sy_syncPeer := hr_peer r\<rparr> else s)
             in dispatchQueuedBlocks od bc now s
           else Some (s, []))"

primrec drain_results :: "orders \<Rightarrow> blockchain \<Rightarrow> gotime \<Rightarrow> headers_result list \<Rightarrow> syncer \<Rightarrow>
    (syncer \<times> effect list) option" where
  "drain_results od bc now [] s = Some (s, [])"
| "drain_results od bc now (r # rs) s = do {
     (s, es) \<leftarrow> header_result od bc now r s;
     (s, es') \<leftarrow> drain_results od bc now rs s;
     Some (s, es @ es')
   }"

definition drainHeaderResults :: "orders \<Rightarrow> blockchain \<Rightarrow> gotime \<Rightarrow> syncer \<Rightarrow> (syncer \<times> effect list) option" where
  "drainHeaderResults od bc now s = drain_results od bc now (sy_headersCh s) (s\<lparr>sy_headersCh := []\<rparr>)"

section \<open>Timeouts\<close>

text \<open>What the loop of \<^verbatim>\<open>tickInflight\<close> collects.\<close>

record tick =
  tk_sends :: "(string \<times> hash) list"
  tk_retrySync :: "(string \<times> hash list) list"
  tk_timeouts :: "string list"
  tk_syncFailed :: bool

definition tick_one :: "gotime \<Rightarrow> string \<Rightarrow> hash \<times> inflight_req \<Rightarrow> syncer \<times> tick \<Rightarrow> syncer \<times> tick" where
  "tick_one now bestPeer hr st =
     (case hr of (h, req) \<Rightarrow> case st of (s, t) \<Rightarrow>
      if now < ir_deadline req then (s, t)
      else
        let (s, t) = (if ir_peer req \<noteq> '''' then
                (s\<lparr>sy_metrics := recordRequest now (ir_peer req)
                     (ir_deadline req + - sc_SyncTimeout (sy_cfg s)) False (sy_metrics s)\<rparr>,
                 t\<lparr>tk_timeouts := tk_timeouts t @ [ir_peer req]\<rparr>)
              else (s, t))
        in if ir_attempts req \<ge> sc_BlockRetryLimit (sy_cfg s) then
             (s\<lparr>sy_inflightBlocks := al_del h (sy_inflightBlocks s)\<rparr>,
              if ir_kind req = BlkSync \<and> (sy_state s = SyncingBlocks \<or> sy_state s = SyncingHeaders)
              then t\<lparr>tk_syncFailed := True\<rparr> else t)
           else
             let peerID = (if bestPeer \<noteq> '''' then bestPeer else ir_peer req);
                 req = req\<lparr>ir_peer := peerID, ir_attempts := ir_attempts req + 1,
                           ir_deadline := now + sc_SyncTimeout (sy_cfg s)\<rparr>;
                 s = s\<lparr>sy_inflightBlocks := al_put h req (sy_inflightBlocks s)\<rparr>
             in (s, if peerID \<noteq> '''' \<and> peerID \<noteq> self_id s then
                      (if ir_kind req = BlkSync
                       then t\<lparr>tk_retrySync := al_put peerID
                                (go_get [] (map_of (tk_retrySync t)) peerID @ [h]) (tk_retrySync t)\<rparr>
                       else t\<lparr>tk_sends := tk_sends t @ [(peerID, h)]\<rparr>)
                    else t))"

text \<open>The hashes of one peer in slices of the batch size.\<close>

function chunks :: "nat \<Rightarrow> 'a list \<Rightarrow> 'a list list" where
  "chunks n xs = (if xs = [] \<or> n = 0 then [] else take n xs # chunks n (drop n xs))"
  by pat_completeness auto
termination by (relation "measure (\<lambda>(_, xs). length xs)") auto

declare chunks.simps [simp del]

definition tickInflight ::
    "orders \<Rightarrow> blockchain \<Rightarrow> gotime \<Rightarrow> syncer \<Rightarrow> (syncer \<times> effect list) option" where
  "tickInflight od bc now s =
     (if \<not> sc_Transport (sy_cfg s) \<or> \<not> sc_Chain (sy_cfg s) \<or> length (sy_inflightBlocks s) = 0 then Some (s, [])
      else do {
        bestPeer \<leftarrow> best_peer od now s;
        let (s, t) = fold (tick_one now bestPeer) (od_inflight od 0 (sy_inflightBlocks s))
                       (s, \<lparr>tk_sends = [], tk_retrySync = [], tk_timeouts = [], tk_syncFailed = False\<rparr>);
        let s = s\<lparr>sy_peers := fold (ReportTimeout now) (tk_timeouts t) (sy_peers s)\<rparr>;
        let bs = (if sc_BlocksBatchSize (sy_cfg s) \<le> 0 then 1 else sc_BlocksBatchSize (sy_cfg s));
        let effects = map (get_block_effect now s) (tk_sends t)
          @ concat (map (\<lambda>(p, hashes). concat (map (\<lambda>c. sendGetBlocks now s (p, c)) (chunks (nat bs) hashes)))
                     (od_retry od 0 (tk_retrySync t)));
        Some (if tk_syncFailed t then enterBackoff now s else s, effects)
      })"

section \<open>One round\<close>

text \<open>
  The parts of \<^verbatim>\<open>catchUpIfBehind\<close> after timeouts, queues and header results are dealt with. A round is here
  a function, its run when no other goroutine comes in between; section by section it is \<open>catch_up_prog\<close>
  in \<open>Goroutines\<close>, and \<open>Uninterrupted\<close> shows that they agree.
\<close>

definition leave_backoff :: "gotime \<Rightarrow> syncer \<Rightarrow> syncer" where
  "leave_backoff now s =
     (if sy_state s = SyncBackoff \<and> now > sy_backoffUntil s
      then s\<lparr>sy_state := SyncIdle, sy_syncPeer := '''', sy_headerRetries := 0, sy_headerReqInFlight := False\<rparr>
      else s)"

definition advance :: "blockchain \<Rightarrow> string \<Rightarrow> syncer \<Rightarrow> syncer \<times> effect list" where
  "advance bc bestPeer s =
     (let s = (if sy_state s = SyncIdle
               then s\<lparr>sy_state := SyncingHeaders, sy_syncPeer := bestPeer, sy_headerRetries := 0\<rparr> else s);
          peerID = (if sy_syncPeer s = '''' then bestPeer else sy_syncPeer s)
      in case sy_state s of
           SyncingHeaders \<Rightarrow> maybeStartHeaderRequest bc peerID s
         | SyncingBlocks \<Rightarrow> (if syncWorkDone s then s\<lparr>sy_state := SyncingHeaders\<rparr> else s, [])
         | _ \<Rightarrow> (s, []))"

definition is_behind :: "blockchain \<Rightarrow> int \<Rightarrow> uint64 \<Rightarrow> int \<Rightarrow> bool" where
  "is_behind bc bestWork bestHeight localWork \<longleftrightarrow> localWork < bestWork \<or> TipHeight bc < bestHeight"

definition decide :: "orders \<Rightarrow> blockchain \<Rightarrow> gotime \<Rightarrow> syncer \<Rightarrow> (syncer \<times> effect list) option" where
  "decide od bc now s = do {
     (bestPeer, bestHeight, _, bestWork) \<leftarrow> BestPeer (od_peers od) now (sy_peers s);
     case bestWork of
       None \<Rightarrow> Some (s, [])
     | Some bw \<Rightarrow>
         if bestPeer = '''' then Some (s, [])
         else do {
           localWork \<leftarrow> TipCumWork bc;
           Some (if \<not> is_behind bc bw bestHeight localWork then (resetSyncState s, [])
                 else advance bc bestPeer s)
         }
   }"

definition catchUpIfBehind ::
    "orders \<Rightarrow> blockchain \<Rightarrow> gotime \<Rightarrow> syncer \<Rightarrow> (syncer \<times> effect list) option" where
  "catchUpIfBehind od bc now s =
     (if \<not> sc_Chain (sy_cfg s) then Some (s, [])
      else do {
        (s, e1) \<leftarrow> tickInflight od bc now s;
        (s, e2) \<leftarrow> dispatchQueuedBlocks od bc now s;
        (s, e3) \<leftarrow> drainHeaderResults od bc now s;
        (s, e4) \<leftarrow> decide od bc now (leave_backoff now s);
        Some (s, e1 @ e2 @ e3 @ e4)
      })"

end
