(* ===== verification/SyncerInv.thy ===== *)
theory SyncerInv
  imports Syncer "HOL-Library.Multiset"
begin

text \<open>
  The invariant of the syncer and its preservation: the window bound, the retry bounds, the
  agreement of each queue with its index, and what a dispatch does to the window. The three
  queues share the interface \<open>fetch_queue\<close>.
\<close>

section \<open>The queues\<close>

text \<open>
  A first-in first-out queue without repetitions: adding an item that waits already changes
  nothing, popping hands out the oldest item with the peer it was queued for.
\<close>

locale fetch_queue =
  fixes ok :: "'q \<Rightarrow> bool" and items :: "'q \<Rightarrow> 'h list"
    and good :: "'h \<Rightarrow> bool"
    and add :: "'h \<Rightarrow> 'p \<Rightarrow> 'q \<Rightarrow> 'q" and pop :: "'q \<Rightarrow> ('h \<times> 'p) option \<times> 'q"
  assumes distinct_items: "ok q \<Longrightarrow> distinct (items q)"
    and add_ok: "ok q \<Longrightarrow> good h \<Longrightarrow> ok (add h p q)"
    and add_items: "ok q \<Longrightarrow> items (add h p q) = (if h \<in> set (items q) then items q else items q @ [h])"
    and pop_ok: "ok q \<Longrightarrow> ok (snd (pop q))"
    and pop_none: "ok q \<Longrightarrow> items q = [] \<Longrightarrow> pop q = (None, q)"
    and pop_some: "ok q \<Longrightarrow> items q = h # hs \<Longrightarrow> \<exists>p q'. pop q = (Some (h, p), q') \<and> items q' = hs"
begin

lemma pop_some_iff: "ok q \<Longrightarrow> fst (pop q) = None \<longleftrightarrow> items q = []"
  using pop_none pop_some by (cases "items q") fastforce+

lemma popped_gone: "ok q \<Longrightarrow> pop q = (Some (h, p), q') \<Longrightarrow> items q = h # items q' \<and> h \<notin> set (items q')"
  using pop_none [of q] pop_some [of q] distinct_items [of q] by (cases "items q") fastforce+

text \<open>Filling the queue with a list queues each good hash once, in the order of first mention.\<close>

lemma fold_add:
  assumes "ok q" "\<forall>h \<in> set hs. good h"
  shows "ok (fold (\<lambda>h. add h p) hs q)"
    and "set (items (fold (\<lambda>h. add h p) hs q)) = set (items q) \<union> set hs"
    and "distinct hs \<Longrightarrow> set hs \<inter> set (items q) = {} \<Longrightarrow> items (fold (\<lambda>h. add h p) hs q) = items q @ hs"
  using assms
proof (induction hs arbitrary: q)
  case (Cons h hs)
  { case 1 then show ?case using Cons.IH(1) add_ok by simp }
  { case 2 then show ?case using Cons.IH(2) [of "add h p q"] add_ok add_items by auto }
  { case 3 then show ?case using Cons.IH(3) [of "add h p q"] add_ok add_items by auto }
qed auto

end

definition wanted_ok :: "wanted \<Rightarrow> bool" where
  "wanted_ok w \<longleftrightarrow> distinct (wq_queue w) \<and> distinct (al_keys (wq_queued w))
     \<and> set (al_keys (wq_queued w)) = set (wq_queue w) \<and> 0 \<notin> set (wq_queue w)"

lemma wanted_mem: "wanted_ok w \<Longrightarrow> map_of (wq_queued w) h = None \<longleftrightarrow> h \<notin> set (wq_queue w)"
  by (auto simp: wanted_ok_def map_of_eq_None_iff)

lemma no_wanted_ok [simp]: "wanted_ok no_wanted"
  by (simp add: wanted_ok_def no_wanted_def)

lemma wanted_add_ok: "wanted_ok w \<Longrightarrow> h \<noteq> 0 \<Longrightarrow> wanted_ok (wanted_add h p w)"
  using wanted_mem [of w h] set_al_put_keys [of h p "wq_queued w"]
  by (auto simp: wanted_add_def wanted_ok_def distinct_al_put)

lemma wanted_del_ok:
  "wanted_ok w \<Longrightarrow> wq_queue w = h # q \<Longrightarrow> wanted_ok \<lparr>wq_queue = q, wq_queued = al_del h (wq_queued w)\<rparr>"
  using set_al_del_keys [of h "wq_queued w"] by (auto simp: wanted_ok_def distinct_al_del)

lemma wanted_pop_ok:
  assumes "wanted_ok w"
  shows "wq_queue w = [] \<Longrightarrow> wanted_pop (wq_queue w) (wq_queued w) = (None, w)"
    and "wq_queue w = h # q \<Longrightarrow> \<exists>p. map_of (wq_queued w) h = Some p \<and>
       wanted_pop (wq_queue w) (wq_queued w) = (Some (h, p), \<lparr>wq_queue = q, wq_queued = al_del h (wq_queued w)\<rparr>)"
  using wanted_mem [OF assms, of h] by auto

abbreviation pop_wanted :: "wanted \<Rightarrow> (hash \<times> string) option \<times> wanted" where
  "pop_wanted w \<equiv> wanted_pop (wq_queue w) (wq_queued w)"

interpretation fq: fetch_queue wanted_ok wq_queue "\<lambda>h. h \<noteq> 0" wanted_add pop_wanted
proof unfold_locales
  fix q :: wanted and h :: hash and p
  assume ok: "wanted_ok q"
  show "distinct (wq_queue q)" using ok by (simp add: wanted_ok_def)
  show "wq_queue (wanted_add h p q) = (if h \<in> set (wq_queue q) then wq_queue q else wq_queue q @ [h])"
    using wanted_mem [OF ok, of h] by (auto simp: wanted_add_def)
  show "wq_queue q = [] \<Longrightarrow> pop_wanted q = (None, q)" by (rule wanted_pop_ok(1) [OF ok])
  show "wanted_ok (snd (pop_wanted q))"
  proof (cases "wq_queue q")
    case (Cons h' q')
    from wanted_pop_ok(2) [OF ok Cons] wanted_del_ok [OF ok Cons] Cons show ?thesis by auto
  qed (use ok in \<open>simp add: wanted_ok_def\<close>)
next
  fix q :: wanted and h :: hash and hs
  assume ok: "wanted_ok q" and "wq_queue q = h # hs"
  from wanted_pop_ok(2) [OF this] show "\<exists>p q'. pop_wanted q = (Some (h, p), q') \<and> wq_queue q' = hs" by auto
qed (rule wanted_add_ok)

section \<open>The invariant\<close>

definition config_ok :: "sync_config \<Rightarrow> bool" where
  "config_ok c \<longleftrightarrow> 0 < sc_MaxInflightBlocks c \<and> 0 < sc_BlockRetryLimit c \<and> 0 < sc_HeaderRetryLimit c
     \<and> 0 < sc_BlocksBatchSize c \<and> 0 < sc_SyncTimeout c \<and> 0 < sc_BackoffDuration c \<and> 0 < sc_MaxHeaders c"

definition window_ok :: "syncer \<Rightarrow> bool" where
  "window_ok s \<longleftrightarrow> distinct (al_keys (sy_inflightBlocks s))
     \<and> int (length (sy_inflightBlocks s)) \<le> max_inflight s
     \<and> (\<forall>(h, r) \<in> set (sy_inflightBlocks s). h \<noteq> 0 \<and> ir_peer r \<noteq> '''' \<and> 1 \<le> ir_attempts r
          \<and> ir_attempts r \<le> sc_BlockRetryLimit (sy_cfg s))"

definition sync_inv :: "syncer \<Rightarrow> bool" where
  "sync_inv s \<longleftrightarrow> config_ok (sy_cfg s) \<and> window_ok s
     \<and> wanted_ok (sy_parent s) \<and> wanted_ok (sy_sync s) \<and> wanted_ok (sy_inv s)
     \<and> 0 \<le> sy_headerRetries s \<and> sy_headerRetries s < sc_HeaderRetryLimit (sy_cfg s)
     \<and> peers_good (sy_peers s)"

text \<open>
  What holds between any two critical sections: the count of failed header requests is compared with its
  limit only after the lock is released, so it may stand at the limit for a moment.
\<close>

definition core_inv :: "syncer \<Rightarrow> bool" where
  "core_inv s \<longleftrightarrow> config_ok (sy_cfg s) \<and> window_ok s
     \<and> wanted_ok (sy_parent s) \<and> wanted_ok (sy_sync s) \<and> wanted_ok (sy_inv s)
     \<and> 0 \<le> sy_headerRetries s \<and> peers_good (sy_peers s)"

lemma sync_core: "sync_inv s \<longleftrightarrow> core_inv s \<and> sy_headerRetries s < sc_HeaderRetryLimit (sy_cfg s)"
  by (auto simp: sync_inv_def core_inv_def)

lemma sync_coreD: "sync_inv s \<Longrightarrow> core_inv s"
  by (simp add: sync_core)

lemma NewSyncer_inv:
  assumes "peers_good m" shows "sync_inv (NewSyncer cfg (Some m))" "sync_inv (NewSyncer cfg None)"
  using assms NewManager_good
  by (simp_all add: sync_inv_def config_ok_def window_ok_def NewSyncer_def Let_def)

lemma best_peer_returns:
  assumes "sync_inv s" "fair_ranging (od_peers od)"
  obtains p where "best_peer od now s = Some p"
proof -
  have g: "peers_good (sy_peers s)" using assms(1) by (simp add: sync_inv_def)
  have "\<exists>r. BestPeer (od_peers od) now (sy_peers s) = Some r"
  proof (cases "\<forall>p \<in> peer_recs (sy_peers s). in_cooldown now p")
    case True
    then show ?thesis using BestPeer_none [OF g assms(2)] by blast
  next
    case False
    then show ?thesis using BestPeer_some [OF g assms(2)] by (metis)
  qed
  then show ?thesis using that by (auto simp: best_peer_def)
qed

lemma enqueueBlock_inv: "sync_inv s \<Longrightarrow> sync_inv (enqueueBlock bc h p kind s)"
  by (auto simp: enqueueBlock_def sync_inv_def window_ok_def wanted_add_ok split: req_kind.splits)

section \<open>What a dispatch does\<close>

text \<open>
  \<open>dispatched now bc s s' hs\<close>: from \<open>s\<close> to \<open>s'\<close> only the queues and the window have changed, the
  queues only lost hashes, and exactly the hashes \<open>hs\<close> have entered the window, each with one
  attempt and a fresh deadline; none was in flight, is zero or is stored.
\<close>

definition same_frame :: "syncer \<Rightarrow> syncer \<Rightarrow> bool" where
  "same_frame s s' \<longleftrightarrow> sy_cfg s' = sy_cfg s \<and> sy_syncPeer s' = sy_syncPeer s \<and> sy_state s' = sy_state s
     \<and> sy_headersCh s' = sy_headersCh s \<and> sy_peers s' = sy_peers s
     \<and> sy_headerReqInFlight s' = sy_headerReqInFlight s \<and> sy_headerRetries s' = sy_headerRetries s
     \<and> sy_backoffUntil s' = sy_backoffUntil s \<and> sy_inflightTx s' = sy_inflightTx s
     \<and> sy_metrics s' = sy_metrics s"

definition dispatched :: "gotime \<Rightarrow> blockchain \<Rightarrow> syncer \<Rightarrow> syncer \<Rightarrow> hash list \<Rightarrow> bool" where
  "dispatched now bc s s' hs \<longleftrightarrow>
     same_frame s s' \<and> distinct hs
     \<and> (\<forall>h \<in> set hs. h \<noteq> 0 \<and> \<not> HasBlock bc h \<and> map_of (sy_inflightBlocks s) h = None
          \<and> (\<exists>r. map_of (sy_inflightBlocks s') h = Some r \<and> ir_attempts r = 1
               \<and> ir_deadline r = now + sc_SyncTimeout (sy_cfg s)
               \<and> ir_peer r \<noteq> '''' \<and> ir_peer r \<noteq> self_id s))
     \<and> (\<forall>h. h \<notin> set hs \<longrightarrow> map_of (sy_inflightBlocks s') h = map_of (sy_inflightBlocks s) h)
     \<and> length (sy_inflightBlocks s') = length (sy_inflightBlocks s) + length hs"

lemma dispatched_queues:
  "dispatched now bc s (s\<lparr>sy_parent := p\<rparr>) []" "dispatched now bc s (s\<lparr>sy_sync := q\<rparr>) []"
  "dispatched now bc s (s\<lparr>sy_inv := r\<rparr>) []" "dispatched now bc s s []"
  by (simp_all add: dispatched_def same_frame_def)

lemma dispatched_fields:
  assumes "dispatched now bc s s' hs"
  shows "sy_cfg s' = sy_cfg s" "sy_syncPeer s' = sy_syncPeer s" "sy_state s' = sy_state s"
    "sy_headersCh s' = sy_headersCh s" "sy_peers s' = sy_peers s" "sy_headerReqInFlight s' = sy_headerReqInFlight s"
    "sy_headerRetries s' = sy_headerRetries s" "sy_backoffUntil s' = sy_backoffUntil s"
    "sy_inflightTx s' = sy_inflightTx s" "sy_metrics s' = sy_metrics s"
  using assms by (simp_all add: dispatched_def same_frame_def)

lemma dispatched_trans:
  assumes a: "dispatched now bc s s1 hs" and b: "dispatched now bc s1 s2 hs'"
  shows "dispatched now bc s s2 (hs @ hs')"
proof -
  have disj: "set hs \<inter> set hs' = {}" using a b by (fastforce simp: dispatched_def)
  have keep: "map_of (sy_inflightBlocks s2) h = map_of (sy_inflightBlocks s1) h" if "h \<in> set hs" for h
    using b disj that by (auto simp: dispatched_def)
  have "same_frame s s2" "sy_cfg s1 = sy_cfg s" using a b by (simp_all add: dispatched_def same_frame_def)
  moreover have "map_of (sy_inflightBlocks s) h = None" if "h \<in> set hs'" for h
    using a b that disj by (auto simp: dispatched_def)
  ultimately show ?thesis using a b disj keep unfolding dispatched_def by auto
qed

lemma track_dispatched:
  assumes "core_inv s" "int (length (sy_inflightBlocks s)) < max_inflight s"
    and "h \<noteq> 0" "\<not> HasBlock bc h" "\<not> is_inflight h s" "p \<noteq> ''''" "p \<noteq> self_id s"
  shows "core_inv (track now h p kind s)" "dispatched now bc s (track now h p kind s) [h]"
proof -
  let ?r = "\<lparr>ir_peer = p, ir_kind = kind, ir_attempts = 1, ir_deadline = now + sc_SyncTimeout (sy_cfg s)\<rparr>"
  have new: "h \<notin> set (al_keys (sy_inflightBlocks s))"
    using assms(5) by (simp add: is_inflight_def map_of_eq_None_iff)
  note len = length_al_put_new [OF new, of ?r]
  have "window_ok (track now h p kind s)"
    using assms len set_al_put_subset [of h ?r "sy_inflightBlocks s"]
    by (auto simp: core_inv_def config_ok_def window_ok_def track_def distinct_al_put)
  then show "core_inv (track now h p kind s)" using assms(1) by (simp add: core_inv_def track_def)
  show "dispatched now bc s (track now h p kind s) [h]"
    using assms(3-) len
    by (simp add: dispatched_def same_frame_def track_def map_of_al_put is_inflight_def)
qed

lemma popNext_cases:
  assumes "core_inv s"
  obtains (none) "popNextQueuedLocked s = (None, s)" "wq_queue (sy_parent s) = []"
      "wq_queue (sy_sync s) = []" "wq_queue (sy_inv s) = []"
  | (parent) h q p where "wq_queue (sy_parent s) = h # q"
      "popNextQueuedLocked s = (Some (h, p, BlkParent),
         s\<lparr>sy_parent := \<lparr>wq_queue = q, wq_queued = al_del h (wq_queued (sy_parent s))\<rparr>\<rparr>)"
  | (sync) h q p where "wq_queue (sy_parent s) = []" "wq_queue (sy_sync s) = h # q"
      "map_of (wq_queued (sy_sync s)) h = Some p"
      "popNextQueuedLocked s = (Some (h, p, BlkSync),
         s\<lparr>sy_sync := \<lparr>wq_queue = q, wq_queued = al_del h (wq_queued (sy_sync s))\<rparr>\<rparr>)"
  | (inv) h q p where "wq_queue (sy_parent s) = []" "wq_queue (sy_sync s) = []" "wq_queue (sy_inv s) = h # q"
      "popNextQueuedLocked s = (Some (h, p, BlkInv),
         s\<lparr>sy_inv := \<lparr>wq_queue = q, wq_queued = al_del h (wq_queued (sy_inv s))\<rparr>\<rparr>)"
proof -
  have ok: "wanted_ok (sy_parent s)" "wanted_ok (sy_sync s)" "wanted_ok (sy_inv s)"
    using assms by (auto simp: core_inv_def)
  note P = wanted_pop_ok [OF ok(1)] and S = wanted_pop_ok [OF ok(2)] and I = wanted_pop_ok [OF ok(3)]
  show thesis
  proof (cases "wq_queue (sy_parent s)")
    case (Cons h q)
    from P(2) [OF this] obtain p where "pop_wanted (sy_parent s)
        = (Some (h, p), \<lparr>wq_queue = q, wq_queued = al_del h (wq_queued (sy_parent s))\<rparr>)" by blast
    then show ?thesis using parent [OF Cons] by (simp add: popNextQueuedLocked_def)
  next
    case Nil
    note nil = Nil
    note p0 = P(1) [OF Nil]
    show ?thesis
    proof (cases "wq_queue (sy_sync s)")
      case (Cons h q)
      from S(2) [OF this] obtain p where p: "map_of (wq_queued (sy_sync s)) h = Some p" "pop_wanted (sy_sync s)
          = (Some (h, p), \<lparr>wq_queue = q, wq_queued = al_del h (wq_queued (sy_sync s))\<rparr>)" by blast
      then show ?thesis using sync [OF nil Cons p(1)] p0 by (simp add: popNextQueuedLocked_def)
    next
      case Nil
      note nil2 = Nil
      note s0 = S(1) [OF Nil]
      show ?thesis
      proof (cases "wq_queue (sy_inv s)")
        case (Cons h q)
        from I(2) [OF this] obtain p where "pop_wanted (sy_inv s)
            = (Some (h, p), \<lparr>wq_queue = q, wq_queued = al_del h (wq_queued (sy_inv s))\<rparr>)" by blast
        then show ?thesis using inv [OF nil nil2 Cons] p0 s0 by (simp add: popNextQueuedLocked_def)
      next
        case Nil
        then show ?thesis using none [OF _ nil nil2 Nil] p0 s0 I(1) by (simp add: popNextQueuedLocked_def)
      qed
    qed
  qed
qed


lemma pop_inv_dispatched:
  assumes "core_inv s" "popNextQueuedLocked s = (Some x, s')"
  shows "core_inv s'" "dispatched now bc s s' []" "sy_inflightBlocks s' = sy_inflightBlocks s"
  using assms
proof (atomize (full), cases rule: popNext_cases [OF assms(1)])
  case (2 h q p)
  then show "core_inv s' \<and> dispatched now bc s s' [] \<and> sy_inflightBlocks s' = sy_inflightBlocks s"
    using assms wanted_del_ok [of "sy_parent s" h q]
    by (auto simp: core_inv_def window_ok_def dispatched_queues)
next
  case (3 h q p)
  then show "core_inv s' \<and> dispatched now bc s s' [] \<and> sy_inflightBlocks s' = sy_inflightBlocks s"
    using assms wanted_del_ok [of "sy_sync s" h q]
    by (auto simp: core_inv_def window_ok_def dispatched_queues)
next
  case (4 h q p)
  then show "core_inv s' \<and> dispatched now bc s s' [] \<and> sy_inflightBlocks s' = sy_inflightBlocks s"
    using assms wanted_del_ok [of "sy_inv s" h q]
    by (auto simp: core_inv_def window_ok_def dispatched_queues)
qed simp

lemma pop_not_zero:
  assumes "core_inv s" "popNextQueuedLocked s = (Some (h, p, kind), s')" shows "h \<noteq> 0"
  using assms by (cases rule: popNext_cases [OF assms(1)]) (auto simp: core_inv_def wanted_ok_def)

lemma put_back_ok:
  assumes "core_inv s" "popNextQueuedLocked s = (Some (h, p, BlkSync), s1)"
  shows "core_inv (put_back_sync h p s1) \<and> dispatched now bc s (put_back_sync h p s1) []
    \<and> wq_queue (sy_parent (put_back_sync h p s1)) = []
    \<and> wq_queue (sy_sync (put_back_sync h p s1)) = wq_queue (sy_sync s)
    \<and> sy_inv (put_back_sync h p s1) = sy_inv s"
proof (cases rule: popNext_cases [OF assms(1)])
  case (3 h' q p')
  have ok: "wanted_ok (sy_sync s)" using assms(1) by (simp add: core_inv_def)
  have "wanted_ok \<lparr>wq_queue = h' # q, wq_queued = al_put h' p' (al_del h' (wq_queued (sy_sync s)))\<rparr>"
    using ok 3(2) set_al_put_keys [of h' p' "al_del h' (wq_queued (sy_sync s))"]
      set_al_del_keys [of h' "wq_queued (sy_sync s)"]
    by (auto simp: wanted_ok_def distinct_al_put distinct_al_del)
  then show ?thesis
    using 3 assms by (auto simp: put_back_sync_def core_inv_def window_ok_def dispatched_queues)
qed (use assms in simp_all)

section \<open>The three loops\<close>

text \<open>A single popped hash.\<close>

lemma admit_ok:
  assumes "core_inv s" "int (length (sy_inflightBlocks s)) < max_inflight s" "h \<noteq> 0"
    and "admit now bc best h p kind (s, sends) = (s', sends')"
  shows "core_inv s' \<and> (\<exists>new. sends' = sends @ new \<and> dispatched now bc s s' (map snd new))
     \<and> sy_parent s' = sy_parent s \<and> sy_sync s' = sy_sync s \<and> sy_inv s' = sy_inv s"
proof -
  let ?p = "if p = '''' then best else p"
  have q: "sy_parent s' = sy_parent s" "sy_sync s' = sy_sync s" "sy_inv s' = sy_inv s"
    using assms(4) by (auto simp: admit_def Let_def track_def split: if_splits)
  consider "s' = s" "sends' = sends"
    | "\<not> HasBlock bc h" "\<not> is_inflight h s" "?p \<noteq> ''''" "?p \<noteq> self_id s" "s' = track now h ?p kind s"
      "sends' = sends @ [(?p, h)]"
    using assms(4) unfolding admit_def Let_def prod.case by (metis prod.inject)
  then show ?thesis
  proof cases
    case 1
    then show ?thesis using assms(1) dispatched_queues(4) q by auto
  next
    case 2
    from track_dispatched [OF assms(1,2,3) 2(1,2,3,4), of now kind] 2(5,6) q show ?thesis by auto
  qed
qed

lemma dispatch_front_ok:
  assumes "core_inv s" "dispatch_front now bc best (s, sends) = (s', sends')"
  shows "core_inv s' \<and> (\<exists>new. sends' = sends @ new \<and> dispatched now bc s s' (map snd new))
     \<and> (max_inflight s' \<le> int (length (sy_inflightBlocks s')) \<or> wq_queue (sy_parent s') = [])"
  using assms
proof (induction now bc best "(s, sends)" arbitrary: s sends rule: dispatch_front.induct)
  case (1 now bc best s sends)
  note unf = dispatch_front.simps [of now bc best s sends]
  show ?case
  proof (cases "int (length (sy_inflightBlocks s)) < max_inflight s")
    case False
    then show ?thesis using "1.prems" dispatched_queues(4) by (auto simp: unf)
  next
    case room: True
    obtain r s1 where pop: "popNextQueuedLocked s = (r, s1)" by fastforce
    show ?thesis
    proof (cases r)
      case None
      then have "s1 = s \<and> wq_queue (sy_parent s) = []"
        using pop by (cases rule: popNext_cases [OF "1.prems"(1)]) auto
      then show ?thesis using "1.prems" room pop None dispatched_queues(4) by (auto simp: unf)
    next
      case (Some x)
      obtain h p kind where x: "x = (h, p, kind)" by (cases x)
      note pop' = pop [unfolded Some x]
      note inv1 = pop_inv_dispatched(1) [OF "1.prems"(1) pop'] pop_inv_dispatched(2) [OF "1.prems"(1) pop', of now bc]
        pop_inv_dispatched(3) [OF "1.prems"(1) pop']
      have h: "h \<noteq> 0" by (rule pop_not_zero [OF "1.prems"(1) pop'])
      show ?thesis
      proof (cases "kind = BlkSync")
        case True
        then have "s' = put_back_sync h p s1" "sends' = sends"
          using "1.prems"(2) room pop' by (auto simp: unf)
        then show ?thesis using put_back_ok [OF "1.prems"(1)] pop' True by auto
      next
        case kind: False
        obtain s2 sends2 where a: "admit now bc best h p kind (s1, sends) = (s2, sends2)" by fastforce
        have "int (length (sy_inflightBlocks s1)) < max_inflight s1"
          using room inv1(3) dispatched_fields(1) [OF inv1(2)] by simp
        from admit_ok [OF inv1(1) this h a] obtain new where
          A: "core_inv s2" "sends2 = sends @ new" "dispatched now bc s1 s2 (map snd new)" by blast
        have "dispatch_front now bc best (s2, sends2) = (s', sends')"
          using "1.prems"(2) room pop' kind a by (simp add: unf)
        from "1.hyps" [OF room pop' [symmetric] refl refl refl kind a A(1) this]
        show ?thesis using dispatched_trans [OF inv1(2) dispatched_trans [OF A(3)]] A(2) by fastforce
      qed
    qed
  qed
qed

lemma take_batch_ok:
  assumes "core_inv s" "p \<noteq> ''''" "p \<noteq> self_id s"
    and "int (length (sy_inflightBlocks s)) + int n \<le> max_inflight s"
    and "take_batch now bc p n s hashes = (s', hashes')"
  shows "core_inv s' \<and> (\<exists>new. hashes' = hashes @ new \<and> dispatched now bc s s' new \<and> length new \<le> n)
     \<and> sy_parent s' = sy_parent s \<and> sy_inv s' = sy_inv s"
  using assms
proof (induction n arbitrary: s hashes)
  case 0
  then show ?case using dispatched_queues(4) by auto
next
  case (Suc n)
  show ?case
  proof (cases "wq_queue (sy_sync s)")
    case Nil
    then show ?thesis using Suc.prems dispatched_queues(4) by auto
  next
    case (Cons h q)
    let ?s = "s\<lparr>sy_sync := \<lparr>wq_queue = q, wq_queued = al_del h (wq_queued (sy_sync s))\<rparr>\<rparr>"
    have ok: "wanted_ok (sy_sync s)" using Suc.prems(1) by (simp add: core_inv_def)
    have inv: "core_inv ?s"
      using Suc.prems(1) wanted_del_ok [OF ok Cons] by (simp add: core_inv_def window_ok_def)
    have h: "h \<noteq> 0" using ok Cons by (auto simp: wanted_ok_def)
    have d: "dispatched now bc s ?s []" by (rule dispatched_queues)
    show ?thesis
    proof (cases "HasBlock bc h \<or> is_inflight h ?s")
      case True
      then have "take_batch now bc p n ?s hashes = (s', hashes')"
        using Suc.prems(5) Cons h by (auto simp: Let_def split: if_splits)
      from Suc.IH [OF inv _ _ _ this] obtain new where
        "core_inv s'" "hashes' = hashes @ new" "dispatched now bc ?s s' new" "length new \<le> n"
        "sy_parent s' = sy_parent s" "sy_inv s' = sy_inv s"
        using Suc.prems(2,3,4) by auto
      then show ?thesis using dispatched_trans [OF d, of s' new] by auto
    next
      case False
      then have tb: "take_batch now bc p n (track now h p BlkSync ?s) (hashes @ [h]) = (s', hashes')"
        using Suc.prems(5) Cons h by (auto simp: Let_def)
      have room: "int (length (sy_inflightBlocks ?s)) < max_inflight ?s" using Suc.prems(4) by simp
      note T = track_dispatched [OF inv room h, of bc p now BlkSync]
      have inv2: "core_inv (track now h p BlkSync ?s)" and d2: "dispatched now bc ?s (track now h p BlkSync ?s) [h]"
        using T False Suc.prems(2,3) by auto
      have len: "length (sy_inflightBlocks (track now h p BlkSync ?s)) = Suc (length (sy_inflightBlocks s))"
        using d2 by (simp add: dispatched_def)
      have "self_id (track now h p BlkSync ?s) = self_id s" "max_inflight (track now h p BlkSync ?s) = max_inflight s"
        by (simp_all add: track_def)
      with Suc.IH [OF inv2 _ _ _ tb] len obtain new where
        N: "core_inv s'" "hashes' = (hashes @ [h]) @ new" "dispatched now bc (track now h p BlkSync ?s) s' new"
        "length new \<le> n" "sy_parent s' = sy_parent s" "sy_inv s' = sy_inv s"
        using Suc.prems(2,3,4) by (auto simp: track_def)
      from dispatched_trans [OF d dispatched_trans [OF d2 N(3)]] have "dispatched now bc s s' (h # new)" by simp
      with N show ?thesis by auto
    qed
  qed
qed

lemma batch_size_bounds:
  assumes "core_inv s" "int (length (sy_inflightBlocks s)) < max_inflight s" "wq_queue (sy_sync s) \<noteq> []"
  shows "0 < batch_size s" "int (length (sy_inflightBlocks s)) + batch_size s \<le> max_inflight s"
    "batch_size s \<le> sc_BlocksBatchSize (sy_cfg s)"
  using assms by (auto simp: batch_size_def Let_def core_inv_def config_ok_def)

lemma dispatch_sync_ok:
  assumes "core_inv s" "dispatch_sync now bc p s batches = (s', batches')"
  shows "core_inv s' \<and> (\<exists>new. batches' = batches @ new \<and> dispatched now bc s s' (concat (map snd new))
       \<and> (\<forall>b \<in> set new. fst b = p \<and> snd b \<noteq> [] \<and> int (length (snd b)) \<le> sc_BlocksBatchSize (sy_cfg s)))
     \<and> sy_parent s' = sy_parent s \<and> sy_inv s' = sy_inv s
     \<and> (max_inflight s' \<le> int (length (sy_inflightBlocks s')) \<or> wq_queue (sy_sync s') = []
          \<or> p = '''' \<or> p = self_id s)"
  using assms
proof (induction now bc p s batches rule: dispatch_sync.induct)
  case (1 now bc p s batches)
  note unf = dispatch_sync.simps [of now bc p s batches]
  show ?case
  proof (cases "int (length (sy_inflightBlocks s)) < max_inflight s \<and> length (wq_queue (sy_sync s)) > 0")
    case False
    then show ?thesis using "1.prems" dispatched_queues(4) by (auto simp: unf)
  next
    case room: True
    then have r: "int (length (sy_inflightBlocks s)) < max_inflight s" "wq_queue (sy_sync s) \<noteq> []" by auto
    note B = batch_size_bounds [OF "1.prems"(1) r]
    show ?thesis
    proof (cases "p = '''' \<or> p = self_id s")
      case True
      then show ?thesis using "1.prems" room B(1) dispatched_queues(4) by (auto simp: unf Let_def)
    next
      case p: False
      obtain s1 hashes where tb: "take_batch now bc p (nat (batch_size s)) s [] = (s1, hashes)" by fastforce
      let ?b = "if hashes \<noteq> [] then batches @ [(p, hashes)] else batches"
      have rec: "dispatch_sync now bc p s1 ?b = (s', batches')"
        using "1.prems"(2) room B(1) p tb by (auto simp: unf Let_def)
      from take_batch_ok [OF "1.prems"(1) _ _ _ tb] p B(1,2) have
        T: "core_inv s1" "dispatched now bc s s1 hashes" "length hashes \<le> nat (batch_size s)"
          "sy_parent s1 = sy_parent s" "sy_inv s1 = sy_inv s" by auto
      have cfg: "sy_cfg s1 = sy_cfg s" by (rule dispatched_fields(1) [OF T(2)])
      from "1.IH" [OF room refl _ p tb [symmetric] T(1) rec] B(1) obtain new where
        N: "core_inv s'" "batches' = ?b @ new" "dispatched now bc s1 s' (concat (map snd new))"
          "\<forall>b \<in> set new. fst b = p \<and> snd b \<noteq> [] \<and> int (length (snd b)) \<le> sc_BlocksBatchSize (sy_cfg s)"
          "sy_parent s' = sy_parent s" "sy_inv s' = sy_inv s"
          "max_inflight s' \<le> int (length (sy_inflightBlocks s')) \<or> wq_queue (sy_sync s') = []
            \<or> p = '''' \<or> p = self_id s"
        using T(4,5) cfg by auto
      have d: "dispatched now bc s s' (hashes @ concat (map snd new))" by (rule dispatched_trans [OF T(2) N(3)])
      have "\<exists>nw. batches' = batches @ nw \<and> concat (map snd nw) = hashes @ concat (map snd new)
          \<and> (\<forall>b \<in> set nw. fst b = p \<and> snd b \<noteq> [] \<and> int (length (snd b)) \<le> sc_BlocksBatchSize (sy_cfg s))"
      proof (cases "hashes = []")
        case True
        then show ?thesis using N by auto
      next
        case False
        then show ?thesis using N(2,4) T(3) B by (intro exI [of _ "(p, hashes) # new"]) auto
      qed
      then show ?thesis using N(1,5,6,7) d by auto
    qed
  qed
qed

lemma dispatch_inv_ok:
  assumes "core_inv s" "dispatch_inv now bc best (s, sends) = (s', sends')"
  shows "core_inv s' \<and> (\<exists>new. sends' = sends @ new \<and> dispatched now bc s s' (map snd new))
     \<and> sy_parent s' = sy_parent s \<and> sy_sync s' = sy_sync s
     \<and> (max_inflight s' \<le> int (length (sy_inflightBlocks s')) \<or> wq_queue (sy_inv s') = [])"
  using assms
proof (induction now bc best "(s, sends)" arbitrary: s sends rule: dispatch_inv.induct)
  case (1 now bc best s sends)
  note unf = dispatch_inv.simps [of now bc best s sends]
  show ?case
  proof (cases "int (length (sy_inflightBlocks s)) < max_inflight s \<and> wq_queue (sy_inv s) \<noteq> []")
    case False
    then show ?thesis using "1.prems" dispatched_queues(4) by (auto simp: unf split: list.splits)
  next
    case True
    then obtain h q where room: "int (length (sy_inflightBlocks s)) < max_inflight s" and
      Cons: "wq_queue (sy_inv s) = h # q" by (cases "wq_queue (sy_inv s)") auto
    let ?p = "go_get '''' (map_of (wq_queued (sy_inv s))) h"
    let ?s = "s\<lparr>sy_inv := \<lparr>wq_queue = q, wq_queued = al_del h (wq_queued (sy_inv s))\<rparr>\<rparr>"
    have ok: "wanted_ok (sy_inv s)" using "1.prems"(1) by (simp add: core_inv_def)
    have inv: "core_inv ?s"
      using "1.prems"(1) wanted_del_ok [OF ok Cons] by (simp add: core_inv_def window_ok_def)
    have h: "h \<noteq> 0" using ok Cons by (auto simp: wanted_ok_def)
    have d: "dispatched now bc s ?s []" by (rule dispatched_queues)
    obtain s2 sends2 where a: "admit now bc best h ?p BlkInv (?s, sends) = (s2, sends2)" by fastforce
    from admit_ok [OF inv _ h a] room obtain new where
      A: "core_inv s2" "sends2 = sends @ new" "dispatched now bc ?s s2 (map snd new)"
        "sy_parent s2 = sy_parent s" "sy_sync s2 = sy_sync s" by auto
    have rec: "dispatch_inv now bc best (s2, sends2) = (s', sends')"
      using "1.prems"(2) room Cons h a by (simp add: unf Let_def)
    have e: "(if IsZero h then (?s, sends) else admit now bc best h ?p BlkInv (?s, sends)) = (s2, sends2)"
      using h a by simp
    from "1.hyps" [OF room Cons refl refl e A(1) rec] show ?thesis
      using dispatched_trans [OF d dispatched_trans [OF A(3)]] A(2,4,5) by fastforce
  qed
qed

text \<open>
  The whole of \<^verbatim>\<open>dispatchQueuedBlocks\<close>: it returns, the requests sent are for exactly the hashes that
  entered the window, and afterwards the window is full or the queues are empty (the sync queue may
  wait for want of a peer to ask).
\<close>

fun requested :: "effect \<Rightarrow> hash list" where
  "requested (Send p m) =
     (case msg_Payload m of GetBlockPayload h \<Rightarrow> [h] | GetBlocksPayload hs \<Rightarrow> hs | _ \<Rightarrow> [])"
| "requested _ = []"

definition window_full :: "syncer \<Rightarrow> bool" where
  "window_full s \<longleftrightarrow> max_inflight s \<le> int (length (sy_inflightBlocks s))"

lemma requested_single: "concat (map requested (map (get_block_effect now s) xs)) = map snd xs"
  by (induction xs) (auto simp: get_block_effect_def direct_message_def)

lemma requested_batches:
  "sc_Transport (sy_cfg s) \<Longrightarrow> \<forall>b \<in> set bs. fst b \<noteq> '''' \<and> fst b \<noteq> self_id s \<and> snd b \<noteq> [] \<Longrightarrow>
   concat (map requested (concat (map (sendGetBlocks now s) bs))) = concat (map snd bs)"
  by (induction bs) (auto simp: sendGetBlocks_def direct_message_def)

lemma dispatch_ok:
  assumes inv: "sync_inv s" and fair: "fair_ranging (od_peers od)"
  obtains s' es new best where "dispatchQueuedBlocks od bc now s = Some (s', es)"
    "sync_inv s'" "dispatched now bc s s' new" "mset (concat (map requested es)) = mset new"
    "best_peer od now s = Some best"
    "sc_Transport (sy_cfg s) \<and> sc_Chain (sy_cfg s) \<Longrightarrow>
       window_full s' \<or> (wq_queue (sy_parent s') = [] \<and> wq_queue (sy_inv s') = []
         \<and> (wq_queue (sy_sync s') = [] \<or> (let p = (if sy_syncPeer s = '''' then best else sy_syncPeer s)
              in p = '''' \<or> p = self_id s)))"
    "\<forall>e \<in> set es. \<exists>p m. e = Send p m \<and> int (length (requested e)) \<le> max 1 (sc_BlocksBatchSize (sy_cfg s))"
proof -
  obtain best where best: "best_peer od now s = Some best" by (rule best_peer_returns [OF inv fair])
  show thesis
  proof (cases "sc_Transport (sy_cfg s) \<and> sc_Chain (sy_cfg s)")
    case False
    then show ?thesis
      by (intro that [of s "[]" "[]", OF _ inv dispatched_queues(4) _ best]) (auto simp: dispatchQueuedBlocks_def)
  next
    case True
    let ?p = "if sy_syncPeer s = '''' then best else sy_syncPeer s"
    obtain s1 sends1 where f: "dispatch_front now bc best (s, []) = (s1, sends1)" by fastforce
    from dispatch_front_ok [OF sync_coreD [OF inv] f] have F: "core_inv s1" "dispatched now bc s s1 (map snd sends1)"
      "max_inflight s1 \<le> int (length (sy_inflightBlocks s1)) \<or> wq_queue (sy_parent s1) = []" by auto
    have p1: "sy_syncPeer s1 = sy_syncPeer s" "sy_cfg s1 = sy_cfg s" using dispatched_fields [OF F(2)] by auto
    obtain s2 batches where g: "dispatch_sync now bc ?p s1 [] = (s2, batches)" by fastforce
    from dispatch_sync_ok [OF F(1) g] have G: "core_inv s2" "dispatched now bc s1 s2 (concat (map snd batches))"
        "\<forall>b \<in> set batches. fst b = ?p \<and> snd b \<noteq> [] \<and> int (length (snd b)) \<le> sc_BlocksBatchSize (sy_cfg s)"
        "sy_parent s2 = sy_parent s1" "sy_inv s2 = sy_inv s1"
        "max_inflight s2 \<le> int (length (sy_inflightBlocks s2)) \<or> wq_queue (sy_sync s2) = []
          \<or> ?p = '''' \<or> ?p = self_id s" using p1(2) by auto
    have usable: "batches \<noteq> [] \<Longrightarrow> ?p \<noteq> '''' \<and> ?p \<noteq> self_id s"
      using g p1 by (auto simp: dispatch_sync.simps [of now bc _ s1] Let_def split: if_splits)
    obtain s3 sends3 where i: "dispatch_inv now bc best (s2, sends1) = (s3, sends3)" by fastforce
    from dispatch_inv_ok [OF G(1) i] obtain new3 where I: "core_inv s3" "sends3 = sends1 @ new3"
        "dispatched now bc s2 s3 (map snd new3)" "sy_parent s3 = sy_parent s2" "sy_sync s3 = sy_sync s2"
        "max_inflight s3 \<le> int (length (sy_inflightBlocks s3)) \<or> wq_queue (sy_inv s3) = []" by auto
    let ?es = "map (get_block_effect now s3) sends3 @ concat (map (sendGetBlocks now s3) batches)"
    have res: "dispatchQueuedBlocks od bc now s = Some (s3, ?es)"
      unfolding dispatchQueuedBlocks_def using True best
      by (simp add: f p1 g i cong: if_cong split del: if_split)
    have d: "dispatched now bc s s3 (map snd sends1 @ (concat (map snd batches) @ map snd new3))"
      by (rule dispatched_trans [OF F(2) dispatched_trans [OF G(2) I(3)]])
    have cfg: "sy_cfg s3 = sy_cfg s" by (rule dispatched_fields(1) [OF d])
    have inv3: "sync_inv s3" using I(1) inv cfg dispatched_fields(7) [OF d] by (simp add: sync_core)
    have b: "\<forall>b \<in> set batches. fst b \<noteq> '''' \<and> fst b \<noteq> self_id s3 \<and> snd b \<noteq> []"
      using G(3) usable cfg by (metis empty_iff empty_set)
    have req: "concat (map requested ?es) = map snd sends3 @ concat (map snd batches)"
      using requested_batches [OF _ b, of now] requested_single [of now s3] True cfg
      unfolding map_append concat_append by simp
    have grow: "length (sy_inflightBlocks s1) \<le> length (sy_inflightBlocks s2)"
        "length (sy_inflightBlocks s2) \<le> length (sy_inflightBlocks s3)"
      using G(2) I(3) by (simp_all add: dispatched_def)
    have full: "window_full s3 \<or> (wq_queue (sy_parent s3) = [] \<and> wq_queue (sy_inv s3) = []
         \<and> (wq_queue (sy_sync s3) = [] \<or> ?p = '''' \<or> ?p = self_id s))"
      using F(3) G(4,6) I(4,5,6) grow cfg p1 dispatched_fields(1) [OF G(2)] by (auto simp: window_full_def)
    have eff: "\<forall>e \<in> set ?es. \<exists>p m. e = Send p m \<and> int (length (requested e)) \<le> max 1 (sc_BlocksBatchSize (sy_cfg s))"
      using G(3) by (auto simp: get_block_effect_def direct_message_def sendGetBlocks_def)
    show ?thesis
      by (rule that [OF res inv3 d _ best _ eff]) (use req I(2) full in \<open>auto simp: Let_def ac_simps\<close>)
  qed
qed

section \<open>The other operations\<close>

text \<open>A window that only lost requests, or only changed requests within the bounds, is still a window.\<close>

lemma window_sub:
  assumes "window_ok s" "sy_cfg s' = sy_cfg s" "distinct (al_keys (sy_inflightBlocks s'))"
    and "\<And>h r. map_of (sy_inflightBlocks s') h = Some r \<Longrightarrow> \<exists>r0. map_of (sy_inflightBlocks s) h = Some r0
       \<and> ir_peer r \<noteq> '''' \<and> 1 \<le> ir_attempts r \<and> ir_attempts r \<le> sc_BlockRetryLimit (sy_cfg s)"
  shows "window_ok s'"
proof -
  have sub: "set (al_keys (sy_inflightBlocks s')) \<subseteq> set (al_keys (sy_inflightBlocks s))"
    using assms(4) by (fastforce simp: dom_map_of_conv_image_fst [symmetric])
  have "length (sy_inflightBlocks s') = card (set (al_keys (sy_inflightBlocks s')))"
    using distinct_card [OF assms(3)] by simp
  also have "\<dots> \<le> card (set (al_keys (sy_inflightBlocks s)))" using sub by (intro card_mono) auto
  also have "\<dots> \<le> length (sy_inflightBlocks s)" using card_length [of "al_keys (sy_inflightBlocks s)"] by simp
  finally have len: "length (sy_inflightBlocks s') \<le> length (sy_inflightBlocks s)" .
  have "h \<noteq> 0 \<and> ir_peer r \<noteq> '''' \<and> 1 \<le> ir_attempts r \<and> ir_attempts r \<le> sc_BlockRetryLimit (sy_cfg s)"
    if "(h, r) \<in> set (sy_inflightBlocks s')" for h r
  proof -
    have "map_of (sy_inflightBlocks s') h = Some r" using that assms(3) by simp
    from assms(4) [OF this] obtain r0 where "map_of (sy_inflightBlocks s) h = Some r0"
      "ir_peer r \<noteq> ''''" "1 \<le> ir_attempts r" "ir_attempts r \<le> sc_BlockRetryLimit (sy_cfg s)" by blast
    then show ?thesis using assms(1) map_of_SomeD [of "sy_inflightBlocks s" h r0] by (auto simp: window_ok_def)
  qed
  then show ?thesis using assms(1,2,3) len by (auto simp: window_ok_def)
qed

lemma window_fields:
  "window_ok s \<Longrightarrow> map_of (sy_inflightBlocks s) h = Some r \<Longrightarrow> h \<noteq> 0 \<and> ir_peer r \<noteq> '''' \<and> 1 \<le> ir_attempts r
     \<and> ir_attempts r \<le> sc_BlockRetryLimit (sy_cfg s)"
  by (auto simp: window_ok_def dest!: map_of_SomeD)

lemma window_arrived:
  assumes "window_ok s"
  shows "window_ok (s\<lparr>sy_inflightBlocks := al_del h (sy_inflightBlocks s)\<rparr>)"
proof (rule window_sub [OF assms])
  fix k r
  assume "map_of (sy_inflightBlocks (s\<lparr>sy_inflightBlocks := al_del h (sy_inflightBlocks s)\<rparr>)) k = Some r"
  then have m: "map_of (sy_inflightBlocks s) k = Some r" by (simp add: map_of_al_del split: if_splits)
  then show "\<exists>r0. map_of (sy_inflightBlocks s) k = Some r0
     \<and> ir_peer r \<noteq> '''' \<and> 1 \<le> ir_attempts r \<and> ir_attempts r \<le> sc_BlockRetryLimit (sy_cfg s)"
    using window_fields [OF assms m] by simp
qed (use assms in \<open>simp_all add: window_ok_def distinct_al_del\<close>)

lemma onBlockArrived_inv [inv_intro]: "sync_inv s \<Longrightarrow> sync_inv (onBlockArrived h s)"
  using window_arrived [of s h] by (simp add: sync_inv_def onBlockArrived_def)

lemma record_answer_inv [inv_intro]: "sync_inv s \<Longrightarrow> sync_inv (record_answer now h p s)"
  by (auto simp: record_answer_def sync_inv_def window_ok_def Let_def split: option.splits)

lemma map_of_filter_key:
  "distinct (al_keys xs) \<Longrightarrow> map_of (filter (\<lambda>(k, v). P v) xs) k = (case map_of xs k of Some v \<Rightarrow> if P v then Some v else None | None \<Rightarrow> None)"
proof (induction xs)
  case (Cons x xs)
  then have "map_of xs (fst x) = None" by (cases x) (auto simp: map_of_eq_None_iff)
  then show ?case using Cons by (cases x) (auto split: option.splits)
qed simp

lemma drop_sync_work_inflight:
  "window_ok s \<Longrightarrow> map_of (sy_inflightBlocks (drop_sync_work s)) h =
     (case map_of (sy_inflightBlocks s) h of Some r \<Rightarrow> if ir_kind r \<noteq> BlkSync then Some r else None | None \<Rightarrow> None)"
  using map_of_filter_key [of "sy_inflightBlocks s" "\<lambda>r. ir_kind r \<noteq> BlkSync" h]
  by (simp add: drop_sync_work_def window_ok_def)

lemma drop_sync_work_window:
  assumes "window_ok s" shows "window_ok (drop_sync_work s)"
proof (rule window_sub [OF assms])
  fix k r
  assume "map_of (sy_inflightBlocks (drop_sync_work s)) k = Some r"
  then have m: "map_of (sy_inflightBlocks s) k = Some r"
    unfolding drop_sync_work_inflight [OF assms] by (simp split: option.splits if_splits)
  then show "\<exists>r0. map_of (sy_inflightBlocks s) k = Some r0
     \<and> ir_peer r \<noteq> '''' \<and> 1 \<le> ir_attempts r \<and> ir_attempts r \<le> sc_BlockRetryLimit (sy_cfg s)"
    using window_fields [OF assms m] by simp
qed (use assms in \<open>simp_all add: drop_sync_work_def window_ok_def distinct_map_filter\<close>)

lemma window_frame:
  "sy_cfg s' = sy_cfg s \<Longrightarrow> sy_inflightBlocks s' = sy_inflightBlocks s \<Longrightarrow> window_ok s \<Longrightarrow> window_ok s'"
  by (simp add: window_ok_def)

lemma drop_sync_work_fields [simp]:
  "sy_cfg (drop_sync_work s) = sy_cfg s" "sy_state (drop_sync_work s) = sy_state s"
  "sy_syncPeer (drop_sync_work s) = sy_syncPeer s" "sy_peers (drop_sync_work s) = sy_peers s"
  "sy_headerRetries (drop_sync_work s) = sy_headerRetries s" "sy_parent (drop_sync_work s) = sy_parent s"
  "sy_inv (drop_sync_work s) = sy_inv s" "sy_sync (drop_sync_work s) = no_wanted"
  "sy_headersCh (drop_sync_work s) = sy_headersCh s"
  "sy_backoffUntil (drop_sync_work s) = sy_backoffUntil s"
  "sy_headerReqInFlight (drop_sync_work s) = sy_headerReqInFlight s"
  by (simp_all add: drop_sync_work_def)

lemma reset_inv [inv_intro]:
  assumes "sync_inv s" shows "sync_inv (enterBackoff now s)" "sync_inv (resetSyncState s)"
  using assms unfolding enterBackoff_def resetSyncState_def sync_inv_def
  by (auto intro!: drop_sync_work_window elim!: window_frame [rotated 2] simp: config_ok_def)

lemma peers_good_report: "peers_good m \<Longrightarrow> peers_good (ReportTimeout now i m)"
  using peers_good_run [of now m now "reportFailure now i True m"] peer_run.fail [OF peer_run.stay]
  by (simp add: ReportTimeout_def)

lemma peers_good_reports: "peers_good m \<Longrightarrow> peers_good (fold (ReportTimeout now) is m)"
  by (induction "is" arbitrary: m) (auto intro: peers_good_report)

lemma peers_good_upserts: "peers_good m \<Longrightarrow> peers_good (fold Upsert is m)"
proof (induction "is" arbitrary: m)
  case (Cons i "is")
  then show ?case using peers_good_run [of 0 m 0 "Upsert i m"] peer_run.upsert [OF peer_run.stay] by simp
qed simp

lemma peers_good_tip: "peers_good m \<Longrightarrow> 0 \<le> rtt \<Longrightarrow> peers_good (UpdateTip now i h t w rtt m)"
  using peers_good_run [of now m now "UpdateTip now i h t w rtt m"] peer_run.tip [OF peer_run.stay] by simp

lemma queue_metas_inv:
  assumes "sync_inv s" shows "sync_inv (fst (queue_metas bc p ms s q))"
  using assms by (induction bc p ms s q rule: queue_metas.induct) (auto intro: enqueueBlock_inv)

lemma same_frame_refl [simp]: "same_frame s s"
  by (simp add: same_frame_def)

lemma same_frame_trans: "same_frame s s1 \<Longrightarrow> same_frame s1 s2 \<Longrightarrow> same_frame s s2"
  by (simp add: same_frame_def)

lemma enqueueBlock_frame:
  "same_frame s (enqueueBlock bc h p k s)" "sy_inflightBlocks (enqueueBlock bc h p k s) = sy_inflightBlocks s"
  by (auto simp: enqueueBlock_def same_frame_def split: req_kind.split)

lemma queue_metas_frame:
  "queue_metas bc p ms s q = (s', q') \<Longrightarrow> same_frame s s' \<and> sy_inflightBlocks s' = sy_inflightBlocks s"
proof (induction bc p ms s q arbitrary: s' q' rule: queue_metas.induct)
  case (2 bc p m ms s q)
  consider "queue_metas bc p ms s q = (s', q')" "IsZero (bm_Hash m) \<or> sc_Chain (sy_cfg s) \<and> HasBlock bc (bm_Hash m)"
    | "queue_metas bc p ms (enqueueBlock bc (bm_Hash m) p BlkSync s) True = (s', q')"
      "\<not> IsZero (bm_Hash m)" "\<not> (sc_Chain (sy_cfg s) \<and> HasBlock bc (bm_Hash m))"
    using "2.prems" by (auto split: if_splits)
  then show ?case
  proof cases
    case 1
    then show ?thesis using "2.IH"(1,2) by blast
  next
    case 2
    from "2.IH"(3) [OF 2(2,3,1)] show ?thesis
      using same_frame_trans [OF enqueueBlock_frame(1)] enqueueBlock_frame(2) by metis
  qed
qed simp

lemma header_result_ok:
  assumes inv: "sync_inv s" and fair: "fair_ranging (od_peers od)"
  shows "\<exists>s' es. header_result od bc now r s = Some (s', es) \<and> sync_inv s'"
proof (cases "hr_ok r")
  case False
  let ?s = "s\<lparr>sy_headerReqInFlight := False,
    sy_peers := if hr_peer r \<noteq> '''' then ReportTimeout now (hr_peer r) (sy_peers s) else sy_peers s\<rparr>"
  have i: "sync_inv ?s" using inv peers_good_report by (auto simp: sync_inv_def window_ok_def)
  show ?thesis
  proof (cases "sy_headerRetries s + 1 \<ge> sc_HeaderRetryLimit (sy_cfg s)")
    case True
    have "enterBackoff now (?s\<lparr>sy_headerRetries := sy_headerRetries s + 1\<rparr>) = enterBackoff now ?s"
      by (simp add: enterBackoff_def)
    then show ?thesis using False True reset_inv(1) [OF i, of now]
      by (auto simp: header_result_def Let_def)
  next
    case False
    then have "sync_inv (?s\<lparr>sy_headerRetries := sy_headerRetries s + 1\<rparr>)"
      using i inv by (auto simp: sync_inv_def window_ok_def)
    then show ?thesis using False \<open>\<not> hr_ok r\<close> by (auto simp: header_result_def Let_def)
  qed
next
  case True
  let ?s = "s\<lparr>sy_headerReqInFlight := False, sy_headerRetries := 0\<rparr>"
  have i: "sync_inv ?s" using inv by (auto simp: sync_inv_def window_ok_def config_ok_def)
  obtain s1 q where q: "queue_metas bc (hr_peer r) (hr_metas r) ?s False = (s1, q)" by fastforce
  have i1: "sync_inv s1" using queue_metas_inv [OF i, of bc "hr_peer r" "hr_metas r" False] q by simp
  let ?s2 = "if sy_state s1 = SyncingHeaders then s1\<lparr>sy_state := SyncingBlocks\<rparr> else s1"
  let ?s3 = "if sy_syncPeer ?s2 = '''' then ?s2\<lparr>sy_syncPeer := hr_peer r\<rparr> else ?s2"
  have "sync_inv ?s3" using i1 by (auto simp: sync_inv_def window_ok_def)
  from dispatch_ok [OF this fair, of bc now] obtain s' es where "dispatchQueuedBlocks od bc now ?s3 = Some (s', es)"
    "sync_inv s'" by blast
  then show ?thesis using True q i1 by (auto simp: header_result_def Let_def)
qed

lemma drain_ok:
  assumes "sync_inv s" "fair_ranging (od_peers od)"
  shows "\<exists>s' es. drain_results od bc now rs s = Some (s', es) \<and> sync_inv s'"
  using assms
proof (induction rs arbitrary: s)
  case (Cons r rs)
  from header_result_ok [OF Cons.prems] obtain s1 es where "header_result od bc now r s = Some (s1, es)" "sync_inv s1"
    by blast
  then show ?case using Cons.IH [of s1] Cons.prems(2) by fastforce
qed simp

lemma drainHeaderResults_ok:
  assumes "sync_inv s" "fair_ranging (od_peers od)"
  shows "\<exists>s' es. drainHeaderResults od bc now s = Some (s', es) \<and> sync_inv s'"
  using drain_ok [of "s\<lparr>sy_headersCh := []\<rparr>"] assms
  by (simp add: drainHeaderResults_def sync_inv_def window_ok_def)

section \<open>A round of timeouts\<close>

text \<open>What becomes of one request: kept, dropped after the last attempt, or tried again.\<close>

definition tick_req :: "gotime \<Rightarrow> string \<Rightarrow> sync_config \<Rightarrow> inflight_req \<Rightarrow> inflight_req option" where
  "tick_req now best cfg req =
     (if now < ir_deadline req then Some req
      else if ir_attempts req \<ge> sc_BlockRetryLimit cfg then None
      else Some (req\<lparr>ir_peer := if best \<noteq> '''' then best else ir_peer req,
                     ir_attempts := ir_attempts req + 1, ir_deadline := now + sc_SyncTimeout cfg\<rparr>))"

definition tick_frame :: "syncer \<Rightarrow> syncer \<Rightarrow> bool" where
  "tick_frame s s' \<longleftrightarrow> sy_cfg s' = sy_cfg s \<and> sy_syncPeer s' = sy_syncPeer s \<and> sy_state s' = sy_state s
     \<and> sy_headersCh s' = sy_headersCh s \<and> sy_peers s' = sy_peers s
     \<and> sy_headerReqInFlight s' = sy_headerReqInFlight s \<and> sy_headerRetries s' = sy_headerRetries s
     \<and> sy_backoffUntil s' = sy_backoffUntil s \<and> sy_parent s' = sy_parent s \<and> sy_sync s' = sy_sync s
     \<and> sy_inv s' = sy_inv s"

lemma tick_one_step:
  assumes "tick_one now best (h, req) (s, t) = (s', t')" "h \<in> set (al_keys (sy_inflightBlocks s))"
  shows "tick_frame s s'"
    "map_of (sy_inflightBlocks s') =
       (if now < ir_deadline req then map_of (sy_inflightBlocks s)
        else (map_of (sy_inflightBlocks s))(h := tick_req now best (sy_cfg s) req))"
    "distinct (al_keys (sy_inflightBlocks s)) \<Longrightarrow> distinct (al_keys (sy_inflightBlocks s'))"
proof -
  have e: "tick_one now best (h, req) (s, t) = (s', t')" by (rule assms(1))
  consider "now < ir_deadline req" "s' = s"
    | m where "\<not> now < ir_deadline req" "sc_BlockRetryLimit (sy_cfg s) \<le> ir_attempts req"
      "s' = s\<lparr>sy_metrics := m, sy_inflightBlocks := al_del h (sy_inflightBlocks s)\<rparr>"
    | m where "\<not> now < ir_deadline req" "\<not> sc_BlockRetryLimit (sy_cfg s) \<le> ir_attempts req"
      "s' = s\<lparr>sy_metrics := m, sy_inflightBlocks :=
         al_put h (the (tick_req now best (sy_cfg s) req)) (sy_inflightBlocks s)\<rparr>"
  proof (cases "now < ir_deadline req")
    case True
    then show thesis using that(1) e by (simp add: tick_one_def)
  next
    case False
    let ?m = "if ir_peer req \<noteq> '''' then recordRequest now (ir_peer req)
                (ir_deadline req + - sc_SyncTimeout (sy_cfg s)) False (sy_metrics s) else sy_metrics s"
    show thesis
    proof (cases "sc_BlockRetryLimit (sy_cfg s) \<le> ir_attempts req")
      case True
      then show thesis using that(2) [of ?m] e False by (auto simp: tick_one_def Let_def split: if_splits)
    next
      case False
      then show thesis using that(3) [of ?m] e \<open>\<not> now < ir_deadline req\<close>
        by (auto simp: tick_one_def tick_req_def Let_def split: if_splits)
    qed
  qed
  note C = this
  show "tick_frame s s'" using C by cases (simp_all add: tick_frame_def)
  show "map_of (sy_inflightBlocks s') =
       (if now < ir_deadline req then map_of (sy_inflightBlocks s)
        else (map_of (sy_inflightBlocks s))(h := tick_req now best (sy_cfg s) req))"
    using C by cases (simp_all add: map_of_al_del map_of_al_put tick_req_def)
  show "distinct (al_keys (sy_inflightBlocks s)) \<Longrightarrow> distinct (al_keys (sy_inflightBlocks s'))"
    using C by cases (simp_all add: distinct_al_del distinct_al_put)
qed

lemma tick_fold:
  assumes "distinct (al_keys L)" "\<forall>(h, r) \<in> set L. map_of (sy_inflightBlocks s) h = Some r"
    and "distinct (al_keys (sy_inflightBlocks s))"
    and "fold (tick_one now best) L (s, t) = (s', t')"
  shows "tick_frame s s' \<and> distinct (al_keys (sy_inflightBlocks s'))
     \<and> map_of (sy_inflightBlocks s') = (\<lambda>h. case map_of L h of None \<Rightarrow> map_of (sy_inflightBlocks s) h
          | Some r \<Rightarrow> tick_req now best (sy_cfg s) r)"
  using assms
proof (induction L arbitrary: s t)
  case Nil
  then show ?case by (simp add: tick_frame_def)
next
  case (Cons x L)
  obtain h r where x: "x = (h, r)" by (cases x)
  obtain s1 t1 where step: "tick_one now best (h, r) (s, t) = (s1, t1)" by fastforce
  have m: "map_of (sy_inflightBlocks s) h = Some r" using Cons.prems(2) x by simp
  then have "h \<in> set (al_keys (sy_inflightBlocks s))" by (force dest: map_of_SomeD)
  note S = tick_one_step [OF step this]
  have hL: "map_of L h = None" using Cons.prems(1) x by (simp add: map_of_eq_None_iff)
  have "map_of (sy_inflightBlocks s1) k = Some q" if "(k, q) \<in> set L" for k q
  proof -
    have "k \<noteq> h" using that Cons.prems(1) x by force
    then show ?thesis using S(2) that Cons.prems(2) by auto
  qed
  then have "tick_frame s1 s' \<and> distinct (al_keys (sy_inflightBlocks s'))
     \<and> map_of (sy_inflightBlocks s') = (\<lambda>h. case map_of L h of None \<Rightarrow> map_of (sy_inflightBlocks s1) h
          | Some r \<Rightarrow> tick_req now best (sy_cfg s1) r)"
    using Cons.prems x step S(3) by (intro Cons.IH [of _ t1]) auto
  moreover have "sy_cfg s1 = sy_cfg s" using S(1) by (simp add: tick_frame_def)
  ultimately show ?case using S(1,2) x hL m
    by (auto simp: tick_frame_def tick_req_def fun_eq_iff split: option.splits)
qed

lemma tick_req_bounds:
  assumes "tick_req now best cfg r = Some r'" "ir_peer r \<noteq> ''''" "1 \<le> ir_attempts r"
    "ir_attempts r \<le> sc_BlockRetryLimit cfg"
  shows "ir_peer r' \<noteq> '''' \<and> 1 \<le> ir_attempts r' \<and> ir_attempts r' \<le> sc_BlockRetryLimit cfg \<and> ir_kind r' = ir_kind r"
  using assms by (auto simp: tick_req_def split: if_splits)

lemma ranging_keys:
  assumes "fair_ranging ord" "distinct (al_keys xs)"
  shows "distinct (al_keys (ord i xs))" "map_of (ord i xs) = map_of xs"
proof -
  have s: "set (ord i xs) = set xs" and l: "length (ord i xs) = length xs"
    using assms(1) by (auto simp: fair_ranging_def)
  have "length (al_keys (ord i xs)) = card (set (al_keys (ord i xs)))"
    using distinct_card [OF assms(2)] s l by simp
  then show d: "distinct (al_keys (ord i xs))" by (simp only: card_distinct)
  show "map_of (ord i xs) = map_of xs"
    using map_of_inject_set [OF d assms(2)] s by simp
qed

text \<open>The loop over the window, whatever the order.\<close>

lemma tick_window:
  assumes w: "window_ok s" and fair: "fair_ranging (od_inflight od)"
    and f: "fold (tick_one now best) (od_inflight od 0 (sy_inflightBlocks s)) (s, t0) = (s1, t)"
  shows "window_ok s1" "tick_frame s s1"
    "map_of (sy_inflightBlocks s1) = (\<lambda>h. case map_of (sy_inflightBlocks s) h of None \<Rightarrow> None
      | Some r \<Rightarrow> tick_req now best (sy_cfg s) r)"
proof -
  have d: "distinct (al_keys (sy_inflightBlocks s))" using w by (simp add: window_ok_def)
  note R = ranging_keys [OF fair d, of 0]
  have "\<forall>(h, r) \<in> set (od_inflight od 0 (sy_inflightBlocks s)). map_of (sy_inflightBlocks s) h = Some r"
    using fair d by (auto simp: fair_ranging_def)
  note F = tick_fold [OF R(1) this d f]
  show fr: "tick_frame s s1" using F by simp
  show map1: "map_of (sy_inflightBlocks s1) = (\<lambda>h. case map_of (sy_inflightBlocks s) h of None \<Rightarrow> None
      | Some r \<Rightarrow> tick_req now best (sy_cfg s) r)"
    using F R(2) by (auto split: option.splits)
  show "window_ok s1"
  proof (rule window_sub [OF w])
    fix h r assume "map_of (sy_inflightBlocks s1) h = Some r"
    then obtain r0 where r0: "map_of (sy_inflightBlocks s) h = Some r0" "tick_req now best (sy_cfg s) r0 = Some r"
      using map1 by (auto split: option.splits)
    from window_fields [OF w r0(1)] tick_req_bounds [OF r0(2)] r0(1)
    show "\<exists>r0. map_of (sy_inflightBlocks s) h = Some r0 \<and> ir_peer r \<noteq> '''' \<and> 1 \<le> ir_attempts r
       \<and> ir_attempts r \<le> sc_BlockRetryLimit (sy_cfg s)" by auto
  qed (use F fr in \<open>simp_all add: tick_frame_def\<close>)
qed

lemma tickInflight_ok:
  assumes inv: "sync_inv s" and fair: "fair_ranging (od_peers od)" "fair_ranging (od_inflight od)"
    and on: "sc_Transport (sy_cfg s)" "sc_Chain (sy_cfg s)" "sy_inflightBlocks s \<noteq> []"
  obtains s' es best failed where "tickInflight od bc now s = Some (s', es)" "sync_inv s'"
    "best_peer od now s = Some best" "sy_cfg s' = sy_cfg s"
    "map_of (sy_inflightBlocks s') = (\<lambda>h. case map_of (sy_inflightBlocks s) h of None \<Rightarrow> None
        | Some r \<Rightarrow> (case tick_req now best (sy_cfg s) r of None \<Rightarrow> None
             | Some r' \<Rightarrow> if failed \<and> ir_kind r' = BlkSync then None else Some r'))"
    "failed \<Longrightarrow> sy_state s' = SyncBackoff" "\<not> failed \<Longrightarrow> sy_state s' = sy_state s"
proof -
  have w: "window_ok s" using inv by (simp add: sync_inv_def)
  obtain best where best: "best_peer od now s = Some best" by (rule best_peer_returns [OF inv fair(1)])
  let ?L = "od_inflight od 0 (sy_inflightBlocks s)"
  obtain s1 t where f: "fold (tick_one now best) ?L
      (s, \<lparr>tk_sends = [], tk_retrySync = [], tk_timeouts = [], tk_syncFailed = False\<rparr>) = (s1, t)" by fastforce
  note T = tick_window [OF w fair(2) f]
  let ?map = "\<lambda>h. case map_of (sy_inflightBlocks s) h of None \<Rightarrow> None
      | Some r \<Rightarrow> tick_req now best (sy_cfg s) r"
  have map1: "map_of (sy_inflightBlocks s1) = ?map" by (rule T(3))
  have fr: "tick_frame s s1" by (rule T(2))
  let ?s2 = "s1\<lparr>sy_peers := fold (ReportTimeout now) (tk_timeouts t) (sy_peers s1)\<rparr>"
  have inv2: "sync_inv ?s2"
    using T(1) inv fr peers_good_reports by (auto simp: sync_inv_def tick_frame_def window_ok_def)
  define es where "es = map (get_block_effect now ?s2) (tk_sends t)
          @ concat (map (\<lambda>(p, hashes). concat (map (\<lambda>c. sendGetBlocks now ?s2 (p, c))
              (chunks (nat (if sc_BlocksBatchSize (sy_cfg ?s2) \<le> 0 then 1 else sc_BlocksBatchSize (sy_cfg ?s2))) hashes)))
                     (od_retry od 0 (tk_retrySync t)))"
  have res: "tickInflight od bc now s = Some (if tk_syncFailed t then enterBackoff now ?s2 else ?s2, es)"
    using on best f by (simp add: tickInflight_def es_def Let_def)
  have w2: "window_ok ?s2" using inv2 by (simp add: sync_inv_def)
  have bk: "map_of (sy_inflightBlocks (enterBackoff now ?s2)) h =
      (case ?map h of Some r \<Rightarrow> if ir_kind r \<noteq> BlkSync then Some r else None | None \<Rightarrow> None)" for h
    unfolding enterBackoff_def
    by (subst drop_sync_work_inflight) (use w2 map1 in \<open>auto simp: window_ok_def split: option.splits\<close>)
  show ?thesis
  proof (rule that [OF res _ best, of "tk_syncFailed t"])
    show "sync_inv (if tk_syncFailed t then enterBackoff now ?s2 else ?s2)"
      using inv2 reset_inv(1) [OF inv2] by simp
    show "sy_cfg (if tk_syncFailed t then enterBackoff now ?s2 else ?s2) = sy_cfg s"
      using fr by (simp add: tick_frame_def enterBackoff_def)
    show "map_of (sy_inflightBlocks (if tk_syncFailed t then enterBackoff now ?s2 else ?s2)) =
        (\<lambda>h. case map_of (sy_inflightBlocks s) h of None \<Rightarrow> None
        | Some r \<Rightarrow> (case tick_req now best (sy_cfg s) r of None \<Rightarrow> None
             | Some r' \<Rightarrow> if tk_syncFailed t \<and> ir_kind r' = BlkSync then None else Some r'))"
      using bk map1 by (auto simp: fun_eq_iff split: option.splits)
  qed (use fr in \<open>auto simp: enterBackoff_def tick_frame_def\<close>)
qed

lemma tick_inv:
  assumes "sync_inv s" "fair_ranging (od_peers od)" "fair_ranging (od_inflight od)"
  shows "\<exists>s' es. tickInflight od bc now s = Some (s', es) \<and> sync_inv s'"
proof (cases "\<not> sc_Transport (sy_cfg s) \<or> \<not> sc_Chain (sy_cfg s) \<or> sy_inflightBlocks s = []")
  case True
  then show ?thesis using assms(1) by (auto simp: tickInflight_def)
next
  case False
  then show ?thesis using tickInflight_ok [OF assms, of bc now] by blast
qed

section \<open>Effects\<close>

text \<open>Timeouts, dispatch and header results only send; a request by RPC comes from \<open>advance\<close> alone.\<close>

definition rpcs :: "effect list \<Rightarrow> effect list" where
  "rpcs es = filter (\<lambda>e. case e of StartRPC _ _ _ _ \<Rightarrow> True | _ \<Rightarrow> False) es"

lemma rpcs_append [simp]: "rpcs (xs @ ys) = rpcs xs @ rpcs ys"
  by (simp add: rpcs_def)

lemma rpcs_sends: "\<forall>e \<in> set es. \<exists>p m. e = Send p m \<Longrightarrow> rpcs es = []"
  by (auto simp: rpcs_def filter_empty_conv)

lemma sendGetBlocks_sends: "e \<in> set (sendGetBlocks now s b) \<Longrightarrow> \<exists>p m. e = Send p m"
  by (auto simp: sendGetBlocks_def split: if_splits)

lemma dispatch_rpcs: "dispatchQueuedBlocks od bc now s = Some (s', es) \<Longrightarrow> rpcs es = []"
  by (intro rpcs_sends)
    (auto simp: dispatchQueuedBlocks_def get_block_effect_def Let_def Option.bind_eq_Some_conv split_def
      split: if_splits dest: sendGetBlocks_sends)

lemma tick_rpcs: "tickInflight od bc now s = Some (s', es) \<Longrightarrow> rpcs es = []"
  by (intro rpcs_sends)
    (auto simp: tickInflight_def get_block_effect_def Let_def Option.bind_eq_Some_conv split_def
      split: if_splits dest: sendGetBlocks_sends)

lemma header_result_rpcs: "header_result od bc now r s = Some (s', es) \<Longrightarrow> rpcs es = []"
  by (auto simp: header_result_def Let_def split_def rpcs_def [of "[]"] split: if_splits dest: dispatch_rpcs)

lemma drain_rpcs: "drain_results od bc now rs s = Some (s', es) \<Longrightarrow> rpcs es = []"
proof (induction rs arbitrary: s es)
  case (Cons r rs)
  then show ?case by (auto simp: Option.bind_eq_Some_conv dest: header_result_rpcs)
qed (simp add: rpcs_def)

end
