(* ===== verification/SyncerProps.thy ===== *)
theory SyncerProps
  imports SyncerInv ChainProps
begin

text \<open>
  Reachable states of the syncer and its properties: the bounds, what a dispatch requests, the end
  of retries, the outcome of a round of \<^verbatim>\<open>catchUpIfBehind\<close>, and two weaknesses.
\<close>

section \<open>A round\<close>

lemma leave_backoff_inv: "sync_inv s \<Longrightarrow> sync_inv (leave_backoff now s)"
  by (auto simp: leave_backoff_def sync_inv_def window_ok_def config_ok_def)

lemma maybeStart_inv: "sync_inv s \<Longrightarrow> sync_inv (fst (maybeStartHeaderRequest bc p s))"
  by (auto simp: maybeStartHeaderRequest_def Let_def sync_inv_def window_ok_def)

lemma state_inv:
  "sync_inv s \<Longrightarrow> sync_inv (s\<lparr>sy_state := st\<rparr>)"
  "sync_inv s \<Longrightarrow> sync_inv (s\<lparr>sy_state := st, sy_syncPeer := p, sy_headerRetries := 0\<rparr>)"
  by (auto simp: sync_inv_def window_ok_def config_ok_def)

lemma advance_inv: "sync_inv s \<Longrightarrow> sync_inv (fst (advance bc p s))"
  by (cases "sy_state s") (simp_all add: advance_def maybeStart_inv state_inv Let_def)

text \<open>What the peer manager answers; the two cases of \<^verbatim>\<open>BestPeer\<close>.\<close>

lemma BestPeer_cases:
  assumes "peers_good m" "fair_ranging ord"
  obtains (nobody) "BestPeer ord now m = Some ('''', 0, 0, None)"
  | (peer) p ht h w where "BestPeer ord now m = Some (p, ht, h, Some w)" "p \<noteq> ''''"
proof (cases "\<forall>p \<in> peer_recs m. in_cooldown now p")
  case True
  then show ?thesis using nobody BestPeer_none [OF assms] by blast
next
  case False
  then obtain p where "p \<in> peer_recs m" "\<not> in_cooldown now p" by blast
  from BestPeer_some [OF assms this] obtain q where
    q: "(pi_ID q, q) \<in> set (pm_peers m)"
      "BestPeer ord now m = Some (pi_ID q, pi_TipHeight q, pi_TipHash q, pi_CumWork q)" by blast
  then have "pi_ID q \<noteq> '''' \<and> (\<exists>w. pi_CumWork q = Some w)"
    using assms(1) by (auto simp: peers_good_def peers_inv_def)
  then show ?thesis using peer q(2) by auto
qed

definition fair_orders :: "orders \<Rightarrow> bool" where
  "fair_orders od \<longleftrightarrow> fair_ranging (od_peers od) \<and> fair_ranging (od_inflight od) \<and> fair_ranging (od_retry od)"

lemma decide_ok:
  assumes "sync_inv s" "fair_orders od" "TipCumWork bc = Some lw"
  obtains (nobody) "decide od bc now s = Some (s, [])" "BestPeer (od_peers od) now (sy_peers s) = Some ('''', 0, 0, None)"
  | (level) p ht h bw where "BestPeer (od_peers od) now (sy_peers s) = Some (p, ht, h, Some bw)"
      "\<not> is_behind bc bw ht lw" "decide od bc now s = Some (resetSyncState s, [])"
  | (behind) p ht h bw where "BestPeer (od_peers od) now (sy_peers s) = Some (p, ht, h, Some bw)" "p \<noteq> ''''"
      "is_behind bc bw ht lw" "decide od bc now s = Some (advance bc p s)"
proof -
  have g: "peers_good (sy_peers s)" "fair_ranging (od_peers od)"
    using assms by (auto simp: sync_inv_def fair_orders_def)
  show ?thesis
  proof (cases rule: BestPeer_cases [OF g, of now])
    case 1
    then show ?thesis using nobody by (simp add: decide_def)
  next
    case (2 p ht h w)
    then show ?thesis using level behind assms(3)
      by (cases "is_behind bc w ht lw") (auto simp: decide_def)
  qed
qed

lemma catchUp_ok:
  assumes inv: "sync_inv s" and fair: "fair_orders od" and lw: "TipCumWork bc = Some lw"
    and on: "sc_Chain (sy_cfg s)"
  obtains s3 s' e4 es where "catchUpIfBehind od bc now s = Some (s', es @ e4)" "sync_inv s3"
    "decide od bc now (leave_backoff now s3) = Some (s', e4)" "sync_inv s'" "rpcs es = []"
proof -
  have f: "fair_ranging (od_peers od)" "fair_ranging (od_inflight od)" using fair by (auto simp: fair_orders_def)
  from tick_inv [OF inv f] obtain s1 e1 where 1: "tickInflight od bc now s = Some (s1, e1)" "sync_inv s1" by blast
  from dispatch_ok [OF 1(2) f(1)] obtain s2 e2 where 2: "dispatchQueuedBlocks od bc now s1 = Some (s2, e2)" "sync_inv s2"
    by blast
  from drainHeaderResults_ok [OF 2(2) f(1)] obtain s3 e3 where
    3: "drainHeaderResults od bc now s2 = Some (s3, e3)" "sync_inv s3" by blast
  note i4 = leave_backoff_inv [OF 3(2), of now]
  have "\<exists>s' e4. decide od bc now (leave_backoff now s3) = Some (s', e4) \<and> sync_inv s'"
  proof (cases rule: decide_ok [OF i4 fair lw, of now])
    case (3 p ht h bw)
    then show ?thesis using advance_inv [OF i4] by (metis prod.collapse)
  qed (use i4 reset_inv(2) in auto)
  then obtain s' e4 where 4: "decide od bc now (leave_backoff now s3) = Some (s', e4)" "sync_inv s'" by blast
  show ?thesis
    by (rule that [of s' "e1 @ e2 @ e3" e4 s3])
      (use 1 2 3 4 on tick_rpcs [OF 1(1)] dispatch_rpcs [OF 2(1)] drain_rpcs [OF 3(1) [unfolded drainHeaderResults_def]]
        in \<open>simp_all add: catchUpIfBehind_def\<close>)
qed

section \<open>Reachable states\<close>

text \<open>
  Every way in which the program runs the syncer: its handlers, its timer, the goroutines of its
  requests and its loop, in any order, against whatever chain there is at that moment.
\<close>

inductive sync_reachable :: "digest \<Rightarrow> sync_config \<Rightarrow> syncer \<Rightarrow> bool" for sha cfg where
  new: "sync_reachable sha cfg (NewSyncer cfg None)"
| inv_block: "sync_reachable sha cfg s \<Longrightarrow> fair_orders od \<Longrightarrow>
    HandleInvBlock sha od bc now meta p s = Some (s', es) \<Longrightarrow> sync_reachable sha cfg s'"
| got_block: "sync_reachable sha cfg s \<Longrightarrow>
    sync_reachable sha cfg (fst (HandleBlock sha (Some (\<lambda>_ _ _. ())) now b p (s, ())))"
| blocks: "sync_reachable sha cfg s \<Longrightarrow>
    HandleBlocks sha (Some (\<lambda>_ _ _. ())) now bs p (s, ()) = Some (s', ()) \<Longrightarrow> sync_reachable sha cfg s'"
| inv_tx: "sync_reachable sha cfg s \<Longrightarrow> sync_reachable sha cfg (fst (HandleInvTx hasTx now i p s))"
| forget_tx: "sync_reachable sha cfg s \<Longrightarrow> sync_reachable sha cfg (forget_tx_request i s)"
| probe: "sync_reachable sha cfg s \<Longrightarrow> sync_reachable sha cfg (fst (probe_start ps s))"
| probed: "sync_reachable sha cfg s \<Longrightarrow> 0 \<le> rtt \<Longrightarrow> sync_reachable sha cfg (probe_result now p resp rtt s)"
| headers: "sync_reachable sha cfg s \<Longrightarrow> sync_reachable sha cfg (header_reply p resp s)"
| round: "sync_reachable sha cfg s \<Longrightarrow> fair_orders od \<Longrightarrow> TipCumWork bc = Some lw \<Longrightarrow>
    catchUpIfBehind od bc now s = Some (s', es) \<Longrightarrow> sync_reachable sha cfg s'"

lemma handle_each_inv: "sync_inv (fst sw) \<Longrightarrow> sync_inv (fst (handle_each sha cb p bs sw))"
proof (induction bs arbitrary: sw)
  case (Cons b bs)
  then show ?case using onBlockArrived_inv by (cases b) simp_all
qed simp

lemma sync_reachable_inv: "sync_reachable sha cfg s \<Longrightarrow> sync_inv s"
proof (induction rule: sync_reachable.induct)
  case new
  then show ?case by (rule NewSyncer_inv(2) [OF NewManager_good])
next
  case (inv_block s od bc now meta p s' es)
  let ?prev = "bh_PrevHash (bm_Header meta)"
  let ?s1 = "if bh_Height (bm_Header meta) > 0 \<and> \<not> IsZero ?prev \<and> \<not> HasBlock bc ?prev
             then enqueueBlock bc ?prev p BlkParent s else s"
  let ?s2 = "enqueueBlock bc (bm_Hash meta) p BlkInv ?s1"
  have i: "sync_inv ?s2" using inv_block.IH by (auto intro!: enqueueBlock_inv)
  have "fair_ranging (od_peers od)" using inv_block.hyps(2) by (simp add: fair_orders_def)
  from dispatch_ok [OF i this, of bc now] obtain s2 es2 where
    "dispatchQueuedBlocks od bc now ?s2 = Some (s2, es2)" "sync_inv s2" by blast
  moreover have "s' = s \<or> dispatchQueuedBlocks od bc now ?s2 = Some (s', es)"
    using inv_block.hyps(3) unfolding HandleInvBlock_def Let_def HashHeaderNonce_eq sum.case
    by (metis (no_types, lifting) option.inject prod.inject)
  ultimately show ?case using inv_block.IH by auto
next
  case (got_block s now b p)
  then show ?case
    by (auto simp: HandleBlock_def Let_def split: option.split intro!: onBlockArrived_inv record_answer_inv)
next
  case (blocks s now bs p s')
  consider "s' = s" | b0 where "handle_each sha (\<lambda>_ _ _. ()) p bs (record_answer now (claimed_hash sha b0) p s, ()) = (s', ())"
    | "handle_each sha (\<lambda>_ _ _. ()) p bs (s, ()) = (s', ())"
    using blocks.hyps(2) by (auto simp: HandleBlocks_def split: if_splits option.splits)
  then show ?case
  proof cases
    case 2
    from handle_each_inv [of "(record_answer now (claimed_hash sha b0) p s, ())" sha "\<lambda>_ _ _. ()" p bs]
    show ?thesis unfolding 2 using record_answer_inv [OF blocks.IH] by simp
  next
    case 3
    from handle_each_inv [of "(s, ())" sha "\<lambda>_ _ _. ()" p bs] show ?thesis
      unfolding 3 using blocks.IH by simp
  qed (use blocks.IH in simp)
next
  case (probed s rtt now p resp)
  then show ?case using peers_good_report peers_good_tip
    by (auto simp: probe_result_def sync_inv_def window_ok_def split: option.split)
next
  case (probe s ps)
  then show ?case using peers_good_upserts by (auto simp: probe_start_def sync_inv_def window_ok_def)
next
  case (round s od bc lw now s' es)
  show ?case
  proof (cases "sc_Chain (sy_cfg s)")
    case True
    from catchUp_ok [OF round.IH round.hyps(2,3) True, of now] round.hyps(4) show ?thesis by force
  next
    case False
    then show ?thesis using round.hyps(4) round.IH by (simp add: catchUpIfBehind_def)
  qed
qed (auto simp: HandleInvTx_def forget_tx_request_def header_reply_def sync_inv_def window_ok_def Let_def)

section \<open>Retries\<close>

text \<open>Rounds of timeouts at the given times, with nothing arriving in between.\<close>

primrec ticks :: "orders \<Rightarrow> blockchain \<Rightarrow> gotime list \<Rightarrow> syncer \<Rightarrow> syncer option" where
  "ticks od bc [] s = Some s"
| "ticks od bc (t # ts) s = do { (s, es) \<leftarrow> tickInflight od bc t s; ticks od bc ts s }"

text \<open>Every request has made at least \<open>k\<close> attempts and is overdue from \<open>t\<close> on.\<close>

definition tried :: "int \<Rightarrow> gotime \<Rightarrow> syncer \<Rightarrow> bool" where
  "tried k t s \<longleftrightarrow> (\<forall>h r. map_of (sy_inflightBlocks s) h = Some r \<longrightarrow> k \<le> ir_attempts r \<and> ir_deadline r \<le> t)"

lemma tick_tried:
  assumes inv: "sync_inv s" and fair: "fair_orders od" and on: "sc_Transport (sy_cfg s)" "sc_Chain (sy_cfg s)"
    and tried: "tried k t s"
  shows "\<exists>s' es. tickInflight od bc t s = Some (s', es) \<and> sync_inv s' \<and> sy_cfg s' = sy_cfg s
     \<and> tried (k + 1) (t + sc_SyncTimeout (sy_cfg s)) s'"
proof (cases "sy_inflightBlocks s = []")
  case True
  then show ?thesis using inv by (simp add: tickInflight_def tried_def)
next
  case False
  have f: "fair_ranging (od_peers od)" "fair_ranging (od_inflight od)" using fair by (auto simp: fair_orders_def)
  show ?thesis
  proof (cases rule: tickInflight_ok [OF inv f on False, of bc t])
    case (1 s' es best failed)
  have "k + 1 \<le> ir_attempts r' \<and> ir_deadline r' \<le> t + sc_SyncTimeout (sy_cfg s)"
    if m: "map_of (sy_inflightBlocks s') h = Some r'" for h r'
  proof -
    obtain r where "map_of (sy_inflightBlocks s) h = Some r" "tick_req t best (sy_cfg s) r = Some r'"
      using m 1(5) by (auto split: option.splits if_splits)
    moreover have "k \<le> ir_attempts r" "ir_deadline r \<le> t"
      using tried calculation(1) by (auto simp: tried_def)
    ultimately show ?thesis by (auto simp: tick_req_def split: if_splits)
  qed
  then show ?thesis using 1(1,2,4) by (auto simp: tried_def)
  qed
qed

lemma tried_mono: "tried k t s \<Longrightarrow> t \<le> t' \<Longrightarrow> tried k t' s"
  by (fastforce simp: tried_def)

text \<open>Times that leave a request the time of the timeout between two rounds.\<close>

definition spaced :: "duration \<Rightarrow> gotime list \<Rightarrow> bool" where
  "spaced d ts \<longleftrightarrow> (\<forall>i. Suc i < length ts \<longrightarrow> ts ! i + d \<le> ts ! Suc i)"

lemma spaced_Cons: "spaced d (t # u # ts) \<Longrightarrow> t + d \<le> u \<and> spaced d (u # ts)"
  unfolding spaced_def by (metis Suc_less_eq length_Cons nth_Cons_0 nth_Cons_Suc zero_less_Suc)

lemma ticks_tried:
  assumes "sync_inv s" "fair_orders od" "sc_Transport (sy_cfg s)" "sc_Chain (sy_cfg s)"
    and "ts \<noteq> []" "spaced (sc_SyncTimeout (sy_cfg s)) ts" "tried k (hd ts) s"
  shows "\<exists>s'. ticks od bc ts s = Some s' \<and> sync_inv s' \<and> sy_cfg s' = sy_cfg s
     \<and> tried (k + int (length ts)) (last ts + sc_SyncTimeout (sy_cfg s)) s'"
  using assms
proof (induction ts arbitrary: s k)
  case (Cons t ts)
  from tick_tried [OF Cons.prems(1-4), of k t bc] Cons.prems(7) obtain s1 es where
    S: "tickInflight od bc t s = Some (s1, es)" "sync_inv s1" "sy_cfg s1 = sy_cfg s"
      "tried (k + 1) (t + sc_SyncTimeout (sy_cfg s)) s1" by auto
  show ?case
  proof (cases ts)
    case Nil
    then show ?thesis using S by simp
  next
    case (Cons u us)
    from spaced_Cons [OF Cons.prems(6) [unfolded Cons]] have
      "tried (k + 1) (hd ts) s1" "spaced (sc_SyncTimeout (sy_cfg s1)) ts"
      using S(3,4) tried_mono Cons by auto
    from Cons.IH [OF S(2) Cons.prems(2) _ _ _ this(2,1)] Cons.prems(3,4) S Cons show ?thesis
      by (auto simp: ac_simps)
  qed
qed simp

lemma dispatched_summary:
  assumes "dispatched now bc s s' new"
  shows "distinct new \<and> (\<forall>h. is_inflight h s' \<longleftrightarrow> is_inflight h s \<or> h \<in> set new)
     \<and> (\<forall>h \<in> set new. \<not> is_inflight h s \<and> \<not> HasBlock bc h)
     \<and> (\<forall>h. is_inflight h s \<longrightarrow> map_of (sy_inflightBlocks s') h = map_of (sy_inflightBlocks s) h)"
proof -
  have "is_inflight h s' \<longleftrightarrow> is_inflight h s \<or> h \<in> set new" for h
    using assms by (cases "h \<in> set new") (auto simp: dispatched_def is_inflight_def)
  then show ?thesis using assms unfolding dispatched_def is_inflight_def by metis
qed

section \<open>States for the witnesses\<close>

definition demo_cfg :: sync_config where
  "demo_cfg = \<lparr>sc_NodeID = ''n'', sc_Transport = True, sc_Chain = True, sc_RPC = True, sc_SyncTimeout = 10,
     sc_MaxHeaders = 0, sc_BlocksBatchSize = 2, sc_ProbeInterval = 0, sc_MaxInflightBlocks = 4,
     sc_BlockRetryLimit = 3, sc_HeaderRetryLimit = 2, sc_BackoffDuration = 50\<rparr>"

definition demo_od :: orders where
  "demo_od = \<lparr>od_peers = \<lambda>_ xs. xs, od_inflight = \<lambda>_. rev, od_retry = \<lambda>_ xs. xs\<rparr>"

lemma demo_od_fair: "fair_orders demo_od"
  by (simp add: demo_od_def fair_orders_def fair_ranging_def)

definition demo_fresh :: syncer where
  "demo_fresh = NewSyncer demo_cfg None"

lemma demo_fresh_reachable: "sync_reachable sha demo_cfg demo_fresh"
  unfolding demo_fresh_def by (rule sync_reachable.new)

text \<open>The announcement of block 2 by peer \<open>p\<close> has been followed.\<close>

definition demo_fetch :: syncer where
  "demo_fetch = demo_fresh\<lparr>sy_inflightBlocks :=
     [(2, \<lparr>ir_peer = ''p'', ir_kind = BlkInv, ir_attempts = 1, ir_deadline = 13\<rparr>)]\<rparr>"

lemmas sync_eval = NewSyncer_def demo_cfg_def Let_def enqueueBlock_def wanted_add_def no_wanted_def
  is_inflight_def HasBlock_def dispatchQueuedBlocks_def best_peer_def BestPeer_def NewManager_def demo_od_def
  dispatch_front.simps dispatch_sync.simps dispatch_inv.simps popNextQueuedLocked_def admit_def track_def

lemma demo_fetch_step:
  "\<exists>es. HandleInvBlock demo_digest demo_od demo_chain 3 (meta_of (demo_block 1 1 0 2)) ''p'' demo_fresh
     = Some (demo_fetch, es)"
  by (simp add: HandleInvBlock_def meta_of_def demo_header_hash demo_nonce demo_fetch_def demo_fresh_def
      demo_chain_def sync_eval)

lemma demo_fetch_reachable: "sync_reachable demo_digest demo_cfg demo_fetch"
  using demo_fetch_step sync_reachable.inv_block [OF demo_fresh_reachable demo_od_fair] by blast

text \<open>Peer \<open>p\<close> claims a tip of height 5 and work 9, and has been asked for headers.\<close>

definition demo_ahead :: syncer where
  "demo_ahead = demo_fresh\<lparr>sy_peers := UpdateTip 5 ''p'' 5 9 (Some 9) 1 (sy_peers demo_fresh)\<rparr>"

definition tip_reply :: message where
  "tip_reply = direct_message 5 ''p'' ''n'' ''n-1'' MsgTip (TipPayload 9 5 ''9'')"

lemma demo_ahead_reachable: "sync_reachable sha demo_cfg demo_ahead"
proof -
  have "probe_result 5 ''p'' (Some tip_reply) 1 demo_fresh = demo_ahead"
    by (simp add: probe_result_def tip_of_reply_def tip_reply_def direct_message_def demo_ahead_def digit_value_def)
  then show ?thesis using sync_reachable.probed [OF demo_fresh_reachable, of 1 sha 5 "''p''" "Some tip_reply"] by simp
qed

definition demo_asking :: syncer where
  "demo_asking = demo_ahead\<lparr>sy_state := SyncingHeaders, sy_syncPeer := ''p'', sy_headerReqInFlight := True\<rparr>"

lemma demo_ahead_best: "BestPeer (od_peers demo_od) now (sy_peers demo_ahead) = Some (''p'', 5, 9, Some 9)"
  by (simp add: demo_ahead_def demo_fresh_def NewSyncer_def Let_def UpdateTip_eq ensureLocked_eq store_peer_def
      peer_of_def tip_update_def new_info_def NewManager_def BestPeer_def best_step_def in_cooldown_def demo_od_def)

lemma demo_asking_step:
  "\<exists>es. catchUpIfBehind demo_od demo_chain 6 demo_ahead = Some (demo_asking, es)"
proof -
  have "dispatchQueuedBlocks demo_od demo_chain 6 demo_ahead = Some (demo_ahead, [])"
    using demo_ahead_best [of 6]
    by (simp add: dispatchQueuedBlocks_def best_peer_def dispatch_front.simps dispatch_sync.simps dispatch_inv.simps
        popNextQueuedLocked_def) (simp add: demo_ahead_def demo_fresh_def NewSyncer_def Let_def no_wanted_def)
  moreover have "tickInflight demo_od demo_chain 6 demo_ahead = Some (demo_ahead, [])"
    "drainHeaderResults demo_od demo_chain 6 demo_ahead = Some (demo_ahead, [])"
    "sc_Chain (sy_cfg demo_ahead)" "leave_backoff 6 demo_ahead = demo_ahead"
    by (simp_all add: demo_ahead_def demo_fresh_def NewSyncer_def demo_cfg_def Let_def tickInflight_def
        drainHeaderResults_def leave_backoff_def)
  moreover have "\<exists>e. decide demo_od demo_chain 6 demo_ahead = Some (demo_asking, e)"
  proof -
    have "is_behind demo_chain 9 5 0" "TipCumWork demo_chain = Some 0"
      by (simp_all add: is_behind_def TipCumWork_def demo_chain_def)
    then have "decide demo_od demo_chain 6 demo_ahead = Some (advance demo_chain ''p'' demo_ahead)"
      using demo_ahead_best [of 6] by (simp add: decide_def)
    moreover have "fst (advance demo_chain ''p'' demo_ahead) = demo_asking"
      by (simp add: advance_def maybeStartHeaderRequest_def Let_def demo_asking_def demo_cfg_def
          demo_ahead_def demo_fresh_def NewSyncer_def)
    ultimately show ?thesis by (metis prod.collapse)
  qed
  ultimately show ?thesis by (auto simp: catchUpIfBehind_def)
qed

lemma demo_asking_reachable: "sync_reachable sha demo_cfg demo_asking"
proof -
  have "TipCumWork demo_chain = Some 0" by (simp add: TipCumWork_def demo_chain_def)
  with demo_asking_step sync_reachable.round [OF demo_ahead_reachable demo_od_fair] show ?thesis by blast
qed

section \<open>Properties\<close>

text \<open>
  C18: In every reachable state of the syncer: no more than \<^verbatim>\<open>MaxInflightBlocks\<close> requests are in flight,
  never two for one hash, each with a peer and between one and \<^verbatim>\<open>BlockRetryLimit\<close> attempts; no queue holds a
  hash twice or a zero hash, and each queue agrees with its index; the failed header requests are
  fewer than \<^verbatim>\<open>HeaderRetryLimit\<close>. The states are those between the calls of the syncer, the invariant
  without its last part (\<open>core_inv\<close>) holds between any two critical sections (\<open>Interleave\<close>): the retries
  stand at the limit after \<^verbatim>\<open>drainHeaderResults\<close> has released the mutex and before \<^verbatim>\<open>enterBackoff\<close>.
\<close>
theorem syncer_bounds:
  assumes "sync_reachable sha cfg s"
  shows "int (length (sy_inflightBlocks s)) \<le> sc_MaxInflightBlocks (sy_cfg s)
     \<and> distinct (map fst (sy_inflightBlocks s))
     \<and> (\<forall>(h, r) \<in> set (sy_inflightBlocks s). ir_peer r \<noteq> '''' \<and> 1 \<le> ir_attempts r
          \<and> ir_attempts r \<le> sc_BlockRetryLimit (sy_cfg s))
     \<and> (\<forall>w \<in> {sy_parent s, sy_sync s, sy_inv s}. distinct (wq_queue w)
          \<and> set (map fst (wq_queued w)) = set (wq_queue w) \<and> 0 \<notin> set (wq_queue w))
     \<and> 0 \<le> sy_headerRetries s \<and> sy_headerRetries s < sc_HeaderRetryLimit (sy_cfg s)"
  using sync_reachable_inv [OF assms] by (auto simp: sync_inv_def window_ok_def wanted_ok_def)

theorem syncer_bounds_witness:
  "distinct (map fst (sy_inflightBlocks demo_fetch)) \<and> sc_MaxInflightBlocks (sy_cfg demo_fetch) = 4
     \<and> length (sy_inflightBlocks demo_fetch) \<le> 4"
  using syncer_bounds [OF demo_fetch_reachable]
  by (simp add: demo_fetch_def demo_fresh_def NewSyncer_def demo_cfg_def Let_def)

text \<open>
  C19: A dispatch returns, asks for exactly the hashes that it puts in flight (once each, in
  batches within the batch size), none of which was in flight or is stored, leaves every request
  that was in flight alone, and stops only when the window is full or nothing is left to ask for
  (sync blocks wait while there is no peer to ask).
\<close>
theorem dispatch_exact:
  assumes "sync_reachable sha cfg s" and "fair_orders od"
    and "sc_Transport (sy_cfg s)" and "sc_Chain (sy_cfg s)"
  shows "\<exists>s' es best. dispatchQueuedBlocks od bc now s = Some (s', es) \<and> best_peer od now s = Some best
     \<and> (let asked = concat (map requested es) in
          distinct asked
          \<and> (\<forall>h. is_inflight h s' \<longleftrightarrow> is_inflight h s \<or> h \<in> set asked)
          \<and> (\<forall>h \<in> set asked. \<not> is_inflight h s \<and> \<not> HasBlock bc h)
          \<and> (\<forall>h. is_inflight h s \<longrightarrow> map_of (sy_inflightBlocks s') h = map_of (sy_inflightBlocks s) h))
     \<and> (\<forall>e \<in> set es. int (length (requested e)) \<le> max 1 (sc_BlocksBatchSize (sy_cfg s)))
     \<and> (int (length (sy_inflightBlocks s')) = sc_MaxInflightBlocks (sy_cfg s)
        \<or> (wq_queue (sy_parent s') = [] \<and> wq_queue (sy_inv s') = []
           \<and> (wq_queue (sy_sync s') = [] \<or> (let p = (if sy_syncPeer s = '''' then best else sy_syncPeer s)
                in p = '''' \<or> p = sc_NodeID (sy_cfg s)))))"
proof -
  have inv: "sync_inv s" by (rule sync_reachable_inv [OF assms(1)])
  have f: "fair_ranging (od_peers od)" using assms(2) by (simp add: fair_orders_def)
  from dispatch_ok [OF inv f, of bc now] obtain s' es new best where
    D: "dispatchQueuedBlocks od bc now s = Some (s', es)" "sync_inv s'" "dispatched now bc s s' new"
      "mset (concat (map requested es)) = mset new" "best_peer od now s = Some best"
      "window_full s' \<or> (wq_queue (sy_parent s') = [] \<and> wq_queue (sy_inv s') = []
         \<and> (wq_queue (sy_sync s') = [] \<or> (let p = (if sy_syncPeer s = '''' then best else sy_syncPeer s)
              in p = '''' \<or> p = self_id s)))"
      "\<forall>e \<in> set es. int (length (requested e)) \<le> max 1 (sc_BlocksBatchSize (sy_cfg s))"
    using assms(3,4) by metis
  define asked where "asked = concat (map requested es)"
  have "set asked = set new" using D(4) unfolding asked_def by (metis set_mset_mset)
  moreover have "distinct asked = distinct new"
    using D(4) unfolding asked_def by (rule mset_eq_imp_distinct_iff)
  ultimately have A: "distinct asked \<and> (\<forall>h. is_inflight h s' \<longleftrightarrow> is_inflight h s \<or> h \<in> set asked)
      \<and> (\<forall>h \<in> set asked. \<not> is_inflight h s \<and> \<not> HasBlock bc h)
      \<and> (\<forall>h. is_inflight h s \<longrightarrow> map_of (sy_inflightBlocks s') h = map_of (sy_inflightBlocks s) h)"
    using dispatched_summary [OF D(3)] by simp
  have full: "window_full s' \<Longrightarrow> int (length (sy_inflightBlocks s')) = sc_MaxInflightBlocks (sy_cfg s)"
    using D(2) dispatched_fields(1) [OF D(3)] by (simp add: window_full_def sync_inv_def window_ok_def)
  show ?thesis
    unfolding asked_def [symmetric] using D(1,5,6,7) A full
    by (intro exI [of _ s'] exI [of _ es] exI [of _ best]) (auto simp: asked_def)
qed

theorem dispatch_exact_witness:
  "\<exists>s' es. dispatchQueuedBlocks demo_od demo_chain 4 demo_fetch = Some (s', es)
     \<and> distinct (concat (map requested es)) \<and> is_inflight 2 s'"
proof -
  have on: "sc_Transport (sy_cfg demo_fetch)" "sc_Chain (sy_cfg demo_fetch)" "is_inflight 2 demo_fetch"
    by (simp_all add: demo_fetch_def demo_fresh_def NewSyncer_def demo_cfg_def Let_def is_inflight_def)
  from dispatch_exact [OF demo_fetch_reachable demo_od_fair on(1,2), of demo_chain 4] on(3) show ?thesis
    unfolding Let_def by blast
qed

text \<open>
  C30: Requests that nobody answers end: after as many rounds of timeouts as the retry limit, each
  at least the timeout after the one before and the first not before any deadline, nothing of what was in
  flight is left, for every order in which the window is ranged over.
\<close>
theorem retries_end:
  assumes "sync_reachable sha cfg s" and "fair_orders od"
    and "sc_Transport (sy_cfg s)" and "sc_Chain (sy_cfg s)"
    and "spaced (sc_SyncTimeout (sy_cfg s)) ts" and "int (length ts) \<ge> sc_BlockRetryLimit (sy_cfg s)"
    and "\<forall>(h, r) \<in> set (sy_inflightBlocks s). ir_deadline r \<le> hd ts"
  shows "\<exists>s'. ticks od bc ts s = Some s' \<and> sy_inflightBlocks s' = []"
proof -
  have inv: "sync_inv s" by (rule sync_reachable_inv [OF assms(1)])
  have "ts \<noteq> []" using inv assms(6) by (auto simp: sync_inv_def config_ok_def)
  moreover have "tried 1 (hd ts) s"
    using inv assms(7) by (auto simp: tried_def sync_inv_def window_ok_def dest!: map_of_SomeD)
  ultimately obtain s' where s': "ticks od bc ts s = Some s'" "sync_inv s'" "sy_cfg s' = sy_cfg s"
      "tried (1 + int (length ts)) (last ts + sc_SyncTimeout (sy_cfg s)) s'"
    using ticks_tried [OF inv assms(2-4) _ assms(5)] by blast
  have "map_of (sy_inflightBlocks s') h = None" for h
  proof (cases "map_of (sy_inflightBlocks s') h")
    case (Some r)
    then have "1 + int (length ts) \<le> ir_attempts r" "ir_attempts r \<le> sc_BlockRetryLimit (sy_cfg s)"
      using s' window_fields [of s' h r] by (auto simp: tried_def sync_inv_def)
    then show ?thesis using assms(6) by simp
  qed
  then have "sy_inflightBlocks s' = []" by (metis list.set_intros(1) map_of_eq_None_iff image_eqI neq_Nil_conv set_map)
  with s'(1) show ?thesis by blast
qed

theorem retries_end_witness:
  "\<exists>s'. ticks demo_od demo_chain [13, 23, 40] demo_fetch = Some s' \<and> sy_inflightBlocks s' = []"
proof (rule retries_end [OF demo_fetch_reachable demo_od_fair])
  show "spaced (sc_SyncTimeout (sy_cfg demo_fetch)) [13, 23, 40]"
    by (auto simp: spaced_def less_Suc_eq numeral_3_eq_3 demo_fetch_def demo_fresh_def NewSyncer_def demo_cfg_def Let_def)
qed (simp_all add: demo_fetch_def demo_fresh_def NewSyncer_def demo_cfg_def Let_def)

text \<open>
  C31: A round of \<^verbatim>\<open>catchUpIfBehind\<close> always returns, and its outcome depends on the best peer only:
  with no peer to follow it asks nobody; when the chain is level with it the syncer is idle and no
  sync work is left; when the chain is behind it is not idle, it sends at most one header request,
  and then to the peer it follows, with the locator of the chain, and remembers that it is waiting.
\<close>
theorem catch_up_outcome:
  assumes "sync_reachable sha cfg s" and "fair_orders od" and "chain_reachable sha ord bc" and "fair_ranging ord"
    and "sc_Chain (sy_cfg s)"
  shows "\<exists>s' es p ht h w. catchUpIfBehind od bc now s = Some (s', es)
     \<and> BestPeer (od_peers od) now (sy_peers s') = Some (p, ht, h, w)
     \<and> (case w of
          None \<Rightarrow> rpcs es = []
        | Some bw \<Rightarrow>
            if the (TipCumWork bc) < bw \<or> TipHeight bc < ht
            then sy_state s' \<noteq> SyncIdle
               \<and> (rpcs es = []
                  \<or> (rpcs es = [StartRPC (sy_syncPeer s') MsgGetHeaders
                         (GetHeadersPayload (Locator 32 bc) (sc_MaxHeaders (sy_cfg s'))) (sc_SyncTimeout (sy_cfg s'))]
                     \<and> sy_state s' = SyncingHeaders \<and> sy_headerReqInFlight s' \<and> sy_syncPeer s' \<noteq> ''''))
            else sy_state s' = SyncIdle \<and> syncWorkDone s' \<and> rpcs es = [])"
proof -
  have inv: "sync_inv s" by (rule sync_reachable_inv [OF assms(1)])
  have "chain_inv sha bc" using chain_reachable_inv [OF assms(3,4)] by simp
  then obtain lw where lw: "TipCumWork bc = Some lw"
    using chain_inv_tip chain_inv_stored by (fastforce simp: TipCumWork_def stored_ok_def)
  show ?thesis
  proof (cases rule: catchUp_ok [OF inv assms(2) lw assms(5), of now])
    case (1 s3 s' e4 es)
    note i = leave_backoff_inv [OF 1(2), of now]
    let ?s = "leave_backoff now s3"
    show ?thesis
    proof (cases rule: decide_ok [OF i assms(2) lw, of now])
      case nobody: 1
      then have "s' = ?s" "e4 = []" using 1(3) by auto
      then show ?thesis using 1(1,5) nobody(2) by (auto simp: rpcs_def)
    next
      case level: (2 p ht h bw)
      then have "s' = resetSyncState ?s" "e4 = []" using 1(3) by auto
      moreover have "syncWorkDone (resetSyncState ?s)"
        by (auto simp: syncWorkDone_def resetSyncState_def drop_sync_work_def no_wanted_def)
      ultimately show ?thesis using 1(1,5) level(1,2) lw
        by (intro exI [of _ s'] exI [of _ "es @ e4"] exI [of _ p] exI [of _ ht] exI [of _ h] exI [of _ "Some bw"])
          (auto simp: resetSyncState_def is_behind_def rpcs_def)
    next
      case behind: (3 p ht h bw)
      then have a: "advance bc p ?s = (s', e4)" using 1(3) by auto
      then have "sy_peers s' = sy_peers ?s" "sy_state s' \<noteq> SyncIdle"
          "e4 = [] \<or> (e4 = [StartRPC (sy_syncPeer s') MsgGetHeaders
             (GetHeadersPayload (Locator 32 bc) (sc_MaxHeaders (sy_cfg s'))) (sc_SyncTimeout (sy_cfg s'))]
             \<and> sy_state s' = SyncingHeaders \<and> sy_headerReqInFlight s' \<and> sy_syncPeer s' \<noteq> '''')"
        using behind(2) by (cases "sy_state ?s"; auto simp: advance_def maybeStartHeaderRequest_def Let_def split: if_splits)+
      then show ?thesis using 1(1,5) behind(1,3) lw
        by (intro exI [of _ s'] exI [of _ "es @ e4"] exI [of _ p] exI [of _ ht] exI [of _ h] exI [of _ "Some bw"])
          (auto simp: is_behind_def rpcs_def)
    qed
  qed
qed

theorem catch_up_outcome_witness:
  "\<exists>s' es. catchUpIfBehind demo_od demo_chain 6 demo_ahead = Some (s', es) \<and> length (rpcs es) \<le> 1"
proof -
  have "sc_Chain (sy_cfg demo_ahead)" by (simp add: demo_ahead_def demo_fresh_def NewSyncer_def demo_cfg_def Let_def)
  from catch_up_outcome [OF demo_ahead_reachable demo_od_fair demo_chain_reachable fair_ranging_id this, of 6]
  show ?thesis by (fastforce split: option.splits if_splits)
qed

text \<open>An answer that offers nothing new leaves everything but the flags alone.\<close>

lemma queue_metas_nothing:
  "\<forall>m \<in> set metas. IsZero (bm_Hash m) \<or> HasBlock bc (bm_Hash m) \<Longrightarrow> sc_Chain (sy_cfg s) \<Longrightarrow>
   queue_metas bc p metas s q = (s, q)"
  by (induction metas) auto

lemma dispatch_nothing:
  assumes "sync_inv s" "best_peer od now s = Some b" "wq_queue (sy_parent s) = []" "wq_queue (sy_sync s) = []"
    "wq_queue (sy_inv s) = []"
  shows "dispatchQueuedBlocks od bc now s = Some (s, [])"
proof -
  have "popNextQueuedLocked s = (None, s)"
    using assms by (cases rule: popNext_cases [OF sync_coreD [OF assms(1)]]) auto
  then show ?thesis using assms
    by (simp add: dispatchQueuedBlocks_def dispatch_front.simps dispatch_sync.simps dispatch_inv.simps)
qed

text \<open>
  A peer that claims more work but answers every header request with nothing new is followed
  for ever: the answer brings the syncer back to the very state it was waiting in, with the same
  request to the same peer on its way; no failure is counted, no backoff entered, and no other
  peer, however good, is asked.
\<close>

lemma empty_headers_stall:
  assumes "sync_reachable sha cfg s" and "fair_orders od" and "sc_Chain (sy_cfg s)" and "sc_RPC (sy_cfg s)"
    and "sy_state s = SyncingHeaders" and "sy_headerReqInFlight s" and "sy_headerRetries s = 0"
    and "sy_syncPeer s = p" and "p \<noteq> ''''" and "p \<noteq> sc_NodeID (sy_cfg s)"
    and "sy_inflightBlocks s = []" and "sy_headersCh s = []"
    and "wq_queue (sy_parent s) = [] \<and> wq_queue (sy_sync s) = [] \<and> wq_queue (sy_inv s) = []"
    and "msg_Type m = MsgHeaders" and "msg_Payload m = HeadersPayload metas"
    and "\<forall>mt \<in> set metas. HasBlock bc (bm_Hash mt)"
    and "BestPeer (od_peers od) now (sy_peers s) = Some (best, ht, th, Some bw)" and "best \<noteq> ''''"
    and "TipCumWork bc = Some lw" and "lw < bw"
  shows "catchUpIfBehind od bc now (header_reply p (Some m) s) =
     Some (s, [StartRPC p MsgGetHeaders (GetHeadersPayload (Locator 32 bc) (sc_MaxHeaders (sy_cfg s)))
                (sc_SyncTimeout (sy_cfg s))])"
proof -
  let ?r = "\<lparr>hr_peer = p, hr_ok = True, hr_metas = metas\<rparr>"
  let ?s1 = "s\<lparr>sy_headersCh := [?r]\<rparr>"
  have r: "header_reply p (Some m) s = ?s1" using assms(12,14,15) by (simp add: header_reply_def Let_def)
  have "sync_inv ?s1" using sync_reachable_inv [OF assms(1)] by (simp add: sync_inv_def window_ok_def)
  moreover have "best_peer od now ?s1 = Some best" using assms(17) by (simp add: best_peer_def)
  ultimately have d: "dispatchQueuedBlocks od bc now ?s1 = Some (?s1, [])"
    using assms(13) by (intro dispatch_nothing) auto
  have t: "tickInflight od bc now ?s1 = Some (?s1, [])" using assms(11) by (simp add: tickInflight_def)
  have "queue_metas bc p metas (s\<lparr>sy_headersCh := [], sy_headerReqInFlight := False, sy_headerRetries := 0\<rparr>) False
      = (s\<lparr>sy_headersCh := [], sy_headerReqInFlight := False, sy_headerRetries := 0\<rparr>, False)"
    by (rule queue_metas_nothing) (use assms(3,16) in auto)
  then have h: "drainHeaderResults od bc now ?s1 = Some (s\<lparr>sy_headerReqInFlight := False\<rparr>, [])"
    using assms(7,12) by (simp add: drainHeaderResults_def header_result_def Let_def)
  have "sy_headerReqInFlight_update (\<lambda>_. True) s = s" using assms(6) by simp
  then have "decide od bc now (leave_backoff now (s\<lparr>sy_headerReqInFlight := False\<rparr>)) =
     Some (s, [StartRPC p MsgGetHeaders (GetHeadersPayload (Locator 32 bc) (sc_MaxHeaders (sy_cfg s)))
                (sc_SyncTimeout (sy_cfg s))])"
    using assms by (simp add: decide_def leave_backoff_def advance_def is_behind_def maybeStartHeaderRequest_def Let_def)
  then show ?thesis using assms(3) t d h by (simp add: catchUpIfBehind_def r)
qed

lemma empty_headers_stall_witness:
  "catchUpIfBehind demo_od demo_chain 7
     (header_reply ''p'' (Some (direct_message 7 ''p'' ''n'' ''n-2'' MsgHeaders (HeadersPayload []))) demo_asking)
     = Some (demo_asking, [StartRPC ''p'' MsgGetHeaders (GetHeadersPayload (Locator 32 demo_chain) 2000) 10])"
proof -
  have "BestPeer (od_peers demo_od) 7 (sy_peers demo_asking) = Some (''p'', 5, 9, Some 9)"
    using demo_ahead_best [of 7] by (simp add: demo_asking_def)
  moreover have "TipCumWork demo_chain = Some 0" by (simp add: TipCumWork_def demo_chain_def)
  ultimately show ?thesis
    using empty_headers_stall [OF demo_asking_reachable [of demo_digest] demo_od_fair, where bc = demo_chain and now = 7
        and p = "''p''" and metas = "[]" and m = "direct_message 7 ''p'' ''n'' ''n-2'' MsgHeaders (HeadersPayload [])"]
    by (simp add: direct_message_def demo_asking_def demo_ahead_def demo_fresh_def NewSyncer_def demo_cfg_def
        no_wanted_def Let_def)
qed

text \<open>A block that does not hash to what it claims is refused by the chain.\<close>

lemma bogus_refused:
  assumes "blk_Hash b = h" "h \<noteq> 0" "bh_Height (blk_Header b) > 0" "HasBlock bc (bh_PrevHash (blk_Header b))"
    "\<not> HasBlock bc h" "header_hash sha (blk_Header b) (blk_Nonce b) \<noteq> h"
  shows "\<exists>e. AddBlock sha ord (Some b) bc = Some (no_change bc, Some e, bc)"
proof -
  have k: "block_key sha b = h" using assms(1,2) by (simp add: block_key_def)
  obtain pb where pb: "bc_blocks bc (bh_PrevHash (blk_Header b)) = Some pb" using assms(4) by (auto simp: HasBlock_def)
  have "validateBlockUnlocked sha bc b pb h \<noteq> None" using assms(6) by (simp add: validateBlockUnlocked_def)
  then obtain e where "validateBlockUnlocked sha bc b pb h = Some e" by auto
  then have "addBlockUnlocked sha (Some b) bc = Some (no_change bc, Some e, bc)"
    using assms(3,5) pb by (simp add: addBlockUnlocked_Some k HasBlock_def word_gt_0)
  then show ?thesis by (simp add: AddBlock_def)
qed

text \<open>
  A request in flight is cancelled by any block that merely claims its hash, whoever sends it:
  the window entry is gone before the chain refuses the block, nothing is requested again, and the
  chain is as it was.
\<close>

lemma bogus_block_cancels:
  assumes "sync_reachable sha cfg s" and "is_inflight h s" and "blk_Hash b = h"
    and "header_hash sha (blk_Header b) (blk_Nonce b) \<noteq> h"
    and "bh_Height (blk_Header b) > 0" and "HasBlock bc (bh_PrevHash (blk_Header b))" and "\<not> HasBlock bc h"
    and "onBlock = (\<lambda>b (from :: string) bc. case AddBlock sha ord (Some b) bc of Some (_, _, bc') \<Rightarrow> bc' | None \<Rightarrow> bc)"
  shows "\<exists>s'. HandleBlock sha (Some onBlock) now (Some b) fromPeer (s, bc) = (s', bc) \<and> \<not> is_inflight h s'
     \<and> sy_parent s' = sy_parent s \<and> sy_sync s' = sy_sync s \<and> sy_inv s' = sy_inv s"
proof -
  have "h \<noteq> 0" using sync_reachable_inv [OF assms(1)] assms(2) window_fields [of s h]
    by (auto simp: is_inflight_def sync_inv_def)
  with bogus_refused [OF assms(3) _ assms(5,6,7,4), of ord] obtain e where
    "AddBlock sha ord (Some b) bc = Some (no_change bc, Some e, bc)" by auto
  moreover have "claimed_hash sha b = h" using assms(3) \<open>h \<noteq> 0\<close> by (simp add: claimed_hash_def)
  ultimately show ?thesis using \<open>h \<noteq> 0\<close> assms(8)
    by (auto simp: HandleBlock_def Let_def onBlockArrived_def is_inflight_def map_of_al_del record_answer_def
        split: option.split)
qed

lemma bogus_block_cancels_witness:
  "\<exists>s'. HandleBlock demo_digest
        (Some (\<lambda>b from bc. case AddBlock demo_digest (\<lambda>_ xs. xs) (Some b) bc of Some (_, _, bc') \<Rightarrow> bc' | None \<Rightarrow> bc))
        9 (Some ((demo_block 1 1 0 5)\<lparr>blk_Hash := 2\<rparr>)) ''evil'' (demo_fetch, demo_chain) = (s', demo_chain)
     \<and> \<not> is_inflight 2 s'"
  using bogus_block_cancels [OF demo_fetch_reachable, of 2 "(demo_block 1 1 0 5)\<lparr>blk_Hash := 2\<rparr>" demo_chain _ "\<lambda>_ xs. xs"]
  by (simp add: demo_header_hash demo_nonce demo_fetch_def is_inflight_def HasBlock_def demo_chain_def) blast

end
