(* ===== verification/Node.thy ===== *)
theory Node
  imports Syncer Mempool
begin

text \<open>
  \<^verbatim>\<open>internal/node/node.go\<close>: message routing, the answers to requests, the RPC helper, what a new
  block does to the mempool, and the miner. The state is the pair of the syncer and the rest of the
  node; the syncer's callbacks \<^verbatim>\<open>OnBlock\<close> and \<^verbatim>\<open>OnTx\<close> act on the rest. The goroutine that waits in
  \<^verbatim>\<open>rpc\<close> is an entry of \<open>nd_pendingRPC\<close> saying what it will do with the answer; the miner's loop is
  a job that advances one nonce at a time, so that messages can arrive between two attempts. A handler is
  a function: its run without interruption; \<open>Goroutines\<close> has the handlers section by section. The
  transport is set (\<open>NewNode\<close> is given one by every caller) and logging is left out.
\<close>

section \<open>State\<close>

text \<open>What the goroutine blocked on a request is doing: a tip probe or a header request.\<close>

datatype rpc_call = ProbeCall string gotime | HeaderCall string

record job =
  jb_tip :: hash
  jb_header :: block_header
  jb_txs :: "transaction list"
  jb_nonce :: uint64
  jb_attempts :: uint64

record node =
  nd_id :: string
  nd_chain :: blockchain
  nd_mempool :: mempool
  nd_difficulty :: uint32
  nd_maxTxPerBlk :: int
  nd_syncTimeout :: duration
  nd_maxHeaders :: int
  nd_minedBlocks :: uint64
  nd_recvBlocks :: uint64
  nd_hashAttempts :: uint64
  nd_knownTxIDs :: "string set"
  nd_txStore :: "string \<rightharpoonup> transaction"
  nd_pendingRPC :: "string \<rightharpoonup> rpc_call"
  nd_rpcSeq :: uint64
  nd_job :: "job option"

record node_config =
  nc_Difficulty :: uint32
  nc_MaxTxPerBlock :: int
  nc_SyncTimeout :: duration
  nc_MaxHeaders :: int
  nc_GetBlocksBatchSize :: int

record tip_event =
  te_NodeID :: string
  te_FromPeer :: string
  te_Height :: uint64
  te_TipHash :: hash
  te_Reorg :: "reorg option"

text \<open>The effects of a node: sends, and calls of \<^verbatim>\<open>onTipChange\<close>.\<close>

datatype node_effect = Net effect | TipChange tip_event

definition NewNode :: "string \<Rightarrow> blockchain \<Rightarrow> mempool option \<Rightarrow> node_config \<Rightarrow> syncer \<times> node" where
  "NewNode i chain mp cfg =
     (let mp = (case mp of None \<Rightarrow> New DefaultConfig | Some mp \<Rightarrow> mp);
          maxTx = (if nc_MaxTxPerBlock cfg \<le> 0 then 50 else nc_MaxTxPerBlock cfg);
          timeout = (if nc_SyncTimeout cfg \<le> 0 then 2 * second else nc_SyncTimeout cfg);
          maxHeaders = (if nc_MaxHeaders cfg \<le> 0 then 2000 else nc_MaxHeaders cfg);
          batch = (if nc_GetBlocksBatchSize cfg \<le> 0 then 64 else nc_GetBlocksBatchSize cfg)
      in (NewSyncer \<lparr>sc_NodeID = i, sc_Transport = True, sc_Chain = True, sc_RPC = True,
             sc_SyncTimeout = timeout, sc_MaxHeaders = maxHeaders, sc_BlocksBatchSize = batch,
             sc_ProbeInterval = 0, sc_MaxInflightBlocks = 0, sc_BlockRetryLimit = 0,
             sc_HeaderRetryLimit = 0, sc_BackoffDuration = 0\<rparr> None,
          \<lparr>nd_id = i, nd_chain = chain, nd_mempool = mp, nd_difficulty = nc_Difficulty cfg,
           nd_maxTxPerBlk = maxTx, nd_syncTimeout = timeout, nd_maxHeaders = maxHeaders,
           nd_minedBlocks = 0, nd_recvBlocks = 0, nd_hashAttempts = 0, nd_knownTxIDs = {},
           nd_txStore = Map.empty, nd_pendingRPC = Map.empty, nd_rpcSeq = 0, nd_job = None\<rparr>))"

section \<open>Transactions\<close>

definition rememberTx :: "transaction \<Rightarrow> node \<Rightarrow> node" where
  "rememberTx tx n = n\<lparr>nd_knownTxIDs := insert (tx_ID tx) (nd_knownTxIDs n),
     nd_txStore := (nd_txStore n)(tx_ID tx \<mapsto> tx)\<rparr>"

definition hasTx :: "node \<Rightarrow> string \<Rightarrow> bool" where
  "hasTx n txid \<longleftrightarrow> txid \<in> nd_knownTxIDs n"

text \<open>\<^verbatim>\<open>SubmitTransaction\<close> after \<^verbatim>\<open>types.NewTransaction\<close> has drawn the id of \<open>tx\<close>.\<close>

definition SubmitTransaction :: "gotime \<Rightarrow> transaction \<Rightarrow> node \<Rightarrow> node \<times> node_effect list" where
  "SubmitTransaction now tx n =
     (case Add now tx (nd_mempool n) of
        (added, mp) \<Rightarrow>
          let n = n\<lparr>nd_mempool := mp\<rparr>;
              n = (if added then rememberTx tx n else n)
          in if added \<or> CanBroadcast now (tx_ID tx) (nd_mempool n) then
               if \<not> added \<and> \<not> hasTx n (tx_ID tx) then (n, [])
               else (n\<lparr>nd_mempool := MarkBroadcast now (tx_ID tx) (nd_mempool n)\<rparr>,
                     [Net (Broadcast (nd_id n) (inv_message now (nd_id n) MsgInvTx (InvTxPayload (tx_ID tx))))])
             else (n, []))"

definition acceptTxFromPeer :: "gotime \<Rightarrow> transaction \<Rightarrow> string \<Rightarrow> node \<Rightarrow> bool \<times> node" where
  "acceptTxFromPeer now tx from n =
     (if tx_ID tx = '''' then (False, n)
      else if hasTx n (tx_ID tx) then (False, n)
      else case Add now tx (nd_mempool n) of
             (added, mp) \<Rightarrow>
               if \<not> added then (False, n\<lparr>nd_mempool := mp\<rparr>)
               else (True, rememberTx tx (n\<lparr>nd_mempool := mp\<rparr>)))"

section \<open>Blocks\<close>

definition tx_ids :: "transaction list \<Rightarrow> string set" where
  "tx_ids txs = set (map tx_ID txs)"

definition removeTxsFromBlock :: "block \<Rightarrow> node \<Rightarrow> node" where
  "removeTxsFromBlock b n =
     (if length (blk_Txs b) = 0 then n
      else n\<lparr>nd_mempool := RemoveByID (tx_ids (blk_Txs b)) (nd_mempool n)\<rparr>)"

text \<open>The two loops of \<^verbatim>\<open>applyReorg\<close>; a nil block in the report would be dereferenced.\<close>

fun return_removed :: "(nat \<Rightarrow> gotime) \<Rightarrow> block option list \<Rightarrow> mempool \<Rightarrow> mempool option" where
  "return_removed clock [] mp = Some mp"
| "return_removed clock (None # bs) mp = None"
| "return_removed clock (Some b # bs) mp =
     return_removed (\<lambda>i. clock (i + length (blk_Txs b))) bs (Return clock (blk_Txs b) mp)"

fun added_ids :: "block option list \<Rightarrow> string set option" where
  "added_ids [] = Some {}"
| "added_ids (None # bs) = None"
| "added_ids (Some b # bs) = map_option (\<lambda>is. tx_ids (blk_Txs b) \<union> is) (added_ids bs)"

definition applyReorg :: "(nat \<Rightarrow> gotime) \<Rightarrow> reorg \<Rightarrow> node \<Rightarrow> node option" where
  "applyReorg clock r n = do {
     mp \<leftarrow> return_removed clock (rg_Removed r) (nd_mempool n);
     ids \<leftarrow> added_ids (rg_Added r);
     Some (n\<lparr>nd_mempool := RemoveByID ids mp\<rparr>)
   }"

definition block_meta_of :: "block \<Rightarrow> hash \<Rightarrow> block_meta" where
  "block_meta_of b h = \<lparr>bm_Header = blk_Header b, bm_Nonce = blk_Nonce b, bm_Hash = h\<rparr>"

definition announce :: "gotime \<Rightarrow> node \<Rightarrow> block \<Rightarrow> hash \<Rightarrow> node_effect" where
  "announce now n b h = Net (Broadcast (nd_id n)
     (inv_message now (nd_id n) MsgInvBlock (InvBlockPayload (block_meta_of b h))))"

definition tip_change :: "node \<Rightarrow> string \<Rightarrow> reorg option \<Rightarrow> node_effect" where
  "tip_change n from r = TipChange \<lparr>te_NodeID = nd_id n, te_FromPeer = from,
     te_Height = TipHeight (nd_chain n), te_TipHash = TipHash (nd_chain n), te_Reorg = r\<rparr>"

definition onNewBlock :: "digest \<Rightarrow> (hash \<times> block) ranging \<Rightarrow> gotime \<Rightarrow> block \<Rightarrow> string \<Rightarrow>
    node \<times> node_effect list \<Rightarrow> (node \<times> node_effect list) option" where
  "onNewBlock sha ord now b from ne =
     (case ne of (n, es) \<Rightarrow> do {
        (res, err, chain) \<leftarrow> AddBlock sha ord (Some b) (nd_chain n);
        let n = n\<lparr>nd_chain := chain\<rparr>;
        if err \<noteq> None \<or> \<not> ar_Added res then Some (n, es)
        else do {
          let n = n\<lparr>nd_recvBlocks := nd_recvBlocks n + 1\<rparr>;
          let h = claimed_hash sha b;
          n \<leftarrow> (case ar_Reorg res of
                  Some r \<Rightarrow> applyReorg (\<lambda>_. now) r n
                | None \<Rightarrow> Some (if ar_IsNewTip res then removeTxsFromBlock b n else n));
          Some (n, es @ (if ar_IsNewTip res then [announce now n b h, tip_change n from (ar_Reorg res)] else []))
        }
      })"

section \<open>Answers\<close>

definition onGetTx :: "gotime \<Rightarrow> string \<Rightarrow> string \<Rightarrow> node \<Rightarrow> node_effect list" where
  "onGetTx now txid requester n =
     (if txid = '''' \<or> requester = '''' then []
      else case nd_txStore n txid of
             None \<Rightarrow> []
           | Some tx \<Rightarrow> [Net (Send requester (direct_message now (nd_id n) requester '''' MsgTx (TxPayload tx)))])"

definition onGetBlock :: "gotime \<Rightarrow> hash \<Rightarrow> string \<Rightarrow> node \<Rightarrow> node_effect list" where
  "onGetBlock now h requester n =
     (if requester = '''' then []
      else case BlockByHash (nd_chain n) h of
             None \<Rightarrow> []
           | Some b \<Rightarrow> [Net (Send requester (direct_message now (nd_id n) requester '''' MsgBlock (BlockPayload (Some b))))])"

definition onGetTip :: "gotime \<Rightarrow> string \<Rightarrow> string \<Rightarrow> node \<Rightarrow> node_effect list option" where
  "onGetTip now requester traceID n =
     (if requester = '''' \<or> traceID = '''' then Some []
      else do {
        work \<leftarrow> TipCumWork (nd_chain n);
        Some [Net (Send requester (direct_message now (nd_id n) requester traceID MsgTip
                (TipPayload (TipHash (nd_chain n)) (TipHeight (nd_chain n)) (dec_int work))))]
      })"

definition onGetHeaders :: "gotime \<Rightarrow> hash list \<Rightarrow> int \<Rightarrow> string \<Rightarrow> string \<Rightarrow> node \<Rightarrow> node_effect list option" where
  "onGetHeaders now locator mx requester traceID n =
     (if requester = '''' \<or> traceID = '''' then Some []
      else do {
        let m = (if mx \<le> 0 \<or> mx > nd_maxHeaders n then nd_maxHeaders n else mx);
        metas \<leftarrow> MainChainMetasFromLocator locator m (nd_chain n);
        Some [Net (Send requester (direct_message now (nd_id n) requester traceID MsgHeaders (HeadersPayload metas)))]
      })"

definition onGetBlocks :: "gotime \<Rightarrow> hash list \<Rightarrow> string \<Rightarrow> string \<Rightarrow> node \<Rightarrow> node_effect list" where
  "onGetBlocks now hashes requester traceID n =
     (if requester = '''' then []
      else [Net (Send requester (direct_message now (nd_id n) requester traceID MsgBlocks
              (BlocksPayload (map Some (List.map_filter (BlockByHash (nd_chain n)) hashes)))))])"

section \<open>Requests\<close>

definition trace_id :: "string \<Rightarrow> uint64 \<Rightarrow> string" where
  "trace_id self seq = self @ ''-'' @ dec_nat (unat seq)"

text \<open>The continuation of a request once \<^verbatim>\<open>rpc\<close> returns, with its answer or without.\<close>

definition rpc_return :: "gotime \<Rightarrow> rpc_call \<Rightarrow> message option \<Rightarrow> syncer \<Rightarrow> syncer" where
  "rpc_return now c resp s =
     (case c of
        ProbeCall p start \<Rightarrow> probe_result now p resp (now - start) s
      | HeaderCall p \<Rightarrow> header_reply p resp s)"

text \<open>The first half of \<^verbatim>\<open>rpc\<close>: allocate a trace, register the channel, send.\<close>

definition rpc :: "gotime \<Rightarrow> string \<Rightarrow> msg_type \<Rightarrow> payload \<Rightarrow> rpc_call \<Rightarrow> syncer \<times> node \<Rightarrow>
    (syncer \<times> node) \<times> node_effect list" where
  "rpc now to typ pl c sn =
     (case sn of (s, n) \<Rightarrow>
      if to = '''' then ((rpc_return now c None s, n), [])
      else let n = n\<lparr>nd_rpcSeq := nd_rpcSeq n + 1\<rparr>;
               traceID = trace_id (nd_id n) (nd_rpcSeq n);
               n = n\<lparr>nd_pendingRPC := (nd_pendingRPC n)(traceID \<mapsto> c)\<rparr>
           in ((s, n), [Net (Send to (direct_message now (nd_id n) to traceID typ pl))]))"

text \<open>The end of \<^verbatim>\<open>rpc\<close> when the timer fires first.\<close>

definition rpc_timeout :: "gotime \<Rightarrow> string \<Rightarrow> syncer \<times> node \<Rightarrow> syncer \<times> node" where
  "rpc_timeout now traceID sn =
     (case sn of (s, n) \<Rightarrow>
      (case nd_pendingRPC n traceID of
         None \<Rightarrow> (s, n)
       | Some c \<Rightarrow> (rpc_return now c None s, n\<lparr>nd_pendingRPC := (nd_pendingRPC n)(traceID := None)\<rparr>)))"

text \<open>\<^verbatim>\<open>tryDeliverRPC\<close>: the answer goes to the waiting goroutine, which then goes on.\<close>

definition tryDeliverRPC :: "gotime \<Rightarrow> message \<Rightarrow> syncer \<times> node \<Rightarrow> (syncer \<times> node) option" where
  "tryDeliverRPC now msg sn =
     (case sn of (s, n) \<Rightarrow>
      if msg_TraceID msg = '''' then None
      else (case nd_pendingRPC n (msg_TraceID msg) of
              None \<Rightarrow> None
            | Some c \<Rightarrow> Some (rpc_return now c (Some msg) s,
                               n\<lparr>nd_pendingRPC := (nd_pendingRPC n)(msg_TraceID msg := None)\<rparr>)))"

text \<open>The effects of the syncer: sends go to the transport, requests through \<^verbatim>\<open>rpc\<close>.\<close>

definition run_effect :: "gotime \<Rightarrow> effect \<Rightarrow> (syncer \<times> node) \<times> node_effect list \<Rightarrow>
    (syncer \<times> node) \<times> node_effect list" where
  "run_effect now e st =
     (case st of (sn, es) \<Rightarrow>
      (case e of
         StartRPC p typ pl timeout \<Rightarrow>
           (case rpc now p typ pl (if typ = MsgGetTip then ProbeCall p now else HeaderCall p) sn of
              (sn, es') \<Rightarrow> (sn, es @ es'))
       | _ \<Rightarrow> (sn, es @ [Net e])))"

definition run_effects :: "gotime \<Rightarrow> effect list \<Rightarrow> syncer \<times> node \<Rightarrow> (syncer \<times> node) \<times> node_effect list" where
  "run_effects now es sn = fold (run_effect now) es (sn, [])"

section \<open>Routing\<close>

text \<open>The callbacks, on the rest of the node and the effects so far; \<open>None\<close> stays a panic.\<close>

definition on_block :: "digest \<Rightarrow> (hash \<times> block) ranging \<Rightarrow> gotime \<Rightarrow> block \<Rightarrow> string \<Rightarrow>
    (node \<times> node_effect list) option \<Rightarrow> (node \<times> node_effect list) option" where
  "on_block sha ord now b from w = Option.bind w (onNewBlock sha ord now b from)"

definition HandleMessage :: "digest \<Rightarrow> (hash \<times> block) ranging \<Rightarrow> orders \<Rightarrow> gotime \<Rightarrow> message \<Rightarrow> syncer \<times> node \<Rightarrow>
    ((syncer \<times> node) \<times> node_effect list) option" where
  "HandleMessage sha ord od now msg sn =
     (case tryDeliverRPC now msg sn of
        Some sn \<Rightarrow> Some (sn, [])
      | None \<Rightarrow>
          (case sn of (s, n) \<Rightarrow>
           let stay = Some ((s, n), []); answer = (\<lambda>es. Some ((s, n), es)); from = msg_From msg in
           if msg_Type msg = MsgInvTx then
             (case msg_Payload msg of
                InvTxPayload txid \<Rightarrow>
                  (case HandleInvTx (Some (hasTx n)) now txid from s of (s, es) \<Rightarrow> Some ((s, n), map Net es))
              | _ \<Rightarrow> stay)
           else if msg_Type msg = MsgGetTx then
             (case msg_Payload msg of GetTxPayload txid \<Rightarrow> answer (onGetTx now txid from n) | _ \<Rightarrow> stay)
           else if msg_Type msg = MsgTx then
             (case msg_Payload msg of
                TxPayload tx \<Rightarrow>
                  (case HandleTx (Some (acceptTxFromPeer now)) now tx from (s, n) of (sn, es) \<Rightarrow> Some (sn, map Net es))
              | _ \<Rightarrow> stay)
           else if msg_Type msg = MsgInvBlock then
             (case msg_Payload msg of
                InvBlockPayload meta \<Rightarrow> do {
                  (s, es) \<leftarrow> HandleInvBlock sha od (nd_chain n) now meta from s;
                  Some ((s, n), map Net es)
                }
              | _ \<Rightarrow> stay)
           else if msg_Type msg = MsgGetBlock then
             (case msg_Payload msg of GetBlockPayload h \<Rightarrow> answer (onGetBlock now h from n) | _ \<Rightarrow> stay)
           else if msg_Type msg = MsgBlock then
             (case msg_Payload msg of
                BlockPayload (Some b) \<Rightarrow>
                  (case HandleBlock sha (Some (on_block sha ord now)) now (Some b) from (s, Some (n, [])) of
                     (s, w) \<Rightarrow> do { (n, es) \<leftarrow> w; Some ((s, n), es) })
              | _ \<Rightarrow> stay)
           else if msg_Type msg = MsgGetTip then Option.bind (onGetTip now from (msg_TraceID msg) n) answer
           else if msg_Type msg = MsgGetHeaders then
             (case msg_Payload msg of
                GetHeadersPayload locator mx \<Rightarrow>
                  Option.bind (onGetHeaders now locator mx from (msg_TraceID msg) n) answer
              | _ \<Rightarrow> stay)
           else if msg_Type msg = MsgGetBlocks then
             (case msg_Payload msg of
                GetBlocksPayload hashes \<Rightarrow> answer (onGetBlocks now hashes from (msg_TraceID msg) n)
              | _ \<Rightarrow> stay)
           else if msg_Type msg = MsgBlocks then
             (case msg_Payload msg of
                BlocksPayload blocks \<Rightarrow> do {
                  (s, w) \<leftarrow> HandleBlocks sha (Some (on_block sha ord now)) now blocks from (s, Some (n, []));
                  (n, es) \<leftarrow> w;
                  Some ((s, n), es)
                }
              | _ \<Rightarrow> stay)
           else stay))"

section \<open>Mining\<close>

text \<open>
  The top of the loop of \<^verbatim>\<open>minerLoop\<close>: a job on the present tip. The functions of this section are the
  runs of the miner in which no other goroutine comes in between; \<open>mine_start\<close> and \<open>mine_attempt\<close> in
  \<open>Goroutines\<close> read tip, height and mempool one after the other, and the stale work check and \<^verbatim>\<open>AddBlock\<close>
  are two sections there. \<open>Uninterrupted\<close> shows that they agree.
\<close>

definition mine_begin :: "digest \<Rightarrow> gotime \<Rightarrow> node \<Rightarrow> node" where
  "mine_begin sha now n =
     (let tipHash = TipHash (nd_chain n); tipHeight = TipHeight (nd_chain n) in
      case Pop (nd_maxTxPerBlk n) (nd_mempool n) of
        (txs, mp) \<Rightarrow>
          let header = \<lparr>bh_Height = tipHeight + 1, bh_PrevHash = tipHash, bh_Timestamp = UnixMilli now,
                        bh_Difficulty = nd_difficulty n, bh_MinerID = nd_id n,
                        bh_TxRoot = HashTransactions sha txs\<rparr>
          in n\<lparr>nd_mempool := mp,
               nd_job := Some \<lparr>jb_tip = tipHash, jb_header = header, jb_txs = txs, jb_nonce = 0, jb_attempts = 0\<rparr>\<rparr>)"

definition count_attempts :: "job \<Rightarrow> node \<Rightarrow> node" where
  "count_attempts j n = n\<lparr>nd_hashAttempts := nd_hashAttempts n + jb_attempts j, nd_job := None\<rparr>"

definition give_back :: "gotime \<Rightarrow> job \<Rightarrow> node \<Rightarrow> node" where
  "give_back now j n = count_attempts j (n\<lparr>nd_mempool := Return (\<lambda>_. now) (jb_txs j) (nd_mempool n)\<rparr>)"

text \<open>
  What the loop does once a hash is good: the stale work check, \<^verbatim>\<open>AddBlock\<close>, and the mempool; the
  announcement follows after the attempts are counted.
\<close>

definition adopt_mined :: "gotime \<Rightarrow> job \<Rightarrow> block \<Rightarrow> add_result \<Rightarrow> node \<Rightarrow> (node \<times> node_effect list) option" where
  "adopt_mined now j b res n = do {
     n \<leftarrow> (case ar_Reorg res of Some r \<Rightarrow> applyReorg (\<lambda>_. now) r n | None \<Rightarrow> Some n);
     let n = (if ar_IsNewTip res then removeTxsFromBlock b n else n);
     let n = count_attempts j (n\<lparr>nd_minedBlocks := nd_minedBlocks n + 1\<rparr>);
     Some (n, if ar_IsNewTip res
              then [tip_change n (nd_id n) (ar_Reorg res), announce now n b (blk_Hash b)] else [])
   }"

definition mine_found :: "digest \<Rightarrow> (hash \<times> block) ranging \<Rightarrow> gotime \<Rightarrow> job \<Rightarrow> hash \<Rightarrow> node \<Rightarrow>
    (node \<times> node_effect list) option" where
  "mine_found sha ord now j h n =
     (if TipHash (nd_chain n) \<noteq> jb_tip j then Some (give_back now j n, [])
      else let b = \<lparr>blk_Header = jb_header j, blk_Nonce = jb_nonce j, blk_Hash = h, blk_Txs = jb_txs j\<rparr> in
        do {
          (res, err, chain) \<leftarrow> AddBlock sha ord (Some b) (nd_chain n);
          let n = n\<lparr>nd_chain := chain\<rparr>;
          if err \<noteq> None \<or> \<not> ar_Added res then Some (give_back now j n, [])
          else adopt_mined now j b res n
        })"

text \<open>One attempt of the inner loop; the job ends when the hash is good.\<close>

definition mine_try :: "digest \<Rightarrow> (hash \<times> block) ranging \<Rightarrow> gotime \<Rightarrow> node \<Rightarrow> (node \<times> node_effect list) option" where
  "mine_try sha ord now n =
     (case nd_job n of
        None \<Rightarrow> Some (n, [])
      | Some j \<Rightarrow>
          let j = j\<lparr>jb_attempts := jb_attempts j + 1\<rparr> in
          (case HashHeaderNonce sha (jb_header j) (jb_nonce j) of
             Inl err \<Rightarrow> Some (n\<lparr>nd_job := Some (j\<lparr>jb_nonce := jb_nonce j + 1\<rparr>)\<rparr>, [])
           | Inr h \<Rightarrow>
               if MeetsDifficulty h (nd_difficulty n) then mine_found sha ord now j h n
               else Some (n\<lparr>nd_job := Some (j\<lparr>jb_nonce := jb_nonce j + 1\<rparr>)\<rparr>, [])))"

text \<open>The stop signal, seen at the top of the inner loop.\<close>

definition mine_stop :: "gotime \<Rightarrow> node \<Rightarrow> node" where
  "mine_stop now n = (case nd_job n of None \<Rightarrow> n | Some j \<Rightarrow> give_back now j n)"

definition mempoolCleanup :: "gotime \<Rightarrow> node \<Rightarrow> node" where
  "mempoolCleanup now n = n\<lparr>nd_mempool := CleanExpired now (nd_mempool n)\<rparr>"

definition Stats :: "node \<Rightarrow> uint64 \<times> uint64 \<times> uint64" where
  "Stats n = (nd_minedBlocks n, nd_recvBlocks n, TipHeight (nd_chain n))"

text \<open>\<^verbatim>\<open>DebugState\<close>: what the runner prints of a node, oldest block first.\<close>

record debug_block =
  db_Height :: uint64
  db_Hash :: hash
  db_TxCount :: int
  db_TxIDs :: "string list"

record debug_state =
  ds_NodeID :: string
  ds_TipHeight :: uint64
  ds_TipHash :: hash
  ds_MempoolSize :: int
  ds_MempoolTxIDs :: "string list"
  ds_MainChain :: "debug_block list"

definition debug_block_of :: "int \<Rightarrow> block \<Rightarrow> debug_block" where
  "debug_block_of blockTxMax b =
     (let n = int (length (blk_Txs b)) in
      \<lparr>db_Height = bh_Height (blk_Header b), db_Hash = blk_Hash b, db_TxCount = n,
       db_TxIDs = (if n > 0 \<and> blockTxMax \<noteq> 0 then
          (let txMax = (if blockTxMax < 0 \<or> blockTxMax > n then n else blockTxMax)
           in map (\<lambda>i. tx_ID (blk_Txs b ! i)) [0..<nat txMax]) else [])\<rparr>)"

definition DebugState :: "int \<Rightarrow> int \<Rightarrow> int \<Rightarrow> node \<Rightarrow> debug_state option" where
  "DebugState chainDepth mempoolMax blockTxMax n = do {
     blocks \<leftarrow> (if chainDepth \<noteq> 0 then MainChainBlocks chainDepth (nd_chain n) else Some []);
     Some \<lparr>ds_NodeID = nd_id n, ds_TipHeight = TipHeight (nd_chain n), ds_TipHash = TipHash (nd_chain n),
           ds_MempoolSize = Size (nd_mempool n),
           ds_MempoolTxIDs = map tx_ID (Snapshot mempoolMax (nd_mempool n)),
           ds_MainChain = map (debug_block_of blockTxMax) blocks\<rparr>
   }"

end
