(* ===== verification/NodeInv.thy ===== *)
theory NodeInv
  imports Node SyncerProps
begin

text \<open>
  The states a node can reach, and their invariant: chain, mempool and syncer keep theirs, the
  node mines at the difficulty of its chain, and the job of the miner fits the block it extends.
  Every operation returns, save one message (see \<open>NodeProps\<close>).
\<close>

section \<open>What a new block does to the mempool\<close>

lemma Return_append:
  "Return clock (xs @ ys) mp = Return (\<lambda>i. clock (i + length xs)) ys (Return clock xs mp)"
  by (induction xs arbitrary: clock mp) (simp_all add: o_def)

lemma return_removed_eq:
  "return_removed clock (map Some bs) mp = Some (Return clock (concat (map blk_Txs bs)) mp)"
  by (induction bs arbitrary: clock mp) (simp_all add: Return_append)

lemma added_ids_eq: "added_ids (map Some bs) = Some (tx_ids (concat (map blk_Txs bs)))"
  by (induction bs) (simp_all add: tx_ids_def)

lemma applyReorg_eq:
  "applyReorg clock \<lparr>rg_CommonAncestor = c, rg_Removed = map Some rm, rg_Added = map Some ad\<rparr> n
     = Some (n\<lparr>nd_mempool := RemoveByID (tx_ids (concat (map blk_Txs ad)))
                 (Return clock (concat (map blk_Txs rm)) (nd_mempool n))\<rparr>)"
  by (simp add: applyReorg_def return_removed_eq added_ids_eq)

text \<open>The blocks of a report are stored, so the loops of \<^verbatim>\<open>applyReorg\<close> meet no nil.\<close>

definition path_blocks :: "blockchain \<Rightarrow> hash list \<Rightarrow> block list" where
  "path_blocks bc hs = map (\<lambda>h. the (bc_blocks bc h)) hs"

lemma path_blocks_Some:
  assumes "chain_inv sha bc" "bc_blocks bc x = Some bx" "set hs \<subseteq> set (main_path bc x)"
  shows "map (bc_blocks bc) hs = map Some (path_blocks bc hs)"
  using main_path_known [OF assms(1,2)] assms(3) by (fastforce simp: path_blocks_def)

lemma reorg_blocks:
  assumes rep: "report_ok bc mid res" and inv: "chain_inv sha bc" "chain_inv sha mid"
    and ex: "extends bc mid" and r: "ar_Reorg res = Some r"
  obtains rm ad where "r = \<lparr>rg_CommonAncestor = rg_CommonAncestor r, rg_Removed = map Some rm, rg_Added = map Some ad\<rparr>"
    "\<And>b. b \<in> set ad \<Longrightarrow> \<exists>h \<in> set (main_path mid (bc_tip mid)). bc_blocks mid h = Some b"
proof -
  have "ar_IsNewTip res" using rep r by (auto simp: report_ok_def)
  with rep r obtain pre c rs as where
    p: "main_path mid (bc_tip bc) = pre @ [c] @ rs" "main_path mid (bc_tip mid) = pre @ [c] @ as"
    and r': "r = \<lparr>rg_CommonAncestor = c, rg_Removed = map (bc_blocks mid) rs, rg_Added = map (bc_blocks mid) as\<rparr>"
    unfolding report_ok_def by (metis option.inject option.distinct(1))
  obtain a where a: "bc_blocks mid (bc_tip bc) = Some a"
    using chain_inv_tip [OF inv(1)] extends_block [OF ex] by blast
  obtain b where b: "bc_blocks mid (bc_tip mid) = Some b" using chain_inv_tip [OF inv(2)] by blast
  have 1: "map (bc_blocks mid) rs = map Some (path_blocks mid rs)"
    using p(1) by (intro path_blocks_Some [OF inv(2) a]) auto
  have 2: "map (bc_blocks mid) as = map Some (path_blocks mid as)"
    using p(2) by (intro path_blocks_Some [OF inv(2) b]) auto
  show thesis
  proof (rule that [of "path_blocks mid rs" "path_blocks mid as"])
    show "r = \<lparr>rg_CommonAncestor = rg_CommonAncestor r, rg_Removed = map Some (path_blocks mid rs),
        rg_Added = map Some (path_blocks mid as)\<rparr>" using r' 1 2 by simp
  next
    fix x assume "x \<in> set (path_blocks mid as)"
    then obtain h where h: "h \<in> set as" "x = the (bc_blocks mid h)" by (auto simp: path_blocks_def)
    then have "h \<in> set (main_path mid (bc_tip mid))" using p(2) by simp
    with main_path_known [OF inv(2) b] h(2) show "\<exists>h \<in> set (main_path mid (bc_tip mid)). bc_blocks mid h = Some x"
      by force
  qed
qed

end
