(* ===== verification/NodeReach.thy ===== *)
theory NodeReach
  imports NodeInv
begin

text \<open>
  Every handler of \<open>Node\<close>, the RPC helper and the miner keep the invariant of \<open>NodeInv\<close>; so it holds
  in every state a node reaches, whatever messages it gets and whatever its miner finds.
\<close>

section \<open>The invariant of the node\<close>

text \<open>The miner's job fits the block it extends, and that block is still stored.\<close>

definition job_ok :: "digest \<Rightarrow> node \<Rightarrow> job \<Rightarrow> bool" where
  "job_ok sha n j \<longleftrightarrow>
     bh_PrevHash (jb_header j) = jb_tip j \<and> bh_Difficulty (jb_header j) = nd_difficulty n
     \<and> bh_TxRoot (jb_header j) = HashTransactions sha (jb_txs j)
     \<and> (\<exists>tb. bc_blocks (nd_chain n) (jb_tip j) = Some tb
           \<and> bh_Height (jb_header j) = bh_Height (blk_Header tb) + 1)"

definition node_inv :: "digest \<Rightarrow> node \<Rightarrow> bool" where
  "node_inv sha n \<longleftrightarrow> chain_inv sha (nd_chain n) \<and> orphans_waiting (nd_chain n) \<and> pool_inv (nd_mempool n)
     \<and> nd_difficulty n = bc_difficulty (nd_chain n) \<and> 0 < nd_maxHeaders n
     \<and> (\<forall>j. nd_job n = Some j \<longrightarrow> job_ok sha n j)"

lemma node_invD:
  assumes "node_inv sha n"
  shows "chain_inv sha (nd_chain n)" "orphans_waiting (nd_chain n)" "pool_inv (nd_mempool n)"
    "nd_difficulty n = bc_difficulty (nd_chain n)" "0 < nd_maxHeaders n" "nd_job n = Some j \<Longrightarrow> job_ok sha n j"
  using assms by (simp_all add: node_inv_def)

lemma node_inv_mempool: "node_inv sha n \<Longrightarrow> pool_inv m \<Longrightarrow> node_inv sha (n\<lparr>nd_mempool := m\<rparr>)"
  by (simp add: node_inv_def job_ok_def)

lemma node_inv_frame:
  assumes "node_inv sha n" "nd_chain n' = nd_chain n" "nd_mempool n' = nd_mempool n"
    "nd_difficulty n' = nd_difficulty n" "nd_maxHeaders n' = nd_maxHeaders n"
    "nd_job n' = nd_job n \<or> nd_job n' = None"
  shows "node_inv sha n'"
  using assms by (auto simp: node_inv_def job_ok_def)

lemma node_inv_chain:
  assumes "node_inv sha n" "extends (nd_chain n) c" "chain_inv sha c" "orphans_waiting c"
  shows "node_inv sha (n\<lparr>nd_chain := c\<rparr>)"
  using assms extends_block [OF assms(2)] by (auto simp: node_inv_def job_ok_def extends_def)

text \<open>Times of the probes still waiting.\<close>

definition probes_before :: "gotime \<Rightarrow> node \<Rightarrow> bool" where
  "probes_before t n \<longleftrightarrow> (\<forall>tr p st. nd_pendingRPC n tr = Some (ProbeCall p st) \<longrightarrow> st \<le> t)"

section \<open>A block for the node\<close>

lemma applyReorg_ok:
  assumes inv: "node_inv sha n" "chain_inv sha bc" and rep: "report_ok bc mid res" "chain_inv sha mid" "extends bc mid"
    and r: "ar_Reorg res = Some r"
  obtains rm ad mp where "applyReorg clock r n = Some (n\<lparr>nd_mempool := mp\<rparr>)" "pool_inv mp"
    "rg_Removed r = map Some rm" "rg_Added r = map Some ad"
    "mp = RemoveByID (tx_ids (concat (map blk_Txs ad))) (Return clock (concat (map blk_Txs rm)) (nd_mempool n))"
proof -
  from reorg_blocks [OF rep(1) inv(2) rep(2,3) r] obtain rm ad where
    eq: "r = \<lparr>rg_CommonAncestor = rg_CommonAncestor r, rg_Removed = map Some rm, rg_Added = map Some ad\<rparr>" by metis
  then have lists: "rg_Removed r = map Some rm" "rg_Added r = map Some ad" by (metis reorg.select_convs)+
  let ?mp = "RemoveByID (tx_ids (concat (map blk_Txs ad))) (Return clock (concat (map blk_Txs rm)) (nd_mempool n))"
  have "applyReorg clock r n = Some (n\<lparr>nd_mempool := ?mp\<rparr>)"
    by (subst eq) (rule applyReorg_eq)
  moreover have "pool_inv ?mp" using node_invD(3) [OF inv(1)] by (intro inv_intro)
  ultimately show thesis using lists by (intro that) auto
qed

lemma removeTxs_inv: "node_inv sha n \<Longrightarrow> node_inv sha (removeTxsFromBlock b n)"
  by (auto simp: removeTxsFromBlock_def intro!: node_inv_mempool RemoveByID_inv dest: node_invD(3))

lemma removeTxs_frame [simp]:
  "nd_chain (removeTxsFromBlock b n) = nd_chain n" "nd_pendingRPC (removeTxsFromBlock b n) = nd_pendingRPC n"
  "nd_id (removeTxsFromBlock b n) = nd_id n" "nd_job (removeTxsFromBlock b n) = nd_job n"
  by (simp_all add: removeTxsFromBlock_def)

text \<open>What \<^verbatim>\<open>AddBlock\<close> did to the node, before the mempool follows.\<close>

lemma node_add:
  assumes inv: "node_inv sha n" and fair: "fair_ranging ord"
  obtains res err mid bc where "AddBlock sha ord b (nd_chain n) = Some (res, err, bc)"
    "add_outcome sha (nd_chain n) b res err mid" "report_ok (nd_chain n) mid res"
    "chain_inv sha mid" "extends (nd_chain n) mid" "extends mid bc" "chain_inv sha bc"
    "node_inv sha (n\<lparr>nd_chain := bc\<rparr>)"
proof -
  note D = node_invD [OF inv]
  from AddBlock_ok [OF D(1,2), of ord b] obtain res err mid bc where
    A: "AddBlock sha ord b (nd_chain n) = Some (res, err, bc)" "add_outcome sha (nd_chain n) b res err mid"
      "chain_inv sha mid" "chain_inv sha bc" "extends (nd_chain n) mid" "extends mid bc" "orphans_waiting bc"
    using fair by metis
  have "report_ok (nd_chain n) mid res" using A(2) by cases auto
  moreover have "extends (nd_chain n) bc" using extends_trans [OF A(5,6) D(1) A(3,4)] .
  ultimately show thesis using that A node_inv_chain [OF inv] by blast
qed

lemma onNewBlock_ok:
  assumes inv: "node_inv sha n" and fair: "fair_ranging ord"
  obtains n' es' where "onNewBlock sha ord now b from (n, es) = Some (n', es @ es')" "node_inv sha n'"
    "nd_pendingRPC n' = nd_pendingRPC n"
proof -
  from node_add [OF assms, of "Some b"] obtain res err mid bc where
    A: "AddBlock sha ord (Some b) (nd_chain n) = Some (res, err, bc)" "report_ok (nd_chain n) mid res"
      "chain_inv sha mid" "extends (nd_chain n) mid" and inv': "node_inv sha (n\<lparr>nd_chain := bc\<rparr>)" by metis
  let ?n = "n\<lparr>nd_chain := bc, nd_recvBlocks := nd_recvBlocks n + 1\<rparr>"
  have i: "node_inv sha ?n" by (rule node_inv_frame [OF inv']) simp_all
  show thesis
  proof (cases "err \<noteq> None \<or> \<not> ar_Added res")
    case True
    then show thesis using inv' by (intro that [of "n\<lparr>nd_chain := bc\<rparr>" "[]"]) (simp_all add: onNewBlock_def A(1))
  next
    case False
    show thesis
    proof (cases "ar_Reorg res")
      case None
      let ?m = "if ar_IsNewTip res then removeTxsFromBlock b ?n else ?n"
      show thesis
        using False None i
        by (intro that [of ?m "if ar_IsNewTip res then [announce now ?m b (claimed_hash sha b),
              tip_change ?m from None] else []"]) (auto simp: onNewBlock_def A(1) Let_def intro: removeTxs_inv)
    next
      case (Some r)
      from applyReorg_ok [OF i node_invD(1) [OF inv] A(2-4) Some] obtain mp where
        "applyReorg (\<lambda>_. now) r ?n = Some (?n\<lparr>nd_mempool := mp\<rparr>)" "pool_inv mp" by metis
      then show thesis using False Some node_inv_mempool [OF i]
        by (intro that [of "?n\<lparr>nd_mempool := mp\<rparr>" "if ar_IsNewTip res then
              [announce now (?n\<lparr>nd_mempool := mp\<rparr>) b (claimed_hash sha b),
               tip_change (?n\<lparr>nd_mempool := mp\<rparr>) from (Some r)] else []"])
          (auto simp: onNewBlock_def A(1) Let_def)
    qed
  qed
qed

lemma on_block_ok:
  assumes "node_inv sha n" "fair_ranging ord"
  shows "\<exists>n' es'. on_block sha ord now b from (Some (n, es)) = Some (n', es') \<and> node_inv sha n'
     \<and> nd_pendingRPC n' = nd_pendingRPC n"
  using onNewBlock_ok [OF assms] unfolding on_block_def by (metis bind.bind_lunit)

lemma handle_each_ok:
  assumes "node_inv sha n" "fair_ranging ord" "sync_inv s"
  shows "\<exists>s' n' es'. handle_each sha (on_block sha ord now) from bs (s, Some (n, es)) = (s', Some (n', es'))
     \<and> node_inv sha n' \<and> nd_pendingRPC n' = nd_pendingRPC n \<and> sync_inv s'"
  using assms(1,3)
proof (induction bs arbitrary: s n es)
  case (Cons b bs)
  show ?case
  proof (cases b)
    case (Some x)
    from on_block_ok [OF Cons.prems(1) assms(2)] obtain n' es' where
      "on_block sha ord now x from (Some (n, es)) = Some (n', es')" "node_inv sha n'"
      "nd_pendingRPC n' = nd_pendingRPC n" by metis
    with Cons.IH [of n' "onBlockArrived (claimed_hash sha x) s" es'] Some Cons.prems(2) show ?thesis
      by (auto intro: onBlockArrived_inv)
  qed (use Cons in auto)
qed simp

section \<open>Messages\<close>

lemma rpc_return_inv:
  assumes "sync_inv s" "\<And>p st. c = ProbeCall p st \<Longrightarrow> st \<le> now"
  shows "sync_inv (rpc_return now c resp s)"
proof (cases c)
  case (ProbeCall p st)
  with assms show ?thesis using peers_good_report peers_good_tip
    by (auto simp: rpc_return_def probe_result_def sync_inv_def window_ok_def split: option.split)
next
  case (HeaderCall p)
  with assms(1) show ?thesis
    by (auto simp: rpc_return_def header_reply_def sync_inv_def window_ok_def split: option.split)
qed

lemma HandleInvBlock_ok:
  assumes "sync_inv s" "fair_orders od"
  obtains s' es where "HandleInvBlock sha od bc now meta p s = Some (s', es)" "sync_inv s'"
proof -
  let ?prev = "bh_PrevHash (bm_Header meta)"
  let ?s1 = "if bh_Height (bm_Header meta) > 0 \<and> \<not> IsZero ?prev \<and> \<not> HasBlock bc ?prev
             then enqueueBlock bc ?prev p BlkParent s else s"
  let ?s2 = "enqueueBlock bc (bm_Hash meta) p BlkInv ?s1"
  have i: "sync_inv ?s2" using assms(1) by (auto intro!: enqueueBlock_inv)
  have "fair_ranging (od_peers od)" using assms(2) by (simp add: fair_orders_def)
  from dispatch_ok [OF i this, of bc now] obtain s2 es2 where
    "dispatchQueuedBlocks od bc now ?s2 = Some (s2, es2)" "sync_inv s2" by blast
  moreover have "HandleInvBlock sha od bc now meta p s = Some (s, [])
      \<or> HandleInvBlock sha od bc now meta p s = dispatchQueuedBlocks od bc now ?s2"
    unfolding HandleInvBlock_def Let_def HashHeaderNonce_eq sum.case by auto
  ultimately show thesis using that assms(1) by metis
qed

text \<open>The one message that crashes the node: a list of blocks that starts with a nil one.\<close>

definition nil_blocks :: "message \<Rightarrow> bool" where
  "nil_blocks msg \<longleftrightarrow> msg_Type msg = MsgBlocks \<and> msg_From msg \<noteq> ''''
     \<and> (\<exists>bs. msg_Payload msg = BlocksPayload (None # bs))"

lemma onGetHeaders_returns:
  assumes inv: "node_inv sha n" and small: "nd_maxHeaders n + uint (TipHeight (nd_chain n)) < 2 ^ 63 - 1"
  shows "\<exists>es. onGetHeaders now loc mx from tr n = Some es"
proof -
  let ?bc = "nd_chain n"
  let ?m = "if mx \<le> 0 \<or> mx > nd_maxHeaders n then nd_maxHeaders n else mx"
  have "\<exists>ms. MainChainMetasFromLocator loc ?m ?bc = Some ms"
  proof (cases "bc_tip ?bc = 0")
    case True
    then show ?thesis by (simp add: MainChainMetasFromLocator_def mainChainHashesUnlocked_def)
  next
    case False
    obtain tb where tb: "bc_blocks ?bc (bc_tip ?bc) = Some tb" using chain_inv_tip [OF node_invD(1) [OF inv]] by auto
    have m: "0 < ?m" "?m \<le> nd_maxHeaders n" using node_invD(5) [OF inv] by auto
    have "int (length (main_path ?bc (bc_tip ?bc))) = uint (TipHeight ?bc) + 1"
      using length_main_path [OF node_invD(1) [OF inv] tb] chain_inv_ht [OF node_invD(1) [OF inv] tb]
      by (simp add: TipHeight_def)
    with m small have "?m + int (length (main_path ?bc (bc_tip ?bc))) < 2 ^ 63" by linarith
    from metas_eq [OF node_invD(1) [OF inv] False m(1) this] show ?thesis by blast
  qed
  then show ?thesis by (auto simp: onGetHeaders_def Let_def)
qed

definition good_state :: "digest \<Rightarrow> gotime \<Rightarrow> syncer \<times> node \<Rightarrow> bool" where
  "good_state sha t sn \<longleftrightarrow> sync_inv (fst sn) \<and> node_inv sha (snd sn) \<and> probes_before t (snd sn)"

lemma good_state_frame:
  assumes "good_state sha t (s, n)" "sync_inv s'" "node_inv sha n'" "nd_pendingRPC n' = nd_pendingRPC n"
  shows "good_state sha t (s', n')"
  using assms by (simp add: good_state_def probes_before_def)

lemma deliver_ok:
  assumes "good_state sha now sn" "tryDeliverRPC now msg sn = Some sn'"
  shows "good_state sha now sn'"
proof -
  obtain s n where sn: "sn = (s, n)" by (cases sn)
  from assms(2) sn obtain c where c: "nd_pendingRPC n (msg_TraceID msg) = Some c"
    and sn': "sn' = (rpc_return now c (Some msg) s, n\<lparr>nd_pendingRPC := (nd_pendingRPC n)(msg_TraceID msg := None)\<rparr>)"
    by (auto simp: tryDeliverRPC_def split: if_splits option.splits)
  have "sync_inv (rpc_return now c (Some msg) s)"
    using assms(1) c sn by (intro rpc_return_inv) (auto simp: good_state_def probes_before_def)
  moreover have "node_inv sha (n\<lparr>nd_pendingRPC := (nd_pendingRPC n)(msg_TraceID msg := None)\<rparr>)"
    using assms(1) sn by (auto simp: good_state_def intro: node_inv_frame)
  ultimately show ?thesis using assms(1) sn sn' by (auto simp: good_state_def probes_before_def)
qed

lemma acceptTx_ok:
  assumes "node_inv sha n"
  shows "node_inv sha (snd (acceptTxFromPeer now tx from n))
     \<and> nd_pendingRPC (snd (acceptTxFromPeer now tx from n)) = nd_pendingRPC n"
proof -
  have "node_inv sha (n\<lparr>nd_mempool := snd (Add now tx (nd_mempool n))\<rparr>)"
    using assms by (intro node_inv_mempool Add_inv node_invD(3))
  moreover from this have "node_inv sha (rememberTx tx (n\<lparr>nd_mempool := snd (Add now tx (nd_mempool n))\<rparr>))"
    by (rule node_inv_frame) (simp_all add: rememberTx_def)
  ultimately show ?thesis using assms
    by (auto simp: acceptTxFromPeer_def rememberTx_def split: prod.split)
qed

lemma HandleTx_ok:
  assumes "good_state sha t (s, n)"
  shows "good_state sha t (fst (HandleTx (Some (acceptTxFromPeer now)) now tx from (s, n)))"
proof -
  let ?s = "forget_tx_request (tx_ID tx) s"
  obtain ok n' where a: "acceptTxFromPeer now tx from n = (ok, n')" by fastforce
  have "sync_inv ?s" using assms by (auto simp: good_state_def forget_tx_request_def sync_inv_def window_ok_def)
  moreover have "node_inv sha n'" "nd_pendingRPC n' = nd_pendingRPC n"
    using acceptTx_ok [of sha n now tx "from"] a assms by (auto simp: good_state_def)
  ultimately have "good_state sha t (?s, n')" using good_state_frame [OF assms] by blast
  then show ?thesis using assms a by (auto simp: HandleTx_def Let_def)
qed

lemma HandleInvTx_inv: "sync_inv s \<Longrightarrow> sync_inv (fst (HandleInvTx f now i p s))"
  by (auto simp: HandleInvTx_def sync_inv_def window_ok_def)

lemma HandleBlock_ok:
  assumes "good_state sha t (s, n)" "fair_ranging ord"
  shows "\<exists>s' n' es. HandleBlock sha (Some (on_block sha ord now)) now (Some b) from (s, Some (n, [])) = (s', Some (n', es))
     \<and> good_state sha t (s', n')"
proof -
  have i: "node_inv sha n" using assms(1) by (simp add: good_state_def)
  from on_block_ok [OF i assms(2), of now b "from" "[]"] obtain n' es where
    "on_block sha ord now b from (Some (n, [])) = Some (n', es)" "node_inv sha n'" "nd_pendingRPC n' = nd_pendingRPC n" by metis
  moreover have "sync_inv (onBlockArrived h (record_answer now h from s))" for h
    using assms(1) by (auto simp: good_state_def intro!: onBlockArrived_inv record_answer_inv)
  ultimately show ?thesis using good_state_frame [OF assms(1)] by (auto simp: HandleBlock_def Let_def)
qed

lemma HandleBlocks_ok:
  assumes "good_state sha t (s, n)" "fair_ranging ord" "from = '''' \<or> (\<forall>bs'. bs \<noteq> None # bs')"
  shows "\<exists>s' n' es. HandleBlocks sha (Some (on_block sha ord now)) now bs from (s, Some (n, [])) = Some (s', Some (n', es))
     \<and> good_state sha t (s', n')"
proof (cases bs)
  case Nil
  then show ?thesis using assms(1) by (simp add: HandleBlocks_def)
next
  case (Cons b bs')
  define s1 where "s1 = (if from = '''' then s else record_answer now (claimed_hash sha (the b)) from s)"
  have s1: "sync_inv s1" using assms(1) by (auto simp: s1_def good_state_def intro: record_answer_inv)
  have n: "node_inv sha n" using assms(1) by (simp add: good_state_def)
  have "HandleBlocks sha (Some (on_block sha ord now)) now bs from (s, Some (n, []))
      = Some (handle_each sha (on_block sha ord now) from bs (s1, Some (n, [])))"
    using assms(3) Cons by (cases b) (auto simp: HandleBlocks_def s1_def)
  with handle_each_ok [OF n assms(2) s1, of now "from" bs "[]"] good_state_frame [OF assms(1)] show ?thesis
    by metis
qed

lemma HandleBlocks_nil:
  "from \<noteq> '''' \<Longrightarrow> HandleBlocks sha (Some cb) now (None # bs) from sw = None"
  by (simp add: HandleBlocks_def)

text \<open>A handler that returns, in a good state.\<close>

definition returns_good :: "digest \<Rightarrow> gotime \<Rightarrow> ((syncer \<times> node) \<times> node_effect list) option \<Rightarrow> bool" where
  "returns_good sha t r \<longleftrightarrow> (\<exists>sn es. r = Some (sn, es) \<and> good_state sha t sn)"

lemma HandleMessage_ok:
  assumes good: "good_state sha now (s, n)" and fair: "fair_ranging ord" "fair_orders od"
    and small: "nd_maxHeaders n + uint (TipHeight (nd_chain n)) < 2 ^ 63 - 1"
    and ok: "tryDeliverRPC now msg (s, n) \<noteq> None \<or> \<not> nil_blocks msg"
  shows "returns_good sha now (HandleMessage sha ord od now msg (s, n))"
proof (cases "tryDeliverRPC now msg (s, n)")
  case (Some sn')
  then show ?thesis using deliver_ok [OF good Some] by (simp add: HandleMessage_def returns_good_def)
next
  case None
  note H = HandleMessage_def None returns_good_def
  have i: "sync_inv s" "node_inv sha n" using good by (auto simp: good_state_def)
  have ans: "returns_good sha now (Some ((s, n), es))" for es using good by (simp add: returns_good_def)
  consider "msg_Type msg = MsgInvTx" | "msg_Type msg = MsgTx" | "msg_Type msg = MsgInvBlock" | "msg_Type msg = MsgBlock"
    | "msg_Type msg = MsgGetTip" | "msg_Type msg = MsgGetHeaders" | "msg_Type msg = MsgBlocks"
    | "msg_Type msg \<notin> {MsgInvTx, MsgTx, MsgInvBlock, MsgBlock, MsgGetTip, MsgGetHeaders, MsgBlocks}" by auto
  then show ?thesis
  proof cases
    case 1
    then show ?thesis
    proof (cases "msg_Payload msg")
      case (InvTxPayload i)
      have "good_state sha now (fst (HandleInvTx (Some (hasTx n)) now i (msg_From msg) s), n)"
        using good_state_frame [OF good HandleInvTx_inv [OF i(1)] i(2)] by simp
      then show ?thesis using 1 InvTxPayload by (auto simp: H split: prod.split)
    qed (use 1 good in \<open>simp_all add: H\<close>)
  next
    case 2
    then show ?thesis
    proof (cases "msg_Payload msg")
      case (TxPayload tx)
      with 2 HandleTx_ok [OF good, of now tx "msg_From msg"] show ?thesis by (auto simp: H split: prod.split)
    qed (use 2 good in \<open>simp_all add: H\<close>)
  next
    case 3
    then show ?thesis
    proof (cases "msg_Payload msg")
      case (InvBlockPayload m)
      from HandleInvBlock_ok [OF i(1) fair(2)] obtain s' es where
        "HandleInvBlock sha od (nd_chain n) now m (msg_From msg) s = Some (s', es)" "sync_inv s'" by metis
      with 3 InvBlockPayload good_state_frame [OF good _ i(2)] show ?thesis by (auto simp: H)
    qed (use 3 good in \<open>simp_all add: H\<close>)
  next
    case 4
    then show ?thesis
    proof (cases "msg_Payload msg")
      case (BlockPayload b)
      show ?thesis
      proof (cases b)
        case (Some x)
        from HandleBlock_ok [OF good fair(1), of now x "msg_From msg"] show ?thesis
          using 4 BlockPayload Some by (auto simp: H)
      qed (use 4 good BlockPayload in \<open>simp add: H\<close>)
    qed (use 4 good in \<open>simp_all add: H\<close>)
  next
    case 5
    obtain tb where tb: "bc_blocks (nd_chain n) (bc_tip (nd_chain n)) = Some tb"
      using chain_inv_tip [OF node_invD(1) [OF i(2)]] by auto
    have "TipCumWork (nd_chain n) \<noteq> None"
      using chain_inv_stored [OF node_invD(1) [OF i(2)] tb] by (simp add: TipCumWork_def stored_ok_def)
    then obtain w where "TipCumWork (nd_chain n) = Some w" by blast
    then show ?thesis using 5 good by (simp add: H onGetTip_def Let_def)
  next
    case 6
    then show ?thesis
    proof (cases "msg_Payload msg")
      case (GetHeadersPayload loc m)
      from onGetHeaders_returns [OF i(2) small] obtain es where
        "onGetHeaders now loc m (msg_From msg) (msg_TraceID msg) n = Some es" by blast
      then show ?thesis using 6 GetHeadersPayload good by (simp add: H)
    qed (use 6 good in \<open>simp_all add: H\<close>)
  next
    case 7
    then show ?thesis
    proof (cases "msg_Payload msg")
      case (BlocksPayload bs)
      have "msg_From msg = '''' \<or> (\<forall>bs'. bs \<noteq> None # bs')" using ok None 7 BlocksPayload by (auto simp: nil_blocks_def)
      from HandleBlocks_ok [OF good fair(1) this, of now] show ?thesis using 7 BlocksPayload by (auto simp: H)
    qed (use 7 good in \<open>simp_all add: H\<close>)
  next
    case 8
    have "HandleMessage sha ord od now msg (s, n) = Some ((s, n), []) \<or> (\<exists>es. HandleMessage sha ord od now msg (s, n) = Some ((s, n), es))"
      using 8 by (cases "msg_Payload msg") (simp_all add: HandleMessage_def None Let_def)
    then show ?thesis using ans by auto
  qed
qed

lemma HandleMessage_crash:
  "tryDeliverRPC now msg (s, n) = None \<Longrightarrow> nil_blocks msg \<Longrightarrow> HandleMessage sha ord od now msg (s, n) = None"
  by (auto simp: HandleMessage_def nil_blocks_def HandleBlocks_nil)

section \<open>The other operations\<close>

lemma good_state_later: "good_state sha t sn \<Longrightarrow> t \<le> t' \<Longrightarrow> good_state sha t' sn"
  by (fastforce simp: good_state_def probes_before_def)

lemma rpc_ok:
  assumes "good_state sha now (s, n)" "\<And>p st. c = ProbeCall p st \<Longrightarrow> st \<le> now"
  shows "good_state sha now (fst (rpc now p t pl c (s, n)))"
proof (cases "p = ''''")
  case True
  have "sync_inv (rpc_return now c None s)" using assms by (intro rpc_return_inv) (auto simp: good_state_def)
  with True assms(1) show ?thesis by (simp add: rpc_def good_state_def)
next
  case False
  define k where "k = trace_id (nd_id n) (nd_rpcSeq n + 1)"
  define n' where "n' = n\<lparr>nd_rpcSeq := nd_rpcSeq n + 1, nd_pendingRPC := (nd_pendingRPC n)(k \<mapsto> c)\<rparr>"
  have "node_inv sha n'"
    using assms(1) unfolding n'_def by - (rule node_inv_frame [of sha n], simp_all add: good_state_def)
  moreover have "probes_before now n'"
    using assms by (auto simp: n'_def good_state_def probes_before_def split: if_splits)
  moreover have "fst (rpc now p t pl c (s, n)) = (s, n')" using False unfolding rpc_def Let_def n'_def k_def by simp
  ultimately show ?thesis using assms(1) by (simp add: good_state_def)
qed

lemma run_effect_ok:
  assumes "good_state sha now (fst st)"
  shows "good_state sha now (fst (run_effect now e st))"
proof -
  obtain s n es where st: "st = ((s, n), es)" by (cases st) auto
  show ?thesis
  proof (cases e)
    case (StartRPC p k pl d)
    with rpc_ok [of sha now s n "if k = MsgGetTip then ProbeCall p now else HeaderCall p" p k pl] assms st
    show ?thesis by (auto simp: run_effect_def split: prod.split if_splits)
  qed (use assms st in \<open>simp_all add: run_effect_def\<close>)
qed

lemma fold_run_effect_ok:
  "good_state sha now (fst st) \<Longrightarrow> good_state sha now (fst (fold (run_effect now) es st))"
proof (induction es arbitrary: st)
  case (Cons e es)
  from Cons.IH [OF run_effect_ok [OF Cons.prems]] show ?case by simp
qed simp

lemma run_effects_ok: "good_state sha now sn \<Longrightarrow> good_state sha now (fst (run_effects now es sn))"
  unfolding run_effects_def by (rule fold_run_effect_ok) simp

lemma rpc_timeout_ok:
  assumes "good_state sha now (s, n)" shows "good_state sha now (rpc_timeout now tr (s, n))"
proof (cases "nd_pendingRPC n tr")
  case (Some c)
  have "sync_inv (rpc_return now c None s)"
    using assms Some by (intro rpc_return_inv) (auto simp: good_state_def probes_before_def)
  moreover have "node_inv sha (n\<lparr>nd_pendingRPC := m\<rparr>)" for m
    using assms by - (rule node_inv_frame [of sha n], simp_all add: good_state_def)
  ultimately show ?thesis using assms Some by (auto simp: rpc_timeout_def good_state_def probes_before_def)
qed (use assms in \<open>simp add: rpc_timeout_def\<close>)

lemma mine_begin_ok:
  assumes inv: "node_inv sha n"
  shows "node_inv sha (mine_begin sha now n)" "nd_pendingRPC (mine_begin sha now n) = nd_pendingRPC n"
proof -
  let ?bc = "nd_chain n"
  obtain txs mp where p: "Pop (nd_maxTxPerBlk n) (nd_mempool n) = (txs, mp)" by fastforce
  obtain tb where tb: "bc_blocks ?bc (bc_tip ?bc) = Some tb" using chain_inv_tip [OF node_invD(1) [OF inv]] by auto
  have ht: "TipHeight ?bc = bh_Height (blk_Header tb)"
    using chain_inv_ht [OF node_invD(1) [OF inv] tb] by (simp add: TipHeight_def)
  have mp: "pool_inv mp" using Pop_inv [OF node_invD(3) [OF inv], of "nd_maxTxPerBlk n"] p by simp
  define j where "j = \<lparr>jb_tip = bc_tip ?bc, jb_header = \<lparr>bh_Height = TipHeight ?bc + 1, bh_PrevHash = bc_tip ?bc,
      bh_Timestamp = UnixMilli now, bh_Difficulty = nd_difficulty n, bh_MinerID = nd_id n,
      bh_TxRoot = HashTransactions sha txs\<rparr>, jb_txs = txs, jb_nonce = 0, jb_attempts = 0\<rparr>"
  define n' where "n' = n\<lparr>nd_mempool := mp, nd_job := Some j\<rparr>"
  have eq: "mine_begin sha now n = n'"
    unfolding mine_begin_def p Let_def TipHash_def n'_def j_def by simp
  have f: "nd_chain n' = ?bc" "nd_mempool n' = mp" "nd_job n' = Some j" "nd_difficulty n' = nd_difficulty n"
    "nd_maxHeaders n' = nd_maxHeaders n" "nd_pendingRPC n' = nd_pendingRPC n" by (simp_all add: n'_def)
  have "job_ok sha n' j" unfolding job_ok_def f using tb ht by (simp add: j_def)
  then show "node_inv sha (mine_begin sha now n)"
    unfolding eq node_inv_def f using node_invD [OF inv] mp by simp
  show "nd_pendingRPC (mine_begin sha now n) = nd_pendingRPC n" by (simp add: eq f)
qed

lemma count_attempts_inv: "node_inv sha n \<Longrightarrow> node_inv sha (count_attempts j n)"
  by (rule node_inv_frame) (simp_all add: count_attempts_def)

lemma count_attempts_frame [simp]:
  "nd_pendingRPC (count_attempts j n) = nd_pendingRPC n" "nd_chain (count_attempts j n) = nd_chain n"
  "nd_mempool (count_attempts j n) = nd_mempool n" "nd_id (count_attempts j n) = nd_id n"
  "nd_job (count_attempts j n) = None" "nd_minedBlocks (count_attempts j n) = nd_minedBlocks n"
  by (simp_all add: count_attempts_def)

lemma give_back_ok:
  "node_inv sha n \<Longrightarrow> node_inv sha (give_back now j n)" "nd_pendingRPC (give_back now j n) = nd_pendingRPC n"
  by (auto simp: give_back_def intro!: count_attempts_inv node_inv_mempool Return_inv node_invD(3))

lemma adopt_mined_ok:
  assumes inv: "node_inv sha n" "chain_inv sha bc" and rep: "report_ok bc mid res" "chain_inv sha mid" "extends bc mid"
  shows "\<exists>n' es. adopt_mined now j b res n = Some (n', es) \<and> node_inv sha n' \<and> nd_pendingRPC n' = nd_pendingRPC n"
proof -
  have "\<exists>m. (case ar_Reorg res of Some r \<Rightarrow> applyReorg (\<lambda>_. now) r n | None \<Rightarrow> Some n) = Some m
     \<and> node_inv sha m \<and> nd_pendingRPC m = nd_pendingRPC n"
  proof (cases "ar_Reorg res")
    case (Some r)
    from applyReorg_ok [OF inv rep Some] obtain mp where
      "applyReorg (\<lambda>_. now) r n = Some (n\<lparr>nd_mempool := mp\<rparr>)" "pool_inv mp" by metis
    then show ?thesis using Some node_inv_mempool [OF inv(1)] by simp
  qed (use inv(1) in simp)
  then obtain m where m: "(case ar_Reorg res of Some r \<Rightarrow> applyReorg (\<lambda>_. now) r n | None \<Rightarrow> Some n) = Some m"
    "node_inv sha m" "nd_pendingRPC m = nd_pendingRPC n" by blast
  have i: "node_inv sha (count_attempts j (m'\<lparr>nd_minedBlocks := k\<rparr>))" if "node_inv sha m'" for m' k
    by (intro count_attempts_inv) (rule node_inv_frame [OF that], simp_all)
  show ?thesis unfolding adopt_mined_def m(1) using m(2,3) i [OF m(2)] i [OF removeTxs_inv [OF m(2)]]
    by (cases "ar_IsNewTip res") (simp_all add: Let_def)
qed

lemma mine_found_ok:
  assumes inv: "node_inv sha n" and fair: "fair_ranging ord"
  shows "\<exists>n' es. mine_found sha ord now j h n = Some (n', es) \<and> node_inv sha n' \<and> nd_pendingRPC n' = nd_pendingRPC n"
proof (cases "TipHash (nd_chain n) = jb_tip j")
  case False
  then show ?thesis using give_back_ok(1) [OF inv] give_back_ok(2) by (simp add: mine_found_def)
next
  case True
  let ?b = "\<lparr>blk_Header = jb_header j, blk_Nonce = jb_nonce j, blk_Hash = h, blk_Txs = jb_txs j\<rparr>"
  from node_add [OF inv fair, of "Some ?b"] obtain res err mid bc where
    A: "AddBlock sha ord (Some ?b) (nd_chain n) = Some (res, err, bc)" "report_ok (nd_chain n) mid res"
      "chain_inv sha mid" "extends (nd_chain n) mid" and inv': "node_inv sha (n\<lparr>nd_chain := bc\<rparr>)" by metis
  have "mine_found sha ord now j h n = (if err \<noteq> None \<or> \<not> ar_Added res
      then Some (give_back now j (n\<lparr>nd_chain := bc\<rparr>), []) else adopt_mined now j ?b res (n\<lparr>nd_chain := bc\<rparr>))"
    using True by (simp add: mine_found_def Let_def A(1) del: not_None_eq)
  then show ?thesis
    using adopt_mined_ok [OF inv' node_invD(1) [OF inv] A(2-4), of now j ?b] give_back_ok(1) [OF inv', of now j]
      give_back_ok(2) [of now j "n\<lparr>nd_chain := bc\<rparr>"] by simp
qed

lemma mine_try_ok:
  assumes inv: "node_inv sha n" and fair: "fair_ranging ord"
  shows "\<exists>n' es. mine_try sha ord now n = Some (n', es) \<and> node_inv sha n' \<and> nd_pendingRPC n' = nd_pendingRPC n"
proof (cases "nd_job n")
  case None
  then show ?thesis using inv by (simp add: mine_try_def)
next
  case (Some j)
  let ?j = "j\<lparr>jb_attempts := jb_attempts j + 1\<rparr>"
  have "node_inv sha (n\<lparr>nd_job := Some (?j\<lparr>jb_nonce := jb_nonce j + 1\<rparr>)\<rparr>)"
    using inv Some by (simp add: node_inv_def job_ok_def)
  with mine_found_ok [OF inv fair, of now ?j "header_hash sha (jb_header j) (jb_nonce j)"] Some show ?thesis
    by (auto simp: mine_try_def Let_def)
qed

lemma SubmitTransaction_ok:
  assumes "node_inv sha n"
  shows "node_inv sha (fst (SubmitTransaction now tx n))"
    "nd_pendingRPC (fst (SubmitTransaction now tx n)) = nd_pendingRPC n"
proof -
  obtain added mp where a: "Add now tx (nd_mempool n) = (added, mp)" by fastforce
  let ?n = "n\<lparr>nd_mempool := mp\<rparr>" let ?m = "if added then rememberTx tx ?n else ?n"
  have "node_inv sha ?n" using node_inv_mempool [OF assms] Add_inv [OF node_invD(3) [OF assms], of now tx] a by simp
  then have "node_inv sha ?m" by (auto simp: rememberTx_def elim!: node_inv_frame)
  moreover from this have "node_inv sha (?m\<lparr>nd_mempool := MarkBroadcast now i (nd_mempool ?m)\<rparr>)" for i
    by (intro node_inv_mempool MarkBroadcast_inv node_invD(3))
  ultimately show "node_inv sha (fst (SubmitTransaction now tx n))"
    by (cases added) (simp_all add: SubmitTransaction_def a Let_def)
  show "nd_pendingRPC (fst (SubmitTransaction now tx n)) = nd_pendingRPC n"
    by (simp add: SubmitTransaction_def a Let_def rememberTx_def)
qed

section \<open>Reachable nodes\<close>

text \<open>
  Every way in which the program runs a node: messages of the transport, submitted transactions,
  the rounds and probes of the syncer's loop, its timers, the timeouts of requests, the miner and
  the cleanup of the mempool, in any order. The time argument is the time of the last event: the
  clock of the process does not run backwards.
\<close>

inductive node_reachable :: "digest \<Rightarrow> (hash \<times> block) ranging \<Rightarrow> gotime \<Rightarrow> syncer \<times> node \<Rightarrow> bool" for sha ord where
  boot: "chain_reachable sha ord bc \<Longrightarrow> nc_Difficulty cfg = bc_difficulty bc \<Longrightarrow>
    mp = None \<or> pool_reachable (the mp) \<Longrightarrow> node_reachable sha ord t (NewNode i bc mp cfg)"
| message: "node_reachable sha ord t sn \<Longrightarrow> t \<le> now \<Longrightarrow> fair_orders od \<Longrightarrow>
    nd_maxHeaders (snd sn) + uint (TipHeight (nd_chain (snd sn))) < 2 ^ 63 - 1 \<Longrightarrow>
    HandleMessage sha ord od now msg sn = Some (sn', es) \<Longrightarrow> node_reachable sha ord now sn'"
| submit: "node_reachable sha ord t (s, n) \<Longrightarrow> t \<le> now \<Longrightarrow>
    node_reachable sha ord now (s, fst (SubmitTransaction now tx n))"
| round: "node_reachable sha ord t (s, n) \<Longrightarrow> t \<le> now \<Longrightarrow> fair_orders od \<Longrightarrow>
    catchUpIfBehind od (nd_chain n) now s = Some (s', es) \<Longrightarrow>
    node_reachable sha ord now (fst (run_effects now es (s', n)))"
| probe: "node_reachable sha ord t (s, n) \<Longrightarrow> t \<le> now \<Longrightarrow> probe_start ps s = (s', es) \<Longrightarrow>
    node_reachable sha ord now (fst (run_effects now es (s', n)))"
| forget_tx: "node_reachable sha ord t (s, n) \<Longrightarrow> node_reachable sha ord t (forget_tx_request i s, n)"
| timeout: "node_reachable sha ord t (s, n) \<Longrightarrow> t \<le> now \<Longrightarrow>
    node_reachable sha ord now (rpc_timeout now tr (s, n))"
| job: "node_reachable sha ord t (s, n) \<Longrightarrow> t \<le> now \<Longrightarrow> nd_job n = None \<Longrightarrow>
    node_reachable sha ord now (s, mine_begin sha now n)"
| attempt: "node_reachable sha ord t (s, n) \<Longrightarrow> t \<le> now \<Longrightarrow> mine_try sha ord now n = Some (n', es) \<Longrightarrow>
    node_reachable sha ord now (s, n')"
| stop: "node_reachable sha ord t (s, n) \<Longrightarrow> t \<le> now \<Longrightarrow> node_reachable sha ord now (s, mine_stop now n)"
| clean: "node_reachable sha ord t (s, n) \<Longrightarrow> t \<le> now \<Longrightarrow> node_reachable sha ord now (s, mempoolCleanup now n)"

lemma NewNode_good:
  assumes "chain_reachable sha ord bc" "fair_ranging ord" "nc_Difficulty cfg = bc_difficulty bc"
    and "mp = None \<or> pool_reachable (the mp)"
  shows "good_state sha t (NewNode i bc mp cfg)"
proof -
  have "chain_inv sha bc \<and> orphans_waiting bc" using chain_reachable_inv [OF assms(1,2)] .
  moreover have "pool_inv (case mp of None \<Rightarrow> New DefaultConfig | Some mp \<Rightarrow> mp)"
    using assms(4) New_inv pool_reachable_inv by (auto split: option.split)
  moreover have "sync_inv (NewSyncer c None)" for c by (rule NewSyncer_inv(2) [OF NewManager_good])
  ultimately show ?thesis using assms(3)
    by (auto simp: NewNode_def Let_def good_state_def node_inv_def probes_before_def)
qed

lemma catchUp_inv:
  assumes "sync_inv s" "fair_orders od" "TipCumWork bc = Some lw" "catchUpIfBehind od bc now s = Some (s', es)"
  shows "sync_inv s'"
proof (cases "sc_Chain (sy_cfg s)")
  case True
  from catchUp_ok [OF assms(1-3) True, of now] assms(4) show ?thesis by force
qed (use assms in \<open>simp add: catchUpIfBehind_def\<close>)

lemma tip_work:
  assumes "chain_inv sha bc" shows "\<exists>lw. TipCumWork bc = Some lw"
  using chain_inv_tip [OF assms] chain_inv_stored [OF assms]
  by (fastforce simp: TipCumWork_def stored_ok_def)

lemma node_reachable_good:
  assumes "node_reachable sha ord t sn" and fair: "fair_ranging ord"
  shows "good_state sha t sn"
  using assms(1)
proof (induction rule: node_reachable.induct)
  case (boot bc cfg mp t i)
  then show ?case using NewNode_good fair by blast
next
  case (message t sn now od msg sn' es)
  obtain s n where sn: "sn = (s, n)" by (cases sn)
  have g: "good_state sha now (s, n)" using good_state_later [OF message.IH message.hyps(2)] sn by simp
  have "tryDeliverRPC now msg (s, n) \<noteq> None \<or> \<not> nil_blocks msg"
    using HandleMessage_crash [of now msg s n] message.hyps(5) sn by fastforce
  from HandleMessage_ok [OF g fair message.hyps(3) _ this] message.hyps(4,5) sn show ?case
    by (auto simp: returns_good_def)
next
  case (submit t s n now tx)
  with SubmitTransaction_ok [of sha n now tx] good_state_frame [OF good_state_later [OF submit.IH submit.hyps(2)]]
  show ?case by (auto simp: good_state_def)
next
  case (round t s n now od s' es)
  have g: "good_state sha now (s, n)" using good_state_later [OF round.IH round.hyps(2)] .
  then have "node_inv sha n" by (simp add: good_state_def)
  then obtain lw where "TipCumWork (nd_chain n) = Some lw" using tip_work node_invD(1) by blast
  from catchUp_inv [OF _ round.hyps(3) this round.hyps(4)] g have "good_state sha now (s', n)"
    by (auto simp: good_state_def)
  then show ?case by (rule run_effects_ok)
next
  case (probe t s n now ps s' es)
  have "good_state sha now (s, n)" using good_state_later [OF probe.IH probe.hyps(2)] .
  moreover have "sync_inv s \<Longrightarrow> sync_inv s'"
    using probe.hyps(3) peers_good_upserts by (auto simp: probe_start_def sync_inv_def window_ok_def split: if_splits)
  ultimately have "good_state sha now (s', n)" by (simp add: good_state_def)
  then show ?case by (rule run_effects_ok)
next
  case (forget_tx t s n i)
  then show ?case by (auto simp: good_state_def forget_tx_request_def sync_inv_def window_ok_def)
next
  case (timeout t s n now tr)
  then show ?case using rpc_timeout_ok [OF good_state_later] by blast
next
  case (job t s n now)
  with mine_begin_ok [of sha n now] good_state_frame [OF good_state_later [OF job.IH job.hyps(2)]]
  show ?case by (auto simp: good_state_def)
next
  case (attempt t s n now n' es)
  with mine_try_ok [of sha n ord now] fair good_state_frame [OF good_state_later [OF attempt.IH attempt.hyps(2)]]
  show ?case by (auto simp: good_state_def)
next
  case (stop t s n now)
  have "good_state sha now (s, n)" using good_state_later [OF stop.IH stop.hyps(2)] .
  then show ?case using give_back_ok(1) [of sha n now] give_back_ok(2) [of now _ n]
    by (auto simp: good_state_def mine_stop_def probes_before_def split: option.split)
next
  case (clean t s n now)
  have "good_state sha now (s, n)" using good_state_later [OF clean.IH clean.hyps(2)] .
  then show ?case using node_inv_mempool [OF _ CleanExpired_inv [OF node_invD(3)], of sha n]
    by (auto simp: good_state_def mempoolCleanup_def probes_before_def)
qed

end
