(* ===== verification/ChainTip.thy ===== *)
theory ChainTip
  imports ChainProps
begin

text \<open>
  The chain grown at its tip: what one valid block on the tip does, that paths from the genesis
  stay as the chain grows, and what is known of the genesis.
\<close>

section \<open>A block on the tip\<close>

lemma tip_block:
  assumes "chain_inv sha bc"
  obtains tb where "bc_blocks bc (bc_tip bc) = Some tb" "TipHeight bc = bh_Height (blk_Header tb)"
    "blk_Hash tb = bc_tip bc" "bc_cumWork bc (bc_tip bc) = Some (uint (bh_Height (blk_Header tb)) * WorkForDifficulty (bc_difficulty bc))"
  using chain_inv_tip [OF assms] chain_inv_ht [OF assms] chain_inv_stored [OF assms]
  by (fastforce simp: TipHeight_def stored_ok_def)

text \<open>A valid block on the tip, with no orphan waiting for it, is the new tip and moves nothing else.\<close>

lemma AddBlock_on_tip:
  assumes inv: "chain_inv sha bc" "orphans_waiting bc" and fair: "fair_ranging ord"
    and tip: "bh_PrevHash (blk_Header b) = bc_tip bc" "bc_blocks bc (bc_tip bc) = Some tb"
    and val: "validateBlockUnlocked sha bc b tb (block_key sha b) = None" "bh_Height (blk_Header b) \<noteq> 0"
    and new: "bc_blocks bc (block_key sha b) = None"
    and none: "\<forall>(oh, ob) \<in> set (bc_orphans bc). bh_PrevHash (blk_Header ob) \<noteq> block_key sha b"
  obtains bc' where "AddBlock sha ord (Some b) bc = Some (\<lparr>ar_Added = True, ar_IsNewTip = True, ar_OldTip = bc_tip bc,
      ar_NewTip = block_key sha b, ar_Reorg = None\<rparr>, None, bc')"
    "bc_tip bc' = block_key sha b" "bc_blocks bc' = (bc_blocks bc)(block_key sha b \<mapsto> b\<lparr>blk_Hash := block_key sha b\<rparr>)"
    "TipHeight bc' = bh_Height (blk_Header b)" "chain_inv sha bc'" "extends bc bc'" "bc_orphans bc' = bc_orphans bc"
    "main_path bc' (bc_tip bc') = main_path bc' (bc_tip bc) @ [block_key sha b]"
proof -
  let ?h = "block_key sha b"
  have gen: "\<not> (bh_Height (blk_Header b) = 0 \<and> ?h \<noteq> bc_genesis bc)" using val(2) by simp
  from insertBlock_ok [OF inv(1) new _ val(1,2)] tip obtain res w t where
    ins: "insertBlock ?h b bc = Some (res, None, (grown ?h b w bc)\<lparr>bc_tip := t\<rparr>)"
    and rep: "report_ok bc ((grown ?h b w bc)\<lparr>bc_tip := t\<rparr>) res" "ar_Added res"
    and inv': "chain_inv sha ((grown ?h b w bc)\<lparr>bc_tip := t\<rparr>)"
    and t: "t = (if the (bc_cumWork bc (bc_tip bc)) < w then ?h else bc_tip bc)" by metis
  let ?bc = "(grown ?h b w bc)\<lparr>bc_tip := t\<rparr>"
  have "addBlockUnlocked sha (Some b) bc = Some (res, None, ?bc)"
    using gen new tip val ins by (simp add: addBlockUnlocked_Some word_gt_0)
  moreover have "orphans_waiting ?bc" using inv(2) none by (auto simp: orphans_waiting_def)
  then have "tryConnectOrphansUnlocked sha ord 0 ?bc = Some ?bc" using fair by (rule tryConnect_waiting)
  ultimately have add: "AddBlock sha ord (Some b) bc = Some (res, None, ?bc)" by (simp add: AddBlock_def)
  let ?W = "WorkForDifficulty (bc_difficulty bc)"
  have hb: "bc_blocks ?bc ?h = Some (b\<lparr>blk_Hash := ?h\<rparr>)" by simp
  have tw: "bc_cumWork bc (bc_tip bc) = Some (uint (bh_Height (blk_Header tb)) * ?W)"
    using chain_inv_stored [OF inv(1) tip(2)] by (simp add: stored_ok_def)
  have bw: "w = uint (bh_Height (blk_Header b)) * ?W"
    using chain_inv_stored [OF inv' hb] by (simp add: stored_ok_def)
  have "uint (bh_Height (blk_Header b)) = uint (bh_Height (blk_Header tb)) + 1"
    using validate_height(2) [OF val] .
  then have th: "t = ?h" using t tw bw by (simp add: distrib_right)
  have ne: "?h \<noteq> bc_tip bc" using tip(2) new by auto
  have path: "main_path ?bc ?h = main_path ?bc (bc_tip bc) @ [?h]"
    using validate_height(1) [OF val] chain_inv_ht [OF inv(1) tip(2)] tip ne
    by (simp add: main_path_def go_get_upd)
  have "ar_Reorg res = None"
  proof -
    from rep(1) th ne obtain pre c rs as where
      p: "main_path ?bc (bc_tip bc) = pre @ [c] @ rs" "main_path ?bc ?h = pre @ [c] @ as" "set rs \<inter> set as = {}"
      and r: "ar_Reorg res = (if rs = [] then None else Some \<lparr>rg_CommonAncestor = c,
          rg_Removed = map (bc_blocks ?bc) rs, rg_Added = map (bc_blocks ?bc) as\<rparr>)"
      unfolding report_ok_def by (auto simp: th)
    have "as = rs @ [?h]" using path p(1,2) by simp
    with p(3) have "rs = []" by auto
    with r show ?thesis by simp
  qed
  with rep th ne have "res = \<lparr>ar_Added = True, ar_IsNewTip = True, ar_OldTip = bc_tip bc, ar_NewTip = ?h, ar_Reorg = None\<rparr>"
    by (cases res) (simp add: report_ok_def)
  moreover have "extends bc ?bc" using new th t by (auto simp: extends_def map_le_def)
  ultimately show thesis using add th inv' path by (intro that [of ?bc]) (simp_all add: TipHeight_def)
qed

section \<open>Paths of a growing chain\<close>

lemma extends_path:
  assumes ex: "extends bc bc'" and inv: "chain_inv sha bc" "chain_inv sha bc'" and x: "bc_blocks bc x = Some b"
  shows "main_path bc' x = main_path bc x"
proof -
  have ht: "bc_ht bc' y = bc_ht bc y" if "bc_blocks bc y = Some c" for y c
    using chain_inv_ht [OF inv(1) that] chain_inv_ht [OF inv(2) extends_block [OF ex that]] by simp
  have "chain_to (bc_par bc') n y = chain_to (bc_par bc) n y"
    if "bc_blocks bc y = Some c" "n = unat (bc_ht bc y)" for n y c
    using that
  proof (induction n arbitrary: y c)
    case (Suc n)
    have "y \<noteq> bc_genesis bc"
      using Suc.prems ct.root_height [OF inv(1)] by (metis nat.distinct(1) unat_0)
    moreover have "bc_genesis bc' = bc_genesis bc" using ex by (simp add: extends_def)
    ultimately have "bc_par bc' y = bh_PrevHash (blk_Header c)" "bc_par bc y = bh_PrevHash (blk_Header c)"
      using chain_inv_stored [OF inv(1) Suc.prems(1)] chain_inv_stored [OF inv(2) extends_block [OF ex Suc.prems(1)]]
      by (simp_all add: stored_ok_def linked_def)
    moreover obtain pb where "bc_blocks bc (bc_par bc y) = Some pb" "unat (bc_ht bc y) = Suc (unat (bc_ht bc (bc_par bc y)))"
      using chain_inv_parent [OF inv(1) Suc.prems(1) \<open>y \<noteq> bc_genesis bc\<close>] chain_inv_ht [OF inv(1)] Suc.prems(1) by metis
    ultimately show ?case using Suc.IH [of "bc_par bc y" pb] Suc.prems(2) by simp
  qed simp
  from this [OF x refl] show ?thesis using ht [OF x] by (simp add: main_path_def)
qed

text \<open>The blocks of the path to a stored block, oldest first.\<close>

definition path_to :: "blockchain \<Rightarrow> hash \<Rightarrow> block list" where
  "path_to bc x = map (\<lambda>h. the (bc_blocks bc h)) (main_path bc x)"

definition main_blocks :: "blockchain \<Rightarrow> block list" where
  "main_blocks bc = path_to bc (bc_tip bc)"

lemma extends_path_to:
  assumes "extends bc bc'" "chain_inv sha bc" "chain_inv sha bc'" "bc_blocks bc x = Some b"
  shows "path_to bc' x = path_to bc x"
  unfolding path_to_def extends_path [OF assms]
  using main_path_known [OF assms(2,4)] extends_block [OF assms(1)] by (intro map_cong) fastforce+

lemma length_path_to [simp]: "length (path_to bc x) = length (main_path bc x)"
  by (simp add: path_to_def)

lemma path_to_nth:
  assumes "chain_inv sha bc" "bc_blocks bc x = Some bx" "i < length (main_path bc x)"
  shows "bc_blocks bc (main_path bc x ! i) = Some (path_to bc x ! i)"
    "unat (bh_Height (blk_Header (path_to bc x ! i))) = i" "blk_Hash (path_to bc x ! i) = main_path bc x ! i"
proof -
  obtain b where b: "bc_blocks bc (main_path bc x ! i) = Some b"
    using main_path_known [OF assms(1,2)] nth_mem [OF assms(3)] by blast
  then show 1: "bc_blocks bc (main_path bc x ! i) = Some (path_to bc x ! i)" using assms(3) by (simp add: path_to_def)
  then show "unat (bh_Height (blk_Header (path_to bc x ! i))) = i"
    using main_path_height [OF assms] by blast
  show "blk_Hash (path_to bc x ! i) = main_path bc x ! i"
    using chain_inv_stored [OF assms(1) 1] by (simp add: stored_ok_def)
qed

section \<open>The genesis\<close>

text \<open>What \<^verbatim>\<open>NewBlockchain\<close> makes of its argument stays at the root of the chain.\<close>

definition genesis_ok :: "digest \<Rightarrow> blockchain \<Rightarrow> bool" where
  "genesis_ok sha bc \<longleftrightarrow> (\<exists>g. bc_blocks bc (bc_genesis bc) = Some g \<and> blk_Hash g = bc_genesis bc
     \<and> bh_TxRoot (blk_Header g) = HashTransactions sha (blk_Txs g)
     \<and> header_hash sha (blk_Header g) (blk_Nonce g) = bc_genesis bc)"

lemma chain_reachable_genesis:
  assumes "chain_reachable sha ord bc" "fair_ranging ord"
  shows "genesis_ok sha bc"
  using assms(1)
proof (induction rule: chain_reachable.induct)
  case (init g d bc)
  then show ?case by (auto simp: NewBlockchain_def Let_def genesis_ok_def)
next
  case (add bc b res err bc')
  have inv: "chain_inv sha bc" "orphans_waiting bc" using chain_reachable_inv [OF add.hyps(1) assms(2)] by auto
  from AddBlock_ok [OF inv, of ord b] add.hyps(2) obtain mid where
    "extends bc mid" "extends mid bc'" "chain_inv sha mid" "chain_inv sha bc'" by (metis option.inject prod.inject)
  then have "extends bc bc'" using extends_trans inv(1) by blast
  with add.IH extends_block [OF this] show ?case by (auto simp: genesis_ok_def extends_def)
qed

text \<open>A chain is made again from its genesis.\<close>

lemma NewBlockchain_again:
  assumes "genesis_ok sha bc" "bc_blocks bc (bc_genesis bc) = Some g" "d = bc_difficulty bc"
  obtains bc0 where "NewBlockchain sha (Some g) d = Inr bc0" "bc_tip bc0 = bc_genesis bc"
    "bc_blocks bc0 = [bc_genesis bc \<mapsto> g]" "bc_orphans bc0 = []" "bc_difficulty bc0 = d" "bc_genesis bc0 = bc_genesis bc"
proof -
  have g: "g\<lparr>blk_Header := (blk_Header g)\<lparr>bh_TxRoot := HashTransactions sha (blk_Txs g)\<rparr>\<rparr> = g"
    "g\<lparr>blk_Hash := bc_genesis bc\<rparr> = g" "header_hash sha (blk_Header g) (blk_Nonce g) = bc_genesis bc"
    using assms(1,2) by (auto simp: genesis_ok_def)
  have "NewBlockchain sha (Some g) d = Inr \<lparr>bc_difficulty = d, bc_blocks = [bc_genesis bc \<mapsto> g],
      bc_parent = [bc_genesis bc \<mapsto> 0], bc_cumWork = [bc_genesis bc \<mapsto> 0], bc_height = [bc_genesis bc \<mapsto> 0],
      bc_tip = bc_genesis bc, bc_genesis = bc_genesis bc, bc_orphans = []\<rparr>"
    by (simp add: NewBlockchain_def Let_def g)
  then show thesis by (rule that) simp_all
qed

section \<open>New tips\<close>

lemma tip_highest:
  assumes inv: "chain_inv sha bc" and b: "bc_blocks bc h = Some b" and tb: "bc_blocks bc (bc_tip bc) = Some tb"
  shows "unat (bh_Height (blk_Header b)) \<le> unat (bh_Height (blk_Header tb))"
proof -
  let ?W = "WorkForDifficulty (bc_difficulty bc)"
  have work: "bc_cumWork bc x = Some (uint (bh_Height (blk_Header c)) * ?W)" if "bc_blocks bc x = Some c" for x c
    using chain_inv_stored [OF inv that] by (simp add: stored_ok_def)
  have "uint (bh_Height (blk_Header b)) * ?W \<le> the (bc_cumWork bc (bc_tip bc))"
    using inv work [OF b] by (auto simp: chain_inv_def)
  then have "uint (bh_Height (blk_Header b)) \<le> uint (bh_Height (blk_Header tb))"
    using work [OF tb] by (simp add: mult_le_cancel_right_pos)
  then show ?thesis by (simp add: word_le_def word_le_nat_alt [symmetric])
qed

text \<open>
  A block that took the tip over, in terms of blocks: the old and the new main chain up to where
  they part, and the report.
\<close>

lemma new_tip_parts:
  assumes o: "add_outcome sha bc (Some b) res None bc'" and inv: "chain_inv sha bc" "chain_inv sha bc'"
    and new: "ar_IsNewTip res"
  obtains pre a rm ad where "main_blocks bc = pre @ [a] @ rm" "main_blocks bc' = pre @ [a] @ ad" "ad \<noteq> []"
    "bc_blocks bc' (blk_Hash a) = Some a"
    "ar_Reorg res = (if rm = [] then None else Some \<lparr>rg_CommonAncestor = blk_Hash a,
        rg_Removed = map Some rm, rg_Added = map Some ad\<rparr>)"
    "rm = [] \<Longrightarrow> length ad = 1"
proof -
  have ex: "extends bc bc'" using add_outcome_extends [OF o inv] .
  have rep: "report_ok bc bc' res" using o by cases auto
  obtain tb where tb: "bc_blocks bc (bc_tip bc) = Some tb" using chain_inv_tip [OF inv(1)] by blast
  note tb' = extends_block [OF ex tb]
  obtain nb where nb: "bc_blocks bc' (bc_tip bc') = Some nb" using chain_inv_tip [OF inv(2)] by blast
  from rep new obtain pre c rs as where
    p: "main_path bc' (bc_tip bc) = pre @ [c] @ rs" "main_path bc' (bc_tip bc') = pre @ [c] @ as" "set rs \<inter> set as = {}"
    and r: "ar_Reorg res = (if rs = [] then None else Some \<lparr>rg_CommonAncestor = c,
        rg_Removed = map (bc_blocks bc') rs, rg_Added = map (bc_blocks bc') as\<rparr>)"
    and ne: "bc_tip bc' \<noteq> bc_tip bc"
    unfolding report_ok_def by metis
  let ?f = "\<lambda>h. the (bc_blocks bc' h)"
  have old: "main_blocks bc = map ?f (main_path bc' (bc_tip bc))"
    using extends_path_to [OF ex inv tb] by (simp add: main_blocks_def path_to_def)
  have fresh: "main_blocks bc' = map ?f (main_path bc' (bc_tip bc'))" by (simp add: main_blocks_def path_to_def)
  have known: "bc_blocks bc' h = Some (?f h)" if "h \<in> set (main_path bc' (bc_tip bc)) \<union> set (main_path bc' (bc_tip bc'))" for h
    using main_path_known [OF inv(2) tb'] main_path_known [OF inv(2) nb] that by fastforce
  have c: "bc_blocks bc' c = Some (?f c)" using known p(1) by simp
  have hc: "blk_Hash (?f c) = c" using chain_inv_stored [OF inv(2) c] by (simp add: stored_ok_def)
  have "map (bc_blocks bc') rs = map Some (map ?f rs)" "map (bc_blocks bc') as = map Some (map ?f as)"
    using known p(1,2) by auto
  then have rep': "ar_Reorg res = (if map ?f rs = [] then None else Some \<lparr>rg_CommonAncestor = blk_Hash (?f c),
        rg_Removed = map Some (map ?f rs), rg_Added = map Some (map ?f as)\<rparr>)" using r hc by simp
  have asne: "as \<noteq> []"
  proof
    assume "as = []"
    then have "bc_tip bc' = c" using p(2) last_main_path [of bc' "bc_tip bc'"] by simp
    then have "length (main_path bc' (bc_tip bc')) \<le> length (main_path bc' (bc_tip bc))" using p \<open>as = []\<close> by simp
    then have le: "unat (bh_Height (blk_Header nb)) \<le> unat (bh_Height (blk_Header tb))"
      using length_main_path [OF inv(2) nb] length_main_path [OF inv(2) tb'] by simp
    have "bc_cumWork bc (bc_tip bc) = bc_cumWork bc' (bc_tip bc)" using extends_work [OF ex inv] tb by simp
    moreover have "the (bc_cumWork bc (bc_tip bc)) < the (bc_cumWork bc' (bc_tip bc'))"
      using ex ne by (simp add: extends_def)
    ultimately have "uint (bh_Height (blk_Header tb)) * WorkForDifficulty (bc_difficulty bc')
        < uint (bh_Height (blk_Header nb)) * WorkForDifficulty (bc_difficulty bc')"
      using chain_inv_stored [OF inv(2) nb] chain_inv_stored [OF inv(2) tb'] by (simp add: stored_ok_def)
    then have "uint (bh_Height (blk_Header tb)) < uint (bh_Height (blk_Header nb))"
      by (simp add: mult_less_cancel_right_pos)
    then have "bh_Height (blk_Header tb) < bh_Height (blk_Header nb)" by (simp only: word_less_def)
    with le show False by (simp add: word_less_nat_alt)
  qed
  have one: "length as = 1" if "rs = []"
  proof -
    from o ne obtain pb where ins: "bc_blocks bc (bh_PrevHash (blk_Header b)) = Some pb" "bc_tip bc' = block_key sha b"
      "bc_blocks bc' (block_key sha b) = Some (b\<lparr>blk_Hash := block_key sha b\<rparr>)"
      "validateBlockUnlocked sha bc b pb (block_key sha b) = None" "bh_Height (blk_Header b) \<noteq> 0"
      by cases (auto split: if_splits)
    have "unat (bh_Height (blk_Header nb)) = Suc (unat (bh_Height (blk_Header pb)))"
      using validate_height(1) [OF ins(4,5)] nb ins(2,3) by auto
    moreover have "unat (bh_Height (blk_Header pb)) \<le> unat (bh_Height (blk_Header tb))"
      by (rule tip_highest [OF inv(1) ins(1) tb])
    ultimately have "length (main_path bc' (bc_tip bc')) \<le> Suc (length (main_path bc' (bc_tip bc)))"
      using length_main_path [OF inv(2) nb] length_main_path [OF inv(2) tb'] by simp
    with p that asne show ?thesis by (cases as) auto
  qed
  show thesis
    by (rule that [of "map ?f pre" "?f c" "map ?f rs" "map ?f as"])
      (use old fresh p rep' asne one c hc in simp_all)
qed

end
