(* ===== verification/NodeProps.thy ===== *)
theory NodeProps
  imports NodeReach ChainTip
begin

text \<open>
  The properties of the node: which message stops it, what the miner's block does, what a
  reorganisation does to the mempool, the answers to header requests, and two weaknesses.
\<close>

section \<open>A node for the witnesses\<close>

definition demo_node_cfg :: node_config where
  "demo_node_cfg = \<lparr>nc_Difficulty = 0, nc_MaxTxPerBlock = 0, nc_SyncTimeout = 0, nc_MaxHeaders = 2,
     nc_GetBlocksBatchSize = 0\<rparr>"

definition demo_pair :: "syncer \<times> node" where
  "demo_pair = NewNode ''n'' demo_chain2 (Some demo_pool) demo_node_cfg"

lemma demo_pair_reachable: "node_reachable demo_digest (\<lambda>_ xs. xs) t demo_pair"
  unfolding demo_pair_def
  by (rule node_reachable.boot [OF demo_chain2_reachable])
    (simp_all add: demo_node_cfg_def demo_chain2_def demo_pool_reachable)

abbreviation "demo_sy \<equiv> fst demo_pair"
abbreviation "demo_nd \<equiv> snd demo_pair"

lemma demo_nd_simps [simp]:
  "nd_chain demo_nd = demo_chain2" "nd_mempool demo_nd = demo_pool" "nd_pendingRPC demo_nd = Map.empty"
  "nd_maxHeaders demo_nd = 2" "nd_id demo_nd = ''n''" "nd_rpcSeq demo_nd = 0" "nd_difficulty demo_nd = 0"
  "nd_maxTxPerBlk demo_nd = 50" "nd_job demo_nd = None" "nd_minedBlocks demo_nd = 0"
  by (simp_all add: demo_pair_def NewNode_def demo_node_cfg_def Let_def)

section \<open>Messages\<close>

definition null_blocks_message :: message where
  "null_blocks_message = direct_message 5 ''p'' ''n'' '''' MsgBlocks (BlocksPayload [None])"

text \<open>
  C38: The handler of a node returns on every message, in every state the program can reach, with
  one exception: a list of blocks from a named sender whose first block is null, which is
  dereferenced before the nil check and stops the process (as long as the answer of
  \<^verbatim>\<open>GetHeaders\<close> stays in the range of \<^verbatim>\<open>int\<close>, as it does with the caps the programs configure).
\<close>
theorem one_message_crashes:
  assumes "node_reachable sha ord t (s, n)" and "t \<le> now" and "fair_ranging ord" and "fair_orders od"
    and "nd_maxHeaders n + uint (TipHeight (nd_chain n)) < 2 ^ 63 - 1"
  shows "HandleMessage sha ord od now msg (s, n) = None \<longleftrightarrow>
     tryDeliverRPC now msg (s, n) = None \<and> msg_Type msg = MsgBlocks \<and> msg_From msg \<noteq> ''''
     \<and> (\<exists>bs. msg_Payload msg = BlocksPayload (None # bs))"
proof -
  have "good_state sha now (s, n)"
    using node_reachable_good [OF assms(1,3)] good_state_later assms(2) by blast
  from HandleMessage_ok [OF this assms(3-5), of msg] HandleMessage_crash [of now msg s n sha ord od]
  show ?thesis unfolding returns_good_def nil_blocks_def by (metis option.distinct(1))
qed

theorem one_message_crashes_witness:
  "HandleMessage demo_digest (\<lambda>_ xs. xs) demo_od 5 null_blocks_message (demo_sy, demo_nd) = None"
  using one_message_crashes [of demo_digest "\<lambda>_ xs. xs" 0 demo_sy demo_nd 5 demo_od null_blocks_message]
    demo_pair_reachable [of 0] fair_ranging_id demo_od_fair
  by (simp add: null_blocks_message_def direct_message_def tryDeliverRPC_def TipHeight_def demo_chain2_def)

text \<open>
  The answer to a request is matched by its trace id alone: once the node has asked \<open>p\<close>,
  whoever sends a message with the next trace id, of whatever type, has answered for \<open>p\<close>, and
  that id is the node's own id with a counter.
\<close>

lemma any_sender_answers:
  assumes "rpc now p typ pl (HeaderCall p) (s, n) = ((s', n'), es)" and "p \<noteq> ''''"
    and "msg_TraceID msg = trace_id (nd_id n) (nd_rpcSeq n + 1)" and "msg_From msg = q"
    and "msg_Type msg = MsgHeaders" and "msg_Payload msg = HeadersPayload metas"
  shows "\<exists>n''. HandleMessage sha ord od now' msg (s', n') = Some ((s\<lparr>sy_headersCh := sy_headersCh s
            @ [\<lparr>hr_peer = p, hr_ok = True, hr_metas = metas\<rparr>]\<rparr>, n''), [])
     \<and> nd_chain n'' = nd_chain n \<and> nd_pendingRPC n'' = (nd_pendingRPC n)(msg_TraceID msg := None)"
proof -
  let ?k = "trace_id (nd_id n) (nd_rpcSeq n + 1)"
  let ?n = "n\<lparr>nd_rpcSeq := nd_rpcSeq n + 1, nd_pendingRPC := (nd_pendingRPC n)(?k \<mapsto> HeaderCall p)\<rparr>"
  have "(s', n') = (s, ?n)"
    using assms(1,2) unfolding rpc_def Let_def by simp
  then have n': "s' = s" "n' = ?n" by auto
  have "?k \<noteq> ''''" by (simp add: trace_id_def)
  then have "tryDeliverRPC now' msg (s, ?n) = Some (header_reply p (Some msg) s,
      ?n\<lparr>nd_pendingRPC := (nd_pendingRPC ?n)(?k := None)\<rparr>)"
    using assms(3) unfolding tryDeliverRPC_def prod.case by (simp add: rpc_return_def)
  then show ?thesis unfolding n' HandleMessage_def using assms(3,5,6)
    by (simp add: header_reply_def)
qed

lemma any_sender_answers_witness:
  "\<exists>n''. HandleMessage demo_digest (\<lambda>_ xs. xs) demo_od 9
        (direct_message 9 ''q'' ''n'' (''n-'' @ ''1'') MsgHeaders (HeadersPayload []))
        (fst (rpc 7 ''p'' MsgGetHeaders (GetHeadersPayload [] 2) (HeaderCall ''p'') (demo_sy, demo_nd)))
     = Some ((demo_sy\<lparr>sy_headersCh := sy_headersCh demo_sy
            @ [\<lparr>hr_peer = ''p'', hr_ok = True, hr_metas = []\<rparr>]\<rparr>, n''), [])"
proof -
  let ?m = "direct_message 9 ''q'' ''n'' (''n-'' @ ''1'') MsgHeaders (HeadersPayload [])"
  obtain s' n' es where r: "rpc 7 ''p'' MsgGetHeaders (GetHeadersPayload [] 2) (HeaderCall ''p'') (demo_sy, demo_nd)
      = ((s', n'), es)" by (metis prod.collapse)
  have "msg_TraceID ?m = trace_id (nd_id demo_nd) (nd_rpcSeq demo_nd + 1)"
    by (simp add: direct_message_def trace_id_def dec_nat.simps digit_char_def)
  from any_sender_answers [OF r _ this refl, of "[]" demo_digest "\<lambda>_ xs. xs" demo_od 9] show ?thesis
    unfolding r by (auto simp: direct_message_def)
qed

section \<open>Mining\<close>

text \<open>The block a job stands for once a nonce is good.\<close>

definition job_block :: "digest \<Rightarrow> job \<Rightarrow> block" where
  "job_block sha j = \<lparr>blk_Header = jb_header j, blk_Nonce = jb_nonce j,
     blk_Hash = header_hash sha (jb_header j) (jb_nonce j), blk_Txs = jb_txs j\<rparr>"

lemma job_block_simps [simp]:
  "blk_Header (job_block sha j) = jb_header j" "blk_Txs (job_block sha j) = jb_txs j"
  "blk_Nonce (job_block sha j) = jb_nonce j"
  "blk_Hash (job_block sha j) = header_hash sha (jb_header j) (jb_nonce j)"
  "block_key sha (job_block sha j) = header_hash sha (jb_header j) (jb_nonce j)"
  by (simp_all add: job_block_def block_key_def)

lemma mine_try_found:
  assumes "nd_job n = Some j" "MeetsDifficulty (header_hash sha (jb_header j) (jb_nonce j)) (nd_difficulty n)"
  shows "mine_try sha ord now n
     = mine_found sha ord now (j\<lparr>jb_attempts := jb_attempts j + 1\<rparr>) (header_hash sha (jb_header j) (jb_nonce j)) n"
  using assms by (simp add: mine_try_def Let_def)

lemma mine_found_on_tip:
  assumes inv: "node_inv sha n" and fair: "fair_ranging ord" and j: "nd_job n = Some j" "TipHash (nd_chain n) = jb_tip j"
    and good: "MeetsDifficulty (header_hash sha (jb_header j) (jb_nonce j)) (nd_difficulty n)"
    and tip: "GetTip (nd_chain n) = Some tb"
    and ts: "sint (bh_Timestamp (blk_Header tb)) \<le> sint (bh_Timestamp (jb_header j))"
  shows "validateBlockUnlocked sha (nd_chain n) (job_block sha j) tb (header_hash sha (jb_header j) (jb_nonce j)) = None"
proof -
  have tb: "bc_blocks (nd_chain n) (bc_tip (nd_chain n)) = Some tb" using tip by (simp add: GetTip_def)
  have "blk_Hash tb = jb_tip j"
    using chain_inv_stored [OF node_invD(1) [OF inv] tb] j(2) by (simp add: stored_ok_def TipHash_def)
  with node_invD(6) [OF inv j(1)] node_invD(4) [OF inv] good ts tb j(2) show ?thesis
    by (simp add: validate_None_iff job_ok_def TipHash_def)
qed

lemma mine_begin_job:
  "\<exists>j. nd_job (mine_begin sha now n) = Some j \<and> jb_tip j = TipHash (nd_chain n) \<and> jb_nonce j = 0
     \<and> bh_Height (jb_header j) = TipHeight (nd_chain n) + 1 \<and> bh_Timestamp (jb_header j) = UnixMilli now"
  unfolding mine_begin_def Let_def by (simp split: prod.split)

lemma mine_begin_frame:
  "nd_chain (mine_begin sha now n) = nd_chain n" "nd_difficulty (mine_begin sha now n) = nd_difficulty n"
  "nd_minedBlocks (mine_begin sha now n) = nd_minedBlocks n"
  unfolding mine_begin_def Let_def by (simp_all split: prod.split)

lemma mine_begin_max: "nd_maxHeaders (mine_begin sha now n) = nd_maxHeaders n"
  unfolding mine_begin_def Let_def by (simp split: prod.split)

lemma mine_begin_txs:
  assumes "Pop (nd_maxTxPerBlk n) (nd_mempool n) = (txs, mp)"
  shows "\<exists>j. nd_job (mine_begin sha now n) = Some j \<and> jb_tip j = TipHash (nd_chain n) \<and> jb_txs j = txs"
    "nd_mempool (mine_begin sha now n) = mp"
  unfolding mine_begin_def Let_def assms by simp_all

lemma demo_pool_cfg: "mc_MaxTxs (mp_cfg demo_pool) = 10" "mc_MaxBytes (mp_cfg demo_pool) = 1000"
  by (simp_all add: demo_pool_def New_def Add_def Let_def demo_tx_def estimateTxSize_def)

text \<open>The example node with a job, and one whose tip is dated 9 ms after its job.\<close>

definition demo_mining :: node where
  "demo_mining = mine_begin demo_digest 5 demo_nd"

lemma demo_mining_reachable: "node_reachable demo_digest (\<lambda>_ xs. xs) 5 (demo_sy, demo_mining)"
  using node_reachable.job [of demo_digest "\<lambda>_ xs. xs" 0 demo_sy demo_nd 5] demo_pair_reachable [of 0]
  by (simp add: demo_mining_def)

lemma demo_nonce0: "demo_digest (PutUint64 0) = 0"
  by (simp add: demo_digest_def PutUint64_def upt_rec)

definition demo_future :: blockchain where
  "demo_future = demo_chain2\<lparr>
     bc_blocks := (bc_blocks demo_chain2)(3 \<mapsto> demo_block 2 2 9 3),
     bc_parent := (bc_parent demo_chain2)(3 \<mapsto> 2),
     bc_cumWork := (bc_cumWork demo_chain2)(3 \<mapsto> 2),
     bc_height := (bc_height demo_chain2)(3 \<mapsto> 2), bc_tip := 3\<rparr>"

lemma demo_add_future:
  "\<exists>res. AddBlock demo_digest (\<lambda>_ xs. xs) (Some (demo_block 2 2 9 3)) demo_chain2 = Some (res, None, demo_future)"
  by (simp add: demo_chain2_def demo_future_def demo_eval demo_genesis_def Let_def)

lemma demo_future_reachable: "chain_reachable demo_digest (\<lambda>_ xs. xs) demo_future"
  using demo_add_future chain_reachable.add [OF demo_chain2_reachable] by metis

definition demo_stalled :: node where
  "demo_stalled = mine_begin demo_digest 5 (snd (NewNode ''n'' demo_future None demo_node_cfg))"

lemma demo_stalled_reachable:
  "node_reachable demo_digest (\<lambda>_ xs. xs) 5 (fst (NewNode ''n'' demo_future None demo_node_cfg), demo_stalled)"
proof -
  have "node_reachable demo_digest (\<lambda>_ xs. xs) 0 (NewNode ''n'' demo_future None demo_node_cfg)"
    by (rule node_reachable.boot [OF demo_future_reachable])
      (simp_all add: demo_node_cfg_def demo_future_def demo_chain2_def)
  then show ?thesis unfolding demo_stalled_def
    by (cases "NewNode ''n'' demo_future None demo_node_cfg")
      (auto simp: NewNode_def Let_def intro: node_reachable.job)
qed

text \<open>What a good nonce does, with the announcement spelled out.\<close>

lemma block_meta_hash: "bm_Hash (block_meta_of b h) = h"
  by (simp add: block_meta_of_def)

lemma mined_block_adopted:
  assumes "node_reachable sha ord t (s, n)" and "fair_ranging ord"
    and "nd_job n = Some j" and "TipHash (nd_chain n) = jb_tip j" and "h = header_hash sha (jb_header j) (jb_nonce j)"
    and "MeetsDifficulty h (nd_difficulty n)" and "\<not> HasBlock (nd_chain n) h"
    and "GetTip (nd_chain n) = Some tb" and "sint (bh_Timestamp (blk_Header tb)) \<le> sint (bh_Timestamp (jb_header j))"
    and "bh_Height (jb_header j) \<noteq> 0"
    and "\<forall>(oh, ob) \<in> set (bc_orphans (nd_chain n)). bh_PrevHash (blk_Header ob) \<noteq> h"
  shows "\<exists>n' tc. mine_try sha ord now n = Some (n', [TipChange tc,
        Net (Broadcast (nd_id n) (inv_message now (nd_id n) MsgInvBlock (InvBlockPayload (block_meta_of (job_block sha j) h))))])
     \<and> te_TipHash tc = h \<and> te_Height tc = bh_Height (jb_header j)
     \<and> TipHash (nd_chain n') = h \<and> BlockByHash (nd_chain n') h = Some (job_block sha j)
     \<and> TipHeight (nd_chain n') = TipHeight (nd_chain n) + 1
     \<and> nd_job n' = None \<and> nd_minedBlocks n' = nd_minedBlocks n + 1 \<and> nd_maxHeaders n' = nd_maxHeaders n
     \<and> map te_tx (mp_txs (nd_mempool n'))
         = filter (\<lambda>tx. tx_ID tx \<notin> tx_ids (jb_txs j)) (map te_tx (mp_txs (nd_mempool n)))"
proof -
  have inv: "node_inv sha n" using node_reachable_good [OF assms(1,2)] by (simp add: good_state_def)
  let ?b = "job_block sha j" let ?bc = "nd_chain n"
  have key: "block_key sha ?b = h" by (simp add: assms(5))
  have tb: "bc_blocks ?bc (bc_tip ?bc) = Some tb" using assms(8) by (simp add: GetTip_def)
  have prev: "bh_PrevHash (blk_Header ?b) = bc_tip ?bc"
    using node_invD(6) [OF inv assms(3)] assms(4) by (simp add: job_ok_def TipHash_def)
  have val: "validateBlockUnlocked sha ?bc ?b tb (block_key sha ?b) = None"
    using mine_found_on_tip [OF inv assms(2-4) _ assms(8,9)] assms(5,6) key by simp
  have new: "bc_blocks ?bc (block_key sha ?b) = None" using assms(7) key by (simp add: HasBlock_def)
  obtain bc' where A: "AddBlock sha ord (Some ?b) ?bc = Some (\<lparr>ar_Added = True, ar_IsNewTip = True,
        ar_OldTip = bc_tip ?bc, ar_NewTip = h, ar_Reorg = None\<rparr>, None, bc')"
      "bc_tip bc' = h" "bc_blocks bc' = (bc_blocks ?bc)(h \<mapsto> ?b\<lparr>blk_Hash := h\<rparr>)"
      "TipHeight bc' = bh_Height (jb_header j)"
    using AddBlock_on_tip [OF node_invD(1,2) [OF inv] assms(2) prev tb val _ new] assms(10,11) key
    by (metis job_block_simps(1))
  have stamp: "?b\<lparr>blk_Hash := h\<rparr> = ?b" by (simp add: job_block_def assms(5))
  define m where "m = removeTxsFromBlock ?b (n\<lparr>nd_chain := bc'\<rparr>)"
  define j' where "j' = j\<lparr>jb_attempts := jb_attempts j + 1\<rparr>"
  define n' where "n' = count_attempts j' (m\<lparr>nd_minedBlocks := nd_minedBlocks m + 1\<rparr>)"
  have "mine_try sha ord now n = mine_found sha ord now j' h n"
    using mine_try_found [OF assms(3)] assms(5,6) by (simp add: j'_def)
  also have "\<dots> = Some (n', [tip_change n' (nd_id n') None, announce now n' ?b h])"
    using A(1) assms(4,5) by (simp add: mine_found_def adopt_mined_def n'_def m_def Let_def j'_def job_block_def)
  finally have try_eq: "mine_try sha ord now n = Some (n', [tip_change n' (nd_id n') None, announce now n' ?b h])" .
  have f: "nd_chain n' = bc'" "nd_id n' = nd_id n" "nd_job n' = None"
    "nd_minedBlocks n' = nd_minedBlocks n + 1" "nd_mempool n' = nd_mempool m" "nd_maxHeaders n' = nd_maxHeaders n"
    by (simp_all add: n'_def m_def count_attempts_def removeTxsFromBlock_def)
  have q: "map te_tx (mp_txs (nd_mempool m)) = filter (\<lambda>tx. tx_ID tx \<notin> tx_ids (jb_txs j)) (map te_tx (mp_txs (nd_mempool n)))"
    using RemoveByID_pending [OF node_invD(3) [OF inv]]
    by (simp add: m_def removeTxsFromBlock_def tx_ids_def)
  have "TipHeight ?bc = bh_Height (blk_Header tb)"
    using chain_inv_ht [OF node_invD(1) [OF inv] tb] by (simp add: TipHeight_def)
  then have "TipHeight bc' = TipHeight ?bc + 1" using A(4) val by (simp add: validate_None_iff)
  then show ?thesis unfolding try_eq
    using f q A stamp by (auto simp: tip_change_def announce_def TipHash_def BlockByHash_def)
qed



text \<open>
  Nothing bounds the timestamp of a block from above, but the next block may not be earlier:
  while the tip is dated after the start of a job, the miner finds blocks in vain. The chain refuses
  every one of them, so it stands still and the transactions go back to the mempool.
\<close>
lemma future_tip_stalls_miner:
  assumes "node_reachable sha ord t (s, n)" and "fair_ranging ord" and "nd_job n = Some j"
    and "GetTip (nd_chain n) = Some tb" and "sint (bh_Timestamp (jb_header j)) < sint (bh_Timestamp (blk_Header tb))"
    and "\<not> HasBlock (nd_chain n) (header_hash sha (jb_header j) (jb_nonce j))"
    and "bh_Height (jb_header j) \<noteq> 0"
  shows "\<exists>n'. mine_try sha ord now n = Some (n', []) \<and> nd_chain n' = nd_chain n
     \<and> nd_minedBlocks n' = nd_minedBlocks n
     \<and> (MeetsDifficulty (header_hash sha (jb_header j) (jb_nonce j)) (nd_difficulty n) \<longrightarrow>
          nd_mempool n' = Return (\<lambda>_. now) (jb_txs j) (nd_mempool n))"
proof -
  have inv: "node_inv sha n" using node_reachable_good [OF assms(1,2)] by (simp add: good_state_def)
  let ?h = "header_hash sha (jb_header j) (jb_nonce j)" let ?b = "job_block sha j"
  let ?j = "j\<lparr>jb_attempts := jb_attempts j + 1\<rparr>"
  show ?thesis
  proof (cases "MeetsDifficulty ?h (nd_difficulty n)")
    case False
    then show ?thesis using assms(3) by (simp add: mine_try_def)
  next
    case True
    note found = mine_try_found [OF assms(3) True, of ord now]
    have "mine_found sha ord now ?j ?h n = Some (give_back now ?j n, [])"
    proof (cases "TipHash (nd_chain n) = jb_tip j")
      case False
      then show ?thesis by (simp add: mine_found_def)
    next
      case tip: True
      have tb: "bc_blocks (nd_chain n) (jb_tip j) = Some tb" using assms(4) tip by (simp add: GetTip_def TipHash_def)
      have job: "bh_PrevHash (jb_header j) = jb_tip j" using node_invD(6) [OF inv assms(3)] by (simp add: job_ok_def)
      obtain err where "validateBlockUnlocked sha (nd_chain n) ?b tb ?h = Some err"
        using assms(5) validate_None_iff [of sha "nd_chain n" ?b tb ?h] by fastforce
      then have "addBlockUnlocked sha (Some ?b) (nd_chain n) = Some (no_change (nd_chain n), Some err, nd_chain n)"
        using assms(6,7) job tb by (simp add: addBlockUnlocked_Some HasBlock_def word_gt_0)
      then have "AddBlock sha ord (Some ?b) (nd_chain n) = Some (no_change (nd_chain n), Some err, nd_chain n)"
        by (simp add: AddBlock_def)
      then show ?thesis using tip by (simp add: mine_found_def job_block_def)
    qed
    with found show ?thesis by (simp add: give_back_def count_attempts_def)
  qed
qed

lemma future_tip_stalls_miner_witness:
  "\<exists>n'. mine_try demo_digest (\<lambda>_ xs. xs) 6 demo_stalled = Some (n', []) \<and> nd_chain n' = demo_future"
proof -
  obtain j where j: "nd_job demo_stalled = Some j" "jb_nonce j = 0"
    "bh_Height (jb_header j) = 3" "bh_Timestamp (jb_header j) = 0"
    using mine_begin_job [of demo_digest 5 "snd (NewNode ''n'' demo_future None demo_node_cfg)"] unfolding demo_stalled_def
    by (auto simp: TipHeight_def demo_future_def UnixMilli_def NewNode_def Let_def)
  have "\<exists>n'. mine_try demo_digest (\<lambda>_ xs. xs) 6 demo_stalled = Some (n', []) \<and> nd_chain n' = nd_chain demo_stalled
     \<and> nd_minedBlocks n' = nd_minedBlocks demo_stalled
     \<and> (MeetsDifficulty (header_hash demo_digest (jb_header j) (jb_nonce j)) (nd_difficulty demo_stalled) \<longrightarrow>
          nd_mempool n' = Return (\<lambda>_. 6) (jb_txs j) (nd_mempool demo_stalled))"
    by (rule future_tip_stalls_miner [OF demo_stalled_reachable fair_ranging_id j(1), of "demo_block 2 2 9 3"])
      (simp_all add: j demo_header_hash demo_nonce0 HasBlock_def GetTip_def demo_stalled_def mine_begin_frame
        NewNode_def Let_def demo_future_def demo_chain2_def)
  then show ?thesis by (auto simp: demo_stalled_def mine_begin_frame NewNode_def Let_def)
qed

section \<open>Reorganisations and the mempool\<close>

text \<open>
  C33: When a block moves the main chain to another branch, the transactions of the blocks that left
  it are pending again behind the others (as far as the pool has room and does not know them), and
  nothing that is confirmed by the new branch is pending; every other pending transaction stays, in
  order.
\<close>
theorem reorg_returns_transactions:
  assumes "node_reachable sha ord t (s, n)" and "fair_ranging ord"
    and "AddBlock sha ord (Some b) (nd_chain n) = Some (res, None, bc')" and "ar_Added res"
    and "ar_Reorg res = Some r"
  shows "\<exists>rm ad n' es'. rg_Removed r = map Some rm \<and> rg_Added r = map Some ad
     \<and> onNewBlock sha ord now b from (n, es) = Some (n', es') \<and> nd_chain n' = bc'
     \<and> pending (nd_mempool n') = filter (\<lambda>tx. tx_ID tx \<notin> tx_ids (concat (map blk_Txs ad)))
           (pending (Return (\<lambda>_. now) (concat (map blk_Txs rm)) (nd_mempool n)))
     \<and> (let txs = concat (map blk_Txs rm); mp = nd_mempool n in
         distinct (map tx_ID (pending mp @ txs))
         \<and> int (length (mp_txs mp)) + int (length txs) \<le> mc_MaxTxs (mp_cfg mp)
         \<and> mp_totalBytes mp + sum_list (map estimateTxSize txs) \<le> mc_MaxBytes (mp_cfg mp)
         \<longrightarrow> pending (nd_mempool n') = filter (\<lambda>tx. tx_ID tx \<notin> tx_ids (concat (map blk_Txs ad))) (pending mp @ txs))"
proof -
  have inv: "node_inv sha n" using node_reachable_good [OF assms(1,2)] by (simp add: good_state_def)
  from node_add [OF inv assms(2), of "Some b"] obtain mid where
    A: "report_ok (nd_chain n) mid res" "chain_inv sha mid" "extends (nd_chain n) mid"
      "node_inv sha (n\<lparr>nd_chain := bc'\<rparr>)" using assms(3) by (metis option.inject prod.inject)
  let ?n = "n\<lparr>nd_chain := bc', nd_recvBlocks := nd_recvBlocks n + 1\<rparr>"
  have i: "node_inv sha ?n" by (rule node_inv_frame [OF A(4)]) simp_all
  from applyReorg_ok [OF i node_invD(1) [OF inv] A(1,2,3) assms(5)] obtain rm ad mp where
    R: "applyReorg (\<lambda>_. now) r ?n = Some (?n\<lparr>nd_mempool := mp\<rparr>)"
      "rg_Removed r = map Some rm" "rg_Added r = map Some ad"
      "mp = RemoveByID (tx_ids (concat (map blk_Txs ad))) (Return (\<lambda>_. now) (concat (map blk_Txs rm)) (nd_mempool ?n))"
    by metis
  have pi: "pool_inv (nd_mempool n)" using node_invD(3) [OF inv] .
  have "pool_inv (Return (\<lambda>_. now) (concat (map blk_Txs rm)) (nd_mempool n))" using pi by (rule Return_inv)
  then have q: "pending mp = filter (\<lambda>tx. tx_ID tx \<notin> tx_ids (concat (map blk_Txs ad)))
      (pending (Return (\<lambda>_. now) (concat (map blk_Txs rm)) (nd_mempool n)))"
    unfolding R(4) by (simp add: RemoveByID_pending)
  have q2: "pending (Return (\<lambda>_. now) txs (nd_mempool n)) = pending (nd_mempool n) @ txs"
    if "distinct (map tx_ID (pending (nd_mempool n) @ txs))"
      "int (length (mp_txs (nd_mempool n))) + int (length txs) \<le> mc_MaxTxs (mp_cfg (nd_mempool n))"
      "mp_totalBytes (nd_mempool n) + sum_list (map estimateTxSize txs) \<le> mc_MaxBytes (mp_cfg (nd_mempool n))" for txs
    using that by (intro Return_accepts [OF pi]) auto
  define n' where "n' = ?n\<lparr>nd_mempool := mp\<rparr>"
  have "\<exists>es'. onNewBlock sha ord now b from (n, es) = Some (n', es')"
    using assms(3-5) R(1) by (simp add: onNewBlock_def Let_def n'_def)
  moreover have "nd_chain n' = bc'" "nd_mempool n' = mp" by (simp_all add: n'_def)
  ultimately show ?thesis using R(2,3) q q2 by (auto simp: Let_def)
qed

definition demo_fork_node :: node where
  "demo_fork_node = snd (NewNode ''n'' demo_fork None demo_node_cfg)"

theorem reorg_returns_transactions_witness:
  "\<exists>n' es'. onNewBlock demo_digest (\<lambda>_ xs. xs) 5 (demo_block 2 3 0 4) ''p'' (demo_fork_node, []) = Some (n', es')
     \<and> nd_chain n' = demo_switched \<and> pending (nd_mempool n') = []"
proof -
  have "node_reachable demo_digest (\<lambda>_ xs. xs) 0 (NewNode ''n'' demo_fork None demo_node_cfg)"
    by (rule node_reachable.boot [OF demo_fork_reachable])
      (simp_all add: demo_node_cfg_def demo_fork_def demo_chain2_def)
  then have r: "node_reachable demo_digest (\<lambda>_ xs. xs) 0 (fst (NewNode ''n'' demo_fork None demo_node_cfg), demo_fork_node)"
    by (simp add: demo_fork_node_def)
  have c: "nd_chain demo_fork_node = demo_fork" "mp_txs (nd_mempool demo_fork_node) = []"
    by (simp_all add: demo_fork_node_def NewNode_def Let_def New_def)
  from reorg_returns_transactions [OF r fair_ranging_id, of "demo_block 2 3 0 4", unfolded c(1), OF demo_add4,
      unfolded add_result.select_convs, OF TrueI refl, unfolded reorg.select_convs, of 5 "''p''" "[]"]
  show ?thesis using c by (auto simp: map_eq_Cons_conv)
qed

text \<open>
  A job that was overtaken gives all its transactions back, without asking whether the block
  that overtook it has confirmed them: a transaction of the job that is in a block of the main chain
  is pending again, to be mined once more.
\<close>
lemma overtaken_job_requeues:
  assumes "node_reachable sha ord t (s, n)" and "fair_ranging ord" and "nd_job n = Some j"
    and "MeetsDifficulty (header_hash sha (jb_header j) (jb_nonce j)) (nd_difficulty n)"
    and "TipHash (nd_chain n) \<noteq> jb_tip j"
    and "distinct (map tx_ID (pending (nd_mempool n) @ jb_txs j))"
    and "int (length (pending (nd_mempool n))) + int (length (jb_txs j)) \<le> mc_MaxTxs (mp_cfg (nd_mempool n))"
    and "mp_totalBytes (nd_mempool n) + sum_list (map estimateTxSize (jb_txs j)) \<le> mc_MaxBytes (mp_cfg (nd_mempool n))"
  shows "\<exists>n'. mine_try sha ord now n = Some (n', []) \<and> nd_chain n' = nd_chain n \<and> nd_job n' = None
     \<and> pending (nd_mempool n') = pending (nd_mempool n) @ jb_txs j"
proof -
  have inv: "node_inv sha n" using node_reachable_good [OF assms(1,2)] by (simp add: good_state_def)
  let ?j = "j\<lparr>jb_attempts := jb_attempts j + 1\<rparr>"
  have "pending (Return (\<lambda>_. now) (jb_txs j) (nd_mempool n)) = pending (nd_mempool n) @ jb_txs j"
    using assms(6-8) by (intro Return_accepts node_invD(3) [OF inv]) auto
  moreover have "mine_try sha ord now n = Some (give_back now ?j n, [])"
    using mine_try_found [OF assms(3,4), of ord now] assms(5) by (simp add: mine_found_def)
  ultimately show ?thesis by (simp add: give_back_def)
qed

text \<open>The job of \<open>demo_mining\<close> holds all three transactions; a block of a peer confirms one of them.\<close>

definition demo_peer_block :: block where
  "demo_peer_block = (let d = demo_block 2 2 0 3; txs = [demo_tx CHR ''b''] in
     d\<lparr>blk_Header := (blk_Header d)\<lparr>bh_TxRoot := HashTransactions demo_digest txs\<rparr>, blk_Txs := txs\<rparr>)"

lemma demo_peer_block_simps:
  "bh_Height (blk_Header demo_peer_block) = 2" "bh_PrevHash (blk_Header demo_peer_block) = 2"
  "bh_Timestamp (blk_Header demo_peer_block) = 0" "bh_Difficulty (blk_Header demo_peer_block) = 0"
  "bh_TxRoot (blk_Header demo_peer_block) = HashTransactions demo_digest (blk_Txs demo_peer_block)"
  "blk_Nonce demo_peer_block = 3" "blk_Hash demo_peer_block = 3" "blk_Txs demo_peer_block = [demo_tx CHR ''b'']"
  "demo_peer_block\<lparr>blk_Hash := 3\<rparr> = demo_peer_block"
  by (simp_all add: demo_peer_block_def Let_def demo_block_def demo_nonce)

lemma demo_peer_added:
  assumes "nd_chain n = demo_chain2" "node_inv demo_digest n"
  obtains n' es' where "onNewBlock demo_digest (\<lambda>_ xs. xs) 5 demo_peer_block ''p'' (n, []) = Some (n', es')"
    "TipHash (nd_chain n') = 3" "BlockByHash (nd_chain n') 3 = Some demo_peer_block"
    "nd_mempool n' = RemoveByID {''b''} (nd_mempool n)" "nd_job n' = nd_job n" "nd_difficulty n' = nd_difficulty n"
    "nd_pendingRPC n' = nd_pendingRPC n"
proof -
  have k: "block_key demo_digest demo_peer_block = 3" by (simp add: block_key_def demo_peer_block_simps)
  have inv: "chain_inv demo_digest demo_chain2" "orphans_waiting demo_chain2"
    using node_invD(1,2) [OF assms(2)] assms(1) by simp_all
  obtain bc' where A: "AddBlock demo_digest (\<lambda>_ xs. xs) (Some demo_peer_block) demo_chain2
        = Some (\<lparr>ar_Added = True, ar_IsNewTip = True, ar_OldTip = bc_tip demo_chain2,
            ar_NewTip = block_key demo_digest demo_peer_block, ar_Reorg = None\<rparr>, None, bc')"
      "bc_tip bc' = 3" "bc_blocks bc' = (bc_blocks demo_chain2)(3 \<mapsto> demo_peer_block)"
    using AddBlock_on_tip [OF inv fair_ranging_id, of demo_peer_block "demo_block 1 1 0 2"] k
    by (simp add: demo_peer_block_simps demo_chain2_def validate_None_iff demo_header_hash demo_nonce) metis
  let ?n = "n\<lparr>nd_chain := bc', nd_recvBlocks := nd_recvBlocks n + 1, nd_mempool := RemoveByID {''b''} (nd_mempool n)\<rparr>"
  have "\<exists>es'. onNewBlock demo_digest (\<lambda>_ xs. xs) 5 demo_peer_block ''p'' (n, []) = Some (?n, es')"
    using A(1) assms(1)
    by (simp add: onNewBlock_def Let_def removeTxsFromBlock_def demo_peer_block_simps tx_ids_def demo_tx_def)
  then show thesis using that A(2,3) by (force simp: TipHash_def BlockByHash_def)
qed

lemma overtaken_job_requeues_witness:
  "\<exists>s n n'. node_reachable demo_digest (\<lambda>_ xs. xs) 5 (s, n) \<and> TipHash (nd_chain n) = 3
     \<and> BlockByHash (nd_chain n) 3 = Some demo_peer_block \<and> demo_tx CHR ''b'' \<in> set (blk_Txs demo_peer_block)
     \<and> mine_try demo_digest (\<lambda>_ xs. xs) 6 n = Some (n', [])
     \<and> pending (nd_mempool n') = [demo_tx CHR ''a'', demo_tx CHR ''b'', demo_tx CHR ''c'']"
proof -
  let ?msg = "direct_message 5 ''p'' ''n'' '''' MsgBlock (BlockPayload (Some demo_peer_block))"
  have pool: "pool_inv demo_pool" using demo_pool_reachable by (rule pool_reachable_inv)
  have n: "nd_chain demo_mining = demo_chain2" by (simp add: demo_mining_def mine_begin_frame)
  have inv: "node_inv demo_digest demo_mining"
    using node_reachable_good [OF demo_mining_reachable fair_ranging_id] by (simp add: good_state_def)
  obtain n1 es where
    1: "onNewBlock demo_digest (\<lambda>_ xs. xs) 5 demo_peer_block ''p'' (demo_mining, []) = Some (n1, es)"
      "TipHash (nd_chain n1) = 3" "BlockByHash (nd_chain n1) 3 = Some demo_peer_block"
      "nd_mempool n1 = RemoveByID {''b''} (nd_mempool demo_mining)" "nd_job n1 = nd_job demo_mining"
      "nd_difficulty n1 = nd_difficulty demo_mining" "nd_pendingRPC n1 = nd_pendingRPC demo_mining"
    by (rule demo_peer_added [OF n inv]) blast
  let ?s1 = "onBlockArrived 3 (record_answer 5 3 ''p'' demo_sy)"
  have "HandleMessage demo_digest (\<lambda>_ xs. xs) demo_od 5 ?msg (demo_sy, demo_mining) = Some ((?s1, n1), es)"
    using 1(1) by (simp add: HandleMessage_def tryDeliverRPC_def direct_message_def HandleBlock_def on_block_def
        claimed_hash_def demo_peer_block_simps Let_def)
  moreover have "nd_maxHeaders demo_mining + uint (TipHeight (nd_chain demo_mining)) < 2 ^ 63 - 1"
    by (simp add: n TipHeight_def demo_chain2_def) (simp add: demo_mining_def mine_begin_max)
  ultimately have r: "node_reachable demo_digest (\<lambda>_ xs. xs) 5 (?s1, n1)"
    using node_reachable.message [OF demo_mining_reachable order_refl demo_od_fair] by simp
  obtain txs mp where p: "Pop 50 demo_pool = (txs, mp)" by fastforce
  have txs: "txs = [demo_tx CHR ''a'', demo_tx CHR ''b'', demo_tx CHR ''c'']" and mp: "pending mp = []"
    using Pop_prefix [OF pool, of 50] Pop_rest [OF pool, of 50] p by (simp_all add: demo_pool_pending)
  obtain j where j: "nd_job demo_mining = Some j" "jb_tip j = 2" "jb_txs j = txs"
    using mine_begin_txs [of demo_nd txs mp demo_digest 5] p by (auto simp: demo_mining_def TipHash_def demo_chain2_def)
  have m: "nd_mempool demo_mining = mp" using mine_begin_txs [of demo_nd txs mp demo_digest 5] p by (simp add: demo_mining_def)
  have pool1: "mp_txs (nd_mempool n1) = []" "mp_totalBytes (nd_mempool n1) = mp_totalBytes mp" "mp_cfg (nd_mempool n1) = mp_cfg mp"
    using mp by (simp_all add: 1(4) m RemoveByID_def)
  have mpi: "pool_inv mp" using Pop_inv [OF pool, of 50] p by simp
  have cfg: "mp_cfg mp = mp_cfg demo_pool" using Pop_eq [OF pool, of 50] p by (simp add: Let_def)
  have bytes: "mp_totalBytes mp = 0" using mpi mp by (simp add: pool_inv_def)
  have n1: "nd_job n1 = Some j" "nd_difficulty n1 = 0" "TipHash (nd_chain n1) = 3"
    using 1(2,5,6) j(1) by (simp_all add: demo_mining_def mine_begin_frame)
  have "\<exists>n'. mine_try demo_digest (\<lambda>_ xs. xs) 6 n1 = Some (n', []) \<and> nd_chain n' = nd_chain n1 \<and> nd_job n' = None
     \<and> pending (nd_mempool n') = pending (nd_mempool n1) @ jb_txs j"
    by (rule overtaken_job_requeues [OF r fair_ranging_id])
      (simp_all add: n1 j(2,3) pool1 txs cfg bytes demo_pool_cfg demo_tx_def estimateTxSize_def)
  moreover have "pending (nd_mempool n1) @ jb_txs j = [demo_tx CHR ''a'', demo_tx CHR ''b'', demo_tx CHR ''c'']"
    by (simp add: pool1(1) j(3) txs)
  moreover have "demo_tx CHR ''b'' \<in> set (blk_Txs demo_peer_block)" by (simp add: demo_peer_block_simps)
  ultimately show ?thesis using r 1(2,3) by metis
qed

section \<open>Header requests\<close>

lemma common_index_first:
  assumes "distinct main" "i < length main" "set pre \<inter> set main = {}"
  shows "common_index (index_map 0 main Map.empty) (pre @ main ! i # post) = i"
  using assms(3)
proof (induction pre)
  case Nil
  then show ?case using index_map_nth [OF assms(1,2), of 0 Map.empty] by simp
next
  case (Cons h pre)
  then have "index_map 0 main Map.empty h = None" by (simp add: index_map_notin)
  then show ?case using Cons by simp
qed

text \<open>
  C34: The answer to a header request continues the asker's chain: it starts right behind the first
  locator hash that is on the main chain, lists the blocks of the main chain from there without a
  gap (each header names the hash before it), and stops at the tip or after the asked number of
  headers, which the node caps; it goes to the asker alone, under the asker's trace id (height plus the cap on
  headers must stay in the range of \<^verbatim>\<open>int\<close>, as it does with the caps the programs configure).
\<close>
theorem headers_answer:
  assumes "node_reachable sha ord t (s, n)" and "fair_ranging ord" and "TipHash (nd_chain n) \<noteq> 0"
    and "nd_maxHeaders n + uint (TipHeight (nd_chain n)) < 2 ^ 63 - 1"
    and "mainChainHashesUnlocked (nd_chain n) = Some main" and "i < length main"
    and "set pre \<inter> set main = {}" and "q \<noteq> ''''" and "tr \<noteq> ''''"
  shows "\<exists>metas. onGetHeaders now (pre @ main ! i # post) mx q tr n
        = Some [Net (Send q (direct_message now (nd_id n) q tr MsgHeaders (HeadersPayload metas)))]
     \<and> length metas = min (nat (if mx \<le> 0 \<or> mx > nd_maxHeaders n then nd_maxHeaders n else mx)) (length main - Suc i)
     \<and> (\<forall>k < length metas. bm_Hash (metas ! k) = main ! (Suc i + k)
          \<and> bh_PrevHash (bm_Header (metas ! k)) = main ! (i + k)
          \<and> (\<exists>b. BlockByHash (nd_chain n) (main ! (Suc i + k)) = Some b \<and> metas ! k = meta_of b))"
proof -
  have inv: "node_inv sha n" using node_reachable_good [OF assms(1,2)] by (simp add: good_state_def)
  let ?bc = "nd_chain n" let ?loc = "pre @ main ! i # post"
  let ?m = "if mx \<le> 0 \<or> mx > nd_maxHeaders n then nd_maxHeaders n else mx"
  have ci: "chain_inv sha ?bc" using node_invD(1) [OF inv] .
  have nz: "bc_tip ?bc \<noteq> 0" using assms(3) by (simp add: TipHash_def)
  obtain tb where tb: "bc_blocks ?bc (bc_tip ?bc) = Some tb" "TipHeight ?bc = bh_Height (blk_Header tb)"
    using tip_block [OF ci] by blast
  have main: "main = main_path ?bc (bc_tip ?bc)" using main_chain_eq [OF ci nz] assms(5) by simp
  have d: "distinct main" using distinct_main_path [OF ci tb(1)] main by simp
  have c: "common_index (index_map 0 main Map.empty) ?loc = i" by (rule common_index_first [OF d assms(6,7)])
  have m: "0 < ?m" "?m \<le> nd_maxHeaders n" using node_invD(5) [OF inv] by auto
  have "int (length (main_path ?bc (bc_tip ?bc))) = uint (TipHeight ?bc) + 1"
    using length_main_path [OF ci tb(1)] tb(2) by simp
  with m assms(4) have "?m + int (length (main_path ?bc (bc_tip ?bc))) < 2 ^ 63" by linarith
  note eq = metas_eq [OF ci nz m(1) this, of ?loc, folded main, unfolded c]
  let ?metas = "map (\<lambda>h. meta_of (the (bc_blocks ?bc h))) (take (nat ?m) (drop (Suc i) main))"
  have "bm_Hash (?metas ! k) = main ! (Suc i + k) \<and> bh_PrevHash (bm_Header (?metas ! k)) = main ! (i + k)
      \<and> (\<exists>b. bc_blocks ?bc (main ! (Suc i + k)) = Some b \<and> ?metas ! k = meta_of b)" if k: "k < length ?metas" for k
  proof -
    have l: "Suc (i + k) < length main" using k by auto
    have e: "?metas ! k = meta_of (the (bc_blocks ?bc (main ! Suc (i + k))))" using k l nth_drop [of "Suc i" main k] by simp
    obtain b where b: "bc_blocks ?bc (main ! Suc (i + k)) = Some b"
      using main_path_known [OF ci tb(1)] nth_mem [OF l] main by blast
    from main_path_link [OF ci tb(1)] l b main have "bh_PrevHash (blk_Header b) = main ! (i + k)" by blast
    moreover have "blk_Hash b = main ! Suc (i + k)" using chain_inv_stored [OF ci b] by (simp add: stored_ok_def)
    ultimately show ?thesis using b e by (simp add: meta_of_def)
  qed
  moreover have "length ?metas = min (nat ?m) (length main - Suc i)" by (simp add: min.commute)
  moreover have "onGetHeaders now ?loc mx q tr n
      = Some [Net (Send q (direct_message now (nd_id n) q tr MsgHeaders (HeadersPayload ?metas)))]"
    using assms(8,9) eq by (simp add: onGetHeaders_def Let_def)
  ultimately show ?thesis unfolding BlockByHash_def by blast
qed

theorem headers_answer_witness:
  "\<exists>metas. onGetHeaders 5 [7, 1] 0 ''q'' ''q-1'' demo_nd
     = Some [Net (Send ''q'' (direct_message 5 ''n'' ''q'' ''q-1'' MsgHeaders (HeadersPayload metas)))]
     \<and> length metas = 1 \<and> bm_Hash (metas ! 0) = 2"
proof -
  have r: "node_reachable demo_digest (\<lambda>_ xs. xs) 0 (demo_sy, demo_nd)" using demo_pair_reachable [of 0] by simp
  have "mainChainHashesUnlocked (nd_chain demo_nd) = Some [1, 2]"
    by (simp add: mainChainHashesUnlocked_def demo_chain2_def back_to.simps reverse_list_rev)
  from headers_answer [OF r fair_ranging_id _ _ this, of 0 "[7]" "''q''" "''q-1''" 5 "[]" 0] obtain metas where
    "onGetHeaders 5 [7, 1] 0 ''q'' ''q-1'' demo_nd
       = Some [Net (Send ''q'' (direct_message 5 (nd_id demo_nd) ''q'' ''q-1'' MsgHeaders (HeadersPayload metas)))]"
    "length metas = 1" "\<forall>k < length metas. bm_Hash (metas ! k) = [1, 2] ! (Suc 0 + k)"
    by (auto simp: TipHash_def TipHeight_def demo_chain2_def)
  then show ?thesis by (intro exI [of _ metas]) simp
qed

end
