(* ===== verification/JsonParse.thy ===== *)
theory JsonParse
  imports Json
begin

text \<open>
  The reading side of \<^verbatim>\<open>encoding/json\<close>: the grammar its scanner accepts, the unquoting of strings
  (escapes, surrogate pairs, invalid UTF-8), numbers kept as their literals, at most 10000 nested
  values. Reading what \<open>Json\<close> prints gives the printed value, with its strings coerced to UTF-8.
\<close>

section \<open>Strings\<close>

definition is_digit :: "char \<Rightarrow> bool" where
  "is_digit c \<longleftrightarrow> (48::nat) \<le> of_char c \<and> of_char c \<le> (57::nat)"

definition hex_value :: "char \<Rightarrow> nat option" where
  "hex_value c = (let v = of_char c :: nat in
     if 48 \<le> v \<and> v \<le> 57 then Some (v - 48)
     else if 97 \<le> v \<and> v \<le> 102 then Some (v - 87)
     else if 65 \<le> v \<and> v \<le> 70 then Some (v - 55) else None)"

text \<open>\<^verbatim>\<open>getu4\<close> without the backslash: the four digits behind a \<^verbatim>\<open>u\<close>.\<close>

definition hex4 :: "string \<Rightarrow> nat option" where
  "hex4 s = (case map hex_value (take 4 s) of
     [Some a, Some b, Some c, Some d] \<Rightarrow> Some (((a * 16 + b) * 16 + c) * 16 + d) | _ \<Rightarrow> None)"

text \<open>\<^verbatim>\<open>utf8.EncodeRune\<close> for a rune that is no surrogate and at most 0x10FFFF.\<close>

definition encode_rune :: "nat \<Rightarrow> string" where
  "encode_rune r =
     (if r < 0x80 then [char_of r]
      else if r < 0x800 then [char_of (0xC0 + r div 64), char_of (0x80 + r mod 64)]
      else if r < 0x10000 then [char_of (0xE0 + r div 4096), char_of (0x80 + r div 64 mod 64), char_of (0x80 + r mod 64)]
      else [char_of (0xF0 + r div 262144), char_of (0x80 + r div 4096 mod 64),
            char_of (0x80 + r div 64 mod 64), char_of (0x80 + r mod 64)])"

definition high_surrogate :: "nat \<Rightarrow> bool" where
  "high_surrogate r \<longleftrightarrow> 0xD800 \<le> r \<and> r < 0xDC00"

definition low_surrogate :: "nat \<Rightarrow> bool" where
  "low_surrogate r \<longleftrightarrow> 0xDC00 \<le> r \<and> r < 0xE000"

text \<open>
  One escape, behind the backslash: the bytes it stands for and how many characters it takes. A
  surrogate pair takes both escapes; a lone surrogate is U+FFFD.
\<close>

definition unescape :: "string \<Rightarrow> (string \<times> nat) option" where
  "unescape s =
     (case s of
        [] \<Rightarrow> None
      | c # cs \<Rightarrow>
          if c = CHR 0x22 \<or> c = CHR 0x5C \<or> c = CHR 0x2F then Some ([c], 1)
          else if c = CHR ''b'' then Some ([CHR 0x08], 1)
          else if c = CHR ''f'' then Some ([CHR 0x0C], 1)
          else if c = CHR ''n'' then Some ([CHR 0x0A], 1)
          else if c = CHR ''r'' then Some ([CHR 0x0D], 1)
          else if c = CHR ''t'' then Some ([CHR 0x09], 1)
          else if c = CHR ''u'' then
            (case hex4 cs of
               None \<Rightarrow> None
             | Some r \<Rightarrow>
                 if high_surrogate r \<or> low_surrogate r then
                   (if high_surrogate r \<and> take 2 (drop 4 cs) = [CHR 0x5C, CHR ''u'']
                    then (case hex4 (drop 6 cs) of
                            None \<Rightarrow> None
                          | Some q \<Rightarrow>
                              if low_surrogate q
                              then Some (encode_rune ((r - 0xD800) * 1024 + (q - 0xDC00) + 0x10000), 11)
                              else Some ([CHR 0xEF, CHR 0xBF, CHR 0xBD], 5))
                    else Some ([CHR 0xEF, CHR 0xBF, CHR 0xBD], 5))
                 else Some (encode_rune r, 5))
          else None)"

lemma unescape_pos: "unescape s = Some (b, k) \<Longrightarrow> 0 < k"
  by (auto simp: unescape_def split: list.splits if_splits option.splits)

text \<open>The characters of a string up to its closing quote, and what follows.\<close>

function parse_chars :: "string \<Rightarrow> (string \<times> string) option" where
  "parse_chars s =
     (case s of
        [] \<Rightarrow> None
      | c # cs \<Rightarrow>
          if c = CHR 0x22 then Some ([], cs)
          else if c = CHR 0x5C then
            (case unescape cs of
               None \<Rightarrow> None
             | Some (b, k) \<Rightarrow> map_option (apfst ((@) b)) (parse_chars (drop k cs)))
          else if of_char c < (32::nat) then None
          else if of_char c < (128::nat) then map_option (apfst (Cons c)) (parse_chars cs)
          else if utf8_size s = 0 then map_option (apfst ((@) [CHR 0xEF, CHR 0xBF, CHR 0xBD])) (parse_chars cs)
          else map_option (apfst ((@) (take (utf8_size s) s))) (parse_chars (drop (utf8_size s) s)))"
  by pat_completeness auto
termination by (relation "measure length") auto

declare parse_chars.simps [simp del]

section \<open>Numbers and values\<close>

definition digits :: "string \<Rightarrow> (string \<times> string) option" where
  "digits s = (if takeWhile is_digit s = [] then None else Some (takeWhile is_digit s, dropWhile is_digit s))"

text \<open>The parts of a number: sign, integer, fraction, exponent; each keeps its characters.\<close>

fun sign_part :: "string \<Rightarrow> string \<times> string" where
  "sign_part [] = ([], [])"
| "sign_part (c # cs) = (if c = CHR ''-'' then ([c], cs) else ([], c # cs))"

fun int_part :: "string \<Rightarrow> (string \<times> string) option" where
  "int_part [] = None"
| "int_part (c # cs) = (if c = CHR ''0'' then Some ([c], cs) else digits (c # cs))"

fun frac_part :: "string \<Rightarrow> (string \<times> string) option" where
  "frac_part [] = Some ([], [])"
| "frac_part (c # cs) = (if c = CHR ''.'' then map_option (apfst (Cons c)) (digits cs) else Some ([], c # cs))"

fun exp_part :: "string \<Rightarrow> (string \<times> string) option" where
  "exp_part [] = Some ([], [])"
| "exp_part (c # cs) =
     (if c = CHR ''e'' \<or> c = CHR ''E'' then
        (case cs of
           [] \<Rightarrow> None
         | g # gs \<Rightarrow> if g = CHR ''+'' \<or> g = CHR ''-'' then map_option (apfst (\<lambda>d. c # g # d)) (digits gs)
                     else map_option (apfst (Cons c)) (digits cs))
      else Some ([], c # cs))"

definition parse_number :: "string \<Rightarrow> (string \<times> string) option" where
  "parse_number s = do {
     let (sign, s) = sign_part s;
     (ip, s) \<leftarrow> int_part s;
     (fp, s) \<leftarrow> frac_part s;
     (ep, s) \<leftarrow> exp_part s;
     Some (sign @ ip @ fp @ ep, s)
   }"

fun skip_ws :: "string \<Rightarrow> string" where
  "skip_ws [] = []"
| "skip_ws (c # cs) = (if c = CHR 0x20 \<or> c = CHR 0x09 \<or> c = CHR 0x0A \<or> c = CHR 0x0D then skip_ws cs else c # cs)"

definition max_depth :: nat where
  "max_depth = 10000"

text \<open>
  The first argument is fuel, the second the nesting. A value takes one unit of fuel for its first
  character, a list of elements or members one for each of them, so twice the length of the text
  is enough (\<open>parse_fuel\<close> below).
\<close>

fun parse_value :: "nat \<Rightarrow> nat \<Rightarrow> string \<Rightarrow> (json \<times> string) option"
  and parse_elems :: "nat \<Rightarrow> nat \<Rightarrow> string \<Rightarrow> (json list \<times> string) option"
  and parse_members :: "nat \<Rightarrow> nat \<Rightarrow> string \<Rightarrow> ((string \<times> json) list \<times> string) option" where
  "parse_value 0 d s = None"
| "parse_value (Suc n) d s =
     (case s of
        [] \<Rightarrow> None
      | c # cs \<Rightarrow>
          if c = CHR 0x22 then map_option (apfst JStr) (parse_chars cs)
          else if c = CHR ''['' then
            (if d \<ge> max_depth then None
             else case skip_ws cs of
                    [] \<Rightarrow> None
                  | e # es \<Rightarrow> if e = CHR '']'' then Some (JArr [], es)
                              else map_option (apfst JArr) (parse_elems n (Suc d) (e # es)))
          else if c = CHR 0x7B then
            (if d \<ge> max_depth then None
             else case skip_ws cs of
                    [] \<Rightarrow> None
                  | e # es \<Rightarrow> if e = CHR 0x7D then Some (JObj [], es)
                              else map_option (apfst JObj) (parse_members n (Suc d) (e # es)))
          else if take 4 s = ''null'' then Some (JNull, drop 4 s)
          else if take 4 s = ''true'' then Some (JBool True, drop 4 s)
          else if take 5 s = ''false'' then Some (JBool False, drop 5 s)
          else map_option (apfst JNum) (parse_number s))"
| "parse_elems 0 d s = None"
| "parse_elems (Suc n) d s =
     (case parse_value n d s of
        None \<Rightarrow> None
      | Some (j, s) \<Rightarrow>
          (case skip_ws s of
             [] \<Rightarrow> None
           | e # es \<Rightarrow> if e = CHR '']'' then Some ([j], es)
                       else if e = CHR '','' then map_option (apfst (Cons j)) (parse_elems n d (skip_ws es))
                       else None))"
| "parse_members 0 d s = None"
| "parse_members (Suc n) d s =
     (case s of
        [] \<Rightarrow> None
      | q # qs \<Rightarrow>
          if q \<noteq> CHR 0x22 then None
          else (case parse_chars qs of
                  None \<Rightarrow> None
                | Some (k, s) \<Rightarrow>
                    (case skip_ws s of
                       [] \<Rightarrow> None
                     | e # es \<Rightarrow>
                         if e \<noteq> CHR '':'' then None
                         else (case parse_value n d (skip_ws es) of
                                 None \<Rightarrow> None
                               | Some (j, s) \<Rightarrow>
                                   (case skip_ws s of
                                      [] \<Rightarrow> None
                                    | f # fs \<Rightarrow>
                                        if f = CHR 0x7D then Some ([(k, j)], fs)
                                        else if f = CHR '','' then
                                          map_option (apfst (Cons (k, j))) (parse_members n d (skip_ws fs))
                                        else None)))))"

definition parse_json :: "string \<Rightarrow> json option" where
  "parse_json s =
     (case parse_value (Suc (2 * length s)) 0 (skip_ws s) of
        Some (j, rest) \<Rightarrow> if skip_ws rest = [] then Some j else None
      | None \<Rightarrow> None)"

section \<open>Reading what was printed: strings\<close>

lemma hex_value_digit: "d < 16 \<Longrightarrow> hex_value (digit_char d) = Some d"
proof -
  assume "d < 16"
  then have "d \<in> set [0..<16]" by simp
  moreover have "\<forall>d \<in> set [0..<16]. hex_value (digit_char d) = Some d"
    by (simp add: upt_rec hex_value_def digit_char_def Let_def)
  ultimately show ?thesis by blast
qed

lemma hex4_digits:
  "a < 16 \<Longrightarrow> b < 16 \<Longrightarrow> c < 16 \<Longrightarrow> d < 16 \<Longrightarrow>
   hex4 (digit_char a # digit_char b # digit_char c # digit_char d # s) = Some (((a * 16 + b) * 16 + c) * 16 + d)"
  by (simp add: hex4_def hex_value_digit)

lemma parse_escape:
  "unescape (s @ t) = Some (b, length s) \<Longrightarrow>
   parse_chars (CHR 0x5C # s @ t) = map_option (apfst ((@) b)) (parse_chars t)"
  by (subst parse_chars.simps) simp

lemma unescape_short:
  "unescape (CHR 0x5C # t) = Some ([CHR 0x5C], 1)" "unescape (CHR 0x22 # t) = Some ([CHR 0x22], 1)"
  "unescape (CHR ''b'' # t) = Some ([CHR 0x08], 1)" "unescape (CHR ''f'' # t) = Some ([CHR 0x0C], 1)"
  "unescape (CHR ''n'' # t) = Some ([CHR 0x0A], 1)" "unescape (CHR ''r'' # t) = Some ([CHR 0x0D], 1)"
  "unescape (CHR ''t'' # t) = Some ([CHR 0x09], 1)"
  by (simp_all add: unescape_def)

lemma unescape_u00:
  assumes "of_char c < (128::nat)"
  shows "unescape (CHR ''u'' # CHR ''0'' # CHR ''0'' # digit_char (of_char c div 16) # digit_char (of_char c mod 16) # t) = Some ([c], 5)"
proof -
  have z: "CHR ''0'' = digit_char 0" by (simp add: digit_char_def)
  have "of_char c div 16 < (16::nat)" "of_char c mod 16 < (16::nat)" using assms by simp_all
  then have "hex4 (CHR ''0'' # CHR ''0'' # digit_char (of_char c div 16) # digit_char (of_char c mod 16) # t) = Some (of_char c)"
    unfolding z by (subst hex4_digits) simp_all
  with assms show ?thesis
    by (simp add: unescape_def high_surrogate_def low_surrogate_def encode_rune_def)
qed

lemma parse_ascii:
  assumes "of_char c < (128::nat)"
  shows "parse_chars (escape_ascii c @ t) = map_option (apfst (Cons c)) (parse_chars t)"
proof -
  have cons: "(@) [x] = Cons x" for x :: char by (simp add: fun_eq_iff)
  let ?short = "{CHR 0x5C, CHR 0x22, CHR 0x08, CHR 0x0C, CHR 0x0A, CHR 0x0D, CHR 0x09}"
  let ?html = "of_char c < (32::nat) \<or> c = CHR ''<'' \<or> c = CHR ''>'' \<or> c = CHR 0x26"
  show ?thesis
  proof (cases "c \<in> ?short")
    case True
    have esc: "parse_chars (CHR 0x5C # x # t) = map_option (apfst (Cons c)) (parse_chars t)"
      if "unescape (x # t) = Some ([c], 1)" for x
      using parse_escape [of "[x]" t "[c]"] that by (simp add: cons)
    from True show ?thesis
      by (elim insertE emptyE) (simp_all add: escape_ascii_def esc unescape_short)
  next
    case False
    then have e: "escape_ascii c = (if ?html then [CHR 0x5C, CHR ''u'', CHR ''0'', CHR ''0'',
        digit_char (of_char c div 16), digit_char (of_char c mod 16)] else [c])" by (simp add: escape_ascii_def)
    show ?thesis
    proof (cases ?html)
      case True
      show ?thesis unfolding e if_P [OF True]
        using parse_escape [of "[CHR ''u'', CHR ''0'', CHR ''0'', digit_char (of_char c div 16), digit_char (of_char c mod 16)]" t "[c]"]
          unescape_u00 [OF assms, of t] by (simp add: cons)
    next
      case html: False
      then show ?thesis unfolding e if_not_P [OF html] using assms False by (subst parse_chars.simps) simp
    qed
  qed
qed

lemma utf8_size_prefix: "utf8_size s \<noteq> 0 \<Longrightarrow> utf8_size (take (utf8_size s) s @ t) = utf8_size s"
  by (cases s) (auto simp: Let_def split: list.splits if_splits)

lemma parse_rune:
  assumes "utf8_size (c # cs) \<noteq> 0" "\<not> of_char c < (128::nat)"
  shows "parse_chars (take (utf8_size (c # cs)) (c # cs) @ t)
     = map_option (apfst ((@) (take (utf8_size (c # cs)) (c # cs)))) (parse_chars t)"
proof -
  let ?k = "utf8_size (c # cs)" let ?s = "take ?k (c # cs) @ t"
  have k: "utf8_size ?s = ?k" using assms(1) by (rule utf8_size_prefix)
  have len: "length (take ?k (c # cs)) = ?k" using utf8_size_le [of "c # cs"] by (simp del: utf8_size.simps)
  obtain j where j: "?k = Suc j" using assms(1) not0_implies_Suc by blast
  have s: "?s = c # (take j cs @ t)" by (simp add: j del: utf8_size.simps)
  have "c \<noteq> CHR 0x22" "c \<noteq> CHR 0x5C" "\<not> of_char c < (32::nat)" using assms(2) by auto
  then have "parse_chars ?s = map_option (apfst ((@) (take (utf8_size ?s) ?s))) (parse_chars (drop (utf8_size ?s) ?s))"
    using assms k by (subst parse_chars.simps) (simp add: s del: utf8_size.simps)
  then show ?thesis unfolding k using len by (simp del: utf8_size.simps)
qed

lemma parse_u:
  assumes "hex4 [a, b, c, d] = Some r" "\<not> high_surrogate r" "\<not> low_surrogate r"
  shows "parse_chars (CHR 0x5C # CHR ''u'' # a # b # c # d # t) = map_option (apfst ((@) (encode_rune r))) (parse_chars t)"
proof -
  have "hex4 (a # b # c # d # t) = Some r" using assms(1) by (simp add: hex4_def)
  then have "unescape ([CHR ''u'', a, b, c, d] @ t) = Some (encode_rune r, 5)"
    using assms(2,3) by (simp add: unescape_def)
  then show ?thesis using parse_escape [of "[CHR ''u'', a, b, c, d]" t "encode_rune r"] by simp
qed

lemma parse_fixed:
  "parse_chars ([CHR 0x5C] @ ''ufffd'' @ t) = map_option (apfst ((@) [CHR 0xEF, CHR 0xBF, CHR 0xBD])) (parse_chars t)"
  "parse_chars ([CHR 0x5C] @ ''u2028'' @ t) = map_option (apfst ((@) [CHR 0xE2, CHR 0x80, CHR 0xA8])) (parse_chars t)"
  "parse_chars ([CHR 0x5C] @ ''u2029'' @ t) = map_option (apfst ((@) [CHR 0xE2, CHR 0x80, CHR 0xA9])) (parse_chars t)"
proof -
  have h: "hex4 ''fffd'' = Some 0xFFFD" "hex4 ''2028'' = Some 0x2028" "hex4 ''2029'' = Some 0x2029"
    by (simp_all add: hex4_def hex_value_def Let_def)
  have e: "encode_rune 0xFFFD = [CHR 0xEF, CHR 0xBF, CHR 0xBD]" "encode_rune 0x2028 = [CHR 0xE2, CHR 0x80, CHR 0xA8]"
    "encode_rune 0x2029 = [CHR 0xE2, CHR 0x80, CHR 0xA9]"
    by (simp_all add: encode_rune_def char_of_def bit_numeral_rec bit_Suc_0_iff)
  show "parse_chars ([CHR 0x5C] @ ''ufffd'' @ t) = map_option (apfst ((@) [CHR 0xEF, CHR 0xBF, CHR 0xBD])) (parse_chars t)"
    using parse_u [OF h(1)] by (simp add: e high_surrogate_def low_surrogate_def)
  show "parse_chars ([CHR 0x5C] @ ''u2028'' @ t) = map_option (apfst ((@) [CHR 0xE2, CHR 0x80, CHR 0xA8])) (parse_chars t)"
    using parse_u [OF h(2)] by (simp add: e high_surrogate_def low_surrogate_def)
  show "parse_chars ([CHR 0x5C] @ ''u2029'' @ t) = map_option (apfst ((@) [CHR 0xE2, CHR 0x80, CHR 0xA9])) (parse_chars t)"
    using parse_u [OF h(3)] by (simp add: e high_surrogate_def low_surrogate_def)
qed

lemma utf8_coerce_Cons:
  "utf8_coerce (c # cs) = (if utf8_size (c # cs) = 0 then [CHR 0xEF, CHR 0xBF, CHR 0xBD] @ utf8_coerce cs
     else take (utf8_size (c # cs)) (c # cs) @ utf8_coerce (drop (utf8_size (c # cs) - 1) cs))"
proof (cases "utf8_size (c # cs)")
  case (Suc j)
  then show ?thesis by (subst utf8_coerce.simps) (simp del: utf8_size.simps)
qed (subst utf8_coerce.simps, simp)

text \<open>A string that was quoted is read back, coerced.\<close>

lemma parse_quoted: "parse_chars (json_escape s @ CHR 0x22 # t) = Some (utf8_coerce s, t)"
proof (induction s rule: json_escape.induct)
  case 1
  then show ?case by (simp add: parse_chars.simps utf8_coerce.simps)
next
  case (2 c cs)
  let ?k = "utf8_size (c # cs)"
  consider (ascii) "of_char c < (128::nat)" | (bad) "\<not> of_char c < (128::nat)" "?k = 0"
    | (ls) "\<not> of_char c < (128::nat)" "?k \<noteq> 0" "take 3 (c # cs) = [CHR 0xE2, CHR 0x80, CHR 0xA8]"
    | (ps) "\<not> of_char c < (128::nat)" "?k \<noteq> 0" "take 3 (c # cs) \<noteq> [CHR 0xE2, CHR 0x80, CHR 0xA8]"
        "take 3 (c # cs) = [CHR 0xE2, CHR 0x80, CHR 0xA9]"
    | (rune) "\<not> of_char c < (128::nat)" "?k \<noteq> 0" "take 3 (c # cs) \<noteq> [CHR 0xE2, CHR 0x80, CHR 0xA8]"
        "take 3 (c # cs) \<noteq> [CHR 0xE2, CHR 0x80, CHR 0xA9]" by blast
  then show ?case
  proof cases
    case ascii
    then have "utf8_size (c # cs) = 1" by simp
    then show ?thesis using ascii 2(1) [OF ascii] parse_ascii [OF ascii]
      by (simp add: utf8_coerce_Cons del: utf8_size.simps)
  next
    case bad
    have "json_escape (c # cs) = [CHR 0x5C] @ ''ufffd'' @ json_escape cs"
      using bad by (simp only: json_escape.simps if_False if_True simp_thms)
    then show ?thesis using 2(2) [OF bad] parse_fixed(1) bad(2)
      by (simp add: utf8_coerce_Cons del: utf8_size.simps)
  next
    case ls
    have "?k = 3" using ls(3) by (cases cs) (auto simp: utf8_cont_def utf8_second_def take_Cons' split: if_splits list.splits)
    moreover have "json_escape (c # cs) = [CHR 0x5C] @ ''u2028'' @ json_escape (drop 2 cs)"
      using ls by (simp only: json_escape.simps if_False if_True simp_thms)
    ultimately show ?thesis using 2(3) [OF ls] parse_fixed(2) ls(3)
      by (simp add: utf8_coerce_Cons numeral_2_eq_2 del: utf8_size.simps)
  next
    case ps
    have "?k = 3" using ps(4) by (cases cs) (auto simp: utf8_cont_def utf8_second_def take_Cons' split: if_splits list.splits)
    moreover have "json_escape (c # cs) = [CHR 0x5C] @ ''u2029'' @ json_escape (drop 2 cs)"
      using ps by (simp only: json_escape.simps if_False if_True simp_thms)
    ultimately show ?thesis using 2(4) [OF ps] parse_fixed(3) ps(4)
      by (simp add: utf8_coerce_Cons numeral_2_eq_2 del: utf8_size.simps)
  next
    case rune
    have "json_escape (c # cs) = take ?k (c # cs) @ json_escape (drop (?k - 1) cs)"
      using rune by (simp only: json_escape.simps if_False simp_thms)
    then show ?thesis using 2(5) [OF rune] parse_rune [OF rune(2,1)] rune(2)
      by (simp add: utf8_coerce_Cons del: utf8_size.simps)
  qed
qed

section \<open>Reading what was printed: numbers\<close>

definition num_end :: "string \<Rightarrow> bool" where
  "num_end s = (case s of [] \<Rightarrow> True | c # _ \<Rightarrow> \<not> is_digit c \<and> c \<noteq> CHR ''.'' \<and> c \<noteq> CHR ''e'' \<and> c \<noteq> CHR ''E'')"

lemma is_digit_char: "d < 10 \<Longrightarrow> is_digit (digit_char d) \<and> of_char (digit_char d) = 48 + d"
proof -
  assume "d < 10"
  then have "d \<in> set [0..<10]" by simp
  moreover have "\<forall>d \<in> set [0..<10]. is_digit (digit_char d) \<and> of_char (digit_char d) = 48 + d"
    by (simp add: upt_rec is_digit_def digit_char_def)
  ultimately show ?thesis by blast
qed

lemma dec_nat_small: "n < 10 \<Longrightarrow> dec_nat n = [digit_char n]" by (simp add: dec_nat.simps)

lemma dec_nat_big: "\<not> n < 10 \<Longrightarrow> dec_nat n = dec_nat (n div 10) @ [digit_char (n mod 10)]"
  by (subst dec_nat.simps) simp

lemma dec_nat_nonempty: "dec_nat n \<noteq> []" by (cases "n < 10") (simp_all add: dec_nat_small dec_nat_big)

lemma dec_nat_digits: "\<forall>c \<in> set (dec_nat n). is_digit c"
proof (induction n rule: dec_nat.induct)
  case (1 n)
  then show ?case by (cases "n < 10") (simp_all add: dec_nat_small dec_nat_big is_digit_char)
qed

lemma dec_nat_head: "0 < n \<Longrightarrow> hd (dec_nat n) \<noteq> CHR ''0''"
proof (induction n rule: dec_nat.induct)
  case (1 n)
  show ?case
  proof (cases "n < 10")
    case True
    then have "of_char (digit_char n) \<noteq> (48::nat)" using 1(2) is_digit_char [of n] by simp
    then show ?thesis using True by (auto simp: dec_nat_small)
  next
    case False
    then show ?thesis using 1(1) by (simp add: dec_nat_big dec_nat_nonempty hd_append)
  qed
qed

lemma digits_append: "ds \<noteq> [] \<Longrightarrow> \<forall>c \<in> set ds. is_digit c \<Longrightarrow> num_end s \<Longrightarrow> digits (ds @ s) = Some (ds, s)"
  by (cases s; cases ds) (auto simp: digits_def num_end_def)

lemma digit_neq: "is_digit c \<Longrightarrow> c \<noteq> CHR ''-'' \<and> c \<noteq> CHR 0x22 \<and> c \<noteq> CHR ''['' \<and> c \<noteq> CHR '']'' \<and> c \<noteq> CHR 0x7B \<and>
   c \<noteq> CHR 0x7D \<and> c \<noteq> CHR ''n'' \<and> c \<noteq> CHR ''t'' \<and> c \<noteq> CHR ''f'' \<and>
   c \<noteq> CHR 0x20 \<and> c \<noteq> CHR 0x09 \<and> c \<noteq> CHR 0x0A \<and> c \<noteq> CHR 0x0D"
  by (auto simp: is_digit_def)

lemma unsigned_part: "num_end s \<Longrightarrow> int_part (dec_nat n @ s) = Some (dec_nat n, s)"
proof (cases "n = 0")
  case True
  then show ?thesis by (simp add: dec_nat_small digit_char_def)
next
  case False
  assume s: "num_end s"
  obtain c cs where c: "dec_nat n = c # cs" by (meson dec_nat_nonempty neq_Nil_conv)
  then show ?thesis using dec_nat_head [of n] False digits_append [OF dec_nat_nonempty dec_nat_digits s, of n] by simp
qed

lemma parse_number_dec:
  assumes "num_end s"
  shows "parse_number (dec_int i @ s) = Some (dec_int i, s)"
proof -
  have rest: "frac_part s = Some ([], s)" "exp_part s = Some ([], s)"
    using assms by (cases s; simp add: num_end_def)+
  obtain c cs where c: "dec_nat (nat i) = c # cs" by (meson dec_nat_nonempty neq_Nil_conv)
  then have "c \<noteq> CHR ''-''" using dec_nat_digits [of "nat i"] digit_neq by auto
  then have "sign_part (dec_int i @ s) = (if i < 0 then ''-'' else [], dec_nat (nat \<bar>i\<bar>) @ s)"
    by (simp add: dec_int_def c)
  then show ?thesis using unsigned_part [OF assms] rest
    by (simp add: parse_number_def dec_int_def)
qed

section \<open>Reading what was printed: values\<close>

text \<open>What a value becomes on the way, the values whose numbers are integers, and how deep they nest.\<close>

fun json_coerce :: "json \<Rightarrow> json" where
  "json_coerce (JStr s) = JStr (utf8_coerce s)"
| "json_coerce (JArr xs) = JArr (map json_coerce xs)"
| "json_coerce (JObj fs) = JObj (map (\<lambda>(k, v). (utf8_coerce k, json_coerce v)) fs)"
| "json_coerce j = j"

fun json_ints :: "json \<Rightarrow> bool" where
  "json_ints (JNum n) \<longleftrightarrow> (\<exists>i. n = dec_int i)"
| "json_ints (JArr xs) \<longleftrightarrow> (\<forall>x \<in> set xs. json_ints x)"
| "json_ints (JObj fs) \<longleftrightarrow> (\<forall>f \<in> set fs. json_ints (snd f))"
| "json_ints j \<longleftrightarrow> True"

fun json_depth :: "json \<Rightarrow> nat" where
  "json_depth (JArr xs) = Suc (Max (insert 0 (set (map json_depth xs))))"
| "json_depth (JObj fs) = Suc (Max (insert 0 (set (map (\<lambda>f. json_depth (snd f)) fs))))"
| "json_depth j = 0"

lemma dec_int_Cons: "\<exists>c cs. dec_int i = c # cs \<and> (c = CHR ''-'' \<or> is_digit c)"
proof -
  obtain c cs where c: "dec_nat (nat i) = c # cs" by (meson dec_nat_nonempty neq_Nil_conv)
  then have "is_digit c" using dec_nat_digits [of "nat i"] by simp
  with c show ?thesis by (simp add: dec_int_def)
qed

definition opens_value :: "char \<Rightarrow> bool" where
  "opens_value c \<longleftrightarrow> c \<noteq> CHR 0x20 \<and> c \<noteq> CHR 0x09 \<and> c \<noteq> CHR 0x0A \<and> c \<noteq> CHR 0x0D \<and> c \<noteq> CHR '']''"

lemma opens_number: "c = CHR ''-'' \<or> is_digit c \<Longrightarrow> opens_value c"
  by (auto simp: opens_value_def is_digit_def)

text \<open>White space between the parts of a value.\<close>

definition blank :: "string \<Rightarrow> bool" where
  "blank w \<longleftrightarrow> set w \<subseteq> {CHR 0x20, CHR 0x09, CHR 0x0A, CHR 0x0D}"

definition layout :: "(nat \<Rightarrow> string) \<Rightarrow> string \<Rightarrow> bool" where
  "layout nl sep \<longleftrightarrow> (\<forall>k. blank (nl k)) \<and> (\<exists>w. sep = CHR '':'' # w \<and> blank w)"

lemma skip_ws_blank: "blank w \<Longrightarrow> skip_ws (w @ s) = skip_ws s"
  by (induction w) (auto simp: blank_def)

lemma lay_json_head:
  assumes "json_ints j"
  obtains c cs where "lay_json nl sep k j = c # cs" "opens_value c"
proof (cases j)
  case (JNum n)
  then obtain i where "n = dec_int i" using assms by auto
  moreover obtain c cs where "dec_int i = c # cs" "c = CHR ''-'' \<or> is_digit c" using dec_int_Cons by blast
  ultimately show ?thesis using JNum that [of c cs] opens_number by simp
next
  case (JBool b)
  then show ?thesis using that by (cases b) (simp_all add: opens_value_def)
next
  case (JArr xs)
  then show ?thesis using that by (cases xs) (simp_all add: opens_value_def)
next
  case (JObj fs)
  then show ?thesis using that by (cases fs) (simp_all add: opens_value_def)
qed (use that in \<open>simp_all add: json_quote_def opens_value_def\<close>)

lemma skip_ws_lay: "json_ints j \<Longrightarrow> skip_ws (lay_json nl sep k j @ s) = lay_json nl sep k j @ s"
  by (rule lay_json_head [of j nl sep k]) (simp_all add: opens_value_def)

lemma comma_join_Cons: "comma_join (x # xs) @ s = x @ (if xs = [] then s else CHR '','' # comma_join xs @ s)"
  by (cases xs) auto

lemma num_end_simps: "num_end []" "num_end (CHR '','' # s)" "num_end (CHR '']'' # s)" "num_end (CHR 0x7D # s)"
  by (simp_all add: num_end_def is_digit_def)

lemma num_end_blank: "blank w \<Longrightarrow> num_end s \<Longrightarrow> num_end (w @ s)"
  by (cases w) (auto simp: num_end_def is_digit_def blank_def)

text \<open>One printed value followed by anything that ends a number.\<close>

definition reads_back :: "(nat \<Rightarrow> string) \<Rightarrow> string \<Rightarrow> json \<Rightarrow> bool" where
  "reads_back nl sep j \<longleftrightarrow> (\<forall>n d k s. json_ints j \<longrightarrow> d + json_depth j \<le> max_depth \<longrightarrow> num_end s \<longrightarrow>
     2 * length (lay_json nl sep k j @ s) < n \<longrightarrow> parse_value n d (lay_json nl sep k j @ s) = Some (json_coerce j, s))"

lemma reads_backD:
  "reads_back nl sep j \<Longrightarrow> json_ints j \<Longrightarrow> d + json_depth j \<le> max_depth \<Longrightarrow> num_end s \<Longrightarrow>
   2 * length (lay_json nl sep k j @ s) < n \<Longrightarrow> parse_value n d (lay_json nl sep k j @ s) = Some (json_coerce j, s)"
  by (simp add: reads_back_def)

lemma parse_elems_laid:
  assumes "blank (nl (Suc k))" "blank w" "xs \<noteq> []" "\<And>x. x \<in> set xs \<Longrightarrow> reads_back nl sep x \<and> json_ints x \<and> d + json_depth x \<le> max_depth"
    "2 * length (comma_join (map (\<lambda>x. nl (Suc k) @ lay_json nl sep (Suc k) x) xs) @ w @ CHR '']'' # s) + 1 < n"
  shows "parse_elems n d (skip_ws (comma_join (map (\<lambda>x. nl (Suc k) @ lay_json nl sep (Suc k) x) xs) @ w @ CHR '']'' # s))
     = Some (map json_coerce xs, s)"
  using assms(3-)
proof (induction xs arbitrary: n)
  case (Cons x xs)
  obtain m where n: "n = Suc m" using Cons(4) by (cases n) auto
  have x: "reads_back nl sep x" "json_ints x" "d + json_depth x \<le> max_depth" using Cons(3) by simp_all
  let ?lay = "\<lambda>x. nl (Suc k) @ lay_json nl sep (Suc k) x"
  note split = comma_join_Cons [of "?lay x" "map ?lay xs" "w @ CHR '']'' # s"]
  note ws = skip_ws_blank [OF assms(1)] skip_ws_blank [OF assms(2)] skip_ws_lay [OF x(2)]
  show ?case
  proof (cases "xs = []")
    case True
    then show ?thesis using Cons(4) reads_backD [OF x, of "w @ CHR '']'' # s" "Suc k" m]
      by (simp add: n num_end_blank [OF assms(2)] num_end_simps ws)
  next
    case False
    let ?t = "comma_join (map ?lay xs) @ w @ CHR '']'' # s"
    have "parse_value m d (lay_json nl sep (Suc k) x @ CHR '','' # ?t) = Some (json_coerce x, CHR '','' # ?t)"
      using Cons(4) False split by (intro reads_backD [OF x]) (simp_all add: n num_end_simps)
    moreover have "parse_elems m d (skip_ws ?t) = Some (map json_coerce xs, s)"
      using Cons(3,4) False split by (intro Cons(1)) (simp_all add: n)
    ultimately show ?thesis using False split by (simp add: n ws)
  qed
qed simp

lemma parse_members_laid:
  assumes "blank (nl (Suc k))" "blank w" "sep = CHR '':'' # v" "blank v" "fs \<noteq> []"
    "\<And>f. f \<in> set fs \<Longrightarrow> reads_back nl sep (snd f) \<and> json_ints (snd f) \<and> d + json_depth (snd f) \<le> max_depth"
    "2 * length (comma_join (map (\<lambda>(a, b). nl (Suc k) @ json_quote a @ sep @ lay_json nl sep (Suc k) b) fs) @ w @ CHR 0x7D # s) + 1 < n"
  shows "parse_members n d (skip_ws (comma_join (map (\<lambda>(a, b). nl (Suc k) @ json_quote a @ sep @ lay_json nl sep (Suc k) b) fs) @ w @ CHR 0x7D # s))
     = Some (map (\<lambda>(k, v). (utf8_coerce k, json_coerce v)) fs, s)"
  using assms(5-)
proof (induction fs arbitrary: n)
  case (Cons f fs)
  obtain m where n: "n = Suc m" using Cons(4) by (cases n) auto
  obtain a b where f: "f = (a, b)" by (cases f)
  have b: "reads_back nl sep b" "json_ints b" "d + json_depth b \<le> max_depth" using Cons(3) [of f] by (simp_all add: f)
  let ?lay = "\<lambda>(a, b). nl (Suc k) @ json_quote a @ sep @ lay_json nl sep (Suc k) b"
  note split = comma_join_Cons [of "nl (Suc k) @ json_quote a @ sep @ lay_json nl sep (Suc k) b" "map ?lay fs" "w @ CHR 0x7D # s"]
  note ws = skip_ws_blank [OF assms(1)] skip_ws_blank [OF assms(2)] skip_ws_blank [OF assms(4)] skip_ws_lay [OF b(2)]
  show ?case
  proof (cases "fs = []")
    case True
    then have "parse_value m d (lay_json nl sep (Suc k) b @ w @ CHR 0x7D # s) = Some (json_coerce b, w @ CHR 0x7D # s)"
      using Cons(4) by (intro reads_backD [OF b]) (simp_all add: n f json_quote_def num_end_blank [OF assms(2)] num_end_simps)
    then show ?thesis using True by (simp add: n f json_quote_def parse_quoted ws assms(3))
  next
    case False
    let ?t = "comma_join (map ?lay fs) @ w @ CHR 0x7D # s"
    have "parse_value m d (lay_json nl sep (Suc k) b @ CHR '','' # ?t) = Some (json_coerce b, CHR '','' # ?t)"
      using Cons(4) False split by (intro reads_backD [OF b]) (simp_all add: n f json_quote_def num_end_simps)
    moreover have "parse_members m d (skip_ws ?t) = Some (map (\<lambda>(k, v). (utf8_coerce k, json_coerce v)) fs, s)"
      using Cons(3,4) False split by (intro Cons(1)) (simp_all add: n f json_quote_def)
    ultimately show ?thesis using False split by (simp add: n f json_quote_def parse_quoted ws assms(3))
  qed
qed simp

lemma depth_elem:
  assumes "x \<in> set xs" "d + json_depth (JArr xs) \<le> max_depth"
  shows "Suc d + json_depth x \<le> max_depth"
proof -
  have "json_depth x \<le> Max (insert 0 (set (map json_depth xs)))" using assms(1) by (intro Max_ge) auto
  with assms(2) show ?thesis by (simp del: Max_insert)
qed

lemma depth_member:
  assumes "f \<in> set fs" "d + json_depth (JObj fs) \<le> max_depth"
  shows "Suc d + json_depth (snd f) \<le> max_depth"
proof -
  have "json_depth (snd f) \<le> Max (insert 0 (set (map (\<lambda>f. json_depth (snd f)) fs)))"
    using assms(1) by (intro Max_ge) auto
  with assms(2) show ?thesis by (simp del: Max_insert)
qed

lemma parse_words:
  "0 < n \<Longrightarrow> parse_value n d (CHR ''n'' # CHR ''u'' # CHR ''l'' # CHR ''l'' # s) = Some (JNull, s)"
  "0 < n \<Longrightarrow> parse_value n d (CHR ''t'' # CHR ''r'' # CHR ''u'' # CHR ''e'' # s) = Some (JBool True, s)"
  "0 < n \<Longrightarrow> parse_value n d (CHR ''f'' # CHR ''a'' # CHR ''l'' # CHR ''s'' # CHR ''e'' # s) = Some (JBool False, s)"
  by (cases n; simp)+

lemma all_read_back: "layout nl sep \<Longrightarrow> reads_back nl sep j"
proof (induction j)
  case (JNum n)
  have "parse_value m d (print_json (JNum n) @ s) = Some (JNum n, s)"
    if ints: "json_ints (JNum n)" and e: "num_end s" and m: "0 < m" for m d s
  proof -
    obtain i where i: "n = dec_int i" using ints by auto
    obtain c cs where c: "dec_int i = c # cs" "c = CHR ''-'' \<or> is_digit c" using dec_int_Cons by blast
    then have "c \<notin> {CHR 0x22, CHR ''['', CHR 0x7B, CHR ''n'', CHR ''t'', CHR ''f''}" using digit_neq by auto
    moreover obtain k where "m = Suc k" using m not0_implies_Suc by blast
    ultimately show ?thesis using parse_number_dec [OF e, of i] c(1) by (simp add: i)
  qed
  then show ?case by (simp add: reads_back_def)
next
  case (JStr s)
  show ?case unfolding reads_back_def
  proof (intro allI impI)
    fix n d k t assume "2 * length (lay_json nl sep k (JStr s) @ t) < n"
    then obtain m where "n = Suc m" by (cases n) auto
    then show "parse_value n d (lay_json nl sep k (JStr s) @ t) = Some (json_coerce (JStr s), t)"
      by (simp add: json_quote_def parse_quoted)
  qed
next
  case (JArr xs)
  have ws: "blank (nl k)" for k using JArr.prems by (simp add: layout_def)
  show ?case unfolding reads_back_def
  proof (intro allI impI)
    fix n d k s
    assume a: "json_ints (JArr xs)" "d + json_depth (JArr xs) \<le> max_depth" "2 * length (lay_json nl sep k (JArr xs) @ s) < n"
    then obtain m where n: "n = Suc m" by (cases n) auto
    have d: "d < max_depth" using a(2) by simp
    show "parse_value n d (lay_json nl sep k (JArr xs) @ s) = Some (json_coerce (JArr xs), s)"
    proof (cases xs)
      case Nil
      then show ?thesis using d by (simp add: n)
    next
      case (Cons y ys)
      let ?t = "comma_join (map (\<lambda>x. nl (Suc k) @ lay_json nl sep (Suc k) x) xs) @ nl k @ CHR '']'' # s"
      have "json_ints y" using a(1) by (simp add: Cons)
      then obtain c cs where c: "lay_json nl sep (Suc k) y = c # cs" "opens_value c"
        by (rule lay_json_head)
      then obtain es where t: "skip_ws ?t = c # es"
        by (simp add: Cons comma_join_Cons skip_ws_blank [OF ws] opens_value_def)
      have "parse_elems m (Suc d) (skip_ws ?t) = Some (map json_coerce xs, s)"
        using a n depth_elem [OF _ a(2)] JArr by (intro parse_elems_laid ws) (auto simp: Cons)
      then have "parse_elems m (Suc d) (c # es) = Some (map json_coerce xs, s)" by (simp only: t)
      moreover have "lay_json nl sep k (JArr xs) @ s = CHR ''['' # ?t" by (simp add: Cons)
      moreover have "c \<noteq> CHR '']''" using c(2) by (simp add: opens_value_def)
      ultimately show ?thesis using d t by (simp add: n)
    qed
  qed
next
  case (JObj fs)
  have ws: "blank (nl k)" for k using JObj.prems by (simp add: layout_def)
  obtain v where v: "sep = CHR '':'' # v" "blank v" using JObj.prems by (auto simp: layout_def)
  show ?case unfolding reads_back_def
  proof (intro allI impI)
    fix n d k s
    assume a: "json_ints (JObj fs)" "d + json_depth (JObj fs) \<le> max_depth" "2 * length (lay_json nl sep k (JObj fs) @ s) < n"
    then obtain m where n: "n = Suc m" by (cases n) auto
    have d: "d < max_depth" using a(2) by simp
    show "parse_value n d (lay_json nl sep k (JObj fs) @ s) = Some (json_coerce (JObj fs), s)"
    proof (cases fs)
      case Nil
      then show ?thesis using d by (simp add: n)
    next
      case (Cons y ys)
      let ?t = "comma_join (map (\<lambda>(a, b). nl (Suc k) @ json_quote a @ sep @ lay_json nl sep (Suc k) b) fs) @ nl k @ CHR 0x7D # s"
      obtain es where t: "skip_ws ?t = CHR 0x22 # es"
        by (cases y) (auto simp: Cons comma_join_Cons json_quote_def skip_ws_blank [OF ws])
      have r: "reads_back nl sep (snd f)" if "f \<in> set fs" for f using JObj.IH [of f "snd f"] JObj.prems that by (cases f) auto
      have "parse_members m (Suc d) (skip_ws ?t) = Some (map (\<lambda>(k, v). (utf8_coerce k, json_coerce v)) fs, s)"
        using a n depth_member [OF _ a(2)] r by (intro parse_members_laid [OF ws ws v]) (auto simp: Cons)
      then have "parse_members m (Suc d) (CHR 0x22 # es) = Some (map (\<lambda>(k, v). (utf8_coerce k, json_coerce v)) fs, s)"
        by (simp only: t)
      moreover have "lay_json nl sep k (JObj fs) @ s = CHR 0x7B # ?t" by (simp add: Cons)
      ultimately show ?thesis using d t by (simp add: n)
    qed
  qed
next
  case JNull
  show ?case using parse_words(1) by (simp add: reads_back_def)
next
  case (JBool b)
  show ?case using parse_words(2,3) by (cases b) (simp_all add: reads_back_def)
qed

lemma parse_laid:
  assumes "layout nl sep" "json_ints j" "json_depth j \<le> max_depth"
  shows "parse_json (lay_json nl sep k j) = Some (json_coerce j)"
proof -
  have "parse_value (Suc (2 * length (lay_json nl sep k j))) 0 (lay_json nl sep k j) = Some (json_coerce j, [])"
    using reads_backD [OF all_read_back [OF assms(1)] assms(2), of 0 "[]" k] assms(3) by (simp add: num_end_simps del: parse_value.simps)
  then show ?thesis using skip_ws_lay [OF assms(2), of nl sep k "[]"] by (simp add: parse_json_def del: parse_value.simps)
qed

lemma parse_printed: "json_ints j \<Longrightarrow> json_depth j \<le> max_depth \<Longrightarrow> parse_json (print_json j) = Some (json_coerce j)"
  using parse_laid [of "\<lambda>_. []" "'':''" j 0] by (simp add: layout_def blank_def lay_json_compact)

lemma parse_indented: "json_ints j \<Longrightarrow> json_depth j \<le> max_depth \<Longrightarrow> parse_json (MarshalIndent j) = Some (json_coerce j)"
  unfolding MarshalIndent_def by (rule parse_laid) (auto simp: layout_def blank_def)

section \<open>Fuel\<close>

text \<open>Every reader leaves less than it was given, so the fuel of \<open>parse_json\<close> never runs out.\<close>

lemma parse_chars_shorter: "parse_chars s = Some (x, r) \<Longrightarrow> length r < length s"
proof (induction "length s" arbitrary: s x r rule: less_induct)
  case less
  then obtain c cs where s: "s = c # cs" by (cases s) (simp_all add: parse_chars.simps)
  have "(\<exists>y k. parse_chars (drop k cs) = Some (y, r)) \<or> (\<exists>y. parse_chars cs = Some (y, r)) \<or>
      (\<exists>y k. 0 < k \<and> parse_chars (drop k s) = Some (y, r)) \<or> r = cs"
    using less.prems unfolding s
    by (subst (asm) parse_chars.simps)
      (auto simp del: utf8_size.simps split: if_splits option.splits)
  then have "\<exists>t y. length t < length s \<and> (parse_chars t = Some (y, r) \<or> r = t)"
  proof (elim disjE exE conjE)
    fix y k assume "parse_chars (drop k cs) = Some (y, r)"
    then show ?thesis using s by (intro exI [of _ "drop k cs"] exI [of _ y]) auto
  next
    fix y k assume "0 < k" "parse_chars (drop k s) = Some (y, r)"
    then show ?thesis using s by (intro exI [of _ "drop k s"] exI [of _ y]) auto
  next
    fix y assume "parse_chars cs = Some (y, r)"
    then show ?thesis using s by (intro exI [of _ cs] exI [of _ y]) auto
  qed (use s in auto)
  then obtain t y where "length t < length s" "parse_chars t = Some (y, r) \<or> r = t" by blast
  then show ?case using less.hyps [of t y r] by auto
qed

lemma skip_ws_le: "length (skip_ws s) \<le> length s" by (induction s) auto

lemma digits_shorter: "digits s = Some (x, r) \<Longrightarrow> length r < length s"
  by (cases s) (auto simp: digits_def le_imp_less_Suc length_dropWhile_le split: if_splits)

lemma int_part_shorter: "int_part s = Some (x, r) \<Longrightarrow> length r < length s"
  by (cases s) (auto dest: digits_shorter split: if_splits)

lemma frac_part_le: "frac_part s = Some (x, r) \<Longrightarrow> length r \<le> length s"
  by (cases s) (auto dest!: digits_shorter split: if_splits)

lemma exp_part_le: "exp_part s = Some (x, r) \<Longrightarrow> length r \<le> length s"
  by (cases s) (auto dest!: digits_shorter split: if_splits list.splits)

lemma parse_number_shorter: "parse_number s = Some (x, r) \<Longrightarrow> length r < length s"
proof -
  assume "parse_number s = Some (x, r)"
  then obtain sg t a b c t1 t2 where *: "sign_part s = (sg, t)" "int_part t = Some (a, t1)" "frac_part t1 = Some (b, t2)" "exp_part t2 = Some (c, r)"
    by (auto simp: parse_number_def split: bind_splits prod.splits)
  moreover have "length t \<le> length s" using *(1) by (cases s) (auto split: if_splits)
  ultimately show ?thesis using int_part_shorter [OF *(2)] frac_part_le [OF *(3)] exp_part_le [OF *(4)] by simp
qed

lemma parse_shorter:
  "parse_value n d s = Some (j, r) \<Longrightarrow> length r < length s"
  "parse_elems n d s = Some (js, r) \<Longrightarrow> length r < length s"
  "parse_members n d s = Some (ms, r) \<Longrightarrow> length r < length s"
proof (induction n d s and n d s and n d s arbitrary: j r and js r and ms r rule: parse_value_parse_elems_parse_members.induct)
  case (2 n d s)
  then obtain c cs where s: "s = c # cs" by (cases s) auto
  consider (str) "c = CHR 0x22" | (arr) "c = CHR ''[''" | (obj) "c = CHR 0x7B"
    | (other) "c \<noteq> CHR 0x22" "c \<noteq> CHR ''[''" "c \<noteq> CHR 0x7B" by blast
  then show ?case
  proof cases
    case str
    then show ?thesis using 2(3) by (auto simp: s dest: parse_chars_shorter)
  next
    case arr
    then obtain e es where e: "skip_ws cs = e # es" "d < max_depth" using 2(3) by (auto simp: s split: if_splits list.splits)
    then have "length es < length cs" using skip_ws_le [of cs] by simp
    moreover have "r = es \<or> (\<exists>js. parse_elems n (Suc d) (e # es) = Some (js, r))"
      using 2(3) arr e by (auto simp: s split: if_splits)
    moreover have "length r < length (e # es)" if "parse_elems n (Suc d) (e # es) = Some (js, r)" "e \<noteq> CHR '']''" for js
      using 2(1) [OF s _ arr _ e(1) that(2,1)] arr e(2) by simp
    ultimately show ?thesis using 2(3) arr e by (auto simp: s split: if_splits)
  next
    case obj
    then obtain e es where e: "skip_ws cs = e # es" "d < max_depth" using 2(3) by (auto simp: s split: if_splits list.splits)
    then have "length es < length cs" using skip_ws_le [of cs] by simp
    moreover have "length r < length (e # es)" if "parse_members n (Suc d) (e # es) = Some (js, r)" "e \<noteq> CHR 0x7D" for js
      using 2(2) [OF s _ _ obj _ e(1) that(2,1)] obj e(2) by simp
    ultimately show ?thesis using 2(3) obj e by (auto simp: s split: if_splits)
  next
    case other
    then show ?thesis using 2(3) parse_number_shorter [of s] by (auto simp: s split: if_splits)
  qed
next
  case (4 n d s)
  then obtain x t where v: "parse_value n d s = Some (x, t)" by (auto split: option.splits)
  then obtain e es where e: "skip_ws t = e # es" using 4(3) by (auto split: list.splits)
  have "length t < length s" "length es < length t" using 4(1) [OF v] skip_ws_le [of t] e by simp_all
  moreover have "length r < length (skip_ws es)" if "parse_elems n d (skip_ws es) = Some (js, r)" "e = CHR '',''" for js
    using 4(2) [OF v _ e _ that(2,1)] that(2) by simp
  ultimately show ?case using 4(3) v e skip_ws_le [of es] by (fastforce split: if_splits)
next
  case (6 n d s)
  then obtain qs where s: "s = CHR 0x22 # qs" by (auto split: list.splits if_splits)
  then obtain k t where k: "parse_chars qs = Some (k, t)" using 6(3) by (auto split: option.splits)
  then obtain es where e: "skip_ws t = CHR '':'' # es" using 6(3) s by (auto split: list.splits if_splits)
  then obtain x u where v: "parse_value n d (skip_ws es) = Some (x, u)" using 6(3) s k by (auto split: option.splits)
  then obtain f fs where f: "skip_ws u = f # fs" using 6(3) s k e by (auto split: list.splits)
  have "length u < length (skip_ws es)" using 6(1) [OF s _ k _ e _ v] by simp
  then have "Suc (length fs) < length s" using skip_ws_le [of u] skip_ws_le [of es] skip_ws_le [of t] parse_chars_shorter [OF k] e f s by simp
  moreover have "length r < length (skip_ws fs)" if "parse_members n d (skip_ws fs) = Some (js, r)" "f = CHR '',''" for js
    using 6(2) [OF s _ k _ e _ v _ f _ that(2,1)] that(2) by simp
  ultimately show ?case using 6(3) s k e v f skip_ws_le [of fs] by (fastforce split: if_splits)
qed simp_all

lemma parse_fuel:
  "2 * length s < n \<Longrightarrow> 2 * length s < m \<Longrightarrow> parse_value n d s = parse_value m d s"
  "2 * length s + 1 < n \<Longrightarrow> 2 * length s + 1 < m \<Longrightarrow> parse_elems n d s = parse_elems m d s"
  "2 * length s + 1 < n \<Longrightarrow> 2 * length s + 1 < m \<Longrightarrow> parse_members n d s = parse_members m d s"
proof (induction n d s and n d s and n d s arbitrary: m and m and m rule: parse_value_parse_elems_parse_members.induct)
  case (2 n d s)
  obtain k where m: "m = Suc k" using 2(4) by (cases m) auto
  have a: "parse_elems n (Suc d) (e # es) = parse_elems k (Suc d) (e # es)"
    if "s = c # cs" "c = CHR ''[''" "d < max_depth" "skip_ws cs = e # es" "e \<noteq> CHR '']''" for c cs e es
    using 2(1) [OF that(1) _ that(2) _ that(4,5), of k] 2(3,4) that skip_ws_le [of cs] by (simp add: m)
  have b: "parse_members n (Suc d) (e # es) = parse_members k (Suc d) (e # es)"
    if "s = c # cs" "c = CHR 0x7B" "d < max_depth" "skip_ws cs = e # es" "e \<noteq> CHR 0x7D" for c cs e es
    using 2(2) [OF that(1) _ _ that(2) _ that(4,5), of k] 2(3,4) that skip_ws_le [of cs] by (simp add: m)
  show ?case using a b by (auto simp: m split: list.splits)
next
  case (4 n d s)
  obtain k where m: "m = Suc k" using 4(4) by (cases m) auto
  have v: "parse_value n d s = parse_value k d s" using 4(3,4) by (intro 4(1)) (simp_all add: m)
  have a: "parse_elems n d (skip_ws es) = parse_elems k d (skip_ws es)"
    if "parse_value n d s = Some (x, t)" "skip_ws t = e # es" "e = CHR '',''" for x t e es
    using 4(2) [OF that(1) _ that(2) _ that(3), where m = k] 4(3,4) that parse_shorter(1) [OF that(1)] skip_ws_le [of t] skip_ws_le [of es]
    by (simp add: m)
  show ?case
  proof (cases "parse_value n d s")
    case None
    then show ?thesis using v by (simp add: m)
  next
    case (Some p)
    then obtain x t where *: "parse_value n d s = Some (x, t)" by (cases p) simp
    then have "parse_value k d s = Some (x, t)" using v by simp
    then show ?thesis using * a [OF *] by (simp add: m split: list.split)
  qed
next
  case (6 n d s)
  obtain k where m: "m = Suc k" using 6(4) by (cases m) auto
  have v: "parse_value n d (skip_ws es) = parse_value k d (skip_ws es)"
    if "s = CHR 0x22 # qs" "parse_chars qs = Some (w, t)" "skip_ws t = CHR '':'' # es" for qs w t es
    using 6(1) [OF that(1) _ that(2) _ that(3), where m = k] 6(3,4) that parse_chars_shorter [OF that(2)] skip_ws_le [of t] skip_ws_le [of es]
    by (simp add: m)
  have a: "parse_members n d (skip_ws fs) = parse_members k d (skip_ws fs)"
    if "s = CHR 0x22 # qs" "parse_chars qs = Some (w, t)" "skip_ws t = CHR '':'' # es"
      "parse_value n d (skip_ws es) = Some (x, u)" "skip_ws u = CHR '','' # fs" for qs w t es x u fs
    using 6(2) [OF that(1) _ that(2) _ that(3) _ that(4) _ that(5), where m = k] 6(3,4) that
      parse_chars_shorter [OF that(2)] skip_ws_le [of t] skip_ws_le [of es] parse_shorter(1) [OF that(4)] skip_ws_le [of u] skip_ws_le [of fs]
    by (simp add: m)
  show ?case
  proof (cases "\<exists>qs w t es. s = CHR 0x22 # qs \<and> parse_chars qs = Some (w, t) \<and> skip_ws t = CHR '':'' # es")
    case True
    then obtain qs w t es where *: "s = CHR 0x22 # qs" "parse_chars qs = Some (w, t)" "skip_ws t = CHR '':'' # es" by blast
    note v [OF *]
    moreover have "parse_members n d (skip_ws fs) = parse_members k d (skip_ws fs)"
      if "parse_value k d (skip_ws es) = Some (x, u)" "skip_ws u = CHR '','' # fs" for x u fs
      using a [OF * _ that(2)] that(1) v [OF *] by simp
    ultimately show ?thesis using * by (cases "parse_value k d (skip_ws es)"; simp add: m split: prod.split list.split)
  next
    case False
    then show ?thesis by (cases s) (auto simp: m split: option.splits list.splits)
  qed
qed simp_all

end
