(* ===== verification/Base64.thy ===== *)
theory Base64
  imports JsonParse
begin

text \<open>
  \<^verbatim>\<open>base64.StdEncoding\<close>, in which \<^verbatim>\<open>encoding/json\<close> writes a \<^verbatim>\<open>[]byte\<close>:
  three bytes are four digits, a shorter rest is padded with \<^verbatim>\<open>=\<close>. The decoder skips line
  breaks and does not look at the bits that the padding cuts off. \<^verbatim>\<open>hex.DecodeString\<close>, which
  reads the hashes, is here as well.
\<close>

section \<open>Base64\<close>

definition b64_digits :: string where
  "b64_digits = ''ABCDEFGHIJKLMNOPQRSTUVWXYZabcdefghijklmnopqrstuvwxyz0123456789+/''"

definition b64_char :: "nat \<Rightarrow> char" where
  "b64_char d = b64_digits ! d"

definition b64_value :: "char \<Rightarrow> nat option" where
  "b64_value c = (let v = of_char c :: nat in
     if 65 \<le> v \<and> v \<le> 90 then Some (v - 65)
     else if 97 \<le> v \<and> v \<le> 122 then Some (v - 71)
     else if 48 \<le> v \<and> v \<le> 57 then Some (v + 4)
     else if v = 43 then Some 62
     else if v = 47 then Some 63 else None)"

text \<open>The digits of one, two and three bytes.\<close>

fun b64_encode :: "byte list \<Rightarrow> string" where
  "b64_encode [] = []"
| "b64_encode [a] = [b64_char (unat a div 4), b64_char (unat a mod 4 * 16), CHR ''='', CHR ''='']"
| "b64_encode [a, b] =
     [b64_char (unat a div 4), b64_char (unat a mod 4 * 16 + unat b div 16), b64_char (unat b mod 16 * 4), CHR ''='']"
| "b64_encode (a # b # c # bs) =
     [b64_char (unat a div 4), b64_char (unat a mod 4 * 16 + unat b div 16),
      b64_char (unat b mod 16 * 4 + unat c div 64), b64_char (unat c mod 64)] @ b64_encode bs"

text \<open>The three bytes of four digits.\<close>

definition b64_byte1 :: "nat \<Rightarrow> nat \<Rightarrow> byte" where
  "b64_byte1 w x = of_nat (w * 4 + x div 16)"

definition b64_byte2 :: "nat \<Rightarrow> nat \<Rightarrow> byte" where
  "b64_byte2 x y = of_nat (x mod 16 * 16 + y div 4)"

definition b64_byte3 :: "nat \<Rightarrow> nat \<Rightarrow> byte" where
  "b64_byte3 y z = of_nat (y mod 4 * 64 + z)"

fun b64_quanta :: "string \<Rightarrow> byte list option" where
  "b64_quanta [] = Some []"
| "b64_quanta (p # q # r # s # cs) =
     (case (b64_value p, b64_value q) of
        (Some w, Some x) \<Rightarrow>
          (case b64_value r of
             None \<Rightarrow>
               if r = CHR ''='' \<and> s = CHR ''='' \<and> cs = [] then Some [b64_byte1 w x] else None
           | Some y \<Rightarrow>
               (case b64_value s of
                  None \<Rightarrow>
                    if s = CHR ''='' \<and> cs = []
                    then Some [b64_byte1 w x, b64_byte2 x y] else None
                | Some z \<Rightarrow>
                    map_option ((@) [b64_byte1 w x, b64_byte2 x y, b64_byte3 y z])
                      (b64_quanta cs)))
      | _ \<Rightarrow> None)"
| "b64_quanta _ = None"

definition b64_decode :: "string \<Rightarrow> byte list option" where
  "b64_decode s = b64_quanta (filter (\<lambda>c. c \<noteq> CHR 0x0A \<and> c \<noteq> CHR 0x0D) s)"

lemma b64_digit:
  assumes "d < 64"
  shows "b64_value (b64_char d) = Some d \<and> of_char (b64_char d) < (128::nat) \<and> b64_char d \<noteq> CHR 0x0A \<and> b64_char d \<noteq> CHR 0x0D"
proof -
  have "d \<in> set [0..<64]" using assms by simp
  moreover have "\<forall>d \<in> set [0..<64]. b64_value (b64_char d) = Some d \<and> of_char (b64_char d) < (128::nat)
      \<and> b64_char d \<noteq> CHR 0x0A \<and> b64_char d \<noteq> CHR 0x0D"
    by (simp add: upt_rec b64_value_def b64_char_def b64_digits_def Let_def)
  ultimately show ?thesis by blast
qed

lemmas b64_digit_simps [simp] = b64_digit [THEN conjunct1] b64_digit [THEN conjunct2, THEN conjunct1]

lemma b64_value_pad [simp]: "b64_value (CHR ''='') = None"
  by (simp add: b64_value_def)

lemma unat_byte: "unat (b :: byte) < 256"
  using unsigned_less [of b] by simp

lemma byte_parts:
  fixes a b c :: byte
  shows "unat a div 4 < 64" "unat a mod 4 * 16 < 64" "unat a mod 4 * 16 + unat b div 16 < 64"
    "unat b mod 16 * 4 < 64" "unat b mod 16 * 4 + unat c div 64 < 64" "unat c mod 64 < 64"
  using unat_byte [of a] unat_byte [of b] unat_byte [of c] by simp_all

lemma join_byte:
  fixes a b c :: byte
  shows "b64_byte1 (unat a div 4) (unat a mod 4 * 16 + unat b div 16) = a"
    "b64_byte1 (unat a div 4) (unat a mod 4 * 16) = a"
    "b64_byte2 (unat a mod 4 * 16 + unat b div 16) (unat b mod 16 * 4 + unat c div 64) = b"
    "b64_byte2 (unat a mod 4 * 16 + unat b div 16) (unat b mod 16 * 4) = b"
    "b64_byte3 (unat b mod 16 * 4 + unat c div 64) (unat c mod 64) = c"
proof -
  have b: "unat b div 16 < 16" and c: "unat c div 64 < 4" using unat_byte [of b] unat_byte [of c] by simp_all
  have e1: "(unat a mod 4 * 16 + unat b div 16) div 16 = unat a mod 4" using b by simp
  have e2: "(unat a mod 4 * 16 + unat b div 16) mod 16 = unat b div 16" using b by simp
  have e3: "(unat b mod 16 * 4 + unat c div 64) div 4 = unat b mod 16" using c by simp
  have e4: "(unat b mod 16 * 4 + unat c div 64) mod 4 = unat c div 64" using c by simp
  show "b64_byte1 (unat a div 4) (unat a mod 4 * 16 + unat b div 16) = a"
    unfolding b64_byte1_def e1 by (simp add: div_mult_mod_eq del: of_nat_add of_nat_mult)
  show "b64_byte1 (unat a div 4) (unat a mod 4 * 16) = a"
    unfolding b64_byte1_def by (simp add: div_mult_mod_eq del: of_nat_add of_nat_mult)
  show "b64_byte2 (unat a mod 4 * 16 + unat b div 16) (unat b mod 16 * 4 + unat c div 64) = b"
    unfolding b64_byte2_def e2 e3 by (simp add: div_mult_mod_eq del: of_nat_add of_nat_mult)
  show "b64_byte2 (unat a mod 4 * 16 + unat b div 16) (unat b mod 16 * 4) = b"
    unfolding b64_byte2_def e2 by (simp add: div_mult_mod_eq del: of_nat_add of_nat_mult)
  show "b64_byte3 (unat b mod 16 * 4 + unat c div 64) (unat c mod 64) = c"
    unfolding b64_byte3_def e4 by (simp add: div_mult_mod_eq del: of_nat_add of_nat_mult)
qed

lemma b64_quanta_encode: "b64_quanta (b64_encode bs) = Some bs"
  by (induction bs rule: b64_encode.induct) (simp_all add: byte_parts join_byte)

lemma b64_encode_chars: "c \<in> set (b64_encode bs) \<Longrightarrow> of_char c < (128::nat) \<and> c \<noteq> CHR 0x0A \<and> c \<noteq> CHR 0x0D"
  by (induction bs rule: b64_encode.induct) (use b64_digit byte_parts in \<open>auto simp: b64_digit\<close>)

lemma b64_roundtrip: "b64_decode (b64_encode bs) = Some bs"
proof -
  have "filter (\<lambda>c. c \<noteq> CHR 0x0A \<and> c \<noteq> CHR 0x0D) (b64_encode bs) = b64_encode bs"
    using b64_encode_chars by (intro filter_True) blast
  then show ?thesis by (simp add: b64_decode_def b64_quanta_encode)
qed

section \<open>Hexadecimal\<close>

fun DecodeString :: "string \<Rightarrow> byte list option" where
  "DecodeString [] = Some []"
| "DecodeString [c] = None"
| "DecodeString (c # d # cs) =
     (case (hex_value c, hex_value d) of
        (Some a, Some b) \<Rightarrow> map_option (Cons (of_nat (16 * a + b))) (DecodeString cs)
      | _ \<Rightarrow> None)"

lemma hex_byte_roundtrip: "DecodeString (hex_byte b @ cs) = map_option (Cons b) (DecodeString cs)"
  using unat_byte [of b] by (simp add: hex_byte_def hex_value_digit del: of_nat_add of_nat_mult)

lemma hex_roundtrip: "DecodeString (EncodeToString bs) = Some bs"
  by (induction bs) (simp_all add: EncodeToString_def hex_byte_roundtrip)

lemma digit_char_ascii: "d < 16 \<Longrightarrow> of_char (digit_char d) < (128::nat)"
  using hex_value_digit [of d] by (auto simp: hex_value_def Let_def split: if_splits)

lemma hex_ascii: "\<forall>c \<in> set (EncodeToString bs). of_char c < (128::nat)"
proof (induction bs)
  case (Cons b bs)
  then show ?case using digit_char_ascii [of "unat b div 16"] digit_char_ascii [of "unat b mod 16"] unat_byte [of b]
    by (auto simp: EncodeToString_def hex_byte_def)
qed (simp add: EncodeToString_def)

lemma join_hash_byte: "push_bit 8 (drop_bit (8 * m + 8) h) OR ucast (ucast (drop_bit (8 * m) h) :: byte) = drop_bit (8 * m) (h :: hash)"
proof (rule bit_word_eqI)
  fix n assume "n < LENGTH(256)"
  then show "bit (push_bit 8 (drop_bit (8 * m + 8) h) OR ucast (ucast (drop_bit (8 * m) h) :: byte)) n = bit (drop_bit (8 * m) h) n"
    by (cases "n < 8") (auto simp: bit_simps)
qed

lemma hash_of_prefix: "n \<le> 32 \<Longrightarrow> hash_of_bytes (take n (hash_bytes h)) = drop_bit (8 * (32 - n)) h"
proof (induction n)
  case 0
  have "drop_bit 256 h = 0" by (rule bit_word_eqI) (simp add: bit_simps)
  then show ?case by (simp add: hash_of_bytes_def)
next
  case (Suc n)
  then have "8 * (32 - n) = 8 * (31 - n) + 8" by simp
  then show ?case using Suc join_hash_byte [of "31 - n" h]
    by (simp add: take_Suc_conv_app_nth hash_of_bytes_def hash_bytes_nth)
qed

lemma hash_of_hash_bytes: "hash_of_bytes (hash_bytes h) = h"
  using hash_of_prefix [of 32 h] by simp

end
