(* ===== verification/Codec.thy ===== *)
theory Codec
  imports Base64 Messages Pow
begin

text \<open>
  The JSON form of blocks and messages (\<^verbatim>\<open>internal/types/message.go\<close>, \<^verbatim>\<open>block.go\<close>).
  Encoding follows the struct tags; decoding follows \<^verbatim>\<open>encoding/json\<close>: fields are found by
  exact or case-folded name, unknown names are skipped, \<^verbatim>\<open>null\<close> leaves a field as it is (and
  empties a slice or a pointer), a repeated field is decoded into the value that is there.

  A decoder takes a JSON value and the current content of the variable. What a slice had behind its
  length is not tracked; it shows only when one object repeats a list-valued field three times.
\<close>

section \<open>Encoding\<close>

text \<open>
  An empty slice is written as \<^verbatim>\<open>null\<close> when it is nil. The model does not tell nil slices
  from empty ones: \<open>nil\<close> says for which field names an empty slice is nil.
\<close>

type_synonym nils = "string \<Rightarrow> bool"

definition list_json :: "nils \<Rightarrow> string \<Rightarrow> ('a \<Rightarrow> json) \<Rightarrow> 'a list \<Rightarrow> json" where
  "list_json nil k f xs = (if xs = [] \<and> nil k then JNull else JArr (map f xs))"

definition bytes_json :: "nils \<Rightarrow> string \<Rightarrow> byte list \<Rightarrow> json" where
  "bytes_json nil k bs = (if bs = [] \<and> nil k then JNull else JStr (b64_encode bs))"

definition int_json :: "int \<Rightarrow> json" where
  "int_json i = JNum (dec_int i)"

text \<open>\<^verbatim>\<open>Hash.MarshalJSON\<close>.\<close>

definition hash_json :: "hash \<Rightarrow> json" where
  "hash_json h = JStr (hash_String h)"

definition tx_json :: "transaction \<Rightarrow> json" where
  "tx_json t = JObj [(''id'', JStr (tx_ID t)), (''timestamp'', int_json (sint (tx_Timestamp t))),
     (''payload'', JStr (tx_Payload t))]"

definition block_json :: "nils \<Rightarrow> block \<Rightarrow> json" where
  "block_json nil b = JObj [(''header'', header_json (blk_Header b)), (''nonce'', int_json (uint (blk_Nonce b))),
     (''hash'', hash_json (blk_Hash b)), (''txs'', list_json nil ''txs'' tx_json (blk_Txs b))]"

definition meta_json :: "block_meta \<Rightarrow> json" where
  "meta_json b = JObj [(''header'', header_json (bm_Header b)), (''nonce'', int_json (uint (bm_Nonce b))),
     (''hash'', hash_json (bm_Hash b))]"

definition block_ptr_json :: "nils \<Rightarrow> block option \<Rightarrow> json" where
  "block_ptr_json nil p = (case p of None \<Rightarrow> JNull | Some b \<Rightarrow> block_json nil b)"

text \<open>\<^verbatim>\<open>json.Marshal\<close> of a payload struct.\<close>

fun payload_json :: "nils \<Rightarrow> payload \<Rightarrow> json" where
  "payload_json nil (HelloPayload m v pk la n ts) = JObj [(''magic'', JStr m), (''version'', int_json v),
     (''pubKey'', bytes_json nil ''pubKey'' pk), (''listenAddr'', JStr la), (''nonce'', bytes_json nil ''nonce'' n),
     (''timestamp'', int_json (sint ts))]"
| "payload_json nil (HelloAckPayload m v pk la n en sg ts) = JObj [(''magic'', JStr m), (''version'', int_json v),
     (''pubKey'', bytes_json nil ''pubKey'' pk), (''listenAddr'', JStr la), (''nonce'', bytes_json nil ''nonce'' n),
     (''echoNonce'', bytes_json nil ''echoNonce'' en), (''sigOverEcho'', bytes_json nil ''sigOverEcho'' sg),
     (''timestamp'', int_json (sint ts))]"
| "payload_json nil (AuthPayload en sg ts) = JObj [(''echoNonce'', bytes_json nil ''echoNonce'' en),
     (''sig'', bytes_json nil ''sig'' sg), (''timestamp'', int_json (sint ts))]"
| "payload_json nil (GetPeersPayload mx) = JObj [(''max'', int_json mx)]"
| "payload_json nil (PeersPayload addrs) = JObj [(''addrs'', list_json nil ''addrs'' JStr addrs)]"
| "payload_json nil (InvTxPayload i) = JObj [(''txId'', JStr i)]"
| "payload_json nil (GetTxPayload i) = JObj [(''txId'', JStr i)]"
| "payload_json nil (TxPayload t) = JObj [(''tx'', tx_json t)]"
| "payload_json nil (InvBlockPayload b) = JObj [(''meta'', meta_json b)]"
| "payload_json nil (GetBlockPayload h) = JObj [(''hash'', hash_json h)]"
| "payload_json nil (BlockPayload p) = JObj [(''block'', block_ptr_json nil p)]"
| "payload_json nil GetTipPayload = JObj []"
| "payload_json nil (TipPayload h n w) = JObj [(''tipHash'', hash_json h), (''tipHeight'', int_json (uint n)), (''cumWork'', JStr w)]"
| "payload_json nil (GetHeadersPayload hs mx) = JObj [(''locator'', list_json nil ''locator'' hash_json hs), (''max'', int_json mx)]"
| "payload_json nil (HeadersPayload bs) = JObj [(''metas'', list_json nil ''metas'' meta_json bs)]"
| "payload_json nil (GetBlocksPayload hs) = JObj [(''hashes'', list_json nil ''hashes'' hash_json hs)]"
| "payload_json nil (BlocksPayload ps) = JObj [(''blocks'', list_json nil ''blocks'' (block_ptr_json nil) ps)]"
| "payload_json nil (RawPayload j) = j"
| "payload_json nil NilPayload = JNull"

text \<open>
  \<^verbatim>\<open>Message.MarshalJSON\<close> by way of \<^verbatim>\<open>wireMessage\<close>. \<^verbatim>\<open>json.Marshal(msg)\<close> of a
  \<^verbatim>\<open>Message\<close> value, which has no \<^verbatim>\<open>MarshalJSON\<close> in its method set, walks the same
  fields with the same tags and gives the same text.
\<close>

definition MarshalJSON :: "nils \<Rightarrow> message \<Rightarrow> json" where
  "MarshalJSON nil m = JObj
     ([(''type'', JStr (msg_Type m)), (''from'', JStr (msg_From m))] @
      (if msg_To m = '''' then [] else [(''to'', JStr (msg_To m))]) @
      [(''timestamp'', int_json (sint (msg_Timestamp m)))] @
      (if msg_TraceID m = '''' then [] else [(''traceId'', JStr (msg_TraceID m))]) @
      [(''payload'', payload_json nil (msg_Payload m))])"

section \<open>Decoding\<close>

text \<open>
  \<^verbatim>\<open>foldName\<close>, as far as names of ASCII letters can tell: besides the ASCII letters only
  U+017F and U+212A fold to one.
\<close>

definition upper_char :: "char \<Rightarrow> char" where
  "upper_char c = (if (97::nat) \<le> of_char c \<and> of_char c \<le> (122::nat) then char_of (of_char c - 32 :: nat) else c)"

function fold_name :: "string \<Rightarrow> string" where
  "fold_name [] = []"
| "fold_name (c # cs) =
     (if c = CHR 0xC5 \<and> take 1 cs = [CHR 0xBF] then CHR ''S'' # fold_name (drop 1 cs)
      else if c = CHR 0xE2 \<and> take 2 cs = [CHR 0x84, CHR 0xAA] then CHR ''K'' # fold_name (drop 2 cs)
      else upper_char c # fold_name cs)"
  by pat_completeness auto
termination by (relation "measure length") auto

definition field_of :: "string list \<Rightarrow> string \<Rightarrow> string option" where
  "field_of names k = (if k \<in> set names then Some k else find (\<lambda>n. fold_name n = fold_name k) names)"

type_synonym 'a decoder = "json \<Rightarrow> 'a \<Rightarrow> 'a option"

fun decode_fields :: "string list \<Rightarrow> (string \<Rightarrow> 'a decoder) \<Rightarrow> (string \<times> json) list \<Rightarrow> 'a \<Rightarrow> 'a option" where
  "decode_fields names dec [] v = Some v"
| "decode_fields names dec ((k, j) # fs) v =
     (case field_of names k of
        None \<Rightarrow> decode_fields names dec fs v
      | Some n \<Rightarrow> (case dec n j v of None \<Rightarrow> None | Some w \<Rightarrow> decode_fields names dec fs w))"

definition decode_struct :: "string list \<Rightarrow> (string \<Rightarrow> 'a decoder) \<Rightarrow> 'a decoder" where
  "decode_struct names dec j v =
     (case j of JObj fs \<Rightarrow> decode_fields names dec fs v | JNull \<Rightarrow> Some v | _ \<Rightarrow> None)"

fun decode_string :: "string decoder" where
  "decode_string (JStr s) v = Some s"
| "decode_string JNull v = Some v"
| "decode_string _ v = None"

text \<open>\<^verbatim>\<open>strconv.ParseInt\<close> and \<^verbatim>\<open>ParseUint\<close> of a number literal, and the overflow test.\<close>

definition dec_value :: "string \<Rightarrow> nat" where
  "dec_value ds = foldl (\<lambda>n c. 10 * n + (of_char c - 48)) 0 ds"

definition ParseInt :: "string \<Rightarrow> int option" where
  "ParseInt s =
     (let (neg, ds) = (case s of c # cs \<Rightarrow> if c = CHR ''-'' then (True, cs) else (False, s) | [] \<Rightarrow> (False, []));
          i = (if neg then - int (dec_value ds) else int (dec_value ds)) in
      if ds \<noteq> [] \<and> list_all is_digit ds \<and> - (2 ^ 63) \<le> i \<and> i < 2 ^ 63 then Some i else None)"

definition ParseUint :: "nat \<Rightarrow> string \<Rightarrow> nat option" where
  "ParseUint w s = (if s \<noteq> [] \<and> list_all is_digit s \<and> dec_value s < 2 ^ w then Some (dec_value s) else None)"

fun decode_int :: "int decoder" where
  "decode_int (JNum n) v = ParseInt n"
| "decode_int JNull v = Some v"
| "decode_int _ v = None"

fun decode_int64 :: "int64 decoder" where
  "decode_int64 (JNum n) v = map_option word_of_int (ParseInt n)"
| "decode_int64 JNull v = Some v"
| "decode_int64 _ v = None"

fun decode_uint :: "'w::len word decoder" where
  "decode_uint (JNum n) v = map_option word_of_nat (ParseUint LENGTH('w) n)"
| "decode_uint JNull v = Some v"
| "decode_uint _ v = None"

fun decode_elems :: "'a decoder \<Rightarrow> 'a \<Rightarrow> json list \<Rightarrow> 'a list \<Rightarrow> 'a list option" where
  "decode_elems dec z [] vs = Some []"
| "decode_elems dec z (j # js) vs =
     (case dec j (case vs of [] \<Rightarrow> z | v # _ \<Rightarrow> v) of
        None \<Rightarrow> None
      | Some w \<Rightarrow> map_option (Cons w) (decode_elems dec z js (tl vs)))"

definition decode_list :: "'a decoder \<Rightarrow> 'a \<Rightarrow> 'a list decoder" where
  "decode_list dec z j vs = (case j of JArr js \<Rightarrow> decode_elems dec z js vs | JNull \<Rightarrow> Some [] | _ \<Rightarrow> None)"

text \<open>A \<^verbatim>\<open>[]byte\<close> is a Base64 string or, like any slice, an array.\<close>

definition decode_bytes :: "byte list decoder" where
  "decode_bytes j v = (case j of JStr s \<Rightarrow> b64_decode s | _ \<Rightarrow> decode_list decode_uint 0 j v)"

text \<open>\<^verbatim>\<open>Hash.UnmarshalJSON\<close>: \<^verbatim>\<open>null\<close> is an empty string, whose length is wrong.\<close>

definition decode_hash :: "hash decoder" where
  "decode_hash j v =
     (case (case j of JStr s \<Rightarrow> DecodeString s | JNull \<Rightarrow> DecodeString '''' | _ \<Rightarrow> None) of
        None \<Rightarrow> None
      | Some raw \<Rightarrow> if length raw \<noteq> 32 then None else Some (hash_of_bytes raw))"

definition decode_ptr :: "'a decoder \<Rightarrow> 'a \<Rightarrow> 'a option decoder" where
  "decode_ptr dec z j v =
     (if j = JNull then Some None else map_option Some (dec j (case v of None \<Rightarrow> z | Some x \<Rightarrow> x)))"

section \<open>The structs\<close>

text \<open>A field name selects a decoder and an update of the record.\<close>

definition into :: "'a decoder \<Rightarrow> ('r \<Rightarrow> 'a) \<Rightarrow> ('a \<Rightarrow> 'r \<Rightarrow> 'r) \<Rightarrow> 'r decoder" where
  "into dec get put j r = map_option (\<lambda>x. put x r) (dec j (get r))"

definition zero_header :: block_header where
  "zero_header = \<lparr>bh_Height = 0, bh_PrevHash = 0, bh_Timestamp = 0, bh_Difficulty = 0, bh_MinerID = '''', bh_TxRoot = 0\<rparr>"

definition zero_tx :: transaction where
  "zero_tx = \<lparr>tx_ID = '''', tx_Timestamp = 0, tx_Payload = ''''\<rparr>"

definition zero_block :: block where
  "zero_block = \<lparr>blk_Header = zero_header, blk_Nonce = 0, blk_Hash = 0, blk_Txs = []\<rparr>"

definition zero_meta :: block_meta where
  "zero_meta = \<lparr>bm_Header = zero_header, bm_Nonce = 0, bm_Hash = 0\<rparr>"

definition decode_header :: "block_header decoder" where
  "decode_header = decode_struct [''height'', ''prevHash'', ''timestamp'', ''difficulty'', ''minerId'', ''txRoot'']
     (\<lambda>n. if n = ''height'' then into decode_uint bh_Height (\<lambda>x h. h\<lparr>bh_Height := x\<rparr>)
          else if n = ''prevHash'' then into decode_hash bh_PrevHash (\<lambda>x h. h\<lparr>bh_PrevHash := x\<rparr>)
          else if n = ''timestamp'' then into decode_int64 bh_Timestamp (\<lambda>x h. h\<lparr>bh_Timestamp := x\<rparr>)
          else if n = ''difficulty'' then into decode_uint bh_Difficulty (\<lambda>x h. h\<lparr>bh_Difficulty := x\<rparr>)
          else if n = ''minerId'' then into decode_string bh_MinerID (\<lambda>x h. h\<lparr>bh_MinerID := x\<rparr>)
          else into decode_hash bh_TxRoot (\<lambda>x h. h\<lparr>bh_TxRoot := x\<rparr>))"

definition decode_tx :: "transaction decoder" where
  "decode_tx = decode_struct [''id'', ''timestamp'', ''payload'']
     (\<lambda>n. if n = ''id'' then into decode_string tx_ID (\<lambda>x t. t\<lparr>tx_ID := x\<rparr>)
          else if n = ''timestamp'' then into decode_int64 tx_Timestamp (\<lambda>x t. t\<lparr>tx_Timestamp := x\<rparr>)
          else into decode_string tx_Payload (\<lambda>x t. t\<lparr>tx_Payload := x\<rparr>))"

definition decode_block :: "block decoder" where
  "decode_block = decode_struct [''header'', ''nonce'', ''hash'', ''txs'']
     (\<lambda>n. if n = ''header'' then into decode_header blk_Header (\<lambda>x b. b\<lparr>blk_Header := x\<rparr>)
          else if n = ''nonce'' then into decode_uint blk_Nonce (\<lambda>x b. b\<lparr>blk_Nonce := x\<rparr>)
          else if n = ''hash'' then into decode_hash blk_Hash (\<lambda>x b. b\<lparr>blk_Hash := x\<rparr>)
          else into (decode_list decode_tx zero_tx) blk_Txs (\<lambda>x b. b\<lparr>blk_Txs := x\<rparr>))"

definition decode_meta :: "block_meta decoder" where
  "decode_meta = decode_struct [''header'', ''nonce'', ''hash'']
     (\<lambda>n. if n = ''header'' then into decode_header bm_Header (\<lambda>x b. b\<lparr>bm_Header := x\<rparr>)
          else if n = ''nonce'' then into decode_uint bm_Nonce (\<lambda>x b. b\<lparr>bm_Nonce := x\<rparr>)
          else into decode_hash bm_Hash (\<lambda>x b. b\<lparr>bm_Hash := x\<rparr>))"

section \<open>The payloads\<close>

text \<open>
  A payload struct starts from its zero value. While it is decoded, the fields of the structs with
  several fields are kept in a record.
\<close>

record hello_fields =
  hf_Magic :: string
  hf_Version :: int
  hf_PubKey :: "byte list"
  hf_ListenAddr :: string
  hf_Nonce :: "byte list"
  hf_EchoNonce :: "byte list"
  hf_Sig :: "byte list"
  hf_Timestamp :: int64

definition zero_hello :: hello_fields where
  "zero_hello = \<lparr>hf_Magic = '''', hf_Version = 0, hf_PubKey = [], hf_ListenAddr = '''', hf_Nonce = [],
     hf_EchoNonce = [], hf_Sig = [], hf_Timestamp = 0\<rparr>"

definition decode_hello :: "string list \<Rightarrow> hello_fields decoder" where
  "decode_hello names = decode_struct names
     (\<lambda>n. if n = ''magic'' then into decode_string hf_Magic (\<lambda>x r. r\<lparr>hf_Magic := x\<rparr>)
          else if n = ''version'' then into decode_int hf_Version (\<lambda>x r. r\<lparr>hf_Version := x\<rparr>)
          else if n = ''pubKey'' then into decode_bytes hf_PubKey (\<lambda>x r. r\<lparr>hf_PubKey := x\<rparr>)
          else if n = ''listenAddr'' then into decode_string hf_ListenAddr (\<lambda>x r. r\<lparr>hf_ListenAddr := x\<rparr>)
          else if n = ''nonce'' then into decode_bytes hf_Nonce (\<lambda>x r. r\<lparr>hf_Nonce := x\<rparr>)
          else if n = ''echoNonce'' then into decode_bytes hf_EchoNonce (\<lambda>x r. r\<lparr>hf_EchoNonce := x\<rparr>)
          else if n = ''timestamp'' then into decode_int64 hf_Timestamp (\<lambda>x r. r\<lparr>hf_Timestamp := x\<rparr>)
          else into decode_bytes hf_Sig (\<lambda>x r. r\<lparr>hf_Sig := x\<rparr>))"

text \<open>A struct of one field.\<close>

definition decode_single :: "string \<Rightarrow> 'a decoder \<Rightarrow> 'a decoder" where
  "decode_single name dec = decode_struct [name] (\<lambda>_. dec)"

definition decode_tip :: "(hash \<times> uint64 \<times> string) decoder" where
  "decode_tip = decode_struct [''tipHash'', ''tipHeight'', ''cumWork'']
     (\<lambda>n. if n = ''tipHash'' then into decode_hash fst (\<lambda>x (h, t, w). (x, t, w))
          else if n = ''tipHeight'' then into decode_uint (\<lambda>(h, t, w). t) (\<lambda>x (h, t, w). (h, x, w))
          else into decode_string (\<lambda>(h, t, w). w) (\<lambda>x (h, t, w). (h, t, x)))"

definition decode_get_headers :: "(hash list \<times> int) decoder" where
  "decode_get_headers = decode_struct [''locator'', ''max'']
     (\<lambda>n. if n = ''locator'' then into (decode_list decode_hash 0) fst (\<lambda>x (l, k). (x, k))
          else into decode_int snd (\<lambda>x (l, k). (l, x)))"

text \<open>The switch of \<^verbatim>\<open>UnmarshalJSON\<close> over the message type.\<close>

definition decode_payload :: "msg_type \<Rightarrow> json \<Rightarrow> payload option" where
  "decode_payload typ j =
     (if typ = MsgHello then
        map_option (\<lambda>f. HelloPayload (hf_Magic f) (hf_Version f) (hf_PubKey f) (hf_ListenAddr f) (hf_Nonce f) (hf_Timestamp f))
          (decode_hello [''magic'', ''version'', ''pubKey'', ''listenAddr'', ''nonce'', ''timestamp''] j zero_hello)
      else if typ = MsgHelloAck then
        map_option (\<lambda>f. HelloAckPayload (hf_Magic f) (hf_Version f) (hf_PubKey f) (hf_ListenAddr f) (hf_Nonce f)
            (hf_EchoNonce f) (hf_Sig f) (hf_Timestamp f))
          (decode_hello [''magic'', ''version'', ''pubKey'', ''listenAddr'', ''nonce'', ''echoNonce'', ''sigOverEcho'', ''timestamp'']
             j zero_hello)
      else if typ = MsgAuth then
        map_option (\<lambda>f. AuthPayload (hf_EchoNonce f) (hf_Sig f) (hf_Timestamp f))
          (decode_hello [''echoNonce'', ''sig'', ''timestamp''] j zero_hello)
      else if typ = MsgGetPeers then map_option GetPeersPayload (decode_single ''max'' decode_int j 0)
      else if typ = MsgPeers then map_option PeersPayload (decode_single ''addrs'' (decode_list decode_string '''') j [])
      else if typ = MsgInvTx then map_option InvTxPayload (decode_single ''txId'' decode_string j '''')
      else if typ = MsgGetTx then map_option GetTxPayload (decode_single ''txId'' decode_string j '''')
      else if typ = MsgTx then map_option TxPayload (decode_single ''tx'' decode_tx j zero_tx)
      else if typ = MsgInvBlock then map_option InvBlockPayload (decode_single ''meta'' decode_meta j zero_meta)
      else if typ = MsgGetBlock then map_option GetBlockPayload (decode_single ''hash'' decode_hash j 0)
      else if typ = MsgBlock then map_option BlockPayload (decode_single ''block'' (decode_ptr decode_block zero_block) j None)
      else if typ = MsgGetTip then map_option (\<lambda>_. GetTipPayload) (decode_struct [] (\<lambda>_ _. Some) j ())
      else if typ = MsgTip then map_option (\<lambda>(h, n, w). TipPayload h n w) (decode_tip j (0, 0, ''''))
      else if typ = MsgGetHeaders then map_option (\<lambda>(l, k). GetHeadersPayload l k) (decode_get_headers j ([], 0))
      else if typ = MsgHeaders then map_option HeadersPayload (decode_single ''metas'' (decode_list decode_meta zero_meta) j [])
      else if typ = MsgGetBlocks then map_option GetBlocksPayload (decode_single ''hashes'' (decode_list decode_hash 0) j [])
      else if typ = MsgBlocks then
        map_option BlocksPayload (decode_single ''blocks'' (decode_list (decode_ptr decode_block zero_block) None) j [])
      else Some (RawPayload j))"

section \<open>Messages\<close>

text \<open>\<^verbatim>\<open>wireMessage\<close>; a \<^verbatim>\<open>json.RawMessage\<close> takes every value, \<^verbatim>\<open>null\<close> too, and is nil when the field is missing.\<close>

record wireMessage =
  w_Type :: msg_type
  w_From :: string
  w_To :: string
  w_Timestamp :: int64
  w_TraceID :: string
  w_Payload :: "json option"

definition zero_wire :: wireMessage where
  "zero_wire = \<lparr>w_Type = '''', w_From = '''', w_To = '''', w_Timestamp = 0, w_TraceID = '''', w_Payload = None\<rparr>"

definition decode_wire :: "wireMessage decoder" where
  "decode_wire = decode_struct [''type'', ''from'', ''to'', ''timestamp'', ''traceId'', ''payload'']
     (\<lambda>n. if n = ''type'' then into decode_string w_Type (\<lambda>x w. w\<lparr>w_Type := x\<rparr>)
          else if n = ''from'' then into decode_string w_From (\<lambda>x w. w\<lparr>w_From := x\<rparr>)
          else if n = ''to'' then into decode_string w_To (\<lambda>x w. w\<lparr>w_To := x\<rparr>)
          else if n = ''timestamp'' then into decode_int64 w_Timestamp (\<lambda>x w. w\<lparr>w_Timestamp := x\<rparr>)
          else if n = ''traceId'' then into decode_string w_TraceID (\<lambda>x w. w\<lparr>w_TraceID := x\<rparr>)
          else into (\<lambda>j _. Some (Some j)) w_Payload (\<lambda>x w. w\<lparr>w_Payload := x\<rparr>))"

definition UnmarshalJSON :: "json \<Rightarrow> message option" where
  "UnmarshalJSON j =
     (case decode_wire j zero_wire of
        None \<Rightarrow> None
      | Some w \<Rightarrow>
          let m = \<lparr>msg_Type = w_Type w, msg_From = w_From w, msg_To = w_To w, msg_Timestamp = w_Timestamp w,
                   msg_TraceID = w_TraceID w, msg_Payload = NilPayload\<rparr> in
          (case w_Payload w of
             None \<Rightarrow> Some m
           | Some pl \<Rightarrow> map_option (\<lambda>p. m\<lparr>msg_Payload := p\<rparr>) (decode_payload (w_Type w) pl)))"

section \<open>Reading numbers, strings and bytes back\<close>

lemma utf8_coerce_ascii: "list_all (\<lambda>c. of_char c < (128::nat)) s \<Longrightarrow> utf8_coerce s = s"
  by (simp add: utf8_coerce_valid ascii_valid list_all_iff)

lemma dec_value_append: "dec_value (ds @ [c]) = 10 * dec_value ds + (of_char c - 48)"
  by (simp add: dec_value_def)

lemma dec_value_dec_nat: "dec_value (dec_nat n) = n"
proof (induction n rule: dec_nat.induct)
  case (1 n)
  show ?case
  proof (cases "n < 10")
    case True
    then show ?thesis using is_digit_char [of n] by (simp add: dec_nat_small dec_value_def)
  next
    case False
    then show ?thesis using 1 is_digit_char [of "n mod 10"] by (simp add: dec_nat_big dec_value_append)
  qed
qed

lemma ParseInt_dec_int:
  assumes "- (2 ^ 63) \<le> i" "i < 2 ^ 63"
  shows "ParseInt (dec_int i) = Some i"
proof -
  have d: "list_all is_digit (dec_nat n)" for n using dec_nat_digits by (simp add: list_all_iff)
  obtain c cs where c: "dec_nat (nat i) = c # cs" by (meson dec_nat_nonempty neq_Nil_conv)
  then have "c \<noteq> CHR ''-''" using dec_nat_digits [of "nat i"] digit_neq by auto
  then show ?thesis using assms d [of "nat i"] d [of "nat (- i)"] dec_value_dec_nat [of "nat i"] dec_value_dec_nat [of "nat (- i)"] c
    by (cases "i < 0") (simp_all add: ParseInt_def dec_int_def dec_nat_nonempty)
qed

lemma ParseUint_dec_nat: "n < 2 ^ w \<Longrightarrow> ParseUint w (dec_nat n) = Some n"
  using dec_nat_digits by (simp add: ParseUint_def dec_nat_nonempty dec_value_dec_nat list_all_iff)

lemma dec_int_uint: "dec_int (uint w) = dec_nat (unat w)"
  by (simp add: dec_int_def)

text \<open>\<open>decodes dec enc co\<close>: whatever the variable held, decoding an encoded value gives it, coerced by \<open>co\<close>.\<close>

definition decodes :: "'a decoder \<Rightarrow> ('a \<Rightarrow> json) \<Rightarrow> ('a \<Rightarrow> 'a) \<Rightarrow> bool" where
  "decodes dec enc co \<longleftrightarrow> (\<forall>x v. dec (json_coerce (enc x)) v = Some (co x))"

named_theorems decodes_simps \<open>decoding of an encoded value\<close>

lemma decodesD [decodes_simps]: "decodes dec enc co \<Longrightarrow> dec (json_coerce (enc x)) v = Some (co x)"
  by (simp add: decodes_def)

lemma decode_JStr [decodes_simps]: "decode_string (json_coerce (JStr s)) v = Some (utf8_coerce s)" by simp

lemma decode_sint [decodes_simps]: "decode_int64 (json_coerce (int_json (sint (t :: int64)))) v = Some t"
proof -
  have "ParseInt (dec_int (sint t)) = Some (sint t)"
    using sint_ge [of t] sint_lt [of t] by (intro ParseInt_dec_int) simp_all
  then show ?thesis by (simp add: int_json_def)
qed

lemma decode_uint_nat [decodes_simps]:
  "decode_uint (JNum (dec_nat (unat (w :: 'w::len word)))) v = Some w"
  using unsigned_less [of w] by (simp add: ParseUint_dec_nat)

lemma decode_uint_int [decodes_simps]: "decode_uint (json_coerce (int_json (uint (w :: 'w::len word)))) v = Some w"
  by (simp add: int_json_def dec_int_uint decode_uint_nat del: decode_uint.simps)

lemma decode_int_json [decodes_simps]: "- (2 ^ 63) \<le> i \<Longrightarrow> i < 2 ^ 63 \<Longrightarrow> decode_int (json_coerce (int_json i)) v = Some i"
  by (simp add: int_json_def ParseInt_dec_int)

lemma decodes_hash [decodes_simps]: "decode_hash (json_coerce (hash_json h)) v = Some h"
proof -
  have "utf8_coerce (hash_String h) = hash_String h"
    using hex_ascii by (intro utf8_coerce_ascii) (simp add: hash_String_def list_all_iff)
  then show ?thesis by (simp add: decode_hash_def hash_json_def hash_String_def hex_roundtrip hash_of_hash_bytes)
qed

lemma decodes_bytes [decodes_simps]: "decode_bytes (json_coerce (bytes_json nil k bs)) v = Some bs"
proof -
  have "utf8_coerce (b64_encode bs) = b64_encode bs"
    using b64_encode_chars by (intro utf8_coerce_ascii) (simp add: list_all_iff)
  then show ?thesis by (simp add: decode_bytes_def bytes_json_def b64_roundtrip decode_list_def)
qed

lemma decode_elems_encoded:
  "decodes dec enc co \<Longrightarrow> decode_elems dec z (map (json_coerce \<circ> enc) xs) vs = Some (map co xs)"
  by (induction xs arbitrary: vs) (simp_all add: decodesD)

lemma decodes_list [decodes_simps]:
  "decodes dec enc co \<Longrightarrow> decode_list dec z (json_coerce (list_json nil k enc xs)) vs = Some (map co xs)"
  by (simp add: decode_list_def list_json_def decode_elems_encoded)

lemma decodes_ptr: "decodes dec enc co \<Longrightarrow> (\<And>x. enc x \<noteq> JNull) \<Longrightarrow>
   decodes (decode_ptr dec z) (\<lambda>p. case p of None \<Rightarrow> JNull | Some x \<Rightarrow> enc x) (map_option co)"
proof (unfold decodes_def, intro allI)
  fix p v assume "\<forall>x v. dec (json_coerce (enc x)) v = Some (co x)" and n: "\<And>x. enc x \<noteq> JNull"
  moreover have "json_coerce j = JNull \<longleftrightarrow> j = JNull" for j by (cases j) auto
  ultimately show "decode_ptr dec z (json_coerce (case p of None \<Rightarrow> JNull | Some x \<Rightarrow> enc x)) v = Some (map_option co p)"
    by (cases p) (simp_all add: decode_ptr_def)
qed

section \<open>Reading structs back\<close>

text \<open>A transaction, header, block and block summary as they come back from their JSON.\<close>

definition json_tx :: "transaction \<Rightarrow> transaction" where
  "json_tx t = t\<lparr>tx_ID := utf8_coerce (tx_ID t), tx_Payload := utf8_coerce (tx_Payload t)\<rparr>"

definition json_header :: "block_header \<Rightarrow> block_header" where
  "json_header h = h\<lparr>bh_MinerID := utf8_coerce (bh_MinerID h)\<rparr>"

definition json_block :: "block \<Rightarrow> block" where
  "json_block b = b\<lparr>blk_Header := json_header (blk_Header b), blk_Txs := map json_tx (blk_Txs b)\<rparr>"

definition json_meta :: "block_meta \<Rightarrow> block_meta" where
  "json_meta b = b\<lparr>bm_Header := json_header (bm_Header b)\<rparr>"

lemmas struct_simps = decode_struct_def field_of_def into_def utf8_coerce_ascii

lemma decodes_header: "decodes decode_header header_json json_header"
proof -
  have u: "JNum (dec_nat (unat w)) = int_json (uint w)" for w :: "'w::len word" by (simp add: int_json_def dec_int_uint)
  have "decode_header (json_coerce (header_json h)) v = Some (json_header h)" for h v
    unfolding header_json_def u hash_json_def [symmetric] int_json_def [symmetric]
    by (simp add: decode_header_def struct_simps decodes_simps json_header_def
        del: decode_uint.simps decode_int64.simps)
  then show ?thesis by (simp add: decodes_def)
qed

lemma decodes_tx: "decodes decode_tx tx_json json_tx"
  unfolding decodes_def tx_json_def
  by (simp add: decode_tx_def struct_simps decodes_simps json_tx_def del: decode_int64.simps)

lemmas decodes_part [decodes_simps] = decodesD [OF decodes_header] decodes_list [OF decodes_tx] decodesD [OF decodes_tx]

lemma decodes_block: "decodes decode_block (block_json nil) json_block"
  unfolding decodes_def block_json_def
  by (simp add: decode_block_def struct_simps decodes_simps json_block_def del: decode_uint.simps)

lemma decodes_meta: "decodes decode_meta meta_json json_meta"
  unfolding decodes_def meta_json_def
  by (simp add: decode_meta_def struct_simps decodes_simps json_meta_def del: decode_uint.simps)

lemma decodes_block_ptr: "decodes (decode_ptr decode_block z) (block_ptr_json nil) (map_option json_block)"
proof -
  have "block_ptr_json nil = (\<lambda>p. case p of None \<Rightarrow> JNull | Some b \<Rightarrow> block_json nil b)" by (auto simp: block_ptr_json_def)
  then show ?thesis using decodes_ptr [OF decodes_block [of nil]] by (simp add: block_json_def)
qed

lemma decodes_JStr: "decodes decode_string JStr utf8_coerce" by (simp add: decodes_def)

lemma decodes_hashes: "decodes decode_hash hash_json id" by (simp add: decodes_def decodes_simps)

lemmas decodes_more [decodes_simps] = decodesD [OF decodes_meta] decodes_list [OF decodes_meta] decodesD [OF decodes_block_ptr]
  decodes_list [OF decodes_block_ptr] decodes_list [OF decodes_JStr] decodes_list [OF decodes_hashes]

section \<open>Reading payloads and messages back\<close>

text \<open>The type a payload is sent under; the types that have no payload struct.\<close>

fun payload_type :: "payload \<Rightarrow> msg_type option" where
  "payload_type (HelloPayload _ _ _ _ _ _) = Some MsgHello"
| "payload_type (HelloAckPayload _ _ _ _ _ _ _ _) = Some MsgHelloAck"
| "payload_type (AuthPayload _ _ _) = Some MsgAuth"
| "payload_type (GetPeersPayload _) = Some MsgGetPeers"
| "payload_type (PeersPayload _) = Some MsgPeers"
| "payload_type (InvTxPayload _) = Some MsgInvTx"
| "payload_type (GetTxPayload _) = Some MsgGetTx"
| "payload_type (TxPayload _) = Some MsgTx"
| "payload_type (InvBlockPayload _) = Some MsgInvBlock"
| "payload_type (GetBlockPayload _) = Some MsgGetBlock"
| "payload_type (BlockPayload _) = Some MsgBlock"
| "payload_type GetTipPayload = Some MsgGetTip"
| "payload_type (TipPayload _ _ _) = Some MsgTip"
| "payload_type (GetHeadersPayload _ _) = Some MsgGetHeaders"
| "payload_type (HeadersPayload _) = Some MsgHeaders"
| "payload_type (GetBlocksPayload _) = Some MsgGetBlocks"
| "payload_type (BlocksPayload _) = Some MsgBlocks"
| "payload_type (RawPayload _) = None"
| "payload_type NilPayload = None"

text \<open>The \<^verbatim>\<open>int\<close> fields hold 64-bit integers.\<close>

definition go_int :: "int \<Rightarrow> bool" where
  "go_int i \<longleftrightarrow> - (2 ^ 63) \<le> i \<and> i < 2 ^ 63"

fun payload_ints :: "payload \<Rightarrow> bool" where
  "payload_ints (HelloPayload _ v _ _ _ _) = go_int v"
| "payload_ints (HelloAckPayload _ v _ _ _ _ _ _) = go_int v"
| "payload_ints (GetPeersPayload n) = go_int n"
| "payload_ints (GetHeadersPayload _ n) = go_int n"
| "payload_ints _ = True"

fun json_payload :: "payload \<Rightarrow> payload" where
  "json_payload (HelloPayload m v pk la n ts) = HelloPayload (utf8_coerce m) v pk (utf8_coerce la) n ts"
| "json_payload (HelloAckPayload m v pk la n en sg ts) = HelloAckPayload (utf8_coerce m) v pk (utf8_coerce la) n en sg ts"
| "json_payload (PeersPayload addrs) = PeersPayload (map utf8_coerce addrs)"
| "json_payload (InvTxPayload i) = InvTxPayload (utf8_coerce i)"
| "json_payload (GetTxPayload i) = GetTxPayload (utf8_coerce i)"
| "json_payload (TxPayload t) = TxPayload (json_tx t)"
| "json_payload (InvBlockPayload b) = InvBlockPayload (json_meta b)"
| "json_payload (BlockPayload p) = BlockPayload (map_option json_block p)"
| "json_payload (TipPayload h n w) = TipPayload h n (utf8_coerce w)"
| "json_payload (HeadersPayload bs) = HeadersPayload (map json_meta bs)"
| "json_payload (BlocksPayload ps) = BlocksPayload (map (map_option json_block) ps)"
| "json_payload p = p"

definition json_message :: "message \<Rightarrow> message" where
  "json_message m = \<lparr>msg_Type = utf8_coerce (msg_Type m), msg_From = utf8_coerce (msg_From m),
     msg_To = utf8_coerce (msg_To m), msg_Timestamp = msg_Timestamp m, msg_TraceID = utf8_coerce (msg_TraceID m),
     msg_Payload = json_payload (msg_Payload m)\<rparr>"

lemma decode_int_go [decodes_simps]: "go_int i \<Longrightarrow> decode_int (json_coerce (int_json i)) v = Some i"
  by (simp add: go_int_def decode_int_json del: decode_int.simps)

lemma decode_single_obj: "decode_single k dec (JObj [(k, j)]) v = dec j v"
  by (simp add: decode_single_def decode_struct_def field_of_def split: option.split)

lemmas keep_decoders = decode_uint.simps decode_int64.simps decode_int.simps

lemma decode_handshake_fields:
  "go_int v \<Longrightarrow> decode_hello [''magic'', ''version'', ''pubKey'', ''listenAddr'', ''nonce'', ''timestamp'']
     (json_coerce (payload_json nil (HelloPayload m v pk la n ts))) r
   = Some (r\<lparr>hf_Magic := utf8_coerce m, hf_Version := v, hf_PubKey := pk, hf_ListenAddr := utf8_coerce la, hf_Nonce := n, hf_Timestamp := ts\<rparr>)"
  "go_int v \<Longrightarrow> decode_hello [''magic'', ''version'', ''pubKey'', ''listenAddr'', ''nonce'', ''echoNonce'', ''sigOverEcho'', ''timestamp'']
     (json_coerce (payload_json nil (HelloAckPayload m v pk la n en sg ts))) r
   = Some (r\<lparr>hf_Magic := utf8_coerce m, hf_Version := v, hf_PubKey := pk, hf_ListenAddr := utf8_coerce la, hf_Nonce := n,
       hf_EchoNonce := en, hf_Sig := sg, hf_Timestamp := ts\<rparr>)"
  "decode_hello [''echoNonce'', ''sig'', ''timestamp''] (json_coerce (payload_json nil (AuthPayload en sg ts))) r
   = Some (r\<lparr>hf_EchoNonce := en, hf_Sig := sg, hf_Timestamp := ts\<rparr>)"
  by (simp_all add: decode_hello_def struct_simps decodes_simps del: keep_decoders)

lemma decode_tip_fields:
  "decode_tip (json_coerce (payload_json nil (TipPayload h n w))) r = Some (h, n, utf8_coerce w)"
  by (cases r) (simp add: decode_tip_def struct_simps decodes_simps del: keep_decoders)

lemma decode_get_headers_fields:
  "go_int k \<Longrightarrow> decode_get_headers (json_coerce (payload_json nil (GetHeadersPayload l k))) r = Some (l, k)"
  by (cases r) (simp add: decode_get_headers_def struct_simps decodes_simps del: keep_decoders)

text \<open>A payload struct with one field.\<close>

lemma decode_one_field:
  assumes "payload_json nil p = JObj [(k, j)]" "utf8_coerce k = k" "dec (json_coerce j) v = Some w"
  shows "decode_single k dec (json_coerce (payload_json nil p)) v = Some w"
  using assms by (simp add: decode_single_obj)

lemma decode_payload_encoded:
  assumes "payload_type p = Some typ" "payload_ints p"
  shows "decode_payload typ (json_coerce (payload_json nil p)) = Some (json_payload p)"
proof (cases p)
  case (HelloPayload m v pk la n ts)
  then have t: "typ = MsgHello" using assms by simp
  show ?thesis using assms(2) unfolding t HelloPayload
    by (simp add: decode_payload_def decode_handshake_fields zero_hello_def del: payload_json.simps)
next
  case (HelloAckPayload m v pk la n en sg ts)
  then have t: "typ = MsgHelloAck" using assms by simp
  show ?thesis using assms(2) unfolding t HelloAckPayload
    by (simp add: decode_payload_def decode_handshake_fields zero_hello_def del: payload_json.simps)
next
  case (AuthPayload en sg ts)
  then have t: "typ = MsgAuth" using assms by simp
  show ?thesis unfolding t AuthPayload
    by (simp add: decode_payload_def decode_handshake_fields zero_hello_def del: payload_json.simps)
next
  case (TipPayload h n w)
  then have t: "typ = MsgTip" using assms by simp
  show ?thesis unfolding t TipPayload by (simp add: decode_payload_def decode_tip_fields del: payload_json.simps)
next
  case (GetHeadersPayload l k)
  then have t: "typ = MsgGetHeaders" using assms by simp
  show ?thesis using assms(2) unfolding t GetHeadersPayload
    by (simp add: decode_payload_def decode_get_headers_fields del: payload_json.simps)
next
  case GetTipPayload
  then have t: "typ = MsgGetTip" using assms by simp
  show ?thesis unfolding t GetTipPayload by (simp add: decode_payload_def decode_struct_def)
qed (use assms in \<open>(clarsimp simp add: decode_payload_def decode_single_obj utf8_coerce_ascii decodes_simps simp del: keep_decoders)\<close>)+

text \<open>A type that is one of the names above is ASCII.\<close>

lemma payload_type_ascii: "payload_type p = Some typ \<Longrightarrow> utf8_coerce typ = typ"
  by (cases p) (auto simp: utf8_coerce_ascii)

lemma utf8_coerce_Nil [simp]: "utf8_coerce [] = []" by (simp add: utf8_coerce.simps)

lemma UnmarshalJSON_MarshalJSON:
  assumes "payload_type (msg_Payload m) = Some (msg_Type m)" "payload_ints (msg_Payload m)"
  shows "UnmarshalJSON (json_coerce (MarshalJSON nil m)) = Some (json_message m)"
proof -
  let ?pl = "json_coerce (payload_json nil (msg_Payload m))"
  note t = payload_type_ascii [OF assms(1)] and pl = decode_payload_encoded [OF assms]
  have "decode_wire (json_coerce (MarshalJSON nil m)) zero_wire =
     Some \<lparr>w_Type = msg_Type m, w_From = utf8_coerce (msg_From m), w_To = utf8_coerce (msg_To m),
       w_Timestamp = msg_Timestamp m, w_TraceID = utf8_coerce (msg_TraceID m), w_Payload = Some ?pl\<rparr>"
    by (simp add: MarshalJSON_def decode_wire_def zero_wire_def struct_simps decodes_simps t del: keep_decoders)
  then show ?thesis using pl by (simp add: UnmarshalJSON_def json_message_def t)
qed

text \<open>Printed numbers are integers and the nesting is small, so the text parses.\<close>

lemma json_ints_simps:
  "json_ints (int_json i)" "json_ints (hash_json h)" "json_ints (bytes_json nil k bs)" "json_ints (tx_json t)"
  "json_ints (header_json g)" "json_ints (meta_json b)"
  "(\<And>x. json_ints (f x)) \<Longrightarrow> json_ints (list_json nil k f xs)"
  by (auto simp: int_json_def hash_json_def bytes_json_def tx_json_def header_json_def meta_json_def list_json_def
      simp flip: dec_int_uint)

lemma json_ints_block: "json_ints (block_json nil b)" "json_ints (block_ptr_json nil p)"
  by (simp_all add: block_json_def block_ptr_json_def json_ints_simps split: option.split)

lemma json_ints_message: "payload_type (msg_Payload m) \<noteq> None \<Longrightarrow> json_ints (MarshalJSON nil m)"
proof -
  assume "payload_type (msg_Payload m) \<noteq> None"
  then have "json_ints (payload_json nil (msg_Payload m))"
    by (cases "msg_Payload m") (simp_all add: json_ints_simps json_ints_block)
  then show ?thesis by (simp add: MarshalJSON_def json_ints_simps)
qed

lemma depth_bound:
  "(\<And>x. x \<in> set xs \<Longrightarrow> json_depth x \<le> n) \<Longrightarrow> json_depth (JArr xs) \<le> Suc n"
  "(\<And>f. f \<in> set fs \<Longrightarrow> json_depth (snd f) \<le> n) \<Longrightarrow> json_depth (JObj fs) \<le> Suc n"
  by auto

lemma json_depth_simps:
  "json_depth (int_json i) = 0" "json_depth (hash_json h) = 0" "json_depth (bytes_json nil k bs) = 0"
  "json_depth (tx_json t) = 1" "json_depth (header_json g) = 1" "json_depth (meta_json b) = 2"
  "(\<And>x. json_depth (f x) \<le> n) \<Longrightarrow> json_depth (list_json nil k f xs) \<le> Suc n"
  by (auto simp: int_json_def hash_json_def bytes_json_def tx_json_def header_json_def meta_json_def list_json_def)

lemma json_depth_block: "json_depth (block_json nil b) \<le> 3" "json_depth (block_ptr_json nil p) \<le> 3"
proof -
  have "json_depth (list_json nil ''txs'' tx_json t) \<le> Suc 1" for t by (intro json_depth_simps) (simp add: json_depth_simps)
  then show "json_depth (block_json nil b) \<le> 3" for b
    unfolding block_json_def numeral_3_eq_3 by (intro depth_bound) (auto simp: json_depth_simps)
  then show "json_depth (block_ptr_json nil p) \<le> 3" by (simp add: block_ptr_json_def split: option.split)
qed

lemma json_depth_payload: "payload_type p \<noteq> None \<Longrightarrow> json_depth (payload_json nil p) \<le> 5"
proof -
  have l: "json_depth (list_json nil k f xs) \<le> 4" if "\<And>x. json_depth (f x) \<le> 3" for k and f :: "'b \<Rightarrow> json" and xs
    using json_depth_simps(7) [of f 3 nil k xs] that by simp
  have "json_depth (list_json nil k JStr xs) \<le> 4" "json_depth (list_json nil k hash_json hs) \<le> 4"
    "json_depth (list_json nil k meta_json ms) \<le> 4" "json_depth (list_json nil k (block_ptr_json nil) ps) \<le> 4"
    for k xs hs ms ps
    by (rule l; simp add: json_depth_simps json_depth_block)+
  moreover have "json_depth (block_ptr_json nil q) \<le> 4" for q using json_depth_block(2) [of nil q] by simp
  moreover assume "payload_type p \<noteq> None"
  ultimately show ?thesis by (cases p) (simp_all add: json_depth_simps)
qed

lemma json_depth_message: "payload_type (msg_Payload m) \<noteq> None \<Longrightarrow> json_depth (MarshalJSON nil m) \<le> max_depth"
proof -
  assume "payload_type (msg_Payload m) \<noteq> None"
  then have "json_depth (payload_json nil (msg_Payload m)) \<le> 5" by (rule json_depth_payload)
  then have "json_depth (MarshalJSON nil m) \<le> Suc 5"
    unfolding MarshalJSON_def by (intro depth_bound) (auto simp: json_depth_simps split: if_splits)
  then show ?thesis by (simp add: max_depth_def)
qed

lemma parse_message:
  "payload_type (msg_Payload m) \<noteq> None \<Longrightarrow>
   parse_json (print_json (MarshalJSON nil m)) = Some (json_coerce (MarshalJSON nil m))"
  by (intro parse_printed json_ints_message json_depth_message)

section \<open>What a decoded message can be\<close>

definition known_type :: "msg_type \<Rightarrow> bool" where
  "known_type typ \<longleftrightarrow> typ \<in> {MsgHello, MsgHelloAck, MsgAuth, MsgGetPeers, MsgPeers, MsgInvTx, MsgGetTx, MsgTx,
     MsgInvBlock, MsgGetBlock, MsgBlock, MsgGetTip, MsgTip, MsgGetHeaders, MsgHeaders, MsgGetBlocks, MsgBlocks}"

text \<open>The payload is the struct of the type, the raw value of an unknown type, or nil.\<close>

definition well_typed :: "message \<Rightarrow> bool" where
  "well_typed m \<longleftrightarrow> payload_ints (msg_Payload m) \<and>
     (msg_Payload m = NilPayload \<or> payload_type (msg_Payload m) = Some (msg_Type m) \<or>
      (\<not> known_type (msg_Type m) \<and> (\<exists>j. msg_Payload m = RawPayload j)))"

lemma decode_fields_inv:
  assumes "decode_fields names dec fs v = Some w" "P v"
    "\<And>n j v w. dec n j v = Some w \<Longrightarrow> P v \<Longrightarrow> P w"
  shows "P w"
  using assms by (induction names dec fs v rule: decode_fields.induct) (auto split: option.splits)

lemma decode_struct_inv:
  assumes "decode_struct names dec j v = Some w" "P v" "\<And>n j v w. dec n j v = Some w \<Longrightarrow> P v \<Longrightarrow> P w"
  shows "P w"
  using assms decode_fields_inv [of names dec _ v w P] by (auto simp: decode_struct_def split: json.splits)

lemma decode_int_range: "decode_int j v = Some w \<Longrightarrow> go_int v \<Longrightarrow> go_int w"
  by (cases j) (auto simp: ParseInt_def go_int_def Let_def split: if_splits prod.splits)

lemma decode_hello_range: "decode_hello names j f = Some g \<Longrightarrow> go_int (hf_Version f) \<Longrightarrow> go_int (hf_Version g)"
  unfolding decode_hello_def
  by (erule decode_struct_inv [where P = "\<lambda>r. go_int (hf_Version r)"])
    (auto simp: into_def dest: decode_int_range split: if_splits)

lemma decode_get_headers_range: "decode_get_headers j p = Some q \<Longrightarrow> go_int (snd p) \<Longrightarrow> go_int (snd q)"
  unfolding decode_get_headers_def
  by (erule decode_struct_inv [where P = "\<lambda>r. go_int (snd r)"])
    (auto simp: into_def dest: decode_int_range split: if_splits)

lemma decode_get_headers_max: "decode_get_headers j ([], 0) = Some (l, k) \<Longrightarrow> go_int k"
  by (drule decode_get_headers_range) (simp_all add: go_int_def)

lemma decode_single_range: "decode_single k decode_int j v = Some w \<Longrightarrow> go_int v \<Longrightarrow> go_int w"
  unfolding decode_single_def by (erule decode_struct_inv [where P = go_int]) (auto dest: decode_int_range)

lemma go_int_0: "go_int 0" by (simp add: go_int_def)

lemma decode_known_payload:
  assumes "decode_payload typ j = Some p" "known_type typ"
  shows "payload_ints p \<and> payload_type p = Some typ"
  using assms(2,1) unfolding known_type_def
  by (elim insertE emptyE; hypsubst)
    (clarsimp simp: decode_payload_def zero_hello_def go_int_0
      dest!: decode_hello_range decode_get_headers_max decode_single_range)+

lemma decode_payload_typed:
  assumes "decode_payload typ j = Some p"
  shows "payload_ints p \<and> (payload_type p = Some typ \<or> \<not> known_type typ \<and> p = RawPayload j)"
proof (cases "known_type typ")
  case False
  then show ?thesis using assms by (simp add: decode_payload_def known_type_def) auto
qed (use decode_known_payload [OF assms] in simp)

lemma UnmarshalJSON_typed: "UnmarshalJSON j = Some m \<Longrightarrow> well_typed m"
  by (auto simp: UnmarshalJSON_def well_typed_def Let_def dest!: decode_payload_typed split: option.splits)

end
