(* ===== verification/Store.thy ===== *)
theory Store
  imports ChainSync Codec
begin

text \<open>
  \<^verbatim>\<open>internal/store/store.go\<close>: the main chain on disk, one JSON file per height and a manifest. The
  disk is the content of these files; a file holds the JSON of a value or text that
  \<^verbatim>\<open>json.Unmarshal\<close> refuses. A value comes back from its file with every string coerced to valid
  UTF-8, as \<open>decodes_block\<close> of \<open>Codec\<close> shows for blocks. A block file is known by its height; \<^verbatim>\<open>writeFileAtomic\<close> replaces
  a file or, when writing or renaming fails, leaves it. File names, temporary files and the bytes are the
  matter of \<open>StoreFiles\<close>, which shows that they implement this disk. Which operations of the file system fail is an argument of every operation.
\<close>

section \<open>Files\<close>

record manifest =
  mf_Version :: int
  mf_Difficulty :: uint32
  mf_TipHeight :: uint64
  mf_TipHash :: hash
  mf_UpdatedAt :: int64

datatype 'a content = Json 'a | Garbage

record disk =
  dk_blocks :: "uint64 \<rightharpoonup> block content"
  dk_manifest :: "manifest content option"

text \<open>The calls that fail with an error other than \<^verbatim>\<open>ErrNotExist\<close>.\<close>

record faults =
  ft_mkdir :: bool
  ft_stat :: bool
  ft_manifest :: bool
  ft_read :: "uint64 \<Rightarrow> bool"
  ft_write :: "uint64 \<Rightarrow> bool"
  ft_remove :: "uint64 \<Rightarrow> bool"

definition no_faults :: faults where
  "no_faults = \<lparr>ft_mkdir = False, ft_stat = False, ft_manifest = False, ft_read = \<lambda>_. False,
     ft_write = \<lambda>_. False, ft_remove = \<lambda>_. False\<rparr>"

datatype store_error = IOError | NotExist | BadJson | DifficultyDiffers uint32 uint32 | MissingAncestor hash
  | HashError marshal_error

type_synonym store = manifest
type_synonym 'a stored = "(store_error + 'a) \<times> store \<times> disk"

section \<open>Block files\<close>

definition readBlockFile :: "faults \<Rightarrow> uint64 \<Rightarrow> disk \<Rightarrow> store_error + block" where
  "readBlockFile ft height dk =
     (if ft_read ft height then Inl IOError
      else case dk_blocks dk height of
             None \<Rightarrow> Inl NotExist
           | Some Garbage \<Rightarrow> Inl BadJson
           | Some (Json b) \<Rightarrow> Inr b)"

definition writeBlockFile :: "faults \<Rightarrow> digest \<Rightarrow> block option \<Rightarrow> disk \<Rightarrow> (store_error + unit) \<times> disk" where
  "writeBlockFile ft sha b dk =
     (case cloneBlock b of
        None \<Rightarrow> (Inr (), dk)
      | Some cp \<Rightarrow>
          (case (if IsZero (blk_Hash cp)
                 then (case HashHeaderNonce sha (blk_Header cp) (blk_Nonce cp) of
                         Inl err \<Rightarrow> Inl (HashError err) | Inr h \<Rightarrow> Inr (cp\<lparr>blk_Hash := h\<rparr>))
                 else Inr cp) of
             Inl err \<Rightarrow> (Inl err, dk)
           | Inr cp \<Rightarrow>
               let height = bh_Height (blk_Header cp) in
               if ft_write ft height then (Inl IOError, dk)
               else (Inr (), dk\<lparr>dk_blocks := (dk_blocks dk)(height \<mapsto> Json (json_block cp))\<rparr>)))"

section \<open>Manifest\<close>

definition saveManifest :: "faults \<Rightarrow> gotime \<Rightarrow> store \<Rightarrow> disk \<Rightarrow> unit stored" where
  "saveManifest ft now st dk =
     (let st = st\<lparr>mf_UpdatedAt := word_of_int (now div millisecond)\<rparr> in
      if ft_manifest ft then (Inl IOError, st, dk)
      else (Inr (), st, dk\<lparr>dk_manifest := Some (Json st)\<rparr>))"

definition loadManifest :: "faults \<Rightarrow> disk \<Rightarrow> store_error + store" where
  "loadManifest ft dk =
     (if ft_manifest ft then Inl IOError
      else case dk_manifest dk of
             None \<Rightarrow> Inl NotExist
           | Some Garbage \<Rightarrow> Inl BadJson
           | Some (Json m) \<Rightarrow> Inr m)"

definition zero_manifest :: store where
  "zero_manifest = \<lparr>mf_Version = 0, mf_Difficulty = 0, mf_TipHeight = 0, mf_TipHash = 0, mf_UpdatedAt = 0\<rparr>"

definition initNew :: "faults \<Rightarrow> digest \<Rightarrow> gotime \<Rightarrow> uint32 \<Rightarrow> block \<Rightarrow> disk \<Rightarrow> unit stored" where
  "initNew ft sha now difficulty genesis dk =
     (let g = genesis\<lparr>blk_Header := (blk_Header genesis)\<lparr>bh_TxRoot := HashTransactions sha (blk_Txs genesis)\<rparr>\<rparr> in
      case HashHeaderNonce sha (blk_Header g) (blk_Nonce g) of
        Inl err \<Rightarrow> (Inl (HashError err), zero_manifest, dk)
      | Inr h \<Rightarrow>
          let g = g\<lparr>blk_Hash := h\<rparr> in
          (case writeBlockFile ft sha (Some g) dk of
             (Inl err, dk) \<Rightarrow> (Inl err, zero_manifest, dk)
           | (Inr _, dk) \<Rightarrow>
               saveManifest ft now \<lparr>mf_Version = 1, mf_Difficulty = difficulty, mf_TipHeight = 0,
                 mf_TipHash = blk_Hash g, mf_UpdatedAt = word_of_int (now div millisecond)\<rparr> dk))"

text \<open>\<^verbatim>\<open>Open\<close> creates the directories, then loads the manifest or starts anew.\<close>

definition Open :: "faults \<Rightarrow> digest \<Rightarrow> gotime \<Rightarrow> uint32 \<Rightarrow> block \<Rightarrow> disk \<Rightarrow> (store_error + store) \<times> disk" where
  "Open ft sha now difficulty genesis dk =
     (if ft_mkdir ft then (Inl IOError, dk)
      else if ft_stat ft then (Inl IOError, dk)
      else if dk_manifest dk \<noteq> None then
        (case loadManifest ft dk of
           Inl err \<Rightarrow> (Inl err, dk)
         | Inr m \<Rightarrow>
             if mf_Difficulty m \<noteq> difficulty then (Inl (DifficultyDiffers (mf_Difficulty m) difficulty), dk)
             else (Inr m, dk))
      else (case initNew ft sha now difficulty genesis dk of
              (Inl err, st, dk) \<Rightarrow> (Inl err, dk)
            | (Inr _, st, dk) \<Rightarrow> (Inr st, dk)))"

section \<open>Loading\<close>

text \<open>
  The loop of \<^verbatim>\<open>LoadMainChain\<close>, one height at a time; the height is a \<^verbatim>\<open>uint64\<close> and wraps. The
  body is \<open>load_step\<close>: go on with one more block, or stop with a result.
\<close>

definition load_step :: "faults \<Rightarrow> gotime \<Rightarrow> uint64 \<Rightarrow> block list \<Rightarrow> store \<times> disk \<Rightarrow>
    block + block list stored" where
  "load_step ft now h out sd =
     (case sd of (st, dk) \<Rightarrow>
      (case readBlockFile ft h dk of
         Inr b \<Rightarrow> Inl b
       | Inl err \<Rightarrow>
           if err = NotExist then
             (if h = 0 then Inr (Inl err, st, dk)
              else let st = st\<lparr>mf_TipHeight := h - 1\<rparr>;
                       st = (if length out > 0 then st\<lparr>mf_TipHash := blk_Hash (last out)\<rparr> else st)
                   in (case saveManifest ft now st dk of (_, st, dk) \<Rightarrow> Inr (Inr out, st, dk)))
           else Inr (Inl err, st, dk)))"

partial_function (option) load_loop :: "faults \<Rightarrow> gotime \<Rightarrow> uint64 \<Rightarrow> block list \<Rightarrow> store \<times> disk \<Rightarrow>
    block list stored option" where
  "load_loop ft now h out sd =
     (if h \<le> mf_TipHeight (fst sd) then
        (case load_step ft now h out sd of
           Inl b \<Rightarrow> load_loop ft now (h + 1) (out @ [b]) sd
         | Inr r \<Rightarrow> Some r)
      else Some (Inr out, fst sd, snd sd))"

text \<open>
  The capacity of \<^verbatim>\<open>make([]*types.Block, 0, TipHeight+1)\<close> is allocated at once: a capacity whose
  memory (8 bytes each) exceeds the address space panics, which is \<open>None\<close>.
\<close>

definition max_cap :: nat where
  "max_cap = 2 ^ 48 div 8"

definition LoadMainChain :: "faults \<Rightarrow> gotime \<Rightarrow> store \<times> disk \<Rightarrow> block list stored option" where
  "LoadMainChain ft now sd =
     (if unat (mf_TipHeight (fst sd) + 1) > max_cap then None else load_loop ft now 0 [] sd)"

section \<open>Tip changes\<close>

text \<open>The loop of \<^verbatim>\<open>rollbackTo\<close>; a file that cannot be removed stays.\<close>

lemma word_pred_less: "height < h \<Longrightarrow> unat (h - 1) < unat h" for h :: uint64
  by (metis measure_unat word_not_simps(1))

function rollback_loop :: "faults \<Rightarrow> uint64 \<Rightarrow> uint64 \<Rightarrow> disk \<Rightarrow> disk" where
  "rollback_loop ft h height dk =
     (if h > height
      then rollback_loop ft (h - 1) height
             (if ft_remove ft h then dk else dk\<lparr>dk_blocks := (dk_blocks dk)(h := None)\<rparr>)
      else dk)"
  by pat_completeness auto
termination
  by (relation "measure (\<lambda>(ft, h, height, dk). unat h)") (auto intro: word_pred_less)

declare rollback_loop.simps [simp del]

definition rollbackTo :: "faults \<Rightarrow> uint64 \<Rightarrow> store \<times> disk \<Rightarrow> store \<times> disk" where
  "rollbackTo ft height sd =
     (case sd of (st, dk) \<Rightarrow>
      let dk = rollback_loop ft (mf_TipHeight st) height dk;
          st = st\<lparr>mf_TipHeight := height\<rparr>
      in (case readBlockFile ft height dk of
            Inl _ \<Rightarrow> (st, dk)
          | Inr b \<Rightarrow> (st\<lparr>mf_TipHash := blk_Hash b\<rparr>, dk)))"

text \<open>The loop over the added segment; a nil block is skipped.\<close>

fun write_added :: "faults \<Rightarrow> digest \<Rightarrow> block option list \<Rightarrow> store \<times> disk \<Rightarrow> unit stored" where
  "write_added ft sha [] (st, dk) = (Inr (), st, dk)"
| "write_added ft sha (None # bs) (st, dk) = write_added ft sha bs (st, dk)"
| "write_added ft sha (Some b # bs) (st, dk) =
     (case writeBlockFile ft sha (Some b) dk of
        (Inl err, dk) \<Rightarrow> (Inl err, st, dk)
      | (Inr _, dk) \<Rightarrow> write_added ft sha bs
          (st\<lparr>mf_TipHeight := bh_Height (blk_Header b), mf_TipHash := blk_Hash b\<rparr>, dk))"

definition ApplyTipChange :: "faults \<Rightarrow> digest \<Rightarrow> gotime \<Rightarrow> blockchain \<Rightarrow> hash \<Rightarrow> reorg option \<Rightarrow>
    store \<times> disk \<Rightarrow> unit stored" where
  "ApplyTipChange ft sha now chain tipHash r sd =
     (case sd of (st, dk) \<Rightarrow>
      (case r of
         None \<Rightarrow>
           (case BlockByHash chain tipHash of
              None \<Rightarrow> (Inr (), st, dk)
            | Some b \<Rightarrow>
                if bh_Height (blk_Header b) \<le> mf_TipHeight st then (Inr (), st, dk)
                else (case writeBlockFile ft sha (Some b) dk of
                        (Inl err, dk) \<Rightarrow> (Inl err, st, dk)
                      | (Inr _, dk) \<Rightarrow>
                          saveManifest ft now (st\<lparr>mf_TipHeight := bh_Height (blk_Header b), mf_TipHash := tipHash\<rparr>) dk))
       | Some r \<Rightarrow>
           (case BlockByHash chain (rg_CommonAncestor r) of
              None \<Rightarrow> (Inl (MissingAncestor (rg_CommonAncestor r)), st, dk)
            | Some ancestor \<Rightarrow>
                (case write_added ft sha (rg_Added r) (rollbackTo ft (bh_Height (blk_Header ancestor)) (st, dk)) of
                   (Inl err, st, dk) \<Rightarrow> (Inl err, st, dk)
                 | (Inr _, st, dk) \<Rightarrow> saveManifest ft now st dk))))"

section \<open>Restart\<close>

text \<open>
  What \<^verbatim>\<open>cmd/node\<close> does with the loaded blocks: the first is the genesis, the others are added
  again. Any error, and an empty list, ends the program: \<open>Inl\<close>.
\<close>

datatype restore_error = EmptyChain | ChainError chain_error

fun readd :: "digest \<Rightarrow> (hash \<times> block) ranging \<Rightarrow> block list \<Rightarrow> blockchain \<Rightarrow> (restore_error + blockchain) option" where
  "readd sha ord [] bc = Some (Inr bc)"
| "readd sha ord (b # bs) bc =
     (case AddBlock sha ord (Some b) bc of
        None \<Rightarrow> None
      | Some (res, Some err, bc) \<Rightarrow> Some (Inl (ChainError err))
      | Some (res, None, bc) \<Rightarrow> readd sha ord bs bc)"

definition restore_chain :: "digest \<Rightarrow> (hash \<times> block) ranging \<Rightarrow> uint32 \<Rightarrow> block list \<Rightarrow>
    (restore_error + blockchain) option" where
  "restore_chain sha ord difficulty blocks =
     (case blocks of
        [] \<Rightarrow> Some (Inl EmptyChain)
      | g # rest \<Rightarrow>
          (case NewBlockchain sha (Some g) difficulty of
             Inl err \<Rightarrow> Some (Inl (ChainError err))
           | Inr bc \<Rightarrow> readd sha ord rest bc))"

end
