(* ===== verification/StoreInv.thy ===== *)
theory StoreInv
  imports Store ChainTip
begin

text \<open>
  When the disk holds a list of blocks, and that the operations of \<open>Store\<close> keep it in step with
  the main chain of \<open>Chain\<close>.
\<close>

section \<open>The abstraction\<close>

text \<open>Blocks that JSON gives back as they were: all their strings are valid UTF-8.\<close>

definition utf8_block :: "block \<Rightarrow> bool" where
  "utf8_block b \<longleftrightarrow> valid_utf8 (bh_MinerID (blk_Header b))
     \<and> (\<forall>t \<in> set (blk_Txs b). valid_utf8 (tx_ID t) \<and> valid_utf8 (tx_Payload t))"

lemma json_block_id: "utf8_block b \<Longrightarrow> json_block b = b"
  by (auto simp: utf8_block_def json_block_def json_header_def json_tx_def utf8_coerce_valid map_idI)

definition files_hold :: "disk \<Rightarrow> block list \<Rightarrow> bool" where
  "files_hold dk bs \<longleftrightarrow> (\<forall>i < length bs. dk_blocks dk (of_nat i) = Some (Json (bs ! i)))"

definition holds :: "store \<times> disk \<Rightarrow> block list \<Rightarrow> bool" where
  "holds sd bs \<longleftrightarrow> bs \<noteq> [] \<and> length bs \<le> max_cap \<and> mf_TipHeight (fst sd) = of_nat (length bs - 1)
     \<and> mf_TipHash (fst sd) = blk_Hash (last bs) \<and> files_hold (snd sd) bs
     \<and> dk_manifest (snd sd) = Some (Json (fst sd))"

lemma max_cap_small: "n \<le> max_cap \<Longrightarrow> n < 2 ^ LENGTH(64)"
  by (simp add: max_cap_def)

lemma unat_height: "n \<le> max_cap \<Longrightarrow> unat (of_nat n :: uint64) = n"
  using max_cap_small [of n] by (simp add: unat_of_nat take_bit_nat_eq_self)

section \<open>Loading\<close>

lemma readBlockFile_ok [simp]:
  "readBlockFile no_faults h dk = (case dk_blocks dk h of None \<Rightarrow> Inl NotExist | Some Garbage \<Rightarrow> Inl BadJson | Some (Json b) \<Rightarrow> Inr b)"
  by (simp add: readBlockFile_def no_faults_def)

lemma load_loop_holds:
  assumes "files_hold dk bs" "length bs \<le> max_cap" "mf_TipHeight st = of_nat (length bs - 1)" "bs \<noteq> []"
    and "k \<le> length bs"
  shows "load_loop no_faults now (of_nat (length bs - k)) (take (length bs - k) bs) (st, dk) = Some (Inr bs, st, dk)"
  using assms(5)
proof (induction k)
  case 0
  obtain n where "length bs = Suc n" using assms(4) by (cases bs) auto
  then have "\<not> of_nat (length bs) \<le> (of_nat (length bs - 1) :: uint64)"
    using assms(2) unat_height [of n] unat_height [of "Suc n"] by (simp add: word_le_nat_alt del: of_nat_Suc)
  then show ?case using assms(3) by (subst load_loop.simps) simp
next
  case (Suc k)
  let ?i = "length bs - Suc k"
  have i: "?i < length bs" "Suc ?i = length bs - k" using Suc.prems by auto
  have le: "of_nat ?i \<le> mf_TipHeight st"
    using assms(2,3,4) by (simp add: word_le_nat_alt unat_height)
  have rd: "load_step no_faults now (of_nat ?i) (take ?i bs) (st, dk) = Inl (bs ! ?i)"
    using assms(1) i(1) by (simp add: load_step_def files_hold_def)
  have nx: "of_nat ?i + 1 = (of_nat (length bs - k) :: uint64)" using i(2) by (metis of_nat_Suc add.commute)
  have tk: "take ?i bs @ [bs ! ?i] = take (length bs - k) bs" using i by (metis take_Suc_conv_app_nth)
  show ?case using le rd Suc.IH Suc.prems unfolding tk [symmetric] nx [symmetric]
    by (subst load_loop.simps) simp
qed

lemma LoadMainChain_holds:
  assumes "holds (st, dk) bs"
  shows "LoadMainChain no_faults now (st, dk) = Some (Inr bs, st, dk)"
proof -
  have h: "files_hold dk bs" "length bs \<le> max_cap" "mf_TipHeight st = of_nat (length bs - 1)" "bs \<noteq> []"
    using assms by (simp_all add: holds_def)
  have "mf_TipHeight st + 1 = of_nat (length bs)"
    using h(3,4) by (metis One_nat_def Suc_pred add.commute length_greater_0_conv of_nat_Suc)
  then have "\<not> max_cap < unat (mf_TipHeight st + 1)" using h(2) by (simp add: unat_height)
  with load_loop_holds [OF h, of "length bs" now] show ?thesis by (simp add: LoadMainChain_def)
qed

text \<open>
  Whatever is on the disk: the blocks up to the first missing height come back, and the manifest
  is cut back to them.
\<close>

lemma load_loop_gap:
  assumes "\<forall>i < n. dk_blocks dk (of_nat i) = Some (Json (bs ! i))" "n = length bs" "dk_blocks dk (of_nat n) = None"
    and "n \<noteq> 0" "n \<le> max_cap" "of_nat n \<le> mf_TipHeight st" "k \<le> n"
  shows "\<exists>u. load_loop no_faults now (of_nat (n - k)) (take (n - k) bs) (st, dk)
     = (let st' = st\<lparr>mf_TipHeight := of_nat (n - 1), mf_TipHash := blk_Hash (last bs), mf_UpdatedAt := u\<rparr>
        in Some (Inr bs, st', dk\<lparr>dk_manifest := Some (Json st')\<rparr>))"
  using assms(7)
proof (induction k)
  case 0
  have nz: "of_nat n \<noteq> (0 :: uint64)" using assms(4,5) by (metis unat_0 unat_height)
  have m1: "of_nat n - 1 = (of_nat (n - 1) :: uint64)" using assms(4) by (simp add: of_nat_diff)
  have ne: "bs \<noteq> []" using assms(2,4) by auto
  have "load_step no_faults now (of_nat n) bs (st, dk)
      = (let st' = st\<lparr>mf_TipHeight := of_nat (n - 1), mf_TipHash := blk_Hash (last bs),
             mf_UpdatedAt := word_of_int (now div millisecond)\<rparr>
         in Inr (Inr bs, st', dk\<lparr>dk_manifest := Some (Json st')\<rparr>))"
    using nz ne assms(3) by (simp add: load_step_def saveManifest_def m1 Let_def) (simp add: no_faults_def)
  then show ?case using assms(2,6) by (subst load_loop.simps) (auto simp: Let_def)
next
  case (Suc k)
  let ?i = "n - Suc k"
  have i: "?i < n" "Suc ?i = n - k" using Suc.prems by auto
  have "unat (of_nat n :: uint64) = n" "unat (of_nat ?i :: uint64) = ?i" using assms(5) i(1) by (simp_all add: unat_height)
  then have le: "of_nat ?i \<le> mf_TipHeight st" using assms(6) i(1) by (simp add: word_le_nat_alt)
  have rd: "load_step no_faults now (of_nat ?i) (take ?i bs) (st, dk) = Inl (bs ! ?i)"
    using assms(1) i(1) by (simp add: load_step_def)
  have nx: "of_nat ?i + 1 = (of_nat (n - k) :: uint64)" using i(2) by (metis of_nat_Suc add.commute)
  have tk: "take ?i bs @ [bs ! ?i] = take (n - k) bs" using i assms(2) by (metis take_Suc_conv_app_nth)
  show ?case using le rd Suc.IH Suc.prems unfolding tk [symmetric] nx [symmetric]
    by (subst load_loop.simps) simp
qed

section \<open>Writing\<close>

text \<open>A block whose hash is that of its header: every stored block that is not the genesis.\<close>

definition sealed :: "digest \<Rightarrow> block \<Rightarrow> bool" where
  "sealed sha b \<longleftrightarrow> header_hash sha (blk_Header b) (blk_Nonce b) = blk_Hash b"

lemma writeBlockFile_ok:
  assumes "utf8_block b" "sealed sha b"
  shows "writeBlockFile no_faults sha (Some b) dk
     = (Inr (), dk\<lparr>dk_blocks := (dk_blocks dk)(bh_Height (blk_Header b) \<mapsto> Json b)\<rparr>)"
proof -
  have f: "ft_write no_faults h = False" for h by (simp add: no_faults_def)
  show ?thesis
  proof (cases "blk_Hash b = 0")
    case True
    then have "b\<lparr>blk_Hash := 0\<rparr> = b" by (cases b) simp
    then have e: "json_block (b\<lparr>blk_Hash := 0\<rparr>) = b" using json_block_id [OF assms(1)] by (simp only:)
    show ?thesis using assms(2) True by (simp add: writeBlockFile_def sealed_def Let_def f e)
  next
    case False
    then show ?thesis using assms by (simp add: writeBlockFile_def json_block_id Let_def f)
  qed
qed

lemma saveManifest_ok:
  "\<exists>u. saveManifest no_faults now st dk = (Inr (), st\<lparr>mf_UpdatedAt := u\<rparr>, dk\<lparr>dk_manifest := Some (Json (st\<lparr>mf_UpdatedAt := u\<rparr>))\<rparr>)"
  by (auto simp: saveManifest_def Let_def no_faults_def)

lemma rollback_loop_ok:
  "dk_blocks (rollback_loop no_faults h height dk) = (\<lambda>x. if height < x \<and> x \<le> h then None else dk_blocks dk x)
   \<and> dk_manifest (rollback_loop no_faults h height dk) = dk_manifest dk"
proof (induction no_faults h height dk rule: rollback_loop.induct)
  case (1 h height dk)
  show ?case
  proof (cases "height < h")
    case False
    then have "\<not> (height < x \<and> x \<le> h)" for x by auto
    then have "(\<lambda>x. if height < x \<and> x \<le> h then None else dk_blocks dk x) = dk_blocks dk"
      by (intro ext) auto
    with False show ?thesis by (simp add: rollback_loop.simps [of no_faults h])
  next
    case True
    have "x \<le> h - 1 \<longleftrightarrow> x \<le> h \<and> x \<noteq> h" for x
    proof -
      have "h \<noteq> 0" using True by auto
      then have "unat (h - 1) = unat h - 1" "0 < unat h" by (simp_all add: unat_minus_one unat_gt_0)
      then show ?thesis by (simp add: word_le_nat_alt word_unat_eq_iff) linarith
    qed
    with True 1 show ?thesis
      by (subst (1 2) rollback_loop.simps) (auto simp: no_faults_def fun_eq_iff)
  qed
qed

lemma files_hold_upd:
  assumes "files_hold dk bs" "length bs < max_cap" "unat (bh_Height (blk_Header b)) = length bs"
  shows "files_hold (dk\<lparr>dk_blocks := (dk_blocks dk)(bh_Height (blk_Header b) \<mapsto> Json b)\<rparr>) (bs @ [b])"
proof -
  have h: "bh_Height (blk_Header b) = of_nat (length bs)" using assms(3) by (metis of_nat_unat ucast_id)
  have "of_nat i \<noteq> (of_nat (length bs) :: uint64)" if "i < length bs" for i
    using that assms(2) unat_height [of i] unat_height [of "length bs"] by (metis less_imp_le less_irrefl order.strict_trans)
  with assms(1) show ?thesis by (auto simp: files_hold_def h nth_append less_Suc_eq)
qed

lemma write_added_ok:
  assumes "files_hold dk bs" "length (bs @ ad) \<le> max_cap" "ad \<noteq> []"
    and "\<forall>i < length ad. unat (bh_Height (blk_Header (ad ! i))) = length bs + i"
    and "\<forall>b \<in> set ad. utf8_block b \<and> sealed sha b"
  shows "\<exists>dk'. write_added no_faults sha (map Some ad) (st, dk) = (Inr (), st\<lparr>mf_TipHeight := of_nat (length (bs @ ad) - 1),
       mf_TipHash := blk_Hash (last ad)\<rparr>, dk') \<and> files_hold dk' (bs @ ad)"
  using assms
proof (induction ad arbitrary: dk bs st)
  case (Cons b ad)
  have b: "utf8_block b" "sealed sha b" "unat (bh_Height (blk_Header b)) = length bs"
    using Cons.prems(4,5) by auto
  have h: "bh_Height (blk_Header b) = of_nat (length bs)" using b(3) by (metis of_nat_unat ucast_id)
  let ?dk = "dk\<lparr>dk_blocks := (dk_blocks dk)(bh_Height (blk_Header b) \<mapsto> Json b)\<rparr>"
  let ?st = "st\<lparr>mf_TipHeight := bh_Height (blk_Header b), mf_TipHash := blk_Hash b\<rparr>"
  have step: "write_added no_faults sha (map Some (b # ad)) (st, dk) = write_added no_faults sha (map Some ad) (?st, ?dk)"
    using writeBlockFile_ok [OF b(1,2)] by simp
  have f: "files_hold ?dk (bs @ [b])" using files_hold_upd [OF Cons.prems(1) _ b(3)] Cons.prems(2) by simp
  show ?case
  proof (cases "ad = []")
    case True
    then show ?thesis unfolding step using f h by simp
  next
    case False
    have "\<forall>i < length ad. unat (bh_Height (blk_Header (ad ! i))) = length (bs @ [b]) + i"
      using Cons.prems(4) by (metis One_nat_def Suc_less_eq add_Suc_right append_Nil2 length_Cons length_append list.size(3)
          list.size(4) nth_Cons_Suc plus_nat.simps(2))
    from Cons.IH [OF f _ False this, of ?st] Cons.prems(2,5) False show ?thesis unfolding step by auto
  qed
qed simp

section \<open>Tip changes\<close>

lemma apply_extension:
  assumes "holds (st, dk) bs" "length bs < max_cap" "BlockByHash chain tip = Some b" "blk_Hash b = tip"
    and "unat (bh_Height (blk_Header b)) = length bs" "utf8_block b" "sealed sha b"
  shows "\<exists>sd'. ApplyTipChange no_faults sha now chain tip None (st, dk) = (Inr (), fst sd', snd sd') \<and> holds sd' (bs @ [b])"
proof -
  have h: "bh_Height (blk_Header b) = of_nat (length bs)" using assms(5) by (metis of_nat_unat ucast_id)
  have ne: "bs \<noteq> []" "mf_TipHeight st = of_nat (length bs - 1)" using assms(1) by (simp_all add: holds_def)
  then obtain n where n: "length bs = Suc n" "mf_TipHeight st = of_nat n" by (cases bs) auto
  then have "unat (mf_TipHeight st) = n" using assms(2) by (simp add: unat_height)
  then have new: "\<not> bh_Height (blk_Header b) \<le> mf_TipHeight st"
    using assms(5) n(1) by (simp add: word_le_nat_alt)
  let ?dk = "dk\<lparr>dk_blocks := (dk_blocks dk)(bh_Height (blk_Header b) \<mapsto> Json b)\<rparr>"
  let ?st = "st\<lparr>mf_TipHeight := bh_Height (blk_Header b), mf_TipHash := tip\<rparr>"
  obtain u where s: "saveManifest no_faults now ?st ?dk
      = (Inr (), ?st\<lparr>mf_UpdatedAt := u\<rparr>, ?dk\<lparr>dk_manifest := Some (Json (?st\<lparr>mf_UpdatedAt := u\<rparr>))\<rparr>)"
    using saveManifest_ok by blast
  let ?sd = "(?st\<lparr>mf_UpdatedAt := u\<rparr>, ?dk\<lparr>dk_manifest := Some (Json (?st\<lparr>mf_UpdatedAt := u\<rparr>))\<rparr>)"
  have "ApplyTipChange no_faults sha now chain tip None (st, dk) = (Inr (), fst ?sd, snd ?sd)"
    using new assms(3) writeBlockFile_ok [OF assms(6,7), of dk] s by (simp add: ApplyTipChange_def)
  moreover have "files_hold ?dk (bs @ [b])"
    using files_hold_upd [OF _ assms(2,5)] assms(1) by (simp add: holds_def)
  then have "holds ?sd (bs @ [b])" using assms(2,4) h by (simp add: holds_def files_hold_def)
  ultimately show ?thesis by blast
qed

lemma apply_reorg:
  assumes "holds (st, dk) (bs @ rm)" "bs \<noteq> []" "length (bs @ ad) \<le> max_cap" "ad \<noteq> []"
    and anc: "BlockByHash chain (rg_CommonAncestor r) = Some a" "unat (bh_Height (blk_Header a)) = length bs - 1"
    and ad: "rg_Added r = map Some ad" "\<forall>i < length ad. unat (bh_Height (blk_Header (ad ! i))) = length bs + i"
      "\<forall>b \<in> set ad. utf8_block b \<and> sealed sha b"
  shows "\<exists>sd'. ApplyTipChange no_faults sha now chain tip (Some r) (st, dk) = (Inr (), fst sd', snd sd') \<and> holds sd' (bs @ ad)"
proof -
  let ?h = "bh_Height (blk_Header a)"
  have h: "?h = of_nat (length bs - 1)" using anc(2) by (metis of_nat_unat ucast_id)
  obtain n where n: "length bs = Suc n" using assms(2) by (cases bs) auto
  have small: "length (bs @ rm) \<le> max_cap" and f: "files_hold dk (bs @ rm)" using assms(1) by (simp_all add: holds_def)
  define dk1 where "dk1 = rollback_loop no_faults (mf_TipHeight st) ?h dk"
  have "files_hold dk1 bs"
    unfolding files_hold_def
  proof (intro allI impI)
    fix i assume i: "i < length bs"
    then have "dk_blocks dk (of_nat i) = Some (Json (bs ! i))" using f by (auto simp: files_hold_def nth_append)
    moreover have "unat (of_nat i :: uint64) = i" using i small by (simp add: unat_height)
    then have "\<not> ?h < of_nat i" using i anc(2) by (simp add: word_less_nat_alt)
    ultimately show "dk_blocks dk1 (of_nat i) = Some (Json (bs ! i))" by (simp add: dk1_def rollback_loop_ok)
  qed
  note f1 = this
  have last: "dk_blocks dk1 ?h = Some (Json (last bs))"
    using f1 n by (simp add: files_hold_def h last_conv_nth assms(2))
  define st1 where "st1 = st\<lparr>mf_TipHeight := ?h, mf_TipHash := blk_Hash (last bs)\<rparr>"
  have rb: "rollbackTo no_faults ?h (st, dk) = (st1, dk1)"
    using last by (simp add: rollbackTo_def Let_def dk1_def st1_def)
  from write_added_ok [OF f1 assms(3,4) ad(2,3), of st1] obtain dk2 where
    w: "write_added no_faults sha (map Some ad) (st1, dk1) = (Inr (), st1\<lparr>mf_TipHeight := of_nat (length (bs @ ad) - 1),
       mf_TipHash := blk_Hash (last ad)\<rparr>, dk2)" and f2: "files_hold dk2 (bs @ ad)" by blast
  let ?st = "st1\<lparr>mf_TipHeight := of_nat (length (bs @ ad) - 1), mf_TipHash := blk_Hash (last ad)\<rparr>"
  obtain u where s: "saveManifest no_faults now ?st dk2
      = (Inr (), ?st\<lparr>mf_UpdatedAt := u\<rparr>, dk2\<lparr>dk_manifest := Some (Json (?st\<lparr>mf_UpdatedAt := u\<rparr>))\<rparr>)"
    using saveManifest_ok by blast
  let ?sd = "(?st\<lparr>mf_UpdatedAt := u\<rparr>, dk2\<lparr>dk_manifest := Some (Json (?st\<lparr>mf_UpdatedAt := u\<rparr>))\<rparr>)"
  have "ApplyTipChange no_faults sha now chain tip (Some r) (st, dk) = (Inr (), fst ?sd, snd ?sd)"
    using anc(1) rb w s ad(1) by (simp add: ApplyTipChange_def)
  moreover have "holds ?sd (bs @ ad)" using f2 assms(2-4) by (simp add: holds_def files_hold_def)
  ultimately show ?thesis by blast
qed

end
