(* ===== verification/StoreProps.thy ===== *)
theory StoreProps
  imports StoreInv Demo
begin

text \<open>
  The properties of the store: it follows the main chain, a restart restores it, and what a
  missing block file does.
\<close>

section \<open>A disk for the witnesses\<close>

definition demo_disk :: "block list \<Rightarrow> store \<times> disk" where
  "demo_disk bs = (let m = \<lparr>mf_Version = 1, mf_Difficulty = 0, mf_TipHeight = of_nat (length bs - 1),
       mf_TipHash = blk_Hash (last bs), mf_UpdatedAt = 0\<rparr>
     in (m, \<lparr>dk_blocks = \<lambda>h. if unat h < length bs then Some (Json (bs ! unat h)) else None,
             dk_manifest = Some (Json m)\<rparr>))"

lemma demo_disk_holds: "bs \<noteq> [] \<Longrightarrow> length bs \<le> max_cap \<Longrightarrow> holds (demo_disk bs) bs"
  by (simp add: holds_def demo_disk_def Let_def files_hold_def unat_height)

lemma demo_utf8: "utf8_block (demo_block e p t n)"
  by (simp add: utf8_block_def) (simp add: demo_block_def ascii_valid)

lemma demo_tip2: "TipHash demo_chain2 = 2" "bc_difficulty demo_chain2 = 0"
  by (simp_all add: TipHash_def demo_chain2_def)

lemma demo_main_blocks:
  "main_blocks demo_chain = [demo_genesis]" "main_blocks demo_chain2 = [demo_genesis, demo_block 1 1 0 2]"
  by (simp_all add: main_blocks_def path_to_def main_path_def demo_chain_def demo_chain2_def go_get_def)

section \<open>Following the chain\<close>

lemma stored_sealed:
  "chain_inv sha bc \<Longrightarrow> genesis_ok sha bc \<Longrightarrow> bc_blocks bc h = Some b \<Longrightarrow> sealed sha b"
  using chain_inv_stored [of sha bc h b]
  by (cases "h = bc_genesis bc") (auto simp: sealed_def stored_ok_def linked_def genesis_ok_def)

lemma main_blocks_nth:
  assumes "chain_inv sha bc" "genesis_ok sha bc" "i < length (main_blocks bc)"
  shows "bc_blocks bc (blk_Hash (main_blocks bc ! i)) = Some (main_blocks bc ! i)"
    "unat (bh_Height (blk_Header (main_blocks bc ! i))) = i" "sealed sha (main_blocks bc ! i)"
proof -
  obtain tb where tb: "bc_blocks bc (bc_tip bc) = Some tb" using chain_inv_tip [OF assms(1)] by blast
  note n = path_to_nth [OF assms(1) tb, folded main_blocks_def]
  show 1: "bc_blocks bc (blk_Hash (main_blocks bc ! i)) = Some (main_blocks bc ! i)"
    and "unat (bh_Height (blk_Header (main_blocks bc ! i))) = i"
    using n [of i] assms(3) by (simp_all add: main_blocks_def)
  show "sealed sha (main_blocks bc ! i)" by (rule stored_sealed [OF assms(1,2) 1])
qed

lemma last_main_blocks:
  assumes "chain_inv sha bc"
  shows "main_blocks bc \<noteq> []" "blk_Hash (last (main_blocks bc)) = bc_tip bc"
    "bc_blocks bc (bc_tip bc) = Some (last (main_blocks bc))"
proof -
  obtain tb where tb: "bc_blocks bc (bc_tip bc) = Some tb" using chain_inv_tip [OF assms] by blast
  show "main_blocks bc \<noteq> []" by (simp add: main_blocks_def path_to_def)
  then have "last (main_blocks bc) = tb" by (simp add: main_blocks_def path_to_def last_map tb)
  with tb show "bc_blocks bc (bc_tip bc) = Some (last (main_blocks bc))" by simp
  with chain_inv_stored [OF assms this] show "blk_Hash (last (main_blocks bc)) = bc_tip bc" by (simp add: stored_ok_def)
qed

text \<open>A new tip, reported as \<^verbatim>\<open>AddBlock\<close> reports it, brings the disk to the new main chain.\<close>

lemma store_step:
  assumes h: "holds (st, dk) (main_blocks bc)" and inv: "chain_inv sha bc" "chain_inv sha bc'" "genesis_ok sha bc'"
    and o: "add_outcome sha bc (Some b) res None bc'" "ar_IsNewTip res"
    and utf8: "\<forall>x \<in> set (main_blocks bc'). utf8_block x" and cap: "length (main_blocks bc') \<le> max_cap"
  shows "\<exists>sd'. ApplyTipChange no_faults sha now bc' (bc_tip bc') (ar_Reorg res) (st, dk) = (Inr (), fst sd', snd sd')
     \<and> holds sd' (main_blocks bc')"
proof -
  from new_tip_parts [OF o(1) inv(1,2) o(2)] obtain pre a rm ad where
    p: "main_blocks bc = pre @ [a] @ rm" "main_blocks bc' = pre @ [a] @ ad" "ad \<noteq> []"
      "bc_blocks bc' (blk_Hash a) = Some a"
    and r: "ar_Reorg res = (if rm = [] then None else Some \<lparr>rg_CommonAncestor = blk_Hash a,
        rg_Removed = map Some rm, rg_Added = map Some ad\<rparr>)" and one: "rm = [] \<Longrightarrow> length ad = 1" by blast
  note nth = main_blocks_nth [OF inv(2,3)]
  have hts: "\<forall>i < length ad. unat (bh_Height (blk_Header (ad ! i))) = length (pre @ [a]) + i"
  proof (intro allI impI)
    fix i assume "i < length ad"
    then show "unat (bh_Height (blk_Header (ad ! i))) = length (pre @ [a]) + i"
      using nth(2) [of "length (pre @ [a]) + i"] unfolding p(2) by (simp add: nth_append)
  qed
  have "sealed sha x" if "x \<in> set (main_blocks bc')" for x
    using that nth(3) by (metis in_set_conv_nth)
  then have ad: "\<forall>x \<in> set ad. utf8_block x \<and> sealed sha x" using utf8 p(2) by simp
  show ?thesis
  proof (cases "rm = []")
    case True
    with one obtain x where x: "ad = [x]" by (auto simp: length_Suc_conv)
    have "x = last (main_blocks bc')" using x p(2) by simp
    then have tip: "BlockByHash bc' (bc_tip bc') = Some x" "blk_Hash x = bc_tip bc'"
      using last_main_blocks [OF inv(2)] by (simp_all add: BlockByHash_def)
    have "length (main_blocks bc) < max_cap" "unat (bh_Height (blk_Header x)) = length (main_blocks bc)"
      using cap hts p True x by auto
    from apply_extension [OF h this(1) tip this(2), of sha now] ad x show ?thesis
      using p True r by simp
  next
    case False
    have anc: "unat (bh_Height (blk_Header a)) = length (pre @ [a]) - 1"
      using nth(2) [of "length pre"] p(2) by (simp add: nth_append)
    let ?r = "\<lparr>rg_CommonAncestor = blk_Hash a, rg_Removed = map Some rm, rg_Added = map Some ad\<rparr>"
    have "holds (st, dk) ((pre @ [a]) @ rm)" using h p(1) by simp
    from apply_reorg [OF this _ _ p(3), where r = ?r and a = a and chain = bc' and sha = sha and now = now
        and tip = "bc_tip bc'"] p(2,4) cap anc hts ad show ?thesis
      using r False by (simp add: BlockByHash_def)
  qed
qed

text \<open>
  C13: The disk follows the main chain as long as no orphan is connected. If it holds the main chain, and a
  block becomes the tip for which no orphan waits, then persisting the reported change (one more file, or the
  files above the common ancestor replaced) succeeds and the disk holds the new main chain, file for file,
  with the manifest pointing at its tip. Besides, no file operation fails, the strings are valid UTF-8 and
  the chain is not longer than a slice can be. The first condition cannot be dropped: where an orphan is
  connected the files between are missing (the lemma \<open>skipped_block_cuts_chain\<close>).
\<close>
theorem store_follows_chain:
  assumes "chain_reachable sha ord bc" and "fair_ranging ord"
    and "AddBlock sha ord (Some b) bc = Some (res, None, bc')" and "ar_IsNewTip res"
    and "\<forall>(oh, ob) \<in> set (bc_orphans bc). bh_PrevHash (blk_Header ob) \<noteq> block_key sha b"
    and "holds (st, dk) (main_blocks bc)"
    and "\<forall>x \<in> set (main_blocks bc'). utf8_block x" and "length (main_blocks bc') \<le> max_cap"
  shows "\<exists>st' dk'. ApplyTipChange no_faults sha now bc' (TipHash bc') (ar_Reorg res) (st, dk) = (Inr (), st', dk')
     \<and> holds (st', dk') (main_blocks bc')
     \<and> mf_TipHash st' = TipHash bc' \<and> unat (mf_TipHeight st') = unat (TipHeight bc')"
proof -
  have inv: "chain_inv sha bc" "orphans_waiting bc" using chain_reachable_inv [OF assms(1,2)] by auto
  have r': "chain_reachable sha ord bc'" using assms(1,3) by (rule chain_reachable.add)
  have inv': "chain_inv sha bc'" "genesis_ok sha bc'"
    using chain_reachable_inv [OF r' assms(2)] chain_reachable_genesis [OF r' assms(2)] by auto
  have o: "add_outcome sha bc (Some b) res None bc'" by (rule AddBlock_no_child [OF inv assms(2,3,5)])
  from store_step [OF assms(6) inv(1) inv' o assms(4,7,8), of now] obtain st' dk' where
    s: "ApplyTipChange no_faults sha now bc' (bc_tip bc') (ar_Reorg res) (st, dk) = (Inr (), st', dk')"
      "holds (st', dk') (main_blocks bc')" by auto
  have "blk_Hash (last (main_blocks bc')) = bc_tip bc'" using last_main_blocks [OF inv'(1)] by simp
  moreover obtain tb where tb: "bc_blocks bc' (bc_tip bc') = Some tb" "TipHeight bc' = bh_Height (blk_Header tb)"
    using tip_block [OF inv'(1)] by blast
  have "length (main_blocks bc') - 1 = unat (TipHeight bc')"
    using length_main_path [OF inv'(1) tb(1)] tb(2) by (simp add: main_blocks_def)
  ultimately show ?thesis using s assms(8) by (auto simp: TipHash_def holds_def unat_height)
qed

theorem store_follows_chain_witness:
  "\<exists>st' dk'. ApplyTipChange no_faults demo_digest 7 demo_chain2 2 None (demo_disk [demo_genesis]) = (Inr (), st', dk')
     \<and> holds (st', dk') [demo_genesis, demo_block 1 1 0 2]"
proof -
  obtain st dk where d: "demo_disk [demo_genesis] = (st, dk)" by fastforce
  have h: "holds (st, dk) (main_blocks demo_chain)"
    using demo_disk_holds [of "[demo_genesis]"] d by (simp add: demo_main_blocks max_cap_def)
  have "\<exists>st' dk'. ApplyTipChange no_faults demo_digest 7 demo_chain2 (TipHash demo_chain2) (ar_Reorg
        \<lparr>ar_Added = True, ar_IsNewTip = True, ar_OldTip = 1, ar_NewTip = 2, ar_Reorg = None\<rparr>) (st, dk) = (Inr (), st', dk')
     \<and> holds (st', dk') (main_blocks demo_chain2)
     \<and> mf_TipHash st' = TipHash demo_chain2 \<and> unat (mf_TipHeight st') = unat (TipHeight demo_chain2)"
    by (rule store_follows_chain [OF demo_chain_reachable fair_ranging_id demo_add2 _ _ h])
      (simp_all add: demo_main_blocks demo_utf8 demo_genesis_def max_cap_def demo_chain_def)
  then show ?thesis using d by (auto simp: demo_main_blocks demo_tip2)
qed

section \<open>Restart\<close>

text \<open>A chain that was made by adding the given blocks one after the other, and nothing else.\<close>

definition replayed :: "digest \<Rightarrow> blockchain \<Rightarrow> block list \<Rightarrow> blockchain \<Rightarrow> bool" where
  "replayed sha bc bs bc2 \<longleftrightarrow> chain_inv sha bc2 \<and> bc_orphans bc2 = [] \<and> bc_difficulty bc2 = bc_difficulty bc
     \<and> main_blocks bc2 = bs \<and> dom (bc_blocks bc2) = blk_Hash ` set bs"

lemma main_blocks_link:
  assumes inv: "chain_inv sha bc" and i: "Suc i < length (main_blocks bc)"
  shows "linked sha bc (blk_Hash (main_blocks bc ! Suc i)) (main_blocks bc ! Suc i)"
    "bh_PrevHash (blk_Header (main_blocks bc ! Suc i)) = blk_Hash (main_blocks bc ! i)"
    "bc_blocks bc (blk_Hash (main_blocks bc ! i)) = Some (main_blocks bc ! i)"
proof -
  obtain tb where tb: "bc_blocks bc (bc_tip bc) = Some tb" using chain_inv_tip [OF inv] by blast
  note n = path_to_nth [OF inv tb, folded main_blocks_def]
  have l: "Suc i < length (main_path bc (bc_tip bc))" "i < length (main_path bc (bc_tip bc))"
    using i by (simp_all add: main_blocks_def)
  show "linked sha bc (blk_Hash (main_blocks bc ! Suc i)) (main_blocks bc ! Suc i)"
    "bh_PrevHash (blk_Header (main_blocks bc ! Suc i)) = blk_Hash (main_blocks bc ! i)"
    "bc_blocks bc (blk_Hash (main_blocks bc ! i)) = Some (main_blocks bc ! i)"
    using main_path_link [OF inv tb l(1) n(1) [OF l(1)]] n(1,3) [OF l(1)] n(1,3) [OF l(2)] by simp_all
qed

lemma replay_step:
  assumes inv: "chain_inv sha bc" "genesis_ok sha bc" and fair: "fair_ranging ord"
    and k: "k < length (main_blocks bc)" "k \<noteq> 0" and r: "replayed sha bc (take k (main_blocks bc)) bc2"
  shows "\<exists>res bc3. AddBlock sha ord (Some (main_blocks bc ! k)) bc2 = Some (res, None, bc3)
     \<and> replayed sha bc (take (Suc k) (main_blocks bc)) bc3"
proof -
  let ?m = "main_blocks bc" let ?b = "?m ! k" let ?p = "?m ! (k - 1)"
  obtain i where i: "k = Suc i" using k(2) by (cases k) auto
  note L = main_blocks_link [OF inv(1), of i, folded i, OF k(1)]
  have inv2: "chain_inv sha bc2" and o2: "bc_orphans bc2 = []" and d2: "bc_difficulty bc2 = bc_difficulty bc"
    and m2: "main_blocks bc2 = take k ?m" and dom2: "dom (bc_blocks bc2) = blk_Hash ` set (take k ?m)"
    using r by (simp_all add: replayed_def)
  have key: "block_key sha ?b = blk_Hash ?b"
    using main_blocks_nth(3) [OF inv k(1)] by (simp add: block_key_def sealed_def)
  have lst: "last (take k ?m) = ?p" using k(1) i by (simp add: take_Suc_conv_app_nth)
  have tip2: "bc_tip bc2 = blk_Hash ?p" "bc_blocks bc2 (bc_tip bc2) = Some ?p"
    using last_main_blocks(2,3) [OF inv2] m2 lst by simp_all
  have hts: "unat (bh_Height (blk_Header ?b)) = k" "unat (bh_Height (blk_Header ?p)) = i"
    using main_blocks_nth(2) [OF inv k(1)] main_blocks_nth(2) [OF inv, of i] k(1) i by simp_all
  have "bh_Height (blk_Header ?b) = bh_Height (blk_Header ?p) + 1"
    using hts i by (metis add.commute of_nat_Suc of_nat_unat ucast_id)
  then have val: "validateBlockUnlocked sha bc2 ?b ?p (block_key sha ?b) = None"
    using L i tip2(1) d2 unfolding validate_None_iff key linked_def by auto
  have nz: "bh_Height (blk_Header ?b) \<noteq> 0" using hts(1) k(2) by auto
  have new: "bc_blocks bc2 (block_key sha ?b) = None"
  proof (rule ccontr)
    assume "bc_blocks bc2 (block_key sha ?b) \<noteq> None"
    then have "blk_Hash ?b \<in> dom (bc_blocks bc2)" using key by auto
    then have "blk_Hash ?b \<in> blk_Hash ` set (take k ?m)" using dom2 by simp
    then obtain j where j: "j < k" "blk_Hash ?b = blk_Hash (?m ! j)"
      using k(1) by (auto simp: in_set_conv_nth)
    have "?b = ?m ! j"
      using main_blocks_nth(1) [OF inv k(1)] main_blocks_nth(1) [OF inv less_trans [OF j(1) k(1)]] j(2)
      by (metis option.inject)
    then have "k = j" using main_blocks_nth(2) [OF inv less_trans [OF j(1) k(1)]] hts(1) by metis
    with j(1) show False by simp
  qed
  have prev: "bh_PrevHash (blk_Header ?b) = bc_tip bc2" using L(2) i tip2(1) by simp
  have wait: "orphans_waiting bc2" using o2 by (simp add: orphans_waiting_def)
  have none: "\<forall>(oh, ob) \<in> set (bc_orphans bc2). bh_PrevHash (blk_Header ob) \<noteq> block_key sha ?b" using o2 by simp
  let ?res = "\<lparr>ar_Added = True, ar_IsNewTip = True, ar_OldTip = bc_tip bc2, ar_NewTip = blk_Hash ?b, ar_Reorg = None\<rparr>"
  obtain bc3 where A: "AddBlock sha ord (Some ?b) bc2 = Some (?res, None, bc3)" "bc_tip bc3 = blk_Hash ?b"
      "bc_blocks bc3 = (bc_blocks bc2)(blk_Hash ?b \<mapsto> ?b\<lparr>blk_Hash := blk_Hash ?b\<rparr>)" "chain_inv sha bc3"
      "extends bc2 bc3" "bc_orphans bc3 = bc_orphans bc2"
      "main_path bc3 (bc_tip bc3) = main_path bc3 (bc_tip bc2) @ [blk_Hash ?b]"
    by (rule AddBlock_on_tip [OF inv2 wait fair prev tip2(2) val nz new none, unfolded key])
  have o3: "bc_orphans bc3 = []" using A(6) o2 by simp
  have "main_blocks bc3 = path_to bc3 (bc_tip bc2) @ [?b]"
    using A(3,7) by (simp add: main_blocks_def path_to_def)
  then have "main_blocks bc3 = take k ?m @ [?b]"
    using extends_path_to [OF A(5) inv2 A(4) tip2(2)] m2 by (simp add: main_blocks_def)
  then have m3: "main_blocks bc3 = take (Suc k) ?m" using k(1) by (simp add: take_Suc_conv_app_nth)
  have "dom (bc_blocks bc3) = blk_Hash ` set (take (Suc k) ?m)"
    using A(3) dom2 k(1) by (simp add: take_Suc_conv_app_nth)
  moreover have "bc_difficulty bc3 = bc_difficulty bc" using A(5) d2 by (simp add: extends_def)
  ultimately show ?thesis using A(1,4) o3 m3 by (auto simp: replayed_def)
qed

lemma readd_main:
  assumes inv: "chain_inv sha bc" "genesis_ok sha bc" and fair: "fair_ranging ord"
    and r: "replayed sha bc (take k (main_blocks bc)) bc2" and k: "k \<noteq> 0" "bs = drop k (take n (main_blocks bc))" "k \<le> n"
  shows "\<exists>bc3. readd sha ord bs bc2 = Some (Inr bc3) \<and> replayed sha bc (take n (main_blocks bc)) bc3"
  using r k
proof (induction bs arbitrary: k bc2)
  case Nil
  then have "length (main_blocks bc) \<le> k \<or> n = k" by (auto simp: min_def split: if_splits)
  then have "take n (main_blocks bc) = take k (main_blocks bc)" using Nil.prems(4) by auto
  then show ?case using Nil.prems(1) by simp
next
  case (Cons b bs)
  have "k < length (take n (main_blocks bc))" using Cons.prems(3) by (metis drop_eq_Nil2 linorder_not_le list.distinct(1))
  then have l: "k < length (main_blocks bc)" "k < n" by simp_all
  have "b # bs = main_blocks bc ! k # drop (Suc k) (take n (main_blocks bc))"
    using Cons.prems(3) Cons_nth_drop_Suc [of k "take n (main_blocks bc)"] l by simp
  then have b: "b = main_blocks bc ! k" "bs = drop (Suc k) (take n (main_blocks bc))" by simp_all
  from replay_step [OF inv fair l(1) Cons.prems(2,1)] obtain res bc3 where
    "AddBlock sha ord (Some b) bc2 = Some (res, None, bc3)" "replayed sha bc (take (Suc k) (main_blocks bc)) bc3"
    unfolding b(1) by blast
  with Cons.IH [OF this(2) _ b(2)] l(2) show ?case by simp
qed

lemma restore_prefix:
  assumes inv: "chain_inv sha bc" "genesis_ok sha bc" and fair: "fair_ranging ord" and n: "n \<noteq> 0"
  shows "\<exists>bc2. restore_chain sha ord (bc_difficulty bc) (take n (main_blocks bc)) = Some (Inr bc2)
     \<and> replayed sha bc (take n (main_blocks bc)) bc2"
proof -
  obtain tb where tb: "bc_blocks bc (bc_tip bc) = Some tb" using chain_inv_tip [OF inv(1)] by blast
  obtain g' rest where m: "main_blocks bc = g' # rest" using last_main_blocks(1) [OF inv(1)] by (cases "main_blocks bc") auto
  have "main_path bc (bc_tip bc) ! 0 = bc_genesis bc" by (rule main_path_0 [OF inv(1) tb])
  moreover have "main_path bc (bc_tip bc) ! 0 = blk_Hash g'"
    using path_to_nth(3) [OF inv(1) tb, of 0] m by (simp add: main_blocks_def)
  ultimately have g': "bc_blocks bc (bc_genesis bc) = Some g'" "blk_Hash g' = bc_genesis bc"
    using main_blocks_nth(1) [OF inv, of 0] m by simp_all
  from NewBlockchain_again [OF inv(2) g'(1) refl] obtain bc0 where
    n0: "NewBlockchain sha (Some g') (bc_difficulty bc) = Inr bc0" "bc_tip bc0 = bc_genesis bc"
      "bc_blocks bc0 = [bc_genesis bc \<mapsto> g']" "bc_orphans bc0 = []" "bc_difficulty bc0 = bc_difficulty bc" by metis
  have h0: "bh_Height (blk_Header g') = 0" using chain_inv_genesis [OF inv(1)] g'(1) by simp
  have inv0: "chain_inv sha bc0" using NewBlockchain_inv [OF n0(1) h0] by simp
  have "length (main_blocks bc0) = 1"
    using length_main_path [OF inv0, of "bc_tip bc0" g'] n0(2,3) h0 by (simp add: main_blocks_def)
  then have "main_blocks bc0 = [g']"
    using last_main_blocks(3) [OF inv0] n0(2,3) by (cases "main_blocks bc0") (auto split: if_splits)
  then have "replayed sha bc (take 1 (main_blocks bc)) bc0"
    using inv0 n0(3-5) g'(2) m by (simp add: replayed_def)
  from readd_main [OF inv fair this _ refl, of n] n m obtain bc2 where
    "readd sha ord (drop 1 (take n (main_blocks bc))) bc0 = Some (Inr bc2)" "replayed sha bc (take n (main_blocks bc)) bc2" by auto
  moreover obtain k where "n = Suc k" using n by (cases n) auto
  ultimately show ?thesis by (simp add: restore_chain_def m n0(1))
qed

lemma replayed_same:
  assumes "chain_inv sha bc" "genesis_ok sha bc" "replayed sha bc (main_blocks bc) bc2"
  shows "bc_tip bc2 = bc_tip bc" "TipHeight bc2 = TipHeight bc" "TipCumWork bc2 = TipCumWork bc"
    "mainChainHashesUnlocked bc2 = mainChainHashesUnlocked bc"
proof -
  have inv2: "chain_inv sha bc2" and m: "main_blocks bc2 = main_blocks bc" and d: "bc_difficulty bc2 = bc_difficulty bc"
    using assms(3) by (simp_all add: replayed_def)
  show t: "bc_tip bc2 = bc_tip bc" using last_main_blocks(2) [OF inv2] last_main_blocks(2) [OF assms(1)] m by simp
  let ?b = "last (main_blocks bc)"
  have b: "bc_blocks bc (bc_tip bc) = Some ?b" "bc_blocks bc2 (bc_tip bc2) = Some ?b"
    using last_main_blocks(3) [OF inv2] last_main_blocks(3) [OF assms(1)] m by simp_all
  show "TipHeight bc2 = TipHeight bc"
    using chain_inv_ht [OF inv2 b(2)] chain_inv_ht [OF assms(1) b(1)] by (simp add: TipHeight_def)
  show "TipCumWork bc2 = TipCumWork bc"
    using chain_inv_stored [OF inv2 b(2)] chain_inv_stored [OF assms(1) b(1)] d by (simp add: stored_ok_def TipCumWork_def)
  have path: "main_path c (bc_tip c) = map blk_Hash (main_blocks c)" if ci: "chain_inv sha c" for c
  proof (rule nth_equalityI)
    obtain tb where tb: "bc_blocks c (bc_tip c) = Some tb" using chain_inv_tip [OF ci] by blast
    show "length (main_path c (bc_tip c)) = length (map blk_Hash (main_blocks c))" by (simp add: main_blocks_def)
    show "main_path c (bc_tip c) ! i = map blk_Hash (main_blocks c) ! i" if "i < length (main_path c (bc_tip c))" for i
      using path_to_nth(3) [OF ci tb that] that by (simp add: main_blocks_def)
  qed
  show "mainChainHashesUnlocked bc2 = mainChainHashesUnlocked bc"
    using main_chain_eq [OF inv2] main_chain_eq [OF assms(1)] path [OF inv2] path [OF assms(1)] m t
    by (cases "bc_tip bc = 0") (simp_all add: mainChainHashesUnlocked_def)
qed

text \<open>
  C12: A restart restores the chain. If the disk holds the main chain, opening it with the same
  difficulty, loading it and adding its blocks again succeeds, leaves the disk as it was, and gives
  a chain with the same tip, height, work and main chain.
\<close>
theorem restart_restores_tip:
  assumes "chain_reachable sha ord bc" and "fair_ranging ord"
    and "holds (st, dk) (main_blocks bc)" and "mf_Difficulty st = bc_difficulty bc"
  shows "\<exists>bc2. Open no_faults sha now (bc_difficulty bc) g dk = (Inr st, dk)
     \<and> LoadMainChain no_faults now (st, dk) = Some (Inr (main_blocks bc), st, dk)
     \<and> restore_chain sha ord (bc_difficulty bc) (main_blocks bc) = Some (Inr bc2)
     \<and> TipHash bc2 = TipHash bc \<and> TipHeight bc2 = TipHeight bc \<and> TipCumWork bc2 = TipCumWork bc
     \<and> mainChainHashesUnlocked bc2 = mainChainHashesUnlocked bc"
proof -
  have inv: "chain_inv sha bc" "genesis_ok sha bc"
    using chain_reachable_inv [OF assms(1,2)] chain_reachable_genesis [OF assms(1,2)] by auto
  have "length (main_blocks bc) \<noteq> 0" using last_main_blocks(1) [OF inv(1)] by simp
  from restore_prefix [OF inv assms(2) this] obtain bc2 where
    "restore_chain sha ord (bc_difficulty bc) (main_blocks bc) = Some (Inr bc2)" and r: "replayed sha bc (main_blocks bc) bc2" by auto
  moreover have "Open no_faults sha now (bc_difficulty bc) g dk = (Inr st, dk)"
    using assms(3,4) by (simp add: Open_def loadManifest_def holds_def) (simp add: no_faults_def)
  ultimately show ?thesis
    using LoadMainChain_holds [OF assms(3)] replayed_same [OF inv r] by (auto simp: TipHash_def)
qed

theorem restart_restores_tip_witness:
  "\<exists>bc2. restore_chain demo_digest (\<lambda>_ xs. xs) 0 [demo_genesis, demo_block 1 1 0 2] = Some (Inr bc2) \<and> TipHash bc2 = 2"
proof -
  obtain st dk where d: "demo_disk (main_blocks demo_chain2) = (st, dk)" by fastforce
  have h: "holds (st, dk) (main_blocks demo_chain2)"
    using demo_disk_holds [of "main_blocks demo_chain2"] d by (simp add: demo_main_blocks max_cap_def)
  have "mf_Difficulty st = bc_difficulty demo_chain2" using d by (auto simp: demo_disk_def Let_def demo_chain2_def)
  from restart_restores_tip [OF demo_chain2_reachable fair_ranging_id h this, of 7 demo_genesis] show ?thesis
    by (auto simp: demo_main_blocks demo_tip2)
qed

section \<open>Gaps\<close>

text \<open>
  A tip that is more than one above the persisted one, reported as an extension (which happens
  when a block connects waiting orphans), is persisted without the blocks in between: the manifest
  names the new tip, but a restart loads only the old main chain and cuts the manifest back to it.
\<close>
lemma skipped_block_cuts_chain:
  assumes "holds (st, dk) bs" and "BlockByHash bc tip = Some b" and "utf8_block b" and "sealed sha b"
    and "length bs < unat (bh_Height (blk_Header b))" and "unat (bh_Height (blk_Header b)) < max_cap"
    and "dk_blocks dk (of_nat (length bs)) = None"
  shows "\<exists>st' dk' st'' dk''. ApplyTipChange no_faults sha now bc tip None (st, dk) = (Inr (), st', dk')
     \<and> mf_TipHeight st' = bh_Height (blk_Header b) \<and> mf_TipHash st' = tip
     \<and> LoadMainChain no_faults now' (st', dk') = Some (Inr bs, st'', dk'') \<and> holds (st'', dk'') bs"
proof -
  let ?h = "bh_Height (blk_Header b)" let ?n = "length bs"
  have ne: "bs \<noteq> []" "mf_TipHeight st = of_nat (?n - 1)" and small: "?n \<le> max_cap" and f: "files_hold dk bs"
    using assms(1) by (simp_all add: holds_def)
  then obtain n where n: "?n = Suc n" "mf_TipHeight st = of_nat n" by (cases bs) auto
  have un: "unat (of_nat ?n :: uint64) = ?n" using small by (rule unat_height)
  have "unat (mf_TipHeight st) = n" using small n by (simp add: unat_height)
  then have new: "\<not> ?h \<le> mf_TipHeight st" using assms(5) n(1) by (simp add: word_le_nat_alt)
  let ?dk = "dk\<lparr>dk_blocks := (dk_blocks dk)(?h \<mapsto> Json b)\<rparr>"
  let ?st = "st\<lparr>mf_TipHeight := ?h, mf_TipHash := tip\<rparr>"
  obtain u where s: "saveManifest no_faults now ?st ?dk
      = (Inr (), ?st\<lparr>mf_UpdatedAt := u\<rparr>, ?dk\<lparr>dk_manifest := Some (Json (?st\<lparr>mf_UpdatedAt := u\<rparr>))\<rparr>)"
    using saveManifest_ok by blast
  let ?st1 = "?st\<lparr>mf_UpdatedAt := u\<rparr>" let ?dk1 = "?dk\<lparr>dk_manifest := Some (Json ?st1)\<rparr>"
  have a: "ApplyTipChange no_faults sha now bc tip None (st, dk) = (Inr (), ?st1, ?dk1)"
    using new assms(2) writeBlockFile_ok [OF assms(3,4), of dk] s by (simp add: ApplyTipChange_def)
  have hn: "?h \<noteq> of_nat i" if "i \<le> ?n" for i
    using that assms(5) small unat_height [of i] by auto
  have files: "\<forall>i < ?n. dk_blocks ?dk1 (of_nat i) = Some (Json (bs ! i))" "dk_blocks ?dk1 (of_nat ?n) = None"
    using f hn [symmetric] assms(7) by (auto simp: files_hold_def)
  have le: "of_nat ?n \<le> mf_TipHeight ?st1" using assms(5) un by (simp add: word_le_nat_alt)
  obtain v where l: "load_loop no_faults now' 0 [] (?st1, ?dk1)
     = (let st' = ?st1\<lparr>mf_TipHeight := of_nat (?n - 1), mf_TipHash := blk_Hash (last bs), mf_UpdatedAt := v\<rparr>
        in Some (Inr bs, st', ?dk1\<lparr>dk_manifest := Some (Json st')\<rparr>))"
    using load_loop_gap [OF files(1) refl files(2) _ small le order_refl, of now'] ne(1) by auto
  let ?st2 = "?st1\<lparr>mf_TipHeight := of_nat (?n - 1), mf_TipHash := blk_Hash (last bs), mf_UpdatedAt := v\<rparr>"
  let ?dk2 = "?dk1\<lparr>dk_manifest := Some (Json ?st2)\<rparr>"
  have "unat (?h + 1) \<le> max_cap" using assms(6) by (metis Suc_leI add.commute unatSuc unat_gt_0 zero_le le_zero_eq not_gr_zero unat_0)
  then have "LoadMainChain no_faults now' (?st1, ?dk1) = Some (Inr bs, ?st2, ?dk2)"
    using l by (simp add: LoadMainChain_def Let_def)
  moreover have "holds (?st2, ?dk2) bs" using ne(1) small files(1) by (simp add: holds_def files_hold_def)
  ultimately show ?thesis using a by fastforce
qed

text \<open>Block 2 connects the waiting block 3: the event names block 3, two above the persisted genesis.\<close>

definition demo_connected :: blockchain where
  "demo_connected = demo_chain2\<lparr>
     bc_blocks := (bc_blocks demo_chain2)(3 \<mapsto> demo_block 2 2 0 3),
     bc_parent := (bc_parent demo_chain2)(3 \<mapsto> 2), bc_cumWork := (bc_cumWork demo_chain2)(3 \<mapsto> 2),
     bc_height := (bc_height demo_chain2)(3 \<mapsto> 2), bc_tip := 3\<rparr>"

lemma demo_connect:
  "\<exists>res. AddBlock demo_digest (\<lambda>_ xs. xs) (Some (demo_block 1 1 0 2)) demo_waiting = Some (res, None, demo_connected)
     \<and> ar_IsNewTip res \<and> ar_Reorg res = None"
  by (simp add: demo_waiting_def demo_chain_def demo_connected_def demo_chain2_def demo_eval demo_genesis_def Let_def)

lemma skipped_block_cuts_chain_witness:
  "\<exists>st' dk' st'' dk''. ApplyTipChange no_faults demo_digest 7 demo_connected 3 None (demo_disk [demo_genesis]) = (Inr (), st', dk')
     \<and> mf_TipHeight st' = 2 \<and> LoadMainChain no_faults 8 (st', dk') = Some (Inr [demo_genesis], st'', dk'')"
proof -
  obtain st dk where d: "demo_disk [demo_genesis] = (st, dk)" by fastforce
  have h: "holds (st, dk) [demo_genesis]"
    using demo_disk_holds [of "[demo_genesis]"] d by (simp add: max_cap_def)
  have none: "dk_blocks dk 1 = None" using d by (auto simp: demo_disk_def Let_def)
  have "\<exists>st' dk' st'' dk''. ApplyTipChange no_faults demo_digest 7 demo_connected 3 None (st, dk) = (Inr (), st', dk')
     \<and> mf_TipHeight st' = bh_Height (blk_Header (demo_block 2 2 0 3)) \<and> mf_TipHash st' = 3
     \<and> LoadMainChain no_faults 8 (st', dk') = Some (Inr [demo_genesis], st'', dk'') \<and> holds (st'', dk'') [demo_genesis]"
    by (rule skipped_block_cuts_chain [OF h])
      (simp_all add: demo_utf8 sealed_def demo_header_hash demo_nonce max_cap_def none BlockByHash_def demo_connected_def)
  then show ?thesis using d by auto
qed

end
