(* ===== verification/StoreCrash.thy ===== *)
theory StoreCrash
  imports StoreProps "HOL-Library.Sublist"
begin

text \<open>
  A process that stops in the middle of \<^verbatim>\<open>ApplyTipChange\<close> of \<^verbatim>\<open>internal/store/store.go\<close>: the
  disks the call passes through, one for each file it removes, writes (by renaming a finished
  temporary file) or fails to remove, and what a restart makes of each of them.
\<close>

section \<open>The disks a tip change passes through\<close>

function rollback_disks :: "faults \<Rightarrow> uint64 \<Rightarrow> uint64 \<Rightarrow> disk \<Rightarrow> disk list" where
  "rollback_disks ft h height dk =
     (if h > height
      then let dk' = (if ft_remove ft h then dk else dk\<lparr>dk_blocks := (dk_blocks dk)(h := None)\<rparr>)
           in dk' # rollback_disks ft (h - 1) height dk'
      else [])"
  by pat_completeness auto
termination
  by (relation "measure (\<lambda>(ft, h, height, dk). unat h)") (auto intro: word_pred_less)

declare rollback_disks.simps [simp del]

fun added_disks :: "faults \<Rightarrow> digest \<Rightarrow> block option list \<Rightarrow> disk \<Rightarrow> disk list" where
  "added_disks ft sha [] dk = []"
| "added_disks ft sha (None # bs) dk = added_disks ft sha bs dk"
| "added_disks ft sha (Some b # bs) dk =
     (case writeBlockFile ft sha (Some b) dk of
        (Inl err, dk) \<Rightarrow> []
      | (Inr _, dk) \<Rightarrow> dk # added_disks ft sha bs dk)"

definition tip_change_disks :: "faults \<Rightarrow> digest \<Rightarrow> gotime \<Rightarrow> blockchain \<Rightarrow> hash \<Rightarrow> reorg option \<Rightarrow>
    store \<times> disk \<Rightarrow> disk list" where
  "tip_change_disks ft sha now chain tipHash r sd =
     (case sd of (st, dk) \<Rightarrow> dk #
      (case r of
         None \<Rightarrow>
           (case BlockByHash chain tipHash of
              None \<Rightarrow> []
            | Some b \<Rightarrow>
                if bh_Height (blk_Header b) \<le> mf_TipHeight st then []
                else (case writeBlockFile ft sha (Some b) dk of
                        (Inl err, dk) \<Rightarrow> []
                      | (Inr _, dk) \<Rightarrow>
                          [dk, snd (snd (saveManifest ft now (st\<lparr>mf_TipHeight := bh_Height (blk_Header b), mf_TipHash := tipHash\<rparr>) dk))]))
       | Some r \<Rightarrow>
           (case BlockByHash chain (rg_CommonAncestor r) of
              None \<Rightarrow> []
            | Some ancestor \<Rightarrow>
                let height = bh_Height (blk_Header ancestor); sd1 = rollbackTo ft height (st, dk) in
                rollback_disks ft (mf_TipHeight st) height dk @ added_disks ft sha (rg_Added r) (snd sd1) @
                (case write_added ft sha (rg_Added r) sd1 of
                   (Inl err, st, dk) \<Rightarrow> []
                 | (Inr _, st, dk) \<Rightarrow> [snd (snd (saveManifest ft now st dk))]))))"

text \<open>The last of them is the disk that the call leaves.\<close>

lemma rollback_disks_last: "last (dk # rollback_disks ft h height dk) = rollback_loop ft h height dk"
proof (induction ft h height dk rule: rollback_disks.induct)
  case (1 ft h height dk)
  then show ?case
    by (cases "h > height"; simp add: rollback_disks.simps [of ft h] rollback_loop.simps [of ft h] Let_def)
qed

lemma writeBlockFile_error: "writeBlockFile ft sha b dk = (Inl err, dk') \<Longrightarrow> dk' = dk"
  by (auto simp: writeBlockFile_def Let_def split: option.splits if_splits sum.splits)

lemma last_Cons2: "last (x # y # ys) = last (y # ys)" "last [x] = x"
  by simp_all

lemma added_disks_last:
  "last (dk # added_disks ft sha bs dk) = snd (snd (write_added ft sha bs (st, dk)))"
  by (induction ft sha bs "(st, dk)" arbitrary: st dk rule: write_added.induct)
    (auto split: prod.splits sum.splits simp: last_Cons2 simp del: last.simps dest: writeBlockFile_error)

lemma rollbackTo_disk: "snd (rollbackTo ft height (st, dk)) = rollback_loop ft (mf_TipHeight st) height dk"
  by (simp add: rollbackTo_def Let_def split: sum.splits)

lemma tip_change_disks_last:
  "last (tip_change_disks ft sha now chain tip r (st, dk)) = snd (snd (ApplyTipChange ft sha now chain tip r (st, dk)))"
proof (cases r)
  case None
  then show ?thesis
    by (auto simp: tip_change_disks_def ApplyTipChange_def split: option.splits prod.splits sum.splits dest: writeBlockFile_error)
next
  case (Some r')
  show ?thesis
  proof (cases "BlockByHash chain (rg_CommonAncestor r')")
    case (Some a)
    let ?h = "bh_Height (blk_Header a)"
    obtain st1 dk1 where sd1: "rollbackTo ft ?h (st, dk) = (st1, dk1)" by fastforce
    have dk1: "last (dk # rollback_disks ft (mf_TipHeight st) ?h dk) = dk1"
      using rollback_disks_last [of dk ft "mf_TipHeight st" ?h] rollbackTo_disk [of ft ?h st dk] sd1 by simp
    obtain e st2 dk2 where w: "write_added ft sha (rg_Added r') (st1, dk1) = (e, st2, dk2)" by (metis prod.exhaust)
    have dk2: "last (dk1 # added_disks ft sha (rg_Added r') dk1) = dk2"
      using added_disks_last [of dk1 ft sha "rg_Added r'" st1] w by simp
    have l: "last (dk # rollback_disks ft (mf_TipHeight st) ?h dk @ added_disks ft sha (rg_Added r') dk1) = dk2"
      using dk1 dk2 by (cases "added_disks ft sha (rg_Added r') dk1") (auto split: if_splits)
    show ?thesis
    proof (cases e)
      case (Inl err)
      with l show ?thesis using w sd1 Some \<open>r = Some r'\<close> by (simp add: tip_change_disks_def ApplyTipChange_def Let_def del: last.simps)
    next
      case (Inr u)
      then show ?thesis using w sd1 Some \<open>r = Some r'\<close>
        by (simp add: tip_change_disks_def ApplyTipChange_def Let_def)
    qed
  qed (simp add: tip_change_disks_def ApplyTipChange_def Some)
qed

section \<open>The files in between\<close>

text \<open>The block files are those of a list of blocks, and there is none above it.\<close>

definition exactly :: "disk \<Rightarrow> block list \<Rightarrow> bool" where
  "exactly dk bs \<longleftrightarrow> dk_blocks dk = (\<lambda>h. if unat h < length bs then Some (Json (bs ! unat h)) else None)"

lemma exactly_files: "exactly dk bs \<Longrightarrow> length bs \<le> max_cap \<Longrightarrow> files_hold dk bs"
  by (simp add: exactly_def files_hold_def unat_height)

lemma exactly_gap: "exactly dk bs \<Longrightarrow> length bs \<le> max_cap \<Longrightarrow> dk_blocks dk (of_nat (length bs)) = None"
  by (simp add: exactly_def unat_height)

lemma exactly_add:
  "exactly dk bs \<Longrightarrow> unat (bh_Height (blk_Header b)) = length bs \<Longrightarrow>
     exactly (dk\<lparr>dk_blocks := (dk_blocks dk)(bh_Height (blk_Header b) \<mapsto> Json b)\<rparr>) (bs @ [b])"
  by (auto simp: exactly_def fun_eq_iff nth_append less_Suc_eq) (metis word_unat_eq_iff)

lemma exactly_drop:
  assumes "exactly dk (take (Suc (unat h)) bs)" "unat h < length bs"
  shows "exactly (dk\<lparr>dk_blocks := (dk_blocks dk)(h := None)\<rparr>) (take (unat h) bs)"
  using assms by (auto simp: exactly_def fun_eq_iff less_Suc_eq word_unat_eq_iff)

lemma rollback_disks_between:
  "exactly dk (take (Suc (unat h)) bs) \<Longrightarrow> unat h < length bs \<Longrightarrow> d \<in> set (rollback_disks no_faults h height dk) \<Longrightarrow>
     \<exists>j. unat height < j \<and> exactly d (take j bs) \<and> dk_manifest d = dk_manifest dk"
proof (induction no_faults h height dk rule: rollback_disks.induct)
  case (1 h height dk)
  show ?case
  proof (cases "height < h")
    case True
    let ?dk = "dk\<lparr>dk_blocks := (dk_blocks dk)(h := None)\<rparr>"
    have r: "rollback_disks no_faults h height dk = ?dk # rollback_disks no_faults (h - 1) height ?dk"
      using True by (subst rollback_disks.simps) (simp add: no_faults_def Let_def)
    have "h \<noteq> 0" using True by auto
    then have h: "Suc (unat (h - 1)) = unat h" by (simp add: unat_minus_one unat_gt_0)
    have e: "exactly ?dk (take (unat h) bs)" using exactly_drop [OF 1(2,3)] .
    from 1(4) r consider "d = ?dk" | "d \<in> set (rollback_disks no_faults (h - 1) height ?dk)" by auto
    then show ?thesis
    proof cases
      case 1
      then show ?thesis using e True by (auto simp: word_less_nat_alt)
    next
      case 2
      have "ft_remove no_faults h = False" by (simp add: no_faults_def)
      with 1(1) [OF True refl] e h 1(3) 2 show ?thesis by simp
    qed
  qed (use 1(4) in \<open>simp add: rollback_disks.simps [of no_faults h]\<close>)
qed

lemma added_disks_between:
  assumes "exactly dk bs" "\<forall>i < length ad. unat (bh_Height (blk_Header (ad ! i))) = length bs + i"
    and "\<forall>b \<in> set ad. utf8_block b \<and> sealed sha b" "d \<in> set (added_disks no_faults sha (map Some ad) dk)"
  shows "\<exists>j. exactly d (bs @ take j ad) \<and> dk_manifest d = dk_manifest dk"
  using assms
proof (induction ad arbitrary: dk bs)
  case (Cons b ad)
  have b: "utf8_block b" "sealed sha b" "unat (bh_Height (blk_Header b)) = length bs"
    using Cons.prems(2,3) by auto
  let ?dk = "dk\<lparr>dk_blocks := (dk_blocks dk)(bh_Height (blk_Header b) \<mapsto> Json b)\<rparr>"
  have e: "exactly ?dk (bs @ [b])" by (rule exactly_add [OF Cons.prems(1) b(3)])
  have "d = ?dk \<or> d \<in> set (added_disks no_faults sha (map Some ad) ?dk)"
    using Cons.prems(4) writeBlockFile_ok [OF b(1,2)] by simp
  then show ?case
  proof
    assume "d = ?dk"
    then show ?thesis using e by (intro exI [of _ 1]) simp
  next
    assume d: "d \<in> set (added_disks no_faults sha (map Some ad) ?dk)"
    have "\<forall>i < length ad. unat (bh_Height (blk_Header (ad ! i))) = length (bs @ [b]) + i"
      using Cons.prems(2) by fastforce
    from Cons.IH [OF e this _ d] Cons.prems(3) obtain j where
      "exactly d (bs @ take (Suc j) (b # ad))" "dk_manifest d = dk_manifest dk" by auto
    then show ?thesis by blast
  qed
qed simp

text \<open>What a restart loads: the blocks up to the height of the manifest, or fewer.\<close>

lemma load_exactly:
  assumes "exactly dk bs" "bs \<noteq> []" "length bs \<le> max_cap" "unat (mf_TipHeight st) = n" "Suc n \<le> max_cap"
  shows "\<exists>sd. LoadMainChain no_faults now (st, dk) = Some (Inr (take (Suc n) bs), sd)"
proof -
  have t: "mf_TipHeight st = of_nat n" using assms(4) by (metis of_nat_unat ucast_id)
  have c: "\<not> max_cap < unat (mf_TipHeight st + 1)"
    using assms(5) unat_height [OF assms(5)] t by (simp add: add.commute)
  show ?thesis
  proof (cases "n < length bs")
    case True
    let ?bs = "take (Suc n) bs"
    have f: "files_hold dk ?bs" using exactly_files [OF assms(1,3)] True by (simp add: files_hold_def)
    have "mf_TipHeight st = of_nat (length ?bs - 1)" "length ?bs \<le> max_cap" "?bs \<noteq> []"
      using True t assms(2,3) by auto
    from load_loop_holds [OF f this(2,1,3), of "length ?bs" now] c show ?thesis by (simp add: LoadMainChain_def)
  next
    case False
    let ?n = "length bs"
    have f: "\<forall>i < ?n. dk_blocks dk (of_nat i) = Some (Json (bs ! i))"
      using exactly_files [OF assms(1,3)] by (simp add: files_hold_def)
    have "of_nat ?n \<le> mf_TipHeight st" using False assms(3,4) by (simp add: word_le_nat_alt unat_height)
    from load_loop_gap [OF f refl exactly_gap [OF assms(1,3)] _ assms(3) this order_refl, of now] assms(2)
      False c show ?thesis by (auto simp: LoadMainChain_def Let_def)
  qed
qed

section \<open>Recovery\<close>

text \<open>
  A disk on which the old manifest is still in place and the block files are a beginning of the old
  chain or of the new one, the common part included; or the disk of the finished change.
\<close>

definition midway :: "store \<Rightarrow> block list \<Rightarrow> block list \<Rightarrow> nat \<Rightarrow> disk \<Rightarrow> bool" where
  "midway st old fresh k dk \<longleftrightarrow>
     dk_manifest dk = Some (Json st) \<and> (\<exists>xs. exactly dk xs \<and> k \<le> length xs \<and> (prefix xs old \<or> prefix xs fresh))"

lemma extension_disks:
  assumes h: "holds (st, dk) bs" "exactly dk bs" and b: "length bs < max_cap" "BlockByHash chain tip = Some b"
    "unat (bh_Height (blk_Header b)) = length bs" "utf8_block b" "sealed sha b"
    and d: "d \<in> set (tip_change_disks no_faults sha now chain tip None (st, dk))"
  shows "midway st bs (bs @ [b]) (length bs) d
     \<or> d = snd (snd (ApplyTipChange no_faults sha now chain tip None (st, dk)))"
proof -
  let ?dk = "dk\<lparr>dk_blocks := (dk_blocks dk)(bh_Height (blk_Header b) \<mapsto> Json b)\<rparr>"
  have m: "dk_manifest dk = Some (Json st)" using h(1) by (simp add: holds_def)
  have old: "midway st bs (bs @ [b]) (length bs) dk"
    using m h(2) unfolding midway_def by (auto intro!: exI [of _ bs])
  have add: "midway st bs (bs @ [b]) (length bs) ?dk"
    using m exactly_add [OF h(2) b(3)] unfolding midway_def by (auto intro!: exI [of _ "bs @ [b]"])
  note l = tip_change_disks_last [of no_faults sha now chain tip None st dk]
  show ?thesis
  proof (cases "bh_Height (blk_Header b) \<le> mf_TipHeight st")
    case True
    then have "d = dk" using d b(2) by (simp add: tip_change_disks_def)
    then show ?thesis using old by simp
  next
    case False
    let ?last = "snd (snd (saveManifest no_faults now (st\<lparr>mf_TipHeight := bh_Height (blk_Header b), mf_TipHash := tip\<rparr>) ?dk))"
    have "tip_change_disks no_faults sha now chain tip None (st, dk) = [dk, ?dk, ?last]"
      using False b(2) writeBlockFile_ok [OF b(4,5), of dk] by (simp add: tip_change_disks_def)
    then show ?thesis using d old add l by auto
  qed
qed

lemma reorg_disks:
  assumes h: "holds (st, dk) (bs @ rm)" "exactly dk (bs @ rm)" "bs \<noteq> []"
    and anc: "BlockByHash chain (rg_CommonAncestor r) = Some a" "unat (bh_Height (blk_Header a)) = length bs - 1"
    and ad: "rg_Added r = map Some ad" "\<forall>i < length ad. unat (bh_Height (blk_Header (ad ! i))) = length bs + i"
      "\<forall>b \<in> set ad. utf8_block b \<and> sealed sha b"
    and d: "d \<in> set (tip_change_disks no_faults sha now chain tip (Some r) (st, dk))"
  shows "midway st (bs @ rm) (bs @ ad) (length bs) d
     \<or> d = snd (snd (ApplyTipChange no_faults sha now chain tip (Some r) (st, dk)))"
proof -
  let ?h = "bh_Height (blk_Header a)" let ?old = "bs @ rm"
  have m: "dk_manifest dk = Some (Json st)" and t: "mf_TipHeight st = of_nat (length ?old - 1)" and c: "length ?old \<le> max_cap"
    using h(1) by (simp_all add: holds_def)
  have u: "unat (mf_TipHeight st) = length ?old - 1" unfolding t by (rule unat_height) (use c in simp)
  have ne: "length bs \<noteq> 0" using h(3) by simp
  then obtain k where k: "length bs = Suc k" by (cases "length bs") auto
  have start: "exactly dk (take (Suc (unat (mf_TipHeight st))) ?old)" "unat (mf_TipHeight st) < length ?old"
    using h(2) u ne by simp_all
  obtain st1 dk1 where sd1: "rollbackTo no_faults ?h (st, dk) = (st1, dk1)" by fastforce
  have dk1: "dk1 = rollback_loop no_faults (mf_TipHeight st) ?h dk"
    using rollbackTo_disk [of no_faults ?h st dk] sd1 by simp
  have e1: "exactly dk1 bs"
    unfolding exactly_def
  proof
    fix x :: uint64
    have "dk_blocks dk1 x = (if ?h < x \<and> x \<le> mf_TipHeight st then None else dk_blocks dk x)"
      unfolding dk1 by (simp add: rollback_loop_ok)
    moreover have "?h < x \<longleftrightarrow> length bs \<le> unat x" "x \<le> mf_TipHeight st \<longleftrightarrow> unat x < length ?old"
      using anc(2) u k by (auto simp: word_less_nat_alt word_le_nat_alt)
    ultimately show "dk_blocks dk1 x = (if unat x < length bs then Some (Json (bs ! unat x)) else None)"
      using h(2) by (auto simp: exactly_def nth_append)
  qed
  have m1: "dk_manifest dk1 = Some (Json st)" using m unfolding dk1 by (simp add: rollback_loop_ok)
  have pre: "midway st ?old (bs @ ad) (length bs) d" if "d \<in> set (rollback_disks no_faults (mf_TipHeight st) ?h dk)"
  proof -
    from rollback_disks_between [OF start that] obtain j where j: "unat ?h < j" "exactly d (take j ?old)" "dk_manifest d = dk_manifest dk" by blast
    then have "length bs \<le> length (take j ?old)" using anc(2) ne by simp
    then show ?thesis using j m take_is_prefix unfolding midway_def by metis
  qed
  have post: "midway st ?old (bs @ ad) (length bs) d" if "d \<in> set (added_disks no_faults sha (map Some ad) dk1)"
  proof -
    from added_disks_between [OF e1 ad(2,3) that] obtain j where j: "exactly d (bs @ take j ad)" "dk_manifest d = dk_manifest dk1" by blast
    have "prefix (bs @ take j ad) (bs @ ad)" by (simp add: take_is_prefix)
    then show ?thesis using j m1 unfolding midway_def by (metis length_append le_add1)
  qed
  have old: "midway st ?old (bs @ ad) (length bs) dk"
    using m h(2) unfolding midway_def by (auto intro!: exI [of _ ?old])
  note l = tip_change_disks_last [of no_faults sha now chain tip "Some r" st dk]
  obtain e st2 dk2 where w: "write_added no_faults sha (map Some ad) (st1, dk1) = (e, st2, dk2)" by (metis prod.exhaust)
  have ds: "tip_change_disks no_faults sha now chain tip (Some r) (st, dk)
      = dk # rollback_disks no_faults (mf_TipHeight st) ?h dk @ added_disks no_faults sha (map Some ad) dk1 @
        (case e of Inl err \<Rightarrow> [] | Inr u \<Rightarrow> [snd (snd (saveManifest no_faults now st2 dk2))])"
    using anc(1) sd1 w ad(1) by (simp add: tip_change_disks_def Let_def split: sum.split)
  show ?thesis
  proof (cases "d = dk \<or> d \<in> set (rollback_disks no_faults (mf_TipHeight st) ?h dk @ added_disks no_faults sha (map Some ad) dk1)")
    case True
    then show ?thesis using old pre post by auto
  next
    case False
    then obtain u where "e = Inr u" "d = snd (snd (saveManifest no_faults now st2 dk2))" using d unfolding ds by (auto split: sum.splits)
    then show ?thesis using l unfolding ds by simp
  qed
qed

lemma midway_loads:
  assumes "midway st old fresh k d" "0 < k" "k \<le> length old" "length old \<le> max_cap" "length fresh \<le> max_cap"
    and "unat (mf_TipHeight st) = length old - 1"
  shows "\<exists>m sd. k \<le> m \<and> (LoadMainChain no_faults now (st, d) = Some (Inr (take m old), sd)
     \<or> LoadMainChain no_faults now (st, d) = Some (Inr (take m fresh), sd))"
proof -
  from assms(1) obtain xs where x: "exactly d xs" "k \<le> length xs" "prefix xs old \<or> prefix xs fresh"
    by (auto simp: midway_def)
  have n: "Suc (length old - 1) = length old" using assms(2,3) by simp
  have "length xs \<le> max_cap" using x(3) prefix_length_le assms(4,5) by (meson order_trans)
  then obtain sd where l: "LoadMainChain no_faults now (st, d) = Some (Inr (take (length old) xs), sd)"
    using load_exactly [OF x(1) _ _ assms(6), of now] x(2) assms(2,4) n by fastforce
  let ?m = "min (length old) (length xs)"
  have "take (length old) xs = take ?m ys" if "prefix xs ys" for ys
    using that by (auto simp: prefix_def min_def)
  moreover have "k \<le> ?m" using x(2) assms(3) by simp
  ultimately show ?thesis using l x(3) by metis
qed

text \<open>What survives of the old chain: all of it under an extension, the common ancestor under a reorganisation.\<close>

fun keeps :: "reorg option \<Rightarrow> block list \<Rightarrow> block list \<Rightarrow> bool" where
  "keeps None old bs = (length old \<le> length bs)"
| "keeps (Some r) old bs = (rg_CommonAncestor r \<in> blk_Hash ` set bs)"

lemma crash_disks:
  assumes h: "holds (st, dk) (main_blocks bc)" "exactly dk (main_blocks bc)"
    and inv: "chain_inv sha bc" "chain_inv sha bc'" "genesis_ok sha bc'"
    and o: "add_outcome sha bc (Some b) res None bc'" "ar_IsNewTip res"
    and utf8: "\<forall>x \<in> set (main_blocks bc'). utf8_block x" and cap: "length (main_blocks bc') \<le> max_cap"
    and d: "d \<in> set (tip_change_disks no_faults sha now bc' (bc_tip bc') (ar_Reorg res) (st, dk))"
  shows "\<exists>k. 0 < k \<and> k \<le> length (main_blocks bc) \<and> k \<le> length (main_blocks bc') \<and>
     (midway st (main_blocks bc) (main_blocks bc') k d
      \<or> d = snd (snd (ApplyTipChange no_faults sha now bc' (bc_tip bc') (ar_Reorg res) (st, dk)))) \<and>
     (\<forall>m \<ge> k. keeps (ar_Reorg res) (main_blocks bc) (take m (main_blocks bc)) \<and>
        keeps (ar_Reorg res) (main_blocks bc) (take m (main_blocks bc')))"
proof -
  from new_tip_parts [OF o(1) inv(1,2) o(2)] obtain pre a rm ad where
    p: "main_blocks bc = pre @ [a] @ rm" "main_blocks bc' = pre @ [a] @ ad" "ad \<noteq> []"
      "bc_blocks bc' (blk_Hash a) = Some a"
    and r: "ar_Reorg res = (if rm = [] then None else Some \<lparr>rg_CommonAncestor = blk_Hash a,
        rg_Removed = map Some rm, rg_Added = map Some ad\<rparr>)" and one: "rm = [] \<Longrightarrow> length ad = 1" by blast
  note nth = main_blocks_nth [OF inv(2,3)]
  have hts: "\<forall>i < length ad. unat (bh_Height (blk_Header (ad ! i))) = length (pre @ [a]) + i"
  proof (intro allI impI)
    fix i assume "i < length ad"
    then show "unat (bh_Height (blk_Header (ad ! i))) = length (pre @ [a]) + i"
      using nth(2) [of "length (pre @ [a]) + i"] unfolding p(2) by (simp add: nth_append)
  qed
  have "sealed sha x" if "x \<in> set (main_blocks bc')" for x
    using that nth(3) by (metis in_set_conv_nth)
  then have ad: "\<forall>x \<in> set ad. utf8_block x \<and> sealed sha x" using utf8 p(2) by simp
  let ?k = "length (pre @ [a])"
  have k: "0 < ?k" "?k \<le> length (main_blocks bc)" "?k \<le> length (main_blocks bc')" using p by simp_all
  have keep: "keeps (ar_Reorg res) (main_blocks bc) (take m (main_blocks bc))"
    "keeps (ar_Reorg res) (main_blocks bc) (take m (main_blocks bc'))" if "?k \<le> m" for m
  proof -
    have "take m ((pre @ [a]) @ xs) = (pre @ [a]) @ take (m - ?k) xs" for xs
      using that take_append [of m "pre @ [a]" xs] by (simp del: take_append append_assoc)
    then have t: "take m (main_blocks bc) = (pre @ [a]) @ take (m - ?k) rm" "take m (main_blocks bc') = (pre @ [a]) @ take (m - ?k) ad"
      using p by simp_all
    show "keeps (ar_Reorg res) (main_blocks bc) (take m (main_blocks bc))"
      unfolding t(1) using r p(1) by (cases "rm = []") simp_all
    show "keeps (ar_Reorg res) (main_blocks bc) (take m (main_blocks bc'))"
      unfolding t(2) using r p(1) by (cases "rm = []") simp_all
  qed
  have "midway st (main_blocks bc) (main_blocks bc') ?k d
      \<or> d = snd (snd (ApplyTipChange no_faults sha now bc' (bc_tip bc') (ar_Reorg res) (st, dk)))"
  proof (cases "rm = []")
    case True
    with one obtain x where x: "ad = [x]" by (auto simp: length_Suc_conv)
    have "x = last (main_blocks bc')" using x p(2) by simp
    then have tip: "BlockByHash bc' (bc_tip bc') = Some x"
      using last_main_blocks [OF inv(2)] by (simp add: BlockByHash_def)
    have "length (main_blocks bc) < max_cap" "unat (bh_Height (blk_Header x)) = length (main_blocks bc)"
      using cap hts p True x by auto
    from extension_disks [OF h this(1) tip this(2)] ad x d show ?thesis
      using p True r by simp
  next
    case False
    have anc: "unat (bh_Height (blk_Header a)) = length (pre @ [a]) - 1"
      using nth(2) [of "length pre"] p(2) by (simp add: nth_append)
    let ?r = "\<lparr>rg_CommonAncestor = blk_Hash a, rg_Removed = map Some rm, rg_Added = map Some ad\<rparr>"
    have "holds (st, dk) ((pre @ [a]) @ rm)" "exactly dk ((pre @ [a]) @ rm)" using h p(1) by simp_all
    from reorg_disks [OF this, where r = ?r and a = a and chain = bc' and sha = sha and now = now
        and tip = "bc_tip bc'" and ad = ad and d = d] p(1,2,4) anc hts ad d show ?thesis
      using r False by (simp add: BlockByHash_def)
  qed
  then show ?thesis using k keep by blast
qed

lemma write_added_difficulty: "mf_Difficulty (fst (snd (write_added ft sha bs sd))) = mf_Difficulty (fst sd)"
  by (induction ft sha bs sd rule: write_added.induct) (auto split: sum.splits prod.splits)

lemma rollbackTo_difficulty: "mf_Difficulty (fst (rollbackTo ft h sd)) = mf_Difficulty (fst sd)"
  by (simp add: rollbackTo_def Let_def split: sum.splits prod.splits)

lemma saveManifest_difficulty: "mf_Difficulty (fst (snd (saveManifest ft now st dk))) = mf_Difficulty st"
  by (simp add: saveManifest_def Let_def)

lemma ApplyTipChange_difficulty:
  "mf_Difficulty (fst (snd (ApplyTipChange ft sha now chain tip r (st, dk)))) = mf_Difficulty st"
proof (cases r)
  case None
  then show ?thesis by (auto simp: ApplyTipChange_def saveManifest_difficulty split: option.splits sum.splits prod.splits)
next
  case (Some r')
  have w: "write_added ft sha (rg_Added r') (rollbackTo ft h (st, dk)) = (e, st2, dk2) \<Longrightarrow> mf_Difficulty st2 = mf_Difficulty st" for h e st2 dk2
    using write_added_difficulty [of ft sha "rg_Added r'" "rollbackTo ft h (st, dk)"] rollbackTo_difficulty [of ft h "(st, dk)"] by simp
  show ?thesis unfolding Some ApplyTipChange_def
    by (auto simp: saveManifest_difficulty split: option.splits sum.splits prod.splits dest: w)
qed

lemma Open_manifest:
  "dk_manifest d = Some (Json st) \<Longrightarrow> Open no_faults sha now (mf_Difficulty st) g d = (Inr st, d)"
  by (simp add: Open_def loadManifest_def) (simp add: no_faults_def)

section \<open>Properties\<close>


lemma chain_to_2: "chain_to f 2 x = chain_to f (Suc (Suc 0)) x"
  by (simp add: numeral_2_eq_2)

lemma demo_branches:
  "main_blocks demo_fork = [demo_genesis, demo_block 1 1 0 2]"
  "main_blocks demo_switched = [demo_genesis, demo_block 1 1 0 3, demo_block 2 3 0 4]"
  by (simp_all add: main_blocks_def path_to_def main_path_def demo_chain2_def demo_fork_def demo_switched_def go_get_def chain_to_2)

definition demo_reorg :: reorg where
  "demo_reorg = \<lparr>rg_CommonAncestor = 1, rg_Removed = [Some (demo_block 1 1 0 2)],
     rg_Added = [Some (demo_block 1 1 0 3), Some (demo_block 2 3 0 4)]\<rparr>"

text \<open>The disk between the last block file and the manifest.\<close>

lemma demo_midway:
  assumes "demo_disk [demo_genesis, demo_block 1 1 0 2] = (st, dk)"
  shows "dk\<lparr>dk_blocks := (dk_blocks dk)(1 \<mapsto> Json (demo_block 1 1 0 3), 2 \<mapsto> Json (demo_block 2 3 0 4))\<rparr>
     \<in> set (tip_change_disks no_faults demo_digest 7 demo_switched (TipHash demo_switched) (Some demo_reorg) (st, dk))"
proof -
  have t: "mf_TipHeight st = 1" using assms by (auto simp: demo_disk_def Let_def)
  have a: "BlockByHash demo_switched 1 = Some demo_genesis" "bh_Height (blk_Header demo_genesis) = 0"
    by (simp_all add: BlockByHash_def demo_chain2_def demo_fork_def demo_switched_def demo_genesis_def)
  have rb: "snd (rollbackTo no_faults 0 (st, dk)) = dk\<lparr>dk_blocks := (dk_blocks dk)(1 := None)\<rparr>"
    unfolding rollbackTo_disk t by (simp add: rollback_loop.simps no_faults_def)
  have s: "sealed demo_digest (demo_block 1 1 0 3)" "sealed demo_digest (demo_block 2 3 0 4)"
    by (simp_all add: sealed_def demo_header_hash demo_nonce)
  show ?thesis unfolding tip_change_disks_def
    by (simp add: demo_reorg_def a rb Let_def writeBlockFile_ok [OF demo_utf8 s(1)] writeBlockFile_ok [OF demo_utf8 s(2)])
qed


end
