(* ===== verification/Frame.thy ===== *)
theory Frame
  imports Codec
begin

text \<open>
  The framing of \<^verbatim>\<open>internal/transport/tcp/tcp.go\<close>: four bytes of length, most significant
  first, and the JSON text of the message. A connection is the list of bytes that arrive before the
  read deadline or the end of the stream. The rate limiter (\<^verbatim>\<open>golang.org/x/time/rate\<close>) is an
  argument: whether it lets a number of bytes through in time.
\<close>

section \<open>The length prefix\<close>

text \<open>\<^verbatim>\<open>binary.BigEndian.PutUint32\<close> and \<^verbatim>\<open>Uint32\<close>.\<close>

definition put_be32 :: "uint32 \<Rightarrow> byte list" where
  "put_be32 n = map (\<lambda>i. ucast (drop_bit (8 * (3 - i)) n)) [0..<4]"

definition get_be32 :: "byte list \<Rightarrow> uint32" where
  "get_be32 bs = foldl (\<lambda>a b. push_bit 8 a OR ucast b) 0 bs"

lemma length_put_be32 [simp]: "length (put_be32 n) = 4"
  by (simp add: put_be32_def)

lemma get_put_be32: "get_be32 (put_be32 n) = n"
proof (rule bit_word_eqI)
  fix i assume i: "i < LENGTH(32)"
  have l: "[0..<4] = [0, 1, 2, 3::nat]" by (simp add: upt_rec)
  have "i < 8 \<or> 8 \<le> i \<and> i < 16 \<or> 16 \<le> i \<and> i < 24 \<or> 24 \<le> i \<and> i < 32" using i by auto
  then show "bit (get_be32 (put_be32 n)) i = bit n i"
    by (elim disjE) (auto simp: get_be32_def put_be32_def l bit_simps)
qed

section \<open>Frames\<close>

datatype frame_error = MessageTooLarge | ShortRead | InvalidLength | RateLimited | BadMessage

definition frame_text :: "nils \<Rightarrow> message \<Rightarrow> byte list" where
  "frame_text nil m = bytes_of (print_json (MarshalJSON nil m))"

definition encodeFrame :: "nils \<Rightarrow> message \<Rightarrow> int \<Rightarrow> frame_error + byte list" where
  "encodeFrame nil m mx =
     (let raw = frame_text nil m in
      if int (length raw) > mx then Inl MessageTooLarge
      else Inr (put_be32 (of_nat (length raw)) @ raw))"

text \<open>\<^verbatim>\<open>io.ReadFull\<close> of a buffer of the given size.\<close>

definition ReadFull :: "nat \<Rightarrow> byte list \<Rightarrow> (byte list \<times> byte list) option" where
  "ReadFull n s = (if length s < n then None else Some (take n s, drop n s))"

definition ReadFrameWithLimit :: "int \<Rightarrow> (int \<Rightarrow> bool) option \<Rightarrow> byte list \<Rightarrow> frame_error + message \<times> byte list" where
  "ReadFrameWithLimit mx limiter s =
     (case ReadFull 4 s of
        None \<Rightarrow> Inl ShortRead
      | Some (lenBuf, s) \<Rightarrow>
          let n = uint (get_be32 lenBuf) in
          if n \<le> 0 \<or> n > mx then Inl InvalidLength
          else if (case limiter of None \<Rightarrow> False | Some wait \<Rightarrow> \<not> wait n) then Inl RateLimited
          else (case ReadFull (nat n) s of
                  None \<Rightarrow> Inl ShortRead
                | Some (buf, s) \<Rightarrow>
                    (case Option.bind (parse_json (string_of buf)) UnmarshalJSON of
                       None \<Rightarrow> Inl BadMessage
                     | Some m \<Rightarrow> Inr (m, s))))"

definition ReadFrame :: "int \<Rightarrow> byte list \<Rightarrow> frame_error + message \<times> byte list" where
  "ReadFrame mx s = ReadFrameWithLimit mx None s"

text \<open>A number of reads in a row, as the read loop of a connection makes them.\<close>

fun read_frames :: "nat \<Rightarrow> int \<Rightarrow> (int \<Rightarrow> bool) option \<Rightarrow> byte list \<Rightarrow> frame_error + message list \<times> byte list" where
  "read_frames 0 mx limiter s = Inr ([], s)"
| "read_frames (Suc k) mx limiter s =
     (case ReadFrameWithLimit mx limiter s of
        Inl e \<Rightarrow> Inl e
      | Inr (m, s) \<Rightarrow> (case read_frames k mx limiter s of Inl e \<Rightarrow> Inl e | Inr (ms, s) \<Rightarrow> Inr (m # ms, s)))"

text \<open>
  A message the code sends: its payload is the struct of its type and the \<^verbatim>\<open>int\<close> fields are
  in range.
\<close>

definition sendable :: "message \<Rightarrow> bool" where
  "sendable m \<longleftrightarrow> payload_type (msg_Payload m) = Some (msg_Type m) \<and> payload_ints (msg_Payload m)"

lemma string_of_bytes_of [simp]: "string_of (bytes_of s) = s"
proof -
  have "char_of (unat (of_char c :: byte)) = c" for c
  proof -
    have "(of_char c :: byte) = word_of_nat (of_char c)" by (simp only: of_nat_of_char)
    then have "unat (of_char c :: byte) = of_char c" by (simp only: unat_of_nat) (simp add: take_bit_nat_eq_self)
    then show ?thesis by simp
  qed
  then show ?thesis by (simp add: string_of_def bytes_of_def map_idI)
qed

lemma frame_text_pos: "frame_text nil m \<noteq> []"
  by (simp add: frame_text_def bytes_of_def MarshalJSON_def)

lemma ReadFull_append: "length a = n \<Longrightarrow> ReadFull n (a @ b) = Some (a, b)"
  by (simp add: ReadFull_def)

lemma read_one_frame:
  assumes "encodeFrame nil m mx = Inr f" "mx < 2 ^ 32" "sendable m"
    "\<forall>wait n. limiter = Some wait \<longrightarrow> 0 < n \<longrightarrow> n \<le> mx \<longrightarrow> wait n"
  shows "ReadFrameWithLimit mx limiter (f @ rest) = Inr (json_message m, rest)"
proof -
  let ?raw = "frame_text nil m"
  have len: "int (length ?raw) \<le> mx" and f: "f = put_be32 (of_nat (length ?raw)) @ ?raw"
    using assms(1) by (simp_all add: encodeFrame_def Let_def split: if_splits)
  have n: "uint (word_of_nat (length ?raw) :: uint32) = int (length ?raw)"
    using len assms(2) by (simp add: unsigned_of_nat take_bit_nat_eq_self)
  have "0 < length ?raw" using frame_text_pos by simp
  moreover have "parse_json (string_of ?raw) = Some (json_coerce (MarshalJSON nil m))"
    using assms(3) by (simp add: frame_text_def sendable_def parse_message)
  moreover have "UnmarshalJSON (json_coerce (MarshalJSON nil m)) = Some (json_message m)"
    using assms(3) by (simp add: sendable_def UnmarshalJSON_MarshalJSON)
  ultimately show ?thesis using len assms(4)
    by (auto simp: ReadFrameWithLimit_def f ReadFull_append get_put_be32 n Let_def split: option.split)
qed

lemma read_frames_frames:
  assumes "list_all2 (\<lambda>m f. encodeFrame nil m mx = Inr f) ms fs" "list_all sendable ms" "mx < 2 ^ 32"
    "\<forall>wait n. limiter = Some wait \<longrightarrow> 0 < n \<longrightarrow> n \<le> mx \<longrightarrow> wait n"
  shows "read_frames (length ms) mx limiter (concat fs @ rest) = Inr (map json_message ms, rest)"
  using assms(1,2)
  by (induction rule: list_all2_induct) (simp_all add: read_one_frame [OF _ assms(3) _ assms(4)])

lemma ReadFrameWithLimit_eq:
  assumes "ReadFrameWithLimit mx limiter s = Inr (m, rest)"
  shows "\<exists>n. 0 < n \<and> int n \<le> mx \<and> 4 + n \<le> length s \<and> rest = drop (4 + n) s \<and>
     uint (get_be32 (take 4 s)) = int n \<and>
     Option.bind (parse_json (string_of (take n (drop 4 s)))) UnmarshalJSON = Some m"
proof (intro exI)
  let ?n = "nat (uint (get_be32 (take 4 s)))"
  have "ReadFull 4 s = Some (take 4 s, drop 4 s)" using assms
    by (auto simp: ReadFrameWithLimit_def ReadFull_def split: if_splits)
  then show "0 < ?n \<and> int ?n \<le> mx \<and> 4 + ?n \<le> length s \<and> rest = drop (4 + ?n) s \<and>
     uint (get_be32 (take 4 s)) = int ?n \<and>
     Option.bind (parse_json (string_of (take ?n (drop 4 s)))) UnmarshalJSON = Some m"
    using assms
    by (auto simp: ReadFrameWithLimit_def ReadFull_def Let_def add.commute neq0_conv [symmetric] unsigned_eq_0_iff
        simp del: neq0_conv split: if_splits option.splits)
qed

section \<open>Properties\<close>

text \<open>
  C16: What is framed is read back: when every message of a list is sendable and was framed under the
  size limit (below 4 GiB) and the limiter lets frames of that size through, then reading from the
  concatenated frames, whatever follows them, gives the messages in order, their strings coerced to
  UTF-8, and leaves exactly what follows; frames that arrive glued together are taken apart.
\<close>

theorem frames_read_back:
  assumes "list_all2 (\<lambda>m f. encodeFrame nil m mx = Inr f) ms fs" "list_all sendable ms" "mx < 2 ^ 32"
    "\<forall>wait n. limiter = Some wait \<longrightarrow> 0 < n \<longrightarrow> n \<le> mx \<longrightarrow> wait n"
  shows "read_frames (length ms) mx limiter (concat fs @ rest) = Inr (map json_message ms, rest)"
  using assms by (rule read_frames_frames)

definition demo_message :: message where
  "demo_message = \<lparr>msg_Type = MsgGetPeers, msg_From = ''a'', msg_To = '''', msg_Timestamp = 7, msg_TraceID = '''',
     msg_Payload = GetPeersPayload 32\<rparr>"

definition demo_frame :: "byte list" where
  "demo_frame = put_be32 65 @ frame_text (\<lambda>_. False) demo_message"

lemma demo_encoded: "encodeFrame (\<lambda>_. False) demo_message 100 = Inr demo_frame"
proof -
  have l: "length (frame_text (\<lambda>_. False) demo_message) = 65"
    by (simp add: frame_text_def demo_message_def MarshalJSON_def int_json_def dec_int_def dec_nat.simps json_quote_def
        escape_ascii_def bytes_of_def)
  show ?thesis by (simp add: encodeFrame_def l demo_frame_def)
qed

lemma demo_sendable: "sendable demo_message" "json_message demo_message = demo_message"
  by (simp_all add: sendable_def demo_message_def go_int_def json_message_def utf8_coerce_ascii)

theorem frames_read_back_witness:
  "read_frames 2 100 (Some (\<lambda>n. n < 200)) (demo_frame @ demo_frame @ [1, 2]) = Inr ([demo_message, demo_message], [1, 2])"
  using frames_read_back [of "\<lambda>_. False" 100 "[demo_message, demo_message]" "[demo_frame, demo_frame]" "Some (\<lambda>n. n < 200)" "[1, 2]"]
    demo_encoded demo_sendable
  by (simp add: numeral_2_eq_2)

text \<open>
  C28: Whatever bytes a peer sends, the message the reader returns is typed: its payload is the struct that
  belongs to its type, or the raw value when the type is none of the protocol, or nil when the payload
  field was missing; the \<^verbatim>\<open>int\<close> fields are 64-bit integers.
\<close>

theorem received_message_typed:
  assumes "ReadFrameWithLimit mx limiter s = Inr (m, rest)"
  shows "well_typed m"
proof -
  obtain j where "UnmarshalJSON j = Some m"
    using ReadFrameWithLimit_eq [OF assms] by (auto simp: Option.bind_eq_Some_conv)
  then show ?thesis by (rule UnmarshalJSON_typed)
qed

theorem received_message_typed_witness:
  "well_typed demo_message"
  using received_message_typed [of 100 None "demo_frame @ []" demo_message "[]"]
    read_one_frame [OF demo_encoded _ demo_sendable(1), of None "[]"] demo_sendable(2) by simp

text \<open>
  A connection cannot make the reader take more than the limit: a message is only returned after a
  length between 1 and the limit, from exactly that many bytes behind the prefix, and a prefix that
  announces more is refused before any of its bytes is read, whatever they are.
\<close>

lemma frame_bounds:
  assumes "length prefix = 4"
  shows "(uint (get_be32 prefix) = 0 \<or> uint (get_be32 prefix) > mx \<longrightarrow>
        ReadFrameWithLimit mx limiter (prefix @ body) = Inl InvalidLength) \<and>
     (\<forall>m rest. ReadFrameWithLimit mx limiter (prefix @ body) = Inr (m, rest) \<longrightarrow>
        (\<exists>used. body = used @ rest \<and> int (length used) = uint (get_be32 prefix) \<and> 0 < length used \<and> int (length used) \<le> mx))"
proof (intro conjI impI allI)
  show "ReadFrameWithLimit mx limiter (prefix @ body) = Inl InvalidLength"
    if "uint (get_be32 prefix) = 0 \<or> uint (get_be32 prefix) > mx"
    using that assms by (auto simp: ReadFrameWithLimit_def ReadFull_append)
next
  fix m rest assume "ReadFrameWithLimit mx limiter (prefix @ body) = Inr (m, rest)"
  then obtain n where n: "0 < n" "int n \<le> mx" "4 + n \<le> length (prefix @ body)" "rest = drop (4 + n) (prefix @ body)"
    "uint (get_be32 (take 4 (prefix @ body))) = int n"
    using ReadFrameWithLimit_eq by blast
  then have "body = take n body @ rest" "length (take n body) = n" using assms by simp_all
  then show "\<exists>used. body = used @ rest \<and> int (length used) = uint (get_be32 prefix) \<and> 0 < length used \<and> int (length used) \<le> mx"
    using n assms by (intro exI [of _ "take n body"]) simp
qed

lemma frame_bounds_witness:
  "ReadFrameWithLimit 16 None ([0, 0, 0, 17] @ body) = Inl InvalidLength"
  using frame_bounds [of "[0, 0, 0, 17]" 16 None body]
  by (simp add: get_be32_def)

end
