(* ===== verification/Identity.thy ===== *)
theory Identity
  imports Codec
begin

text \<open>
  \<^verbatim>\<open>internal/identity/identity.go\<close>: the node id of a public key and the key file. Key
  generation (\<^verbatim>\<open>ed25519.GenerateKey\<close>), the digest and the failures of the file system are
  arguments; the key file is the JSON value in it, or text that is no JSON.
\<close>

datatype identity_error = InvalidKeyLength | EmptyDir | IdentityIO | BadKeyJson | InvalidKeyFile

definition PublicKeySize :: nat where "PublicKeySize = 32"
definition PrivateKeySize :: nat where "PrivateKeySize = 64"

definition NodeIDFromPublicKey :: "digest \<Rightarrow> byte list \<Rightarrow> identity_error + string" where
  "NodeIDFromPublicKey sha pub =
     (if length pub \<noteq> PublicKeySize then Inl InvalidKeyLength
      else Inr (take 40 (EncodeToString (hash_bytes (sha pub)))))"

record Identity =
  id_NodeID :: string
  id_PublicKey :: "byte list"
  id_PrivateKey :: "byte list"

record keyFile =
  kf_PrivateKey :: "byte list"
  kf_PublicKey :: "byte list"

definition keyFile_json :: "nils \<Rightarrow> keyFile \<Rightarrow> json" where
  "keyFile_json nil kf = JObj [(''privateKey'', bytes_json nil ''privateKey'' (kf_PrivateKey kf)),
     (''publicKey'', bytes_json nil ''publicKey'' (kf_PublicKey kf))]"

definition decode_keyFile :: "keyFile decoder" where
  "decode_keyFile = decode_struct [''privateKey'', ''publicKey'']
     (\<lambda>n. if n = ''privateKey'' then into decode_bytes kf_PrivateKey (\<lambda>x k. k\<lparr>kf_PrivateKey := x\<rparr>)
          else into decode_bytes kf_PublicKey (\<lambda>x k. k\<lparr>kf_PublicKey := x\<rparr>))"

datatype key_file = KeyJson json | KeyGarbage

text \<open>Which steps fail: making the directory, reading, generating, writing or renaming.\<close>

record key_faults =
  kx_mkdir :: bool
  kx_read :: bool
  kx_generate :: bool
  kx_write :: bool

definition identity_of :: "digest \<Rightarrow> byte list \<Rightarrow> byte list \<Rightarrow> identity_error + Identity" where
  "identity_of sha pub priv =
     (case NodeIDFromPublicKey sha pub of
        Inl e \<Rightarrow> Inl e
      | Inr i \<Rightarrow> Inr \<lparr>id_NodeID = i, id_PublicKey = pub, id_PrivateKey = priv\<rparr>)"

text \<open>The branch for a key file that could be read.\<close>

definition load_identity :: "digest \<Rightarrow> key_file \<Rightarrow> identity_error + Identity" where
  "load_identity sha f =
     (case f of
        KeyGarbage \<Rightarrow> Inl BadKeyJson
      | KeyJson j \<Rightarrow>
          (case decode_keyFile j \<lparr>kf_PrivateKey = [], kf_PublicKey = []\<rparr> of
             None \<Rightarrow> Inl BadKeyJson
           | Some kf \<Rightarrow>
               if length (kf_PrivateKey kf) \<noteq> PrivateKeySize \<or> length (kf_PublicKey kf) \<noteq> PublicKeySize
               then Inl InvalidKeyFile
               else identity_of sha (kf_PublicKey kf) (kf_PrivateKey kf)))"

text \<open>\<^verbatim>\<open>writeFileAtomic\<close>: the new file, or the old one when writing or renaming fails.\<close>

definition writeKeyFile :: "key_faults \<Rightarrow> key_file \<Rightarrow> key_file option \<Rightarrow> (identity_error + unit) \<times> key_file option" where
  "writeKeyFile fx new f = (if kx_write fx then (Inl IdentityIO, f) else (Inr (), Some new))"

definition LoadOrCreate ::
  "digest \<Rightarrow> nils \<Rightarrow> key_faults \<Rightarrow> byte list \<times> byte list \<Rightarrow> string \<Rightarrow> key_file option \<Rightarrow> (identity_error + Identity) \<times> key_file option" where
  "LoadOrCreate sha nil fx generated dir f =
     (if dir = '''' then (Inl EmptyDir, f)
      else if kx_mkdir fx then (Inl IdentityIO, f)
      else if kx_read fx then (Inl IdentityIO, f)
      else (case f of
              Some kf \<Rightarrow> (load_identity sha kf, f)
            | None \<Rightarrow>
                if kx_generate fx then (Inl IdentityIO, f)
                else (let (pub, priv) = generated in
                      (case identity_of sha pub priv of
                         Inl e \<Rightarrow> (Inl e, f)
                       | Inr i \<Rightarrow>
                           (case writeKeyFile fx (KeyJson (keyFile_json nil \<lparr>kf_PrivateKey = priv, kf_PublicKey = pub\<rparr>)) f of
                              (Inl e, f) \<Rightarrow> (Inl e, f)
                            | (Inr _, f) \<Rightarrow> (Inr i, f))))))"

lemma json_coerce_bytes: "json_coerce (bytes_json nil k bs) = bytes_json nil k bs"
proof -
  have "utf8_coerce (b64_encode bs) = b64_encode bs"
    using b64_encode_chars by (intro utf8_coerce_ascii) (simp add: list_all_iff)
  then show ?thesis by (simp add: bytes_json_def)
qed

lemma decode_keyFile_json: "decode_keyFile (keyFile_json nil kf) v = Some kf"
  using decodes_bytes [of nil]
  by (simp add: decode_keyFile_def keyFile_json_def struct_simps json_coerce_bytes)

text \<open>
  The second start finds the identity of the first: what \<open>LoadOrCreate\<close> created it loads again,
  without generating.
\<close>

lemma LoadOrCreate_again:
  assumes "LoadOrCreate sha nil fx (pub, priv) dir None = (Inr i, f)" "length priv = PrivateKeySize"
    "\<not> kx_mkdir fy" "\<not> kx_read fy"
  shows "LoadOrCreate sha nil fy generated dir f = (Inr i, f) \<and> id_PublicKey i = pub \<and> id_PrivateKey i = priv"
  using assms
  by (auto simp: LoadOrCreate_def load_identity_def identity_of_def writeKeyFile_def decode_keyFile_json
      NodeIDFromPublicKey_def split: if_splits sum.splits)

text \<open>A key file whose public key does not belong to its private key is taken as it is.\<close>

lemma LoadOrCreate_any_pair:
  assumes "length priv = PrivateKeySize" "length pub = PublicKeySize" "\<not> kx_mkdir fx" "\<not> kx_read fx" "dir \<noteq> ''''"
  shows "\<exists>i. fst (LoadOrCreate sha nil fx generated dir
      (Some (KeyJson (keyFile_json nil \<lparr>kf_PrivateKey = priv, kf_PublicKey = pub\<rparr>)))) = Inr i
    \<and> id_PublicKey i = pub \<and> id_PrivateKey i = priv"
  using assms by (simp add: LoadOrCreate_def load_identity_def decode_keyFile_json identity_of_def NodeIDFromPublicKey_def)

lemma node_id_length: "NodeIDFromPublicKey sha pub = Inr i \<Longrightarrow> length i = 40"
proof -
  have "length (EncodeToString bs) = 2 * length bs" for bs by (induction bs) (simp_all add: EncodeToString_def hex_byte_def)
  then show "NodeIDFromPublicKey sha pub = Inr i \<Longrightarrow> length i = 40"
    by (auto simp: NodeIDFromPublicKey_def split: if_splits)
qed

end
