(* ===== verification/Handshake.thy ===== *)
theory Handshake
  imports Frame Identity
begin

text \<open>
  \<^verbatim>\<open>internal/transport/tcp/handshake.go\<close>: the three messages that open a connection. A
  connection is the bytes that will arrive, the bytes written and how many more writes succeed. The
  signature scheme (\<^verbatim>\<open>ed25519\<close>), the digest, the random nonce and the readings of the clock
  are arguments; the random source of \<^verbatim>\<open>crypto/rand\<close> does not fail.
\<close>

section \<open>Connections\<close>

record conn =
  cn_in :: "byte list"
  cn_out :: "byte list"
  cn_writes :: nat

datatype hs_error =
    WriteFailed | FrameError frame_error | Expected msg_type | InvalidPayload msg_type | MagicVersionMismatch
  | EchoMismatch | InvalidPubkeyNonce | SignatureInvalid | IdentityError identity_error

definition WriteFrame :: "nils \<Rightarrow> conn \<Rightarrow> message \<Rightarrow> int \<Rightarrow> (hs_error + unit) \<times> conn" where
  "WriteFrame nil c m mx =
     (case encodeFrame nil m mx of
        Inl e \<Rightarrow> (Inl (FrameError e), c)
      | Inr raw \<Rightarrow>
          (case cn_writes c of
             0 \<Rightarrow> (Inl WriteFailed, c)
           | Suc k \<Rightarrow> (Inr (), c\<lparr>cn_out := cn_out c @ raw, cn_writes := k\<rparr>)))"

definition read_message :: "conn \<Rightarrow> int \<Rightarrow> (hs_error + message) \<times> conn" where
  "read_message c mx =
     (case ReadFrame mx (cn_in c) of
        Inl e \<Rightarrow> (Inl (FrameError e), c)
      | Inr (m, rest) \<Rightarrow> (Inr m, c\<lparr>cn_in := rest\<rparr>))"

section \<open>What is signed\<close>

text \<open>\<^verbatim>\<open>binary.LittleEndian.PutUint32(uint32(version))\<close>.\<close>

definition put_le32 :: "uint32 \<Rightarrow> byte list" where
  "put_le32 n = map (\<lambda>i. ucast (drop_bit (8 * i) n)) [0..<4]"

definition handshakeSigMsg :: "byte list \<Rightarrow> string \<Rightarrow> int \<Rightarrow> byte list" where
  "handshakeSigMsg nonce magic version = nonce @ bytes_of magic @ put_le32 (word_of_int version)"

text \<open>\<^verbatim>\<open>bytesEq\<close> compares the lengths and then position by position.\<close>

fun bytes_loop :: "byte list \<Rightarrow> byte list \<Rightarrow> bool" where
  "bytes_loop (x # xs) (y # ys) = (if x \<noteq> y then False else bytes_loop xs ys)"
| "bytes_loop _ _ = True"

definition bytesEq :: "byte list \<Rightarrow> byte list \<Rightarrow> bool" where
  "bytesEq a b = (if length a \<noteq> length b then False else bytes_loop a b)"

lemma bytesEq_iff [simp]: "bytesEq a b \<longleftrightarrow> a = b"
proof -
  have "length a = length b \<Longrightarrow> bytes_loop a b \<longleftrightarrow> a = b" by (induction a b rule: list_induct2) auto
  then show ?thesis by (auto simp: bytesEq_def)
qed

section \<open>The two sides\<close>

record hs_config =
  hc_ID :: string
  hc_Priv :: "byte list"
  hc_Pub :: "byte list"
  hc_Listen :: string
  hc_Magic :: string
  hc_Version :: int
  hc_Max :: int

record crypto =
  cr_sign :: "byte list \<Rightarrow> byte list \<Rightarrow> byte list"
  cr_verify :: "byte list \<Rightarrow> byte list \<Rightarrow> byte list \<Rightarrow> bool"
  cr_sha :: digest

type_synonym peer = "string \<times> string \<times> byte list"

definition hello_message :: "hs_config \<Rightarrow> byte list \<Rightarrow> gotime \<Rightarrow> gotime \<Rightarrow> message" where
  "hello_message cf nonce t1 t2 = \<lparr>msg_Type = MsgHello, msg_From = hc_ID cf, msg_To = '''', msg_Timestamp = UnixMilli t1,
     msg_TraceID = '''', msg_Payload = HelloPayload (hc_Magic cf) (hc_Version cf) (hc_Pub cf) (hc_Listen cf) nonce (UnixMilli t2)\<rparr>"

definition auth_message :: "crypto \<Rightarrow> hs_config \<Rightarrow> string \<Rightarrow> byte list \<Rightarrow> gotime \<Rightarrow> gotime \<Rightarrow> message" where
  "auth_message cr cf to nonce t1 t2 = \<lparr>msg_Type = MsgAuth, msg_From = hc_ID cf, msg_To = to, msg_Timestamp = UnixMilli t1,
     msg_TraceID = '''', msg_Payload = AuthPayload nonce
       (cr_sign cr (hc_Priv cf) (handshakeSigMsg nonce (hc_Magic cf) (hc_Version cf))) (UnixMilli t2)\<rparr>"

definition ack_message :: "crypto \<Rightarrow> hs_config \<Rightarrow> string \<Rightarrow> byte list \<Rightarrow> byte list \<Rightarrow> gotime \<Rightarrow> gotime \<Rightarrow> message" where
  "ack_message cr cf to nonce echo t1 t2 = \<lparr>msg_Type = MsgHelloAck, msg_From = hc_ID cf, msg_To = to, msg_Timestamp = UnixMilli t1,
     msg_TraceID = '''', msg_Payload = HelloAckPayload (hc_Magic cf) (hc_Version cf) (hc_Pub cf) (hc_Listen cf) nonce echo
       (cr_sign cr (hc_Priv cf) (handshakeSigMsg echo (hc_Magic cf) (hc_Version cf))) (UnixMilli t2)\<rparr>"

text \<open>The checks of the initiator on a \<^verbatim>\<open>HelloAck\<close>: the responder and the nonce to sign.\<close>

definition check_ack :: "crypto \<Rightarrow> hs_config \<Rightarrow> byte list \<Rightarrow> message \<Rightarrow> hs_error + peer \<times> byte list" where
  "check_ack cr cf nonceA msg =
     (if msg_Type msg \<noteq> MsgHelloAck then Inl (Expected MsgHelloAck)
      else (case msg_Payload msg of
              HelloAckPayload magic version pub listen nonce echo sg _ \<Rightarrow>
                if magic \<noteq> hc_Magic cf \<or> version \<noteq> hc_Version cf then Inl MagicVersionMismatch
                else if \<not> bytesEq echo nonceA then Inl EchoMismatch
                else if length pub \<noteq> PublicKeySize \<or> length nonce = 0 then Inl InvalidPubkeyNonce
                else if \<not> cr_verify cr pub (handshakeSigMsg nonceA (hc_Magic cf) (hc_Version cf)) sg then Inl SignatureInvalid
                else (case NodeIDFromPublicKey (cr_sha cr) pub of
                        Inl e \<Rightarrow> Inl (IdentityError e)
                      | Inr i \<Rightarrow> Inr ((i, listen, pub), nonce))
            | _ \<Rightarrow> Inl (InvalidPayload MsgHelloAck)))"

definition HandshakeOutbound ::
  "crypto \<Rightarrow> nils \<Rightarrow> hs_config \<Rightarrow> byte list \<Rightarrow> (nat \<Rightarrow> gotime) \<Rightarrow> conn \<Rightarrow> (hs_error + peer) \<times> conn" where
  "HandshakeOutbound cr nil cf nonceA now c =
     (case WriteFrame nil c (hello_message cf nonceA (now 0) (now 1)) (hc_Max cf) of
        (Inl e, c) \<Rightarrow> (Inl e, c)
      | (Inr _, c) \<Rightarrow>
          (case read_message c (hc_Max cf) of
             (Inl e, c) \<Rightarrow> (Inl e, c)
           | (Inr msg, c) \<Rightarrow>
               (case check_ack cr cf nonceA msg of
                  Inl e \<Rightarrow> (Inl e, c)
                | Inr (p, nonce) \<Rightarrow>
                    (case WriteFrame nil c (auth_message cr cf (fst p) nonce (now 2) (now 3)) (hc_Max cf) of
                       (Inl e, c) \<Rightarrow> (Inl e, c)
                     | (Inr _, c) \<Rightarrow> (Inr p, c)))))"

text \<open>The checks of the responder on a \<^verbatim>\<open>Hello\<close> and on an \<^verbatim>\<open>Auth\<close>.\<close>

definition check_hello :: "crypto \<Rightarrow> hs_config \<Rightarrow> message \<Rightarrow> hs_error + peer \<times> byte list" where
  "check_hello cr cf msg =
     (if msg_Type msg \<noteq> MsgHello then Inl (Expected MsgHello)
      else (case msg_Payload msg of
              HelloPayload magic version pub listen nonce _ \<Rightarrow>
                if magic \<noteq> hc_Magic cf \<or> version \<noteq> hc_Version cf then Inl MagicVersionMismatch
                else if length pub \<noteq> PublicKeySize \<or> length nonce = 0 then Inl InvalidPubkeyNonce
                else (case NodeIDFromPublicKey (cr_sha cr) pub of
                        Inl e \<Rightarrow> Inl (IdentityError e)
                      | Inr i \<Rightarrow> Inr ((i, listen, pub), nonce))
            | _ \<Rightarrow> Inl (InvalidPayload MsgHello)))"

definition check_auth :: "crypto \<Rightarrow> hs_config \<Rightarrow> byte list \<Rightarrow> byte list \<Rightarrow> message \<Rightarrow> hs_error + unit" where
  "check_auth cr cf pub nonceB msg =
     (if msg_Type msg \<noteq> MsgAuth then Inl (Expected MsgAuth)
      else (case msg_Payload msg of
              AuthPayload echo sg _ \<Rightarrow>
                if \<not> bytesEq echo nonceB then Inl EchoMismatch
                else if \<not> cr_verify cr pub (handshakeSigMsg nonceB (hc_Magic cf) (hc_Version cf)) sg then Inl SignatureInvalid
                else Inr ()
            | _ \<Rightarrow> Inl (InvalidPayload MsgAuth)))"

definition HandshakeInbound ::
  "crypto \<Rightarrow> nils \<Rightarrow> hs_config \<Rightarrow> byte list \<Rightarrow> (nat \<Rightarrow> gotime) \<Rightarrow> conn \<Rightarrow> (hs_error + peer) \<times> conn" where
  "HandshakeInbound cr nil cf nonceB now c =
     (case read_message c (hc_Max cf) of
        (Inl e, c) \<Rightarrow> (Inl e, c)
      | (Inr msg, c) \<Rightarrow>
          (case check_hello cr cf msg of
             Inl e \<Rightarrow> (Inl e, c)
           | Inr (p, nonce) \<Rightarrow>
               (case WriteFrame nil c (ack_message cr cf (fst p) nonceB nonce (now 0) (now 1)) (hc_Max cf) of
                  (Inl e, c) \<Rightarrow> (Inl e, c)
                | (Inr _, c) \<Rightarrow>
                    (case read_message c (hc_Max cf) of
                       (Inl e, c) \<Rightarrow> (Inl e, c)
                     | (Inr msg, c) \<Rightarrow>
                         (case check_auth cr cf (snd (snd p)) nonceB msg of
                            Inl e \<Rightarrow> (Inl e, c)
                          | Inr _ \<Rightarrow> (Inr p, c))))))"

end
