(* ===== verification/HandshakeProps.thy ===== *)
theory HandshakeProps
  imports Handshake
begin

text \<open>
  What the handshake gives and what it does not: honest ends agree on each other, an accepted peer has
  shown a signature over the fresh nonce, and, because the signed text names neither the role nor the
  peer, any responder signs what another connection needs.
\<close>

section \<open>Writing and reading frames\<close>

definition frame :: "nils \<Rightarrow> message \<Rightarrow> byte list" where
  "frame nil m = put_be32 (of_nat (length (frame_text nil m))) @ frame_text nil m"

definition fits :: "nils \<Rightarrow> int \<Rightarrow> message \<Rightarrow> bool" where
  "fits nil mx m \<longleftrightarrow> int (length (frame_text nil m)) \<le> mx"

lemma encodeFrame_fits: "fits nil mx m \<Longrightarrow> encodeFrame nil m mx = Inr (frame nil m)"
  by (simp add: encodeFrame_def fits_def frame_def Let_def)

lemma WriteFrame_fits:
  "fits nil mx m \<Longrightarrow> WriteFrame nil \<lparr>cn_in = i, cn_out = out, cn_writes = Suc k\<rparr> m mx
     = (Inr (), \<lparr>cn_in = i, cn_out = out @ frame nil m, cn_writes = k\<rparr>)"
  by (simp add: WriteFrame_def encodeFrame_fits)

lemma ReadFrame_frame:
  "fits nil mx m \<Longrightarrow> mx < 2 ^ 32 \<Longrightarrow> sendable m \<Longrightarrow> ReadFrame mx (frame nil m @ rest) = Inr (json_message m, rest)"
  unfolding ReadFrame_def by (rule read_one_frame [OF encodeFrame_fits]) simp_all

lemma read_message_frame:
  "fits nil mx m \<Longrightarrow> mx < 2 ^ 32 \<Longrightarrow> sendable m \<Longrightarrow>
   read_message \<lparr>cn_in = frame nil m @ rest, cn_out = out, cn_writes = k\<rparr> mx
     = (Inr (json_message m), \<lparr>cn_in = rest, cn_out = out, cn_writes = k\<rparr>)"
  by (simp add: read_message_def ReadFrame_frame)

lemma read_message_empty:
  "read_message \<lparr>cn_in = [], cn_out = out, cn_writes = k\<rparr> mx = (Inl (FrameError ShortRead), \<lparr>cn_in = [], cn_out = out, cn_writes = k\<rparr>)"
  by (simp add: read_message_def ReadFrame_def ReadFrameWithLimit_def ReadFull_def)

section \<open>Honest nodes\<close>

text \<open>Key pair, id and texts of a node whose identity was loaded and whose configuration is well-formed.\<close>

definition honest :: "crypto \<Rightarrow> hs_config \<Rightarrow> bool" where
  "honest cr cf \<longleftrightarrow> (\<forall>m. cr_verify cr (hc_Pub cf) m (cr_sign cr (hc_Priv cf) m)) \<and>
     NodeIDFromPublicKey (cr_sha cr) (hc_Pub cf) = Inr (hc_ID cf) \<and>
     valid_utf8 (hc_Magic cf) \<and> valid_utf8 (hc_Listen cf) \<and> go_int (hc_Version cf) \<and> hc_Max cf < 2 ^ 32"

definition same_net :: "hs_config \<Rightarrow> hs_config \<Rightarrow> bool" where
  "same_net a b \<longleftrightarrow> hc_Magic a = hc_Magic b \<and> hc_Version a = hc_Version b"

lemma node_id_key: "NodeIDFromPublicKey sha pub = Inr i \<Longrightarrow> length pub = PublicKeySize"
  by (simp add: NodeIDFromPublicKey_def split: if_splits)

lemma honest_pub: "honest cr cf \<Longrightarrow> length (hc_Pub cf) = PublicKeySize"
  by (auto simp: honest_def intro: node_id_key)

lemma sendable_handshake:
  "go_int (hc_Version cf) \<Longrightarrow> sendable (hello_message cf n t u)"
  "go_int (hc_Version cf) \<Longrightarrow> sendable (ack_message cr cf to n e t u)"
  "sendable (auth_message cr cf to n t u)"
  by (simp_all add: sendable_def hello_message_def ack_message_def auth_message_def)

lemma check_hello_read:
  assumes "valid_utf8 (hc_Magic a)" "valid_utf8 (hc_Listen a)" "same_net a b" "n \<noteq> []"
    "NodeIDFromPublicKey (cr_sha cr) (hc_Pub a) = Inr i"
  shows "check_hello cr b (json_message (hello_message a n t u)) = Inr ((i, hc_Listen a, hc_Pub a), n)"
proof -
  have "length (hc_Pub a) = PublicKeySize" using assms(5) by (rule node_id_key)
  then show ?thesis using assms
    by (simp add: check_hello_def hello_message_def json_message_def utf8_coerce_ascii utf8_coerce_valid same_net_def)
qed

lemma check_ack_read:
  assumes "honest cr b" "same_net a b" "n \<noteq> []"
  shows "check_ack cr a e (json_message (ack_message cr b to n e t u)) = Inr ((hc_ID b, hc_Listen b, hc_Pub b), n)"
  using assms honest_pub [OF assms(1)]
  by (simp add: check_ack_def ack_message_def json_message_def utf8_coerce_ascii utf8_coerce_valid same_net_def honest_def)

lemma check_auth_read:
  assumes "honest cr a" "same_net a b"
  shows "check_auth cr b (hc_Pub a) n (json_message (auth_message cr a to n t u)) = Inr ()"
  using assms by (simp add: check_auth_def auth_message_def json_message_def utf8_coerce_ascii same_net_def honest_def)

lemma outbound_honest:
  assumes "honest cr a" "honest cr b" "same_net a b" "nonceB \<noteq> []"
    and h: "hello = hello_message a nonceA (nowA 0) (nowA 1)"
    and k: "ack = ack_message cr b (hc_ID a) nonceB nonceA t u"
    and u: "auth = auth_message cr a (hc_ID b) nonceB (nowA 2) (nowA 3)"
    and fit: "fits nil (hc_Max a) hello" "fits nil (hc_Max a) ack" "fits nil (hc_Max a) auth"
  shows "HandshakeOutbound cr nil a nonceA nowA \<lparr>cn_in = frame nil ack @ tail, cn_out = [], cn_writes = Suc (Suc j)\<rparr>
       = (Inr (hc_ID b, hc_Listen b, hc_Pub b), \<lparr>cn_in = tail, cn_out = frame nil hello @ frame nil auth, cn_writes = j\<rparr>)"
proof -
  have m: "hc_Max a < 2 ^ 32" and v: "go_int (hc_Version a)" "go_int (hc_Version b)" using assms(1,2) by (simp_all add: honest_def)
  have s: "sendable hello" "sendable ack" "sendable auth" using v by (simp_all add: h k u sendable_handshake)
  have c: "check_ack cr a nonceA (json_message ack) = Inr ((hc_ID b, hc_Listen b, hc_Pub b), nonceB)"
    unfolding k by (rule check_ack_read [OF assms(2,3,4)])
  show ?thesis using m unfolding HandshakeOutbound_def
    by (simp add: h [symmetric] u [symmetric] WriteFrame_fits fit read_message_frame s c del: One_nat_def)
qed

lemma inbound_honest:
  assumes "honest cr a" "honest cr b" "same_net a b" "nonceA \<noteq> []"
    and h: "hello = hello_message a nonceA s t"
    and k: "ack = ack_message cr b (hc_ID a) nonceB nonceA (nowB 0) (nowB 1)"
    and u: "auth = auth_message cr a (hc_ID b) nonceB v w"
    and fit: "fits nil (hc_Max b) hello" "fits nil (hc_Max b) ack" "fits nil (hc_Max b) auth"
  shows "HandshakeInbound cr nil b nonceB nowB \<lparr>cn_in = frame nil hello @ frame nil auth @ tail, cn_out = [], cn_writes = Suc j\<rparr>
       = (Inr (hc_ID a, hc_Listen a, hc_Pub a), \<lparr>cn_in = tail, cn_out = frame nil ack, cn_writes = j\<rparr>)"
proof -
  have m: "hc_Max b < 2 ^ 32" and g: "go_int (hc_Version a)" "go_int (hc_Version b)" using assms(1,2) by (simp_all add: honest_def)
  have e: "sendable hello" "sendable ack" "sendable auth" using g by (simp_all add: h k u sendable_handshake)
  have c1: "check_hello cr b (json_message hello) = Inr ((hc_ID a, hc_Listen a, hc_Pub a), nonceA)"
    unfolding h using assms(1) by (intro check_hello_read assms) (simp_all add: honest_def)
  have c2: "check_auth cr b (hc_Pub a) nonceB (json_message auth) = Inr ()"
    unfolding u by (rule check_auth_read [OF assms(1,3)])
  show ?thesis using m unfolding HandshakeInbound_def
    by (simp add: k [symmetric] WriteFrame_fits fit read_message_frame e c1 c2 del: One_nat_def)
qed

lemma accepted_signed:
  assumes "HandshakeOutbound cr nil cf nonce now c = (Inr (i, listen, pub), c1) \<or>
     HandshakeInbound cr nil cf nonce now c = (Inr (i, listen, pub), c1)"
  shows "NodeIDFromPublicKey (cr_sha cr) pub = Inr i \<and> length i = 40 \<and> length pub = PublicKeySize \<and>
     (\<exists>k ms sg. (\<exists>rest. read_frames k (hc_Max cf) None (cn_in c) = Inr (ms, rest)) \<and>
        cr_verify cr pub (handshakeSigMsg nonce (hc_Magic cf) (hc_Version cf)) sg \<and>
        (\<exists>m \<in> set ms. (\<exists>ts. msg_Payload m = AuthPayload nonce sg ts) \<or>
           (\<exists>n ts. msg_Payload m = HelloAckPayload (hc_Magic cf) (hc_Version cf) pub listen n nonce sg ts)))"
  using assms
proof
  assume "HandshakeOutbound cr nil cf nonce now c = (Inr (i, listen, pub), c1)"
  then obtain m rest n where m: "ReadFrame (hc_Max cf) (cn_in c) = Inr (m, rest)" "check_ack cr cf nonce m = Inr ((i, listen, pub), n)"
    by (auto simp: HandshakeOutbound_def read_message_def WriteFrame_def split: sum.splits prod.splits nat.splits)
  from m(2) obtain sg ts where p: "msg_Payload m = HelloAckPayload (hc_Magic cf) (hc_Version cf) pub listen n nonce sg ts"
    "cr_verify cr pub (handshakeSigMsg nonce (hc_Magic cf) (hc_Version cf)) sg" "NodeIDFromPublicKey (cr_sha cr) pub = Inr i"
    by (auto simp: check_ack_def split: payload.splits if_splits sum.splits)
  have "read_frames 1 (hc_Max cf) None (cn_in c) = Inr ([m], rest)" using m(1) by (simp add: ReadFrame_def)
  with p show ?thesis using node_id_length [OF p(3)] node_id_key [OF p(3)]
      list.set_intros(1) [of m "[]"] by blast
next
  assume "HandshakeInbound cr nil cf nonce now c = (Inr (i, listen, pub), c1)"
  then obtain m1 rest1 n m2 rest2 where m: "ReadFrame (hc_Max cf) (cn_in c) = Inr (m1, rest1)"
    "check_hello cr cf m1 = Inr ((i, listen, pub), n)" "ReadFrame (hc_Max cf) rest1 = Inr (m2, rest2)"
    "check_auth cr cf pub nonce m2 = Inr ()"
    by (auto simp: HandshakeInbound_def read_message_def WriteFrame_def split: sum.splits prod.splits nat.splits)
  from m(2) have i: "NodeIDFromPublicKey (cr_sha cr) pub = Inr i"
    by (auto simp: check_hello_def split: payload.splits if_splits sum.splits)
  from m(4) obtain sg ts where p: "msg_Payload m2 = AuthPayload nonce sg ts"
    "cr_verify cr pub (handshakeSigMsg nonce (hc_Magic cf) (hc_Version cf)) sg"
    by (auto simp: check_auth_def split: payload.splits if_splits)
  have "read_frames 2 (hc_Max cf) None (cn_in c) = Inr ([m1, m2], rest2)"
    using m(1,3) by (simp add: ReadFrame_def numeral_2_eq_2)
  with p i show ?thesis using node_id_length [OF i] node_id_key [OF i]
      list.set_intros(2) [OF list.set_intros(1), of m2 m1 "[]"] by blast
qed

section \<open>Properties\<close>

text \<open>
  C22: Two honest nodes of one network agree: when the dialing side reads what the accepting side wrote and
  the other way round, both handshakes succeed, each names the other's node id, listen address and
  public key, and each leaves unread exactly what follows the handshake.
\<close>

theorem handshake_agrees:
  assumes "honest cr a" "honest cr b" "same_net a b" "nonceA \<noteq> []" "nonceB \<noteq> []"
    and h: "hello = hello_message a nonceA (nowA 0) (nowA 1)"
    and k: "ack = ack_message cr b (hc_ID a) nonceB nonceA (nowB 0) (nowB 1)"
    and u: "auth = auth_message cr a (hc_ID b) nonceB (nowA 2) (nowA 3)"
    and fit: "\<forall>m \<in> {hello, ack, auth}. fits nil (hc_Max a) m \<and> fits nil (hc_Max b) m"
  shows "HandshakeOutbound cr nil a nonceA nowA \<lparr>cn_in = frame nil ack @ moreB, cn_out = [], cn_writes = Suc (Suc ka)\<rparr>
       = (Inr (hc_ID b, hc_Listen b, hc_Pub b), \<lparr>cn_in = moreB, cn_out = frame nil hello @ frame nil auth, cn_writes = ka\<rparr>) \<and>
     HandshakeInbound cr nil b nonceB nowB \<lparr>cn_in = frame nil hello @ frame nil auth @ moreA, cn_out = [], cn_writes = Suc kb\<rparr>
       = (Inr (hc_ID a, hc_Listen a, hc_Pub a), \<lparr>cn_in = moreA, cn_out = frame nil ack, cn_writes = kb\<rparr>)"
  using outbound_honest [OF assms(1-3,5) h k u] inbound_honest [OF assms(1-4) h k u] fit by simp

text \<open>
  C23: A handshake only accepts a peer that answered the fresh nonce: when \<open>HandshakeOutbound\<close> or
  \<open>HandshakeInbound\<close> returns a peer, the peer's id is the id of its 32-byte public key, and one of the
  messages read on this connection, which echoes the nonce drawn for it, carries a signature over this
  nonce, the magic and the version that verifies under that key. The peer's listen address is only
  claimed.
\<close>

theorem accepted_peer_signed_nonce:
  assumes "HandshakeOutbound cr nil cf nonce now c = (Inr (i, listen, pub), c1) \<or>
     HandshakeInbound cr nil cf nonce now c = (Inr (i, listen, pub), c1)"
  shows "NodeIDFromPublicKey (cr_sha cr) pub = Inr i \<and> length i = 40 \<and> length pub = PublicKeySize \<and>
     (\<exists>k ms sg. (\<exists>rest. read_frames k (hc_Max cf) None (cn_in c) = Inr (ms, rest)) \<and>
        cr_verify cr pub (handshakeSigMsg nonce (hc_Magic cf) (hc_Version cf)) sg \<and>
        (\<exists>m \<in> set ms. (\<exists>ts. msg_Payload m = AuthPayload nonce sg ts) \<or>
           (\<exists>n ts. msg_Payload m = HelloAckPayload (hc_Magic cf) (hc_Version cf) pub listen n nonce sg ts)))"
  using assms by (rule accepted_signed)

text \<open>
  A responder is a signing oracle: somebody without any private key, who opens one connection to \<open>b\<close>
  in the name of \<open>c\<close> and one to \<open>c\<close>, sends \<open>c\<close> the nonce of \<open>b\<close> as its own, and passes the signature
  of \<open>c\<close>'s \<^verbatim>\<open>HelloAck\<close> on as its \<^verbatim>\<open>Auth\<close>, is accepted by \<open>b\<close> as \<open>c\<close>, under a
  listen address of its choice. The two honest nodes never exchange a byte.
\<close>

definition stolen_sig :: "message \<Rightarrow> byte list option" where
  "stolen_sig m = (case msg_Payload m of HelloAckPayload _ _ _ _ _ _ sg _ \<Rightarrow> Some sg | _ \<Rightarrow> None)"

definition forged_auth :: "byte list \<Rightarrow> byte list \<Rightarrow> message" where
  "forged_auth nonce sg = \<lparr>msg_Type = MsgAuth, msg_From = '''', msg_To = '''', msg_Timestamp = 0, msg_TraceID = '''',
     msg_Payload = AuthPayload nonce sg 0\<rparr>"

lemma signing_oracle:
  assumes "honest cr b" "honest cr c" "same_net b c" "same_net m c" "nonceB \<noteq> []" "n \<noteq> []" "valid_utf8 (hc_Listen m)"
    "NodeIDFromPublicKey (cr_sha cr) (hc_Pub m) = Inr (hc_ID m)"
    and h1: "hello1 = hello_message (m\<lparr>hc_Pub := hc_Pub c\<rparr>) n 0 0" and h2: "hello2 = hello_message m nonceB 0 0"
    and kb: "ackB = ack_message cr b (hc_ID c) nonceB n (nowB 0) (nowB 1)"
    and kc: "ackC = ack_message cr c (hc_ID m) nonceC nonceB (nowC 0) (nowC 1)"
    and fit: "fits nil (hc_Max c) hello2" "fits nil (hc_Max c) ackC" "fits nil (hc_Max b) hello1" "fits nil (hc_Max b) ackB"
      "fits nil (hc_Max b) (forged_auth nonceB (cr_sign cr (hc_Priv c) (handshakeSigMsg nonceB (hc_Magic c) (hc_Version c))))"
  shows "\<exists>got sg. ReadFrame (hc_Max c)
       (cn_out (snd (HandshakeInbound cr nil c nonceC nowC \<lparr>cn_in = frame nil hello2, cn_out = [], cn_writes = Suc k\<rparr>))) = Inr (got, [])
     \<and> stolen_sig got = Some sg
     \<and> fst (HandshakeInbound cr nil b nonceB nowB \<lparr>cn_in = frame nil hello1 @ frame nil (forged_auth nonceB sg), cn_out = [], cn_writes = Suc k\<rparr>)
        = Inr (hc_ID c, hc_Listen m, hc_Pub c)"
proof -
  have mx: "hc_Max b < 2 ^ 32" "hc_Max c < 2 ^ 32" and v: "go_int (hc_Version b)" "go_int (hc_Version c)" "go_int (hc_Version m)"
    and u: "valid_utf8 (hc_Magic m)" and i: "NodeIDFromPublicKey (cr_sha cr) (hc_Pub c) = Inr (hc_ID c)"
    using assms(1-4) by (auto simp: honest_def same_net_def)
  have s: "sendable hello1" "sendable hello2" "sendable ackB" "sendable ackC" "sendable (forged_auth nonceB sg)" for sg
    using v by (simp_all add: h1 h2 kb kc sendable_handshake) (simp add: sendable_def forged_auth_def)
  let ?sg = "cr_sign cr (hc_Priv c) (handshakeSigMsg nonceB (hc_Magic c) (hc_Version c))"
  have c2: "check_hello cr c (json_message hello2) = Inr ((hc_ID m, hc_Listen m, hc_Pub m), nonceB)"
    unfolding h2 by (rule check_hello_read [OF u assms(7,4,5,8)])
  have c1: "check_hello cr b (json_message hello1) = Inr ((hc_ID c, hc_Listen m, hc_Pub c), n)"
    unfolding h1 using assms(3,4,6,7) u i
      check_hello_read [of "m\<lparr>hc_Pub := hc_Pub c\<rparr>" b n cr "hc_ID c" 0 0] by (simp add: same_net_def)
  have c3: "check_auth cr b (hc_Pub c) nonceB (json_message (forged_auth nonceB ?sg)) = Inr ()"
    using assms(2,3) by (simp add: check_auth_def forged_auth_def json_message_def utf8_coerce_ascii same_net_def honest_def)
  have "cn_out (snd (HandshakeInbound cr nil c nonceC nowC \<lparr>cn_in = frame nil hello2, cn_out = [], cn_writes = Suc k\<rparr>)) = frame nil ackC"
    using mx fit read_message_frame [of nil "hc_Max c" hello2 "[]"] unfolding HandshakeInbound_def
    by (simp add: WriteFrame_fits s c2 kc [symmetric] read_message_empty del: One_nat_def)
  moreover have "ReadFrame (hc_Max c) (frame nil ackC) = Inr (json_message ackC, [])"
    using ReadFrame_frame [of nil "hc_Max c" ackC "[]"] fit mx s by simp
  moreover have "stolen_sig (json_message ackC) = Some ?sg"
    by (simp add: stolen_sig_def kc ack_message_def json_message_def)
  moreover have "fst (HandshakeInbound cr nil b nonceB nowB
      \<lparr>cn_in = frame nil hello1 @ frame nil (forged_auth nonceB ?sg), cn_out = [], cn_writes = Suc k\<rparr>) = Inr (hc_ID c, hc_Listen m, hc_Pub c)"
    using mx fit read_message_frame [of nil "hc_Max b" "forged_auth nonceB ?sg" "[]"] unfolding HandshakeInbound_def
    by (simp add: WriteFrame_fits s c1 c3 kb [symmetric] read_message_frame del: One_nat_def)
  ultimately show ?thesis by (intro exI [of _ "json_message ackC"] exI [of _ ?sg]) simp
qed

section \<open>Two nodes and an outsider\<close>

text \<open>A toy signature scheme in which both keys of a pair start with the same byte, and a toy digest.\<close>

definition demo_crypto :: crypto where
  "demo_crypto = \<lparr>cr_sign = (\<lambda>priv m. hd priv # m), cr_verify = (\<lambda>pub m s. s = hd pub # m), cr_sha = (\<lambda>bs. if hd bs = 2 then 0x1000000000000000000000000 else ucast (hd bs))\<rparr>"

definition demo_id :: "byte \<Rightarrow> string" where
  "demo_id k = take 40 (EncodeToString (hash_bytes (if k = 2 then 0x1000000000000000000000000 else ucast k)))"

definition demo_node :: "byte \<Rightarrow> string \<Rightarrow> hs_config" where
  "demo_node k listen = \<lparr>hc_ID = demo_id k, hc_Priv = replicate 64 k, hc_Pub = replicate 32 k,
     hc_Listen = listen, hc_Magic = ''simchain-go'', hc_Version = 1, hc_Max = 2097152\<rparr>"

definition demo_nonce :: "byte list" where
  "demo_nonce = replicate 32 7"

lemma demo_honest: "honest demo_crypto (demo_node k ''localhost:7000'')"
proof -
  have "valid_utf8 ''simchain-go''" "valid_utf8 ''localhost:7000''" by (rule ascii_valid; simp)+
  then show ?thesis
    by (simp add: honest_def demo_crypto_def demo_node_def demo_id_def NodeIDFromPublicKey_def PublicKeySize_def go_int_def numeral_eq_Suc)
qed

lemma demo_same_net: "same_net (demo_node j l) (demo_node k l')"
  by (simp add: same_net_def demo_node_def)

text \<open>The messages of the examples fit into two megabytes.\<close>

lemma demo_fits_hello: "fits (\<lambda>_. False) 2097152 (hello_message (demo_node 1 ''localhost:7000'') demo_nonce 0 0)"
  by code_simp

lemma demo_fits_ack: "fits (\<lambda>_. False) 2097152
    (ack_message demo_crypto (demo_node 2 ''localhost:7000'') (demo_id 1) demo_nonce demo_nonce 0 0)"
  by code_simp

lemma demo_fits_auth: "fits (\<lambda>_. False) 2097152
    (auth_message demo_crypto (demo_node 1 ''localhost:7000'') (demo_id 2) demo_nonce 0 0)"
  by code_simp

lemma demo_ids:
  "hc_ID (demo_node k l) = demo_id k" "hc_Max (demo_node k l) = 2097152" "hc_Listen (demo_node k l) = l"
  "hc_Pub (demo_node k l) = replicate 32 k" "hc_Magic (demo_node k l) = ''simchain-go''" "hc_Version (demo_node k l) = 1"
  "hc_Priv (demo_node k l) = replicate 64 k"
  by (simp_all add: demo_node_def)

lemma demo_nonce_nonempty: "demo_nonce \<noteq> []"
  by (simp add: demo_nonce_def)

definition demo_hello :: "byte list" where
  "demo_hello = frame (\<lambda>_. False) (hello_message (demo_node 1 ''localhost:7000'') demo_nonce 0 0)"

definition demo_ack :: "byte list" where
  "demo_ack = frame (\<lambda>_. False) (ack_message demo_crypto (demo_node 2 ''localhost:7000'') (demo_id 1) demo_nonce demo_nonce 0 0)"

definition demo_auth :: "byte list" where
  "demo_auth = frame (\<lambda>_. False) (auth_message demo_crypto (demo_node 1 ''localhost:7000'') (demo_id 2) demo_nonce 0 0)"

lemma demo_handshake:
  defines "a \<equiv> demo_node 1 ''localhost:7000''" and "b \<equiv> demo_node 2 ''localhost:7000''"
  shows "\<forall>m \<in> {hello_message a demo_nonce 0 0, ack_message demo_crypto b (hc_ID a) demo_nonce demo_nonce 0 0,
        auth_message demo_crypto a (hc_ID b) demo_nonce 0 0}.
      fits (\<lambda>_. False) (hc_Max a) m \<and> fits (\<lambda>_. False) (hc_Max b) m"
  using demo_fits_hello demo_fits_ack demo_fits_auth by (simp add: a_def b_def demo_ids)

theorem handshake_agrees_witness:
  "HandshakeInbound demo_crypto (\<lambda>_. False) (demo_node 2 ''localhost:7000'') demo_nonce (\<lambda>_. 0)
       \<lparr>cn_in = demo_hello @ demo_auth @ [], cn_out = [], cn_writes = Suc 0\<rparr>
     = (Inr (demo_id 1, ''localhost:7000'', replicate 32 1), \<lparr>cn_in = [], cn_out = demo_ack, cn_writes = 0\<rparr>)"
  using handshake_agrees [OF demo_honest demo_honest demo_same_net demo_nonce_nonempty demo_nonce_nonempty refl refl refl demo_handshake,
      of "[]" 0 "[]" 0]
  unfolding demo_hello_def demo_auth_def demo_ack_def demo_ids by (rule conjunct2)

lemma demo_inbound:
  "HandshakeInbound demo_crypto (\<lambda>_. False) (demo_node 2 ''localhost:7000'') demo_nonce (\<lambda>_. 0)
       \<lparr>cn_in = demo_hello @ demo_auth @ [], cn_out = [], cn_writes = Suc 0\<rparr>
     = (Inr (demo_id 1, ''localhost:7000'', replicate 32 1), \<lparr>cn_in = [], cn_out = demo_ack, cn_writes = 0\<rparr>)"
  using inbound_honest [OF demo_honest demo_honest demo_same_net demo_nonce_nonempty refl refl refl,
      where nonceB = demo_nonce and nowB = "\<lambda>_. 0" and s = 0 and t = 0 and v = 0 and w = 0 and tail = "[]" and j = 0 and nil = "\<lambda>_. False"]
    demo_handshake
  unfolding demo_hello_def demo_auth_def demo_ack_def by (simp add: demo_ids)

theorem accepted_peer_signed_nonce_witness:
  "\<exists>ms sg k rest. read_frames k 2097152 None (demo_hello @ demo_auth @ []) = Inr (ms, rest) \<and>
     cr_verify demo_crypto (replicate 32 1) (handshakeSigMsg demo_nonce ''simchain-go'' 1) sg"
  using accepted_peer_signed_nonce [OF disjI2, OF demo_inbound] unfolding demo_ids conn.select_convs by blast

text \<open>The outsider's messages: \<open>b\<close> is node 2, \<open>c\<close> node 1, the outsider has the key of nobody.\<close>

lemma demo_fits_oracle:
  "fits (\<lambda>_. False) 2097152 (hello_message (demo_node 3 ''localhost:9000'') demo_nonce 0 0)"
  "fits (\<lambda>_. False) 2097152 (ack_message demo_crypto (demo_node 1 ''localhost:7000'') (demo_id 3) demo_nonce demo_nonce 0 0)"
  "fits (\<lambda>_. False) 2097152 (hello_message ((demo_node 3 ''localhost:9000'')\<lparr>hc_Pub := replicate 32 1\<rparr>) demo_nonce 0 0)"
  "fits (\<lambda>_. False) 2097152 (forged_auth demo_nonce (1 # handshakeSigMsg demo_nonce ''simchain-go'' 1))"
  by code_simp+

lemma signing_oracle_witness:
  "\<exists>sg. fst (HandshakeInbound demo_crypto (\<lambda>_. False) (demo_node 2 ''localhost:7000'') demo_nonce (\<lambda>_. 0)
      \<lparr>cn_in = frame (\<lambda>_. False) (hello_message ((demo_node 3 ''localhost:9000'')\<lparr>hc_Pub := replicate 32 1\<rparr>) demo_nonce 0 0)
          @ frame (\<lambda>_. False) (forged_auth demo_nonce sg), cn_out = [], cn_writes = Suc 0\<rparr>)
     = Inr (demo_id 1, ''localhost:9000'', replicate 32 1)"
proof -
  let ?c = "demo_node 1 ''localhost:7000''" let ?b = "demo_node 2 ''localhost:7000''" let ?m = "demo_node 3 ''localhost:9000''"
  have n: "NodeIDFromPublicKey (cr_sha demo_crypto) (hc_Pub ?m) = Inr (hc_ID ?m)"
    by (simp add: NodeIDFromPublicKey_def demo_crypto_def demo_node_def demo_id_def PublicKeySize_def numeral_eq_Suc)
  have v: "valid_utf8 (hc_Listen ?m)" unfolding demo_ids by (rule ascii_valid) simp
  have s: "cr_sign demo_crypto (hc_Priv ?c) x = 1 # x" for x by (simp add: demo_crypto_def demo_node_def numeral_eq_Suc)
  have f: "fits (\<lambda>_. False) (hc_Max ?c) (hello_message ?m demo_nonce 0 0)"
    "fits (\<lambda>_. False) (hc_Max ?c) (ack_message demo_crypto ?c (hc_ID ?m) demo_nonce demo_nonce 0 0)"
    "fits (\<lambda>_. False) (hc_Max ?b) (hello_message (?m\<lparr>hc_Pub := hc_Pub ?c\<rparr>) demo_nonce 0 0)"
    "fits (\<lambda>_. False) (hc_Max ?b) (ack_message demo_crypto ?b (hc_ID ?c) demo_nonce demo_nonce 0 0)"
    "fits (\<lambda>_. False) (hc_Max ?b) (forged_auth demo_nonce (cr_sign demo_crypto (hc_Priv ?c) (handshakeSigMsg demo_nonce (hc_Magic ?c) (hc_Version ?c))))"
    unfolding s using demo_fits_oracle demo_fits_ack by (simp_all add: demo_ids)
  show ?thesis
    using signing_oracle [OF demo_honest demo_honest demo_same_net demo_same_net demo_nonce_nonempty demo_nonce_nonempty v n
      refl refl refl refl f, where k = 0]
    by (auto simp: demo_ids)
qed

end
