(* ===== verification/NetAddr.thy ===== *)
theory NetAddr
  imports JsonParse
begin

text \<open>
  Network addresses as the TCP transport and \<^verbatim>\<open>cmd/node\<close> read them:
  \<^verbatim>\<open>net.SplitHostPort\<close>, \<^verbatim>\<open>net.ParseIP\<close> with \<^verbatim>\<open>IsLoopback\<close>,
  \<^verbatim>\<open>strconv.Atoi\<close>, \<^verbatim>\<open>strings.TrimSpace\<close> and \<^verbatim>\<open>strings.Split\<close>, and
  the functions of the program that are built from them.
\<close>

section \<open>Strings\<close>

text \<open>The UTF-8 forms of the runes for which \<^verbatim>\<open>unicode.IsSpace\<close> holds.\<close>

definition space_runes :: "string list" where
  "space_runes = map (\<lambda>c. [c]) [CHR 0x20, CHR 0x09, CHR 0x0A, CHR 0x0B, CHR 0x0C, CHR 0x0D] @
     [[CHR 0xC2, CHR 0x85], [CHR 0xC2, CHR 0xA0], [CHR 0xE1, CHR 0x9A, CHR 0x80]] @
     map (\<lambda>n. [CHR 0xE2, CHR 0x80, char_of n]) ([0x80..<0x8B::nat] @ [0xA8, 0xA9, 0xAF]) @
     [[CHR 0xE2, CHR 0x81, CHR 0x9F], [CHR 0xE3, CHR 0x80, CHR 0x80]]"

definition space_prefix :: "string list \<Rightarrow> string \<Rightarrow> string option" where
  "space_prefix rs s = find (\<lambda>r. r \<noteq> [] \<and> take (length r) s = r) rs"

function trim_front :: "string list \<Rightarrow> string \<Rightarrow> string" where
  "trim_front rs s = (case space_prefix rs s of None \<Rightarrow> s | Some r \<Rightarrow> trim_front rs (drop (length r) s))"
  by pat_completeness auto
termination
proof (relation "measure (\<lambda>(rs, s). length s)")
  fix rs s r assume "space_prefix rs s = Some r"
  then have "r \<noteq> []" "take (length r) s = r" by (auto simp: space_prefix_def find_Some_iff)
  then have "0 < length r" "s \<noteq> []" by auto
  then show "((rs, drop (length r) s), (rs, s)) \<in> measure (\<lambda>(rs, s). length s)" by simp
qed simp

declare trim_front.simps [simp del]

definition TrimSpace :: "string \<Rightarrow> string" where
  "TrimSpace s = rev (trim_front (map rev space_runes) (rev (trim_front space_runes s)))"

lemma TrimSpace_Nil [simp]: "TrimSpace [] = []"
proof -
  have "space_prefix rs [] = None" for rs by (auto simp: space_prefix_def find_None_iff)
  then show ?thesis by (simp add: TrimSpace_def trim_front.simps)
qed

text \<open>\<^verbatim>\<open>strings.Split\<close> by a separator of one byte.\<close>

fun split_at :: "char \<Rightarrow> string \<Rightarrow> string list" where
  "split_at c [] = [[]]"
| "split_at c (x # xs) =
     (if x = c then [] # split_at c xs
      else (case split_at c xs of [] \<Rightarrow> [[x]] | p # ps \<Rightarrow> (x # p) # ps))"

text \<open>\<^verbatim>\<open>splitCSV\<close> of \<^verbatim>\<open>cmd/node/main.go\<close>.\<close>

definition splitCSV :: "string \<Rightarrow> string list" where
  "splitCSV s = (let s = TrimSpace s in
     if s = '''' then [] else filter (\<lambda>p. p \<noteq> '''') (map TrimSpace (split_at (CHR '','') s)))"

text \<open>\<^verbatim>\<open>strconv.Atoi\<close>: an optional sign and decimal digits within 64 bits.\<close>

definition decimal :: "string \<Rightarrow> nat" where
  "decimal ds = foldl (\<lambda>n c. 10 * n + (of_char c - 48)) 0 ds"

definition Atoi :: "string \<Rightarrow> int option" where
  "Atoi s =
     (let (neg, ds) = (case s of c # cs \<Rightarrow> if c = CHR ''-'' then (True, cs) else if c = CHR ''+'' then (False, cs) else (False, s)
                       | [] \<Rightarrow> (False, []));
          i = (if neg then - int (decimal ds) else int (decimal ds)) in
      if ds \<noteq> [] \<and> list_all is_digit ds \<and> - (2 ^ 63) \<le> i \<and> i < 2 ^ 63 then Some i else None)"

section \<open>Host and port\<close>

fun index_of :: "char \<Rightarrow> string \<Rightarrow> nat option" where
  "index_of c [] = None"
| "index_of c (x # xs) = (if x = c then Some 0 else map_option Suc (index_of c xs))"

fun last_index_of :: "char \<Rightarrow> string \<Rightarrow> nat option" where
  "last_index_of c [] = None"
| "last_index_of c (x # xs) =
     (case last_index_of c xs of Some i \<Rightarrow> Some (Suc i) | None \<Rightarrow> if x = c then Some 0 else None)"

datatype addr_error = MissingPort | TooManyColons | MissingBracket | UnexpectedOpen | UnexpectedClose

text \<open>The end of \<^verbatim>\<open>SplitHostPort\<close>: no bracket behind the given positions, the port behind the colon.\<close>

definition split_rest :: "string \<Rightarrow> nat \<Rightarrow> string \<Rightarrow> nat \<Rightarrow> nat \<Rightarrow> addr_error + string \<times> string" where
  "split_rest hp i host j k =
     (if CHR ''['' \<in> set (drop j hp) then Inl UnexpectedOpen
      else if CHR '']'' \<in> set (drop k hp) then Inl UnexpectedClose
      else Inr (host, drop (Suc i) hp))"

definition SplitHostPort :: "string \<Rightarrow> addr_error + string \<times> string" where
  "SplitHostPort hp =
     (case last_index_of (CHR '':'') hp of
        None \<Rightarrow> Inl MissingPort
      | Some i \<Rightarrow>
          if hd hp = CHR ''['' then
            (case index_of (CHR '']'') hp of
               None \<Rightarrow> Inl MissingBracket
             | Some e \<Rightarrow>
                 if Suc e = length hp then Inl MissingPort
                 else if Suc e = i then split_rest hp i (take (e - 1) (tl hp)) 1 (Suc e)
                 else if hp ! Suc e = CHR '':'' then Inl TooManyColons else Inl MissingPort)
          else if CHR '':'' \<in> set (take i hp) then Inl TooManyColons
          else split_rest hp i (take i hp) 0 0)"

section \<open>IP addresses\<close>

text \<open>A field of a dotted quad: at most 255, no leading zero.\<close>

definition v4_field :: "string \<Rightarrow> nat option" where
  "v4_field f =
     (if f = [] \<or> \<not> list_all is_digit f \<or> 1 < length f \<and> hd f = CHR ''0'' \<or> 255 < decimal f then None else Some (decimal f))"

definition parseIPv4 :: "string \<Rightarrow> nat list option" where
  "parseIPv4 s = (case map v4_field (split_at (CHR ''.'') s) of
     [Some a, Some b, Some c, Some d] \<Rightarrow> Some [a, b, c, d] | _ \<Rightarrow> None)"

definition is_hex :: "char \<Rightarrow> bool" where
  "is_hex c \<longleftrightarrow> hex_value c \<noteq> None"

definition hexadecimal :: "string \<Rightarrow> nat" where
  "hexadecimal ds = foldl (\<lambda>n c. 16 * n + (case hex_value c of None \<Rightarrow> 0 | Some v \<Rightarrow> v)) 0 ds"

text \<open>
  The loop of \<^verbatim>\<open>parseIPv6\<close> behind a leading \<^verbatim>\<open>::\<close>: the bytes so far and where the
  ellipsis is. The first argument counts the groups that still have room, at most eight.
\<close>

fun v6_groups :: "nat \<Rightarrow> string \<Rightarrow> nat list \<Rightarrow> nat option \<Rightarrow> (nat list \<times> nat option) option" where
  "v6_groups 0 s ip el = (if s = [] then Some (ip, el) else None)"
| "v6_groups (Suc k) s ip el =
     (let ds = takeWhile is_hex s; r = dropWhile is_hex s in
      if ds = [] \<or> 4 < length ds then None
      else if r \<noteq> [] \<and> hd r = CHR ''.'' then
        (if el = None \<and> length ip \<noteq> 12 \<or> 12 < length ip then None
         else map_option (\<lambda>q. (ip @ q, el)) (parseIPv4 s))
      else
        (let ip = ip @ [hexadecimal ds div 256, hexadecimal ds mod 256] in
         (case r of
            [] \<Rightarrow> Some (ip, el)
          | c # r \<Rightarrow>
              if c \<noteq> CHR '':'' \<or> r = [] then None
              else if hd r = CHR '':'' then
                (if el \<noteq> None then None
                 else if tl r = [] then Some (ip, Some (length ip))
                 else v6_groups k (tl r) ip (Some (length ip)))
              else v6_groups k r ip el)))"

definition parseIPv6 :: "string \<Rightarrow> nat list option" where
  "parseIPv6 s =
     (if s = ''::'' then Some (replicate 16 0)
      else (case (if take 2 s = ''::'' then v6_groups 8 (drop 2 s) [] (Some 0) else v6_groups 8 s [] None) of
              None \<Rightarrow> None
            | Some (ip, el) \<Rightarrow>
                if length ip < 16
                then map_option (\<lambda>e. take e ip @ replicate (16 - length ip) 0 @ drop e ip) el
                else if el = None then Some ip else None))"

text \<open>
  \<^verbatim>\<open>net.ParseIP\<close>: the first dot, colon or percent sign decides; an address with a zone is
  refused. An IPv4 address stands for its IPv4-mapped form.
\<close>

definition ParseIP :: "string \<Rightarrow> nat list option" where
  "ParseIP s =
     (case find (\<lambda>c. c = CHR ''.'' \<or> c = CHR '':'' \<or> c = CHR ''%'') s of
        None \<Rightarrow> None
      | Some c \<Rightarrow>
          if c = CHR ''.'' then map_option (\<lambda>q. replicate 10 0 @ [255, 255] @ q) (parseIPv4 s)
          else if c = CHR '':'' then (if CHR ''%'' \<in> set s then None else parseIPv6 s)
          else None)"

definition IsLoopback :: "nat list \<Rightarrow> bool" where
  "IsLoopback ip \<longleftrightarrow>
     (if take 12 ip = replicate 10 0 @ [255, 255] then ip ! 12 = 127 else ip = replicate 15 0 @ [1])"

definition loopback_host :: "string \<Rightarrow> bool" where
  "loopback_host host = (case ParseIP host of None \<Rightarrow> False | Some ip \<Rightarrow> IsLoopback ip)"

section \<open>The checks of the program\<close>

text \<open>\<^verbatim>\<open>isLoopbackAddr\<close> of \<^verbatim>\<open>tcp.go\<close>.\<close>

definition isLoopbackAddr :: "string \<Rightarrow> bool" where
  "isLoopbackAddr addr =
     (case SplitHostPort addr of
        Inl _ \<Rightarrow> False
      | Inr (host, _) \<Rightarrow> if host = ''localhost'' then True else loopback_host host)"

text \<open>\<^verbatim>\<open>isLoopbackListenAddr\<close> of \<^verbatim>\<open>cmd/node/main.go\<close>, the same lines.\<close>

definition isLoopbackListenAddr :: "string \<Rightarrow> bool" where
  "isLoopbackListenAddr addr =
     (case SplitHostPort addr of
        Inl _ \<Rightarrow> False
      | Inr (host, _) \<Rightarrow> if host = ''localhost'' then True else loopback_host host)"

text \<open>\<^verbatim>\<open>isLoopbackConn\<close>, of the remote address of a connection that is not nil.\<close>

definition isLoopbackConn :: "string \<Rightarrow> bool" where
  "isLoopbackConn remote =
     (case SplitHostPort remote of Inl _ \<Rightarrow> False | Inr (host, _) \<Rightarrow> loopback_host host)"

definition validTCPAddr :: "string \<Rightarrow> bool" where
  "validTCPAddr addr =
     (case SplitHostPort addr of
        Inl _ \<Rightarrow> False
      | Inr (_, portStr) \<Rightarrow> (case Atoi portStr of None \<Rightarrow> False | Some port \<Rightarrow> 0 < port \<and> port \<le> 65535))"

text \<open>The host as the transport reads it where it ignores the error: empty then.\<close>

definition host_of :: "string \<Rightarrow> string" where
  "host_of addr = (case SplitHostPort addr of Inl _ \<Rightarrow> '''' | Inr (host, _) \<Rightarrow> host)"

lemma split_examples:
  "SplitHostPort ''127.0.0.1:7000'' = Inr (''127.0.0.1'', ''7000'')"
  "SplitHostPort ''[::1]:7000'' = Inr (''::1'', ''7000'')"
  "SplitHostPort ''::1:7000'' = Inl TooManyColons"
  "SplitHostPort ''localhost'' = Inl MissingPort"
  by (simp_all add: SplitHostPort_def split_rest_def)

lemma loopback_examples:
  "loopback_host ''127.8.0.1''" "loopback_host ''::1''"
  "loopback_host ''0:0:0:0:0:0:0:1''"
  "\<not> loopback_host ''128.0.0.1''" "\<not> loopback_host ''127.0.0.01''" "\<not> loopback_host ''::1%lo''" "\<not> loopback_host ''localhost''"
  by code_simp+

lemma port_examples:
  "validTCPAddr ''localhost:+7000''" "\<not> validTCPAddr ''localhost:0''" "\<not> validTCPAddr ''localhost:65536''"
  by (simp_all add: validTCPAddr_def SplitHostPort_def split_rest_def Atoi_def is_digit_def decimal_def)

lemma listen_check_agrees: "isLoopbackListenAddr addr = isLoopbackAddr addr"
  by (simp add: isLoopbackListenAddr_def isLoopbackAddr_def)

end
