(* ===== verification/Tcp.thy ===== *)
theory Tcp
  imports Handshake NetAddr "HOL-Library.List_Lexorder" "HOL-Library.Char_ord"
begin

text \<open>
  \<^verbatim>\<open>internal/transport/tcp/tcp.go\<close> and \<^verbatim>\<open>peerconn.go\<close>: the tables of the TCP
  transport and the operations on them. A region of code under one mutex is one function. Dialing,
  accepting and the handshake are seen from the tables: which connections come about is up to the
  environment (\<open>TcpProps\<close>), the tables decide which are kept.
\<close>

section \<open>Configuration\<close>

record tcp_config =
  cf_ListenAddr :: string
  cf_Seeds :: "string list"
  cf_Magic :: string
  cf_Version :: int
  cf_Identity :: "Identity option"
  cf_MaxPeers :: int
  cf_OutboundPeers :: int
  cf_MaxConnsPerIP :: int
  cf_MaxMessageSize :: int
  cf_RateLimit :: int
  cf_RateBurst :: int
  cf_ReadTimeout :: duration
  cf_WriteTimeout :: duration
  cf_IdleTimeout :: duration
  cf_PeerRequestInterval :: duration

text \<open>A peer connection; its \<^verbatim>\<open>net.Conn\<close> is the remote address it reports.\<close>

record peerConn =
  pc_id :: string
  pc_listenAddr :: string
  pc_pubKey :: "byte list"
  pc_outbound :: bool
  pc_remote :: string
  pc_queue :: "byte list list"
  pc_closed :: bool

record addrInfo =
  ai_lastSeen :: gotime
  ai_nextDial :: gotime

record transport =
  tr_cfg :: tcp_config
  tr_handler :: bool
  tr_localID :: string
  tr_listening :: bool
  tr_peers :: "(string \<times> peerConn) list"
  tr_dialInFlight :: "string set"
  tr_addrBook :: "(string \<times> addrInfo) list"
  tr_ipCount :: "string \<rightharpoonup> int"
  tr_started :: bool
  tr_stopped :: bool

datatype tcp_error = MissingIdentity | MissingListenAddr | NotLoopback | ListenFailed

text \<open>The defaults, the first field of the code innermost: a field that is not set gets its value.\<close>

definition set_default :: "(tcp_config \<Rightarrow> bool) \<Rightarrow> (tcp_config \<Rightarrow> tcp_config) \<Rightarrow> tcp_config \<Rightarrow> tcp_config" where
  "set_default unset put cfg = (if unset cfg then put cfg else cfg)"

definition default_config :: "tcp_config \<Rightarrow> tcp_config" where
  "default_config cfg =
     set_default (\<lambda>c. cf_PeerRequestInterval c \<le> 0) (\<lambda>c. c\<lparr>cf_PeerRequestInterval := 4 * second\<rparr>)
     (set_default (\<lambda>c. cf_IdleTimeout c \<le> 0) (\<lambda>c. c\<lparr>cf_IdleTimeout := 20 * second\<rparr>)
     (set_default (\<lambda>c. cf_WriteTimeout c \<le> 0) (\<lambda>c. c\<lparr>cf_WriteTimeout := 4 * second\<rparr>)
     (set_default (\<lambda>c. cf_ReadTimeout c \<le> 0) (\<lambda>c. c\<lparr>cf_ReadTimeout := 4 * second\<rparr>)
     (set_default (\<lambda>c. cf_RateBurst c < cf_MaxMessageSize c) (\<lambda>c. c\<lparr>cf_RateBurst := cf_MaxMessageSize c\<rparr>)
     (set_default (\<lambda>c. cf_RateBurst c \<le> 0) (\<lambda>c. c\<lparr>cf_RateBurst := 2097152\<rparr>)
     (set_default (\<lambda>c. cf_RateLimit c \<le> 0) (\<lambda>c. c\<lparr>cf_RateLimit := 1048576\<rparr>)
     (set_default (\<lambda>c. cf_MaxConnsPerIP c \<le> 0) (\<lambda>c. c\<lparr>cf_MaxConnsPerIP := 2\<rparr>)
     (set_default (\<lambda>c. cf_OutboundPeers c \<le> 0) (\<lambda>c. c\<lparr>cf_OutboundPeers := 4\<rparr>)
     (set_default (\<lambda>c. cf_MaxPeers c \<le> 0) (\<lambda>c. c\<lparr>cf_MaxPeers := 8\<rparr>)
     (set_default (\<lambda>c. cf_MaxMessageSize c \<le> 0) (\<lambda>c. c\<lparr>cf_MaxMessageSize := 2097152\<rparr>)
     (set_default (\<lambda>c. cf_Version c = 0) (\<lambda>c. c\<lparr>cf_Version := 1\<rparr>)
     (set_default (\<lambda>c. cf_Magic c = '''') (\<lambda>c. c\<lparr>cf_Magic := ''simchain-go''\<rparr>) cfg))))))))))))"

lemma set_default_same: "(\<And>c. g (put c) = g c) \<Longrightarrow> g (set_default unset put cfg) = g cfg"
  by (simp add: set_default_def)

lemma set_default_own:
  "(\<And>c. unset c = P (g c)) \<Longrightarrow> (\<And>c. g (put c) = v) \<Longrightarrow> g (set_default unset put cfg) = (if P (g cfg) then v else g cfg)"
  by (simp add: set_default_def)

lemma default_limits:
  "cf_MaxPeers (default_config cfg) = (if cf_MaxPeers cfg \<le> 0 then 8 else cf_MaxPeers cfg)"
  "cf_OutboundPeers (default_config cfg) = (if cf_OutboundPeers cfg \<le> 0 then 4 else cf_OutboundPeers cfg)"
  "cf_MaxConnsPerIP (default_config cfg) = (if cf_MaxConnsPerIP cfg \<le> 0 then 2 else cf_MaxConnsPerIP cfg)"
  "cf_MaxMessageSize (default_config cfg) = (if cf_MaxMessageSize cfg \<le> 0 then 2097152 else cf_MaxMessageSize cfg)"
  by (simp_all add: default_config_def set_default_same [of cf_MaxPeers] set_default_same [of cf_OutboundPeers]
      set_default_same [of cf_MaxConnsPerIP] set_default_same [of cf_MaxMessageSize]
      set_default_own [where g = cf_MaxPeers and P = "\<lambda>n. n \<le> 0" and v = 8]
      set_default_own [where g = cf_OutboundPeers and P = "\<lambda>n. n \<le> 0" and v = 4]
      set_default_own [where g = cf_MaxConnsPerIP and P = "\<lambda>n. n \<le> 0" and v = 2]
      set_default_own [where g = cf_MaxMessageSize and P = "\<lambda>n. n \<le> 0" and v = 2097152])

text \<open>The limiter lets a message of maximal size through.\<close>

lemma default_burst: "cf_MaxMessageSize (default_config cfg) \<le> cf_RateBurst (default_config cfg)"
proof -
  have "cf_MaxMessageSize (set_default (\<lambda>c. cf_RateBurst c < cf_MaxMessageSize c) (\<lambda>c. c\<lparr>cf_RateBurst := cf_MaxMessageSize c\<rparr>) c)
      \<le> cf_RateBurst (set_default (\<lambda>c. cf_RateBurst c < cf_MaxMessageSize c) (\<lambda>c. c\<lparr>cf_RateBurst := cf_MaxMessageSize c\<rparr>) c)" for c
    by (simp add: set_default_def)
  moreover have "cf_MaxMessageSize (set_default u (\<lambda>c. c\<lparr>cf_PeerRequestInterval := x\<rparr>) c) = cf_MaxMessageSize c"
    "cf_RateBurst (set_default u (\<lambda>c. c\<lparr>cf_PeerRequestInterval := x\<rparr>) c) = cf_RateBurst c"
    "cf_MaxMessageSize (set_default u (\<lambda>c. c\<lparr>cf_IdleTimeout := x\<rparr>) c) = cf_MaxMessageSize c"
    "cf_RateBurst (set_default u (\<lambda>c. c\<lparr>cf_IdleTimeout := x\<rparr>) c) = cf_RateBurst c"
    "cf_MaxMessageSize (set_default u (\<lambda>c. c\<lparr>cf_WriteTimeout := x\<rparr>) c) = cf_MaxMessageSize c"
    "cf_RateBurst (set_default u (\<lambda>c. c\<lparr>cf_WriteTimeout := x\<rparr>) c) = cf_RateBurst c"
    "cf_MaxMessageSize (set_default u (\<lambda>c. c\<lparr>cf_ReadTimeout := x\<rparr>) c) = cf_MaxMessageSize c"
    "cf_RateBurst (set_default u (\<lambda>c. c\<lparr>cf_ReadTimeout := x\<rparr>) c) = cf_RateBurst c" for u x c
    by (simp_all add: set_default_def)
  ultimately show ?thesis unfolding default_config_def by (simp only:)
qed

definition tcp_New :: "tcp_config \<Rightarrow> tcp_error + transport" where
  "tcp_New cfg =
     (case cf_Identity cfg of
        None \<Rightarrow> Inl MissingIdentity
      | Some ident \<Rightarrow>
          if cf_ListenAddr cfg = '''' then Inl MissingListenAddr
          else Inr \<lparr>tr_cfg = default_config cfg, tr_handler = False, tr_localID = id_NodeID ident, tr_listening = False,
                tr_peers = [], tr_dialInFlight = {}, tr_addrBook = [], tr_ipCount = Map.empty, tr_started = False, tr_stopped = False\<rparr>)"

text \<open>
  \<^verbatim>\<open>Start\<close>: the first call does the loopback check and opens the listener (whether
  \<^verbatim>\<open>net.Listen\<close> succeeds is an argument); a later call does nothing and reports no error.
  \<^verbatim>\<open>Stop\<close> closes every connection and forgets the peers; it waits
  for the accept loop, which only a successful \<^verbatim>\<open>Start\<close> runs: \<open>None\<close> when it waits for ever.
\<close>

definition tcp_Start :: "bool \<Rightarrow> transport \<Rightarrow> (tcp_error + unit) \<times> transport" where
  "tcp_Start listens t =
     (if tr_started t then (Inr (), t)
      else (let t = t\<lparr>tr_started := True\<rparr> in
            if \<not> isLoopbackAddr (cf_ListenAddr (tr_cfg t)) then (Inl NotLoopback, t)
            else if \<not> listens then (Inl ListenFailed, t)
            else (Inr (), t\<lparr>tr_listening := True\<rparr>)))"

definition tcp_Stop :: "transport \<Rightarrow> transport option" where
  "tcp_Stop t =
     (if tr_stopped t then Some t
      else if \<not> tr_listening t then None
      else Some (t\<lparr>tr_stopped := True, tr_peers := []\<rparr>))"

text \<open>A transport whose \<^verbatim>\<open>Start\<close> failed, or was never called, cannot be stopped.\<close>

lemma Stop_hangs:
  "fst (tcp_Start listens t) = Inl e \<Longrightarrow> \<not> tr_listening t \<Longrightarrow> \<not> tr_stopped t \<Longrightarrow> tcp_Stop (snd (tcp_Start listens t)) = None"
  by (auto simp: tcp_Start_def tcp_Stop_def Let_def split: if_splits)

section \<open>The transport interface\<close>

definition tcp_Register :: "string \<Rightarrow> transport \<Rightarrow> transport" where
  "tcp_Register nodeID t = (let t = t\<lparr>tr_handler := True\<rparr> in if nodeID \<noteq> '''' then t\<lparr>tr_localID := nodeID\<rparr> else t)"

definition tcp_Unregister :: "string \<Rightarrow> transport \<Rightarrow> transport" where
  "tcp_Unregister nodeID t = (if nodeID \<noteq> '''' \<and> nodeID = tr_localID t then t\<lparr>tr_handler := False\<rparr> else t)"

definition tcp_Peers :: "transport \<Rightarrow> string list" where
  "tcp_Peers t = sort (al_keys (tr_peers t))"

text \<open>\<^verbatim>\<open>sendRaw\<close>: the queue holds 128 frames; a frame that finds it full is dropped.\<close>

definition write_cap :: nat where
  "write_cap = 128"

definition sendRaw :: "byte list \<Rightarrow> peerConn \<Rightarrow> peerConn" where
  "sendRaw fr p =
     (if fr = [] then p
      else if length (pc_queue p) < write_cap then p\<lparr>pc_queue := pc_queue p @ [fr]\<rparr> else p)"

text \<open>\<^verbatim>\<open>peerConn.send\<close>.\<close>

definition peer_send :: "nils \<Rightarrow> message \<Rightarrow> int \<Rightarrow> peerConn \<Rightarrow> peerConn" where
  "peer_send nil m mx p = (case encodeFrame nil m mx of Inl _ \<Rightarrow> p | Inr raw \<Rightarrow> sendRaw raw p)"

text \<open>
  One round of \<^verbatim>\<open>writeLoop\<close>: nothing once the connection is closed, else the oldest frame;
  a failed write closes the connection.
\<close>

definition write_round :: "bool \<Rightarrow> peerConn \<Rightarrow> byte list \<times> peerConn" where
  "write_round ok p =
     (if pc_closed p then ([], p)
      else (case pc_queue p of
              [] \<Rightarrow> ([], p)
            | fr # q \<Rightarrow> if ok then (fr, p\<lparr>pc_queue := q\<rparr>) else ([], p\<lparr>pc_queue := q, pc_closed := True\<rparr>)))"

text \<open>Every peer of the table goes through \<open>f\<close>, or the one with the given id.\<close>

definition map_peers :: "(peerConn \<Rightarrow> peerConn) \<Rightarrow> transport \<Rightarrow> transport" where
  "map_peers f t = t\<lparr>tr_peers := map (apsnd f) (tr_peers t)\<rparr>"

definition map_peer :: "string \<Rightarrow> (peerConn \<Rightarrow> peerConn) \<Rightarrow> transport \<Rightarrow> transport" where
  "map_peer i f t = t\<lparr>tr_peers := map (\<lambda>(k, p). (k, if k = i then f p else p)) (tr_peers t)\<rparr>"

definition tcp_Broadcast :: "nils \<Rightarrow> string \<Rightarrow> message \<Rightarrow> transport \<Rightarrow> transport" where
  "tcp_Broadcast nil sender m t =
     (let m = (if msg_From m = '''' then m\<lparr>msg_From := sender\<rparr> else m) in
      (case encodeFrame nil m (cf_MaxMessageSize (tr_cfg t)) of
         Inl _ \<Rightarrow> t
       | Inr raw \<Rightarrow> map_peers (sendRaw raw) t))"

definition tcp_Send :: "nils \<Rightarrow> string \<Rightarrow> message \<Rightarrow> transport \<Rightarrow> transport" where
  "tcp_Send nil to m t =
     (if to = '''' then t
      else (case map_of (tr_peers t) to of
              None \<Rightarrow> t
            | Some _ \<Rightarrow>
                let m = (if msg_To m = '''' then m\<lparr>msg_To := to\<rparr> else m) in
                (case encodeFrame nil m (cf_MaxMessageSize (tr_cfg t)) of
                   Inl _ \<Rightarrow> t
                 | Inr raw \<Rightarrow> map_peer to (sendRaw raw) t)))"

section \<open>Connection limits\<close>

definition trackIP :: "string \<Rightarrow> transport \<Rightarrow> bool \<times> transport" where
  "trackIP host t =
     (let n = go_get 0 (tr_ipCount t) host in
      if n \<ge> cf_MaxConnsPerIP (tr_cfg t) then (False, t)
      else (True, t\<lparr>tr_ipCount := (tr_ipCount t)(host \<mapsto> n + 1)\<rparr>))"

definition untrackIP :: "string \<Rightarrow> transport \<Rightarrow> transport" where
  "untrackIP host t =
     (let n = go_get 0 (tr_ipCount t) host in
      if n > 0 then
        (if n - 1 = 0 then t\<lparr>tr_ipCount := (tr_ipCount t)(host := None)\<rparr>
         else t\<lparr>tr_ipCount := (tr_ipCount t)(host \<mapsto> n - 1)\<rparr>)
      else t)"

definition outboundCount :: "transport \<Rightarrow> int" where
  "outboundCount t = int (length (filter (\<lambda>(_, p). pc_outbound p) (tr_peers t)))"

definition inboundCount :: "transport \<Rightarrow> int" where
  "inboundCount t = int (length (filter (\<lambda>(_, p). \<not> pc_outbound p) (tr_peers t)))"

definition maxOutbound :: "tcp_config \<Rightarrow> int" where
  "maxOutbound cfg =
     (let maxOut = cf_OutboundPeers cfg;
          maxOut = (if maxOut < 0 then 0 else maxOut) in
      if maxOut > cf_MaxPeers cfg then cf_MaxPeers cfg else maxOut)"

definition addPeer :: "peerConn \<Rightarrow> transport \<Rightarrow> bool \<times> transport" where
  "addPeer pc t =
     (if pc_id pc = '''' \<or> pc_id pc = tr_localID t then (False, t)
      else if int (length (tr_peers t)) \<ge> cf_MaxPeers (tr_cfg t) then (False, t)
      else if pc_id pc \<in> set (al_keys (tr_peers t)) then (False, t)
      else (let maxOut = maxOutbound (tr_cfg t); maxIn = cf_MaxPeers (tr_cfg t) - maxOut in
            if pc_outbound pc \<and> outboundCount t \<ge> maxOut then (False, t)
            else if \<not> pc_outbound pc \<and> maxIn \<ge> 0 \<and> inboundCount t \<ge> maxIn then (False, t)
            else (True, t\<lparr>tr_peers := al_put (pc_id pc) pc (tr_peers t)\<rparr>)))"

definition removePeer :: "string \<Rightarrow> transport \<Rightarrow> transport" where
  "removePeer i t =
     (let found = map_of (tr_peers t) i; t = t\<lparr>tr_peers := al_del i (tr_peers t)\<rparr> in
      (case found of None \<Rightarrow> t | Some pc \<Rightarrow> untrackIP (host_of (pc_remote pc)) t))"

section \<open>Addresses\<close>

definition observeAddr :: "gotime \<Rightarrow> string \<Rightarrow> transport \<Rightarrow> transport" where
  "observeAddr now addr t =
     (let addr = TrimSpace addr in
      if addr = '''' then t
      else if \<not> isLoopbackAddr addr then t
      else if \<not> validTCPAddr addr then t
      else (let info = (case map_of (tr_addrBook t) addr of None \<Rightarrow> \<lparr>ai_lastSeen = 0, ai_nextDial = 0\<rparr> | Some x \<Rightarrow> x) in
            t\<lparr>tr_addrBook := al_put addr (info\<lparr>ai_lastSeen := now\<rparr>) (tr_addrBook t)\<rparr>))"

fun addSeedAddrs :: "gotime \<Rightarrow> string list \<Rightarrow> transport \<Rightarrow> transport" where
  "addSeedAddrs now [] t = t"
| "addSeedAddrs now (a # as) t = addSeedAddrs now as (observeAddr now a t)"

text \<open>
  \<^verbatim>\<open>addrCandidates\<close>: what may be dialed, with the addresses not seen for ten minutes deleted
  on the way; \<open>shuffle\<close> is the random order in which they come out.
\<close>

fun candidates :: "gotime \<Rightarrow> string \<Rightarrow> (string \<times> addrInfo) list \<Rightarrow> string list \<times> (string \<times> addrInfo) list" where
  "candidates now self [] = ([], [])"
| "candidates now self ((a, info) # xs) =
     (let (out, book) = candidates now self xs in
      if a = self then (out, (a, info) # book)
      else if ai_nextDial info \<noteq> 0 \<and> ai_nextDial info > now then (out, (a, info) # book)
      else if ai_lastSeen info \<noteq> 0 \<and> now - ai_lastSeen info > 10 * minute then (out, book)
      else (a # out, (a, info) # book))"

definition addrCandidates :: "gotime \<Rightarrow> (string list \<Rightarrow> string list) \<Rightarrow> transport \<Rightarrow> string list \<times> transport" where
  "addrCandidates now shuffle t =
     (let (out, book) = candidates now (cf_ListenAddr (tr_cfg t)) (tr_addrBook t) in
      (shuffle out, t\<lparr>tr_addrBook := book\<rparr>))"

definition isConnectedToAddr :: "string \<Rightarrow> transport \<Rightarrow> bool" where
  "isConnectedToAddr addr t = list_ex (\<lambda>(_, p). pc_listenAddr p = addr) (tr_peers t)"

definition markDialInFlight :: "string \<Rightarrow> transport \<Rightarrow> bool \<times> transport" where
  "markDialInFlight addr t =
     (if addr \<in> tr_dialInFlight t then (False, t)
      else (True, t\<lparr>tr_dialInFlight := insert addr (tr_dialInFlight t)\<rparr>))"

definition clearDialInFlight :: "string \<Rightarrow> transport \<Rightarrow> transport" where
  "clearDialInFlight addr t = t\<lparr>tr_dialInFlight := tr_dialInFlight t - {addr}\<rparr>"

definition addrDialAllowed :: "gotime \<Rightarrow> string \<Rightarrow> transport \<Rightarrow> bool" where
  "addrDialAllowed now addr t =
     (case map_of (tr_addrBook t) addr of
        None \<Rightarrow> True
      | Some info \<Rightarrow> if ai_nextDial info = 0 then True else now > ai_nextDial info)"

text \<open>\<open>jitter\<close> is the random number below 250 that \<^verbatim>\<open>randIntn\<close> returns.\<close>

definition backoffAddrDial :: "gotime \<Rightarrow> nat \<Rightarrow> string \<Rightarrow> bool \<Rightarrow> transport \<Rightarrow> transport" where
  "backoffAddrDial now jitter addr permanent t =
     (let info = (case map_of (tr_addrBook t) addr of None \<Rightarrow> \<lparr>ai_lastSeen = 0, ai_nextDial = 0\<rparr> | Some x \<Rightarrow> x);
          backoff = (if permanent then 2 * second else 900 * millisecond) in
      t\<lparr>tr_addrBook := al_put addr (info\<lparr>ai_nextDial := now + (backoff + int jitter * millisecond)\<rparr>) (tr_addrBook t)\<rparr>)"

section \<open>Dialing\<close>

text \<open>One candidate of \<^verbatim>\<open>maybeDialMore\<close>: whether \<^verbatim>\<open>handleOutbound\<close> is started for it.\<close>

definition dial_candidate :: "gotime \<Rightarrow> string \<Rightarrow> transport \<Rightarrow> bool \<times> transport" where
  "dial_candidate now addr t =
     (case markDialInFlight addr t of
        (False, t) \<Rightarrow> (False, t)
      | (True, t) \<Rightarrow>
          if isConnectedToAddr addr t then (False, clearDialInFlight addr t)
          else if \<not> addrDialAllowed now addr t then (False, clearDialInFlight addr t)
          else (True, t))"

text \<open>The loop over the candidates, when nothing else happens in between: the addresses dialed.\<close>

fun dial_loop :: "gotime \<Rightarrow> string list \<Rightarrow> transport \<Rightarrow> string list \<times> transport" where
  "dial_loop now [] t = ([], t)"
| "dial_loop now (a # as) t =
     (if outboundCount t \<ge> maxOutbound (tr_cfg t) then ([], t)
      else (case dial_candidate now a t of
              (started, t) \<Rightarrow> (case dial_loop now as t of (ds, t) \<Rightarrow> (if started then a # ds else ds, t))))"

definition maybeDialMore :: "gotime \<Rightarrow> (string list \<Rightarrow> string list) \<Rightarrow> transport \<Rightarrow> string list \<times> transport" where
  "maybeDialMore now shuffle t =
     (if outboundCount t \<ge> maxOutbound (tr_cfg t) then ([], t)
      else (case addrCandidates now shuffle t of (cs, t) \<Rightarrow> dial_loop now cs t))"

definition onPeers :: "gotime \<Rightarrow> (string list \<Rightarrow> string list) \<Rightarrow> string list \<Rightarrow> transport \<Rightarrow> string list \<times> transport" where
  "onPeers now shuffle addrs t = maybeDialMore now shuffle (addSeedAddrs now addrs t)"

text \<open>
  \<^verbatim>\<open>handleOutbound\<close>: the IP check; a failure to dial, to find a loopback peer (permanent) or
  to shake hands; a finished handshake, after which the peer is asked for addresses. The mark of the
  address goes when the function returns, for a kept connection when its read loop ends.
\<close>

definition outbound_begin :: "string \<Rightarrow> transport \<Rightarrow> bool \<times> transport" where
  "outbound_begin addr t =
     (case trackIP (host_of addr) t of
        (True, t) \<Rightarrow> (True, t)
      | (False, t) \<Rightarrow> (False, clearDialInFlight addr t))"

definition outbound_fail :: "gotime \<Rightarrow> nat \<Rightarrow> string \<Rightarrow> bool \<Rightarrow> transport \<Rightarrow> transport" where
  "outbound_fail now jitter addr permanent t =
     clearDialInFlight addr (backoffAddrDial now jitter addr permanent (untrackIP (host_of addr) t))"

definition ask_for_peers :: "nils \<Rightarrow> gotime \<Rightarrow> string \<Rightarrow> transport \<Rightarrow> transport" where
  "ask_for_peers nil now i t =
     map_peer i (peer_send nil (direct_message now (tr_localID t) i '''' MsgGetPeers (GetPeersPayload 32))
       (cf_MaxMessageSize (tr_cfg t))) t"

definition outbound_done :: "nils \<Rightarrow> gotime \<Rightarrow> nat \<Rightarrow> string \<Rightarrow> peerConn \<Rightarrow> transport \<Rightarrow> bool \<times> transport" where
  "outbound_done nil now jitter addr pc t =
     (case addPeer pc t of
        (False, t) \<Rightarrow> (False, outbound_fail now jitter addr True t)
      | (True, t) \<Rightarrow> (True, ask_for_peers nil now (pc_id pc) (observeAddr now (pc_listenAddr pc) t)))"

text \<open>
  \<^verbatim>\<open>acceptLoop\<close> up to the start of \<^verbatim>\<open>handleInbound\<close>, and its three ends.
\<close>

definition inbound_begin :: "string \<Rightarrow> transport \<Rightarrow> bool \<times> transport" where
  "inbound_begin remote t =
     (case SplitHostPort remote of
        Inl _ \<Rightarrow> (False, untrackIP '''' t)
      | Inr (host, _) \<Rightarrow>
          (case trackIP host t of
             (False, t) \<Rightarrow> (False, t)
           | (True, t) \<Rightarrow> if isLoopbackConn remote then (True, t) else (False, untrackIP host t)))"

definition inbound_fail :: "string \<Rightarrow> transport \<Rightarrow> transport" where
  "inbound_fail remote t = untrackIP (host_of remote) t"

definition inbound_done :: "gotime \<Rightarrow> peerConn \<Rightarrow> transport \<Rightarrow> bool \<times> transport" where
  "inbound_done now pc t =
     (case addPeer pc t of
        (False, t) \<Rightarrow> (False, untrackIP (host_of (pc_remote pc)) t)
      | (True, t) \<Rightarrow> (True, observeAddr now (pc_listenAddr pc) t))"

section \<open>The read loop\<close>

text \<open>\<^verbatim>\<open>deliverFromPeer\<close>: what the handler is called with.\<close>

definition deliverFromPeer :: "string \<Rightarrow> message \<Rightarrow> transport \<Rightarrow> message option" where
  "deliverFromPeer peerID m t =
     (let m = m\<lparr>msg_From := peerID\<rparr> in
      if msg_To m \<noteq> '''' \<and> msg_To m \<noteq> tr_localID t then None
      else if \<not> tr_handler t then None
      else Some m)"

text \<open>
  One message of \<^verbatim>\<open>runReadLoop\<close>: a request for addresses is answered (a missing payload asks
  for 32), addresses are noted and dialed, everything else goes to the handler.
\<close>

definition on_message ::
  "nils \<Rightarrow> gotime \<Rightarrow> (string list \<Rightarrow> string list) \<Rightarrow> string \<Rightarrow> message \<Rightarrow> transport \<Rightarrow> message option \<times> string list \<times> transport" where
  "on_message nil now shuffle peerID m t =
     (if msg_Type m = MsgGetPeers then
        (let mx = (case msg_Payload m of GetPeersPayload n \<Rightarrow> n | _ \<Rightarrow> 32) in
         (case addrCandidates now shuffle t of
            (addrs, t) \<Rightarrow>
              let addrs = (if mx > 0 \<and> mx < int (length addrs) then take (nat mx) addrs else addrs) in
              (None, [], map_peer peerID (peer_send nil (direct_message now (tr_localID t) peerID '''' MsgPeers (PeersPayload addrs))
                 (cf_MaxMessageSize (tr_cfg t))) t)))
      else if msg_Type m = MsgPeers then
        (case msg_Payload m of
           PeersPayload addrs \<Rightarrow> (case onPeers now shuffle addrs t of (ds, t) \<Rightarrow> (None, ds, t))
         | _ \<Rightarrow> (None, [], t))
      else (deliverFromPeer peerID m t, [], t))"

text \<open>\<^verbatim>\<open>requestPeersFromSomePeer\<close>: \<open>pick\<close> is the random index.\<close>

definition requestPeersFromSomePeer :: "nils \<Rightarrow> gotime \<Rightarrow> nat \<Rightarrow> transport \<Rightarrow> transport" where
  "requestPeersFromSomePeer nil now pick t =
     (let ids = tcp_Peers t in
      if ids = [] then t
      else (let i = (if length ids \<le> 1 then 0 else pick mod length ids); p = ids ! i in
            tcp_Send nil p (direct_message now (tr_localID t) p '''' MsgGetPeers (GetPeersPayload 32)) t))"

end
