(* ===== verification/TcpProps.thy ===== *)
theory TcpProps
  imports Tcp "HOL-Library.Multiset"
begin

text \<open>
  The TCP transport with its connections: handshakes under way, dials under way and peers, and the
  steps that lead from one state to the next. The environment decides what a dialed address connects
  to (\<open>reach\<close>); everything else is the code's.
\<close>

section \<open>What the operations leave alone\<close>

lemma trackIP_frame:
  "trackIP h t = (b, t') \<Longrightarrow> tr_peers t' = tr_peers t \<and> tr_cfg t' = tr_cfg t \<and> tr_localID t' = tr_localID t \<and>
     tr_addrBook t' = tr_addrBook t \<and> tr_dialInFlight t' = tr_dialInFlight t"
  by (auto simp: trackIP_def Let_def split: if_splits)

lemma untrackIP_frame [simp]:
  "tr_peers (untrackIP h t) = tr_peers t" "tr_cfg (untrackIP h t) = tr_cfg t" "tr_localID (untrackIP h t) = tr_localID t"
  "tr_addrBook (untrackIP h t) = tr_addrBook t" "tr_dialInFlight (untrackIP h t) = tr_dialInFlight t"
  by (simp_all add: untrackIP_def Let_def)

lemma clearDialInFlight_frame [simp]:
  "tr_peers (clearDialInFlight a t) = tr_peers t" "tr_cfg (clearDialInFlight a t) = tr_cfg t"
  "tr_localID (clearDialInFlight a t) = tr_localID t" "tr_addrBook (clearDialInFlight a t) = tr_addrBook t"
  "tr_ipCount (clearDialInFlight a t) = tr_ipCount t"
  by (simp_all add: clearDialInFlight_def)

lemma observeAddr_frame [simp]:
  "tr_peers (observeAddr now a t) = tr_peers t" "tr_cfg (observeAddr now a t) = tr_cfg t"
  "tr_localID (observeAddr now a t) = tr_localID t" "tr_ipCount (observeAddr now a t) = tr_ipCount t"
  by (simp_all add: observeAddr_def Let_def)

lemma addSeedAddrs_frame [simp]:
  "tr_peers (addSeedAddrs now as t) = tr_peers t" "tr_cfg (addSeedAddrs now as t) = tr_cfg t"
  "tr_localID (addSeedAddrs now as t) = tr_localID t" "tr_ipCount (addSeedAddrs now as t) = tr_ipCount t"
  by (induction as arbitrary: t) simp_all

lemma backoff_frame [simp]:
  "tr_peers (backoffAddrDial now j a p t) = tr_peers t" "tr_cfg (backoffAddrDial now j a p t) = tr_cfg t"
  "tr_localID (backoffAddrDial now j a p t) = tr_localID t" "tr_ipCount (backoffAddrDial now j a p t) = tr_ipCount t"
  by (simp_all add: backoffAddrDial_def Let_def)

lemma dial_candidate_frame:
  "dial_candidate now a t = (b, t') \<Longrightarrow> tr_peers t' = tr_peers t \<and> tr_cfg t' = tr_cfg t \<and> tr_localID t' = tr_localID t \<and>
     tr_addrBook t' = tr_addrBook t \<and> tr_ipCount t' = tr_ipCount t"
  by (auto simp: dial_candidate_def markDialInFlight_def clearDialInFlight_def split: if_splits)

lemma addPeer_frame:
  "addPeer pc t = (b, t') \<Longrightarrow> tr_cfg t' = tr_cfg t \<and> tr_localID t' = tr_localID t \<and> tr_addrBook t' = tr_addrBook t \<and>
     tr_ipCount t' = tr_ipCount t \<and> tr_dialInFlight t' = tr_dialInFlight t \<and> (b \<or> t' = t)"
  by (auto simp: addPeer_def Let_def split: if_splits)

lemma addPeer_False: "addPeer pc t = (False, t') \<Longrightarrow> t' = t"
  using addPeer_frame by blast

lemma addrCandidates_frame:
  "addrCandidates now sh t = (cs, t') \<Longrightarrow> tr_peers t' = tr_peers t \<and> tr_cfg t' = tr_cfg t \<and> tr_localID t' = tr_localID t \<and>
     tr_ipCount t' = tr_ipCount t"
  by (auto simp: addrCandidates_def split: prod.splits)

text \<open>The remote addresses, ids and directions of the peers do not change when frames are queued.\<close>

definition peer_view :: "transport \<Rightarrow> (string \<times> string \<times> bool \<times> string) list" where
  "peer_view t = map (\<lambda>(k, p). (k, pc_id p, pc_outbound p, pc_remote p)) (tr_peers t)"

lemma sendRaw_view [simp]:
  "pc_id (sendRaw f p) = pc_id p" "pc_outbound (sendRaw f p) = pc_outbound p" "pc_remote (sendRaw f p) = pc_remote p"
  by (simp_all add: sendRaw_def)

lemma peer_send_view [simp]:
  "pc_id (peer_send nil m mx p) = pc_id p" "pc_outbound (peer_send nil m mx p) = pc_outbound p"
  "pc_remote (peer_send nil m mx p) = pc_remote p"
  by (simp_all add: peer_send_def split: sum.split)

lemma map_peer_view:
  "(\<And>p. pc_id (f p) = pc_id p \<and> pc_outbound (f p) = pc_outbound p \<and> pc_remote (f p) = pc_remote p) \<Longrightarrow>
   peer_view (map_peer i f t) = peer_view t"
  "(\<And>p. pc_id (f p) = pc_id p \<and> pc_outbound (f p) = pc_outbound p \<and> pc_remote (f p) = pc_remote p) \<Longrightarrow>
   peer_view (map_peers f t) = peer_view t"
  by (simp_all add: peer_view_def map_peer_def map_peers_def case_prod_beta comp_def)

lemma map_peer_frame [simp]:
  "tr_cfg (map_peer i f t) = tr_cfg t" "tr_localID (map_peer i f t) = tr_localID t"
  "tr_addrBook (map_peer i f t) = tr_addrBook t" "tr_ipCount (map_peer i f t) = tr_ipCount t"
  "tr_cfg (map_peers g t) = tr_cfg t" "tr_localID (map_peers g t) = tr_localID t"
  "tr_addrBook (map_peers g t) = tr_addrBook t" "tr_ipCount (map_peers g t) = tr_ipCount t"
  by (simp_all add: map_peer_def map_peers_def)

section \<open>The transport with its connections\<close>

record world =
  wd_tr :: transport
  wd_in :: "string list"
  wd_cands :: "string list"
  wd_started :: "string list"
  wd_out :: "string list"
  wd_dialed :: "(string \<times> string) list"

text \<open>
  One step: \<open>wd_in\<close> holds the remote addresses of the inbound handshakes under way, \<open>wd_cands\<close> the
  candidates of a dialing round, \<open>wd_started\<close> the addresses whose \<^verbatim>\<open>handleOutbound\<close> is about to
  run, \<open>wd_out\<close> those being dialed, \<open>wd_dialed\<close> the address behind each outbound peer. \<open>reach a r\<close>
  says that dialing \<open>a\<close> may give a connection to \<open>r\<close>. The steps are those of a transport that has not been
  stopped: \<^verbatim>\<open>Stop\<close> (\<open>tcp_Stop\<close>) drops the table of the peers but not their IP counters. A step of
  \<^verbatim>\<open>removePeer\<close> is its two critical sections together; in between the peer is gone and its place still
  counted, so the counter is one too high, never too low.
\<close>

inductive tcp_step :: "(string \<Rightarrow> string \<Rightarrow> bool) \<Rightarrow> world \<Rightarrow> world \<Rightarrow> bool" for reach where
  accept: "inbound_begin r (wd_tr w) = (ok, t) \<Longrightarrow>
     tcp_step reach w (w\<lparr>wd_tr := t, wd_in := (if ok then r # wd_in w else wd_in w)\<rparr>)"
| in_fail: "r \<in> set (wd_in w) \<Longrightarrow>
     tcp_step reach w (w\<lparr>wd_tr := inbound_fail r (wd_tr w), wd_in := remove1 r (wd_in w)\<rparr>)"
| in_done: "pc_remote pc \<in> set (wd_in w) \<Longrightarrow> \<not> pc_outbound pc \<Longrightarrow> inbound_done now pc (wd_tr w) = (ok, t) \<Longrightarrow>
     tcp_step reach w (w\<lparr>wd_tr := t, wd_in := remove1 (pc_remote pc) (wd_in w)\<rparr>)"
| note_addrs: "tcp_step reach w (w\<lparr>wd_tr := addSeedAddrs now addrs (wd_tr w)\<rparr>)"
| round: "addrCandidates now sh (wd_tr w) = (cs, t) \<Longrightarrow> (\<And>xs. set (sh xs) = set xs) \<Longrightarrow>
     tcp_step reach w (w\<lparr>wd_tr := t, wd_cands := cs @ wd_cands w\<rparr>)"
| dial: "a \<in> set (wd_cands w) \<Longrightarrow> outboundCount (wd_tr w) < maxOutbound (tr_cfg (wd_tr w)) \<Longrightarrow>
     dial_candidate now a (wd_tr w) = (ok, t) \<Longrightarrow>
     tcp_step reach w (w\<lparr>wd_tr := t, wd_cands := remove1 a (wd_cands w),
        wd_started := (if ok then a # wd_started w else wd_started w)\<rparr>)"
| out_begin: "a \<in> set (wd_started w) \<Longrightarrow> outbound_begin a (wd_tr w) = (ok, t) \<Longrightarrow>
     tcp_step reach w (w\<lparr>wd_tr := t, wd_started := remove1 a (wd_started w), wd_out := (if ok then a # wd_out w else wd_out w)\<rparr>)"
| out_fail: "a \<in> set (wd_out w) \<Longrightarrow>
     tcp_step reach w (w\<lparr>wd_tr := outbound_fail now j a perm (wd_tr w), wd_out := remove1 a (wd_out w)\<rparr>)"
| out_done: "a \<in> set (wd_out w) \<Longrightarrow> pc_outbound pc \<Longrightarrow> reach a (pc_remote pc) \<Longrightarrow> isLoopbackConn (pc_remote pc) \<Longrightarrow>
     outbound_done nil now j a pc (wd_tr w) = (ok, t) \<Longrightarrow>
     tcp_step reach w (w\<lparr>wd_tr := t, wd_out := remove1 a (wd_out w),
        wd_dialed := (if ok then (pc_id pc, a) # wd_dialed w else wd_dialed w)\<rparr>)"
| in_closed: "map_of (tr_peers (wd_tr w)) i = Some pc \<Longrightarrow> \<not> pc_outbound pc \<Longrightarrow>
     tcp_step reach w (w\<lparr>wd_tr := removePeer i (wd_tr w)\<rparr>)"
| out_closed: "map_of (tr_peers (wd_tr w)) i = Some pc \<Longrightarrow> pc_outbound pc \<Longrightarrow> map_of (wd_dialed w) i = Some a \<Longrightarrow>
     tcp_step reach w (w\<lparr>wd_tr := clearDialInFlight a (removePeer i (wd_tr w)), wd_dialed := al_del i (wd_dialed w)\<rparr>)"
| frames_queued: "t = tcp_Send nil i m (wd_tr w) \<or> t = tcp_Broadcast nil i m (wd_tr w) \<or>
     t = requestPeersFromSomePeer nil now k (wd_tr w) \<or> t = map_peer i (peer_send nil m mx) (wd_tr w) \<Longrightarrow>
     tcp_step reach w (w\<lparr>wd_tr := t\<rparr>)"

text \<open>A transport that was made, got its handler and started.\<close>

definition tcp_start :: "tcp_config \<Rightarrow> world \<Rightarrow> bool" where
  "tcp_start cfg w \<longleftrightarrow>
     (case tcp_New cfg of
        Inl _ \<Rightarrow> False
      | Inr t \<Rightarrow>
          (case tcp_Start True (tcp_Register (tr_localID t) t) of
             (Inl _, _) \<Rightarrow> False
           | (Inr _, t) \<Rightarrow> w = \<lparr>wd_tr = t, wd_in = [], wd_cands = [], wd_started = [], wd_out = [], wd_dialed = []\<rparr>))"

inductive tcp_reachable :: "(string \<Rightarrow> string \<Rightarrow> bool) \<Rightarrow> tcp_config \<Rightarrow> world \<Rightarrow> bool" for reach cfg where
  tcp_init: "tcp_start cfg w \<Longrightarrow> tcp_reachable reach cfg w"
| tcp_next: "tcp_reachable reach cfg w \<Longrightarrow> tcp_step reach w w' \<Longrightarrow> tcp_reachable reach cfg w'"

inductive_cases tcp_stepE: "tcp_step reach w w'"

section \<open>The invariant\<close>

text \<open>The peers within the limits, seen through \<open>peer_view\<close>.\<close>

definition view_ok :: "tcp_config \<Rightarrow> string \<Rightarrow> (string \<times> string \<times> bool \<times> string) list \<Rightarrow> bool" where
  "view_ok cfg self v \<longleftrightarrow> distinct (map fst v) \<and> (\<forall>(k, i, out, r) \<in> set v. i = k \<and> k \<noteq> '''' \<and> k \<noteq> self \<and> isLoopbackConn r) \<and>
     int (length v) \<le> cf_MaxPeers cfg \<and> int (length (filter (\<lambda>(k, i, out, r). out) v)) \<le> maxOutbound cfg \<and>
     int (length (filter (\<lambda>(k, i, out, r). \<not> out) v)) \<le> cf_MaxPeers cfg - maxOutbound cfg"

definition addr_ok :: "string \<Rightarrow> bool" where
  "addr_ok a \<longleftrightarrow> isLoopbackAddr a \<and> validTCPAddr a"

definition counts_ok :: "transport \<Rightarrow> bool" where
  "counts_ok t \<longleftrightarrow> (\<forall>h n. tr_ipCount t h = Some n \<longrightarrow> 0 < n \<and> n \<le> cf_MaxConnsPerIP (tr_cfg t))"

text \<open>The hosts of the connections and dials that hold a place.\<close>

definition held_hosts :: "world \<Rightarrow> string multiset" where
  "held_hosts w = mset (map host_of (wd_in w)) + mset (map host_of (wd_out w)) +
     mset (map (\<lambda>(k, i, out, r). host_of r) (peer_view (wd_tr w)))"

section \<open>The IP counters\<close>

abbreviation ip_count :: "transport \<Rightarrow> string \<Rightarrow> int" where
  "ip_count t h \<equiv> go_get 0 (tr_ipCount t) h"

lemma ip_count_nonneg: "counts_ok t \<Longrightarrow> 0 \<le> ip_count t h"
  by (cases "tr_ipCount t h") (auto simp: counts_ok_def less_imp_le)

lemma ip_count_le: "counts_ok t \<Longrightarrow> 0 \<le> cf_MaxConnsPerIP (tr_cfg t) \<Longrightarrow> ip_count t h \<le> cf_MaxConnsPerIP (tr_cfg t)"
  by (cases "tr_ipCount t h") (auto simp: counts_ok_def)

lemma trackIP_True:
  "trackIP host t = (True, t') \<Longrightarrow> ip_count t' h = (if h = host then ip_count t h + 1 else ip_count t h)
     \<and> ip_count t host < cf_MaxConnsPerIP (tr_cfg t)"
  by (auto simp: trackIP_def Let_def go_get_upd split: if_splits)

lemma trackIP_False: "trackIP host t = (False, t') \<Longrightarrow> t' = t \<and> ip_count t host \<ge> cf_MaxConnsPerIP (tr_cfg t)"
  by (auto simp: trackIP_def Let_def split: if_splits)

lemma untrackIP_count:
  "counts_ok t \<Longrightarrow> ip_count (untrackIP host t) h = (if h = host then max 0 (ip_count t h - 1) else ip_count t h)"
  using ip_count_nonneg [of t host] by (auto simp: untrackIP_def Let_def go_get_def)

lemma trackIP_ok: "counts_ok t \<Longrightarrow> trackIP host t = (b, t') \<Longrightarrow> counts_ok t'"
  using ip_count_nonneg [of t host]
  by (auto simp: trackIP_def Let_def counts_ok_def split: if_splits)

lemma untrackIP_ok: "counts_ok t \<Longrightarrow> counts_ok (untrackIP host t)"
proof -
  assume c: "counts_ok t"
  show ?thesis
  proof (cases "tr_ipCount t host")
    case (Some n)
    then have n: "0 < n" "n \<le> cf_MaxConnsPerIP (tr_cfg t)" using c by (auto simp: counts_ok_def)
    then have "n - 1 \<le> cf_MaxConnsPerIP (tr_cfg t)" by simp
    then have "counts_ok (untrackIP host t) \<longleftrightarrow> n = 1 \<or> 1 < n"
      using c Some n(1) by (auto simp: untrackIP_def Let_def counts_ok_def)
    then show ?thesis using n(1) by linarith
  qed (use c in \<open>simp add: untrackIP_def\<close>)
qed

lemma counts_ok_cong: "tr_ipCount t' = tr_ipCount t \<Longrightarrow> tr_cfg t' = tr_cfg t \<Longrightarrow> counts_ok t' = counts_ok t"
  by (simp add: counts_ok_def)

section \<open>The peer table\<close>

lemma peer_view_cong: "tr_peers t' = tr_peers t \<Longrightarrow> peer_view t' = peer_view t"
  by (simp add: peer_view_def)

lemma fst_peer_view: "map fst (peer_view t) = al_keys (tr_peers t)"
  by (simp add: peer_view_def case_prod_beta comp_def)

lemma view_counts:
  "int (length (filter (\<lambda>(k, i, out, r). out) (peer_view t))) = outboundCount t"
  "int (length (filter (\<lambda>(k, i, out, r). \<not> out) (peer_view t))) = inboundCount t"
  "length (peer_view t) = length (tr_peers t)"
  by (simp_all add: peer_view_def outboundCount_def inboundCount_def filter_map case_prod_beta' comp_def)

lemma al_put_new: "k \<notin> set (al_keys xs) \<Longrightarrow> al_put k v xs = xs @ [(k, v)]"
  by (induction k v xs rule: al_put.induct) auto

lemma addPeer_view:
  assumes "addPeer pc t = (True, t')"
  shows "peer_view t' = peer_view t @ [(pc_id pc, pc_id pc, pc_outbound pc, pc_remote pc)]"
    and "pc_id pc \<notin> set (map fst (peer_view t))" "pc_id pc \<noteq> ''''" "pc_id pc \<noteq> tr_localID t"
    and "int (length (peer_view t)) < cf_MaxPeers (tr_cfg t)"
    and "pc_outbound pc \<Longrightarrow> outboundCount t < maxOutbound (tr_cfg t)"
    and "\<not> pc_outbound pc \<Longrightarrow> maxOutbound (tr_cfg t) \<le> cf_MaxPeers (tr_cfg t) \<Longrightarrow>
       inboundCount t < cf_MaxPeers (tr_cfg t) - maxOutbound (tr_cfg t)"
  using assms by (simp_all add: addPeer_def Let_def fst_peer_view view_counts al_put_new split: if_splits) (auto simp: peer_view_def)

lemma maxOutbound_le: "0 \<le> cf_MaxPeers cfg \<Longrightarrow> 0 \<le> maxOutbound cfg \<and> maxOutbound cfg \<le> cf_MaxPeers cfg"
  by (auto simp: maxOutbound_def Let_def)

lemma addPeer_ok:
  assumes "view_ok cfg self (peer_view t)" "tr_cfg t = cfg" "tr_localID t = self" "isLoopbackConn (pc_remote pc)"
    "0 \<le> cf_MaxPeers cfg" "addPeer pc t = (b, t')"
  shows "view_ok cfg self (peer_view t')"
proof (cases b)
  case True
  then have a: "addPeer pc t = (True, t')" using assms(6) by simp
  note v = addPeer_view [OF a]
  show ?thesis using assms(1,4) v(2-) maxOutbound_le [OF assms(5)] assms(2,3) view_counts [of t]
    unfolding v(1) view_ok_def by (cases "pc_outbound pc") auto
next
  case False
  then have "t' = t" using assms(6) addPeer_False by simp
  then show ?thesis using assms(1) by simp
qed

lemma removePeer_view: "peer_view (removePeer i t) = filter (\<lambda>x. fst x \<noteq> i) (peer_view t)"
  by (simp add: removePeer_def Let_def peer_view_def al_del_def filter_map case_prod_beta' comp_def split: option.split)

lemma length_filter2: "length (filter Q (filter P v)) \<le> length (filter Q v)"
  by (induction v) auto

lemma view_ok_filter: "view_ok cfg self v \<Longrightarrow> view_ok cfg self (filter P v)"
proof -
  have l: "int (length (filter P v)) \<le> int (length v)" by simp
  have d: "distinct (map fst v) \<Longrightarrow> distinct (map fst (filter P v))" by (rule distinct_map_filter)
  assume "view_ok cfg self v"
  then show ?thesis
    using l d length_filter2 [of "\<lambda>(k, i, out, r). out" P v] length_filter2 [of "\<lambda>(k, i, out, r). \<not> out" P v]
    unfolding view_ok_def by (simp only: set_filter) (smt (verit) mem_Collect_eq of_nat_mono)
qed

lemma removePeer_count:
  assumes "map_of (tr_peers t) i = Some pc"
  shows "tr_ipCount (removePeer i t) = tr_ipCount (untrackIP (host_of (pc_remote pc)) t)"
  using assms by (simp add: removePeer_def Let_def untrackIP_def)

lemma removePeer_frame [simp]:
  "tr_cfg (removePeer i t) = tr_cfg t" "tr_localID (removePeer i t) = tr_localID t" "tr_addrBook (removePeer i t) = tr_addrBook t"
  by (simp_all add: removePeer_def Let_def split: option.split)

section \<open>Every step keeps the invariant\<close>

definition book_ok :: "transport \<Rightarrow> bool" where
  "book_ok t \<longleftrightarrow> (\<forall>a \<in> set (al_keys (tr_addrBook t)). addr_ok a)"

lemma book_ok_cong: "tr_addrBook t' = tr_addrBook t \<Longrightarrow> book_ok t' = book_ok t"
  by (simp add: book_ok_def)

lemma observeAddr_book: "book_ok t \<Longrightarrow> book_ok (observeAddr now x t)"
  by (auto simp: book_ok_def observeAddr_def Let_def addr_ok_def set_al_put_keys simp del: set_map)

lemma backoff_book: "book_ok t \<Longrightarrow> addr_ok x \<Longrightarrow> book_ok (backoffAddrDial now j x p t)"
  by (auto simp: book_ok_def backoffAddrDial_def Let_def set_al_put_keys simp del: set_map)

lemma candidates_sub:
  "candidates now self xs = (out, book) \<Longrightarrow> set out \<subseteq> set (al_keys xs) \<and> set book \<subseteq> set xs"
proof (induction xs arbitrary: out book)
  case (Cons x xs)
  obtain o' b' where "candidates now self xs = (o', b')" by force
  with Cons show ?case by (cases x) (auto split: if_splits)
qed simp

lemma addrCandidates_book:
  assumes "addrCandidates now sh t = (cs, t')" "\<And>xs. set (sh xs) = set xs"
  shows "set cs \<subseteq> set (al_keys (tr_addrBook t))" "set (al_keys (tr_addrBook t')) \<subseteq> set (al_keys (tr_addrBook t))"
  using assms candidates_sub [of now "cf_ListenAddr (tr_cfg t)" "tr_addrBook t"]
  by (auto simp: addrCandidates_def split: prod.splits)

text \<open>
  What a step does to the transport, seen by the invariant: the configuration and the id stay, the
  peers and counters stay within the limits, known addresses stay usable.
\<close>

definition tr_ok :: "tcp_config \<Rightarrow> string \<Rightarrow> transport \<Rightarrow> bool" where
  "tr_ok cfg self t \<longleftrightarrow> tr_cfg t = cfg \<and> tr_localID t = self \<and> view_ok cfg self (peer_view t) \<and> counts_ok t \<and> book_ok t"

lemma tr_ok_same:
  "tr_ok cfg self t \<Longrightarrow> tr_cfg t' = tr_cfg t \<Longrightarrow> tr_localID t' = tr_localID t \<Longrightarrow> peer_view t' = peer_view t \<Longrightarrow>
   tr_ipCount t' = tr_ipCount t \<Longrightarrow> tr_addrBook t' = tr_addrBook t \<Longrightarrow> tr_ok cfg self t'"
  using counts_ok_cong [of t' t] book_ok_cong [of t' t] by (simp add: tr_ok_def)

lemma tr_ok_track: "tr_ok cfg self t \<Longrightarrow> trackIP h t = (b, t') \<Longrightarrow> tr_ok cfg self t'"
  using trackIP_frame [of h t b t'] trackIP_ok [of t h b t'] peer_view_cong [of t' t] book_ok_cong [of t' t] by (simp add: tr_ok_def)

lemma tr_ok_untrack: "tr_ok cfg self t \<Longrightarrow> tr_ok cfg self (untrackIP h t)"
  using untrackIP_ok peer_view_cong [of "untrackIP h t" t] book_ok_cong [of "untrackIP h t" t] by (simp add: tr_ok_def)

lemma tr_ok_clear: "tr_ok cfg self t \<Longrightarrow> tr_ok cfg self (clearDialInFlight a t)"
  by (rule tr_ok_same [of cfg self t]) (simp_all add: peer_view_def)

lemma tr_ok_observe: "tr_ok cfg self t \<Longrightarrow> tr_ok cfg self (observeAddr now a t)"
  using observeAddr_book [of t now a] peer_view_cong [of "observeAddr now a t" t] counts_ok_cong [of "observeAddr now a t" t]
  by (simp add: tr_ok_def)

lemma tr_ok_seeds: "tr_ok cfg self t \<Longrightarrow> tr_ok cfg self (addSeedAddrs now xs t)"
  by (induction xs arbitrary: t) (simp_all add: tr_ok_observe)

lemma tr_ok_fail: "tr_ok cfg self t \<Longrightarrow> addr_ok a \<Longrightarrow> tr_ok cfg self (outbound_fail now j a p t)"
proof -
  assume t: "tr_ok cfg self t" and a: "addr_ok a"
  let ?u = "untrackIP (host_of a) t"
  have "tr_ok cfg self ?u" using t by (rule tr_ok_untrack)
  then have "tr_ok cfg self (backoffAddrDial now j a p ?u)"
    using a backoff_book [of ?u a now j p] peer_view_cong [of "backoffAddrDial now j a p ?u" ?u] counts_ok_cong [of "backoffAddrDial now j a p ?u" ?u]
    by (simp add: tr_ok_def)
  then show ?thesis unfolding outbound_fail_def by (rule tr_ok_clear)
qed

lemma tr_ok_add:
  "tr_ok cfg self t \<Longrightarrow> isLoopbackConn (pc_remote pc) \<Longrightarrow> 0 \<le> cf_MaxPeers cfg \<Longrightarrow> addPeer pc t = (b, t') \<Longrightarrow> tr_ok cfg self t'"
  using addPeer_frame [of pc t b t'] addPeer_ok [of cfg self t pc b t'] counts_ok_cong [of t' t] book_ok_cong [of t' t] by (simp add: tr_ok_def)

lemma tr_ok_queue:
  assumes "t' = tcp_Send nil i m t \<or> t' = tcp_Broadcast nil i m t \<or> t' = requestPeersFromSomePeer nil now k t \<or>
     t' = map_peer i (peer_send nil m mx) t" "tr_ok cfg self t"
  shows "tr_ok cfg self t'"
proof -
  have s: "tr_ok cfg self (tcp_Send nil i m t)" for i m
    using assms(2) by (auto simp: tcp_Send_def Let_def map_peer_view split: option.split sum.split intro: tr_ok_same)
  have "tr_ok cfg self (tcp_Broadcast nil i m t)"
    using assms(2) by (auto simp: tcp_Broadcast_def Let_def map_peer_view split: sum.split intro: tr_ok_same)
  moreover have "tr_ok cfg self (requestPeersFromSomePeer nil now k t)"
    using s assms(2) by (simp add: requestPeersFromSomePeer_def Let_def)
  moreover have "tr_ok cfg self (map_peer i (peer_send nil m mx) t)"
    using assms(2) by (rule tr_ok_same) (simp_all add: map_peer_view)
  ultimately show ?thesis using assms(1) s by blast
qed

lemma tr_ok_remove: "tr_ok cfg self t \<Longrightarrow> map_of (tr_peers t) i = Some pc \<Longrightarrow> tr_ok cfg self (removePeer i t)"
proof -
  assume t: "tr_ok cfg self t" and i: "map_of (tr_peers t) i = Some pc"
  have "counts_ok (removePeer i t)"
    using t untrackIP_ok [of t "host_of (pc_remote pc)"] removePeer_count [OF i]
      counts_ok_cong [of "removePeer i t" "untrackIP (host_of (pc_remote pc)) t"] by (simp add: tr_ok_def)
  then show ?thesis using t view_ok_filter [of cfg self "peer_view t"] book_ok_cong [of "removePeer i t" t] by (simp add: tr_ok_def removePeer_view)
qed

lemma tr_ok_inbound_begin: "tr_ok cfg self t \<Longrightarrow> inbound_begin r t = (b, t') \<Longrightarrow> tr_ok cfg self t' \<and> (b \<longrightarrow> isLoopbackConn r)"
  by (auto simp: inbound_begin_def tr_ok_untrack split: sum.splits prod.splits bool.splits if_splits dest: tr_ok_track intro: tr_ok_untrack)

lemma tr_ok_outbound_begin: "tr_ok cfg self t \<Longrightarrow> outbound_begin a t = (b, t') \<Longrightarrow> tr_ok cfg self t'"
  by (auto simp: outbound_begin_def split: prod.splits bool.splits dest: tr_ok_track intro: tr_ok_clear)

lemma tr_ok_ask: "tr_ok cfg self t \<Longrightarrow> tr_ok cfg self (ask_for_peers nil now i t)"
  unfolding ask_for_peers_def by (rule tr_ok_same) (simp_all add: map_peer_view)

lemma tr_ok_outbound_done:
  assumes "tr_ok cfg self t" "isLoopbackConn (pc_remote pc)" "0 \<le> cf_MaxPeers cfg" "addr_ok a"
    "outbound_done nil now j a pc t = (b, t')"
  shows "tr_ok cfg self t'"
proof -
  obtain b2 u where u: "addPeer pc t = (b2, u)" by force
  then have "tr_ok cfg self u" using assms(1-3) tr_ok_add by blast
  then show ?thesis using assms(4,5) u tr_ok_fail tr_ok_ask tr_ok_observe
    by (cases b2) (auto simp: outbound_done_def)
qed

lemma tr_ok_inbound_done:
  assumes "tr_ok cfg self t" "isLoopbackConn (pc_remote pc)" "0 \<le> cf_MaxPeers cfg" "inbound_done now pc t = (b, t')"
  shows "tr_ok cfg self t'"
proof -
  obtain b2 u where u: "addPeer pc t = (b2, u)" by force
  then have "tr_ok cfg self u" using assms(1-3) tr_ok_add by blast
  then show ?thesis using assms(4) u tr_ok_untrack tr_ok_observe by (cases b2) (auto simp: inbound_done_def)
qed

definition tcp_inv :: "tcp_config \<Rightarrow> world \<Rightarrow> bool" where
  "tcp_inv cfg w \<longleftrightarrow> tr_ok (default_config cfg) (tr_localID (wd_tr w)) (wd_tr w) \<and>
     (\<forall>a \<in> set (wd_cands w) \<union> set (wd_started w) \<union> set (wd_out w). addr_ok a) \<and> (\<forall>r \<in> set (wd_in w). isLoopbackConn r)"

lemma tcp_start_inv: "tcp_start cfg w \<Longrightarrow> tcp_inv cfg w \<and> held_hosts w = {#} \<and> tr_ipCount (wd_tr w) = Map.empty"
  using maxOutbound_le [of "default_config cfg"] default_limits [of cfg]
  by (auto simp: tcp_start_def tcp_New_def tcp_Start_def tcp_Register_def Let_def tcp_inv_def tr_ok_def view_ok_def peer_view_def
      counts_ok_def book_ok_def held_hosts_def split: option.splits if_splits)

lemma tr_ok_dial:
  "tr_ok cfg self t \<Longrightarrow> dial_candidate now a t = (b, t') \<Longrightarrow> tr_ok cfg self t'"
  by (rule tr_ok_same) (use dial_candidate_frame [of now a t b t'] peer_view_cong [of t' t] in simp_all)

lemma tr_ok_round:
  assumes "tr_ok cfg self t" "addrCandidates now sh t = (cs, t')" "\<And>xs. set (sh xs) = set xs"
  shows "tr_ok cfg self t' \<and> (\<forall>a \<in> set cs. addr_ok a)"
  using assms(1) addrCandidates_frame [OF assms(2)] addrCandidates_book [OF assms(2,3)] peer_view_cong [of t' t] counts_ok_cong [of t' t]
  by (auto simp: tr_ok_def book_ok_def simp del: set_map)

lemma tr_ok_self: "tr_ok cfg self t \<Longrightarrow> tr_localID t = self" by (simp add: tr_ok_def)

lemma tcp_step_inv:
  assumes "tcp_step reach w w'" "tcp_inv cfg w"
  shows "tcp_inv cfg w'"
proof -
  define self where "self = tr_localID (wd_tr w)"
  let ?c = "default_config cfg"
  have t: "tr_ok ?c self (wd_tr w)" and ad: "\<And>a. a \<in> set (wd_cands w) \<union> set (wd_started w) \<union> set (wd_out w) \<Longrightarrow> addr_ok a"
    and r: "\<And>r. r \<in> set (wd_in w) \<Longrightarrow> isLoopbackConn r"
    using assms(2) by (auto simp: tcp_inv_def self_def)
  have mp: "0 \<le> cf_MaxPeers ?c" by (simp add: default_limits)
  have kept: "tcp_inv cfg w'" if "tr_ok ?c self (wd_tr w')"
    "\<forall>a \<in> set (wd_cands w') \<union> set (wd_started w') \<union> set (wd_out w'). addr_ok a" "\<forall>r \<in> set (wd_in w'). isLoopbackConn r" for w'
    using that tr_ok_self [OF that(1)] by (simp add: tcp_inv_def)
  show ?thesis using assms(1)
  proof cases
    case (accept r0 ok t')
    then show ?thesis using tr_ok_inbound_begin [OF t accept(2)] ad r by (intro kept) auto
  next
    case (in_fail r0)
    then show ?thesis using tr_ok_untrack [OF t] ad r by (intro kept) (auto simp: inbound_fail_def dest: subsetD [OF set_remove1_subset])
  next
    case (in_done pc now ok t')
    then show ?thesis using tr_ok_inbound_done [OF t r [OF in_done(2)] mp in_done(4)] ad r
      by (intro kept) (auto dest: subsetD [OF set_remove1_subset])
  next
    case (note_addrs now addrs)
    then show ?thesis using tr_ok_seeds [OF t] ad r by (intro kept) auto
  next
    case (round now sh cs t')
    then show ?thesis using tr_ok_round [OF t round(2,3)] ad r by (intro kept) auto
  next
    case (dial a now ok t')
    then show ?thesis using tr_ok_dial [OF t dial(4)] ad r by (intro kept) (auto dest: subsetD [OF set_remove1_subset])
  next
    case (out_begin a ok t')
    then show ?thesis using tr_ok_outbound_begin [OF t out_begin(3)] ad r by (intro kept) (auto dest: subsetD [OF set_remove1_subset])
  next
    case (out_fail a now j perm)
    then show ?thesis using tr_ok_fail [OF t] ad r by (intro kept) (auto dest: subsetD [OF set_remove1_subset])
  next
    case (out_done a pc nil now j ok t')
    have "addr_ok a" using out_done(2) ad by simp
    then show ?thesis using out_done tr_ok_outbound_done [OF t out_done(5) mp _ out_done(6)] ad r
      by (intro kept) (auto dest: subsetD [OF set_remove1_subset])
  next
    case (in_closed i pc)
    then show ?thesis using tr_ok_remove [OF t] ad r by (intro kept) auto
  next
    case (out_closed i pc a)
    then show ?thesis using tr_ok_clear [OF tr_ok_remove [OF t]] ad r by (intro kept) auto
  next
    case (frames_queued t')
    then show ?thesis using tr_ok_queue [OF _ t] ad r by (intro kept) auto
  qed
qed

lemma tcp_reachable_inv: "tcp_reachable reach cfg w \<Longrightarrow> tcp_inv cfg w"
  by (induction rule: tcp_reachable.induct) (use tcp_start_inv tcp_step_inv in blast)+

section \<open>The counters are exact when dialing reports the host that was dialed\<close>

lemma mset_remove1: "x \<in> set xs \<Longrightarrow> mset (map f xs) = add_mset (f x) (mset (map f (remove1 x xs)))"
  by (induction xs) auto

lemma mset_al_del:
  "distinct (al_keys xs) \<Longrightarrow> map_of xs i = Some p \<Longrightarrow> mset (map f xs) = add_mset (f (i, p)) (mset (map f (al_del i xs)))"
proof (induction xs)
  case (Cons x xs)
  obtain j q where x: "x = (j, q)" by (cases x)
  show ?case
  proof (cases "j = i")
    case True
    then have "i \<notin> set (al_keys xs)" using Cons(2) by (simp add: x)
    then have "al_del i xs = xs" by (auto simp: al_del_def filter_id_conv image_iff)
    then show ?thesis using True Cons(3) by (simp add: x)
  next
    case False
    then show ?thesis using Cons by (simp add: x)
  qed
qed simp

definition peer_hosts :: "transport \<Rightarrow> string multiset" where
  "peer_hosts t = mset (map (\<lambda>(k, i, out, r). host_of r) (peer_view t))"

definition exact :: "transport \<Rightarrow> string multiset \<Rightarrow> bool" where
  "exact t m \<longleftrightarrow> counts_ok t \<and> (\<forall>h. ip_count t h = int (count m h))"

lemma held_hosts_eq: "held_hosts w = mset (map host_of (wd_in w)) + mset (map host_of (wd_out w)) + peer_hosts (wd_tr w)"
  by (simp add: held_hosts_def peer_hosts_def)

lemma exact_cong: "tr_ipCount t' = tr_ipCount t \<Longrightarrow> tr_cfg t' = tr_cfg t \<Longrightarrow> exact t' m = exact t m"
  using counts_ok_cong [of t' t] by (simp add: exact_def)

lemma exact_track: "exact t m \<Longrightarrow> trackIP h t = (True, t') \<Longrightarrow> exact t' (add_mset h m)"
  using trackIP_ok [of t h True t'] trackIP_True [of h t t'] by (auto simp: exact_def)

lemma exact_untrack: "exact t (add_mset h m) \<Longrightarrow> exact (untrackIP h t) m"
  using untrackIP_ok [of t h] by (auto simp: exact_def untrackIP_count)

lemma exact_untrack_none: "exact t m \<Longrightarrow> h \<notin># m \<Longrightarrow> exact (untrackIP h t) m"
  using untrackIP_ok [of t h] by (auto simp: exact_def untrackIP_count not_in_iff)

lemma peer_hosts_add: "addPeer pc t = (True, t') \<Longrightarrow> peer_hosts t' = add_mset (host_of (pc_remote pc)) (peer_hosts t)"
  by (simp add: peer_hosts_def addPeer_view(1))

lemma peer_hosts_remove:
  assumes "map_of (tr_peers t) i = Some pc" "distinct (al_keys (tr_peers t))"
  shows "peer_hosts t = add_mset (host_of (pc_remote pc)) (peer_hosts (removePeer i t))"
proof -
  have "peer_hosts u = mset (map (\<lambda>(k, p). host_of (pc_remote p)) (tr_peers u))" for u
    by (simp add: peer_hosts_def peer_view_def case_prod_beta' comp_def)
  moreover have "tr_peers (removePeer i t) = al_del i (tr_peers t)" by (simp add: removePeer_def Let_def split: option.split)
  ultimately show ?thesis using mset_al_del [OF assms(2,1), of "\<lambda>(k, p). host_of (pc_remote p)"] by simp
qed

lemma peer_hosts_cong: "peer_view t' = peer_view t \<Longrightarrow> peer_hosts t' = peer_hosts t"
  by (simp add: peer_hosts_def)

lemma peer_hosts_same: "tr_peers t' = tr_peers t \<Longrightarrow> peer_hosts t' = peer_hosts t"
  by (simp add: peer_hosts_def peer_view_def)

lemma host_nonempty: "isLoopbackConn r \<Longrightarrow> host_of r \<noteq> ''''" "addr_ok a \<Longrightarrow> host_of a \<noteq> ''''"
proof -
  have "\<not> loopback_host ''''" by (simp add: loopback_host_def ParseIP_def)
  then show "isLoopbackConn r \<Longrightarrow> host_of r \<noteq> ''''" "addr_ok a \<Longrightarrow> host_of a \<noteq> ''''"
    by (auto simp: isLoopbackConn_def addr_ok_def isLoopbackAddr_def host_of_def split: sum.splits)
qed

lemma exact_inbound_begin:
  assumes "exact t m" "'''' \<notin># m" "inbound_begin r t = (b, t')"
  shows "exact t' (if b then add_mset (host_of r) m else m) \<and> peer_hosts t' = peer_hosts t"
proof (cases "SplitHostPort r")
  case (Inl e)
  then have "t' = untrackIP '''' t" "\<not> b" using assms(3) by (auto simp: inbound_begin_def)
  then show ?thesis using exact_untrack_none [OF assms(1,2)] peer_hosts_same [of t' t] by simp
next
  case (Inr hp)
  then obtain h p where h: "SplitHostPort r = Inr (h, p)" by (cases hp) auto
  then have hr: "host_of r = h" by (simp add: host_of_def)
  obtain b2 u where u: "trackIP h t = (b2, u)" by force
  have pu: "tr_peers u = tr_peers t" using trackIP_frame [OF u] by simp
  show ?thesis
  proof (cases b2)
    case True
    then have "exact u (add_mset h m)" using exact_track [OF assms(1)] u by simp
    then show ?thesis using assms(3) True exact_untrack [of u h m] peer_hosts_same [OF pu] peer_hosts_same [of "untrackIP h u" u]
      by (cases "isLoopbackConn r") (auto simp: inbound_begin_def h u hr)
  next
    case False
    then show ?thesis using assms u trackIP_False [of h t u] by (auto simp: inbound_begin_def h hr)
  qed
qed

lemma exact_outbound_begin:
  assumes "exact t m" "outbound_begin a t = (b, t')"
  shows "exact t' (if b then add_mset (host_of a) m else m) \<and> peer_hosts t' = peer_hosts t"
proof -
  obtain b2 u where u: "trackIP (host_of a) t = (b2, u)" by force
  have pu: "tr_peers u = tr_peers t" using trackIP_frame [OF u] by simp
  show ?thesis
  proof (cases b2)
    case True
    then show ?thesis using assms(2) u exact_track [OF assms(1)] peer_hosts_same [OF pu] by (auto simp: outbound_begin_def)
  next
    case False
    then have "u = t" using u trackIP_False [of "host_of a" t u] by simp
    then show ?thesis using assms False u exact_cong [of "clearDialInFlight a t" t m] peer_hosts_same [of "clearDialInFlight a t" t]
      by (auto simp: outbound_begin_def)
  qed
qed

lemma exact_fail:
  assumes "exact t (add_mset (host_of a) m)"
  shows "exact (outbound_fail now j a p t) m \<and> peer_hosts (outbound_fail now j a p t) = peer_hosts t"
  using exact_untrack [OF assms] exact_cong [of "outbound_fail now j a p t" "untrackIP (host_of a) t" m]
    peer_hosts_same [of "outbound_fail now j a p t" t]
  by (simp add: outbound_fail_def)

text \<open>A finished handshake turns the place of the handshake into the place of the peer, or frees it.\<close>

lemma exact_outbound_done:
  assumes "exact t (add_mset (host_of a) (m + peer_hosts t))" "host_of (pc_remote pc) = host_of a"
    "outbound_done nil now j a pc t = (b, t')"
  shows "exact t' (m + peer_hosts t')"
proof -
  obtain b2 u where u: "addPeer pc t = (b2, u)" by force
  show ?thesis
  proof (cases b2)
    case True
    let ?v = "observeAddr now (pc_listenAddr pc) u"
    have t': "t' = ask_for_peers nil now (pc_id pc) ?v" using assms(3) u True by (simp add: outbound_done_def)
    have "peer_hosts t' = peer_hosts u"
      using peer_hosts_cong [of t' ?v] peer_hosts_same [of ?v u] by (simp add: t' ask_for_peers_def map_peer_view)
    moreover have "exact t' k = exact t k" for k
      using exact_cong [of t' t] addPeer_frame [OF u] by (simp add: t' ask_for_peers_def)
    ultimately show ?thesis using assms(1,2) u True peer_hosts_add [of pc t u] by (simp add: add_mset_commute)
  next
    case False
    then have "t' = outbound_fail now j a True t" using assms(3) u addPeer_False [of pc t u] by (simp add: outbound_done_def)
    then show ?thesis using exact_fail [OF assms(1), of now j True] by simp
  qed
qed

lemma exact_inbound_done:
  assumes "exact t (add_mset (host_of (pc_remote pc)) (m + peer_hosts t))" "inbound_done now pc t = (b, t')"
  shows "exact t' (m + peer_hosts t')"
proof -
  obtain b2 u where u: "addPeer pc t = (b2, u)" by force
  show ?thesis
  proof (cases b2)
    case True
    then have t': "t' = observeAddr now (pc_listenAddr pc) u" using assms(2) u by (simp add: inbound_done_def)
    then have "peer_hosts t' = peer_hosts u" using peer_hosts_same [of t' u] by simp
    moreover have "exact t' k = exact t k" for k
      using exact_cong [of t' t] addPeer_frame [OF u] by (simp add: t')
    ultimately show ?thesis using assms(1) u True peer_hosts_add [of pc t u] by (simp add: add_mset_commute)
  next
    case False
    then have "t' = untrackIP (host_of (pc_remote pc)) t" using assms(2) u addPeer_False [of pc t u] by (simp add: inbound_done_def)
    then show ?thesis using exact_untrack [OF assms(1)] peer_hosts_same [of t' t] by simp
  qed
qed

lemma exact_remove:
  assumes "exact t (m + peer_hosts t)" "map_of (tr_peers t) i = Some pc" "distinct (al_keys (tr_peers t))"
  shows "exact (removePeer i t) (m + peer_hosts (removePeer i t))"
  using exact_untrack [of t "host_of (pc_remote pc)" "m + peer_hosts (removePeer i t)"] assms(1)
    peer_hosts_remove [OF assms(2,3)] removePeer_count [OF assms(2)]
    exact_cong [of "removePeer i t" "untrackIP (host_of (pc_remote pc)) t"]
  by simp

definition same_view :: "transport \<Rightarrow> transport \<Rightarrow> bool" where
  "same_view t t' \<longleftrightarrow> tr_ipCount t' = tr_ipCount t \<and> tr_cfg t' = tr_cfg t \<and> peer_view t' = peer_view t"

lemma queued_view:
  "same_view t (tcp_Send nil i m t)" "same_view t (tcp_Broadcast nil i m t)"
  "same_view t (requestPeersFromSomePeer nil now k t)" "same_view t (map_peer i (peer_send nil m mx) t)"
proof -
  show s: "same_view t (tcp_Send nil i m t)" for i m
    by (simp add: same_view_def tcp_Send_def Let_def map_peer_view split: option.split sum.split)
  show "same_view t (tcp_Broadcast nil i m t)"
    by (simp add: same_view_def tcp_Broadcast_def Let_def map_peer_view split: sum.split)
  show "same_view t (requestPeersFromSomePeer nil now k t)"
    using s by (simp add: requestPeersFromSomePeer_def Let_def same_view_def [of t t])
  show "same_view t (map_peer i (peer_send nil m mx) t)" by (simp add: same_view_def map_peer_view)
qed

definition world_exact :: "world \<Rightarrow> bool" where
  "world_exact w \<longleftrightarrow> exact (wd_tr w) (held_hosts w)"

lemma tcp_inv_keys: "tcp_inv cfg w \<Longrightarrow> distinct (al_keys (tr_peers (wd_tr w)))"
  by (simp add: tcp_inv_def tr_ok_def view_ok_def fst_peer_view)

lemma no_empty_host: "tcp_inv cfg w \<Longrightarrow> '''' \<notin># held_hosts w"
  using host_nonempty unfolding tcp_inv_def tr_ok_def view_ok_def held_hosts_def by fastforce

lemma world_exact_step:
  assumes "tcp_step reach w w'" "tcp_inv cfg w" "world_exact w" "\<And>a r. reach a r \<Longrightarrow> host_of r = host_of a"
  shows "world_exact w'"
proof -
  let ?t = "wd_tr w" let ?i = "mset (map host_of (wd_in w))" let ?o = "mset (map host_of (wd_out w))"
  have e: "exact ?t (?i + ?o + peer_hosts ?t)" using assms(3) by (simp add: world_exact_def held_hosts_eq)
  have same: "world_exact w'" if "tr_ipCount (wd_tr w') = tr_ipCount ?t" "tr_cfg (wd_tr w') = tr_cfg ?t"
    "peer_hosts (wd_tr w') = peer_hosts ?t" "wd_in w' = wd_in w" "wd_out w' = wd_out w" for w'
    using e that exact_cong [of "wd_tr w'" ?t] by (simp add: world_exact_def held_hosts_eq)
  show ?thesis using assms(1)
  proof cases
    case (accept r ok t)
    then show ?thesis using exact_inbound_begin [OF e _ accept(2)] no_empty_host [OF assms(2)]
      by (auto simp: world_exact_def held_hosts_eq split: if_splits)
  next
    case (in_fail r)
    let ?m = "mset (map host_of (remove1 r (wd_in w))) + ?o + peer_hosts ?t"
    have "exact (untrackIP (host_of r) ?t) ?m"
      using e mset_remove1 [OF in_fail(2), of host_of] by (intro exact_untrack) simp
    then show ?thesis using in_fail peer_hosts_same [of "untrackIP (host_of r) ?t" ?t]
      by (simp add: world_exact_def held_hosts_eq inbound_fail_def)
  next
    case (in_done pc now ok t)
    then show ?thesis
      using exact_inbound_done [of ?t pc "mset (map host_of (remove1 (pc_remote pc) (wd_in w))) + ?o" now ok t] e
        mset_remove1 [OF in_done(2), of host_of] by (simp add: world_exact_def held_hosts_eq)
  next
    case (note_addrs now addrs)
    then show ?thesis using peer_hosts_same [of "addSeedAddrs now addrs ?t" ?t] by (intro same) simp_all
  next
    case (round now sh cs t)
    then show ?thesis using addrCandidates_frame [OF round(2)] peer_hosts_same [of t ?t] by (intro same) simp_all
  next
    case (dial a now ok t)
    then show ?thesis using dial_candidate_frame [OF dial(4)] peer_hosts_same [of t ?t] by (intro same) simp_all
  next
    case (out_begin a ok t)
    then show ?thesis using exact_outbound_begin [OF e out_begin(3)]
      by (auto simp: world_exact_def held_hosts_eq split: if_splits)
  next
    case (out_fail a now j perm)
    let ?m = "?i + mset (map host_of (remove1 a (wd_out w))) + peer_hosts ?t"
    have "exact ?t (add_mset (host_of a) ?m)" using e mset_remove1 [OF out_fail(2), of host_of] by simp
    from exact_fail [OF this] show ?thesis using out_fail by (simp add: world_exact_def held_hosts_eq)
  next
    case (out_done a pc nil now j ok t)
    then show ?thesis
      using exact_outbound_done [of ?t a "?i + mset (map host_of (remove1 a (wd_out w)))" pc nil now j ok t] e
        mset_remove1 [OF out_done(2), of host_of] assms(4) [OF out_done(4)] by (simp add: world_exact_def held_hosts_eq)
  next
    case (in_closed i pc)
    then show ?thesis using exact_remove [OF e in_closed(2) tcp_inv_keys [OF assms(2)]] by (simp add: world_exact_def held_hosts_eq)
  next
    case (out_closed i pc a)
    let ?r = "removePeer i ?t"
    have "exact ?r (?i + ?o + peer_hosts ?r)" by (rule exact_remove [OF e out_closed(2) tcp_inv_keys [OF assms(2)]])
    then show ?thesis using out_closed exact_cong [of "clearDialInFlight a ?r" ?r] peer_hosts_same [of "clearDialInFlight a ?r" ?r]
      by (simp add: world_exact_def held_hosts_eq)
  next
    case (frames_queued t nil i m now k mx)
    have "same_view ?t t" using frames_queued(2) queued_view by metis
    then have "tr_ipCount t = tr_ipCount ?t \<and> tr_cfg t = tr_cfg ?t \<and> peer_view t = peer_view ?t" by (simp add: same_view_def)
    then show ?thesis using frames_queued(1) peer_hosts_cong [of t ?t] by (intro same) simp_all
  qed
qed

lemma world_exact_reachable:
  assumes "tcp_reachable reach cfg w" "\<And>a r. reach a r \<Longrightarrow> host_of r = host_of a"
  shows "world_exact w"
  using assms(1)
proof (induction rule: tcp_reachable.induct)
  case (tcp_init w)
  have "counts_ok (wd_tr w)" using tcp_start_inv [OF tcp_init] by (simp add: counts_ok_def)
  then show ?case using tcp_start_inv [OF tcp_init] by (simp add: world_exact_def exact_def)
next
  case (tcp_next w w')
  then show ?case using world_exact_step [OF tcp_next(2) tcp_reachable_inv [OF tcp_next(1)]] assms(2) by blast
qed

lemma count_map: "count (image_mset f (mset xs)) h = length (filter (\<lambda>x. f x = h) xs)"
  by (induction xs) auto

text \<open>A node that listens on 127.0.0.1:7000 with the defaults, and two peers of it.\<close>

definition demo_config :: tcp_config where
  "demo_config = \<lparr>cf_ListenAddr = ''127.0.0.1:7000'', cf_Seeds = [], cf_Magic = '''', cf_Version = 0,
     cf_Identity = Some \<lparr>id_NodeID = ''me'', id_PublicKey = [], id_PrivateKey = []\<rparr>, cf_MaxPeers = 0, cf_OutboundPeers = 0,
     cf_MaxConnsPerIP = 0, cf_MaxMessageSize = 0, cf_RateLimit = 0, cf_RateBurst = 0, cf_ReadTimeout = 0, cf_WriteTimeout = 0,
     cf_IdleTimeout = 0, cf_PeerRequestInterval = 0\<rparr>"

definition demo_transport :: transport where
  "demo_transport = \<lparr>tr_cfg = default_config demo_config, tr_handler = True, tr_localID = ''me'', tr_listening = True,
     tr_peers = [], tr_dialInFlight = {}, tr_addrBook = [], tr_ipCount = Map.empty, tr_started = True, tr_stopped = False\<rparr>"

definition demo_peer :: "string \<Rightarrow> bool \<Rightarrow> string \<Rightarrow> peerConn" where
  "demo_peer i out remote = \<lparr>pc_id = i, pc_listenAddr = '''', pc_pubKey = [], pc_outbound = out, pc_remote = remote,
     pc_queue = [], pc_closed = False\<rparr>"

definition demo_world :: world where
  "demo_world = \<lparr>wd_tr = demo_transport\<lparr>tr_ipCount := [''127.0.0.1'' \<mapsto> 1], tr_peers := [(''you'', demo_peer ''you'' False ''127.0.0.1:5'')]\<rparr>,
     wd_in = [], wd_cands = [], wd_started = [], wd_out = [], wd_dialed = []\<rparr>"

lemma demo_limits:
  "cf_MaxPeers (default_config demo_config) = 8" "cf_OutboundPeers (default_config demo_config) = 4"
  "cf_MaxConnsPerIP (default_config demo_config) = 2" "maxOutbound (default_config demo_config) = 4"
  by (simp_all add: maxOutbound_def Let_def default_limits) (simp_all add: demo_config_def)

lemma demo_hosts:
  "SplitHostPort ''127.0.0.1:5'' = Inr (''127.0.0.1'', ''5'')" "host_of ''127.0.0.1:5'' = ''127.0.0.1''"
  "host_of ''localhost:7001'' = ''localhost''" "SplitHostPort ''127.0.0.1:7000'' = Inr (''127.0.0.1'', ''7000'')"
  by (simp_all add: host_of_def SplitHostPort_def split_rest_def)

lemma demo_loopback: "loopback_host ''127.0.0.1''" "isLoopbackConn ''127.0.0.1:5''" "isLoopbackAddr ''127.0.0.1:7000''"
proof -
  show "loopback_host ''127.0.0.1''" by code_simp
  then show "isLoopbackConn ''127.0.0.1:5''" "isLoopbackAddr ''127.0.0.1:7000''"
    by (simp_all add: isLoopbackConn_def isLoopbackAddr_def demo_hosts)
qed

lemma demo_reachable: "tcp_reachable (\<lambda>a r. host_of r = host_of a) demo_config demo_world"
proof -
  let ?R = "\<lambda>a r :: string. host_of r = host_of a" let ?r = "''127.0.0.1:5''"
  define t1 where "t1 = demo_transport\<lparr>tr_ipCount := [''127.0.0.1'' \<mapsto> 1]\<rparr>"
  define w0 where "w0 = \<lparr>wd_tr = demo_transport, wd_in = [], wd_cands = [], wd_started = [], wd_out = [], wd_dialed = []\<rparr>"
  have l: "cf_ListenAddr (default_config demo_config) = ''127.0.0.1:7000''"
    by (simp add: default_config_def set_default_same [of cf_ListenAddr]) (simp add: demo_config_def)
  have "tcp_New demo_config = Inr (demo_transport\<lparr>tr_handler := False, tr_listening := False, tr_started := False\<rparr>)"
    by (simp add: tcp_New_def demo_transport_def) (simp add: demo_config_def)
  moreover have "tcp_Start True (tcp_Register ''me'' (demo_transport\<lparr>tr_handler := False, tr_listening := False, tr_started := False\<rparr>)) = (Inr (), demo_transport)"
    by (simp add: tcp_Start_def tcp_Register_def demo_transport_def l demo_loopback)
  ultimately have "tcp_start demo_config w0" by (simp add: tcp_start_def w0_def) (simp add: demo_transport_def)
  then have "tcp_reachable ?R demo_config w0" by (rule tcp_init)
  moreover have "inbound_begin ?r (wd_tr w0) = (True, t1)"
    by (simp add: inbound_begin_def demo_hosts demo_loopback trackIP_def Let_def w0_def t1_def demo_transport_def demo_limits)
  ultimately have "tcp_reachable ?R demo_config (w0\<lparr>wd_tr := t1, wd_in := [?r]\<rparr>)"
    using tcp_step.accept [of ?r w0 True t1 ?R] by (auto intro: tcp_next simp: w0_def)
  moreover have "inbound_done 0 (demo_peer ''you'' False ?r) t1 = (True, wd_tr demo_world)"
    by (simp add: inbound_done_def addPeer_def Let_def t1_def demo_transport_def demo_world_def demo_peer_def demo_limits
        inboundCount_def observeAddr_def)
  ultimately show ?thesis
    using tcp_step.in_done [of "demo_peer ''you'' False ?r" "w0\<lparr>wd_tr := t1, wd_in := [?r]\<rparr>" 0 True "wd_tr demo_world" ?R]
    by (auto intro: tcp_next simp: w0_def demo_peer_def demo_world_def)
qed

section \<open>Properties\<close>

text \<open>
  C26: In every state the transport can reach until \<^verbatim>\<open>Stop\<close>, whatever the peers do, the table holds at most
  \<^verbatim>\<open>MaxPeers\<close> peers, at most the outbound share of them dialed and at most the rest accepted, with
  distinct ids, none its own, all on loopback connections; no IP counter exceeds
  \<^verbatim>\<open>MaxConnsPerIP\<close>, and only loopback addresses with a valid port are dialed.
\<close>

theorem connection_bounds:
  assumes "tcp_reachable reach cfg w"
  shows "(let t = wd_tr w; c = default_config cfg in
     tr_cfg t = c \<and> int (length (tr_peers t)) \<le> cf_MaxPeers c \<and> outboundCount t \<le> maxOutbound c \<and>
     inboundCount t \<le> cf_MaxPeers c - maxOutbound c \<and> distinct (al_keys (tr_peers t)) \<and>
     (\<forall>(i, p) \<in> set (tr_peers t). pc_id p = i \<and> i \<noteq> '''' \<and> i \<noteq> tr_localID t \<and> isLoopbackConn (pc_remote p)) \<and>
     (\<forall>h. ip_count t h \<le> cf_MaxConnsPerIP c) \<and>
     (\<forall>a \<in> set (wd_started w) \<union> set (wd_out w). isLoopbackAddr a \<and> validTCPAddr a))"
proof -
  let ?t = "wd_tr w"
  have inv: "tcp_inv cfg w" using assms by (rule tcp_reachable_inv)
  then have v: "view_ok (default_config cfg) (tr_localID ?t) (peer_view ?t)" and c: "counts_ok ?t" "tr_cfg ?t = default_config cfg"
    by (simp_all add: tcp_inv_def tr_ok_def)
  have "ip_count ?t h \<le> cf_MaxConnsPerIP (default_config cfg)" for h
    using ip_count_le [OF c(1)] c(2) by (simp add: default_limits)
  moreover have "\<forall>(i, p) \<in> set (tr_peers ?t). pc_id p = i \<and> i \<noteq> '''' \<and> i \<noteq> tr_localID ?t \<and> isLoopbackConn (pc_remote p)"
    using v by (fastforce simp: view_ok_def peer_view_def)
  ultimately show ?thesis using v c(2) inv view_counts [of ?t] fst_peer_view [of ?t]
    by (auto simp: view_ok_def tcp_inv_def addr_ok_def)
qed

theorem connection_bounds_witness:
  "int (length (tr_peers (wd_tr demo_world))) \<le> 8 \<and> inboundCount (wd_tr demo_world) \<le> 4 \<and> tr_peers (wd_tr demo_world) \<noteq> []"
  using connection_bounds [OF demo_reachable] by (auto simp: Let_def demo_limits demo_world_def)

text \<open>
  C27: When dialing an address gives a connection to the host that was dialed, the IP counters are exact
  until \<^verbatim>\<open>Stop\<close> (which forgets the peers and keeps the counters), with the two sections of \<^verbatim>\<open>removePeer\<close> as one:
  the counter of a host is the number of peers, handshakes and dials that hold a place for it, so no
  host has more than \<^verbatim>\<open>MaxConnsPerIP\<close> connections. All connections being loopback ones, with
  the default of two a node that only meets \<^verbatim>\<open>127.0.0.1\<close> has at most two peers, whatever
  \<^verbatim>\<open>MaxPeers\<close> says.
\<close>

theorem ip_limit_exact:
  assumes "tcp_reachable reach cfg w" "\<And>a r. reach a r \<Longrightarrow> host_of r = host_of a"
  shows "ip_count (wd_tr w) h = int (count (held_hosts w) h) \<and>
     int (length (filter (\<lambda>(i, p). host_of (pc_remote p) = h) (tr_peers (wd_tr w)))) \<le> cf_MaxConnsPerIP (default_config cfg)"
proof -
  have e: "exact (wd_tr w) (held_hosts w)" using world_exact_reachable [OF assms] by (simp add: world_exact_def)
  have c: "tr_cfg (wd_tr w) = default_config cfg" using tcp_reachable_inv [OF assms(1)] by (simp add: tcp_inv_def tr_ok_def)
  have "int (count (held_hosts w) h) \<le> cf_MaxConnsPerIP (default_config cfg)"
    using e c ip_count_le [of "wd_tr w" h] default_limits(3) [of cfg] by (auto simp: exact_def)
  moreover have "length (filter (\<lambda>(i, p). host_of (pc_remote p) = h) (tr_peers (wd_tr w))) \<le> count (held_hosts w) h"
    by (simp add: held_hosts_def peer_view_def case_prod_beta' comp_def count_map)
  ultimately show ?thesis using e by (simp add: exact_def)
qed

theorem ip_limit_exact_witness:
  "ip_count (wd_tr demo_world) ''127.0.0.1'' = int (count (held_hosts demo_world) ''127.0.0.1'') \<and>
   ip_count (wd_tr demo_world) ''127.0.0.1'' = 1"
  using ip_limit_exact [OF demo_reachable, of "''127.0.0.1''"] by (simp add: demo_world_def)

text \<open>
  A peer dialed by name leaks its place: the counter is taken for the host as written, but given back
  for the host of the remote address. After one connection to, say, \<^verbatim>\<open>localhost\<close> has come and
  gone the counter of the name is one higher than before (and the place of another connection of the
  remote host may be given back instead); once it has reached the limit, no address of that name is
  ever dialed again.
\<close>

lemma dialed_name_leaks:
  assumes "host_of (pc_remote pc) \<noteq> host_of a" "counts_ok t" "outbound_begin a t = (True, t1)"
    "outbound_done nil now j a pc t1 = (True, t2)" "t3 = clearDialInFlight a (removePeer (pc_id pc) t2)"
  shows "ip_count t3 (host_of a) = ip_count t (host_of a) + 1 \<and>
     ip_count t3 (host_of (pc_remote pc)) = max 0 (ip_count t (host_of (pc_remote pc)) - 1) \<and>
     (ip_count t3 (host_of a) \<ge> cf_MaxConnsPerIP (tr_cfg t) \<longrightarrow>
        (\<forall>b. host_of b = host_of a \<longrightarrow> fst (outbound_begin b t3) = False))"
proof -
  have t1: "trackIP (host_of a) t = (True, t1)" using assms(3) by (auto simp: outbound_begin_def split: prod.splits bool.splits)
  obtain u where u: "addPeer pc t1 = (True, u)"
    "t2 = ask_for_peers nil now (pc_id pc) (observeAddr now (pc_listenAddr pc) u)"
    using assms(4) by (auto simp: outbound_done_def split: prod.splits bool.splits)
  have p: "map_of (tr_peers u) (pc_id pc) = Some pc"
    using u(1) by (auto simp: addPeer_def Let_def map_of_al_put split: if_splits)
  obtain pc' where pc': "map_of (tr_peers t2) (pc_id pc) = Some pc'" "pc_remote pc' = pc_remote pc"
  proof -
    have "map_of (map (\<lambda>(k, p). (k, if k = i then f p else p)) xs) i = map_option f (map_of xs i)"
      for xs :: "(string \<times> peerConn) list" and i f by (induction xs) auto
    then show ?thesis using p that by (simp add: u(2) ask_for_peers_def map_peer_def)
  qed
  have ip: "tr_ipCount t2 = tr_ipCount t1" "tr_cfg t2 = tr_cfg t"
    using addPeer_frame [OF u(1)] trackIP_frame [OF t1] by (simp_all add: u(2) ask_for_peers_def)
  have c: "counts_ok t2" using trackIP_ok [OF assms(2) t1] ip trackIP_frame [OF t1] by (simp add: counts_ok_def)
  have n: "ip_count t3 h = ip_count (untrackIP (host_of (pc_remote pc)) t2) h" for h
    using removePeer_count [OF pc'(1)] pc'(2) assms(5) by simp
  have c3: "tr_cfg t3 = tr_cfg t" using assms(5) ip by simp
  have a: "ip_count t3 (host_of a) = ip_count t (host_of a) + 1"
    using n untrackIP_count [OF c] trackIP_True [OF t1] assms(1) ip by simp
  have "fst (outbound_begin b t3) = False" if "ip_count t3 (host_of a) \<ge> cf_MaxConnsPerIP (tr_cfg t)" "host_of b = host_of a" for b
    using that c3 by (simp add: outbound_begin_def trackIP_def Let_def)
  with a show ?thesis using n untrackIP_count [OF c] trackIP_True [OF t1] assms(1) ip by simp
qed

lemma dialed_name_leaks_witness:
  "\<exists>t3. ip_count t3 ''localhost'' = 1 \<and> tr_peers t3 = []"
proof -
  let ?a = "''localhost:7001''" let ?pc = "demo_peer ''you'' True ''127.0.0.1:5''"
  have c: "counts_ok demo_transport" by (simp add: counts_ok_def demo_transport_def)
  obtain t1 where t1: "outbound_begin ?a demo_transport = (True, t1)" "tr_peers t1 = []" "tr_cfg t1 = default_config demo_config" "tr_localID t1 = ''me''"
    by (simp add: outbound_begin_def trackIP_def Let_def demo_hosts demo_transport_def demo_limits)
  then have "addPeer ?pc t1 = (True, t1\<lparr>tr_peers := [(''you'', ?pc)]\<rparr>)"
    by (simp add: addPeer_def Let_def demo_peer_def demo_limits outboundCount_def)
  then obtain t2 where t2: "outbound_done (\<lambda>_. True) 0 0 ?a ?pc t1 = (True, t2)" "al_keys (tr_peers t2) = [''you'']"
    by (simp add: outbound_done_def ask_for_peers_def map_peer_def demo_peer_def)
  define t3 where "t3 = clearDialInFlight ?a (removePeer (pc_id ?pc) t2)"
  have "host_of (pc_remote ?pc) \<noteq> host_of ?a" by (simp add: demo_peer_def demo_hosts)
  then have "ip_count t3 ''localhost'' = 1"
    using dialed_name_leaks [OF _ c t1(1) t2(1) t3_def] by (simp add: demo_hosts demo_transport_def)
  moreover have "tr_peers t3 = []" using t2(2) by (auto simp: t3_def removePeer_def Let_def demo_peer_def al_del_def split: option.split)
  ultimately show ?thesis by blast
qed

end
