(* ===== verification/Transport.thy ===== *)
theory Transport
  imports Messages "HOL-Library.Multiset" "HOL-Library.Sublist"
begin

text \<open>
  \<^verbatim>\<open>internal/transport/transport.go\<close>: the interface between a node and the network. What an
  implementation promises is stated as two locales, one for a transport that may reorder
  (\<open>mail_transport\<close>, the network in memory) and one for a transport that keeps the order
  (\<open>fifo_transport\<close>, TCP); what a node may rely on is proved inside them.
\<close>

text \<open>
  A list of effects goes to the transport: sends and broadcasts are its two operations, the other
  effects do not concern it.
\<close>

primrec post :: "(string \<Rightarrow> message \<Rightarrow> 't \<Rightarrow> 't) \<Rightarrow> (string \<Rightarrow> message \<Rightarrow> 't \<Rightarrow> 't) \<Rightarrow> effect \<Rightarrow> 't \<Rightarrow> 't" where
  "post snd_to bcast (Send to m) t = snd_to to m t"
| "post snd_to bcast (Broadcast sender m) t = bcast sender m t"
| "post snd_to bcast (StartRPC p typ pl d) t = t"
| "post snd_to bcast (StartTxTimer i d) t = t"

primrec post_all :: "(string \<Rightarrow> message \<Rightarrow> 't \<Rightarrow> 't) \<Rightarrow> (string \<Rightarrow> message \<Rightarrow> 't \<Rightarrow> 't) \<Rightarrow> effect list \<Rightarrow> 't \<Rightarrow> 't" where
  "post_all snd_to bcast [] t = t"
| "post_all snd_to bcast (e # es) t = post_all snd_to bcast es (post snd_to bcast e t)"

text \<open>The packets an effect means for node \<open>i\<close>, and those of a list of effects in their order.\<close>

primrec packets :: "('c \<Rightarrow> string \<Rightarrow> message \<Rightarrow> 'f list) \<Rightarrow> ('c \<Rightarrow> string \<Rightarrow> message \<Rightarrow> 'f list) \<Rightarrow> 'c \<Rightarrow> string \<Rightarrow> effect \<Rightarrow> 'f list" where
  "packets one all_of c i (Send to m) = (if i = to then one c to m else [])"
| "packets one all_of c i (Broadcast sender m) = (if i = sender then [] else all_of c sender m)"
| "packets one all_of c i (StartRPC p typ pl d) = []"
| "packets one all_of c i (StartTxTimer j d) = []"

definition all_packets :: "('c \<Rightarrow> string \<Rightarrow> message \<Rightarrow> 'f list) \<Rightarrow> ('c \<Rightarrow> string \<Rightarrow> message \<Rightarrow> 'f list) \<Rightarrow> 'c \<Rightarrow> string \<Rightarrow> effect list \<Rightarrow> 'f list" where
  "all_packets one all_of c i es = concat (map (packets one all_of c i) es)"

text \<open>Every broadcast of the list comes from somebody \<open>P\<close> allows.\<close>

definition spoken_by :: "(string \<Rightarrow> bool) \<Rightarrow> effect list \<Rightarrow> bool" where
  "spoken_by P es \<longleftrightarrow> list_all (\<lambda>e. case e of Broadcast sender _ \<Rightarrow> P sender | _ \<Rightarrow> True) es"

lemma spoken_by_Cons [simp]:
  "spoken_by P (e # es) \<longleftrightarrow> (case e of Broadcast sender _ \<Rightarrow> P sender | _ \<Rightarrow> True) \<and> spoken_by P es"
  by (simp add: spoken_by_def)

lemma all_packets_simps [simp]:
  "all_packets one all_of c i [] = []"
  "all_packets one all_of c i (e # es) = packets one all_of c i e @ all_packets one all_of c i es"
  by (simp_all add: all_packets_def)

section \<open>A transport that may lose and reorder\<close>

text \<open>
  \<open>mail t i\<close> is what has been handed over for node \<open>i\<close> and not been consumed, \<open>members t\<close> who can be
  reached, \<open>cfg t\<close> what the packets depend on, \<open>speaks t i\<close> whether \<open>i\<close> is a node that broadcasts here.
  An operation never invents, duplicates or misdirects a packet.
\<close>

locale mail_transport =
  fixes ok :: "'t \<Rightarrow> bool"
    and members :: "'t \<Rightarrow> string set"
    and mail :: "'t \<Rightarrow> string \<Rightarrow> 'f multiset"
    and cfg :: "'t \<Rightarrow> 'c"
    and speaks :: "'t \<Rightarrow> string \<Rightarrow> bool"
    and one :: "'c \<Rightarrow> string \<Rightarrow> message \<Rightarrow> 'f list"
    and all_of :: "'c \<Rightarrow> string \<Rightarrow> message \<Rightarrow> 'f list"
    and snd_to :: "string \<Rightarrow> message \<Rightarrow> 't \<Rightarrow> 't"
    and bcast :: "string \<Rightarrow> message \<Rightarrow> 't \<Rightarrow> 't"
  assumes send_frame: "ok t \<Longrightarrow> ok (snd_to to m t) \<and> members (snd_to to m t) = members t \<and> cfg (snd_to to m t) = cfg t \<and>
      speaks (snd_to to m t) = speaks t"
    and bcast_frame: "ok t \<Longrightarrow> ok (bcast j m t) \<and> members (bcast j m t) = members t \<and> cfg (bcast j m t) = cfg t \<and>
      speaks (bcast j m t) = speaks t"
    and send_mail: "ok t \<Longrightarrow> \<exists>ps. mset ps \<subseteq># mset (packets one all_of (cfg t) i (Send to m)) \<and>
      mail (snd_to to m t) i = mail t i + mset ps \<and> (i \<notin> members t \<longrightarrow> ps = [])"
    and bcast_mail: "ok t \<Longrightarrow> speaks t j \<Longrightarrow> \<exists>ps. mset ps \<subseteq># mset (packets one all_of (cfg t) i (Broadcast j m)) \<and>
      mail (bcast j m t) i = mail t i + mset ps \<and> (i \<notin> members t \<longrightarrow> ps = [])"
begin

lemma post_frame:
  "ok t \<Longrightarrow> ok (post snd_to bcast e t) \<and> members (post snd_to bcast e t) = members t \<and> cfg (post snd_to bcast e t) = cfg t \<and>
     speaks (post snd_to bcast e t) = speaks t"
  using send_frame bcast_frame by (cases e) simp_all

lemma post_mail:
  assumes "ok t" "spoken_by (speaks t) [e]"
  shows "\<exists>ps. mset ps \<subseteq># mset (packets one all_of (cfg t) i e) \<and>
     mail (post snd_to bcast e t) i = mail t i + mset ps \<and> (i \<notin> members t \<longrightarrow> ps = [])"
  using assms send_mail bcast_mail by (cases e) (auto simp: spoken_by_def)

text \<open>A run of effects only adds packets that are due, none twice, and none for a stranger.\<close>

lemma post_all_mail:
  assumes "ok t" "spoken_by (speaks t) es"
  shows "\<exists>ps. mset ps \<subseteq># mset (all_packets one all_of (cfg t) i es) \<and>
     mail (post_all snd_to bcast es t) i = mail t i + mset ps \<and> (i \<notin> members t \<longrightarrow> ps = [])"
  using assms
proof (induction es arbitrary: t)
  case (Cons e es)
  let ?u = "post snd_to bcast e t"
  obtain ps where ps: "mset ps \<subseteq># mset (packets one all_of (cfg t) i e)" "mail ?u i = mail t i + mset ps"
    "i \<notin> members t \<Longrightarrow> ps = []"
    using post_mail [of t e i] Cons.prems by (auto simp: spoken_by_def)
  obtain qs where qs: "mset qs \<subseteq># mset (all_packets one all_of (cfg t) i es)"
    "mail (post_all snd_to bcast es ?u) i = mail ?u i + mset qs" "i \<notin> members t \<Longrightarrow> qs = []"
    using Cons.IH [of ?u] post_frame [OF Cons.prems(1), of e] Cons.prems(2) by auto
  have "mset (ps @ qs) \<subseteq># mset (all_packets one all_of (cfg t) i (e # es))"
    using subset_mset.add_mono [OF ps(1) qs(1)] by simp
  then show ?case using ps qs by (intro exI [of _ "ps @ qs"]) auto
qed (auto intro: exI [of _ "[]"])

end

section \<open>A transport that keeps the order\<close>

locale fifo_transport =
  fixes ok :: "'t \<Rightarrow> bool"
    and members :: "'t \<Rightarrow> string set"
    and queue :: "'t \<Rightarrow> string \<Rightarrow> 'f list"
    and cfg :: "'t \<Rightarrow> 'c"
    and speaks :: "'t \<Rightarrow> string \<Rightarrow> bool"
    and one :: "'c \<Rightarrow> string \<Rightarrow> message \<Rightarrow> 'f list"
    and all_of :: "'c \<Rightarrow> string \<Rightarrow> message \<Rightarrow> 'f list"
    and snd_to :: "string \<Rightarrow> message \<Rightarrow> 't \<Rightarrow> 't"
    and bcast :: "string \<Rightarrow> message \<Rightarrow> 't \<Rightarrow> 't"
  assumes fifo_send_frame: "ok t \<Longrightarrow> ok (snd_to to m t) \<and> members (snd_to to m t) = members t \<and> cfg (snd_to to m t) = cfg t \<and>
      speaks (snd_to to m t) = speaks t"
    and fifo_bcast_frame: "ok t \<Longrightarrow> ok (bcast j m t) \<and> members (bcast j m t) = members t \<and> cfg (bcast j m t) = cfg t \<and>
      speaks (bcast j m t) = speaks t"
    and send_queue: "ok t \<Longrightarrow> \<exists>ps. subseq ps (packets one all_of (cfg t) i (Send to m)) \<and>
      queue (snd_to to m t) i = queue t i @ ps \<and> (i \<notin> members t \<longrightarrow> ps = [])"
    and bcast_queue: "ok t \<Longrightarrow> speaks t j \<Longrightarrow> \<exists>ps. subseq ps (packets one all_of (cfg t) i (Broadcast j m)) \<and>
      queue (bcast j m t) i = queue t i @ ps \<and> (i \<notin> members t \<longrightarrow> ps = [])"

lemma subseq_mset: "subseq xs ys \<Longrightarrow> mset xs \<subseteq># mset ys"
  by (induction rule: list_emb.induct) (auto simp: subset_mset.add_increasing2 intro: subset_mset.order_trans)

sublocale fifo_transport \<subseteq> mail_transport ok members "\<lambda>t i. mset (queue t i)" cfg speaks one all_of snd_to bcast
proof
  show "\<exists>ps. mset ps \<subseteq># mset (packets one all_of (cfg t) i (Send to m)) \<and>
      mset (queue (snd_to to m t) i) = mset (queue t i) + mset ps \<and> (i \<notin> members t \<longrightarrow> ps = [])" if "ok t" for t i to m
    using send_queue [OF that, of i to m] subseq_mset by fastforce
  show "\<exists>ps. mset ps \<subseteq># mset (packets one all_of (cfg t) i (Broadcast j m)) \<and>
      mset (queue (bcast j m t) i) = mset (queue t i) + mset ps \<and> (i \<notin> members t \<longrightarrow> ps = [])" if "ok t" "speaks t j" for t i j m
    using bcast_queue [OF that, of i m] subseq_mset by fastforce
qed (simp_all add: fifo_send_frame fifo_bcast_frame)

context fifo_transport begin

lemma post_queue:
  assumes "ok t" "spoken_by (speaks t) [e]"
  shows "\<exists>ps. subseq ps (packets one all_of (cfg t) i e) \<and>
     queue (post snd_to bcast e t) i = queue t i @ ps \<and> (i \<notin> members t \<longrightarrow> ps = [])"
  using assms send_queue bcast_queue by (cases e) (auto simp: spoken_by_def)

text \<open>What a run of effects adds to a queue comes in the order of the effects.\<close>

lemma post_all_queue:
  assumes "ok t" "spoken_by (speaks t) es"
  shows "\<exists>ps. subseq ps (all_packets one all_of (cfg t) i es) \<and>
     queue (post_all snd_to bcast es t) i = queue t i @ ps \<and> (i \<notin> members t \<longrightarrow> ps = [])"
  using assms
proof (induction es arbitrary: t)
  case (Cons e es)
  let ?u = "post snd_to bcast e t"
  obtain ps where ps: "subseq ps (packets one all_of (cfg t) i e)" "queue ?u i = queue t i @ ps" "i \<notin> members t \<Longrightarrow> ps = []"
    using post_queue [of t e i] Cons.prems by (auto simp: spoken_by_def)
  obtain qs where qs: "subseq qs (all_packets one all_of (cfg t) i es)"
    "queue (post_all snd_to bcast es ?u) i = queue ?u i @ qs" "i \<notin> members t \<Longrightarrow> qs = []"
    using Cons.IH [of ?u] post_frame [OF Cons.prems(1), of e] Cons.prems(2) by auto
  have "subseq (ps @ qs) (all_packets one all_of (cfg t) i (e # es))"
    using list_emb_append_mono [OF ps(1) qs(1)] by simp
  then show ?case using ps qs by (intro exI [of _ "ps @ qs"]) auto
qed (auto intro: exI [of _ "[]"])

end

end
