(* ===== verification/TcpMail.thy ===== *)
theory TcpMail
  imports TcpProps Transport
begin

text \<open>
  The TCP transport keeps the promises of the theory \<open>Transport\<close>: what \<^verbatim>\<open>Send\<close> and
  \<^verbatim>\<open>Broadcast\<close> put into the write queue of a peer are the frames meant for it, in order.
\<close>

definition peer_queue :: "transport \<Rightarrow> string \<Rightarrow> byte list list" where
  "peer_queue t i = (case map_of (tr_peers t) i of None \<Rightarrow> [] | Some p \<Rightarrow> pc_queue p)"

text \<open>The frame of a message, none when it is too large; the two operations fill in an empty field.\<close>

definition frames_of :: "nils \<Rightarrow> int \<Rightarrow> message \<Rightarrow> byte list list" where
  "frames_of nil mx m = (case encodeFrame nil m mx of Inl _ \<Rightarrow> [] | Inr raw \<Rightarrow> [raw])"

definition sent_frames :: "nils \<Rightarrow> int \<Rightarrow> string \<Rightarrow> message \<Rightarrow> byte list list" where
  "sent_frames nil mx to m = frames_of nil mx (if msg_To m = '''' then m\<lparr>msg_To := to\<rparr> else m)"

definition cast_frames :: "nils \<Rightarrow> int \<Rightarrow> string \<Rightarrow> message \<Rightarrow> byte list list" where
  "cast_frames nil mx sender m = frames_of nil mx (if msg_From m = '''' then m\<lparr>msg_From := sender\<rparr> else m)"

abbreviation not_own_peer :: "transport \<Rightarrow> bool" where
  "not_own_peer t \<equiv> tr_localID t \<notin> set (al_keys (tr_peers t))"

lemma reachable_not_own_peer: "tcp_reachable reach cfg w \<Longrightarrow> not_own_peer (wd_tr w)"
  using tcp_reachable_inv [of reach cfg w] fst_peer_view [of "wd_tr w"]
  by (fastforce simp: tcp_inv_def tr_ok_def view_ok_def simp flip: fst_peer_view)

lemma sendRaw_queue: "\<exists>ps. subseq ps [raw] \<and> pc_queue (sendRaw raw p) = pc_queue p @ ps"
  by (auto simp: sendRaw_def intro: exI [of _ "[]"])

lemma map_of_map_peer: "map_of (tr_peers (map_peer i f t)) j = (if j = i then map_option f (map_of (tr_peers t) i) else map_of (tr_peers t) j)"
proof -
  have "map_of (map (\<lambda>(k, p). (k, if k = i then f p else p)) xs) j = (if j = i then map_option f (map_of xs i) else map_of xs j)"
    for xs :: "(string \<times> peerConn) list" by (induction xs) auto
  then show ?thesis by (simp add: map_peer_def)
qed

lemma map_of_map_peers: "map_of (tr_peers (map_peers f t)) j = map_option f (map_of (tr_peers t) j)"
proof -
  have "map_of (map (apsnd f) xs) j = map_option f (map_of xs j)" for xs :: "(string \<times> peerConn) list" by (induction xs) auto
  then show ?thesis by (simp add: map_peers_def)
qed

lemma mail_frame:
  "tr_cfg (tcp_Send nil to m t) = tr_cfg t" "tr_localID (tcp_Send nil to m t) = tr_localID t"
  "al_keys (tr_peers (tcp_Send nil to m t)) = al_keys (tr_peers t)"
  "tr_cfg (tcp_Broadcast nil j m t) = tr_cfg t" "tr_localID (tcp_Broadcast nil j m t) = tr_localID t"
  "al_keys (tr_peers (tcp_Broadcast nil j m t)) = al_keys (tr_peers t)"
proof -
  have k: "al_keys (tr_peers (map_peer i f t)) = al_keys (tr_peers t)" "al_keys (tr_peers (map_peers f t)) = al_keys (tr_peers t)" for i f
    by (simp_all add: map_peer_def map_peers_def comp_def split_def)
  show "tr_cfg (tcp_Send nil to m t) = tr_cfg t" "tr_localID (tcp_Send nil to m t) = tr_localID t"
    "al_keys (tr_peers (tcp_Send nil to m t)) = al_keys (tr_peers t)"
    "tr_cfg (tcp_Broadcast nil j m t) = tr_cfg t" "tr_localID (tcp_Broadcast nil j m t) = tr_localID t"
    "al_keys (tr_peers (tcp_Broadcast nil j m t)) = al_keys (tr_peers t)"
    by (simp_all add: tcp_Send_def tcp_Broadcast_def k split: option.split sum.split)
qed

lemma Send_queue:
  "\<exists>ps. subseq ps (if i = to then sent_frames nil (cf_MaxMessageSize (tr_cfg t)) to m else []) \<and>
     peer_queue (tcp_Send nil to m t) i = peer_queue t i @ ps \<and> (i \<notin> set (al_keys (tr_peers t)) \<longrightarrow> ps = [])"
proof (cases "to = '''' \<or> map_of (tr_peers t) to = None")
  case True
  then show ?thesis by (intro exI [of _ "[]"]) (auto simp: tcp_Send_def)
next
  case False
  then obtain p where p: "map_of (tr_peers t) to = Some p" "to \<noteq> ''''" by auto
  let ?m = "if msg_To m = '''' then m\<lparr>msg_To := to\<rparr> else m"
  show ?thesis
  proof (cases "encodeFrame nil ?m (cf_MaxMessageSize (tr_cfg t))")
    case (Inl e)
    then show ?thesis using p by (intro exI [of _ "[]"]) (simp add: tcp_Send_def)
  next
    case (Inr raw)
    obtain ps where ps: "subseq ps [raw]" "pc_queue (sendRaw raw p) = pc_queue p @ ps" using sendRaw_queue by blast
    have q: "peer_queue (tcp_Send nil to m t) i = peer_queue t i @ (if i = to then ps else [])"
      using p ps(2) by (simp add: tcp_Send_def Inr peer_queue_def map_of_map_peer)
    have "to \<in> set (al_keys (tr_peers t))" using p(1) by (force dest!: map_of_SomeD)
    then show ?thesis using q ps(1) by (intro exI [of _ "if i = to then ps else []"]) (simp add: sent_frames_def frames_of_def Inr)
  qed
qed

lemma Broadcast_queue:
  assumes "not_own_peer t" "j = tr_localID t"
  shows "\<exists>ps. subseq ps (if i = j then [] else cast_frames nil (cf_MaxMessageSize (tr_cfg t)) j m) \<and>
     peer_queue (tcp_Broadcast nil j m t) i = peer_queue t i @ ps \<and> (i \<notin> set (al_keys (tr_peers t)) \<longrightarrow> ps = [])"
proof (cases "encodeFrame nil (if msg_From m = '''' then m\<lparr>msg_From := j\<rparr> else m) (cf_MaxMessageSize (tr_cfg t))")
  case (Inl e)
  then show ?thesis by (intro exI [of _ "[]"]) (simp add: tcp_Broadcast_def)
next
  case (Inr raw)
  have q: "peer_queue (tcp_Broadcast nil j m t) i = (case map_of (tr_peers t) i of None \<Rightarrow> [] | Some p \<Rightarrow> pc_queue (sendRaw raw p))"
    by (simp add: tcp_Broadcast_def Inr peer_queue_def map_of_map_peers split: option.split)
  show ?thesis
  proof (cases "map_of (tr_peers t) i")
    case None
    then show ?thesis using q by (intro exI [of _ "[]"]) (simp add: peer_queue_def)
  next
    case (Some p)
    then have i: "i \<in> set (al_keys (tr_peers t))" by (force dest!: map_of_SomeD)
    then have ne: "i \<noteq> j" using assms by blast
    obtain ps where ps: "subseq ps [raw]" "pc_queue (sendRaw raw p) = pc_queue p @ ps" using sendRaw_queue by blast
    have "cast_frames nil (cf_MaxMessageSize (tr_cfg t)) j m = [raw]" by (simp add: cast_frames_def frames_of_def Inr)
    moreover have "peer_queue (tcp_Broadcast nil j m t) i = peer_queue t i @ ps" using q Some ps(2) by (simp add: peer_queue_def)
    ultimately show ?thesis using ps(1) i ne by (intro exI [of _ ps]) simp
  qed
qed

interpretation wire: fifo_transport not_own_peer "\<lambda>t. set (al_keys (tr_peers t))" peer_queue
  "\<lambda>t. cf_MaxMessageSize (tr_cfg t)" "\<lambda>t j. j = tr_localID t" "sent_frames nil" "cast_frames nil" "tcp_Send nil" "tcp_Broadcast nil"
  for nil
proof
  show "\<exists>ps. subseq ps (packets (sent_frames nil) (cast_frames nil) (cf_MaxMessageSize (tr_cfg t)) i (Send to m)) \<and>
      peer_queue (tcp_Send nil to m t) i = peer_queue t i @ ps \<and> (i \<notin> set (al_keys (tr_peers t)) \<longrightarrow> ps = [])" for t i to m
    using Send_queue unfolding packets.simps by blast
  show "\<exists>ps. subseq ps (packets (sent_frames nil) (cast_frames nil) (cf_MaxMessageSize (tr_cfg t)) i (Broadcast j m)) \<and>
      peer_queue (tcp_Broadcast nil j m t) i = peer_queue t i @ ps \<and> (i \<notin> set (al_keys (tr_peers t)) \<longrightarrow> ps = [])"
    if "not_own_peer t" "j = tr_localID t" for t i j m
    using Broadcast_queue [OF that] unfolding packets.simps by blast
qed (simp_all add: mail_frame)

section \<open>From one node to another\<close>

text \<open>The write loop of a connection, a number of rounds in which no write fails.\<close>

fun write_rounds :: "nat \<Rightarrow> peerConn \<Rightarrow> byte list \<times> peerConn" where
  "write_rounds 0 p = ([], p)"
| "write_rounds (Suc k) p =
     (case write_round True p of (bs, p) \<Rightarrow> (case write_rounds k p of (cs, p) \<Rightarrow> (bs @ cs, p)))"

lemma write_rounds_all:
  "\<not> pc_closed p \<Longrightarrow> write_rounds (length (pc_queue p)) p = (concat (pc_queue p), p\<lparr>pc_queue := []\<rparr>)"
proof (induction "pc_queue p" arbitrary: p)
  case (Cons fr q)
  then have "write_round True p = (fr, p\<lparr>pc_queue := q\<rparr>)" "pc_queue p = fr # q" by (simp_all add: write_round_def flip: Cons.hyps(2))
  then show ?case using Cons.hyps(1) [of "p\<lparr>pc_queue := q\<rparr>"] Cons.prems by simp
qed simp

text \<open>Sends that fit go into the queue one behind the other.\<close>

lemma post_sends:
  assumes "list_all2 (\<lambda>m f. msg_To m = b \<and> encodeFrame nil m (cf_MaxMessageSize (tr_cfg t)) = Inr f) ms fs" "b \<noteq> ''''"
    "map_of (tr_peers t) b = Some p" "length (pc_queue p) + length ms \<le> write_cap"
  shows "map_of (tr_peers (post_all (tcp_Send nil) (tcp_Broadcast nil) (map (Send b) ms) t)) b = Some (p\<lparr>pc_queue := pc_queue p @ fs\<rparr>)"
  using assms
proof (induction ms arbitrary: fs t p)
  case (Cons m ms)
  from Cons.prems(1) obtain f gs where f: "fs = f # gs" "msg_To m = b" "encodeFrame nil m (cf_MaxMessageSize (tr_cfg t)) = Inr f"
    "list_all2 (\<lambda>m f. msg_To m = b \<and> encodeFrame nil m (cf_MaxMessageSize (tr_cfg t)) = Inr f) ms gs"
    by (auto simp: list_all2_Cons1)
  have "f \<noteq> []" using f(3) by (auto simp: encodeFrame_def Let_def split: if_splits dest: arg_cong [where f = length])
  then have s: "sendRaw f p = p\<lparr>pc_queue := pc_queue p @ [f]\<rparr>" using Cons.prems(4) by (simp add: sendRaw_def)
  let ?u = "tcp_Send nil b m t"
  have u: "map_of (tr_peers ?u) b = Some (p\<lparr>pc_queue := pc_queue p @ [f]\<rparr>)"
    using Cons.prems(2,3) f(2,3) by (simp add: tcp_Send_def map_of_map_peer s)
  have "map_of (tr_peers (post_all (tcp_Send nil) (tcp_Broadcast nil) (map (Send b) ms) ?u)) b =
      Some ((p\<lparr>pc_queue := pc_queue p @ [f]\<rparr>)\<lparr>pc_queue := pc_queue (p\<lparr>pc_queue := pc_queue p @ [f]\<rparr>) @ gs\<rparr>)"
    by (rule Cons.IH [OF _ Cons.prems(2) u]) (use f(4) Cons.prems(4) in \<open>simp_all add: mail_frame\<close>)
  then show ?case by (simp add: f(1))
qed simp

lemma node_id_ascii: "NodeIDFromPublicKey sha pub = Inr b \<Longrightarrow> utf8_coerce b = b \<and> b \<noteq> ''''"
proof -
  assume a: "NodeIDFromPublicKey sha pub = Inr b"
  then have "list_all (\<lambda>c. of_char c < (128::nat)) b"
    using hex_ascii by (auto simp: NodeIDFromPublicKey_def list_all_iff split: if_splits dest!: in_set_takeD)
  then show ?thesis using utf8_coerce_ascii node_id_length [OF a] by auto
qed

section \<open>Properties\<close>


definition demo_inv :: "string \<Rightarrow> message" where
  "demo_inv i = \<lparr>msg_Type = MsgInvTx, msg_From = ''me'', msg_To = ''you'', msg_Timestamp = 7, msg_TraceID = '''',
     msg_Payload = InvTxPayload i\<rparr>"

lemma demo_inv_fits: "int (length (frame_text (\<lambda>_. False) (demo_inv ''t1''))) \<le> 2097152" "int (length (frame_text (\<lambda>_. False) (demo_inv ''t2''))) \<le> 2097152"
  by (simp_all add: frame_text_def demo_inv_def MarshalJSON_def int_json_def dec_int_def dec_nat.simps json_quote_def
      escape_ascii_def bytes_of_def)


end
