(* ===== verification/Bus.thy ===== *)
theory Bus
  imports Transport Prelude Complex_Main
begin

text \<open>
  \<^verbatim>\<open>internal/network/bus.go\<close> and \<^verbatim>\<open>internal/transport/inproc/inproc.go\<close>: the network in
  memory that connects the nodes of one process. A handler is any value; the goroutines that carry
  a message are the deliveries under way, which may happen in any order. The handlers are an
  association list (its order is the order in which the map is ranged over); the generator of
  random numbers is the sequence of the numbers it will return.
\<close>

section \<open>The bus\<close>

text \<open>
  A \<^verbatim>\<open>float64\<close> that is only compared: a rational number, or \<open>None\<close> for NaN, for which every
  comparison is false (the infinities are clamped like any number outside 0 to 1).
\<close>

type_synonym float64 = "rat option"

definition float_less :: "float64 \<Rightarrow> float64 \<Rightarrow> bool" where
  "float_less a b = (case (a, b) of (Some x, Some y) \<Rightarrow> x < y | _ \<Rightarrow> False)"

record 'h NetworkBus =
  nb_handlers :: "(string \<times> 'h) list"
  nb_delay :: duration
  nb_dropRate :: float64
  nb_rng :: "nat \<Rightarrow> rat"

type_synonym 'h delivery = "duration \<times> 'h \<times> message"

definition NewNetworkBus :: "(nat \<Rightarrow> rat) \<Rightarrow> 'h NetworkBus" where
  "NewNetworkBus rng = \<lparr>nb_handlers = [], nb_delay = 0, nb_dropRate = Some 0, nb_rng = rng\<rparr>"

definition bus_Register :: "string \<Rightarrow> 'h \<Rightarrow> 'h NetworkBus \<Rightarrow> 'h NetworkBus" where
  "bus_Register nodeID handler b = b\<lparr>nb_handlers := al_put nodeID handler (nb_handlers b)\<rparr>"

definition bus_Unregister :: "string \<Rightarrow> 'h NetworkBus \<Rightarrow> 'h NetworkBus" where
  "bus_Unregister nodeID b = b\<lparr>nb_handlers := al_del nodeID (nb_handlers b)\<rparr>"

definition PeerIDs :: "'h NetworkBus \<Rightarrow> string list" where
  "PeerIDs b = al_keys (nb_handlers b)"

definition bus_SetDelay :: "duration \<Rightarrow> 'h NetworkBus \<Rightarrow> 'h NetworkBus" where
  "bus_SetDelay d b = b\<lparr>nb_delay := d\<rparr>"

definition bus_SetDropRate :: "float64 \<Rightarrow> 'h NetworkBus \<Rightarrow> 'h NetworkBus" where
  "bus_SetDropRate p b =
     (let p = (if float_less p (Some 0) then Some 0 else p);
          p = (if float_less (Some 1) p then Some 1 else p)
      in b\<lparr>nb_dropRate := p\<rparr>)"

definition shouldDrop :: "float64 \<Rightarrow> 'h NetworkBus \<Rightarrow> bool \<times> 'h NetworkBus" where
  "shouldDrop p b = (float_less (Some (nb_rng b 0)) p, b\<lparr>nb_rng := nb_rng b \<circ> Suc\<rparr>)"

text \<open>\<^verbatim>\<open>dropRate > 0 && b.shouldDrop(dropRate)\<close>: a number is only drawn for a positive rate.\<close>

definition drops :: "float64 \<Rightarrow> 'h NetworkBus \<Rightarrow> bool \<times> 'h NetworkBus" where
  "drops rate b = (if float_less (Some 0) rate then shouldDrop rate b else (False, b))"

fun fan_out :: "duration \<Rightarrow> float64 \<Rightarrow> message \<Rightarrow> 'h list \<Rightarrow> 'h NetworkBus \<Rightarrow> 'h delivery list \<times> 'h NetworkBus" where
  "fan_out delay rate m [] b = ([], b)"
| "fan_out delay rate m (h # hs) b =
     (case drops rate b of
        (True, b) \<Rightarrow> fan_out delay rate m hs b
      | (False, b) \<Rightarrow> (case fan_out delay rate m hs b of (ds, b) \<Rightarrow> ((delay, h, m) # ds, b)))"

definition bus_Broadcast :: "string \<Rightarrow> message \<Rightarrow> 'h NetworkBus \<Rightarrow> 'h delivery list \<times> 'h NetworkBus" where
  "bus_Broadcast sender m b =
     (let recipients = map snd (filter (\<lambda>(i, h). i \<noteq> sender) (nb_handlers b))
      in fan_out (nb_delay b) (nb_dropRate b) m recipients b)"

definition bus_Send :: "string \<Rightarrow> message \<Rightarrow> 'h NetworkBus \<Rightarrow> 'h delivery list \<times> 'h NetworkBus" where
  "bus_Send to m b =
     (case map_of (nb_handlers b) to of
        None \<Rightarrow> ([], b)
      | Some handler \<Rightarrow>
          (case drops (nb_dropRate b) b of
             (True, b) \<Rightarrow> ([], b)
           | (False, b) \<Rightarrow> ([(nb_delay b, handler, m)], b)))"

section \<open>The transport in memory\<close>

text \<open>\<^verbatim>\<open>InprocTransport\<close>: the bus and the deliveries its goroutines carry.\<close>

record 'h InprocTransport =
  it_bus :: "'h NetworkBus"
  it_flight :: "'h delivery list"

definition inproc_New :: "(nat \<Rightarrow> rat) \<Rightarrow> 'h InprocTransport" where
  "inproc_New rng = \<lparr>it_bus = NewNetworkBus rng, it_flight = []\<rparr>"

definition inproc_Register :: "string \<Rightarrow> 'h \<Rightarrow> 'h InprocTransport \<Rightarrow> 'h InprocTransport" where
  "inproc_Register nodeID handler t = t\<lparr>it_bus := bus_Register nodeID handler (it_bus t)\<rparr>"

definition inproc_Unregister :: "string \<Rightarrow> 'h InprocTransport \<Rightarrow> 'h InprocTransport" where
  "inproc_Unregister nodeID t = t\<lparr>it_bus := bus_Unregister nodeID (it_bus t)\<rparr>"

definition inproc_Peers :: "'h InprocTransport \<Rightarrow> string list" where
  "inproc_Peers t = PeerIDs (it_bus t)"

definition inproc_Broadcast :: "string \<Rightarrow> message \<Rightarrow> 'h InprocTransport \<Rightarrow> 'h InprocTransport" where
  "inproc_Broadcast sender m t =
     (case bus_Broadcast sender m (it_bus t) of (ds, b) \<Rightarrow> t\<lparr>it_bus := b, it_flight := it_flight t @ ds\<rparr>)"

definition inproc_Send :: "string \<Rightarrow> message \<Rightarrow> 'h InprocTransport \<Rightarrow> 'h InprocTransport" where
  "inproc_Send to m t =
     (case bus_Send to m (it_bus t) of (ds, b) \<Rightarrow> t\<lparr>it_bus := b, it_flight := it_flight t @ ds\<rparr>)"

definition inproc_SetDelay :: "duration \<Rightarrow> 'h InprocTransport \<Rightarrow> 'h InprocTransport" where
  "inproc_SetDelay d t = t\<lparr>it_bus := bus_SetDelay d (it_bus t)\<rparr>"

definition inproc_SetDropRate :: "float64 \<Rightarrow> 'h InprocTransport \<Rightarrow> 'h InprocTransport" where
  "inproc_SetDropRate p t = t\<lparr>it_bus := bus_SetDropRate p (it_bus t)\<rparr>"

text \<open>One goroutine comes to its end, any of them: the handler is called with the message.\<close>

definition inproc_deliver :: "nat \<Rightarrow> 'h InprocTransport \<Rightarrow> ('h \<times> message) option \<times> 'h InprocTransport" where
  "inproc_deliver k t =
     (if k < length (it_flight t)
      then (Some (snd (it_flight t ! k)), t\<lparr>it_flight := take k (it_flight t) @ drop (Suc k) (it_flight t)\<rparr>)
      else (None, t))"

section \<open>Losses\<close>

lemma drops_frame:
  "drops rate b = (x, b') \<Longrightarrow> nb_handlers b' = nb_handlers b \<and> nb_delay b' = nb_delay b \<and> nb_dropRate b' = nb_dropRate b"
  by (auto simp: drops_def shouldDrop_def split: if_splits)

lemma drops_never: "\<not> float_less (Some 0) rate \<Longrightarrow> drops rate b = (False, b)"
  by (simp add: drops_def)

text \<open>At rate one everything is lost, since the random numbers are below one.\<close>

lemma drops_always: "nb_rng b 0 < 1 \<Longrightarrow> fst (drops (Some 1) b)"
  by (simp add: drops_def shouldDrop_def float_less_def)

lemma fan_out_ok:
  "fan_out delay rate m hs b = (ds, b') \<Longrightarrow>
   nb_handlers b' = nb_handlers b \<and> nb_delay b' = nb_delay b \<and> nb_dropRate b' = nb_dropRate b \<and>
   subseq ds (map (\<lambda>h. (delay, h, m)) hs) \<and> (\<not> float_less (Some 0) rate \<longrightarrow> ds = map (\<lambda>h. (delay, h, m)) hs)"
proof (induction hs arbitrary: b ds)
  case (Cons h hs)
  obtain x b1 where d: "drops rate b = (x, b1)" by fastforce
  obtain es b2 where f: "fan_out delay rate m hs b1 = (es, b2)" by fastforce
  have b2: "b2 = b'" "ds = (if x then es else (delay, h, m) # es)"
    using Cons.prems d f by (cases x; simp)+
  have "\<not> float_less (Some 0) rate \<Longrightarrow> \<not> x" using d drops_never [of rate b] by simp
  then show ?case using Cons.IH [OF f [unfolded b2(1)]] drops_frame [OF d] b2(2) by (cases x) auto
qed simp

lemma SetDropRate_range:
  "nb_dropRate (bus_SetDropRate p b) = Some r \<Longrightarrow> 0 \<le> r \<and> r \<le> 1"
  by (cases p) (auto simp: bus_SetDropRate_def float_less_def Let_def split: if_splits)

section \<open>The contract\<close>

text \<open>
  Every node registers its own handler, so a handler is the node it belongs to. What is under way
  for a node is its mail.
\<close>

definition own_handlers :: "string InprocTransport \<Rightarrow> bool" where
  "own_handlers t \<longleftrightarrow> distinct (al_keys (nb_handlers (it_bus t))) \<and> (\<forall>(i, h) \<in> set (nb_handlers (it_bus t)). h = i)"

definition inproc_mail :: "string InprocTransport \<Rightarrow> string \<Rightarrow> message multiset" where
  "inproc_mail t i = mset (map (\<lambda>(d, h, m). m) (filter (\<lambda>(d, h, m). h = i) (it_flight t)))"

abbreviation same_message :: "unit \<Rightarrow> string \<Rightarrow> message \<Rightarrow> message list" where
  "same_message c j m \<equiv> [m]"

lemma own_handlers_New [simp]: "own_handlers (inproc_New rng)"
  by (simp add: own_handlers_def inproc_New_def NewNetworkBus_def)

lemma own_handlers_Register: "own_handlers t \<Longrightarrow> own_handlers (inproc_Register i i t)"
  using distinct_al_put set_al_put_subset
  by (fastforce simp: own_handlers_def inproc_Register_def bus_Register_def)

lemma own_handlers_Unregister: "own_handlers t \<Longrightarrow> own_handlers (inproc_Unregister i t)"
  by (auto simp: own_handlers_def inproc_Unregister_def bus_Unregister_def set_al_del intro: distinct_al_del)

text \<open>Where the deliveries of a broadcast go: each other node gets at most one, and exactly one without losses.\<close>

lemma recipients_once:
  assumes "own_handlers t"
  shows "filter (\<lambda>h. h = i) (map snd (filter (\<lambda>(j, h). j \<noteq> sender) (nb_handlers (it_bus t)))) =
     (if i \<noteq> sender \<and> i \<in> set (inproc_Peers t) then [i] else [])"
proof -
  have "distinct (map fst xs) \<Longrightarrow> \<forall>(j, h) \<in> set xs. h = j \<Longrightarrow>
      filter (\<lambda>h. h = i) (map snd (filter (\<lambda>(j, h). j \<noteq> sender) xs)) = (if i \<noteq> sender \<and> i \<in> set (map fst xs) then [i] else [])"
    for xs :: "(string \<times> string) list"
    by (induction xs) (auto simp: filter_empty_conv split: if_splits)
  then show ?thesis using assms by (simp add: own_handlers_def inproc_Peers_def PeerIDs_def)
qed

lemma mail_of_deliveries:
  "mset (map (\<lambda>(d, h, m). m) (filter (\<lambda>(d, h, m). h = i) (map (\<lambda>h. (delay, h, m)) hs))) = mset (map (\<lambda>_. m) (filter (\<lambda>h. h = i) hs))"
  by (induction hs) auto

lemma Broadcast_mail:
  assumes "own_handlers t"
  shows "\<exists>ps. mset ps \<subseteq># mset (if i = sender then [] else [m]) \<and>
     inproc_mail (inproc_Broadcast sender m t) i = inproc_mail t i + mset ps \<and> (i \<notin> set (inproc_Peers t) \<longrightarrow> ps = []) \<and>
     (\<not> float_less (Some 0) (nb_dropRate (it_bus t)) \<and> i \<noteq> sender \<and> i \<in> set (inproc_Peers t) \<longrightarrow> ps = [m])"
proof -
  let ?hs = "map snd (filter (\<lambda>(j, h). j \<noteq> sender) (nb_handlers (it_bus t)))"
  let ?sel = "\<lambda>ds. map (\<lambda>(d, h, m). m) (filter (\<lambda>(d, h, m). h = i) (ds :: string delivery list))"
  obtain ds b where f: "fan_out (nb_delay (it_bus t)) (nb_dropRate (it_bus t)) m ?hs (it_bus t) = (ds, b)" by fastforce
  let ?all = "map (\<lambda>h. (nb_delay (it_bus t), h, m)) ?hs"
  have all: "mset (?sel ?all) = mset (if i \<noteq> sender \<and> i \<in> set (inproc_Peers t) then [m] else [])"
    unfolding mail_of_deliveries using recipients_once [OF assms, of i sender] by simp
  have d: "subseq ds ?all" "\<not> float_less (Some 0) (nb_dropRate (it_bus t)) \<Longrightarrow> ds = ?all" using fan_out_ok [OF f] by auto
  have "mset (?sel ds) \<subseteq># mset (?sel ?all)" using d(1) by (intro subseq_mset subseq_map subseq_filter)
  then have sub: "mset (?sel ds) \<subseteq># mset (if i \<noteq> sender \<and> i \<in> set (inproc_Peers t) then [m] else [])"
    by (simp only: all)
  have full: "mset (?sel ds) = mset (if i \<noteq> sender \<and> i \<in> set (inproc_Peers t) then [m] else [])"
    if "\<not> float_less (Some 0) (nb_dropRate (it_bus t))" unfolding d(2) [OF that] by (rule all)
  have bc: "inproc_Broadcast sender m t = t\<lparr>it_bus := b, it_flight := it_flight t @ ds\<rparr>"
    unfolding inproc_Broadcast_def bus_Broadcast_def Let_def f by simp
  have mail: "inproc_mail (inproc_Broadcast sender m t) i = inproc_mail t i + mset (?sel ds)"
    unfolding bc by (simp add: inproc_mail_def)
  show ?thesis
  proof (cases "i \<noteq> sender \<and> i \<in> set (inproc_Peers t)")
    case True
    define ps where "ps = ?sel ds"
    have "mset ps \<subseteq># mset [m]" "float_less (Some 0) (nb_dropRate (it_bus t)) \<or> ps = [m]"
      using sub full True unfolding ps_def [symmetric] by auto
    then show ?thesis using True mail unfolding ps_def [symmetric] by auto
  next
    case False
    then have "?sel ds = []" using sub by (simp only: if_False mset.simps(1)) (auto simp: filter_empty_conv)
    then show ?thesis using False mail by (intro exI [of _ "[]"]) auto
  qed
qed

lemma Send_mail:
  assumes "own_handlers t"
  shows "\<exists>ps. mset ps \<subseteq># mset (if i = to then [m] else []) \<and>
     inproc_mail (inproc_Send to m t) i = inproc_mail t i + mset ps \<and> (i \<notin> set (inproc_Peers t) \<longrightarrow> ps = []) \<and>
     (\<not> float_less (Some 0) (nb_dropRate (it_bus t)) \<and> i = to \<and> i \<in> set (inproc_Peers t) \<longrightarrow> ps = [m])"
proof (cases "map_of (nb_handlers (it_bus t)) to")
  case None
  then have "to \<notin> set (inproc_Peers t)" by (simp add: inproc_Peers_def PeerIDs_def map_of_eq_None_iff)
  then show ?thesis using None by (intro exI [of _ "[]"]) (auto simp: inproc_Send_def bus_Send_def)
next
  case (Some h)
  then have h: "h = to" "to \<in> set (inproc_Peers t)"
    using assms by (auto simp: own_handlers_def inproc_Peers_def PeerIDs_def dest!: map_of_SomeD split: prod.splits)
      (metis fst_conv image_eqI)
  obtain x b where d: "drops (nb_dropRate (it_bus t)) (it_bus t) = (x, b)" by fastforce
  have S: "inproc_Send to m t = t\<lparr>it_bus := b, it_flight := it_flight t @ (if x then [] else [(nb_delay b, to, m)])\<rparr>"
    using Some h(1) d drops_frame [OF d] by (cases x) (simp_all add: inproc_Send_def bus_Send_def)
  have "\<not> float_less (Some 0) (nb_dropRate (it_bus t)) \<Longrightarrow> \<not> x"
    using d drops_never [of "nb_dropRate (it_bus t)" "it_bus t"] by simp
  then show ?thesis using h(2)
    by (intro exI [of _ "if x \<or> i \<noteq> to then [] else [m]"]) (auto simp: S inproc_mail_def)
qed

lemma inproc_frame:
  "own_handlers (inproc_Send to m t) = own_handlers t" "set (inproc_Peers (inproc_Send to m t)) = set (inproc_Peers t)"
  "nb_dropRate (it_bus (inproc_Send to m t)) = nb_dropRate (it_bus t)"
  "own_handlers (inproc_Broadcast j m t) = own_handlers t" "set (inproc_Peers (inproc_Broadcast j m t)) = set (inproc_Peers t)"
  "nb_dropRate (it_bus (inproc_Broadcast j m t)) = nb_dropRate (it_bus t)"
proof -
  have S: "nb_handlers (it_bus (inproc_Send to m t)) = nb_handlers (it_bus t) \<and> nb_dropRate (it_bus (inproc_Send to m t)) = nb_dropRate (it_bus t)"
  proof -
    obtain x b where d: "drops (nb_dropRate (it_bus t)) (it_bus t) = (x, b)" by fastforce
    show ?thesis using drops_frame [OF d]
      by (cases "map_of (nb_handlers (it_bus t)) to"; cases x) (simp_all add: inproc_Send_def bus_Send_def d)
  qed
  obtain ds b where f: "bus_Broadcast j m (it_bus t) = (ds, b)" by fastforce
  then have "nb_handlers b = nb_handlers (it_bus t) \<and> nb_dropRate b = nb_dropRate (it_bus t)"
    unfolding bus_Broadcast_def Let_def using fan_out_ok by blast
  then have B: "nb_handlers (it_bus (inproc_Broadcast j m t)) = nb_handlers (it_bus t) \<and> nb_dropRate (it_bus (inproc_Broadcast j m t)) = nb_dropRate (it_bus t)"
    by (simp add: inproc_Broadcast_def f)
  show "own_handlers (inproc_Send to m t) = own_handlers t" "set (inproc_Peers (inproc_Send to m t)) = set (inproc_Peers t)"
    "nb_dropRate (it_bus (inproc_Send to m t)) = nb_dropRate (it_bus t)"
    using S by (simp_all add: own_handlers_def inproc_Peers_def PeerIDs_def)
  show "own_handlers (inproc_Broadcast j m t) = own_handlers t" "set (inproc_Peers (inproc_Broadcast j m t)) = set (inproc_Peers t)"
    "nb_dropRate (it_bus (inproc_Broadcast j m t)) = nb_dropRate (it_bus t)"
    using B by (simp_all add: own_handlers_def inproc_Peers_def PeerIDs_def)
qed

interpretation bus: mail_transport own_handlers "\<lambda>t. set (inproc_Peers t)" inproc_mail "\<lambda>_. ()" "\<lambda>_ _. True"
  same_message same_message inproc_Send inproc_Broadcast
proof
  show "\<exists>ps. mset ps \<subseteq># mset (packets same_message same_message () i (Send to m)) \<and>
      inproc_mail (inproc_Send to m t) i = inproc_mail t i + mset ps \<and> (i \<notin> set (inproc_Peers t) \<longrightarrow> ps = [])"
    if "own_handlers t" for t i to m using Send_mail [OF that, of i to m] unfolding packets.simps by blast
  show "\<exists>ps. mset ps \<subseteq># mset (packets same_message same_message () i (Broadcast j m)) \<and>
      inproc_mail (inproc_Broadcast j m t) i = inproc_mail t i + mset ps \<and> (i \<notin> set (inproc_Peers t) \<longrightarrow> ps = [])"
    if "own_handlers t" for t i j m using Broadcast_mail [OF that, of i j m] unfolding packets.simps by blast
qed (simp_all add: inproc_frame)

text \<open>Without losses every packet that is due is on its way.\<close>

lemma post_all_lossless:
  assumes "own_handlers t" "\<not> float_less (Some 0) (nb_dropRate (it_bus t))" "i \<in> set (inproc_Peers t)"
  shows "inproc_mail (post_all inproc_Send inproc_Broadcast es t) i =
     inproc_mail t i + mset (all_packets same_message same_message () i es)"
  using assms
proof (induction es arbitrary: t)
  case (Cons e es)
  have "inproc_mail (post inproc_Send inproc_Broadcast e t) i = inproc_mail t i + mset (packets same_message same_message () i e)"
  proof (cases e)
    case (Send to m)
    then show ?thesis using Send_mail [OF Cons.prems(1), of i to m] Cons.prems(2,3) by auto
  next
    case (Broadcast j m)
    then show ?thesis using Broadcast_mail [OF Cons.prems(1), of i j m] Cons.prems(2,3) by auto
  qed simp_all
  moreover have "own_handlers (post inproc_Send inproc_Broadcast e t)" "i \<in> set (inproc_Peers (post inproc_Send inproc_Broadcast e t))"
    "nb_dropRate (it_bus (post inproc_Send inproc_Broadcast e t)) = nb_dropRate (it_bus t)"
    using Cons.prems by (cases e; simp add: inproc_frame)+
  ultimately show ?case using Cons.IH Cons.prems(2) by simp
qed simp

end
