(* ===== verification/NodeMain.thy ===== *)
theory NodeMain
  imports Bus TcpMail StoreProps NodeReach
begin

text \<open>
  \<^verbatim>\<open>cmd/node/main.go\<close>: how the parts are put together. Starting a TCP node and starting the nodes of
  a simulation are functions from the files on disk to a running node; the injection of
  transactions, the persisting of tip changes and the lines printed for them follow. Flags are
  arguments; tickers, timers, signals, logging and the JSON form of the dump are left out.
\<close>

section \<open>Paths\<close>

fun clean_elems :: "bool \<Rightarrow> string list \<Rightarrow> string list \<Rightarrow> string list" where
  "clean_elems rooted [] st = rev st"
| "clean_elems rooted (c # cs) st =
     (if c = '''' \<or> c = ''.'' then clean_elems rooted cs st
      else if c = ''..'' then
        (case st of
           [] \<Rightarrow> clean_elems rooted cs (if rooted then [] else [''..''])
         | x # xs \<Rightarrow> clean_elems rooted cs (if x = ''..'' then ''..'' # st else xs))
      else clean_elems rooted cs (c # st))"

fun join_with :: "string \<Rightarrow> string list \<Rightarrow> string" where
  "join_with sep [] = ''''"
| "join_with sep [x] = x"
| "join_with sep (x # y # ys) = x @ sep @ join_with sep (y # ys)"

text \<open>\<^verbatim>\<open>filepath.Join\<close> with \<^verbatim>\<open>filepath.Clean\<close>, for the slash as separator.\<close>

definition filepath_Join :: "string list \<Rightarrow> string" where
  "filepath_Join es =
     (let es = dropWhile (\<lambda>e. e = '''') es in
      if es = [] then ''''
      else (let p = join_with ''/'' es; rooted = (hd p = CHR ''/'');
                out = clean_elems rooted (split_at (CHR ''/'') p) [] in
            if rooted then CHR ''/'' # join_with ''/'' out
            else if out = [] then ''.'' else join_with ''/'' out))"

section \<open>From disk to chain\<close>

text \<open>What a directory holds: the key file and the files of the store.\<close>

type_synonym files = "string \<Rightarrow> key_file option \<times> disk"

datatype start_error =
    ListenRequired | ListenNotLoopback string | BadListenAddr addr_error | LoadIdentity identity_error
  | IDMismatch string string | InitStore store_error | LoadChain store_error | RestoreChain restore_error
  | InitTransport tcp_error | StartTransport tcp_error | UnknownTransport string | NodesBelowOne

text \<open>
  The store is opened, its main chain loaded and added to a new chain again. \<open>now\<close> numbers the
  readings of the clock; \<open>None\<close> is a start that does not return.
\<close>

definition open_chain :: "digest \<Rightarrow> faults \<Rightarrow> (nat \<Rightarrow> gotime) \<Rightarrow> (hash \<times> block) ranging \<Rightarrow> uint32 \<Rightarrow> disk \<Rightarrow>
    ((start_error + store \<times> blockchain) \<times> disk) option" where
  "open_chain sha ft now ord difficulty dk =
     (case Open ft sha (now 0) difficulty NewGenesisBlock dk of
        (Inl err, dk) \<Rightarrow> Some (Inl (InitStore err), dk)
      | (Inr st, dk) \<Rightarrow>
          (case LoadMainChain ft (now 1) (st, dk) of
             None \<Rightarrow> None
           | Some (Inl err, st, dk) \<Rightarrow> Some (Inl (LoadChain err), dk)
           | Some (Inr blocks, st, dk) \<Rightarrow>
               (case restore_chain sha ord difficulty blocks of
                  None \<Rightarrow> None
                | Some (Inl err) \<Rightarrow> Some (Inl (RestoreChain err), dk)
                | Some (Inr bc) \<Rightarrow> Some (Inr (st, bc), dk))))"

section \<open>A TCP node\<close>

record tcp_options =
  to_listen :: string
  to_seeds :: string
  to_dataDir :: string
  to_id :: string
  to_maxPeers :: int
  to_outboundPeers :: int
  to_difficulty :: uint32
  to_maxTxPerBlock :: int

record tcp_node =
  tn_state :: "syncer \<times> node"
  tn_transport :: transport
  tn_store :: store
  tn_dir :: string

text \<open>The directory: the flag, or one named after the port.\<close>

definition data_dir :: "tcp_options \<Rightarrow> start_error + string" where
  "data_dir opt =
     (if to_dataDir opt \<noteq> '''' then Inr (to_dataDir opt)
      else case SplitHostPort (to_listen opt) of
             Inl err \<Rightarrow> Inl (BadListenAddr err)
           | Inr (_, port) \<Rightarrow> Inr (filepath_Join [''data'', ''tcp-'' @ port]))"

definition tcp_options_config :: "tcp_options \<Rightarrow> Identity \<Rightarrow> tcp_config" where
  "tcp_options_config opt ident =
     \<lparr>cf_ListenAddr = to_listen opt, cf_Seeds = splitCSV (to_seeds opt), cf_Magic = ''simchain-go'', cf_Version = 1,
      cf_Identity = Some ident, cf_MaxPeers = to_maxPeers opt, cf_OutboundPeers = to_outboundPeers opt,
      cf_MaxConnsPerIP = 0, cf_MaxMessageSize = 2097152, cf_RateLimit = 0, cf_RateBurst = 0, cf_ReadTimeout = 0,
      cf_WriteTimeout = 0, cf_IdleTimeout = 0, cf_PeerRequestInterval = 0\<rparr>"

definition node_options_config :: "uint32 \<Rightarrow> int \<Rightarrow> node_config" where
  "node_options_config difficulty maxTxPerBlock =
     \<lparr>nc_Difficulty = difficulty, nc_MaxTxPerBlock = maxTxPerBlock, nc_SyncTimeout = 0, nc_MaxHeaders = 0,
      nc_GetBlocksBatchSize = 0\<rparr>"

text \<open>
  The end of the start: the transport is made, the node registers its handler (in
  \<^verbatim>\<open>NewNode\<close>), and only then the transport is started.
\<close>

definition launch_tcp :: "bool \<Rightarrow> tcp_options \<Rightarrow> Identity \<Rightarrow> string \<Rightarrow> store \<times> blockchain \<Rightarrow> start_error + tcp_node" where
  "launch_tcp listens opt ident dir sb =
     (case tcp_New (tcp_options_config opt ident) of
        Inl err \<Rightarrow> Inl (InitTransport err)
      | Inr tr \<Rightarrow>
          (let sn = NewNode (id_NodeID ident) (snd sb) (Some (New DefaultConfig))
                 (node_options_config (to_difficulty opt) (to_maxTxPerBlock opt));
               tr = tcp_Register (id_NodeID ident) tr in
           (case tcp_Start listens tr of
              (Inl err, _) \<Rightarrow> Inl (StartTransport err)
            | (Inr _, tr) \<Rightarrow> Inr \<lparr>tn_state = sn, tn_transport = tr, tn_store = fst sb, tn_dir = dir\<rparr>)))"

definition runTCP :: "digest \<Rightarrow> nils \<Rightarrow> key_faults \<Rightarrow> byte list \<times> byte list \<Rightarrow> faults \<Rightarrow> (nat \<Rightarrow> gotime) \<Rightarrow>
    (hash \<times> block) ranging \<Rightarrow> bool \<Rightarrow> tcp_options \<Rightarrow> files \<Rightarrow> ((start_error + tcp_node) \<times> files) option" where
  "runTCP sha nil fx generated ft now ord listens opt fs =
     (if to_listen opt = '''' then Some (Inl ListenRequired, fs)
      else if \<not> isLoopbackListenAddr (to_listen opt) then Some (Inl (ListenNotLoopback (to_listen opt)), fs)
      else
        (case data_dir opt of
           Inl err \<Rightarrow> Some (Inl err, fs)
         | Inr dir \<Rightarrow>
             (case LoadOrCreate sha nil fx generated dir (fst (fs dir)) of
                (Inl err, kf) \<Rightarrow> Some (Inl (LoadIdentity err), fs(dir := (kf, snd (fs dir))))
              | (Inr ident, kf) \<Rightarrow>
                  let fs = fs(dir := (kf, snd (fs dir))) in
                  if to_id opt \<noteq> '''' \<and> to_id opt \<noteq> id_NodeID ident
                  then Some (Inl (IDMismatch (to_id opt) (id_NodeID ident)), fs)
                  else (case open_chain sha ft now ord (to_difficulty opt) (snd (fs dir)) of
                          None \<Rightarrow> None
                        | Some (Inl err, dk) \<Rightarrow> Some (Inl err, fs(dir := (kf, dk)))
                        | Some (Inr sb, dk) \<Rightarrow> Some (launch_tcp listens opt ident dir sb, fs(dir := (kf, dk)))))))"

text \<open>\<^verbatim>\<open>OnTipChange\<close>: the change is persisted; an error is only logged.\<close>

definition on_tip_change :: "faults \<Rightarrow> digest \<Rightarrow> gotime \<Rightarrow> blockchain \<Rightarrow> tip_event \<Rightarrow> store \<times> disk \<Rightarrow> store \<times> disk" where
  "on_tip_change ft sha now chain ev sd =
     (case ApplyTipChange ft sha now chain (te_TipHash ev) (te_Reorg ev) sd of (_, st, dk) \<Rightarrow> (st, dk))"

section \<open>A simulation\<close>

record sim_options =
  so_nodes :: int
  so_bootstrap :: int
  so_difficulty :: uint32
  so_maxTxPerBlock :: int
  so_netDelay :: duration
  so_dropRate :: float64

record sim_node =
  sn_state :: "syncer \<times> node"
  sn_store :: store
  sn_dir :: string

record simulation =
  si_tr :: "string InprocTransport"
  si_nodes :: "sim_node list"
  si_files :: files
  si_txs :: int

definition sim_id :: "int \<Rightarrow> string" where
  "sim_id i = ''node-'' @ dec_int (i + 1)"

definition sim_transport :: "sim_options \<Rightarrow> (nat \<Rightarrow> rat) \<Rightarrow> string InprocTransport" where
  "sim_transport opt rng =
     (let tr = inproc_New rng;
          tr = (if so_netDelay opt > 0 then inproc_SetDelay (so_netDelay opt) tr else tr)
      in if float_less (Some 0) (so_dropRate opt) then inproc_SetDropRate (so_dropRate opt) tr else tr)"

definition bootstrap_count :: "sim_options \<Rightarrow> int" where
  "bootstrap_count opt =
     (let bootstrap = so_bootstrap opt;
          bootstrap = (if bootstrap \<le> 0 \<or> bootstrap > so_nodes opt then so_nodes opt else bootstrap)
      in if bootstrap < 1 then 1 else bootstrap)"

text \<open>\<^verbatim>\<open>newNode\<close> and \<^verbatim>\<open>addNode\<close>; an error ends the program.\<close>

definition join_node :: "digest \<Rightarrow> faults \<Rightarrow> (nat \<Rightarrow> gotime) \<Rightarrow> (hash \<times> block) ranging \<Rightarrow> sim_options \<Rightarrow> int \<Rightarrow>
    simulation \<Rightarrow> ((start_error + simulation)) option" where
  "join_node sha ft now ord opt i si =
     (let nodeID = sim_id i; dir = filepath_Join [''data'', nodeID] in
      (case open_chain sha ft now ord (so_difficulty opt) (snd (si_files si dir)) of
         None \<Rightarrow> None
       | Some (Inl err, dk) \<Rightarrow> Some (Inl err)
       | Some (Inr (st, bc), dk) \<Rightarrow>
           (let sn = NewNode nodeID bc (Some (New DefaultConfig)) (node_options_config (so_difficulty opt) (so_maxTxPerBlock opt))
            in Some (Inr (si\<lparr>si_tr := inproc_Register nodeID nodeID (si_tr si),
                 si_nodes := si_nodes si @ [\<lparr>sn_state = sn, sn_store = st, sn_dir = dir\<rparr>],
                 si_files := (si_files si)(dir := (fst (si_files si dir), dk))\<rparr>)))))"

text \<open>The nodes \<open>i\<close>, \<open>i + 1\<close>, ... are started one after the other, each with its readings of the clock.\<close>

fun join_nodes :: "digest \<Rightarrow> faults \<Rightarrow> (int \<Rightarrow> nat \<Rightarrow> gotime) \<Rightarrow> (hash \<times> block) ranging \<Rightarrow> sim_options \<Rightarrow> nat \<Rightarrow> int \<Rightarrow>
    simulation \<Rightarrow> (start_error + simulation) option" where
  "join_nodes sha ft now ord opt 0 i si = Some (Inr si)"
| "join_nodes sha ft now ord opt (Suc k) i si =
     (case join_node sha ft (now i) ord opt i si of
        None \<Rightarrow> None
      | Some (Inl err) \<Rightarrow> Some (Inl err)
      | Some (Inr si) \<Rightarrow> join_nodes sha ft now ord opt k (i + 1) si)"

definition start_simulation :: "digest \<Rightarrow> faults \<Rightarrow> (int \<Rightarrow> nat \<Rightarrow> gotime) \<Rightarrow> (hash \<times> block) ranging \<Rightarrow> (nat \<Rightarrow> rat) \<Rightarrow>
    sim_options \<Rightarrow> files \<Rightarrow> (start_error + simulation) option" where
  "start_simulation sha ft now ord rng opt fs =
     (if so_nodes opt < 1 then Some (Inl NodesBelowOne)
      else join_nodes sha ft now ord opt (nat (bootstrap_count opt)) 0
             \<lparr>si_tr = sim_transport opt rng, si_nodes = [], si_files = fs, si_txs = 0\<rparr>)"

text \<open>
  One tick of the transaction ticker: the nodes take turns. \<open>t\<close> numbers the readings of the clock,
  \<open>rnd\<close> are the random bytes of the id and \<open>k\<close> the random number of the payload. What the node
  broadcasts goes to the transport.
\<close>

definition net_effects :: "node_effect list \<Rightarrow> effect list" where
  "net_effects es = List.map_filter (\<lambda>e. case e of Net x \<Rightarrow> Some x | TipChange _ \<Rightarrow> None) es"

definition tx_payload :: "int \<Rightarrow> int \<Rightarrow> string" where
  "tx_payload txCount k = ''tx-'' @ dec_int (txCount + 1) @ '' rnd='' @ dec_int k"

definition tx_tick :: "(nat \<Rightarrow> gotime) \<Rightarrow> byte list \<Rightarrow> int \<Rightarrow> simulation \<Rightarrow> simulation" where
  "tx_tick t rnd k si =
     (if si_nodes si = [] then si
      else (let i = nat (si_txs si mod int (length (si_nodes si))); x = si_nodes si ! i;
                tx = NewTransaction (t 0) (t 1) rnd (tx_payload (si_txs si) k) in
            (case sn_state x of (s, n) \<Rightarrow>
             (case SubmitTransaction (t 2) tx n of
                (n, es) \<Rightarrow> si\<lparr>si_nodes := (si_nodes si)[i := x\<lparr>sn_state := (s, n)\<rparr>],
                   si_tr := post_all inproc_Send inproc_Broadcast (net_effects es) (si_tr si),
                   si_txs := si_txs si + 1\<rparr>))))"

text \<open>
  The switch on \<^verbatim>\<open>strings.ToLower(strings.TrimSpace(...))\<close>: whether to run TCP. Besides the ASCII
  letters U+0130 and U+212A have an ASCII letter as lower case.
\<close>

function lower_case :: "string \<Rightarrow> string" where
  "lower_case [] = []"
| "lower_case (c # cs) =
     (if c = CHR 0xC4 \<and> take 1 cs = [CHR 0xB0] then CHR ''i'' # lower_case (drop 1 cs)
      else if c = CHR 0xE2 \<and> take 2 cs = [CHR 0x84, CHR 0xAA] then CHR ''k'' # lower_case (drop 2 cs)
      else if (65::nat) \<le> of_char c \<and> of_char c \<le> (90::nat) then char_of (of_char c + 32 :: nat) # lower_case cs
      else c # lower_case cs)"
  by pat_completeness auto
termination by (relation "measure length") auto

definition choose_transport :: "string \<Rightarrow> start_error + bool" where
  "choose_transport flag =
     (let s = lower_case (TrimSpace flag) in
      if s = ''tcp'' then Inr True
      else if s = ''inproc'' \<or> s = '''' then Inr False
      else Inl (UnknownTransport flag))"

section \<open>What is printed\<close>

definition shortHash :: "hash \<Rightarrow> string" where
  "shortHash h = (let s = hash_String h in if length s \<le> 12 then s else take 12 s)"

definition block_line :: "int \<Rightarrow> debug_block \<Rightarrow> string" where
  "block_line blockTxMax b =
     (let txSuffix = (if blockTxMax \<noteq> 0 \<and> db_TxIDs b \<noteq> [] then '' txids=['' @ join_with '', '' (db_TxIDs b) @ '']'' else '''')
      in ''    - h='' @ dec_nat (unat (db_Height b)) @ '' hash='' @ shortHash (db_Hash b) @ '' txs='' @ dec_int (db_TxCount b) @ txSuffix)"

definition debugStatePrettyLines :: "int \<Rightarrow> int \<Rightarrow> int \<Rightarrow> debug_state \<Rightarrow> string list" where
  "debugStatePrettyLines chainDepth mempoolMax blockTxMax ds =
     (let lines = [''  node='' @ ds_NodeID ds @ '' tipHeight='' @ dec_nat (unat (ds_TipHeight ds)) @ '' tip='' @ shortHash (ds_TipHash ds)];
          lines = lines @ [if mempoolMax = 0 then ''  mempool size='' @ dec_int (ds_MempoolSize ds)
                           else ''  mempool size='' @ dec_int (ds_MempoolSize ds) @ '' txids=['' @ join_with '', '' (ds_MempoolTxIDs ds) @ '']'']
      in if chainDepth \<noteq> 0 then lines @ [''  mainchain:''] @ map (block_line blockTxMax) (ds_MainChain ds) else lines)"

definition trigger_line :: "tip_event \<Rightarrow> string" where
  "trigger_line ev = ''trigger node='' @ te_NodeID ev @ '' from='' @ te_FromPeer ev @ '' height='' @ dec_nat (unat (te_Height ev)) @
     '' tip='' @ shortHash (te_TipHash ev) @ '' reorg='' @ (if te_Reorg ev \<noteq> None then ''true'' else ''false'')"

text \<open>\<^verbatim>\<open>dumpAll\<close>: the states of all nodes, sorted by their ids; \<open>None\<close> when one of them loops.\<close>

definition dump_lines :: "int \<Rightarrow> int \<Rightarrow> int \<Rightarrow> tip_event \<Rightarrow> node list \<Rightarrow> string list option" where
  "dump_lines chainDepth mempoolMax blockTxMax ev ns = do {
     states \<leftarrow> those (map (DebugState chainDepth mempoolMax blockTxMax) ns);
     Some (trigger_line ev # concat (map (debugStatePrettyLines chainDepth mempoolMax blockTxMax) (sort_key ds_NodeID states)))
   }"

text \<open>\<^verbatim>\<open>logBlock\<close>: the title and the lines as one text.\<close>

definition log_block :: "string \<Rightarrow> string list \<Rightarrow> string" where
  "log_block title lines = title @ concat (map (\<lambda>l. CHR 0x0A # l) lines)"

text \<open>The totals and the rows of the summary, without the two columns of shares (\<^verbatim>\<open>float64\<close>).\<close>

record node_row =
  nr_ID :: string
  nr_Mined :: uint64
  nr_Received :: uint64
  nr_Height :: uint64
  nr_Hashes :: uint64

definition row_of :: "node \<Rightarrow> node_row" where
  "row_of n = (case Stats n of (mined, received, height) \<Rightarrow>
     \<lparr>nr_ID = nd_id n, nr_Mined = mined, nr_Received = received, nr_Height = height, nr_Hashes = nd_hashAttempts n\<rparr>)"

definition summary :: "node list \<Rightarrow> uint64 \<times> uint64 \<times> node_row list" where
  "summary ns = (sum_list (map nd_hashAttempts ns), sum_list (map (\<lambda>n. fst (Stats n)) ns), sort_key nr_ID (map row_of ns))"

definition summary_head :: "int \<Rightarrow> node list \<Rightarrow> string" where
  "summary_head txCount ns = (case summary ns of (hashes, mined, _) \<Rightarrow>
     ''txs='' @ dec_int txCount @ '' totalHashes='' @ dec_nat (unat hashes) @ '' totalMined='' @ dec_nat (unat mined))"

text \<open>The TCP node dumps itself only, and is its own target of the transaction ticker.\<close>

definition tcp_dump_lines :: "int \<Rightarrow> int \<Rightarrow> int \<Rightarrow> tip_event \<Rightarrow> node \<Rightarrow> string list option" where
  "tcp_dump_lines chainDepth mempoolMax blockTxMax ev n = do {
     ds \<leftarrow> DebugState chainDepth mempoolMax blockTxMax n;
     Some (trigger_line ev # debugStatePrettyLines chainDepth mempoolMax blockTxMax ds)
   }"

definition tcp_tx_tick :: "nils \<Rightarrow> (nat \<Rightarrow> gotime) \<Rightarrow> byte list \<Rightarrow> int \<Rightarrow> int \<Rightarrow> tcp_node \<Rightarrow> tcp_node \<times> int" where
  "tcp_tx_tick nil t rnd k txCount nd =
     (let tx = NewTransaction (t 0) (t 1) rnd (tx_payload txCount k) in
      (case tn_state nd of (s, n) \<Rightarrow>
       (case SubmitTransaction (t 2) tx n of
          (n, es) \<Rightarrow> (nd\<lparr>tn_state := (s, n),
             tn_transport := post_all (tcp_Send nil) (tcp_Broadcast nil) (net_effects es) (tn_transport nd)\<rparr>, txCount + 1))))"

end
