(* ===== verification/NodeMainProps.thy ===== *)
theory NodeMainProps
  imports NodeMain
begin

text \<open>
  What the programs of \<^verbatim>\<open>cmd/node\<close> start with: states of which the theorems on the chain, the
  node and the TCP transport speak.
\<close>

section \<open>The chain from disk\<close>

text \<open>The file of height 0, if it can be read, holds a genesis.\<close>

definition genesis_file_ok :: "disk \<Rightarrow> bool" where
  "genesis_file_ok dk \<longleftrightarrow> (\<forall>b. dk_blocks dk 0 = Some (Json b) \<longrightarrow> bh_Height (blk_Header b) = 0)"

lemma load_loop_prefix:
  "load_loop ft now h out sd = Some (Inr bs, sd') \<Longrightarrow> prefix out bs"
proof -
  define P where "P = (\<lambda>out (r :: block list stored). case r of (Inr bs, _) \<Rightarrow> prefix out bs | _ \<Rightarrow> True)"
  have step: "P out r" if rec: "\<And>ft now h out sd r. rec ft now h out sd = Some r \<Longrightarrow> P out r"
    and body: "(if h \<le> mf_TipHeight (fst sd) then
        (case load_step ft now h out sd of Inl b \<Rightarrow> rec ft now (h + 1) (out @ [b]) sd | Inr r \<Rightarrow> Some r)
      else Some (Inr out, fst sd, snd sd)) = Some r" for rec ft now h out sd r
  proof (cases "h \<le> mf_TipHeight (fst sd)")
    case True
    show ?thesis
    proof (cases "load_step ft now h out sd")
      case (Inl b)
      then have "P (out @ [b]) r" using body True by (intro rec) simp
      then show ?thesis by (auto simp: P_def split: sum.splits prod.splits dest: append_prefixD)
    next
      case (Inr x)
      then have "r = x" using body True by simp
      then show ?thesis using Inr by (auto simp: P_def load_step_def Let_def split: sum.splits prod.splits if_splits)
    qed
  qed (use body in \<open>auto simp: P_def\<close>)
  have "P out r" if "load_loop ft now h out sd = Some r" for r
    by (rule load_loop.raw_induct [OF _ that, of "\<lambda>ft now h out sd. P out"]) (rule step)
  then show "load_loop ft now h out sd = Some (Inr bs, sd') \<Longrightarrow> prefix out bs" by (fastforce simp: P_def)
qed

lemma LoadMainChain_first:
  assumes "LoadMainChain ft now (st, dk) = Some (Inr (b # bs), sd')"
  shows "dk_blocks dk 0 = Some (Json b)"
proof -
  have l: "load_loop ft now 0 [] (st, dk) = Some (Inr (b # bs), sd')"
    using assms by (auto simp: LoadMainChain_def split: if_splits)
  show ?thesis
  proof (cases "load_step ft now 0 [] (st, dk)")
    case (Inl b0)
    then have "load_loop ft now 1 [b0] (st, dk) = Some (Inr (b # bs), sd')" using l by (simp add: load_loop.simps [of ft now 0])
    then have "b0 = b" using load_loop_prefix by fastforce
    then show ?thesis using Inl
      by (auto simp: load_step_def readBlockFile_def Let_def split: sum.splits if_splits option.splits content.splits prod.splits)
  next
    case (Inr r)
    then have "r = (Inr (b # bs), sd')" using l by (simp add: load_loop.simps [of ft now 0])
    then show ?thesis using Inr
      by (auto simp: load_step_def Let_def split: sum.splits if_splits prod.splits)
  qed
qed

lemma Open_genesis_file:
  assumes "Open ft sha now d NewGenesisBlock dk = (Inr st, dk')" "genesis_file_ok dk"
  shows "genesis_file_ok dk'"
proof -
  have "genesis_file_ok dk2" if "initNew ft sha now d NewGenesisBlock dk = (Inr (), st2, dk2)" for st2 dk2
    using that assms(2)
    by (auto simp: initNew_def Let_def saveManifest_def writeBlockFile_def cloneBlock_def genesis_file_ok_def NewGenesisBlock_def
        json_block_def json_header_def split: if_splits sum.splits prod.splits)
  then show ?thesis using assms by (auto simp: Open_def split: if_splits sum.splits prod.splits)
qed

lemma readd_reachable:
  "readd sha ord bs bc = Some (Inr bc') \<Longrightarrow> chain_reachable sha ord bc \<Longrightarrow> chain_reachable sha ord bc'"
  by (induction bs arbitrary: bc) (auto split: option.splits prod.splits intro: chain_reachable.add)

lemma AddBlock_difficulty:
  assumes "chain_reachable sha ord bc" "fair_ranging ord" "AddBlock sha ord b bc = Some (res, err, bc')"
  shows "bc_difficulty bc' = bc_difficulty bc"
proof -
  have "chain_inv sha bc" "orphans_waiting bc" using chain_reachable_inv [OF assms(1,2)] by auto
  from AddBlock_ok [OF this, of ord b] assms(3) obtain mid where "extends bc mid" "extends mid bc'"
    by (metis option.inject prod.inject)
  then show ?thesis by (simp add: extends_def)
qed

lemma open_chain_reachable:
  assumes "open_chain sha ft now ord d dk = Some (Inr (st, bc), dk')" "fair_ranging ord" "genesis_file_ok dk"
  shows "chain_reachable sha ord bc \<and> bc_difficulty bc = d"
proof -
  obtain st1 dk1 where o1: "Open ft sha (now 0) d NewGenesisBlock dk = (Inr st1, dk1)"
    using assms(1) by (auto simp: open_chain_def split: sum.splits prod.splits)
  obtain blocks st2 dk2 where l: "LoadMainChain ft (now 1) (st1, dk1) = Some (Inr blocks, st2, dk2)"
    using assms(1) o1 by (auto simp: open_chain_def split: sum.splits prod.splits option.splits)
  have r: "restore_chain sha ord d blocks = Some (Inr bc)"
    using assms(1) o1 l by (auto simp: open_chain_def split: sum.splits option.splits)
  then obtain g rest bc0 where g: "blocks = g # rest" "NewBlockchain sha (Some g) d = Inr bc0" "readd sha ord rest bc0 = Some (Inr bc)"
    by (auto simp: restore_chain_def split: list.splits sum.splits)
  have "bh_Height (blk_Header g) = 0"
    using LoadMainChain_first l g(1) Open_genesis_file [OF o1 assms(3)] by (auto simp: genesis_file_ok_def)
  then have bc0: "chain_reachable sha ord bc0" "bc_difficulty bc0 = d"
    using chain_reachable.init [OF g(2)] g(2) by (auto simp: NewBlockchain_def Let_def split: option.splits)
  have "readd sha ord bs c = Some (Inr c') \<Longrightarrow> chain_reachable sha ord c \<Longrightarrow> bc_difficulty c' = bc_difficulty c" for bs c c'
  proof (induction bs arbitrary: c)
    case (Cons b bs)
    then obtain res c1 where "AddBlock sha ord (Some b) c = Some (res, None, c1)" "readd sha ord bs c1 = Some (Inr c')"
      by (auto split: option.splits)
    then show ?case using Cons AddBlock_difficulty assms(2) chain_reachable.add by metis
  qed simp
  then show ?thesis using readd_reachable [OF g(3) bc0(1)] g(3) bc0 by metis
qed

section \<open>Starting a TCP node\<close>

definition idle_world :: "transport \<Rightarrow> world" where
  "idle_world tr = \<lparr>wd_tr = tr, wd_in = [], wd_cands = [], wd_started = [], wd_out = [], wd_dialed = []\<rparr>"

text \<open>No step of \<open>LoadOrCreate\<close> fails.\<close>

definition no_key_faults :: key_faults where
  "no_key_faults = \<lparr>kx_mkdir = False, kx_read = False, kx_generate = False, kx_write = False\<rparr>"

lemma LoadOrCreate_stable:
  assumes "LoadOrCreate sha nil fx gen dir f = (Inr ident, f')" "length (snd gen) = PrivateKeySize"
  shows "LoadOrCreate sha nil no_key_faults gen' dir f' = (Inr ident, f') \<and>
     NodeIDFromPublicKey sha (id_PublicKey ident) = Inr (id_NodeID ident)"
proof (cases f)
  case None
  obtain pub priv where g: "gen = (pub, priv)" by fastforce
  have "LoadOrCreate sha nil no_key_faults gen' dir f' = (Inr ident, f')"
    using LoadOrCreate_again [of sha nil fx pub priv dir ident f' no_key_faults gen'] assms None g by (simp add: no_key_faults_def)
  moreover have "NodeIDFromPublicKey sha (id_PublicKey ident) = Inr (id_NodeID ident)"
    using assms(1) None g
    by (auto simp: LoadOrCreate_def identity_of_def Let_def split: if_splits sum.splits prod.splits)
  ultimately show ?thesis by simp
next
  case (Some kf)
  then have "f' = Some kf" "load_identity sha kf = Inr ident" "dir \<noteq> ''''"
    using assms(1) by (auto simp: LoadOrCreate_def split: if_splits)
  then show ?thesis
    by (auto simp: LoadOrCreate_def no_key_faults_def load_identity_def identity_of_def
        split: key_file.splits option.splits if_splits sum.splits)
qed

lemma launch_tcp_start:
  assumes "launch_tcp listens opt ident dir sb = Inr nd"
  shows "tcp_start (tcp_options_config opt ident) (idle_world (tn_transport nd)) \<and> tr_handler (tn_transport nd) \<and>
     tr_localID (tn_transport nd) = id_NodeID ident \<and> isLoopbackAddr (to_listen opt) \<and> tn_store nd = fst sb \<and> tn_dir nd = dir \<and>
     tn_state nd = NewNode (id_NodeID ident) (snd sb) (Some (New DefaultConfig))
       (node_options_config (to_difficulty opt) (to_maxTxPerBlock opt))"
proof -
  let ?c = "tcp_options_config opt ident"
  obtain t where t: "tcp_New ?c = Inr t" using assms by (auto simp: launch_tcp_def split: sum.splits)
  have f: "tr_localID t = id_NodeID ident" "tr_started t = False" "tr_cfg t = default_config ?c"
    using t by (auto simp: tcp_New_def tcp_options_config_def split: if_splits)
  have c: "cf_ListenAddr (default_config ?c) = to_listen opt"
    by (simp add: default_config_def set_default_same [of cf_ListenAddr]) (simp add: tcp_options_config_def)
  let ?r = "tcp_Register (id_NodeID ident) t"
  have r: "tr_started ?r = False" "tr_cfg ?r = tr_cfg t" "tr_handler ?r" "tr_localID ?r = id_NodeID ident"
    using f by (simp_all add: tcp_Register_def Let_def)
  obtain u where u: "tcp_Start listens ?r = (Inr (), u)" "tn_transport nd = u" "tn_store nd = fst sb" "tn_dir nd = dir"
    "tn_state nd = NewNode (id_NodeID ident) (snd sb) (Some (New DefaultConfig)) (node_options_config (to_difficulty opt) (to_maxTxPerBlock opt))"
    using assms t by (auto simp: launch_tcp_def Let_def split: sum.splits prod.splits)
  have "tcp_Start True ?r = (Inr (), u)" "isLoopbackAddr (to_listen opt)" "tr_handler u" "tr_localID u = id_NodeID ident"
    using u(1) r f(3) c by (auto simp: tcp_Start_def Let_def split: if_splits)
  then show ?thesis using t u(2-5) f(1) by (simp add: tcp_start_def idle_world_def)
qed

text \<open>
  C29: A TCP node starts in a good state. When \<^verbatim>\<open>runTCP\<close> gets to the main loop, from files whose genesis
  file, if any, holds a genesis, then: its node is in a reachable state over a reachable chain of the
  asked difficulty, its transport is one that was made, registered and started, listening on a
  loopback address, and both carry the id that belongs to the public key of the identity (the one
  asked for, if one was); and the next start from the files it left finds the same identity,
  whatever keys would be generated.
\<close>

theorem tcp_node_boots:
  assumes "runTCP sha nil fx gen ft now ord listens opt fs = Some (Inr nd, fs')" "fair_ranging ord"
    and "\<forall>dir. genesis_file_ok (snd (fs dir))" "length (snd gen) = PrivateKeySize"
  shows "\<exists>ident. node_reachable sha ord t (tn_state nd) \<and>
     chain_reachable sha ord (nd_chain (snd (tn_state nd))) \<and> bc_difficulty (nd_chain (snd (tn_state nd))) = to_difficulty opt \<and>
     tcp_reachable reach (tcp_options_config opt ident) (idle_world (tn_transport nd)) \<and> tr_handler (tn_transport nd) \<and>
     isLoopbackAddr (to_listen opt) \<and> tr_localID (tn_transport nd) = id_NodeID ident \<and> nd_id (snd (tn_state nd)) = id_NodeID ident \<and>
     NodeIDFromPublicKey sha (id_PublicKey ident) = Inr (id_NodeID ident) \<and> (to_id opt = '''' \<or> to_id opt = id_NodeID ident) \<and>
     LoadOrCreate sha nil no_key_faults gen' (tn_dir nd) (fst (fs' (tn_dir nd))) = (Inr ident, fst (fs' (tn_dir nd)))"
proof -
  obtain dir where dir: "data_dir opt = Inr dir"
    using assms(1) by (auto simp: runTCP_def Let_def split: if_splits sum.splits)
  obtain ident kf where id: "LoadOrCreate sha nil fx gen dir (fst (fs dir)) = (Inr ident, kf)"
    using assms(1) dir by (auto simp: runTCP_def Let_def split: if_splits sum.splits prod.splits)
  have asked: "to_id opt = '''' \<or> to_id opt = id_NodeID ident"
    using assms(1) dir id by (auto simp: runTCP_def Let_def split: if_splits)
  obtain st bc dk where oc: "open_chain sha ft now ord (to_difficulty opt) (snd (fs dir)) = Some (Inr (st, bc), dk)"
    using assms(1) dir id asked by (auto simp: runTCP_def Let_def split: if_splits option.splits sum.splits)
  have l: "launch_tcp listens opt ident dir (st, bc) = Inr nd" and fs': "fs' = fs(dir := (kf, dk))"
    using assms(1) dir id asked oc by (auto simp: runTCP_def Let_def split: if_splits)
  have bc: "chain_reachable sha ord bc" "bc_difficulty bc = to_difficulty opt"
    using open_chain_reachable [OF oc assms(2)] assms(3) by auto
  note L = launch_tcp_start [OF l]
  have sn: "nd_chain (snd (tn_state nd)) = bc" "nd_id (snd (tn_state nd)) = id_NodeID ident"
    using L by (simp_all add: NewNode_def Let_def)
  have "node_reachable sha ord t (tn_state nd)"
    using L bc pool_reachable.intros(1) [of DefaultConfig] by (auto simp: node_options_config_def intro: node_reachable.boot)
  moreover have "tcp_reachable reach (tcp_options_config opt ident) (idle_world (tn_transport nd))" using L by (blast intro: tcp_init)
  ultimately show ?thesis
    using L bc sn asked LoadOrCreate_stable [OF id assms(4), of gen'] by (intro exI [of _ ident]) (simp add: fs')
qed

section \<open>A first start\<close>

definition empty_disk :: disk where
  "empty_disk = \<lparr>dk_blocks = Map.empty, dk_manifest = None\<rparr>"

lemma writeBlockFile_some:
  "\<exists>c. writeBlockFile no_faults sha (Some b) dk = (Inr (), dk\<lparr>dk_blocks := (dk_blocks dk)(bh_Height (blk_Header b) \<mapsto> Json c)\<rparr>)"
  by (cases "IsZero (blk_Hash b)") (auto simp: writeBlockFile_def cloneBlock_def Let_def no_faults_def)

lemma open_chain_fresh: "\<exists>st bc dk. open_chain sha no_faults now ord d empty_disk = Some (Inr (st, bc), dk)"
proof -
  define g where "g = NewGenesisBlock\<lparr>blk_Header := (blk_Header NewGenesisBlock)\<lparr>bh_TxRoot := HashTransactions sha (blk_Txs NewGenesisBlock)\<rparr>\<rparr>"
  define h where "h = g\<lparr>blk_Hash := header_hash sha (blk_Header g) (blk_Nonce g)\<rparr>"
  have h0: "bh_Height (blk_Header h) = 0" by (simp add: h_def g_def NewGenesisBlock_def)
  obtain b where b: "writeBlockFile no_faults sha (Some h) empty_disk = (Inr (), \<lparr>dk_blocks = [0 \<mapsto> Json b], dk_manifest = None\<rparr>)"
    using writeBlockFile_some [of sha h empty_disk] h0 by (auto simp: empty_disk_def)
  have "\<exists>st. Open no_faults sha (now 0) d NewGenesisBlock empty_disk
      = (Inr st, \<lparr>dk_blocks = [0 \<mapsto> Json b], dk_manifest = Some (Json st)\<rparr>) \<and> mf_TipHeight st = 0"
    using b unfolding Open_def initNew_def g_def [symmetric] Let_def HashHeaderNonce_eq sum.case h_def [symmetric]
    by (simp add: saveManifest_def Let_def) (simp add: no_faults_def empty_disk_def)
  then obtain st where o: "Open no_faults sha (now 0) d NewGenesisBlock empty_disk
      = (Inr st, \<lparr>dk_blocks = [0 \<mapsto> Json b], dk_manifest = Some (Json st)\<rparr>)" "mf_TipHeight st = 0" by blast
  let ?dk = "\<lparr>dk_blocks = [0 \<mapsto> Json b], dk_manifest = Some (Json st)\<rparr>"
  have "load_step no_faults (now 1) 0 [] (st, ?dk) = Inl b" by (simp add: load_step_def readBlockFile_def no_faults_def)
  then have "LoadMainChain no_faults (now 1) (st, ?dk) = Some (Inr [b], st, ?dk)"
    using o(2) by (simp add: LoadMainChain_def max_cap_def load_loop.simps [of _ _ 0] load_loop.simps [of _ _ 1])
  moreover obtain bc where "NewBlockchain sha (Some b) d = Inr bc" by (simp add: NewBlockchain_def cloneBlock_def Let_def)
  then have "restore_chain sha ord d [b] = Some (Inr bc)" by (simp add: restore_chain_def)
  ultimately show ?thesis using o(1) by (simp add: open_chain_def)
qed

definition demo_options :: tcp_options where
  "demo_options = \<lparr>to_listen = ''127.0.0.1:7000'', to_seeds = ''127.0.0.1:7001'', to_dataDir = ''d'', to_id = '''', to_maxPeers = 8,
     to_outboundPeers = 4, to_difficulty = 0, to_maxTxPerBlock = 50\<rparr>"

lemma demo_start:
  "\<exists>nd fs. runTCP demo_digest (\<lambda>_. False) no_key_faults (replicate 32 1, replicate 64 2) no_faults int (\<lambda>_ xs. xs) True demo_options
     (\<lambda>_. (None, empty_disk)) = Some (Inr nd, fs)"
proof -
  let ?gen = "(replicate 32 1, replicate 64 2) :: byte list \<times> byte list"
  obtain ident kf where id: "LoadOrCreate demo_digest (\<lambda>_. False) no_key_faults ?gen ''d'' None = (Inr ident, kf)"
    by (simp add: LoadOrCreate_def no_key_faults_def identity_of_def NodeIDFromPublicKey_def PublicKeySize_def writeKeyFile_def)
  obtain st bc dk where oc: "open_chain demo_digest no_faults int (\<lambda>_ xs. xs) 0 empty_disk = Some (Inr (st, bc), dk)"
    using open_chain_fresh by blast
  obtain t where t: "tcp_New (tcp_options_config demo_options ident) = Inr t"
    by (simp add: tcp_New_def tcp_options_config_def demo_options_def)
  then have f: "tr_started t = False" "tr_cfg t = default_config (tcp_options_config demo_options ident)"
    by (auto simp: tcp_New_def tcp_options_config_def split: if_splits)
  have c: "cf_ListenAddr (default_config (tcp_options_config demo_options ident)) = ''127.0.0.1:7000''"
    by (simp add: default_config_def set_default_same [of cf_ListenAddr]) (simp add: tcp_options_config_def demo_options_def)
  define u where "u = tcp_Register (id_NodeID ident) t"
  have "tr_started u = False" "tr_cfg u = tr_cfg t" using f by (simp_all add: u_def tcp_Register_def Let_def)
  then have "tcp_Start True u = (Inr (), u\<lparr>tr_started := True, tr_listening := True\<rparr>)"
    using f c demo_loopback(3) by (simp add: tcp_Start_def Let_def)
  then obtain nd where l: "launch_tcp True demo_options ident ''d'' (st, bc) = Inr nd"
    using t by (simp add: launch_tcp_def Let_def flip: u_def)
  have o: "to_listen demo_options = ''127.0.0.1:7000''" "to_dataDir demo_options = ''d''" "to_id demo_options = ''''"
    "to_difficulty demo_options = 0" by (simp_all add: demo_options_def)
  show ?thesis using demo_loopback(3)
    by (simp add: runTCP_def listen_check_agrees data_dir_def Let_def id oc l o)
qed

theorem tcp_node_boots_witness:
  "\<exists>nd fs (ident :: Identity). runTCP demo_digest (\<lambda>_. False) no_key_faults (replicate 32 1, replicate 64 2) no_faults int (\<lambda>_ xs. xs) True demo_options
     (\<lambda>_. (None, empty_disk)) = Some (Inr nd, fs) \<and>
     node_reachable demo_digest (\<lambda>_ xs. xs) 9 (tn_state nd) \<and> nd_id (snd (tn_state nd)) = id_NodeID ident"
proof -
  obtain nd fs where r: "runTCP demo_digest (\<lambda>_. False) no_key_faults (replicate 32 1, replicate 64 2) no_faults int (\<lambda>_ xs. xs) True demo_options
     (\<lambda>_. (None, empty_disk)) = Some (Inr nd, fs)" using demo_start by blast
  have "\<forall>dir :: string. genesis_file_ok (snd ((\<lambda>_. (None :: key_file option, empty_disk)) dir))"
    by (simp add: genesis_file_ok_def empty_disk_def)
  from tcp_node_boots [OF r fair_ranging_id this, where t = 9 and reach = "\<lambda>_ _. True" and gen' = "([], [])"] obtain ident :: Identity where
    "node_reachable demo_digest (\<lambda>_ xs. xs) 9 (tn_state nd)" "nd_id (snd (tn_state nd)) = id_NodeID ident"
    by (simp add: PrivateKeySize_def) blast
  with r show ?thesis by blast
qed

end
