(* ===== verification/Connect.thy ===== *)
theory Connect
  imports TcpProps HandshakeProps
begin

text \<open>
  \<^verbatim>\<open>handleInbound\<close> and \<^verbatim>\<open>handleOutbound\<close> of \<^verbatim>\<open>internal/transport/tcp/tcp.go\<close> and
  \<^verbatim>\<open>runReadLoop\<close> of \<^verbatim>\<open>peerconn.go\<close>: the life of one connection, which joins the
  handshake (\<open>Handshake\<close>) to the tables of the transport (\<open>Tcp\<close>). The connection that is accepted or
  dialed, with the bytes that will arrive on it, comes from the environment. What other goroutines do
  to the tables in between is the business of the steps below.
\<close>

section \<open>One connection\<close>

definition newPeerConn :: "string \<Rightarrow> string \<Rightarrow> byte list \<Rightarrow> string \<Rightarrow> bool \<Rightarrow> peerConn" where
  "newPeerConn i listen pub remote outbound =
     \<lparr>pc_id = i, pc_listenAddr = listen, pc_pubKey = pub, pc_outbound = outbound, pc_remote = remote, pc_queue = [], pc_closed = False\<rparr>"

text \<open>The arguments of the handshake; reading the keys of a missing identity panics.\<close>

definition hs_of :: "transport \<Rightarrow> hs_config option" where
  "hs_of t = map_option (\<lambda>ident. \<lparr>hc_ID = tr_localID t, hc_Priv = id_PrivateKey ident, hc_Pub = id_PublicKey ident,
     hc_Listen = cf_ListenAddr (tr_cfg t), hc_Magic = cf_Magic (tr_cfg t), hc_Version = cf_Version (tr_cfg t),
     hc_Max = cf_MaxMessageSize (tr_cfg t)\<rparr>) (cf_Identity (tr_cfg t))"

text \<open>
  Both handlers up to the read loop. \<open>None\<close> is the panic; otherwise the peer that was kept, with what
  is left to read on its connection, and the tables.
\<close>

type_synonym kept = "(peer \<times> byte list) option \<times> transport"

definition accept_finish ::
  "crypto \<Rightarrow> nils \<Rightarrow> byte list \<Rightarrow> (nat \<Rightarrow> gotime) \<Rightarrow> gotime \<Rightarrow> string \<Rightarrow> conn \<Rightarrow> transport \<Rightarrow> kept option" where
  "accept_finish cr nil nonce clock now remote c t =
     map_option (\<lambda>cf.
       case HandshakeInbound cr nil cf nonce clock c of
         (Inl _, _) \<Rightarrow> (None, inbound_fail remote t)
       | (Inr (i, listen, pub), c) \<Rightarrow>
           (case inbound_done now (newPeerConn i listen pub remote False) t of
              (False, t) \<Rightarrow> (None, t)
            | (True, t) \<Rightarrow> (Some ((i, listen, pub), cn_in c), t))) (hs_of t)"

text \<open>What \<^verbatim>\<open>Dial\<close> gives: an error, or a connection and its remote address.\<close>

datatype dialed = DialError | Dialed string conn

definition dial_finish ::
  "crypto \<Rightarrow> nils \<Rightarrow> byte list \<Rightarrow> (nat \<Rightarrow> gotime) \<Rightarrow> gotime \<Rightarrow> nat \<Rightarrow> string \<Rightarrow> dialed \<Rightarrow> transport \<Rightarrow> kept option" where
  "dial_finish cr nil nonce clock now jitter addr d t =
     (case d of
        DialError \<Rightarrow> Some (None, outbound_fail now jitter addr False t)
      | Dialed remote c \<Rightarrow>
          if \<not> isLoopbackConn remote then Some (None, outbound_fail now jitter addr True t)
          else map_option (\<lambda>cf.
            case HandshakeOutbound cr nil cf nonce clock c of
              (Inl _, _) \<Rightarrow> (None, outbound_fail now jitter addr False t)
            | (Inr (i, listen, pub), c) \<Rightarrow>
                (case outbound_done nil now jitter addr (newPeerConn i listen pub remote True) t of
                   (False, t) \<Rightarrow> (None, t)
                 | (True, t) \<Rightarrow> (Some ((i, listen, pub), cn_in c), t))) (hs_of t))"

section \<open>The read loop\<close>

definition conn_closed :: "string \<Rightarrow> transport \<Rightarrow> bool" where
  "conn_closed i t = (case map_of (tr_peers t) i of None \<Rightarrow> True | Some p \<Rightarrow> pc_closed p)"

text \<open>
  The loop over the bytes that arrive: what the handler gets, the addresses whose dialing starts, and
  the tables. Reading fails at the latest when nothing more arrives in time; \<open>now k\<close> is the clock of
  round \<open>k\<close>.
\<close>

lemma ReadFrame_shorter: "ReadFrameWithLimit mx limiter s = Inr (m, rest) \<Longrightarrow> length rest < length s"
  using ReadFrameWithLimit_eq [of mx limiter s m rest] by auto

function runReadLoop ::
  "nils \<Rightarrow> (int \<Rightarrow> bool) option \<Rightarrow> (nat \<Rightarrow> gotime) \<Rightarrow> (string list \<Rightarrow> string list) \<Rightarrow> string \<Rightarrow> nat \<Rightarrow> byte list \<Rightarrow> transport \<Rightarrow>
     message list \<times> string list \<times> transport" where
  "runReadLoop nil limiter now shuffle i k s t =
     (if tr_stopped t \<or> conn_closed i t then ([], [], removePeer i t)
      else (case ReadFrameWithLimit (cf_MaxMessageSize (tr_cfg t)) limiter s of
              Inl _ \<Rightarrow> ([], [], removePeer i t)
            | Inr (m, s) \<Rightarrow>
                (case on_message nil (now k) shuffle i m t of
                   (got, dials, t) \<Rightarrow>
                     (case runReadLoop nil limiter now shuffle i (Suc k) s t of
                        (ms, ds, t) \<Rightarrow> ((case got of None \<Rightarrow> ms | Some x \<Rightarrow> x # ms), dials @ ds, t)))))"
  by pat_completeness auto
termination
  by (relation "measure (\<lambda>(nil, limiter, now, shuffle, i, k, s, t). length s)") (use ReadFrame_shorter in auto)

declare runReadLoop.simps [simp del]

text \<open>The two handlers as a whole; the mark of a dialed address goes at the very end.\<close>

definition handleInbound ::
  "crypto \<Rightarrow> nils \<Rightarrow> byte list \<Rightarrow> (nat \<Rightarrow> gotime) \<Rightarrow> (int \<Rightarrow> bool) option \<Rightarrow> (string list \<Rightarrow> string list) \<Rightarrow> string \<Rightarrow> conn \<Rightarrow> transport \<Rightarrow>
     (message list \<times> string list \<times> transport) option" where
  "handleInbound cr nil nonce clock limiter shuffle remote c t =
     map_option (\<lambda>(res, t).
       case res of
         None \<Rightarrow> ([], [], t)
       | Some (p, s) \<Rightarrow> runReadLoop nil limiter (\<lambda>k. clock (k + 5)) shuffle (fst p) 0 s t)
       (accept_finish cr nil nonce clock (clock 4) remote c t)"

definition handleOutbound ::
  "crypto \<Rightarrow> nils \<Rightarrow> byte list \<Rightarrow> (nat \<Rightarrow> gotime) \<Rightarrow> nat \<Rightarrow> (int \<Rightarrow> bool) option \<Rightarrow> (string list \<Rightarrow> string list) \<Rightarrow> string \<Rightarrow> dialed \<Rightarrow> transport \<Rightarrow>
     (message list \<times> string list \<times> transport) option" where
  "handleOutbound cr nil nonce clock jitter limiter shuffle addr d t =
     (case outbound_begin addr t of
        (False, t) \<Rightarrow> Some ([], [], t)
      | (True, t) \<Rightarrow>
          map_option (\<lambda>(res, t).
            case res of
              None \<Rightarrow> ([], [], t)
            | Some (p, s) \<Rightarrow>
                (case runReadLoop nil limiter (\<lambda>k. clock (k + 5)) shuffle (fst p) 0 s t of
                   (ms, ds, t) \<Rightarrow> (ms, ds, clearDialInFlight addr t)))
            (dial_finish cr nil nonce clock (clock 4) jitter addr d t))"

text \<open>
  A connection that carries messages of the protocol for this node, then ends: the handler gets them
  all, in order, in the name of the peer, and the peer is forgotten.
\<close>

lemma read_loop_delivers:
  assumes "list_all2 (\<lambda>m f. encodeFrame nil m (cf_MaxMessageSize (tr_cfg t)) = Inr f) ms fs"
    "\<forall>m \<in> set ms. sendable m \<and> msg_To m = tr_localID t \<and> msg_Type m \<notin> {MsgGetPeers, MsgPeers}"
    and mx: "cf_MaxMessageSize (tr_cfg t) < 2 ^ 32" "utf8_coerce (tr_localID t) = tr_localID t"
    and lim: "\<forall>wait n. limiter = Some wait \<longrightarrow> 0 < n \<longrightarrow> n \<le> cf_MaxMessageSize (tr_cfg t) \<longrightarrow> wait n"
    and st: "\<not> tr_stopped t" "\<not> conn_closed i t" "tr_handler t"
  shows "runReadLoop nil' limiter now sh i k (concat fs) t
     = (map (\<lambda>m. (json_message m)\<lparr>msg_From := i\<rparr>) ms, [], removePeer i t)"
  using assms(1,2)
proof (induction arbitrary: k rule: list_all2_induct)
  case Nil
  have "\<exists>e. ReadFrameWithLimit (cf_MaxMessageSize (tr_cfg t)) limiter [] = Inl e"
    using ReadFrame_shorter [of _ limiter "[]"] by (cases "ReadFrameWithLimit (cf_MaxMessageSize (tr_cfg t)) limiter []") fastforce+
  then show ?case using st by (auto simp: runReadLoop.simps [where s = "[]"])
next
  case (Cons m ms f fs)
  have m: "sendable m" "msg_To m = tr_localID t" "msg_Type m \<notin> {MsgGetPeers, MsgPeers}" using Cons.prems by simp_all
  have r: "ReadFrameWithLimit (cf_MaxMessageSize (tr_cfg t)) limiter (f @ concat fs) = Inr (json_message m, concat fs)"
    by (rule read_one_frame [OF Cons.hyps(1) mx(1) m(1) lim])
  have "utf8_coerce (msg_Type m) = msg_Type m" using m(1) payload_type_ascii unfolding sendable_def by blast
  then have "on_message nil' (now k) sh i (json_message m) t = (Some ((json_message m)\<lparr>msg_From := i\<rparr>), [], t)"
    using m mx(2) st(3) by (simp add: on_message_def deliverFromPeer_def json_message_def)
  then show ?case using Cons st r by (simp add: runReadLoop.simps [where s = "f @ concat fs"])
qed

section \<open>The transport with its handshakes\<close>

text \<open>
  The steps of \<open>TcpProps\<close>, in which a connection gets its peer from the handler of the code. \<open>session\<close>
  records what a handshake that led to a peer was about: the peer, the nonce that was drawn, and what
  arrived on the connection.
\<close>

record session =
  ss_peer :: peer
  ss_nonce :: "byte list"
  ss_arrived :: "byte list"

definition log_session :: "(peer \<times> byte list) option \<Rightarrow> byte list \<Rightarrow> byte list \<Rightarrow> session list \<Rightarrow> session list" where
  "log_session res nonce arrived l =
     (case res of None \<Rightarrow> l | Some (p, _) \<Rightarrow> \<lparr>ss_peer = p, ss_nonce = nonce, ss_arrived = arrived\<rparr> # l)"

inductive wire_step ::
  "(string \<Rightarrow> string \<Rightarrow> bool) \<Rightarrow> crypto \<Rightarrow> nils \<Rightarrow> world \<times> session list \<Rightarrow> world \<times> session list \<Rightarrow> bool" for reach cr nil where
  accepted: "r \<in> set (wd_in w) \<Longrightarrow> accept_finish cr nil nonce clock now r c (wd_tr w) = Some (res, t) \<Longrightarrow>
     wire_step reach cr nil (w, l) (w\<lparr>wd_tr := t, wd_in := remove1 r (wd_in w)\<rparr>, log_session res nonce (cn_in c) l)"
| dialed: "a \<in> set (wd_out w) \<Longrightarrow> dial_finish cr nil nonce clock now j a d (wd_tr w) = Some (res, t) \<Longrightarrow>
     (\<And>r c. d = Dialed r c \<Longrightarrow> reach a r) \<Longrightarrow>
     wire_step reach cr nil (w, l) (w\<lparr>wd_tr := t, wd_out := remove1 a (wd_out w),
         wd_dialed := (case res of None \<Rightarrow> wd_dialed w | Some (p, _) \<Rightarrow> (fst p, a) # wd_dialed w)\<rparr>,
       log_session res nonce (case d of DialError \<Rightarrow> [] | Dialed r c \<Rightarrow> cn_in c) l)"
| tables: "tcp_step reach w w' \<Longrightarrow> set (al_keys (tr_peers (wd_tr w'))) \<subseteq> set (al_keys (tr_peers (wd_tr w))) \<Longrightarrow>
     wire_step reach cr nil (w, l) (w', l)"

inductive wire_reachable ::
  "(string \<Rightarrow> string \<Rightarrow> bool) \<Rightarrow> crypto \<Rightarrow> nils \<Rightarrow> tcp_config \<Rightarrow> world \<times> session list \<Rightarrow> bool" for reach cr nil cfg where
  wire_init: "tcp_start cfg w \<Longrightarrow> wire_reachable reach cr nil cfg (w, [])"
| wire_next: "wire_reachable reach cr nil cfg s \<Longrightarrow> wire_step reach cr nil s s' \<Longrightarrow> wire_reachable reach cr nil cfg s'"

inductive_cases wire_stepE: "wire_step reach cr nil s s'"

text \<open>Both handlers are runs of the steps of the tables.\<close>

lemma accept_finish_step:
  assumes "r \<in> set (wd_in w)" "accept_finish cr nil nonce clock now r c (wd_tr w) = Some (res, t)"
  shows "tcp_step reach w (w\<lparr>wd_tr := t, wd_in := remove1 r (wd_in w)\<rparr>)"
proof -
  obtain cf where cf: "hs_of (wd_tr w) = Some cf" using assms(2) by (auto simp: accept_finish_def)
  obtain h c1 where h: "HandshakeInbound cr nil cf nonce clock c = (h, c1)" by force
  show ?thesis
  proof (cases h)
    case (Inl e)
    then have "t = inbound_fail r (wd_tr w)" using assms(2) cf h by (simp add: accept_finish_def)
    then show ?thesis using tcp_step.in_fail [OF assms(1)] by simp
  next
    case (Inr p)
    obtain i listen pub where p: "p = (i, listen, pub)" by (cases p)
    obtain ok u where u: "inbound_done now (newPeerConn i listen pub r False) (wd_tr w) = (ok, u)" by force
    have "t = u" using assms(2) cf h Inr p u by (cases ok) (simp_all add: accept_finish_def)
    then show ?thesis using tcp_step.in_done [OF _ _ u] assms(1) by (simp add: newPeerConn_def)
  qed
qed

lemma dial_cases:
  assumes "dial_finish cr nil nonce clock now j a d t = Some (res, t')"
  obtains (fails) perm where "t' = outbound_fail now j a perm t" "res = None"
    | (shaken) r c cf p c1 where "d = Dialed r c" "isLoopbackConn r" "hs_of t = Some cf" "HandshakeOutbound cr nil cf nonce clock c = (Inr p, c1)"
proof (cases d)
  case DialError
  then show thesis using assms fails [of False] by (simp add: dial_finish_def)
next
  case (Dialed r c)
  show thesis
  proof (cases "isLoopbackConn r")
    case False
    then show thesis using assms fails [of True] Dialed by (simp add: dial_finish_def)
  next
    case loop: True
    obtain cf where cf: "hs_of t = Some cf" using assms Dialed loop by (auto simp: dial_finish_def)
    obtain h c1 where h: "HandshakeOutbound cr nil cf nonce clock c = (h, c1)" by force
    show thesis
    proof (cases h)
      case (Inl e)
      then show thesis using assms fails [of False] Dialed loop cf h by (simp add: dial_finish_def)
    next
      case (Inr p)
      then show thesis using shaken [OF Dialed loop cf] h by simp
    qed
  qed
qed

lemma dial_finish_step:
  assumes "a \<in> set (wd_out w)" "dial_finish cr nil nonce clock now j a d (wd_tr w) = Some (res, t)"
    "\<And>r c. d = Dialed r c \<Longrightarrow> reach a r"
  shows "tcp_step reach w (w\<lparr>wd_tr := t, wd_out := remove1 a (wd_out w),
    wd_dialed := (case res of None \<Rightarrow> wd_dialed w | Some (p, _) \<Rightarrow> (fst p, a) # wd_dialed w)\<rparr>)"
  using assms(2)
proof (cases rule: dial_cases)
  case (fails perm)
  then show ?thesis using tcp_step.out_fail [OF assms(1), of reach now j perm] by simp
next
  case (shaken r c cf p c1)
  obtain i listen pub where p: "p = (i, listen, pub)" by (cases p)
  obtain ok u where u: "outbound_done nil now j a (newPeerConn i listen pub r True) (wd_tr w) = (ok, u)" by force
  have "t = u" "res = (if ok then Some ((i, listen, pub), cn_in c1) else None)"
    using assms(2) shaken p u by (cases ok; simp add: dial_finish_def)+
  then show ?thesis
    using tcp_step.out_done [OF assms(1) _ _ _ u, of reach] assms(3) [OF shaken(1)] shaken(2) by (cases ok) (simp_all add: newPeerConn_def)
qed

lemma wire_tcp: "wire_reachable reach cr nil cfg s \<Longrightarrow> tcp_reachable reach cfg (fst s)"
proof (induction rule: wire_reachable.induct)
  case (wire_init w)
  then show ?case by (simp add: tcp_init)
next
  case (wire_next s s')
  from wire_next(2) have "tcp_step reach (fst s) (fst s')"
    by cases (use accept_finish_step dial_finish_step in \<open>simp_all\<close>)
  then show ?case using wire_next(3) by (rule tcp_next [rotated])
qed

section \<open>Who is in the table\<close>

definition identities :: "transport \<Rightarrow> peer set" where
  "identities t = (\<lambda>(k, p). (k, pc_listenAddr p, pc_pubKey p)) ` set (tr_peers t)"

text \<open>
  What a session shows: the id of the peer is that of its key, and among the messages that arrived one
  carries a signature of the nonce by this key.
\<close>

definition vouched :: "crypto \<Rightarrow> tcp_config \<Rightarrow> session \<Rightarrow> bool" where
  "vouched cr cfg s \<longleftrightarrow>
     (case ss_peer s of (i, listen, pub) \<Rightarrow>
        NodeIDFromPublicKey (cr_sha cr) pub = Inr i \<and> length i = 40 \<and>
        (\<exists>k ms rest sg. read_frames k (cf_MaxMessageSize cfg) None (ss_arrived s) = Inr (ms, rest) \<and>
           cr_verify cr pub (handshakeSigMsg (ss_nonce s) (cf_Magic cfg) (cf_Version cfg)) sg \<and>
           (\<exists>m \<in> set ms. (\<exists>ts. msg_Payload m = AuthPayload (ss_nonce s) sg ts) \<or>
              (\<exists>n ts. msg_Payload m = HelloAckPayload (cf_Magic cfg) (cf_Version cfg) pub listen n (ss_nonce s) sg ts))))"

lemma vouched_accepted:
  assumes "HandshakeOutbound cr nil cf nonce now c = (Inr p, c1) \<or> HandshakeInbound cr nil cf nonce now c = (Inr p, c1)"
    "hs_of t = Some cf"
  shows "vouched cr (tr_cfg t) \<lparr>ss_peer = p, ss_nonce = nonce, ss_arrived = cn_in c\<rparr>"
proof -
  obtain i listen pub where p: "p = (i, listen, pub)" by (cases p)
  have "hc_Max cf = cf_MaxMessageSize (tr_cfg t)" "hc_Magic cf = cf_Magic (tr_cfg t)" "hc_Version cf = cf_Version (tr_cfg t)"
    using assms(2) by (auto simp: hs_of_def)
  then show ?thesis using accepted_signed [OF assms(1) [unfolded p]] by (fastforce simp: vouched_def p)
qed

lemma identities_add:
  "addPeer pc t = (True, t') \<Longrightarrow> identities t' = insert (pc_id pc, pc_listenAddr pc, pc_pubKey pc) (identities t)"
  by (auto simp: addPeer_def Let_def identities_def al_put_new split: if_splits)

lemma identities_map:
  assumes "\<And>p. pc_listenAddr (f p) = pc_listenAddr p" "\<And>p. pc_pubKey (f p) = pc_pubKey p"
  shows "identities (map_peer i f t) = identities t" "identities (map_peers f t) = identities t"
proof -
  let ?g = "\<lambda>(k, p). (k, pc_listenAddr p, pc_pubKey p)"
  have i: "identities t = ?g ` set (tr_peers t)" for t by (simp add: identities_def)
  have g: "?g ` set (map h (tr_peers t)) = ?g ` set (tr_peers t)" if "\<And>x. ?g (h x) = ?g x" for h
    using that by (simp add: image_image)
  have "tr_peers (map_peer i f t) = map (\<lambda>(k, p). (k, if k = i then f p else p)) (tr_peers t)" "tr_peers (map_peers f t) = map (apsnd f) (tr_peers t)"
    by (simp_all add: map_peer_def map_peers_def)
  moreover have "?g ((\<lambda>(k, p). (k, if k = i then f p else p)) x) = ?g x" "?g (apsnd f x) = ?g x" for x
    by (cases x; simp add: assms)+
  ultimately show "identities (map_peer i f t) = identities t" "identities (map_peers f t) = identities t"
    by (simp_all only: i g)
qed

lemma sent_identity [simp]:
  "pc_listenAddr (sendRaw f p) = pc_listenAddr p" "pc_pubKey (sendRaw f p) = pc_pubKey p"
  "pc_listenAddr (peer_send nil m mx p) = pc_listenAddr p" "pc_pubKey (peer_send nil m mx p) = pc_pubKey p"
  by (simp_all add: peer_send_def sendRaw_def split: sum.split)

lemma identities_mail [simp]:
  "identities (map_peer i (peer_send nil m mx) t) = identities t" "identities (map_peers (sendRaw f) t) = identities t"
  "identities (map_peer i (sendRaw f) t) = identities t"
  by (simp_all add: identities_map)

lemma identities_same: "tr_peers t' = tr_peers t \<Longrightarrow> identities t' = identities t"
  by (simp add: identities_def)

lemma identities_inbound:
  "inbound_done now pc t = (ok, t') \<Longrightarrow>
   identities t' = (if ok then insert (pc_id pc, pc_listenAddr pc, pc_pubKey pc) (identities t) else identities t)"
  using identities_add [of pc t] addPeer_False [of pc t]
  by (auto simp: inbound_done_def identities_same [of "observeAddr _ _ _"] identities_same [of "untrackIP _ _"] split: prod.splits bool.splits)

lemma identities_fail: "identities (outbound_fail now j a perm t) = identities t"
  by (rule identities_same) (simp add: outbound_fail_def)

lemma identities_outbound:
  "outbound_done nil now j a pc t = (ok, t') \<Longrightarrow>
   identities t' = (if ok then insert (pc_id pc, pc_listenAddr pc, pc_pubKey pc) (identities t) else identities t)"
  using identities_add [of pc t] addPeer_False [of pc t]
  by (auto simp: outbound_done_def ask_for_peers_def identities_fail identities_same [of "observeAddr _ _ _"] split: prod.splits bool.splits)

lemma identities_remove: "identities (removePeer i t) \<subseteq> identities t"
  by (auto simp: identities_def removePeer_def Let_def al_del_def split: option.split)

lemma identities_queued:
  assumes "t' = tcp_Send nil i m t \<or> t' = tcp_Broadcast nil i m t \<or> t' = requestPeersFromSomePeer nil now k t \<or>
     t' = map_peer i (peer_send nil m mx) t"
  shows "identities t' = identities t"
proof -
  have s: "identities (tcp_Send nil i m t) = identities t" for i m
    by (simp add: tcp_Send_def Let_def split: option.split sum.split)
  have "identities (tcp_Broadcast nil i m t) = identities t" by (simp add: tcp_Broadcast_def Let_def split: sum.split)
  moreover have "identities (requestPeersFromSomePeer nil now k t) = identities t"
    using s by (simp add: requestPeersFromSomePeer_def Let_def)
  ultimately show ?thesis using assms s identities_mail(1) by blast
qed

lemma begin_peers:
  "inbound_begin r t = (b, t') \<Longrightarrow> tr_peers t' = tr_peers t" "outbound_begin a t = (b, t') \<Longrightarrow> tr_peers t' = tr_peers t"
  by (auto simp: inbound_begin_def outbound_begin_def split: sum.splits prod.splits bool.splits if_splits dest: trackIP_frame)

text \<open>A peer that is kept is new to the table, so a step that brings no new name brings no new peer.\<close>

lemma done_new_name:
  "inbound_done now pc t = (True, t') \<Longrightarrow> pc_id pc \<in> set (al_keys (tr_peers t')) - set (al_keys (tr_peers t))"
  "outbound_done nil now j a pc t = (True, t') \<Longrightarrow> pc_id pc \<in> set (al_keys (tr_peers t')) - set (al_keys (tr_peers t))"
proof -
  have a: "addPeer pc t = (True, u) \<Longrightarrow> pc_id pc \<in> set (al_keys (tr_peers u)) - set (al_keys (tr_peers t))" for u
    by (auto simp: addPeer_def Let_def set_al_put_keys simp del: set_map split: if_splits)
  show "inbound_done now pc t = (True, t') \<Longrightarrow> pc_id pc \<in> set (al_keys (tr_peers t')) - set (al_keys (tr_peers t))"
    using a by (auto simp: inbound_done_def split: prod.splits bool.splits)
  have "al_keys (tr_peers (map_peer i f u)) = al_keys (tr_peers u)" for i f u
    by (simp add: map_peer_def comp_def split_def)
  then show "outbound_done nil now j a pc t = (True, t') \<Longrightarrow> pc_id pc \<in> set (al_keys (tr_peers t')) - set (al_keys (tr_peers t))"
    using a by (auto simp: outbound_done_def ask_for_peers_def simp del: set_map split: prod.splits bool.splits)
qed

lemma tables_identities:
  assumes "tcp_step reach w w'" "set (al_keys (tr_peers (wd_tr w'))) \<subseteq> set (al_keys (tr_peers (wd_tr w)))"
  shows "identities (wd_tr w') \<subseteq> identities (wd_tr w)"
  using assms(1)
proof cases
  case (in_done pc now ok t)
  then have "\<not> ok" using assms(2) done_new_name(1) [of now pc "wd_tr w" t] by (auto simp del: set_map)
  then show ?thesis using in_done identities_inbound by fastforce
next
  case (out_done a pc nil now j ok t)
  then have "\<not> ok" using assms(2) done_new_name(2) [of nil now j a pc "wd_tr w" t] by (auto simp del: set_map)
  then show ?thesis using out_done identities_outbound by fastforce
next
  case (out_closed i pc a)
  have "identities (clearDialInFlight a (removePeer i (wd_tr w))) = identities (removePeer i (wd_tr w))" by (rule identities_same) simp
  then show ?thesis using out_closed identities_remove by simp
next
  case (frames_queued t)
  then show ?thesis using identities_queued by fastforce
qed (use identities_remove in \<open>auto simp: inbound_fail_def identities_fail intro!: equalityD1 identities_same
    dest: begin_peers dial_candidate_frame addrCandidates_frame\<close>)

definition wired :: "crypto \<Rightarrow> tcp_config \<Rightarrow> world \<times> session list \<Rightarrow> bool" where
  "wired cr cfg = (\<lambda>(w, l). identities (wd_tr w) \<subseteq> ss_peer ` set l \<and> (\<forall>s \<in> set l. vouched cr cfg s))"

lemma wired_accepted:
  assumes "wired cr (tr_cfg (wd_tr w)) (w, l)" "accept_finish cr nil nonce clock now r c (wd_tr w) = Some (res, t)"
  shows "wired cr (tr_cfg (wd_tr w)) (w\<lparr>wd_tr := t, wd_in := rs\<rparr>, log_session res nonce (cn_in c) l)"
proof -
  obtain cf where cf: "hs_of (wd_tr w) = Some cf" using assms(2) by (auto simp: accept_finish_def)
  obtain h c1 where h: "HandshakeInbound cr nil cf nonce clock c = (h, c1)" by force
  show ?thesis
  proof (cases h)
    case (Inl e)
    then have "t = untrackIP (host_of r) (wd_tr w)" "res = None" using assms(2) cf h by (simp_all add: accept_finish_def inbound_fail_def)
    then show ?thesis using assms(1) by (simp add: wired_def log_session_def identities_same [of "untrackIP _ _"])
  next
    case (Inr p)
    obtain i listen pub where p: "p = (i, listen, pub)" by (cases p)
    obtain ok u where u: "inbound_done now (newPeerConn i listen pub r False) (wd_tr w) = (ok, u)" by force
    have t: "t = u" "res = (if ok then Some (p, cn_in c1) else None)" using assms(2) cf h Inr p u by (cases ok; simp add: accept_finish_def)+
    have "vouched cr (tr_cfg (wd_tr w)) \<lparr>ss_peer = p, ss_nonce = nonce, ss_arrived = cn_in c\<rparr>"
      using vouched_accepted [OF disjI2, OF _ cf] h Inr by blast
    then show ?thesis using assms(1) identities_inbound [OF u] by (auto simp: wired_def log_session_def t p newPeerConn_def)
  qed
qed

lemma wired_dialed:
  assumes "wired cr (tr_cfg (wd_tr w)) (w, l)" "dial_finish cr nil nonce clock now j a d (wd_tr w) = Some (res, t)"
  shows "wired cr (tr_cfg (wd_tr w)) (w\<lparr>wd_tr := t, wd_out := os, wd_dialed := ds\<rparr>,
    log_session res nonce (case d of DialError \<Rightarrow> [] | Dialed r c \<Rightarrow> cn_in c) l)"
proof -
  have failed: ?thesis if "t = outbound_fail now j a perm (wd_tr w)" "res = None" for perm
    using assms(1) that by (simp add: wired_def log_session_def identities_fail)
  show ?thesis using assms(2)
  proof (cases rule: dial_cases)
    case (fails perm)
    then show ?thesis by (rule failed)
  next
    case (shaken r c cf p c1)
    obtain i listen pub where p: "p = (i, listen, pub)" by (cases p)
    obtain ok u where u: "outbound_done nil now j a (newPeerConn i listen pub r True) (wd_tr w) = (ok, u)" by force
    have t: "t = u" "res = (if ok then Some (p, cn_in c1) else None)"
      using assms(2) shaken p u by (cases ok; simp add: dial_finish_def)+
    have "vouched cr (tr_cfg (wd_tr w)) \<lparr>ss_peer = p, ss_nonce = nonce, ss_arrived = cn_in c\<rparr>"
      using vouched_accepted [OF disjI1, OF _ shaken(3)] shaken(4) by blast
    then show ?thesis using assms(1) identities_outbound [OF u] by (auto simp: wired_def log_session_def t p shaken(1) newPeerConn_def)
  qed
qed

lemma reachable_cfg: "tcp_reachable reach cfg w \<Longrightarrow> tr_cfg (wd_tr w) = default_config cfg"
  using tcp_reachable_inv [of reach cfg w] by (simp add: tcp_inv_def tr_ok_def)

lemma wire_wired: "wire_reachable reach cr nil cfg s \<Longrightarrow> wired cr (default_config cfg) s"
proof (induction rule: wire_reachable.induct)
  case (wire_init w)
  then show ?case by (auto simp: wired_def identities_def tcp_start_def tcp_New_def tcp_Start_def tcp_Register_def Let_def
      split: option.splits if_splits)
next
  case (wire_next s s')
  have cfg: "tr_cfg (wd_tr (fst s)) = default_config cfg" using wire_next(1) wire_tcp reachable_cfg by blast
  from wire_next(2) show ?case
  proof cases
    case (accepted r w nonce clock now c res t l)
    then show ?thesis using wired_accepted [of cr w l nil nonce clock now r c res t] wire_next(3) cfg by simp
  next
    case (dialed a w nonce clock now j d res t l)
    then show ?thesis using wired_dialed [of cr w l nil nonce clock now j a d res t] wire_next(3) cfg by simp
  next
    case (tables w w' l)
    then show ?thesis using tables_identities [of reach w w'] wire_next(3) by (auto simp: wired_def)
  qed
qed

section \<open>Properties\<close>

text \<open>
  C24: Whoever is in the table of peers has shown who it is. In every state that the transport reaches
  when its connections go through \<^verbatim>\<open>handleInbound\<close> and \<^verbatim>\<open>handleOutbound\<close>, whatever arrives on
  them, a peer stands in the table under the id of its public key, and on the connection that brought
  it a message arrived which repeats the nonce drawn there and carries a signature over it that this
  key verifies. Such a state is also one of the tables alone, so that their limits hold in it.
\<close>

theorem peers_authenticated:
  assumes "wire_reachable reach cr nil cfg (w, l)" "map_of (tr_peers (wd_tr w)) i = Some p"
  shows "tcp_reachable reach cfg w \<and> pc_id p = i \<and> i \<noteq> tr_localID (wd_tr w) \<and>
    NodeIDFromPublicKey (cr_sha cr) (pc_pubKey p) = Inr i \<and>
    (\<exists>s \<in> set l. ss_peer s = (i, pc_listenAddr p, pc_pubKey p) \<and> vouched cr (default_config cfg) s)"
proof -
  have r: "tcp_reachable reach cfg w" using wire_tcp [OF assms(1)] by simp
  have m: "(i, p) \<in> set (tr_peers (wd_tr w))" using assms(2) by (rule map_of_SomeD)
  then have "(i, pc_id p, pc_outbound p, pc_remote p) \<in> set (peer_view (wd_tr w))" by (force simp: peer_view_def)
  then have "pc_id p = i" "i \<noteq> tr_localID (wd_tr w)"
    using tcp_reachable_inv [OF r] unfolding tcp_inv_def tr_ok_def view_ok_def by fastforce+
  moreover have "(i, pc_listenAddr p, pc_pubKey p) \<in> identities (wd_tr w)" using m by (force simp: identities_def)
  then obtain s where "s \<in> set l" "ss_peer s = (i, pc_listenAddr p, pc_pubKey p)" "vouched cr (default_config cfg) s"
    using wire_wired [OF assms(1)] by (fastforce simp: wired_def)
  moreover from this have "NodeIDFromPublicKey (cr_sha cr) (pc_pubKey p) = Inr i" by (simp add: vouched_def)
  ultimately show ?thesis using r by blast
qed

text \<open>Node 2 listens on localhost:7000 and accepts node 1.\<close>

definition demo_wire_config :: tcp_config where
  "demo_wire_config = demo_config\<lparr>cf_ListenAddr := ''localhost:7000'',
     cf_Identity := Some \<lparr>id_NodeID = demo_id 2, id_PublicKey = replicate 32 2, id_PrivateKey = replicate 64 2\<rparr>\<rparr>"

definition demo_wire :: transport where
  "demo_wire = demo_transport\<lparr>tr_cfg := default_config demo_wire_config, tr_localID := demo_id 2\<rparr>"

definition demo_conn :: conn where
  "demo_conn = \<lparr>cn_in = demo_hello @ demo_auth @ [], cn_out = [], cn_writes = Suc 0\<rparr>"

definition demo_accepted :: transport where
  "demo_accepted = demo_wire\<lparr>tr_ipCount := [''127.0.0.1'' \<mapsto> 1],
     tr_peers := [(demo_id 1, newPeerConn (demo_id 1) ''localhost:7000'' (replicate 32 1) ''127.0.0.1:5'' False)],
     tr_addrBook := [(''localhost:7000'', \<lparr>ai_lastSeen = 0, ai_nextDial = 0\<rparr>)]\<rparr>"
lemma demo_wire_cfg:
  "cf_ListenAddr (default_config demo_wire_config) = ''localhost:7000''" "cf_Magic (default_config demo_wire_config) = ''simchain-go''"
  "cf_Version (default_config demo_wire_config) = 1" "cf_MaxMessageSize (default_config demo_wire_config) = 2097152"
  "cf_MaxPeers (default_config demo_wire_config) = 8" "cf_OutboundPeers (default_config demo_wire_config) = 4"
  "cf_MaxConnsPerIP (default_config demo_wire_config) = 2" "maxOutbound (default_config demo_wire_config) = 4"
  "cf_Identity (default_config demo_wire_config) = Some \<lparr>id_NodeID = demo_id 2, id_PublicKey = replicate 32 2, id_PrivateKey = replicate 64 2\<rparr>"
  by (simp_all add: maxOutbound_def Let_def default_limits)
    (simp_all add: default_config_def set_default_def demo_wire_config_def demo_config_def)

lemma demo_wire_start: "tcp_start demo_wire_config \<lparr>wd_tr = demo_wire, wd_in = [], wd_cands = [], wd_started = [], wd_out = [], wd_dialed = []\<rparr>"
proof -
  have "isLoopbackAddr ''localhost:7000''" by (simp add: isLoopbackAddr_def SplitHostPort_def split_rest_def)
  moreover have "cf_Identity demo_wire_config = Some \<lparr>id_NodeID = demo_id 2, id_PublicKey = replicate 32 2, id_PrivateKey = replicate 64 2\<rparr>"
    "cf_ListenAddr demo_wire_config \<noteq> ''''" by (simp_all add: demo_wire_config_def)
  moreover have "demo_id 2 \<noteq> ''''" by code_simp
  ultimately show ?thesis
    by (simp add: tcp_start_def tcp_New_def tcp_Start_def tcp_Register_def Let_def demo_wire_cfg demo_wire_def demo_transport_def)
qed

lemma demo_wire_accepted:
  "accept_finish demo_crypto (\<lambda>_. False) demo_nonce (\<lambda>_. 0) 0 ''127.0.0.1:5'' demo_conn (demo_wire\<lparr>tr_ipCount := [''127.0.0.1'' \<mapsto> 1]\<rparr>)
     = Some (Some ((demo_id 1, ''localhost:7000'', replicate 32 1), []), demo_accepted)"
proof -
  let ?t = "demo_wire\<lparr>tr_ipCount := [''127.0.0.1'' \<mapsto> 1]\<rparr>"
  have hs: "hs_of ?t = Some (demo_node 2 ''localhost:7000'')"
    by (simp add: hs_of_def demo_wire_def demo_wire_cfg demo_node_def)
  have v: "TrimSpace ''localhost:7000'' = ''localhost:7000''" "validTCPAddr ''localhost:7000''" "isLoopbackAddr ''localhost:7000''" by code_simp+
  have "demo_id 1 \<noteq> ''''" "demo_id 1 \<noteq> demo_id 2" by code_simp+
  then have "inbound_done 0 (newPeerConn (demo_id 1) ''localhost:7000'' (replicate 32 1) ''127.0.0.1:5'' False) ?t = (True, demo_accepted)"
    by (simp add: inbound_done_def addPeer_def Let_def newPeerConn_def demo_accepted_def demo_wire_def demo_transport_def
        demo_wire_cfg inboundCount_def observeAddr_def v)
  then show ?thesis using demo_inbound by (simp add: accept_finish_def hs demo_conn_def)
qed

lemma demo_wire_reachable:
  "wire_reachable (\<lambda>a r. False) demo_crypto (\<lambda>_. False) demo_wire_config
     (\<lparr>wd_tr = demo_accepted, wd_in = [], wd_cands = [], wd_started = [], wd_out = [], wd_dialed = []\<rparr>,
      [\<lparr>ss_peer = (demo_id 1, ''localhost:7000'', replicate 32 1), ss_nonce = demo_nonce, ss_arrived = cn_in demo_conn\<rparr>])"
proof -
  let ?R = "wire_reachable (\<lambda>a r. False) demo_crypto (\<lambda>_. False) demo_wire_config" let ?r = "''127.0.0.1:5''"
  let ?w = "\<lambda>t rs. \<lparr>wd_tr = t, wd_in = rs, wd_cands = [], wd_started = [], wd_out = [], wd_dialed = []\<rparr>"
  let ?t = "demo_wire\<lparr>tr_ipCount := [''127.0.0.1'' \<mapsto> 1]\<rparr>"
  have "?R (?w demo_wire [], [])" using demo_wire_start by (rule wire_init)
  moreover have "inbound_begin ?r demo_wire = (True, ?t)"
    by (simp add: inbound_begin_def demo_hosts demo_loopback trackIP_def Let_def demo_wire_def demo_transport_def demo_wire_cfg)
  then have "tcp_step (\<lambda>a r. False) (?w demo_wire []) (?w ?t [?r])"
    using tcp_step.accept [of ?r "?w demo_wire []" True ?t] by simp
  then have "wire_step (\<lambda>a r. False) demo_crypto (\<lambda>_. False) (?w demo_wire [], []) (?w ?t [?r], [])" by (rule tables) simp
  ultimately have "?R (?w ?t [?r], [])" by (rule wire_next)
  moreover have "wire_step (\<lambda>a r. False) demo_crypto (\<lambda>_. False) (?w ?t [?r], [])
     (?w demo_accepted [], [\<lparr>ss_peer = (demo_id 1, ''localhost:7000'', replicate 32 1), ss_nonce = demo_nonce, ss_arrived = cn_in demo_conn\<rparr>])"
    using accepted [of ?r "?w ?t [?r]" demo_crypto "\<lambda>_. False" demo_nonce "\<lambda>_. 0" 0 demo_conn, OF _ _] demo_wire_accepted
    by (fastforce simp: log_session_def)
  ultimately show ?thesis by (rule wire_next)
qed

theorem peers_authenticated_witness:
  "vouched demo_crypto (default_config demo_wire_config)
     \<lparr>ss_peer = (demo_id 1, ''localhost:7000'', replicate 32 1), ss_nonce = demo_nonce, ss_arrived = cn_in demo_conn\<rparr>"
  using peers_authenticated [OF demo_wire_reachable, of "demo_id 1"] by (simp add: demo_accepted_def newPeerConn_def)

end
