(* ===== verification/Cli.thy ===== *)
theory Cli
  imports Connect TcpMail NodeProps
begin

text \<open>
  \<^verbatim>\<open>cmd/cli/main.go\<close>: the client that submits one transaction to a TCP node. Generating the key
  pair and dialing may fail; the connection, the nonce, the readings of the clock (0 to 3 in the
  handshake) and the random bytes of the transaction id are arguments. The log lines are left out.
\<close>

datatype cli_error = MissingData | KeyFailed | ConnectFailed | HandshakeFailed hs_error | SendFailed hs_error | UnknownCmd string

definition cli_config :: "string \<Rightarrow> byte list \<Rightarrow> byte list \<Rightarrow> hs_config" where
  "cli_config nodeID pub priv =
     \<lparr>hc_ID = nodeID, hc_Priv = priv, hc_Pub = pub, hc_Listen = ''127.0.0.1:0'', hc_Magic = ''simchain-go'', hc_Version = 1,
      hc_Max = 2097152\<rparr>"

definition submit_message :: "string \<Rightarrow> string \<Rightarrow> gotime \<Rightarrow> transaction \<Rightarrow> message" where
  "submit_message nodeID peerID now tx =
     \<lparr>msg_Type = MsgTx, msg_From = nodeID, msg_To = peerID, msg_Timestamp = UnixMilli now, msg_TraceID = '''',
      msg_Payload = TxPayload tx\<rparr>"

text \<open>An id of a key of the wrong length is ignored: it is empty then.\<close>

definition cli_main :: "crypto \<Rightarrow> nils \<Rightarrow> (byte list \<times> byte list) option \<Rightarrow> conn option \<Rightarrow> byte list \<Rightarrow> (nat \<Rightarrow> gotime) \<Rightarrow>
    byte list \<Rightarrow> string \<Rightarrow> string \<Rightarrow> (cli_error + unit) \<times> conn option" where
  "cli_main cr nil generated dial nonce now rnd cmd data =
     (if cmd = ''submit'' \<and> data = '''' then (Inl MissingData, None)
      else case generated of
        None \<Rightarrow> (Inl KeyFailed, None)
      | Some (pub, priv) \<Rightarrow>
          let nodeID = (case NodeIDFromPublicKey (cr_sha cr) pub of Inl _ \<Rightarrow> '''' | Inr i \<Rightarrow> i) in
          (case dial of
             None \<Rightarrow> (Inl ConnectFailed, None)
           | Some c \<Rightarrow>
               (case HandshakeOutbound cr nil (cli_config nodeID pub priv) nonce now c of
                  (Inl err, c) \<Rightarrow> (Inl (HandshakeFailed err), Some c)
                | (Inr (peerID, _, _), c) \<Rightarrow>
                    if cmd = ''submit'' then
                      (let tx = NewTransaction (now 4) (now 5) rnd data in
                       (case WriteFrame nil c (submit_message nodeID peerID (now 6) tx) 2097152 of
                          (Inl err, c) \<Rightarrow> (Inl (SendFailed err), Some c)
                        | (Inr _, c) \<Rightarrow> (Inr (), Some c)))
                    else (Inl (UnknownCmd cmd), Some c))))"

section \<open>The id of a new transaction\<close>

lemma utf8_coerce_newTxID: "utf8_coerce (newTxID now rnd) = newTxID now rnd" "newTxID now rnd \<noteq> ''''"
proof -
  have d: "list_all (\<lambda>c. of_char c < (128::nat)) (dec_nat n)" for n
  proof (induction n rule: dec_nat.induct)
    case (1 n)
    then show ?case using digit_char_ascii [of n] digit_char_ascii [of "n mod 10"]
      by (subst dec_nat.simps) auto
  qed
  have "list_all (\<lambda>c. of_char c < (128::nat)) (newTxID now rnd)"
    using d hex_ascii [of rnd] by (auto simp: newTxID_def dec_int_def list_all_iff)
  then show "utf8_coerce (newTxID now rnd) = newTxID now rnd" by (rule utf8_coerce_ascii)
  show "newTxID now rnd \<noteq> ''''" by (simp add: newTxID_def)
qed

section \<open>From the client into the mempool\<close>

text \<open>
  What the node checks before the read loop of a connection from \<open>remote\<close> starts: at \<^verbatim>\<open>Accept\<close> the address and
  the limit per host, after the handshake the id of the peer and the limits of the table.
\<close>

definition admits :: "string \<Rightarrow> string \<Rightarrow> transport \<Rightarrow> bool" where
  "admits remote i t \<longleftrightarrow>
     (case SplitHostPort remote of Inl _ \<Rightarrow> False
      | Inr (host, _) \<Rightarrow> go_get 0 (tr_ipCount t) host < cf_MaxConnsPerIP (tr_cfg t)) \<and> isLoopbackConn remote
     \<and> i \<noteq> tr_localID t \<and> i \<notin> set (al_keys (tr_peers t)) \<and> int (length (tr_peers t)) < cf_MaxPeers (tr_cfg t)
     \<and> (let maxIn = cf_MaxPeers (tr_cfg t) - maxOutbound (tr_cfg t) in maxIn < 0 \<or> inboundCount t < maxIn)"

definition pool_room :: "transaction \<Rightarrow> mempool \<Rightarrow> bool" where
  "pool_room tx mp \<longleftrightarrow> tx_ID tx \<notin> mp_seen mp \<and> int (length (mp_txs mp)) < mc_MaxTxs (mp_cfg mp)
     \<and> mp_totalBytes mp + estimateTxSize tx \<le> mc_MaxBytes (mp_cfg mp)"

lemma Add_room:
  assumes "pool_room tx mp"
  obtains mp' where "Add now tx mp = (True, mp')" "map te_tx (mp_txs mp') = map te_tx (mp_txs mp) @ [tx]"
  using assms that by (simp add: pool_room_def Add_def Let_def)

lemma inbound_admitted:
  assumes "admits remote i t" "i \<noteq> ''''"
  obtains t1 where "inbound_begin remote t = (True, t1)" "tr_cfg t1 = tr_cfg t" "tr_localID t1 = tr_localID t" "tr_handler t1 = tr_handler t"
    "tr_stopped t1 = tr_stopped t" "\<forall>now listen pub. \<exists>u. inbound_done now (newPeerConn i listen pub remote False) t1 = (True, u) \<and>
       tr_cfg u = tr_cfg t \<and> tr_localID u = tr_localID t \<and> tr_handler u = tr_handler t \<and> tr_stopped u = tr_stopped t \<and> \<not> conn_closed i u"
proof -
  obtain host port where h: "SplitHostPort remote = Inr (host, port)" "go_get 0 (tr_ipCount t) host < cf_MaxConnsPerIP (tr_cfg t)"
    using assms(1) by (auto simp: admits_def split: sum.splits)
  let ?t1 = "t\<lparr>tr_ipCount := (tr_ipCount t)(host \<mapsto> go_get 0 (tr_ipCount t) host + 1)\<rparr>"
  have b: "inbound_begin remote t = (True, ?t1)"
    using h assms(1) by (simp add: inbound_begin_def trackIP_def Let_def admits_def)
  have a: "addPeer (newPeerConn i listen pub remote False) ?t1
      = (True, ?t1\<lparr>tr_peers := al_put i (newPeerConn i listen pub remote False) (tr_peers t)\<rparr>)" for listen pub
    using assms by (auto simp: addPeer_def admits_def newPeerConn_def Let_def inboundCount_def)
  have o: "tr_cfg (observeAddr now l u) = tr_cfg u" "tr_localID (observeAddr now l u) = tr_localID u" "tr_handler (observeAddr now l u) = tr_handler u"
    "tr_stopped (observeAddr now l u) = tr_stopped u" "tr_peers (observeAddr now l u) = tr_peers u" for now l u
    by (simp_all add: observeAddr_def Let_def)
  show ?thesis
    by (rule that [OF b]) (simp_all add: inbound_done_def a o conn_closed_def map_of_al_put, simp add: newPeerConn_def)
qed

lemma HandleMessage_Tx:
  assumes "msg_Type m = MsgTx" "msg_Payload m = TxPayload tx" "msg_TraceID m = ''''" "tx_ID tx \<noteq> ''''" "\<not> hasTx n (tx_ID tx)"
    and "Add now tx (nd_mempool n) = (True, mp)" "sc_Transport (sy_cfg s)"
  shows "HandleMessage sha ord od now m (s, n) = Some ((forget_tx_request (tx_ID tx) s, rememberTx tx (n\<lparr>nd_mempool := mp\<rparr>)),
     [Net (Broadcast (self_id s) (inv_message now (self_id s) MsgInvTx (InvTxPayload (tx_ID tx))))])"
  using assms by (simp add: HandleMessage_def tryDeliverRPC_def HandleTx_def acceptTxFromPeer_def Let_def forget_tx_request_def)

section \<open>Properties\<close>

text \<open>
  C37: A submission arrives in the mempool. Let the client have a key pair and dial a node of its network that
  runs, has a handler, and admits it: the connection is from a loopback address with a place left for its host,
  the id of its key is neither the node's nor that of a peer, and the tables have a place for an inbound peer.
  When the node answers the \<^verbatim>\<open>Hello\<close>, the client succeeds. The node accepts the connection, and its handler of
  inbound connections, run on what the client wrote, hands the node exactly one message, the transaction (its
  payload coerced to UTF-8) in the name of the client's key, and forgets the peer when the connection ends. A
  node that does not know the transaction and has room for it in the mempool appends it to the pending
  transactions, remembers it and announces it. (The frames must fit the limits of both sides; the tables are
  changed by nobody else in between.)
\<close>

theorem cli_submit_accepted:
  assumes "honest cr b" "hc_Magic b = ''simchain-go''" "hc_Version b = 1"
    and "NodeIDFromPublicKey (cr_sha cr) pub = Inr i" "\<forall>x. cr_verify cr pub x (cr_sign cr priv x)"
    and "nonceA \<noteq> []" "nonceB \<noteq> []" "data \<noteq> ''''"
    and a: "a = cli_config i pub priv" and tx: "tx = NewTransaction (nowA 4) (nowA 5) rnd data"
    and hello: "hello = hello_message a nonceA (nowA 0) (nowA 1)"
    and ack: "ack = ack_message cr b i nonceB nonceA (nowB 0) (nowB 1)"
    and auth: "auth = auth_message cr a (hc_ID b) nonceB (nowA 2) (nowA 3)"
    and m: "m = submit_message i (hc_ID b) (nowA 6) tx"
    and fit: "\<forall>x \<in> {hello, ack, auth, m}. fits nil 2097152 x \<and> fits nil (hc_Max b) x"
    and node: "hs_of u = Some b" "tr_handler u" "\<not> tr_stopped u" "admits remote i u"
    and lim: "\<forall>wait k. limiter = Some wait \<longrightarrow> 0 < k \<longrightarrow> k \<le> hc_Max b \<longrightarrow> wait k"
    and room: "sc_Transport (sy_cfg s)" "\<not> hasTx n (tx_ID tx)" "pool_room (json_tx tx) (nd_mempool n)"
  shows "\<exists>wire u1 u2 mp. cli_main cr nil (Some (pub, priv)) (Some \<lparr>cn_in = frame nil ack, cn_out = [], cn_writes = 3\<rparr>) nonceA nowA rnd ''submit'' data
       = (Inr (), Some \<lparr>cn_in = [], cn_out = wire, cn_writes = 0\<rparr>) \<and>
     inbound_begin remote u = (True, u1) \<and>
     handleInbound cr nil nonceB nowB limiter sh remote \<lparr>cn_in = wire, cn_out = [], cn_writes = Suc k\<rparr> u1
       = Some ([(json_message m)\<lparr>msg_From := i\<rparr>], [], u2) \<and> i \<notin> set (al_keys (tr_peers u2)) \<and>
     map te_tx (mp_txs mp) = map te_tx (mp_txs (nd_mempool n)) @ [json_tx tx] \<and>
     HandleMessage sha ord od t ((json_message m)\<lparr>msg_From := i\<rparr>) (s, n)
       = Some ((forget_tx_request (tx_ID tx) s, rememberTx (json_tx tx) (n\<lparr>nd_mempool := mp\<rparr>)),
           [Net (Broadcast (self_id s) (inv_message t (self_id s) MsgInvTx (InvTxPayload (tx_ID tx))))])"
proof -
  have c: "hc_ID a = i" "hc_Priv a = priv" "hc_Pub a = pub" "hc_Listen a = ''127.0.0.1:0''" "hc_Magic a = ''simchain-go''"
    "hc_Version a = 1" "hc_Max a = 2097152" by (simp_all add: a cli_config_def)
  have "valid_utf8 ''simchain-go''" "valid_utf8 ''127.0.0.1:0''" by (rule ascii_valid; simp)+
  then have h: "honest cr a" using assms(4,5) by (simp add: honest_def c go_int_def)
  have net: "same_net a b" using assms(2,3) by (simp add: same_net_def c)
  let ?wire = "frame nil hello @ frame nil auth @ frame nil m"
  have o: "HandshakeOutbound cr nil a nonceA nowA \<lparr>cn_in = frame nil ack, cn_out = [], cn_writes = 3\<rparr>
      = (Inr (hc_ID b, hc_Listen b, hc_Pub b), \<lparr>cn_in = [], cn_out = frame nil hello @ frame nil auth, cn_writes = 1\<rparr>)"
    using outbound_honest [OF h assms(1) net assms(7) hello ack [folded c(1)] auth, of nil "[]" 1] fit
    by (simp add: c eval_nat_numeral)
  have w: "cli_main cr nil (Some (pub, priv)) (Some \<lparr>cn_in = frame nil ack, cn_out = [], cn_writes = 3\<rparr>) nonceA nowA rnd ''submit'' data
       = (Inr (), Some \<lparr>cn_in = [], cn_out = ?wire, cn_writes = 0\<rparr>)"
    using o fit assms(4,8) WriteFrame_fits [of nil 2097152 m "[]" "frame nil hello @ frame nil auth" 0]
    by (simp add: cli_main_def a [symmetric] m [symmetric] tx [symmetric] Let_def)
  have inb: "HandshakeInbound cr nil b nonceB nowB \<lparr>cn_in = ?wire, cn_out = [], cn_writes = Suc k\<rparr>
       = (Inr (i, ''127.0.0.1:0'', pub), \<lparr>cn_in = frame nil m, cn_out = frame nil ack, cn_writes = k\<rparr>)"
    using inbound_honest [OF h assms(1) net assms(6) hello ack [folded c(1)] auth, of nil "frame nil m" k] fit by (simp add: c)
  have ids: "utf8_coerce (hc_ID b) = hc_ID b" "i \<noteq> ''''" using node_id_ascii assms(1,4) by (auto simp: honest_def)
  have cf: "cf_MaxMessageSize (tr_cfg u) = hc_Max b" "tr_localID u = hc_ID b" using node(1) by (auto simp: hs_of_def)
  obtain u1 where u1: "inbound_begin remote u = (True, u1)" "tr_cfg u1 = tr_cfg u" "tr_localID u1 = tr_localID u"
    "tr_handler u1 = tr_handler u" "tr_stopped u1 = tr_stopped u" "\<forall>now listen pub. \<exists>v. inbound_done now (newPeerConn i listen pub remote False) u1 = (True, v) \<and>
       tr_cfg v = tr_cfg u \<and> tr_localID v = tr_localID u \<and> tr_handler v = tr_handler u \<and> tr_stopped v = tr_stopped u \<and> \<not> conn_closed i v"
    by (rule inbound_admitted [OF node(4) ids(2)])
  obtain v where v: "inbound_done (nowB 4) (newPeerConn i ''127.0.0.1:0'' pub remote False) u1 = (True, v)" "tr_cfg v = tr_cfg u"
    "tr_localID v = tr_localID u" "tr_handler v = tr_handler u" "tr_stopped v = tr_stopped u" "\<not> conn_closed i v" using u1(6) by metis
  have "hs_of u1 = Some b" using node(1) u1(2,3) by (simp add: hs_of_def)
  then have acc: "accept_finish cr nil nonceB nowB (nowB 4) remote \<lparr>cn_in = ?wire, cn_out = [], cn_writes = Suc k\<rparr> u1
      = Some (Some ((i, ''127.0.0.1:0'', pub), frame nil m), v)"
    using inb v(1) by (simp add: accept_finish_def)
  have s: "sendable m" "msg_To m = hc_ID b" "msg_Type m = MsgTx" by (simp_all add: m submit_message_def sendable_def)
  have "runReadLoop nil limiter (\<lambda>k. nowB (k + 5)) sh i 0 (concat [frame nil m]) v
      = (map (\<lambda>m. (json_message m)\<lparr>msg_From := i\<rparr>) [m], [], removePeer i v)"
    using fit s lim v(2-6) node(2,3) cf ids(1) assms(1)
    by (intro read_loop_delivers [where nil = nil]) (simp_all add: encodeFrame_fits honest_def)
  then have hi: "handleInbound cr nil nonceB nowB limiter sh remote \<lparr>cn_in = ?wire, cn_out = [], cn_writes = Suc k\<rparr> u1
      = Some ([(json_message m)\<lparr>msg_From := i\<rparr>], [], removePeer i v)"
    by (simp add: handleInbound_def acc)
  have gone: "i \<notin> set (al_keys (tr_peers (removePeer i v)))"
    using set_al_del_keys [of i "tr_peers v"] by (auto simp: removePeer_def Let_def untrackIP_def split: option.split)
  have j: "msg_Type (json_message m) = MsgTx" "msg_TraceID (json_message m) = ''''" "msg_Payload (json_message m) = TxPayload (json_tx tx)"
    by (simp_all add: json_message_def m submit_message_def utf8_coerce_ascii)
  have x: "tx_ID (json_tx tx) = tx_ID tx" "tx_ID tx \<noteq> ''''"
    using utf8_coerce_newTxID by (simp_all add: tx NewTransaction_def json_tx_def)
  obtain mp where mp: "Add t (json_tx tx) (nd_mempool n) = (True, mp)"
    "map te_tx (mp_txs mp) = map te_tx (mp_txs (nd_mempool n)) @ [json_tx tx]" by (rule Add_room [OF room(3)])
  have "HandleMessage sha ord od t ((json_message m)\<lparr>msg_From := i\<rparr>) (s, n)
       = Some ((forget_tx_request (tx_ID tx) s, rememberTx (json_tx tx) (n\<lparr>nd_mempool := mp\<rparr>)),
           [Net (Broadcast (self_id s) (inv_message t (self_id s) MsgInvTx (InvTxPayload (tx_ID tx))))])"
    using HandleMessage_Tx [of "(json_message m)\<lparr>msg_From := i\<rparr>" "json_tx tx" n t mp s sha ord od] j x room mp(1) by simp
  with w u1(1) hi gone mp(2) show ?thesis by blast
qed

lemma demo_cli_fits:
  "fits (\<lambda>_. False) 2097152 (hello_message (cli_config (demo_id 1) (replicate 32 1) (replicate 64 1)) demo_nonce 0 0)"
  "fits (\<lambda>_. False) 2097152 (auth_message demo_crypto (cli_config (demo_id 1) (replicate 32 1) (replicate 64 1)) (demo_id 2) demo_nonce 0 0)"
  "fits (\<lambda>_. False) 2097152 (submit_message (demo_id 1) (demo_id 2) 0 (NewTransaction 0 0 [1] ''hi''))"
  by code_simp+

definition demo_empty_node :: "syncer \<times> node" where
  "demo_empty_node = NewNode ''n'' demo_chain None
     \<lparr>nc_Difficulty = 0, nc_MaxTxPerBlock = 0, nc_SyncTimeout = 0, nc_MaxHeaders = 0, nc_GetBlocksBatchSize = 0\<rparr>"

lemma demo_admits: "hs_of demo_wire = Some (demo_node 2 ''localhost:7000'')" "tr_handler demo_wire" "\<not> tr_stopped demo_wire"
  "admits ''127.0.0.1:5'' (demo_id 1) demo_wire"
proof -
  have "demo_id 1 \<noteq> demo_id 2" by code_simp
  then show "admits ''127.0.0.1:5'' (demo_id 1) demo_wire"
    by (simp add: admits_def demo_hosts demo_loopback demo_wire_def demo_transport_def demo_wire_cfg Let_def inboundCount_def)
qed (simp_all add: hs_of_def demo_wire_def demo_wire_cfg demo_node_def demo_transport_def)

theorem cli_submit_accepted_witness:
  "\<exists>wire u1 u2 x. cli_main demo_crypto (\<lambda>_. False) (Some (replicate 32 1, replicate 64 1))
      (Some \<lparr>cn_in = demo_ack, cn_out = [], cn_writes = 3\<rparr>) demo_nonce (\<lambda>_. 0) [1] ''submit'' ''hi''
    = (Inr (), Some \<lparr>cn_in = [], cn_out = wire, cn_writes = 0\<rparr>) \<and>
    inbound_begin ''127.0.0.1:5'' demo_wire = (True, u1) \<and>
    handleInbound demo_crypto (\<lambda>_. False) demo_nonce (\<lambda>_. 0) None id ''127.0.0.1:5'' \<lparr>cn_in = wire, cn_out = [], cn_writes = 1\<rparr> u1 = Some ([x], [], u2)"
proof -
  let ?tx = "NewTransaction 0 0 [1] ''hi''"
  obtain s n where sn: "demo_empty_node = (s, n)" by fastforce
  then have n: "sc_Transport (sy_cfg s)" "\<not> hasTx n (tx_ID ?tx)" "nd_mempool n = New DefaultConfig"
    by (auto simp: demo_empty_node_def NewNode_def NewSyncer_def Let_def hasTx_def)
  have id: "tx_ID ?tx = ''0-01''"
    by (simp add: NewTransaction_def newTxID_def UnixNano_def dec_int_def dec_nat.simps digit_char_def EncodeToString_def hex_byte_def)
  have p: "pool_room (json_tx ?tx) (nd_mempool n)" unfolding n(3)
    by (simp add: pool_room_def New_def DefaultConfig_def Let_def estimateTxSize_def json_tx_def id utf8_coerce_ascii)
      (simp add: NewTransaction_def utf8_coerce_ascii)
  have keys: "NodeIDFromPublicKey (cr_sha demo_crypto) (replicate 32 1) = Inr (demo_id 1)"
    "\<forall>x. cr_verify demo_crypto (replicate 32 1) x (cr_sign demo_crypto (replicate 64 1) x)"
    using demo_honest [of 1] by (simp_all add: honest_def demo_ids)
  from cli_submit_accepted [where b = "demo_node 2 ''localhost:7000''" and nonceB = demo_nonce and nowB = "\<lambda>_. 0" and nil = "\<lambda>_. False"
      and nowA = "\<lambda>_. 0" and t = 0 and k = 0 and sha = demo_digest and ord = "\<lambda>_ xs. xs" and limiter = None and sh = id,
      OF demo_honest _ _ keys demo_nonce_nonempty demo_nonce_nonempty _ refl refl refl refl refl refl _ demo_admits _ n(1,2) p]
  show ?thesis using demo_cli_fits demo_fits_ack unfolding demo_ack_def by (simp add: demo_ids) blast
qed

end
