(* ===== verification/Lifecycle.thy ===== *)
theory Lifecycle
  imports Prelude
begin

text \<open>
  Starting and stopping the goroutines: \<^verbatim>\<open>Start\<close>, \<^verbatim>\<open>Stop\<close> and \<^verbatim>\<open>loop\<close> of
  \<^verbatim>\<open>internal/syncer/syncer.go\<close>, and \<^verbatim>\<open>StartMining\<close>, \<^verbatim>\<open>StopMining\<close> and the end of
  \<^verbatim>\<open>minerLoop\<close> of \<^verbatim>\<open>internal/node/node.go\<close>. Channels that are only closed are sets of
  numbers: the channels made by the \<open>k\<close>-th start have the number \<open>k\<close>. Each statement that touches a
  shared field is one step; what the loops do between two waits is in the theories \<open>Syncer\<close> and \<open>Node\<close>.
\<close>

section \<open>The loop of the syncer\<close>

text \<open>
  A loop is about to begin, waits for the ticker or for a stop channel (the one the field held when it
  began to wait), works, or has ended. It keeps the done channel the field held when it began.
\<close>

datatype loop = Begun | Waits nat nat | Works nat | Ended

text \<open>A call of \<^verbatim>\<open>Stop\<close> after its critical section: it has to close its stop channel, or waits for its done channel.\<close>

datatype stopper = Closing nat | Awaits nat

record sync_life =
  sl_started :: bool
  sl_made :: nat
  sl_stopCh :: "nat set"
  sl_doneCh :: "nat set"
  sl_loops :: "loop list"
  sl_stoppers :: "stopper list"
  sl_panic :: bool

definition life_new :: sync_life where
  "life_new = \<lparr>sl_started = False, sl_made = 0, sl_stopCh = {}, sl_doneCh = {}, sl_loops = [], sl_stoppers = [], sl_panic = False\<rparr>"

definition sync_Start :: "sync_life \<Rightarrow> sync_life" where
  "sync_Start s =
     (if sl_started s then s
      else s\<lparr>sl_started := True, sl_made := sl_made s + 1, sl_loops := sl_loops s @ [Begun]\<rparr>)"

definition sync_Stop :: "sync_life \<Rightarrow> sync_life" where
  "sync_Stop s =
     (if \<not> sl_started s then s
      else s\<lparr>sl_started := False, sl_stoppers := sl_stoppers s @ [Closing (sl_made s)]\<rparr>)"

text \<open>Closing a closed channel panics.\<close>

definition close_stop :: "nat \<Rightarrow> sync_life \<Rightarrow> sync_life" where
  "close_stop k s = s\<lparr>sl_stopCh := insert k (sl_stopCh s), sl_panic := (sl_panic s \<or> k \<in> sl_stopCh s)\<rparr>"

definition close_done :: "nat \<Rightarrow> sync_life \<Rightarrow> sync_life" where
  "close_done k s = s\<lparr>sl_doneCh := insert k (sl_doneCh s), sl_panic := (sl_panic s \<or> k \<in> sl_doneCh s)\<rparr>"

definition set_loop :: "nat \<Rightarrow> loop \<Rightarrow> sync_life \<Rightarrow> sync_life" where
  "set_loop i l s = s\<lparr>sl_loops := (sl_loops s)[i := l]\<rparr>"

text \<open>The steps; \<open>seq\<close> says that no call begins while a \<^verbatim>\<open>Stop\<close> is under way.\<close>

inductive life_step :: "bool \<Rightarrow> sync_life \<Rightarrow> sync_life \<Rightarrow> bool" for seq where
  call_start: "seq \<longrightarrow> sl_stoppers s = [] \<Longrightarrow> life_step seq s (sync_Start s)"
| call_stop: "seq \<longrightarrow> sl_stoppers s = [] \<Longrightarrow> life_step seq s (sync_Stop s)"
| stop_close: "i < length (sl_stoppers s) \<Longrightarrow> sl_stoppers s ! i = Closing k \<Longrightarrow>
    life_step seq s (close_stop k (s\<lparr>sl_stoppers := (sl_stoppers s)[i := Awaits k]\<rparr>))"
| stop_return: "i < length (sl_stoppers s) \<Longrightarrow> sl_stoppers s ! i = Awaits k \<Longrightarrow> k \<in> sl_doneCh s \<Longrightarrow>
    life_step seq s (s\<lparr>sl_stoppers := take i (sl_stoppers s) @ drop (Suc i) (sl_stoppers s)\<rparr>)"
| loop_begin: "i < length (sl_loops s) \<Longrightarrow> sl_loops s ! i = Begun \<Longrightarrow>
    life_step seq s (set_loop i (Waits (sl_made s) (sl_made s)) s)"
| loop_tick: "i < length (sl_loops s) \<Longrightarrow> sl_loops s ! i = Waits k d \<Longrightarrow> life_step seq s (set_loop i (Works d) s)"
| loop_again: "i < length (sl_loops s) \<Longrightarrow> sl_loops s ! i = Works d \<Longrightarrow> life_step seq s (set_loop i (Waits (sl_made s) d) s)"
| loop_end: "i < length (sl_loops s) \<Longrightarrow> sl_loops s ! i = Waits k d \<Longrightarrow> k \<in> sl_stopCh s \<Longrightarrow>
    life_step seq s (close_done d (set_loop i Ended s))"

inductive life_reachable :: "bool \<Rightarrow> sync_life \<Rightarrow> bool" for seq where
  life_init: "life_reachable seq life_new"
| life_next: "life_reachable seq s \<Longrightarrow> life_step seq s s' \<Longrightarrow> life_reachable seq s'"

inductive_cases life_stepE: "life_step seq s s'"

section \<open>Calls one after the other\<close>

text \<open>
  With sequential calls there are four situations: stopped, running, stopping before and after the
  channel is closed. All loops but the newest have ended, and the newest uses the newest channels.
\<close>

definition young :: "nat \<Rightarrow> loop \<Rightarrow> bool" where
  "young k l \<longleftrightarrow> l = Begun \<or> l = Waits k k \<or> l = Works k"

definition newest :: "sync_life \<Rightarrow> loop" where
  "newest s = (if sl_loops s = [] then Ended else last (sl_loops s))"

definition life_ok :: "sync_life \<Rightarrow> bool" where
  "life_ok s \<longleftrightarrow> \<not> sl_panic s \<and> length (sl_loops s) = sl_made s \<and> (\<forall>l \<in> set (butlast (sl_loops s)). l = Ended) \<and>
     (let k = sl_made s in
      (sl_started s \<and> sl_stoppers s = [] \<and> young k (newest s) \<and> 0 < k \<and> sl_stopCh s = {0<..<k} \<and> sl_doneCh s = {0<..<k}) \<or>
      (\<not> sl_started s \<and> sl_stoppers s = [] \<and> newest s = Ended \<and> sl_stopCh s = {0<..k} \<and> sl_doneCh s = {0<..k}) \<or>
      (\<not> sl_started s \<and> sl_stoppers s = [Closing k] \<and> young k (newest s) \<and> 0 < k \<and> sl_stopCh s = {0<..<k} \<and> sl_doneCh s = {0<..<k}) \<or>
      (\<not> sl_started s \<and> sl_stoppers s = [Awaits k] \<and> young k (newest s) \<and> 0 < k \<and> sl_stopCh s = {0<..k} \<and> sl_doneCh s = {0<..<k}) \<or>
      (\<not> sl_started s \<and> sl_stoppers s = [Awaits k] \<and> newest s = Ended \<and> 0 < k \<and> sl_stopCh s = {0<..k} \<and> sl_doneCh s = {0<..k}))"

lemma newest_update [simp]:
  "newest (s\<lparr>sl_stoppers := a\<rparr>) = newest s" "newest (s\<lparr>sl_started := b\<rparr>) = newest s"
  "newest (close_stop k s) = newest s" "newest (close_done k s) = newest s"
  by (simp_all add: newest_def close_stop_def close_done_def)

lemma loop_index:
  assumes "life_ok s" "i < length (sl_loops s)" "sl_loops s ! i \<noteq> Ended"
  shows "Suc i = sl_made s" "newest s = sl_loops s ! i" "newest (set_loop i l s) = l" "butlast ((sl_loops s)[i := l]) = butlast (sl_loops s)"
proof -
  have l: "length (sl_loops s) = sl_made s" "\<forall>l \<in> set (butlast (sl_loops s)). l = Ended" using assms(1) by (auto simp: life_ok_def)
  show i: "Suc i = sl_made s"
  proof (rule ccontr)
    assume "Suc i \<noteq> sl_made s"
    then have j: "i < length (butlast (sl_loops s))" using assms(2) l(1) by simp
    then have "butlast (sl_loops s) ! i = Ended" using l(2) nth_mem by blast
    then show False using assms(3) j by (simp add: nth_butlast)
  qed
  then have ne: "sl_loops s \<noteq> []" "i = length (sl_loops s) - 1" using l(1) assms(2) by auto
  show "newest s = sl_loops s ! i" using ne by (simp add: newest_def last_conv_nth)
  show "newest (set_loop i l s) = l" using ne by (simp add: newest_def set_loop_def last_list_update)
  show "butlast ((sl_loops s)[i := l]) = butlast (sl_loops s)" using ne by (simp add: butlast_list_update)
qed

lemma all_ended:
  assumes "life_ok s" "newest s = Ended"
  shows "\<forall>l \<in> set (sl_loops s). l = Ended"
proof (cases "sl_loops s = []")
  case False
  then have "set (sl_loops s) = insert (last (sl_loops s)) (set (butlast (sl_loops s)))"
    by (metis Un_insert_right append_butlast_last_id list.simps(15) set_append sup_bot_right empty_set)
  then show ?thesis using assms False by (auto simp: life_ok_def newest_def)
qed simp

lemma up_to: "0 < (k::nat) \<Longrightarrow> insert k {0<..<k} = {0<..k}" "{0<..<Suc k} = {0<..k}"
  by auto

lemma start_ok:
  assumes "life_ok s" "sl_stoppers s = []"
  shows "life_ok (sync_Start s)"
proof (cases "sl_started s")
  case False
  then have n: "newest s = Ended" using assms by (auto simp: life_ok_def Let_def)
  show ?thesis using all_ended [OF assms(1) n] False assms
    by (simp add: life_ok_def Let_def sync_Start_def newest_def young_def up_to)
qed (simp add: sync_Start_def assms)

lemma stop_ok:
  assumes "life_ok s" "sl_stoppers s = []"
  shows "life_ok (sync_Stop s)"
  using assms by (cases "sl_started s"; cases "sl_loops s = []")
    (auto simp: life_ok_def Let_def sync_Stop_def newest_def)

lemma close_ok:
  assumes "life_ok s" "i < length (sl_stoppers s)" "sl_stoppers s ! i = Closing k"
  shows "life_ok (close_stop k (s\<lparr>sl_stoppers := (sl_stoppers s)[i := Awaits k]\<rparr>))"
proof -
  have st: "sl_stoppers s = [Closing (sl_made s)]" "i = 0" "k = sl_made s"
    using assms by (auto simp: life_ok_def Let_def)
  have "sl_stopCh s = {0<..<sl_made s}" using assms(1) st(1) by (auto simp: life_ok_def Let_def)
  then show ?thesis using assms(1) st
    by (simp add: life_ok_def Let_def) (simp add: close_stop_def up_to)
qed

lemma return_ok:
  assumes "life_ok s" "i < length (sl_stoppers s)" "sl_stoppers s ! i = Awaits k" "k \<in> sl_doneCh s"
  shows "life_ok (s\<lparr>sl_stoppers := take i (sl_stoppers s) @ drop (Suc i) (sl_stoppers s)\<rparr>)"
proof -
  have st: "sl_stoppers s = [Awaits (sl_made s)]" "i = 0" "k = sl_made s"
    using assms by (auto simp: life_ok_def Let_def)
  have "newest s = Ended" using assms(1,4) st by (auto simp: life_ok_def Let_def)
  then show ?thesis using assms(1,4) st by (auto simp: life_ok_def Let_def)
qed

lemma set_loop_ok:
  assumes "life_ok s" "i < length (sl_loops s)" "sl_loops s ! i \<noteq> Ended" "young (sl_made s) l"
  shows "life_ok (set_loop i l s)"
proof -
  note ix = loop_index [OF assms(1-3)]
  have "newest s \<noteq> Ended" using ix(2) assms(3) by simp
  moreover have "l \<noteq> Ended" using assms(4) by (auto simp: young_def)
  ultimately show ?thesis using assms(1,4) ix(3) [of l] ix(4) [of l]
    by (simp add: life_ok_def Let_def) (simp add: set_loop_def, blast)
qed

lemma end_ok:
  assumes "life_ok s" "i < length (sl_loops s)" "sl_loops s ! i = Waits k d" "k \<in> sl_stopCh s"
  shows "life_ok (close_done d (set_loop i Ended s))"
proof -
  have ne: "sl_loops s ! i \<noteq> Ended" using assms(3) by simp
  note ix = loop_index [OF assms(1,2) ne]
  have "young (sl_made s) (newest s)" "newest s \<noteq> Ended" using assms(1) ix(2) ne by (auto simp: life_ok_def Let_def)
  then have kd: "k = sl_made s" "d = sl_made s" using ix(2) assms(3) by (auto simp: young_def)
  have st: "\<not> sl_started s" "sl_stoppers s = [Awaits (sl_made s)]" "0 < sl_made s"
    "sl_stopCh s = {0<..sl_made s}" "sl_doneCh s = {0<..<sl_made s}"
    using assms(1,4) \<open>newest s \<noteq> Ended\<close> unfolding kd by (auto simp: life_ok_def Let_def)
  have "newest (close_done d (set_loop i Ended s)) = Ended"
    using ix(3) [of Ended] by simp
  then show ?thesis using assms(1) st ix(4) [of Ended]
    by (simp add: life_ok_def Let_def kd) (simp add: close_done_def set_loop_def up_to)
qed

lemma young_loop:
  assumes "life_ok s" "i < length (sl_loops s)" "sl_loops s ! i \<noteq> Ended"
  shows "young (sl_made s) (sl_loops s ! i)"
  using loop_index(2) [OF assms] assms(1,3) by (auto simp: life_ok_def Let_def)

lemma step_ok: "life_step True s s' \<Longrightarrow> life_ok s \<Longrightarrow> life_ok s'"
proof (induction rule: life_step.induct)
  case (loop_tick i s k d)
  then show ?case using young_loop [of s i] by (intro set_loop_ok) (auto simp: young_def)
next
  case (loop_again i s d)
  then show ?case using young_loop [of s i] by (intro set_loop_ok) (auto simp: young_def)
next
  case (loop_begin i s)
  then show ?case by (intro set_loop_ok) (auto simp: young_def)
qed (auto intro: start_ok stop_ok close_ok return_ok end_ok)

lemma life_reachable_ok: "life_reachable True s \<Longrightarrow> life_ok s"
proof (induction rule: life_reachable.induct)
  case life_init
  show ?case by (auto simp: life_ok_def life_new_def newest_def)
qed (rule step_ok)

lemma one_loop_runs:
  assumes "life_reachable True s"
  shows "\<not> sl_panic s" "length (filter (\<lambda>l. l \<noteq> Ended) (sl_loops s)) \<le> 1"
    "sl_stoppers s = [] \<Longrightarrow> \<not> sl_started s \<Longrightarrow> \<forall>l \<in> set (sl_loops s). l = Ended"
proof -
  have ok: "life_ok s" using life_reachable_ok [OF assms] .
  then show "\<not> sl_panic s" by (simp add: life_ok_def)
  show "sl_stoppers s = [] \<Longrightarrow> \<not> sl_started s \<Longrightarrow> \<forall>l \<in> set (sl_loops s). l = Ended"
    using all_ended [OF ok] ok by (auto simp: life_ok_def Let_def)
  show "length (filter (\<lambda>l. l \<noteq> Ended) (sl_loops s)) \<le> 1"
  proof (cases "sl_loops s" rule: rev_cases)
    case (snoc ls l)
    then have "filter (\<lambda>l. l \<noteq> Ended) ls = []" using ok by (auto simp: life_ok_def filter_empty_conv)
    then show ?thesis using snoc by simp
  qed simp
qed

text \<open>
  A \<^verbatim>\<open>Stop\<close> that waits can return: from the loop, wherever it is, a path of its own steps leads to the
  closing of the done channel.
\<close>

lemma loop_step:
  assumes "life_ok s" "sl_stoppers s = [Awaits (sl_made s)]" "newest s \<noteq> Ended"
  shows "\<exists>s'. (life_step True)\<^sup>+\<^sup>+ s s' \<and> sl_stoppers s' = sl_stoppers s \<and> sl_made s' = sl_made s \<and>
    (newest s' = Waits (sl_made s) (sl_made s) \<and> newest s \<noteq> newest s' \<or> sl_made s \<in> sl_doneCh s')"
proof -
  let ?k = "sl_made s" let ?i = "?k - 1"
  have ne: "sl_loops s \<noteq> []" using assms(3) by (auto simp: newest_def)
  have len: "length (sl_loops s) = ?k" using assms(1) by (simp add: life_ok_def)
  then have i: "?i < length (sl_loops s)" "sl_loops s ! ?i = newest s"
    using ne by (cases "sl_loops s" rule: rev_cases; force simp: newest_def last_conv_nth nth_append)+
  note ix = loop_index [OF assms(1) i(1)]
  have y: "young ?k (newest s)" using assms by (auto simp: life_ok_def Let_def)
  have c: "?k \<in> sl_stopCh s" using assms by (auto simp: life_ok_def Let_def)
  let ?w = "set_loop ?i (Waits ?k ?k) s" let ?e = "close_done ?k (set_loop ?i Ended s)"
  have w: "sl_stoppers ?w = sl_stoppers s" "sl_made ?w = ?k" "sl_made ?e = ?k" "sl_stoppers ?e = sl_stoppers s" "?k \<in> sl_doneCh ?e"
    by (simp_all add: set_loop_def close_done_def)
  have n: "newest ?w = Waits ?k ?k" using ix(3) i(2) assms(3) by simp
  from y consider "newest s = Begun" | "newest s = Works ?k" | "newest s = Waits ?k ?k" by (auto simp: young_def)
  then show ?thesis
  proof cases
    case 1
    then have "life_step True s ?w" using i by (intro loop_begin) auto
    then show ?thesis using w n 1 by (intro exI [of _ ?w]) auto
  next
    case 2
    then have "life_step True s ?w" using i by (intro loop_again) auto
    then show ?thesis using w n 2 by (intro exI [of _ ?w]) auto
  next
    case 3
    then have "life_step True s ?e" using i c by (intro loop_end [of _ _ ?k]) auto
    then show ?thesis using w by (intro exI [of _ ?e]) auto
  qed
qed

lemma steps_ok: "(life_step True)\<^sup>+\<^sup>+ s s' \<Longrightarrow> life_ok s \<Longrightarrow> life_ok s'"
  by (induction rule: tranclp_induct) (auto intro: step_ok)

lemma Stop_returns:
  assumes "life_reachable True s" "sl_stoppers s = [Awaits k]"
  shows "\<exists>s'. (life_step True)\<^sup>+\<^sup>+ s s' \<and> sl_stoppers s' = [] \<and> (\<forall>l \<in> set (sl_loops s'). l = Ended)"
proof -
  have ok: "life_ok s" and k: "k = sl_made s"
    using life_reachable_ok [OF assms(1)] assms(2) by (auto simp: life_ok_def Let_def)
  have closed: "\<exists>s'. (life_step True)\<^sup>*\<^sup>* s s' \<and> sl_stoppers s' = [Awaits k] \<and> k \<in> sl_doneCh s' \<and> life_ok s'"
  proof (cases "newest s = Ended")
    case True
    then have "k \<in> sl_doneCh s" using ok assms(2) by (auto simp: life_ok_def Let_def young_def)
    then show ?thesis using ok assms(2) by blast
  next
    case False
    from loop_step [OF ok _ False] assms(2) k obtain t where t: "(life_step True)\<^sup>+\<^sup>+ s t" "sl_stoppers t = [Awaits k]"
      "sl_made t = k" "newest t = Waits k k \<or> k \<in> sl_doneCh t" by auto
    have tok: "life_ok t" using steps_ok [OF t(1) ok] .
    show ?thesis
    proof (cases "k \<in> sl_doneCh t")
      case True
      then show ?thesis using t tok tranclp_into_rtranclp by fast
    next
      case False
      then have n: "newest t = Waits k k" using t(4) by simp
      from loop_step [OF tok] t(2,3) n obtain u where u: "(life_step True)\<^sup>+\<^sup>+ t u" "sl_stoppers u = [Awaits k]" "k \<in> sl_doneCh u" by auto
      then show ?thesis using t(1) steps_ok [OF u(1) tok] by (meson tranclp_into_rtranclp tranclp_rtranclp_tranclp)
    qed
  qed
  then obtain t where t: "(life_step True)\<^sup>*\<^sup>* s t" "sl_stoppers t = [Awaits k]" "k \<in> sl_doneCh t" "life_ok t" by blast
  let ?r = "t\<lparr>sl_stoppers := []\<rparr>"
  have "life_step True t ?r" using stop_return [of 0 t k True] t(2,3) by simp
  moreover have "newest t = Ended" using t(2-4) by (auto simp: life_ok_def Let_def)
  ultimately show ?thesis using t(1) all_ended [OF t(4)]
    by (intro exI [of _ ?r]) auto
qed

section \<open>Overlapping calls\<close>

text \<open>
  The lock of \<^verbatim>\<open>Start\<close> and \<^verbatim>\<open>Stop\<close> does not cover the closing and the waiting, and the loop reads the
  channel fields without it. A \<^verbatim>\<open>Start\<close> that comes while a \<^verbatim>\<open>Stop\<close> is under way, before the first loop
  has begun, gives both loops the new channels; the next \<^verbatim>\<open>Stop\<close> ends both, and the second one to end
  closes a closed channel.
\<close>

lemma overlap_panics: "\<exists>s. life_reachable False s \<and> sl_panic s"
proof -
  let ?a = "sync_Start (sync_Stop (sync_Start life_new))"
  let ?b = "set_loop 1 (Waits 2 2) (set_loop 0 (Waits 2 2) ?a)"
  let ?c = "sync_Stop ?b"
  let ?d = "close_stop 2 (?c\<lparr>sl_stoppers := (sl_stoppers ?c)[1 := Awaits 2]\<rparr>)"
  let ?e = "close_done 2 (set_loop 1 Ended (close_done 2 (set_loop 0 Ended ?d)))"
  note d = life_new_def sync_Start_def sync_Stop_def set_loop_def close_stop_def close_done_def
  note next' = life_next [where seq = False]
  have a: "life_reachable False ?a"
    by (intro next' [OF _ call_start] next' [OF _ call_stop] life_init) simp_all
  have b1: "life_reachable False (set_loop 0 (Waits 2 2) ?a)"
    using next' [OF a loop_begin [of 0 ?a]] by (simp add: d numeral_2_eq_2)
  have b: "life_reachable False ?b"
    using next' [OF b1 loop_begin [of 1 "set_loop 0 (Waits 2 2) ?a"]] by (simp add: d numeral_2_eq_2)
  have c: "life_reachable False ?c" by (intro next' [OF b call_stop]) simp
  have dd: "life_reachable False ?d"
    using next' [OF c stop_close [of 1 ?c 2]] by (simp add: d numeral_2_eq_2)
  have e1: "life_reachable False (close_done 2 (set_loop 0 Ended ?d))"
    using next' [OF dd loop_end [of 0 ?d 2 2]] by (simp add: d numeral_2_eq_2)
  have "life_reachable False ?e"
    using next' [OF e1 loop_end [of 1 "close_done 2 (set_loop 0 Ended ?d)" 2 2]] by (simp add: d numeral_2_eq_2)
  moreover have "sl_panic ?e" by (simp add: close_done_def set_loop_def)
  ultimately show ?thesis by blast
qed

section \<open>The miner and the cleanup of the mempool\<close>

text \<open>
  A node has one stop channel, closed at most once (\<^verbatim>\<open>stopOnce\<close>), and one done channel, closed by
  every \<^verbatim>\<open>minerLoop\<close> that ends. \<open>ml_running\<close> counts the loops that have not ended.
\<close>

record mine_life =
  ml_stopCh :: bool
  ml_doneCh :: bool
  ml_started :: nat
  ml_running :: nat
  ml_cleaning :: bool
  ml_panic :: bool

definition mine_new :: mine_life where
  "mine_new = \<lparr>ml_stopCh = False, ml_doneCh = False, ml_started = 0, ml_running = 0, ml_cleaning = True, ml_panic = False\<rparr>"

definition StartMining :: "mine_life \<Rightarrow> mine_life" where
  "StartMining s = s\<lparr>ml_started := ml_started s + 1, ml_running := ml_running s + 1\<rparr>"

text \<open>\<^verbatim>\<open>StopMining\<close> up to the wait, and whether the wait is over.\<close>

definition StopMining :: "mine_life \<Rightarrow> mine_life" where
  "StopMining s = s\<lparr>ml_stopCh := True\<rparr>"

definition StopMining_returns :: "mine_life \<Rightarrow> bool" where
  "StopMining_returns s = ml_doneCh s"

text \<open>One miner at its check of the stop channel: it ends, or tries one more block.\<close>

definition miner_check :: "mine_life \<Rightarrow> mine_life" where
  "miner_check s =
     (if ml_stopCh s
      then s\<lparr>ml_running := ml_running s - 1, ml_doneCh := True, ml_panic := (ml_panic s \<or> ml_doneCh s)\<rparr>
      else s)"

definition mempoolCleanupLoop :: "mine_life \<Rightarrow> mine_life" where
  "mempoolCleanupLoop s = (if ml_stopCh s then s\<lparr>ml_cleaning := False\<rparr> else s)"

inductive mine_step :: "mine_life \<Rightarrow> mine_life \<Rightarrow> bool" where
  mine_start: "mine_step s (StartMining s)"
| mine_stop_call: "mine_step s (StopMining s)"
| mine_check: "0 < ml_running s \<Longrightarrow> mine_step s (miner_check s)"
| mine_clean: "ml_cleaning s \<Longrightarrow> mine_step s (mempoolCleanupLoop s)"

inductive mine_reachable :: "mine_life \<Rightarrow> bool" where
  mine_init: "mine_reachable mine_new"
| mine_next: "mine_reachable s \<Longrightarrow> mine_step s s' \<Longrightarrow> mine_reachable s'"

text \<open>What the two channels say, exactly: done when a miner has ended, a panic when a second one has.\<close>

lemma miners_exact:
  "mine_reachable s \<Longrightarrow> ml_running s \<le> ml_started s \<and> (ml_doneCh s \<longleftrightarrow> ml_running s < ml_started s) \<and>
     (ml_panic s \<longleftrightarrow> ml_running s + 2 \<le> ml_started s) \<and> (ml_doneCh s \<or> \<not> ml_cleaning s \<longrightarrow> ml_stopCh s)"
proof (induction rule: mine_reachable.induct)
  case (mine_next s s')
  from mine_next.hyps(2) mine_next.IH show ?case
    by cases (auto simp: StartMining_def StopMining_def miner_check_def mempoolCleanupLoop_def)
qed (simp add: mine_new_def)

text \<open>
  With one \<^verbatim>\<open>StartMining\<close> nothing panics, and after \<^verbatim>\<open>StopMining\<close> the check of the miner lets it return.
  Without one \<^verbatim>\<open>StopMining\<close> waits as long as none comes; with two, also one after the other, a second end panics.
\<close>

lemma StopMining_outcome:
  assumes "mine_reachable s"
  shows "ml_started s \<le> 1 \<Longrightarrow> \<not> ml_panic s"
    and "ml_started s = 0 \<Longrightarrow> \<not> StopMining_returns s"
    and "0 < ml_started s \<Longrightarrow> StopMining_returns s \<or> 0 < ml_running s \<and> StopMining_returns (miner_check (StopMining s))"
    and "2 \<le> ml_started s \<Longrightarrow> ml_panic s \<or> 0 < ml_running s \<and>
      (ml_panic (miner_check (StopMining s)) \<or> 0 < ml_running (miner_check (StopMining s)) \<and> ml_panic (miner_check (miner_check (StopMining s))))"
  using miners_exact [OF assms] by (auto simp: StopMining_returns_def StopMining_def miner_check_def)

section \<open>Properties\<close>

text \<open>
  C35: Starting and stopping the synchronisation, one call after the other, is sound. In every state
  that can be reached, whatever the loop was doing when the calls came, nothing has panicked, at most one
  loop is alive, and a \<^verbatim>\<open>Stop\<close> that is under way can always be brought to its end by steps of the two
  goroutines, with every loop ended.
\<close>
theorem start_stop_sound:
  assumes "life_reachable True s"
  shows "\<not> sl_panic s \<and> length (filter (\<lambda>l. l \<noteq> Ended) (sl_loops s)) \<le> 1 \<and>
    (sl_stoppers s = [] \<or> (\<exists>s'. (life_step True)\<^sup>+\<^sup>+ s s' \<and> sl_stoppers s' = [] \<and> (\<forall>l \<in> set (sl_loops s'). l = Ended)))"
proof -
  have "sl_stoppers s = [] \<or> sl_stoppers s = [Closing (sl_made s)] \<or> sl_stoppers s = [Awaits (sl_made s)]"
    using life_reachable_ok [OF assms] by (auto simp: life_ok_def Let_def)
  then consider "sl_stoppers s = []" | k where "sl_stoppers s = [Closing k]" | k where "sl_stoppers s = [Awaits k]" by blast
  then show ?thesis
  proof cases
    case (2 k)
    let ?c = "close_stop k (s\<lparr>sl_stoppers := (sl_stoppers s)[0 := Awaits k]\<rparr>)"
    have st: "life_step True s ?c" using 2 by (intro stop_close) simp_all
    have "sl_stoppers ?c = [Awaits k]" using 2 by (simp add: close_stop_def)
    from Stop_returns [OF life_next [OF assms st] this] st show ?thesis
      using one_loop_runs(1,2) [OF assms] by (meson tranclp_into_tranclp2)
  qed (use one_loop_runs(1,2) [OF assms] Stop_returns [OF assms] in blast)+
qed

text \<open>A \<^verbatim>\<open>Stop\<close> that comes while the loop works on a tick.\<close>

definition demo_stopping :: sync_life where
  "demo_stopping = sync_Stop (set_loop 0 (Works 1) (set_loop 0 (Waits 1 1) (sync_Start life_new)))"

theorem start_stop_sound_witness:
  "sl_stoppers demo_stopping = [Closing 1] \<and> sl_loops demo_stopping = [Works 1] \<and>
     (\<exists>s'. (life_step True)\<^sup>+\<^sup>+ demo_stopping s' \<and> sl_stoppers s' = [] \<and> (\<forall>l \<in> set (sl_loops s'). l = Ended))"
proof -
  note d = life_new_def sync_Start_def sync_Stop_def set_loop_def
  note next' = life_next [where seq = True]
  have a: "life_reachable True (sync_Start life_new)"
    by (intro next' [OF life_init call_start]) (simp add: d)
  have b: "life_reachable True (set_loop 0 (Waits 1 1) (sync_Start life_new))"
    using next' [OF a loop_begin [of 0 "sync_Start life_new"]] by (simp add: d)
  have c: "life_reachable True (set_loop 0 (Works 1) (set_loop 0 (Waits 1 1) (sync_Start life_new)))"
    using next' [OF b loop_tick [of 0 _ 1 1]] by (simp add: d)
  have "life_reachable True demo_stopping" unfolding demo_stopping_def
    by (rule next' [OF c call_stop]) (simp add: d)
  from start_stop_sound [OF this] show ?thesis by (simp add: demo_stopping_def d)
qed

end
