(* ===== verification/Agreement.thy ===== *)
theory Agreement
  imports ChainTip ChainSync Demo
begin

text \<open>
  Agreement: two chains, of whatever nodes, that have the same tip have the same history. What they
  agree on is what the hash binds; this is the point at which the digest must not collide.
\<close>

section \<open>Every stored block has the hash of its header\<close>

lemma genesis_hash:
  assumes "chain_reachable sha ord bc" "fair_ranging ord"
  shows "\<exists>g. bc_blocks bc (bc_genesis bc) = Some g \<and> header_hash sha (blk_Header g) (blk_Nonce g) = bc_genesis bc"
  using assms(1)
proof (induction rule: chain_reachable.induct)
  case (init g d bc)
  then show ?case by (auto simp: NewBlockchain_def Let_def cloneBlock_def)
next
  case (add bc b res err bc')
  have "chain_inv sha bc" "orphans_waiting bc" using chain_reachable_inv [OF add.hyps(1) assms(2)] by auto
  from AddBlock_ok [OF this, of ord b] obtain mid where e: "extends bc mid" "extends mid bc'"
    using add.hyps(2) by (metis option.inject prod.inject)
  obtain g where g: "bc_blocks bc (bc_genesis bc) = Some g" "header_hash sha (blk_Header g) (blk_Nonce g) = bc_genesis bc"
    using add.IH by blast
  have "bc_genesis bc' = bc_genesis bc" using e by (simp add: extends_def)
  then show ?case using g extends_block [OF e(2) extends_block [OF e(1) g(1)]] by simp
qed

lemma stored_hash:
  assumes "chain_reachable sha ord bc" "fair_ranging ord" "bc_blocks bc h = Some b"
  shows "header_hash sha (blk_Header b) (blk_Nonce b) = h"
proof (cases "h = bc_genesis bc")
  case False
  have "chain_inv sha bc" using chain_reachable_inv [OF assms(1,2)] by simp
  then show ?thesis using chain_inv_stored [OF _ assms(3)] False by (auto simp: stored_ok_def linked_def)
qed (use genesis_hash [OF assms(1,2)] assms(3) in auto)

section \<open>The same tip, the same chain\<close>

definition no_collision :: "digest \<Rightarrow> blockchain \<Rightarrow> blockchain \<Rightarrow> bool" where
  "no_collision sha c1 c2 \<longleftrightarrow> (\<forall>b1 \<in> ran (bc_blocks c1). \<forall>b2 \<in> ran (bc_blocks c2).
     header_hash sha (blk_Header b1) (blk_Nonce b1) = header_hash sha (blk_Header b2) (blk_Nonce b2) \<longrightarrow>
     blk_Header b1 = blk_Header b2 \<and> blk_Nonce b1 = blk_Nonce b2)"

lemma shared_block:
  assumes "chain_reachable sha o1 c1" "fair_ranging o1" "chain_reachable sha o2 c2" "fair_ranging o2" "no_collision sha c1 c2"
    and "bc_blocks c1 h = Some b1" "bc_blocks c2 h = Some b2"
  shows "blk_Header b1 = blk_Header b2 \<and> blk_Nonce b1 = blk_Nonce b2 \<and> blk_Hash b1 = blk_Hash b2"
proof -
  have "blk_Hash b1 = h" "blk_Hash b2 = h"
    using chain_reachable_inv [OF assms(1,2)] chain_reachable_inv [OF assms(3,4)] chain_inv_stored assms(6,7)
    by (auto simp: stored_ok_def)
  then show ?thesis
    using assms(5) stored_hash [OF assms(1,2,6)] stored_hash [OF assms(3,4,7)] ranI [of "bc_blocks c1", OF assms(6)] ranI [of "bc_blocks c2", OF assms(7)]
    unfolding no_collision_def by metis
qed

lemma shared_path:
  assumes r: "chain_reachable sha o1 c1" "fair_ranging o1" "chain_reachable sha o2 c2" "fair_ranging o2" "no_collision sha c1 c2"
    and "bc_blocks c1 h = Some b1" "bc_blocks c2 h = Some b2"
  shows "main_path c1 h = main_path c2 h"
  using assms(6,7)
proof (induction "unat (bc_ht c1 h)" arbitrary: h b1 b2)
  case 0
  have i: "chain_inv sha c1" "chain_inv sha c2" using chain_reachable_inv r by blast+
  have "bc_ht c1 h = bc_ht c2 h" using shared_block [OF r 0(2,3)] chain_inv_ht [OF i(1) 0(2)] chain_inv_ht [OF i(2) 0(3)] by simp
  then show ?case using 0(1) by (simp add: main_path_def)
next
  case (Suc n)
  have i: "chain_inv sha c1" "chain_inv sha c2" using chain_reachable_inv r by blast+
  have same: "blk_Header b1 = blk_Header b2" using shared_block [OF r Suc.prems] by simp
  have ht: "bc_ht c1 h = bc_ht c2 h" using same chain_inv_ht [OF i(1) Suc.prems(1)] chain_inv_ht [OF i(2) Suc.prems(2)] by simp
  have ng: "h \<noteq> bc_genesis c1" "h \<noteq> bc_genesis c2"
    using Suc.hyps(2) ht ct.root_height [OF i(1)] ct.root_height [OF i(2)] by auto
  obtain p1 where p1: "bc_par c1 h = bh_PrevHash (blk_Header b1)" "bc_blocks c1 (bc_par c1 h) = Some p1"
    "unat (bh_Height (blk_Header b1)) = Suc (unat (bh_Height (blk_Header p1)))" by (rule chain_inv_parent [OF i(1) Suc.prems(1) ng(1)])
  obtain p2 where p2: "bc_par c2 h = bh_PrevHash (blk_Header b2)" "bc_blocks c2 (bc_par c2 h) = Some p2"
    "unat (bh_Height (blk_Header b2)) = Suc (unat (bh_Height (blk_Header p2)))" by (rule chain_inv_parent [OF i(2) Suc.prems(2) ng(2)])
  have par: "bc_par c2 h = bc_par c1 h" using p1(1) p2(1) same by simp
  have n: "n = unat (bc_ht c1 (bc_par c1 h))" "n = unat (bc_ht c2 (bc_par c1 h))"
    using Suc.hyps(2) ht p1 p2 par same chain_inv_ht [OF i(1)] chain_inv_ht [OF i(2)] Suc.prems by auto
  have "main_path c1 (bc_par c1 h) = main_path c2 (bc_par c1 h)"
    using Suc.hyps(1) [OF n(1) p1(2)] p2(2) par by simp
  moreover have "main_path c1 h = main_path c1 (bc_par c1 h) @ [h]" "main_path c2 h = main_path c2 (bc_par c1 h) @ [h]"
    unfolding main_path_def ht [symmetric] Suc.hyps(2) [symmetric] chain_to.simps par n(2) [symmetric] n(1) [symmetric] by simp_all
  ultimately show ?case by simp
qed

section \<open>The theorem\<close>

lemma main_blocks_of:
  assumes "chain_inv sha bc" "bc_tip bc \<noteq> 0"
  shows "MainChainBlocks 0 bc = Some (main_blocks bc)"
proof -
  obtain tb where "bc_blocks bc (bc_tip bc) = Some tb" using chain_inv_tip [OF assms(1)] by blast
  then have "\<forall>h \<in> set (main_path bc (bc_tip bc)). \<exists>b. bc_blocks bc h = Some b" using main_path_known [OF assms(1)] by blast
  moreover have "\<forall>h \<in> set hs. \<exists>b. bc_blocks bc h = Some b \<Longrightarrow>
      List.map_filter (\<lambda>h. cloneBlock (bc_blocks bc h)) hs = map (\<lambda>h. the (bc_blocks bc h)) hs" for hs
    by (induction hs) (auto simp: cloneBlock_def)
  ultimately have "List.map_filter (\<lambda>h. cloneBlock (bc_blocks bc h)) (main_path bc (bc_tip bc)) = main_blocks bc"
    by (simp add: main_blocks_def path_to_def)
  then show ?thesis by (simp add: MainChainBlocks_def main_chain_eq [OF assms])
qed

text \<open>
  C6: Two nodes at the same tip agree on the whole main chain: on every hash from the genesis on, and on
  every header and nonce, provided the digest does not collide on the headers the two chains store. (The
  transactions are only agreed on as far as the transaction root binds them.)
\<close>
theorem same_tip_same_chain:
  assumes "chain_reachable sha o1 c1" and "fair_ranging o1" and "chain_reachable sha o2 c2" and "fair_ranging o2"
    and "no_collision sha c1 c2" and "TipHash c1 = TipHash c2"
  shows "mainChainHashesUnlocked c1 = mainChainHashesUnlocked c2 \<and>
     (\<exists>bs1 bs2. MainChainBlocks 0 c1 = Some bs1 \<and> MainChainBlocks 0 c2 = Some bs2 \<and>
        map (\<lambda>b. (blk_Header b, blk_Nonce b, blk_Hash b)) bs1 = map (\<lambda>b. (blk_Header b, blk_Nonce b, blk_Hash b)) bs2)"
proof (cases "bc_tip c1 = 0")
  case True
  then show ?thesis using assms(6) by (simp add: mainChainHashesUnlocked_def MainChainBlocks_def TipHash_def)
next
  case False
  have i: "chain_inv sha c1" "chain_inv sha c2" using chain_reachable_inv assms by blast+
  have tip: "bc_tip c2 = bc_tip c1" using assms(6) by (simp add: TipHash_def)
  obtain t1 t2 where t: "bc_blocks c1 (bc_tip c1) = Some t1" "bc_blocks c2 (bc_tip c1) = Some t2"
    using chain_inv_tip [OF i(1)] chain_inv_tip [OF i(2)] tip by auto
  have path: "main_path c2 (bc_tip c1) = main_path c1 (bc_tip c1)" using shared_path [OF assms(1-5) t] by simp
  have "(blk_Header (the (bc_blocks c1 h)), blk_Nonce (the (bc_blocks c1 h)), blk_Hash (the (bc_blocks c1 h)))
      = (blk_Header (the (bc_blocks c2 h)), blk_Nonce (the (bc_blocks c2 h)), blk_Hash (the (bc_blocks c2 h)))"
    if known: "h \<in> set (main_path c1 (bc_tip c1))" for h
  proof -
    obtain b1 b2 where b: "bc_blocks c1 h = Some b1" "bc_blocks c2 h = Some b2"
      using main_path_known [OF i(1) t(1) known] main_path_known [OF i(2) t(2), of h] known path by auto
    then show ?thesis using shared_block [OF assms(1-5) b] by simp
  qed
  then have "map (\<lambda>b. (blk_Header b, blk_Nonce b, blk_Hash b)) (main_blocks c1)
      = map (\<lambda>b. (blk_Header b, blk_Nonce b, blk_Hash b)) (main_blocks c2)"
    unfolding main_blocks_def path_to_def map_map tip path by (intro map_cong) simp_all
  then show ?thesis
    using main_blocks_of [OF i(1)] main_blocks_of [OF i(2)] main_chain_eq [OF i(1)] main_chain_eq [OF i(2)] False tip path by auto
qed

lemma demo_no_collision: "no_collision demo_digest demo_chain2 demo_fork"
  by (auto simp: no_collision_def demo_chain2_def demo_fork_def demo_genesis_def demo_header_hash demo_nonce ran_def split: if_splits)

theorem same_tip_same_chain_witness:
  "mainChainHashesUnlocked demo_chain2 = mainChainHashesUnlocked demo_fork \<and> demo_chain2 \<noteq> demo_fork"
  using same_tip_same_chain [OF demo_chain2_reachable fair_ranging_id demo_fork_reachable fair_ranging_id demo_no_collision]
  by (auto simp: TipHash_def demo_fork_def demo_chain2_def dest: arg_cong [where f = bc_height] fun_cong [where x = 3])

end
