(* ===== verification/StoreFiles.thy ===== *)
theory StoreFiles
  imports StoreInv Demo
begin

text \<open>
  The files below \<open>Store\<close>: names and bytes. \<^verbatim>\<open>store.go\<close> writes indented JSON to a temporary file and
  renames it; \<open>disk_of\<close> is the disk of \<open>Store\<close> that a directory of such files stands for, and the
  operations on the bytes are shown to be those on the disk, at every moment at which they can stop.
\<close>

section \<open>Names\<close>

text \<open>
  A file is a place (the directory of the store or its \<^verbatim>\<open>blocks\<close>, which \<^verbatim>\<open>filepath.Join\<close> puts in front) and a
  name; \<^verbatim>\<open>%020d\<close> pads with zeros.
\<close>

datatype place = StoreDir | BlocksDir

type_synonym path = "place \<times> string"
type_synonym file_system = "path \<rightharpoonup> string"

definition pad20 :: "nat \<Rightarrow> string" where
  "pad20 n = replicate (20 - length (dec_nat n)) (CHR ''0'') @ dec_nat n"

definition blockPath :: "uint64 \<Rightarrow> path" where
  "blockPath height = (BlocksDir, pad20 (unat height) @ ''.json'')"

definition manifestPath :: path where
  "manifestPath = (StoreDir, ''manifest.json'')"

definition tmpPath :: "gotime \<Rightarrow> path \<Rightarrow> path" where
  "tmpPath now p = (fst p, ''.tmp-'' @ dec_int now)"

lemma dec_value_zeros: "dec_value (replicate k (CHR ''0'') @ ds) = dec_value ds"
  by (induction k) (simp_all add: dec_value_def)

lemma blockPath_inj [simp]: "blockPath a = blockPath b \<longleftrightarrow> a = b"
proof
  assume "blockPath a = blockPath b"
  then have "dec_value (pad20 (unat a)) = dec_value (pad20 (unat b))" by (simp add: blockPath_def)
  then show "a = b" by (simp add: pad20_def dec_value_zeros dec_value_dec_nat word_unat_eq_iff)
qed simp

lemma pad20_head: "\<exists>c cs. pad20 n = c # cs \<and> c \<noteq> CHR ''.''"
proof -
  obtain c cs where "dec_nat n = c # cs" "is_digit c" using dec_nat_digits dec_nat_nonempty by (metis list.set_intros(1) neq_Nil_conv)
  moreover from this have "c \<noteq> CHR ''.''" by (auto simp: is_digit_def)
  ultimately show ?thesis by (cases "20 - length (dec_nat n)") (simp_all add: pad20_def)
qed

lemma paths_apart [simp]:
  "tmpPath now p \<noteq> blockPath h" "blockPath h \<noteq> tmpPath now p" "tmpPath now p \<noteq> manifestPath" "manifestPath \<noteq> tmpPath now p"
  "blockPath h \<noteq> manifestPath" "manifestPath \<noteq> blockPath h"
  using pad20_head [of "unat h"] by (auto simp: tmpPath_def blockPath_def manifestPath_def)

section \<open>Writing\<close>

text \<open>How a write ends; a failing write may leave anything in the temporary file.\<close>

datatype write_end = Written | WriteFails "string option" | RenameFails

definition writeFileAtomic :: "write_end \<Rightarrow> gotime \<Rightarrow> path \<Rightarrow> string \<Rightarrow> file_system \<Rightarrow> bool \<times> file_system" where
  "writeFileAtomic we now p data fs =
     (let tmp = tmpPath now p in
      case we of
        WriteFails left \<Rightarrow> (False, fs(tmp := left))
      | RenameFails \<Rightarrow> (False, fs(tmp \<mapsto> data))
      | Written \<Rightarrow> (True, (fs(tmp \<mapsto> data))(p \<mapsto> data, tmp := None)))"

text \<open>The file systems a process can leave behind that stops during a write.\<close>

definition write_stops :: "gotime \<Rightarrow> path \<Rightarrow> string \<Rightarrow> file_system \<Rightarrow> file_system set" where
  "write_stops now p data fs =
     insert fs (insert ((fs(tmpPath now p \<mapsto> data))(p \<mapsto> data, tmpPath now p := None)) (range (\<lambda>left. fs(tmpPath now p := left))))"

section \<open>The contents\<close>

definition manifest_json :: "manifest \<Rightarrow> json" where
  "manifest_json m = JObj [(''version'', int_json (mf_Version m)), (''difficulty'', int_json (uint (mf_Difficulty m))),
     (''tipHeight'', int_json (uint (mf_TipHeight m))), (''tipHash'', hash_json (mf_TipHash m)),
     (''updatedAt'', int_json (sint (mf_UpdatedAt m)))]"

definition decode_manifest :: "manifest decoder" where
  "decode_manifest = decode_struct [''version'', ''difficulty'', ''tipHeight'', ''tipHash'', ''updatedAt'']
     (\<lambda>n. if n = ''version'' then into decode_int mf_Version (\<lambda>x m. m\<lparr>mf_Version := x\<rparr>)
          else if n = ''difficulty'' then into decode_uint mf_Difficulty (\<lambda>x m. m\<lparr>mf_Difficulty := x\<rparr>)
          else if n = ''tipHeight'' then into decode_uint mf_TipHeight (\<lambda>x m. m\<lparr>mf_TipHeight := x\<rparr>)
          else if n = ''tipHash'' then into decode_hash mf_TipHash (\<lambda>x m. m\<lparr>mf_TipHash := x\<rparr>)
          else into decode_int64 mf_UpdatedAt (\<lambda>x m. m\<lparr>mf_UpdatedAt := x\<rparr>))"

text \<open>\<^verbatim>\<open>json.Unmarshal\<close> of a whole file into a zero value.\<close>

definition Unmarshal_file :: "'a decoder \<Rightarrow> 'a \<Rightarrow> string \<Rightarrow> 'a content" where
  "Unmarshal_file dec zero raw =
     (case parse_json raw of
        None \<Rightarrow> Garbage
      | Some j \<Rightarrow> (case dec j zero of None \<Rightarrow> Garbage | Some x \<Rightarrow> Json x))"

definition disk_of :: "file_system \<Rightarrow> disk" where
  "disk_of fs = \<lparr>dk_blocks = (\<lambda>h. map_option (Unmarshal_file decode_block zero_block) (fs (blockPath h))),
     dk_manifest = map_option (Unmarshal_file decode_manifest zero_manifest) (fs manifestPath)\<rparr>"

lemma block_text_read: "Unmarshal_file decode_block v (MarshalIndent (block_json nil b)) = Json (json_block b)"
proof -
  have "json_depth (block_json nil b) \<le> max_depth" using json_depth_block(1) [of nil b] by (simp add: max_depth_def)
  from parse_indented [OF json_ints_block(1) this] show ?thesis
    by (simp add: Unmarshal_file_def decodesD [OF decodes_block])
qed

lemma manifest_text_read:
  assumes "go_int (mf_Version m)"
  shows "Unmarshal_file decode_manifest v (MarshalIndent (manifest_json m)) = Json m"
proof -
  have "json_ints (manifest_json m)" "json_depth (manifest_json m) \<le> max_depth"
    by (simp_all add: manifest_json_def json_ints_simps json_depth_simps max_depth_def)
  from parse_indented [OF this] show ?thesis using assms
    by (simp add: Unmarshal_file_def manifest_json_def decode_manifest_def struct_simps decodes_simps
        del: decode_uint.simps decode_int64.simps decode_int.simps)
qed

section \<open>The operations on the bytes\<close>

definition read_block :: "faults \<Rightarrow> uint64 \<Rightarrow> file_system \<Rightarrow> store_error + block" where
  "read_block ft height fs =
     (if ft_read ft height then Inl IOError
      else case fs (blockPath height) of
             None \<Rightarrow> Inl NotExist
           | Some raw \<Rightarrow> (case Unmarshal_file decode_block zero_block raw of Garbage \<Rightarrow> Inl BadJson | Json b \<Rightarrow> Inr b))"

text \<open>The block as it is written: with its hash when it had none.\<close>

definition stamped :: "digest \<Rightarrow> block \<Rightarrow> marshal_error + block" where
  "stamped sha b =
     (if IsZero (blk_Hash b) then map_sum id (\<lambda>h. b\<lparr>blk_Hash := h\<rparr>) (HashHeaderNonce sha (blk_Header b) (blk_Nonce b)) else Inr b)"

definition write_block :: "nils \<Rightarrow> write_end \<Rightarrow> digest \<Rightarrow> gotime \<Rightarrow> block option \<Rightarrow> file_system \<Rightarrow> (store_error + unit) \<times> file_system" where
  "write_block nil we sha now b fs =
     (case cloneBlock b of
        None \<Rightarrow> (Inr (), fs)
      | Some cp \<Rightarrow>
          (case stamped sha cp of
             Inl err \<Rightarrow> (Inl (HashError err), fs)
           | Inr cp \<Rightarrow>
               (case writeFileAtomic we now (blockPath (bh_Height (blk_Header cp))) (MarshalIndent (block_json nil cp)) fs of
                  (ok, fs) \<Rightarrow> (if ok then Inr () else Inl IOError, fs))))"

definition save_manifest :: "write_end \<Rightarrow> gotime \<Rightarrow> store \<Rightarrow> file_system \<Rightarrow> (store_error + unit) \<times> store \<times> file_system" where
  "save_manifest we now st fs =
     (let st = st\<lparr>mf_UpdatedAt := word_of_int (now div millisecond)\<rparr> in
      case writeFileAtomic we now manifestPath (MarshalIndent (manifest_json st)) fs of
        (ok, fs) \<Rightarrow> (if ok then Inr () else Inl IOError, st, fs))"

definition load_manifest :: "faults \<Rightarrow> file_system \<Rightarrow> store_error + store" where
  "load_manifest ft fs =
     (if ft_manifest ft then Inl IOError
      else case fs manifestPath of
             None \<Rightarrow> Inl NotExist
           | Some raw \<Rightarrow> (case Unmarshal_file decode_manifest zero_manifest raw of Garbage \<Rightarrow> Inl BadJson | Json m \<Rightarrow> Inr m))"

definition remove_block :: "uint64 \<Rightarrow> file_system \<Rightarrow> file_system" where
  "remove_block h fs = fs(blockPath h := None)"

section \<open>The bytes implement the disk\<close>

lemma read_refines: "read_block ft h fs = readBlockFile ft h (disk_of fs)" "load_manifest ft fs = loadManifest ft (disk_of fs)"
  by (simp_all add: read_block_def readBlockFile_def load_manifest_def loadManifest_def disk_of_def split: option.split)

lemma remove_refines: "disk_of (remove_block h fs) = (disk_of fs)\<lparr>dk_blocks := (dk_blocks (disk_of fs))(h := None)\<rparr>"
  by (auto simp: disk_of_def remove_block_def fun_eq_iff)

lemma tmp_ignored: "disk_of (fs(tmpPath now p := x)) = disk_of fs"
  by (simp add: disk_of_def)

lemma block_written:
  "disk_of ((fs(tmpPath now p := x))(blockPath h \<mapsto> MarshalIndent (block_json nil b), tmpPath now p := None))
     = (disk_of fs)\<lparr>dk_blocks := (dk_blocks (disk_of fs))(h \<mapsto> Json (json_block b))\<rparr>"
  by (auto simp: disk_of_def block_text_read fun_eq_iff)

lemma manifest_written:
  assumes "go_int (mf_Version m)"
  shows "disk_of ((fs(tmpPath now p := x))(manifestPath \<mapsto> MarshalIndent (manifest_json m), tmpPath now p := None))
     = (disk_of fs)\<lparr>dk_manifest := Some (Json m)\<rparr>"
  using manifest_text_read [OF assms] by (auto simp: disk_of_def fun_eq_iff)

lemma write_block_cases:
  assumes "stamped sha b = Inr cp" and "ft_write ft = (\<lambda>_. we \<noteq> Written)"
  shows "writeBlockFile ft sha (Some b) dk = (if we \<noteq> Written then (Inl IOError, dk)
     else (Inr (), dk\<lparr>dk_blocks := (dk_blocks dk)(bh_Height (blk_Header cp) \<mapsto> Json (json_block cp))\<rparr>))"
  using assms by (auto simp: writeBlockFile_def stamped_def cloneBlock_def Let_def split: if_splits sum.splits)

lemma write_block_refines:
  assumes "ft_write ft = (\<lambda>_. we \<noteq> Written)"
  shows "fst (write_block nil we sha now b fs) = fst (writeBlockFile ft sha b (disk_of fs)) \<and>
     disk_of (snd (write_block nil we sha now b fs)) = snd (writeBlockFile ft sha b (disk_of fs))"
proof (cases b)
  case None
  then show ?thesis by (simp add: write_block_def writeBlockFile_def cloneBlock_def)
next
  case (Some x)
  show ?thesis
  proof (cases "stamped sha x")
    case (Inl err)
    then show ?thesis using Some
      by (auto simp: write_block_def writeBlockFile_def stamped_def cloneBlock_def split: if_splits sum.splits)
  next
    case (Inr cp)
    show ?thesis unfolding Some write_block_cases [OF Inr assms]
      using Inr tmp_ignored block_written
      by (cases we) (simp_all add: write_block_def cloneBlock_def writeFileAtomic_def Let_def)
  qed
qed

lemma save_refines:
  assumes "ft_manifest ft \<longleftrightarrow> we \<noteq> Written" and "go_int (mf_Version st)"
  shows "(case save_manifest we now st fs of (r, st', fs') \<Rightarrow> (r, st', disk_of fs')) = saveManifest ft now st (disk_of fs)"
proof -
  have "go_int (mf_Version (st\<lparr>mf_UpdatedAt := word_of_int (now div millisecond)\<rparr>))" using assms(2) by simp
  from manifest_written [OF this] show ?thesis using assms(1) tmp_ignored
    by (cases we) (simp_all add: save_manifest_def saveManifest_def writeFileAtomic_def Let_def)
qed

section \<open>Stopping in the middle\<close>

definition block_stops :: "nils \<Rightarrow> digest \<Rightarrow> gotime \<Rightarrow> block \<Rightarrow> file_system \<Rightarrow> file_system set" where
  "block_stops nil sha now b fs =
     (case stamped sha b of
        Inl err \<Rightarrow> {fs}
      | Inr cp \<Rightarrow> write_stops now (blockPath (bh_Height (blk_Header cp))) (MarshalIndent (block_json nil cp)) fs)"

lemma block_stops_atomic:
  assumes "fs' \<in> block_stops nil sha now b fs"
  shows "disk_of fs' = disk_of fs \<or> disk_of fs' = snd (writeBlockFile no_faults sha (Some b) (disk_of fs))"
proof (cases "stamped sha b")
  case (Inl err)
  then show ?thesis using assms by (simp add: block_stops_def)
next
  case (Inr cp)
  have "snd (writeBlockFile no_faults sha (Some b) (disk_of fs)) =
      (disk_of fs)\<lparr>dk_blocks := (dk_blocks (disk_of fs))(bh_Height (blk_Header cp) \<mapsto> Json (json_block cp))\<rparr>"
    using write_block_cases [OF Inr, of no_faults Written "disk_of fs"] by (simp add: no_faults_def)
  moreover have "fs' \<in> write_stops now (blockPath (bh_Height (blk_Header cp))) (MarshalIndent (block_json nil cp)) fs"
    using assms Inr by (simp add: block_stops_def)
  ultimately show ?thesis unfolding write_stops_def by (elim insertE rangeE) (simp, simp only: block_written simp_thms, simp only: tmp_ignored simp_thms)
qed

lemma manifest_stops_atomic:
  assumes "fs' \<in> write_stops now manifestPath (MarshalIndent (manifest_json m)) fs" "go_int (mf_Version m)"
  shows "disk_of fs' = disk_of fs \<or> disk_of fs' = (disk_of fs)\<lparr>dk_manifest := Some (Json m)\<rparr>"
  using assms(1) unfolding write_stops_def
  by (elim insertE rangeE) (simp, simp only: manifest_written [OF assms(2)] simp_thms, simp only: tmp_ignored simp_thms)

text \<open>
  C15: The bytes of the store implement its disk. Writing a block or the manifest as indented JSON through
  a temporary file gives, read back, exactly the file of the disk model, or an error and the old disk; what
  is read is what the model reads; and a process that stops anywhere inside a write of a block, whatever
  part of the temporary file is there, leaves the old disk or the new one, never a half-written block.
\<close>
theorem store_bytes_refine_disk:
  assumes "ft_write ft = (\<lambda>_. we \<noteq> Written)" and "ft_manifest ft \<longleftrightarrow> we \<noteq> Written" and "go_int (mf_Version st)"
  shows "fst (write_block nil we sha now (Some b) fs) = fst (writeBlockFile ft sha (Some b) (disk_of fs)) \<and>
     disk_of (snd (write_block nil we sha now (Some b) fs)) = snd (writeBlockFile ft sha (Some b) (disk_of fs)) \<and>
     (case save_manifest we now st fs of (r, st', fs') \<Rightarrow> (r, st', disk_of fs')) = saveManifest ft now st (disk_of fs) \<and>
     read_block ft h fs = readBlockFile ft h (disk_of fs) \<and> load_manifest ft fs = loadManifest ft (disk_of fs) \<and>
     (\<forall>fs' \<in> block_stops nil sha now b fs.
        disk_of fs' = disk_of fs \<or> disk_of fs' = snd (writeBlockFile no_faults sha (Some b) (disk_of fs)))"
  using write_block_refines [OF assms(1)] save_refines [OF assms(2,3)] read_refines block_stops_atomic by blast

theorem store_bytes_refine_disk_witness:
  "\<exists>fs'. write_block (\<lambda>_. False) Written demo_digest 7 (Some demo_genesis) Map.empty = (Inr (), fs') \<and>
     read_block no_faults 0 fs' = Inr (json_block demo_genesis)"
proof -
  let ?m = "\<lparr>mf_Version = 1, mf_Difficulty = 0, mf_TipHeight = 0, mf_TipHash = 0, mf_UpdatedAt = 0\<rparr>"
  obtain r fs' where w: "write_block (\<lambda>_. False) Written demo_digest 7 (Some demo_genesis) Map.empty = (r, fs')" by fastforce
  have f: "ft_write no_faults = (\<lambda>_. Written \<noteq> Written)" "ft_manifest no_faults \<longleftrightarrow> Written \<noteq> Written" "go_int (mf_Version ?m)"
    by (simp_all add: no_faults_def go_int_def)
  note 1 = store_bytes_refine_disk [OF f, of "\<lambda>_. False" demo_digest 7 demo_genesis Map.empty 0]
  have 2: "read_block no_faults 0 fs' = readBlockFile no_faults 0 (disk_of fs')"
    using store_bytes_refine_disk [OF f, where fs = fs' and h = 0] by blast
  have "writeBlockFile no_faults demo_digest (Some demo_genesis) (disk_of Map.empty) =
      (Inr (), (disk_of Map.empty)\<lparr>dk_blocks := (dk_blocks (disk_of Map.empty))(0 \<mapsto> Json (json_block demo_genesis))\<rparr>)"
    by (simp add: writeBlockFile_def cloneBlock_def demo_genesis_def demo_nonce no_faults_def Let_def json_block_def json_header_def)
  then show ?thesis using 1 2 w by (simp add: readBlockFile_def no_faults_def)
qed

end
