(* ===== verification/Goroutines.thy ===== *)
theory Goroutines
  imports NodeReach
begin

text \<open>
  The goroutines of a node, critical section by critical section. \<open>Syncer\<close> and \<open>Node\<close> give every handler as
  one function; here it is a program whose steps are the pieces of code under one lock (of the chain, the
  mempool, the peer manager, the syncer or the node), the atomic operations and the messages sent. What a
  piece has read stays in the variables of the program, however the node changes meanwhile. A program run
  without interruption is the function (\<open>Uninterrupted\<close>); every section keeps the invariant of a node, whatever
  happened before it (\<open>SafeSteps\<close>); \<open>Interleave\<close> lets the programs of all nodes run together.
\<close>

section \<open>Programs\<close>

text \<open>
  \<open>Act f k\<close>: at a time \<open>now\<close> the step \<open>f\<close> changes the state of the node and sends messages, and \<open>k\<close> goes on with
  what was read. A panic ends the process.
\<close>

datatype prog = Done | Panic
  | Act "gotime \<Rightarrow> syncer \<times> node \<Rightarrow> (syncer \<times> node) \<times> node_effect list" "gotime \<Rightarrow> syncer \<times> node \<Rightarrow> prog"

definition act :: "(gotime \<Rightarrow> syncer \<times> node \<Rightarrow> (syncer \<times> node) \<times> node_effect list \<times> 'a) \<Rightarrow> ('a \<Rightarrow> prog) \<Rightarrow> prog" where
  "act f k = Act (\<lambda>now sn. case f now sn of (sn, es, _) \<Rightarrow> (sn, es)) (\<lambda>now sn. k (snd (snd (f now sn))))"

definition look :: "(gotime \<Rightarrow> syncer \<times> node \<Rightarrow> 'a) \<Rightarrow> ('a \<Rightarrow> prog) \<Rightarrow> prog" where
  "look g k = act (\<lambda>now sn. (sn, [], g now sn)) k"

definition sync_do :: "(gotime \<Rightarrow> syncer \<Rightarrow> syncer) \<Rightarrow> prog \<Rightarrow> prog" where
  "sync_do f k = act (\<lambda>now sn. ((f now (fst sn), snd sn), [], ())) (\<lambda>_. k)"

definition node_do :: "(gotime \<Rightarrow> node \<Rightarrow> node) \<Rightarrow> prog \<Rightarrow> prog" where
  "node_do f k = act (\<lambda>now sn. ((fst sn, f now (snd sn)), [], ())) (\<lambda>_. k)"

definition emit :: "(gotime \<Rightarrow> syncer \<times> node \<Rightarrow> node_effect list) \<Rightarrow> prog \<Rightarrow> prog" where
  "emit e k = act (\<lambda>now sn. (sn, e now sn, ())) (\<lambda>_. k)"

primrec each :: "('a \<Rightarrow> prog \<Rightarrow> prog) \<Rightarrow> 'a list \<Rightarrow> prog \<Rightarrow> prog" where
  "each f [] k = k"
| "each f (x # xs) k = f x (each f xs k)"

text \<open>A program run to its end by itself, at one time.\<close>

primrec run :: "gotime \<Rightarrow> prog \<Rightarrow> syncer \<times> node \<Rightarrow> ((syncer \<times> node) \<times> node_effect list) option" where
  "run now Done = (\<lambda>sn. Some (sn, []))"
| "run now Panic = (\<lambda>sn. None)"
| "run now (Act f k) = (\<lambda>sn. case f now sn of (sn', es) \<Rightarrow> map_option (apsnd ((@) es)) (run now (k now sn) sn'))"

section \<open>Reads of the chain\<close>

definition has_block :: "hash \<Rightarrow> (bool \<Rightarrow> prog) \<Rightarrow> prog" where
  "has_block h = look (\<lambda>_ sn. HasBlock (nd_chain (snd sn)) h)"

text \<open>The nil checks on the fields of the syncer's configuration, which never change.\<close>

definition if_wired :: "prog \<Rightarrow> prog \<Rightarrow> prog" where
  "if_wired k p = look (\<lambda>_ sn. sc_Transport (sy_cfg (fst sn)) \<and> sc_Chain (sy_cfg (fst sn))) (\<lambda>on. if on then p else k)"

section \<open>The queues of the syncer\<close>

text \<open>\<^verbatim>\<open>enqueueBlock\<close> under the lock of the syncer.\<close>

definition enqueue_locked :: "hash \<Rightarrow> string \<Rightarrow> req_kind \<Rightarrow> syncer \<Rightarrow> syncer" where
  "enqueue_locked h preferredPeer kind s =
     (if is_inflight h s then s
      else case kind of
             BlkParent \<Rightarrow> s\<lparr>sy_parent := wanted_add h preferredPeer (sy_parent s)\<rparr>
           | BlkSync \<Rightarrow> s\<lparr>sy_sync := wanted_add h preferredPeer (sy_sync s)\<rparr>
           | BlkInv \<Rightarrow> s\<lparr>sy_inv := wanted_add h preferredPeer (sy_inv s)\<rparr>)"

definition enqueue :: "hash \<Rightarrow> string \<Rightarrow> req_kind \<Rightarrow> prog \<Rightarrow> prog" where
  "enqueue h p kind k =
     if_wired k (if IsZero h then k
       else has_block h (\<lambda>known. if known then k else sync_do (\<lambda>_. enqueue_locked h p kind) k))"

text \<open>
  The three loops of \<^verbatim>\<open>dispatchQueuedBlocks\<close> under the lock of the syncer. They ask the chain about single
  hashes while blocks may arrive, so \<open>view\<close> says which blocks they see.
\<close>

definition dispatch_locked :: "gotime \<Rightarrow> blockchain \<Rightarrow> string \<Rightarrow> syncer \<Rightarrow> syncer \<times> (string \<times> hash) list \<times> (string \<times> hash list) list" where
  "dispatch_locked now bc bestPeer s =
     (let (s, sends) = dispatch_front now bc bestPeer (s, []);
          syncPeer = (if sy_syncPeer s = '''' then bestPeer else sy_syncPeer s);
          (s, batches) = dispatch_sync now bc syncPeer s [];
          (s, sends) = dispatch_inv now bc bestPeer (s, sends)
      in (s, sends, batches))"

definition send_block :: "string \<times> hash \<Rightarrow> prog \<Rightarrow> prog" where
  "send_block r = emit (\<lambda>now sn. [Net (get_block_effect now (fst sn) r)])"

definition send_batch :: "string \<times> hash list \<Rightarrow> prog \<Rightarrow> prog" where
  "send_batch b = emit (\<lambda>now sn. map Net (sendGetBlocks now (fst sn) b))"

definition ask_best :: "orders \<Rightarrow> gotime \<Rightarrow> (string \<Rightarrow> prog) \<Rightarrow> prog" where
  "ask_best od now k = look (\<lambda>_ sn. best_peer od now (fst sn)) (\<lambda>r. case r of None \<Rightarrow> Panic | Some p \<Rightarrow> k p)"

definition dispatch :: "orders \<Rightarrow> (blockchain \<Rightarrow> blockchain) \<Rightarrow> gotime \<Rightarrow> prog \<Rightarrow> prog" where
  "dispatch od view now k =
     if_wired k (ask_best od now (\<lambda>bestPeer.
       act (\<lambda>_ sn. case dispatch_locked now (view (nd_chain (snd sn))) bestPeer (fst sn) of
              (s, sends, batches) \<Rightarrow> ((s, snd sn), [], (sends, batches)))
         (\<lambda>(sends, batches). each send_block sends (each send_batch batches k))))"

section \<open>Blocks\<close>

definition return_txs :: "transaction list \<Rightarrow> prog \<Rightarrow> prog" where
  "return_txs = each (\<lambda>tx. node_do (\<lambda>now n. n\<lparr>nd_mempool := snd (Add now tx (nd_mempool n))\<rparr>))"

definition remove_ids :: "string set \<Rightarrow> prog \<Rightarrow> prog" where
  "remove_ids ids = node_do (\<lambda>_ n. n\<lparr>nd_mempool := RemoveByID ids (nd_mempool n)\<rparr>)"

fun reorg_returns :: "block option list \<Rightarrow> prog \<Rightarrow> prog" where
  "reorg_returns [] k = k"
| "reorg_returns (None # bs) k = Panic"
| "reorg_returns (Some b # bs) k = return_txs (blk_Txs b) (reorg_returns bs k)"

definition apply_reorg :: "reorg \<Rightarrow> prog \<Rightarrow> prog" where
  "apply_reorg r k = reorg_returns (rg_Removed r)
     (case added_ids (rg_Added r) of None \<Rightarrow> Panic | Some ids \<Rightarrow> remove_ids ids k)"

definition remove_txs :: "block \<Rightarrow> prog \<Rightarrow> prog" where
  "remove_txs b k = (if length (blk_Txs b) = 0 then k else remove_ids (tx_ids (blk_Txs b)) k)"

definition add_block :: "digest \<Rightarrow> (hash \<times> block) ranging \<Rightarrow> block \<Rightarrow> (add_result \<Rightarrow> bool \<Rightarrow> prog) \<Rightarrow> prog" where
  "add_block sha ord b k =
     act (\<lambda>_ sn. case AddBlock sha ord (Some b) (nd_chain (snd sn)) of
            None \<Rightarrow> (sn, [], None)
          | Some (res, err, bc) \<Rightarrow> ((fst sn, (snd sn)\<lparr>nd_chain := bc\<rparr>), [], Some (res, err \<noteq> None)))
       (\<lambda>r. case r of None \<Rightarrow> Panic | Some (res, failed) \<Rightarrow> k res failed)"

text \<open>The event for \<^verbatim>\<open>onTipChange\<close> reads height and hash one after the other.\<close>

definition report_tip :: "string \<Rightarrow> reorg option \<Rightarrow> prog \<Rightarrow> prog" where
  "report_tip from r k =
     look (\<lambda>_ sn. TipHeight (nd_chain (snd sn))) (\<lambda>ht. look (\<lambda>_ sn. TipHash (nd_chain (snd sn))) (\<lambda>th.
       emit (\<lambda>_ sn. [TipChange \<lparr>te_NodeID = nd_id (snd sn), te_FromPeer = from, te_Height = ht, te_TipHash = th, te_Reorg = r\<rparr>]) k))"

definition on_new_block :: "digest \<Rightarrow> (hash \<times> block) ranging \<Rightarrow> block \<Rightarrow> string \<Rightarrow> prog \<Rightarrow> prog" where
  "on_new_block sha ord b from k =
     add_block sha ord b (\<lambda>res failed.
       if failed \<or> \<not> ar_Added res then k
       else node_do (\<lambda>_ n. n\<lparr>nd_recvBlocks := nd_recvBlocks n + 1\<rparr>)
         (let rest = (if ar_IsNewTip res
                then emit (\<lambda>now sn. [announce now (snd sn) b (claimed_hash sha b)]) (report_tip from (ar_Reorg res) k) else k)
          in case ar_Reorg res of
               Some r \<Rightarrow> apply_reorg r rest
             | None \<Rightarrow> if ar_IsNewTip res then remove_txs b rest else rest))"

section \<open>Announcements and answers\<close>

definition got_block :: "hash \<Rightarrow> prog \<Rightarrow> prog" where
  "got_block h = sync_do (\<lambda>_. onBlockArrived h)"

text \<open>
  The code reads the deadline of the request after it has released the mutex; here it is read with the
  request. Only the metrics depend on it.
\<close>

definition record_request :: "hash \<Rightarrow> string \<Rightarrow> prog \<Rightarrow> prog" where
  "record_request h from k =
     look (\<lambda>_ sn. map_of (sy_inflightBlocks (fst sn)) h) (\<lambda>r. case r of
       None \<Rightarrow> k
     | Some req \<Rightarrow>
         if from = '''' then k
         else sync_do (\<lambda>now s. s\<lparr>sy_metrics := recordRequest now from
                (ir_deadline req + - sc_SyncTimeout (sy_cfg s)) True (sy_metrics s)\<rparr>) k)"

definition handle_inv_block :: "digest \<Rightarrow> orders \<Rightarrow> (blockchain \<Rightarrow> blockchain) \<Rightarrow> block_meta \<Rightarrow> string \<Rightarrow> prog \<Rightarrow> prog" where
  "handle_inv_block sha od view meta from k =
     if_wired k (if from = '''' \<or> IsZero (bm_Hash meta) then k
       else has_block (bm_Hash meta) (\<lambda>known. if known then k
       else look (\<lambda>_ sn. bc_difficulty (nd_chain (snd sn))) (\<lambda>d. if bh_Difficulty (bm_Header meta) \<noteq> d then k
       else case HashHeaderNonce sha (bm_Header meta) (bm_Nonce meta) of
              Inl err \<Rightarrow> k
            | Inr computed \<Rightarrow>
                if computed \<noteq> bm_Hash meta \<or> \<not> MeetsDifficulty (bm_Hash meta) d then k
                else let prev = bh_PrevHash (bm_Header meta);
                         rest = enqueue (bm_Hash meta) from BlkInv (look (\<lambda>now _. now) (\<lambda>now. dispatch od view now k))
                     in if bh_Height (bm_Header meta) > 0 \<and> \<not> IsZero prev
                        then has_block prev (\<lambda>known. if known then rest else enqueue prev from BlkParent rest)
                        else rest)))"

definition handle_block :: "digest \<Rightarrow> (hash \<times> block) ranging \<Rightarrow> block \<Rightarrow> string \<Rightarrow> prog \<Rightarrow> prog" where
  "handle_block sha ord b from k =
     (let h = claimed_hash sha b in record_request h from (got_block h (on_new_block sha ord b from k)))"

definition handle_blocks :: "digest \<Rightarrow> (hash \<times> block) ranging \<Rightarrow> block option list \<Rightarrow> string \<Rightarrow> prog \<Rightarrow> prog" where
  "handle_blocks sha ord blocks from k =
     (if length blocks = 0 then k
      else let rest = each (\<lambda>b k. case b of
                  None \<Rightarrow> k
                | Some b \<Rightarrow> got_block (claimed_hash sha b) (on_new_block sha ord b from k)) blocks k
           in if from = '''' then rest
              else case blocks ! 0 of None \<Rightarrow> Panic | Some b0 \<Rightarrow> record_request (claimed_hash sha b0) from rest)"

definition has_tx :: "string \<Rightarrow> (bool \<Rightarrow> prog) \<Rightarrow> prog" where
  "has_tx i = look (\<lambda>_ sn. hasTx (snd sn) i)"

definition add_tx :: "transaction \<Rightarrow> (bool \<Rightarrow> prog) \<Rightarrow> prog" where
  "add_tx tx = act (\<lambda>now sn. case Add now tx (nd_mempool (snd sn)) of
     (added, mp) \<Rightarrow> ((fst sn, (snd sn)\<lparr>nd_mempool := mp\<rparr>), [], added))"

definition handle_inv_tx :: "string \<Rightarrow> string \<Rightarrow> prog \<Rightarrow> prog" where
  "handle_inv_tx txid from k =
     look (\<lambda>_ sn. sc_Transport (sy_cfg (fst sn))) (\<lambda>on. if \<not> on \<or> txid = '''' \<or> from = '''' then k
     else has_tx txid (\<lambda>known. if known then k
     else act (\<lambda>_ sn. let s = fst sn in
                if txid \<in> sy_inflightTx s then (sn, [], False)
                else ((s\<lparr>sy_inflightTx := insert txid (sy_inflightTx s)\<rparr>, snd sn), [], True))
       (\<lambda>fresh. if \<not> fresh then k
        else emit (\<lambda>_ sn. [Net (StartTxTimer txid (sc_SyncTimeout (sy_cfg (fst sn))))])
          (emit (\<lambda>now sn. [Net (Send from (direct_message now (self_id (fst sn)) from '''' MsgGetTx (GetTxPayload txid)))]) k))))"

definition accept_tx :: "transaction \<Rightarrow> (bool \<Rightarrow> prog) \<Rightarrow> prog" where
  "accept_tx tx k =
     (if tx_ID tx = '''' then k False
      else has_tx (tx_ID tx) (\<lambda>known. if known then k False
      else add_tx tx (\<lambda>added. if \<not> added then k False else node_do (\<lambda>_. rememberTx tx) (k True))))"

definition announce_tx :: "string \<Rightarrow> prog \<Rightarrow> prog" where
  "announce_tx i = emit (\<lambda>now sn. [Net (Broadcast (self_id (fst sn)) (inv_message now (self_id (fst sn)) MsgInvTx (InvTxPayload i)))])"

definition handle_tx :: "transaction \<Rightarrow> string \<Rightarrow> prog \<Rightarrow> prog" where
  "handle_tx tx from k =
     (if tx_ID tx = '''' then k
      else sync_do (\<lambda>_. forget_tx_request (tx_ID tx)) (accept_tx tx (\<lambda>added. if \<not> added then k
      else look (\<lambda>_ sn. sc_Transport (sy_cfg (fst sn))) (\<lambda>on. if \<not> on then k else announce_tx (tx_ID tx) k))))"

section \<open>Requests\<close>

text \<open>
  The rest of the goroutine that waits in \<^verbatim>\<open>rpc\<close>. When answer and timer are both ready \<^verbatim>\<open>select\<close> may
  take the timer although the answer was delivered (\<open>late\<close>).
\<close>

definition rpc_back :: "bool \<Rightarrow> rpc_call \<Rightarrow> message option \<Rightarrow> prog \<Rightarrow> prog" where
  "rpc_back late c resp k =
     (let resp = (if late then None else resp) in
      case c of
        ProbeCall p start \<Rightarrow> look (\<lambda>now _. now - start) (\<lambda>rtt. sync_do (\<lambda>now. probe_result now p resp rtt) k)
      | HeaderCall p \<Rightarrow> sync_do (\<lambda>_. header_reply p resp) k)"

definition take_call :: "string \<Rightarrow> (rpc_call option \<Rightarrow> prog) \<Rightarrow> prog" where
  "take_call tr = act (\<lambda>_ sn. ((fst sn, (snd sn)\<lparr>nd_pendingRPC := (nd_pendingRPC (snd sn))(tr := None)\<rparr>), [], nd_pendingRPC (snd sn) tr))"

definition send_to :: "string \<Rightarrow> (gotime \<Rightarrow> string \<Rightarrow> message) \<Rightarrow> prog \<Rightarrow> prog" where
  "send_to p m = emit (\<lambda>now sn. [Net (Send p (m now (nd_id (snd sn))))])"

definition rpc_start :: "string \<Rightarrow> msg_type \<Rightarrow> payload \<Rightarrow> rpc_call \<Rightarrow> prog \<Rightarrow> prog" where
  "rpc_start to typ pl c k =
     (if to = '''' then rpc_back False c None k
      else act (\<lambda>_ sn. let n = (snd sn)\<lparr>nd_rpcSeq := nd_rpcSeq (snd sn) + 1\<rparr> in ((fst sn, n), [], trace_id (nd_id n) (nd_rpcSeq n)))
        (\<lambda>tr. node_do (\<lambda>_ n. n\<lparr>nd_pendingRPC := (nd_pendingRPC n)(tr \<mapsto> c)\<rparr>)
          (send_to to (\<lambda>now i. direct_message now i to tr typ pl) k)))"

section \<open>Routing\<close>

definition get_tx :: "string \<Rightarrow> string \<Rightarrow> prog \<Rightarrow> prog" where
  "get_tx txid from k =
     (if txid = '''' \<or> from = '''' then k
      else look (\<lambda>_ sn. nd_txStore (snd sn) txid) (\<lambda>r. case r of
             None \<Rightarrow> k | Some tx \<Rightarrow> send_to from (\<lambda>now i. direct_message now i from '''' MsgTx (TxPayload tx)) k))"

definition block_by_hash :: "hash \<Rightarrow> (block option \<Rightarrow> prog) \<Rightarrow> prog" where
  "block_by_hash h = look (\<lambda>_ sn. BlockByHash (nd_chain (snd sn)) h)"

definition get_block :: "hash \<Rightarrow> string \<Rightarrow> prog \<Rightarrow> prog" where
  "get_block h from k =
     (if from = '''' then k
      else block_by_hash h (\<lambda>r. case r of
             None \<Rightarrow> k | Some b \<Rightarrow> send_to from (\<lambda>now i. direct_message now i from '''' MsgBlock (BlockPayload (Some b))) k))"

definition get_tip :: "string \<Rightarrow> string \<Rightarrow> prog \<Rightarrow> prog" where
  "get_tip from tr k =
     (if from = '''' \<or> tr = '''' then k
      else look (\<lambda>_ sn. TipHash (nd_chain (snd sn))) (\<lambda>th. look (\<lambda>_ sn. TipHeight (nd_chain (snd sn))) (\<lambda>ht.
           look (\<lambda>_ sn. TipCumWork (nd_chain (snd sn))) (\<lambda>w. case w of
             None \<Rightarrow> Panic | Some w \<Rightarrow> send_to from (\<lambda>now i. direct_message now i from tr MsgTip (TipPayload th ht (dec_int w))) k))))"

definition get_headers :: "hash list \<Rightarrow> int \<Rightarrow> string \<Rightarrow> string \<Rightarrow> prog \<Rightarrow> prog" where
  "get_headers loc mx from tr k =
     (if from = '''' \<or> tr = '''' then k
      else look (\<lambda>_ sn. MainChainMetasFromLocator loc
             (if mx \<le> 0 \<or> mx > nd_maxHeaders (snd sn) then nd_maxHeaders (snd sn) else mx) (nd_chain (snd sn)))
           (\<lambda>r. case r of None \<Rightarrow> Panic
             | Some metas \<Rightarrow> send_to from (\<lambda>now i. direct_message now i from tr MsgHeaders (HeadersPayload metas)) k))"

primrec collect_blocks :: "hash list \<Rightarrow> block list \<Rightarrow> (block list \<Rightarrow> prog) \<Rightarrow> prog" where
  "collect_blocks [] acc k = k acc"
| "collect_blocks (h # hs) acc k = block_by_hash h (\<lambda>r. case r of None \<Rightarrow> collect_blocks hs acc k | Some b \<Rightarrow> collect_blocks hs (acc @ [b]) k)"

definition get_blocks :: "hash list \<Rightarrow> string \<Rightarrow> string \<Rightarrow> prog \<Rightarrow> prog" where
  "get_blocks hs from tr k =
     (if from = '''' then k
      else collect_blocks hs [] (\<lambda>bs. send_to from (\<lambda>now i. direct_message now i from tr MsgBlocks (BlocksPayload (map Some bs))) k))"

definition route :: "digest \<Rightarrow> (hash \<times> block) ranging \<Rightarrow> orders \<Rightarrow> (blockchain \<Rightarrow> blockchain) \<Rightarrow> message \<Rightarrow> prog" where
  "route sha ord od view msg =
     (let from = msg_From msg; tr = msg_TraceID msg in
      if msg_Type msg = MsgInvTx then (case msg_Payload msg of InvTxPayload i \<Rightarrow> handle_inv_tx i from Done | _ \<Rightarrow> Done)
      else if msg_Type msg = MsgGetTx then (case msg_Payload msg of GetTxPayload i \<Rightarrow> get_tx i from Done | _ \<Rightarrow> Done)
      else if msg_Type msg = MsgTx then (case msg_Payload msg of TxPayload tx \<Rightarrow> handle_tx tx from Done | _ \<Rightarrow> Done)
      else if msg_Type msg = MsgInvBlock then
        (case msg_Payload msg of InvBlockPayload meta \<Rightarrow> handle_inv_block sha od view meta from Done | _ \<Rightarrow> Done)
      else if msg_Type msg = MsgGetBlock then (case msg_Payload msg of GetBlockPayload h \<Rightarrow> get_block h from Done | _ \<Rightarrow> Done)
      else if msg_Type msg = MsgBlock then
        (case msg_Payload msg of BlockPayload (Some b) \<Rightarrow> handle_block sha ord b from Done | _ \<Rightarrow> Done)
      else if msg_Type msg = MsgGetTip then get_tip from tr Done
      else if msg_Type msg = MsgGetHeaders then
        (case msg_Payload msg of GetHeadersPayload loc mx \<Rightarrow> get_headers loc mx from tr Done | _ \<Rightarrow> Done)
      else if msg_Type msg = MsgGetBlocks then (case msg_Payload msg of GetBlocksPayload hs \<Rightarrow> get_blocks hs from tr Done | _ \<Rightarrow> Done)
      else if msg_Type msg = MsgBlocks then
        (case msg_Payload msg of BlocksPayload bs \<Rightarrow> handle_blocks sha ord bs from Done | _ \<Rightarrow> Done)
      else Done)"

definition message_prog :: "digest \<Rightarrow> (hash \<times> block) ranging \<Rightarrow> orders \<Rightarrow> (blockchain \<Rightarrow> blockchain) \<Rightarrow> bool \<Rightarrow> message \<Rightarrow> prog" where
  "message_prog sha ord od view late msg =
     (if msg_TraceID msg = '''' then route sha ord od view msg
      else take_call (msg_TraceID msg) (\<lambda>c. case c of
             None \<Rightarrow> route sha ord od view msg
           | Some c \<Rightarrow> rpc_back late c (Some msg) Done))"

section \<open>The loop of the syncer\<close>

definition tick_locked :: "orders \<Rightarrow> gotime \<Rightarrow> string \<Rightarrow> syncer \<Rightarrow> syncer \<times> tick" where
  "tick_locked od now bestPeer s = fold (tick_one now bestPeer) (od_inflight od 0 (sy_inflightBlocks s))
     (s, \<lparr>tk_sends = [], tk_retrySync = [], tk_timeouts = [], tk_syncFailed = False\<rparr>)"

definition report_timeout :: "string \<Rightarrow> prog \<Rightarrow> prog" where
  "report_timeout p = sync_do (\<lambda>now s. s\<lparr>sy_peers := ReportTimeout now p (sy_peers s)\<rparr>)"

definition tick_inflight :: "orders \<Rightarrow> gotime \<Rightarrow> prog \<Rightarrow> prog" where
  "tick_inflight od now k =
     if_wired k (look (\<lambda>_ sn. length (sy_inflightBlocks (fst sn)) = 0) (\<lambda>none. if none then k
       else ask_best od now (\<lambda>bestPeer.
         act (\<lambda>_ sn. case tick_locked od now bestPeer (fst sn) of (s, t) \<Rightarrow> ((s, snd sn), [], t))
           (\<lambda>t. each report_timeout (tk_timeouts t) (each send_block (tk_sends t)
             (look (\<lambda>_ sn. if sc_BlocksBatchSize (sy_cfg (fst sn)) \<le> 0 then 1 else sc_BlocksBatchSize (sy_cfg (fst sn)))
               (\<lambda>bs. each (\<lambda>(p, hs). each (\<lambda>c. send_batch (p, c)) (chunks (nat bs) hs)) (od_retry od 0 (tk_retrySync t))
                 (if tk_syncFailed t then sync_do (\<lambda>_. enterBackoff now) k else k))))))))"

primrec queue_metas_prog :: "string \<Rightarrow> block_meta list \<Rightarrow> bool \<Rightarrow> (bool \<Rightarrow> prog) \<Rightarrow> prog" where
  "queue_metas_prog p [] any k = k any"
| "queue_metas_prog p (m # ms) any k =
     (if IsZero (bm_Hash m) then queue_metas_prog p ms any k
      else look (\<lambda>_ sn. sc_Chain (sy_cfg (fst sn)) \<and> HasBlock (nd_chain (snd sn)) (bm_Hash m)) (\<lambda>known.
        if known then queue_metas_prog p ms any k
        else enqueue (bm_Hash m) p BlkSync (queue_metas_prog p ms True k)))"

definition header_prog :: "orders \<Rightarrow> (blockchain \<Rightarrow> blockchain) \<Rightarrow> gotime \<Rightarrow> headers_result \<Rightarrow> prog \<Rightarrow> prog" where
  "header_prog od view now r k =
     sync_do (\<lambda>_ s. s\<lparr>sy_headerReqInFlight := False\<rparr>)
       (if \<not> hr_ok r then
          (let rest = act (\<lambda>_ sn. let s = (fst sn)\<lparr>sy_headerRetries := sy_headerRetries (fst sn) + 1\<rparr>
                  in ((s, snd sn), [], sy_headerRetries s \<ge> sc_HeaderRetryLimit (sy_cfg s)))
                (\<lambda>shouldBackoff. if shouldBackoff then sync_do (\<lambda>_. enterBackoff now) k else k)
           in if hr_peer r \<noteq> '''' then report_timeout (hr_peer r) rest else rest)
        else sync_do (\<lambda>_ s. s\<lparr>sy_headerRetries := 0\<rparr>)
          (queue_metas_prog (hr_peer r) (hr_metas r) False (\<lambda>queuedAny. if \<not> queuedAny then k
             else sync_do (\<lambda>_ s. let s = (if sy_state s = SyncingHeaders then s\<lparr>sy_state := SyncingBlocks\<rparr> else s)
                    in if sy_syncPeer s = '''' then s\<lparr>sy_syncPeer := hr_peer r\<rparr> else s)
               (dispatch od view now k))))"

text \<open>
  The loop that empties the channel of header results. While it runs others may fill the channel, so the
  rounds of a run are bounded by \<open>m\<close>, any number: a run of more rounds stops there. The channel is a list
  that also holds what blocked senders want to send.
\<close>

primrec drain_prog :: "orders \<Rightarrow> (blockchain \<Rightarrow> blockchain) \<Rightarrow> gotime \<Rightarrow> nat \<Rightarrow> prog \<Rightarrow> prog" where
  "drain_prog od view now 0 k = Done"
| "drain_prog od view now (Suc m) k =
     act (\<lambda>_ sn. case sy_headersCh (fst sn) of
            [] \<Rightarrow> (sn, [], None)
          | r # rs \<Rightarrow> (((fst sn)\<lparr>sy_headersCh := rs\<rparr>, snd sn), [], Some r))
       (\<lambda>r. case r of None \<Rightarrow> k | Some r \<Rightarrow> header_prog od view now r (drain_prog od view now m k))"

definition header_request :: "string \<Rightarrow> prog \<Rightarrow> prog" where
  "header_request p k =
     look (\<lambda>_ sn. (sy_cfg (fst sn))) (\<lambda>cfg. if \<not> sc_RPC cfg \<or> \<not> sc_Chain cfg \<or> p = '''' \<or> p = sc_NodeID cfg then k
     else act (\<lambda>_ sn. let s = fst sn in
            if sy_state s \<noteq> SyncingHeaders \<or> sy_headerReqInFlight s then (sn, [], False)
            else (let s = s\<lparr>sy_headerReqInFlight := True\<rparr>;
                      s = (if sy_syncPeer s = '''' then s\<lparr>sy_syncPeer := p\<rparr> else s) in ((s, snd sn), [], True)))
       (\<lambda>go. if \<not> go then k
        else look (\<lambda>_ sn. Locator 32 (nd_chain (snd sn))) (\<lambda>loc.
          rpc_start p MsgGetHeaders (GetHeadersPayload loc (sc_MaxHeaders cfg)) (HeaderCall p) k)))"

definition advance_prog :: "string \<Rightarrow> prog \<Rightarrow> prog" where
  "advance_prog bestPeer k =
     act (\<lambda>_ sn. let s = (if sy_state (fst sn) = SyncIdle
              then (fst sn)\<lparr>sy_state := SyncingHeaders, sy_syncPeer := bestPeer, sy_headerRetries := 0\<rparr> else fst sn)
            in ((s, snd sn), [], (sy_state s, sy_syncPeer s)))
       (\<lambda>(st, p). case st of
          SyncingHeaders \<Rightarrow> header_request (if p = '''' then bestPeer else p) k
        | SyncingBlocks \<Rightarrow> look (\<lambda>_ sn. syncWorkDone (fst sn)) (\<lambda>done.
            if done then sync_do (\<lambda>_ s. if sy_state s = SyncingBlocks then s\<lparr>sy_state := SyncingHeaders\<rparr> else s) k else k)
        | _ \<Rightarrow> k)"

definition decide_prog :: "orders \<Rightarrow> gotime \<Rightarrow> prog \<Rightarrow> prog" where
  "decide_prog od now k =
     look (\<lambda>_ sn. BestPeer (od_peers od) now (sy_peers (fst sn))) (\<lambda>r. case r of
       None \<Rightarrow> Panic
     | Some (bestPeer, bestHeight, _, None) \<Rightarrow> k
     | Some (bestPeer, bestHeight, _, Some bestWork) \<Rightarrow>
         if bestPeer = '''' then k
         else look (\<lambda>_ sn. TipCumWork (nd_chain (snd sn))) (\<lambda>w. case w of
                None \<Rightarrow> Panic
              | Some localWork \<Rightarrow>
                  if localWork < bestWork then advance_prog bestPeer k
                  else look (\<lambda>_ sn. TipHeight (nd_chain (snd sn))) (\<lambda>ht.
                         if ht < bestHeight then advance_prog bestPeer k else sync_do (\<lambda>_. resetSyncState) k)))"

definition catch_up_prog :: "orders \<Rightarrow> (blockchain \<Rightarrow> blockchain) \<Rightarrow> nat \<Rightarrow> prog" where
  "catch_up_prog od view m =
     look (\<lambda>_ sn. sc_Chain (sy_cfg (fst sn))) (\<lambda>on. if \<not> on then Done
     else look (\<lambda>now _. now) (\<lambda>now. tick_inflight od now (dispatch od view now (drain_prog od view now m
            (sync_do (\<lambda>_. leave_backoff now) (decide_prog od now Done))))))"

text \<open>
  \<^verbatim>\<open>probeTips\<close> for some of the peers, one after the other; the goroutines of the others are programs of
  their own. The answers come through \<open>rpc_back\<close>.
\<close>

definition probe_prog :: "string list \<Rightarrow> prog" where
  "probe_prog peers =
     look (\<lambda>_ sn. sy_cfg (fst sn)) (\<lambda>cfg. if \<not> sc_Transport cfg \<or> \<not> sc_Chain cfg \<or> \<not> sc_RPC cfg then Done
     else each (\<lambda>p k. if p = '''' \<or> p = sc_NodeID cfg then k
            else sync_do (\<lambda>_ s. s\<lparr>sy_peers := Upsert p (sy_peers s)\<rparr>)
              (look (\<lambda>now _. now) (\<lambda>start. rpc_start p MsgGetTip GetTipPayload (ProbeCall p start) k))) peers Done)"

definition timeout_prog :: "string \<Rightarrow> prog" where
  "timeout_prog tr = take_call tr (\<lambda>c. case c of None \<Rightarrow> Done | Some c \<Rightarrow> rpc_back False c None Done)"

definition forget_prog :: "string \<Rightarrow> prog" where
  "forget_prog i = sync_do (\<lambda>_. forget_tx_request i) Done"

definition clean_prog :: prog where
  "clean_prog = node_do mempoolCleanup Done"

definition submit_prog :: "transaction \<Rightarrow> prog" where
  "submit_prog tx =
     (let rebroadcast = (\<lambda>k. look (\<lambda>now sn. CanBroadcast now (tx_ID tx) (nd_mempool (snd sn))) (\<lambda>may. if \<not> may then Done
            else has_tx (tx_ID tx) (\<lambda>known. if \<not> known then Done else k)));
          tell = emit (\<lambda>now sn. [Net (Broadcast (nd_id (snd sn)) (inv_message now (nd_id (snd sn)) MsgInvTx (InvTxPayload (tx_ID tx))))])
            (node_do (\<lambda>now n. n\<lparr>nd_mempool := MarkBroadcast now (tx_ID tx) (nd_mempool n)\<rparr>) Done)
      in add_tx tx (\<lambda>added. if added then node_do (\<lambda>_. rememberTx tx) tell else rebroadcast tell))"

section \<open>The miner\<close>

text \<open>
  The top of the loop reads the tip and its height and takes the transactions one after the other; the
  variables of the inner loop are the job. \<open>mine_attempt\<close> is one attempt, \<open>mine_quit\<close> the way out when the
  miner is stopped.
\<close>

definition mine_start :: "digest \<Rightarrow> prog" where
  "mine_start sha =
     look (\<lambda>_ sn. TipHash (nd_chain (snd sn))) (\<lambda>th. look (\<lambda>_ sn. TipHeight (nd_chain (snd sn))) (\<lambda>ht.
       act (\<lambda>_ sn. case Pop (nd_maxTxPerBlk (snd sn)) (nd_mempool (snd sn)) of (txs, mp) \<Rightarrow> ((fst sn, (snd sn)\<lparr>nd_mempool := mp\<rparr>), [], txs))
         (\<lambda>txs. node_do (\<lambda>now n. n\<lparr>nd_job := Some \<lparr>jb_tip = th,
              jb_header = \<lparr>bh_Height = ht + 1, bh_PrevHash = th, bh_Timestamp = UnixMilli now, bh_Difficulty = nd_difficulty n,
                bh_MinerID = nd_id n, bh_TxRoot = HashTransactions sha txs\<rparr>,
              jb_txs = txs, jb_nonce = 0, jb_attempts = 0\<rparr>\<rparr>) Done)))"

definition mine_lost :: "job \<Rightarrow> prog" where
  "mine_lost j = return_txs (jb_txs j) (node_do (\<lambda>_. count_attempts j) Done)"

definition mine_adopt :: "job \<Rightarrow> block \<Rightarrow> add_result \<Rightarrow> prog" where
  "mine_adopt j b res =
     (let tell = (if ar_IsNewTip res then emit (\<lambda>now sn. [announce now (snd sn) b (blk_Hash b)]) Done else Done);
          finish = node_do (\<lambda>_. count_attempts j) tell;
          report = (if ar_IsNewTip res then look (\<lambda>_ sn. nd_id (snd sn)) (\<lambda>i. report_tip i (ar_Reorg res) finish) else finish);
          mined = node_do (\<lambda>_ n. n\<lparr>nd_minedBlocks := nd_minedBlocks n + 1\<rparr>) report;
          clear = (if ar_IsNewTip res then remove_txs b mined else mined)
      in case ar_Reorg res of None \<Rightarrow> clear | Some r \<Rightarrow> apply_reorg r clear)"

definition mine_hit :: "digest \<Rightarrow> (hash \<times> block) ranging \<Rightarrow> job \<Rightarrow> hash \<Rightarrow> prog" where
  "mine_hit sha ord j h =
     look (\<lambda>_ sn. TipHash (nd_chain (snd sn))) (\<lambda>th. if th \<noteq> jb_tip j then mine_lost j
     else let b = \<lparr>blk_Header = jb_header j, blk_Nonce = jb_nonce j, blk_Hash = h, blk_Txs = jb_txs j\<rparr> in
       add_block sha ord b (\<lambda>res failed. if failed \<or> \<not> ar_Added res then mine_lost j else mine_adopt j b res))"

definition mine_attempt :: "digest \<Rightarrow> (hash \<times> block) ranging \<Rightarrow> prog" where
  "mine_attempt sha ord =
     look (\<lambda>_ sn. (nd_job (snd sn), nd_difficulty (snd sn))) (\<lambda>(job, d). case job of
       None \<Rightarrow> Done
     | Some j \<Rightarrow>
         let j = j\<lparr>jb_attempts := jb_attempts j + 1\<rparr>;
             again = node_do (\<lambda>_ n. n\<lparr>nd_job := Some (j\<lparr>jb_nonce := jb_nonce j + 1\<rparr>)\<rparr>) Done
         in (case HashHeaderNonce sha (jb_header j) (jb_nonce j) of
               Inl err \<Rightarrow> again
             | Inr h \<Rightarrow> if MeetsDifficulty h d then mine_hit sha ord j h else again))"

definition mine_quit :: prog where
  "mine_quit = look (\<lambda>_ sn. nd_job (snd sn)) (\<lambda>job. case job of
     None \<Rightarrow> Done | Some j \<Rightarrow> node_do (\<lambda>_. count_attempts j) (return_txs (jb_txs j) Done))"

end
