(* ===== verification/SafeSteps.thy ===== *)
theory SafeSteps
  imports Goroutines
begin

text \<open>
  Every critical section of every program of \<open>Goroutines\<close> keeps the invariant of the node, whatever the
  other goroutines have done since the section before it.
\<close>

section \<open>Safe programs\<close>

text \<open>
  Each section of the program, run at any later time in any state that satisfies the invariant, keeps it; what
  the sections before have read may be out of date.
\<close>

primrec safe :: "(gotime \<Rightarrow> syncer \<times> node \<Rightarrow> bool) \<Rightarrow> prog \<Rightarrow> gotime \<Rightarrow> bool" where
  "safe I Done = (\<lambda>t. True)"
| "safe I Panic = (\<lambda>t. True)"
| "safe I (Act f k) = (\<lambda>t. \<forall>now sn. t \<le> now \<longrightarrow> I now sn \<longrightarrow> I now (fst (f now sn)) \<and> safe I (k now sn) now)"

named_theorems safe_intro \<open>rules for safe programs\<close>

lemma safe_later: "safe I p t \<Longrightarrow> t \<le> u \<Longrightarrow> safe I p u"
  by (cases p) auto

lemma safe_ends [safe_intro]: "safe I Done t" "safe I Panic t"
  by simp_all

lemma safe_act:
  assumes "\<And>now s n. t \<le> now \<Longrightarrow> I now (s, n) \<Longrightarrow> I now (fst (f now (s, n))) \<and> safe I (k (snd (snd (f now (s, n))))) now"
  shows "safe I (act f k) t"
  using assms by (fastforce simp: act_def split: prod.split)

lemma safe_look:
  "(\<And>now s n. t \<le> now \<Longrightarrow> I now (s, n) \<Longrightarrow> safe I (k (g now (s, n))) now) \<Longrightarrow> safe I (look g k) t"
  unfolding look_def by (rule safe_act) simp

lemma safe_look_any [safe_intro]: "(\<And>x u. t \<le> u \<Longrightarrow> safe I (k x) u) \<Longrightarrow> safe I (look g k) t"
  by (rule safe_look) blast

lemma safe_sync_do:
  assumes "\<And>now s n. I now (s, n) \<Longrightarrow> t \<le> now \<Longrightarrow> I now (f now s, n)" "safe I k t" shows "safe I (sync_do f k) t"
  unfolding sync_do_def by (rule safe_act) (use assms safe_later in auto)

lemma safe_node_do:
  assumes "\<And>now s n. I now (s, n) \<Longrightarrow> I now (s, f now n)" "safe I k t" shows "safe I (node_do f k) t"
  unfolding node_do_def by (rule safe_act) (use assms safe_later in auto)

lemma safe_emit [safe_intro]: "safe I k t \<Longrightarrow> safe I (emit e k) t"
  unfolding emit_def by (rule safe_act) (auto intro: safe_later)

lemma safe_each:
  assumes "\<And>x k. x \<in> set xs \<Longrightarrow> safe I k t \<Longrightarrow> safe I (f x k) t" "safe I k t" shows "safe I (each f xs k) t"
  using assms by (induction xs) auto

lemma safe_if_wired [safe_intro]: "safe I k t \<Longrightarrow> safe I p t \<Longrightarrow> safe I (if_wired k p) t"
  unfolding if_wired_def by (rule safe_look_any) (auto intro: safe_later)

section \<open>The invariant of a node between two sections\<close>

text \<open>
  The header of the miner's job names the tip the job was begun on and fits its transactions. Its height was
  read separately, so it need not be the successor of the height of that tip.
\<close>

definition job_form :: "digest \<Rightarrow> uint32 \<Rightarrow> string \<Rightarrow> job \<Rightarrow> bool" where
  "job_form sha d i j \<longleftrightarrow> bh_PrevHash (jb_header j) = jb_tip j \<and> bh_Difficulty (jb_header j) = d \<and> bh_MinerID (jb_header j) = i
     \<and> bh_TxRoot (jb_header j) = HashTransactions sha (jb_txs j)"

definition between :: "digest \<Rightarrow> (hash \<times> block) ranging \<Rightarrow> uint32 \<Rightarrow> string \<Rightarrow> gotime \<Rightarrow> syncer \<times> node \<Rightarrow> bool" where
  "between sha ord d i now sn \<longleftrightarrow>
     core_inv (fst sn) \<and> self_id (fst sn) = i \<and> sc_Transport (sy_cfg (fst sn)) \<and> sc_Chain (sy_cfg (fst sn))
     \<and> chain_reachable sha ord (nd_chain (snd sn)) \<and> bc_difficulty (nd_chain (snd sn)) = d
     \<and> nd_difficulty (snd sn) = d \<and> nd_id (snd sn) = i \<and> pool_reachable (nd_mempool (snd sn))
     \<and> (\<forall>j. nd_job (snd sn) = Some j \<longrightarrow> job_form sha d i j) \<and> probes_before now (snd sn)"

lemma between_later: "between sha ord d i t sn \<Longrightarrow> t \<le> u \<Longrightarrow> between sha ord d i u sn"
  by (fastforce simp: between_def probes_before_def)

lemma between_sync:
  "between sha ord d i now (s, n) \<Longrightarrow> core_inv s' \<Longrightarrow> sy_cfg s' = sy_cfg s \<Longrightarrow> between sha ord d i now (s', n)"
  by (simp add: between_def)

lemma between_core: "between sha ord d i now (s, n) \<Longrightarrow> core_inv s"
  by (simp add: between_def)

lemma between_pool:
  "between sha ord d i now (s, n) \<Longrightarrow> (pool_reachable (nd_mempool n) \<Longrightarrow> pool_reachable mp) \<Longrightarrow>
     between sha ord d i now (s, n\<lparr>nd_mempool := mp\<rparr>)"
  by (simp add: between_def probes_before_def)

lemma between_frame:
  assumes "between sha ord d i now (s, n)" "nd_chain n' = nd_chain n" "nd_difficulty n' = nd_difficulty n" "nd_id n' = nd_id n"
    "nd_mempool n' = nd_mempool n" "nd_job n' = nd_job n \<or> nd_job n' = None" "nd_pendingRPC n' = nd_pendingRPC n"
  shows "between sha ord d i now (s, n')"
  using assms by (auto simp: between_def probes_before_def)

lemma core_frame:
  assumes "core_inv s" "sy_cfg s' = sy_cfg s" "sy_inflightBlocks s' = sy_inflightBlocks s" "sy_parent s' = sy_parent s"
    "sy_sync s' = sy_sync s" "sy_inv s' = sy_inv s" "0 \<le> sy_headerRetries s'" "peers_good (sy_peers s')"
  shows "core_inv s'"
  using assms by (simp add: core_inv_def window_ok_def)

lemma coreD:
  assumes "core_inv s"
  shows "0 \<le> sy_headerRetries s" "peers_good (sy_peers s)" "window_ok s" "config_ok (sy_cfg s)"
  using assms by (simp_all add: core_inv_def)

lemma core_drop:
  assumes "core_inv s" shows "core_inv (enterBackoff now s)" "core_inv (resetSyncState s)"
  using assms unfolding enterBackoff_def resetSyncState_def core_inv_def
  by (auto intro!: drop_sync_work_window elim!: window_frame [rotated 2])

lemma core_arrived: "core_inv s \<Longrightarrow> core_inv (onBlockArrived h s)"
  using window_arrived [of s h] by (simp add: core_inv_def onBlockArrived_def)

lemma core_enqueue: "core_inv s \<Longrightarrow> h \<noteq> 0 \<Longrightarrow> core_inv (enqueue_locked h p kind s)"
  by (auto simp: enqueue_locked_def core_inv_def window_ok_def wanted_add_ok split: req_kind.split)

lemma core_dispatch:
  assumes "core_inv s" "dispatch_locked now bc best s = (s', sends, batches)"
  shows "core_inv s' \<and> sy_cfg s' = sy_cfg s"
proof -
  obtain s1 sends1 where f: "dispatch_front now bc best (s, []) = (s1, sends1)" by fastforce
  let ?p = "if sy_syncPeer s1 = '''' then best else sy_syncPeer s1"
  obtain s2 b2 where g: "dispatch_sync now bc ?p s1 [] = (s2, b2)" by fastforce
  obtain s3 sends3 where h: "dispatch_inv now bc best (s2, sends1) = (s3, sends3)" by fastforce
  have 1: "core_inv s1" "\<exists>hs. dispatched now bc s s1 hs" using dispatch_front_ok [OF assms(1) f] by auto
  have 2: "core_inv s2" "\<exists>hs. dispatched now bc s1 s2 hs" using dispatch_sync_ok [OF 1(1) g] by auto
  have 3: "core_inv s3" "\<exists>hs. dispatched now bc s2 s3 hs" using dispatch_inv_ok [OF 2(1) h] by auto
  have "sy_cfg s3 = sy_cfg s" using 1(2) 2(2) 3(2) dispatched_fields(1) by metis
  moreover have "s' = s3" using assms(2) g h by (simp add: dispatch_locked_def f)
  ultimately show ?thesis using 3(1) by simp
qed

lemma core_tick:
  assumes "core_inv s" "fair_orders od" "tick_locked od now best s = (s', t)"
  shows "core_inv s' \<and> sy_cfg s' = sy_cfg s"
proof -
  have "fair_ranging (od_inflight od)" using assms(2) by (simp add: fair_orders_def)
  from tick_window(1,2) [OF coreD(3) [OF assms(1)] this assms(3) [unfolded tick_locked_def]] assms(1) show ?thesis
    by (auto simp: core_inv_def tick_frame_def)
qed

lemma add_reachable:
  assumes "chain_reachable sha ord bc" "fair_ranging ord" "AddBlock sha ord b bc = Some (res, err, bc')"
  shows "chain_reachable sha ord bc'" "bc_difficulty bc' = bc_difficulty bc"
proof -
  have inv: "chain_inv sha bc" "orphans_waiting bc" using chain_reachable_inv [OF assms(1,2)] by auto
  show "chain_reachable sha ord bc'" by (rule chain_reachable.add [OF assms(1,3)])
  from AddBlock_ok [OF inv, of ord b] obtain res' err' mid bc2 where
    "AddBlock sha ord b bc = Some (res', err', bc2)" "extends bc mid" "extends mid bc2" by metis
  then show "bc_difficulty bc' = bc_difficulty bc" using assms(3) by (auto simp: extends_def)
qed

lemma safe_sync:
  assumes "\<And>now s. t \<le> now \<Longrightarrow> core_inv s \<Longrightarrow> core_inv (f now s) \<and> sy_cfg (f now s) = sy_cfg s" "safe (between sha ord d i) k t"
  shows "safe (between sha ord d i) (sync_do f k) t"
proof (rule safe_sync_do [OF _ assms(2)])
  fix now s n assume b: "between sha ord d i now (s, n)" and t: "t \<le> now"
  from assms(1) [OF t between_core [OF b]] show "between sha ord d i now (f now s, n)" using between_sync [OF b] by blast
qed

lemma safe_act_sync:
  assumes "\<And>now s n. core_inv s \<Longrightarrow> \<exists>s'. fst (f now (s, n)) = (s', n) \<and> core_inv s' \<and> sy_cfg s' = sy_cfg s"
    and "\<And>x u. t \<le> u \<Longrightarrow> safe (between sha ord d i) (k x) u"
  shows "safe (between sha ord d i) (act f k) t"
proof (rule safe_act)
  fix now s n assume "t \<le> now" and b: "between sha ord d i now (s, n)"
  from assms(1) [OF between_core [OF b], of now n] between_sync [OF b] assms(2) [OF this(1)]
  show "between sha ord d i now (fst (f now (s, n))) \<and> safe (between sha ord d i) (k (snd (snd (f now (s, n))))) now" by auto
qed

section \<open>Programs on the chain and the queues\<close>

lemma safe_has_block [safe_intro]: "(\<And>x u. t \<le> u \<Longrightarrow> safe I (k x) u) \<Longrightarrow> safe I (has_block h k) t"
  unfolding has_block_def by (rule safe_look_any)

lemma safe_enqueue [safe_intro]:
  assumes "safe (between sha ord d i) k t" shows "safe (between sha ord d i) (enqueue h p kind k) t"
proof -
  have "sy_cfg (enqueue_locked h p kind s) = sy_cfg s" for s by (simp add: enqueue_locked_def split: req_kind.split)
  then have "safe (between sha ord d i) (sync_do (\<lambda>_. enqueue_locked h p kind) k) u" if "h \<noteq> 0" "t \<le> u" for u
    by (intro safe_sync safe_later [OF assms that(2)]) (simp add: core_enqueue that(1))
  note f = this
  have "safe (between sha ord d i) (has_block h (\<lambda>known. if known then k else sync_do (\<lambda>_. enqueue_locked h p kind) k)) t" if "h \<noteq> 0"
    by (rule safe_has_block) (simp add: f [OF that] safe_later [OF assms])
  then show ?thesis unfolding enqueue_def by (intro safe_if_wired assms) (simp add: assms)
qed

lemma safe_ask_best [safe_intro]: "(\<And>x u. t \<le> u \<Longrightarrow> safe I (k x) u) \<Longrightarrow> safe I (ask_best od now k) t"
  unfolding ask_best_def by (rule safe_look_any) (simp split: option.split)

lemma safe_send_block: "safe I k t \<Longrightarrow> safe I (send_block r k) t"
  unfolding send_block_def by (rule safe_emit)

lemma safe_send_batch: "safe I k t \<Longrightarrow> safe I (send_batch b k) t"
  unfolding send_batch_def by (rule safe_emit)

lemma safe_dispatch [safe_intro]:
  assumes "safe (between sha ord d i) k t" shows "safe (between sha ord d i) (dispatch od view now k) t"
  unfolding dispatch_def
proof (intro safe_if_wired assms safe_ask_best)
  fix best u assume u: "t \<le> u"
  show "safe (between sha ord d i) (act (\<lambda>_ sn. case dispatch_locked now (view (nd_chain (snd sn))) best (fst sn) of
      (s, sends, batches) \<Rightarrow> ((s, snd sn), [], (sends, batches))) (\<lambda>(sends, batches). each send_block sends (each send_batch batches k))) u"
  proof (rule safe_act)
    fix now' s n assume u': "u \<le> now'" and b: "between sha ord d i now' (s, n)"
    obtain s' sends batches where l: "dispatch_locked now (view (nd_chain n)) best s = (s', sends, batches)" by (metis prod_cases3)
    have "safe (between sha ord d i) (each send_block sends (each send_batch batches k)) now'"
      using safe_later [OF assms] u u' by (intro safe_each safe_send_block safe_send_batch) auto
    with core_dispatch [OF between_core [OF b] l] between_sync [OF b] l
    show "between sha ord d i now' (fst (case dispatch_locked now (view (nd_chain (snd (s, n)))) best (fst (s, n)) of
          (s', sends, batches) \<Rightarrow> ((s', snd (s, n)), [], sends, batches))) \<and>
        safe (between sha ord d i) (case snd (snd (case dispatch_locked now (view (nd_chain (snd (s, n)))) best (fst (s, n)) of
          (s', sends, batches) \<Rightarrow> ((s', snd (s, n)), [], sends, batches))) of
          (sends, batches) \<Rightarrow> each send_block sends (each send_batch batches k)) now'"
      by simp
  qed
qed

section \<open>Programs on blocks\<close>

lemma safe_return_txs [safe_intro]: "safe (between sha ord d i) k t \<Longrightarrow> safe (between sha ord d i) (return_txs txs k) t"
  unfolding return_txs_def by (intro safe_each safe_node_do between_pool pool_reachable.add)

lemma safe_remove_ids [safe_intro]: "safe (between sha ord d i) k t \<Longrightarrow> safe (between sha ord d i) (remove_ids ids k) t"
  unfolding remove_ids_def by (intro safe_node_do between_pool pool_reachable.remove)

lemma safe_reorg_returns: "safe (between sha ord d i) k t \<Longrightarrow> safe (between sha ord d i) (reorg_returns bs k) t"
  by (induction bs k rule: reorg_returns.induct) (auto intro: safe_return_txs)

lemma safe_apply_reorg [safe_intro]: "safe (between sha ord d i) k t \<Longrightarrow> safe (between sha ord d i) (apply_reorg r k) t"
  unfolding apply_reorg_def by (rule safe_reorg_returns) (auto intro: safe_remove_ids split: option.split)

lemma safe_remove_txs [safe_intro]: "safe (between sha ord d i) k t \<Longrightarrow> safe (between sha ord d i) (remove_txs b k) t"
  by (simp add: remove_txs_def safe_remove_ids)

lemma safe_add_block:
  assumes "fair_ranging ord" "\<And>res failed u. t \<le> u \<Longrightarrow> safe (between sha ord d i) (k res failed) u"
  shows "safe (between sha ord d i) (add_block sha ord b k) t"
  unfolding add_block_def
proof (rule safe_act)
  fix now s n assume u: "t \<le> now" and b: "between sha ord d i now (s, n)"
  let ?f = "\<lambda>(_ :: gotime) sn :: syncer \<times> node. case AddBlock sha ord (Some b) (nd_chain (snd sn)) of None \<Rightarrow> (sn, [], None)
    | Some (res, err, bc) \<Rightarrow> ((fst sn, (snd sn)\<lparr>nd_chain := bc\<rparr>), [] :: node_effect list, Some (res, err \<noteq> None))"
  have r: "chain_reachable sha ord (nd_chain n)" using b by (simp add: between_def)
  have "between sha ord d i now (s, n\<lparr>nd_chain := bc\<rparr>)" if "AddBlock sha ord (Some b) (nd_chain n) = Some (res, err, bc)" for res err bc
    using add_reachable [OF r assms(1) that] b by (simp add: between_def probes_before_def)
  then show "between sha ord d i now (fst (?f now (s, n))) \<and> safe (between sha ord d i)
      (case snd (snd (?f now (s, n))) of None \<Rightarrow> Panic | Some (res, failed) \<Rightarrow> k res failed) now"
    using b assms(2) [OF u] by (auto split: option.split)
qed

lemma safe_report_tip [safe_intro]: "safe I k t \<Longrightarrow> safe I (report_tip p r k) t"
  unfolding report_tip_def by (intro safe_look_any safe_emit) (rule safe_later, assumption, simp)

lemma safe_on_new_block [safe_intro]:
  assumes "fair_ranging ord" "safe (between sha ord d i) k t"
  shows "safe (between sha ord d i) (on_new_block sha ord b p k) t"
  unfolding on_new_block_def
proof (rule safe_add_block [OF assms(1)])
  fix res failed u assume "t \<le> u"
  then have k: "safe (between sha ord d i) k u" by (rule safe_later [OF assms(2)])
  then have e: "safe (between sha ord d i) (emit (\<lambda>now sn. [announce now (snd sn) b (claimed_hash sha b)]) (report_tip p (ar_Reorg res) k)) u"
    by (intro safe_intro)
  show "safe (between sha ord d i) (if failed \<or> \<not> ar_Added res then k
      else node_do (\<lambda>_ n. n\<lparr>nd_recvBlocks := nd_recvBlocks n + 1\<rparr>)
        (let rest = (if ar_IsNewTip res then emit (\<lambda>now sn. [announce now (snd sn) b (claimed_hash sha b)]) (report_tip p (ar_Reorg res) k) else k)
         in case ar_Reorg res of Some r \<Rightarrow> apply_reorg r rest | None \<Rightarrow> if ar_IsNewTip res then remove_txs b rest else rest)) u"
    using k e by (auto simp: Let_def split: option.split elim!: between_frame intro!: safe_node_do safe_apply_reorg safe_remove_txs)
qed

section \<open>Programs on messages\<close>

lemma safe_got_block [safe_intro]: "safe (between sha ord d i) k t \<Longrightarrow> safe (between sha ord d i) (got_block h k) t"
  unfolding got_block_def
  by (rule safe_sync) (simp_all add: core_arrived, simp add: onBlockArrived_def)

lemma safe_record_request [safe_intro]:
  assumes "safe (between sha ord d i) k t" shows "safe (between sha ord d i) (record_request h p k) t"
  unfolding record_request_def
  by (intro safe_look_any) (auto split: option.split intro!: safe_sync simp: core_inv_def window_ok_def intro: safe_later [OF assms])

lemma safe_handle_inv_block [safe_intro]:
  assumes "safe (between sha ord d i) k t" shows "safe (between sha ord d i) (handle_inv_block sha' od view meta p k) t"
proof -
  note k = safe_later [OF assms]
  have rest: "safe (between sha ord d i) (enqueue h p BlkInv (look (\<lambda>now _. now) (\<lambda>now. dispatch od view now k))) u" if "t \<le> u" for u h
    using that by (intro safe_enqueue safe_look_any safe_dispatch k) auto
  show ?thesis unfolding handle_inv_block_def
    by (intro safe_if_wired assms) (auto simp: Let_def split: sum.split intro!: assms safe_has_block safe_look_any k rest safe_enqueue safe_dispatch)
qed

lemma safe_handle_block [safe_intro]:
  "fair_ranging ord \<Longrightarrow> safe (between sha ord d i) k t \<Longrightarrow> safe (between sha ord d i) (handle_block sha ord b p k) t"
  unfolding handle_block_def Let_def by (intro safe_intro)

lemma safe_handle_blocks [safe_intro]:
  assumes "fair_ranging ord" "safe (between sha ord d i) k t"
  shows "safe (between sha ord d i) (handle_blocks sha ord bs p k) t"
proof -
  have "safe (between sha ord d i) (each (\<lambda>b k. case b of None \<Rightarrow> k
      | Some b \<Rightarrow> got_block (claimed_hash sha b) (on_new_block sha ord b p k)) bs k) t"
    using assms by (intro safe_each) (auto split: option.split intro!: safe_intro)
  then show ?thesis using assms(2) by (auto simp: handle_blocks_def Let_def split: option.split intro!: safe_intro)
qed

section \<open>Programs on transactions and requests\<close>

lemma safe_has_tx [safe_intro]: "(\<And>x u. t \<le> u \<Longrightarrow> safe I (k x) u) \<Longrightarrow> safe I (has_tx h k) t"
  unfolding has_tx_def by (rule safe_look_any)

lemma safe_add_tx [safe_intro]:
  assumes "\<And>x u. t \<le> u \<Longrightarrow> safe (between sha ord d i) (k x) u" shows "safe (between sha ord d i) (add_tx tx k) t"
  unfolding add_tx_def
proof (rule safe_act)
  fix now s n assume t: "t \<le> now" and b: "between sha ord d i now (s, n)"
  obtain a mp where a: "Add now tx (nd_mempool n) = (a, mp)" by fastforce
  have "between sha ord d i now (s, n\<lparr>nd_mempool := mp\<rparr>)"
    by (rule between_pool [OF b]) (metis a pool_reachable.add snd_conv)
  then show "between sha ord d i now (fst (case Add now tx (nd_mempool (snd (s, n))) of (added, mp) \<Rightarrow>
        ((fst (s, n), (snd (s, n))\<lparr>nd_mempool := mp\<rparr>), [], added))) \<and>
      safe (between sha ord d i) (k (snd (snd (case Add now tx (nd_mempool (snd (s, n))) of (added, mp) \<Rightarrow>
        ((fst (s, n), (snd (s, n))\<lparr>nd_mempool := mp\<rparr>), [], added))))) now"
    using assms [OF t] by (simp add: a)
qed

lemma safe_handle_inv_tx [safe_intro]:
  assumes "safe (between sha ord d i) k t" shows "safe (between sha ord d i) (handle_inv_tx txid p k) t"
proof -
  let ?f = "\<lambda>(_ :: gotime) (sn :: syncer \<times> node). let s = fst sn in if txid \<in> sy_inflightTx s then (sn, [] :: node_effect list, False)
    else ((s\<lparr>sy_inflightTx := insert txid (sy_inflightTx s)\<rparr>, snd sn), [], True)"
  have "safe (between sha ord d i) (act ?f (\<lambda>fresh. if \<not> fresh then k
        else emit (\<lambda>_ sn. [Net (StartTxTimer txid (sc_SyncTimeout (sy_cfg (fst sn))))])
          (emit (\<lambda>now sn. [Net (Send p (direct_message now (self_id (fst sn)) p '''' MsgGetTx (GetTxPayload txid)))]) k))) u"
    if "t \<le> u" for u
  proof (rule safe_act)
    fix now s n assume u: "u \<le> now" and b: "between sha ord d i now (s, n)"
    have k: "safe (between sha ord d i) k now" using safe_later [OF assms] that u by simp
    have "between sha ord d i now (s\<lparr>sy_inflightTx := x\<rparr>, n)" for x
      by (rule between_sync [OF b]) (use between_core [OF b] in \<open>simp_all add: core_inv_def window_ok_def\<close>)
    with b k show "between sha ord d i now (fst (?f now (s, n))) \<and> safe (between sha ord d i) (if \<not> snd (snd (?f now (s, n))) then k
        else emit (\<lambda>_ sn. [Net (StartTxTimer txid (sc_SyncTimeout (sy_cfg (fst sn))))])
          (emit (\<lambda>now sn. [Net (Send p (direct_message now (self_id (fst sn)) p '''' MsgGetTx (GetTxPayload txid)))]) k)) now"
      by (auto simp: Let_def intro: safe_emit)
  qed
  then show ?thesis unfolding handle_inv_tx_def by (intro safe_look_any) (auto intro!: safe_has_tx safe_later [OF assms])
qed

lemma safe_remember: "safe (between sha ord d i) k t \<Longrightarrow> safe (between sha ord d i) (node_do (\<lambda>_. rememberTx tx) k) t"
  by (rule safe_node_do) (auto elim: between_frame simp: rememberTx_def)

lemma safe_accept_tx [safe_intro]:
  assumes "\<And>x u. t \<le> u \<Longrightarrow> safe (between sha ord d i) (k x) u" shows "safe (between sha ord d i) (accept_tx tx k) t"
  unfolding accept_tx_def using assms by (auto intro!: safe_has_tx safe_add_tx safe_remember)

lemma safe_handle_tx [safe_intro]:
  assumes "safe (between sha ord d i) k t" shows "safe (between sha ord d i) (handle_tx tx p k) t"
proof -
  have "safe (between sha ord d i) (if \<not> added then k else look (\<lambda>_ sn. sc_Transport (sy_cfg (fst sn)))
      (\<lambda>on. if \<not> on then k else announce_tx (tx_ID tx) k)) u" if "t \<le> u" for added u
    using that by (auto simp: announce_tx_def intro!: safe_look_any safe_emit safe_later [OF assms])
  then show ?thesis unfolding handle_tx_def
    by (auto intro!: safe_sync safe_accept_tx assms simp: forget_tx_request_def core_inv_def window_ok_def)
qed

text \<open>The start of a probe lies in the past, so its round trip time is not negative.\<close>

definition call_before :: "gotime \<Rightarrow> rpc_call \<Rightarrow> bool" where
  "call_before t c \<longleftrightarrow> (\<forall>p st. c = ProbeCall p st \<longrightarrow> st \<le> t)"

lemma core_probe: "core_inv s \<Longrightarrow> 0 \<le> rtt \<Longrightarrow> core_inv (probe_result now p resp rtt s)"
  using peers_good_report peers_good_tip by (auto simp: probe_result_def core_inv_def window_ok_def split: option.split)

lemma safe_rpc_back [safe_intro]:
  assumes "call_before t c" "safe (between sha ord d i) k t" shows "safe (between sha ord d i) (rpc_back late c resp k) t"
proof (cases c)
  case (HeaderCall p)
  then show ?thesis using assms(2)
    by (auto simp: rpc_back_def intro!: safe_sync) (simp_all add: header_reply_def core_inv_def window_ok_def Let_def)
next
  case (ProbeCall p start)
  have "safe (between sha ord d i) (sync_do (\<lambda>now. probe_result now p r (u - start)) k) u" if "t \<le> u" for u r
    using that assms ProbeCall
    by (intro safe_sync safe_later [OF assms(2)]) (auto simp: core_probe call_before_def, simp add: probe_result_def split: option.split)
  then show ?thesis by (auto simp: rpc_back_def ProbeCall intro!: safe_look)
qed

lemma safe_take_call:
  assumes "\<And>c u. t \<le> u \<Longrightarrow> (\<And>x. c = Some x \<Longrightarrow> call_before u x) \<Longrightarrow> safe (between sha ord d i) (k c) u"
  shows "safe (between sha ord d i) (take_call tr k) t"
  unfolding take_call_def
proof (rule safe_act)
  fix now s n assume t: "t \<le> now" and b: "between sha ord d i now (s, n)"
  have "call_before now x" if "nd_pendingRPC n tr = Some x" for x
    using b that by (auto simp: between_def probes_before_def call_before_def)
  from assms [OF t this] b show "between sha ord d i now (fst ((fst (s, n), (snd (s, n))\<lparr>nd_pendingRPC := (nd_pendingRPC (snd (s, n)))(tr := None)\<rparr>),
        [] :: node_effect list, nd_pendingRPC (snd (s, n)) tr)) \<and>
      safe (between sha ord d i) (k (snd (snd ((fst (s, n), (snd (s, n))\<lparr>nd_pendingRPC := (nd_pendingRPC (snd (s, n)))(tr := None)\<rparr>),
        [] :: node_effect list, nd_pendingRPC (snd (s, n)) tr)))) now"
    by (auto simp: between_def probes_before_def)
qed

lemma safe_send_to [safe_intro]: "safe I k t \<Longrightarrow> safe I (send_to p m k) t"
  unfolding send_to_def by (rule safe_emit)

lemma safe_rpc_start:
  assumes "call_before t c" "safe (between sha ord d i) k t" shows "safe (between sha ord d i) (rpc_start to typ pl c k) t"
proof (cases "to = ''''")
  case False
  have "safe (between sha ord d i) (node_do (\<lambda>_ n. n\<lparr>nd_pendingRPC := (nd_pendingRPC n)(tr \<mapsto> c)\<rparr>) k') u"
    if "safe (between sha ord d i) k' u" "t \<le> u" for tr k' u
  proof -
    have "safe (between sha ord d i) (act (\<lambda>_ sn. ((fst sn, (snd sn)\<lparr>nd_pendingRPC := (nd_pendingRPC (snd sn))(tr \<mapsto> c)\<rparr>), [], ())) (\<lambda>_. k')) u"
      using that assms(1) safe_later [OF that(1)]
      by (intro safe_act) (auto simp: between_def probes_before_def call_before_def)
    then show ?thesis by (simp add: node_do_def)
  qed
  note n = this
  show ?thesis unfolding rpc_start_def using False
    by (auto simp: Let_def intro!: safe_act n safe_send_to safe_later [OF assms(2)] elim!: between_frame)
qed (use assms in \<open>simp add: rpc_start_def safe_rpc_back\<close>)

section \<open>The router\<close>

lemma safe_get_tx [safe_intro]: "safe I k t \<Longrightarrow> safe I (get_tx txid p k) t"
  by (auto simp: get_tx_def split: option.split intro!: safe_look_any safe_send_to intro: safe_later)

lemma safe_get_block [safe_intro]: "safe I k t \<Longrightarrow> safe I (get_block h p k) t"
  by (auto simp: get_block_def block_by_hash_def split: option.split intro!: safe_look_any safe_send_to intro: safe_later)

lemma safe_get_tip [safe_intro]: "safe I k t \<Longrightarrow> safe I (get_tip p tr k) t"
  by (auto simp: get_tip_def split: option.split intro!: safe_look_any safe_send_to intro: safe_later)

lemma safe_get_headers [safe_intro]: "safe I k t \<Longrightarrow> safe I (get_headers loc mx p tr k) t"
  by (auto simp: get_headers_def split: option.split intro!: safe_look_any safe_send_to intro: safe_later)

lemma safe_collect_blocks: "(\<And>bs u. t \<le> u \<Longrightarrow> safe I (k bs) u) \<Longrightarrow> safe I (collect_blocks hs acc k) t"
  by (induction hs arbitrary: acc t) (auto simp: block_by_hash_def split: option.split intro!: safe_look_any)

lemma safe_get_blocks [safe_intro]: "safe I k t \<Longrightarrow> safe I (get_blocks hs p tr k) t"
  by (auto simp: get_blocks_def intro!: safe_collect_blocks safe_send_to intro: safe_later)

lemma safe_route: "fair_ranging ord \<Longrightarrow> safe (between sha ord d i) (route sha ord od view msg) t"
  unfolding route_def Let_def by (auto split: payload.split option.split intro!: safe_intro)

lemma safe_message:
  assumes "fair_ranging ord" shows "safe (between sha ord d i) (message_prog sha ord od view late msg) t"
proof -
  have "safe (between sha ord d i) (take_call tr (\<lambda>c. case c of None \<Rightarrow> route sha ord od view msg
      | Some c \<Rightarrow> rpc_back late c (Some msg) Done)) t" for tr
  proof (rule safe_take_call)
    fix c u assume "\<And>x. c = Some x \<Longrightarrow> call_before u x"
    then show "safe (between sha ord d i) (case c of None \<Rightarrow> route sha ord od view msg | Some c \<Rightarrow> rpc_back late c (Some msg) Done) u"
      using safe_rpc_back [OF _ safe_ends(1)] by (cases c) (simp_all add: safe_route assms)
  qed
  then show ?thesis by (simp add: message_prog_def safe_route assms)
qed

section \<open>The loop of the syncer\<close>

lemma safe_report_timeout [safe_intro]: "safe (between sha ord d i) k t \<Longrightarrow> safe (between sha ord d i) (report_timeout p k) t"
  unfolding report_timeout_def
  by (rule safe_sync) (auto simp: core_inv_def window_ok_def intro: peers_good_report)

lemma safe_backoff: "safe (between sha ord d i) k t \<Longrightarrow> safe (between sha ord d i) (sync_do (\<lambda>_. enterBackoff now) k) t"
  by (rule safe_sync) (auto simp: core_drop, simp add: enterBackoff_def)

lemma safe_tick_inflight [safe_intro]:
  assumes "fair_orders od" "safe (between sha ord d i) k t" shows "safe (between sha ord d i) (tick_inflight od now k) t"
proof -
  note k = safe_later [OF assms(2)]
  let ?k = "\<lambda>t. each report_timeout (tk_timeouts t) (each send_block (tk_sends t)
      (look (\<lambda>_ sn. if sc_BlocksBatchSize (sy_cfg (fst sn)) \<le> 0 then 1 else sc_BlocksBatchSize (sy_cfg (fst sn)))
        (\<lambda>bs. each (\<lambda>(p, hs). each (\<lambda>c. send_batch (p, c)) (chunks (nat bs) hs)) (od_retry od 0 (tk_retrySync t))
          (if tk_syncFailed t then sync_do (\<lambda>_. enterBackoff now) k else k))))"
  have rest: "safe (between sha ord d i) (?k tk) u" if "t \<le> u" for tk u
    using that by (auto intro!: safe_each safe_report_timeout safe_send_block safe_look_any safe_send_batch safe_backoff k)
  have "safe (between sha ord d i) (act (\<lambda>_ sn. case tick_locked od now best (fst sn) of (s, t) \<Rightarrow> ((s, snd sn), [], t)) ?k) u"
    if "t \<le> u" for u best
  proof (rule safe_act)
    fix now' s n assume u: "u \<le> now'" and b: "between sha ord d i now' (s, n)"
    obtain s' tk where tk: "tick_locked od now best s = (s', tk)" by fastforce
    have "between sha ord d i now' (s', n)" using between_sync [OF b] core_tick [OF between_core [OF b] assms(1) tk] by blast
    then show "between sha ord d i now' (fst (case tick_locked od now best (fst (s, n)) of (s', t) \<Rightarrow> ((s', snd (s, n)), [] :: node_effect list, t)))
       \<and> safe (between sha ord d i) (?k (snd (snd (case tick_locked od now best (fst (s, n)) of (s', t) \<Rightarrow> ((s', snd (s, n)), [] :: node_effect list, t))))) now'"
      using rest [of now' tk] that u by (simp add: tk)
  qed
  then show ?thesis unfolding tick_inflight_def
    by (intro safe_if_wired assms(2) safe_look_any) (simp add: k safe_ask_best)
qed

lemma safe_queue_metas:
  "(\<And>any u. t \<le> u \<Longrightarrow> safe (between sha ord d i) (k any) u) \<Longrightarrow> safe (between sha ord d i) (queue_metas_prog p ms any k) t"
  by (induction ms arbitrary: any t) (auto intro!: safe_look_any safe_enqueue)

lemma safe_header [safe_intro]:
  assumes "safe (between sha ord d i) k t" shows "safe (between sha ord d i) (header_prog od view now r k) t"
proof -
  note k = safe_later [OF assms]
  have "safe (between sha ord d i) (act (\<lambda>_ sn. let s = (fst sn)\<lparr>sy_headerRetries := sy_headerRetries (fst sn) + 1\<rparr>
                  in ((s, snd sn), [], sy_headerRetries s \<ge> sc_HeaderRetryLimit (sy_cfg s)))
                (\<lambda>shouldBackoff. if shouldBackoff then sync_do (\<lambda>_. enterBackoff now) k else k)) t"
    by (rule safe_act_sync) (auto simp: Let_def k core_inv_def window_ok_def intro!: safe_backoff)
  then show ?thesis unfolding header_prog_def
    by (auto simp: Let_def core_inv_def window_ok_def intro!: safe_sync safe_report_timeout safe_queue_metas safe_dispatch k)
qed

lemma safe_drain [safe_intro]:
  "safe (between sha ord d i) k t \<Longrightarrow> safe (between sha ord d i) (drain_prog od view now m k) t"
proof (induction m arbitrary: t)
  case (Suc m)
  have h: "safe (between sha ord d i) (header_prog od view now r (drain_prog od view now m k)) u" if "t \<le> u" for r u
    by (intro safe_header Suc.IH safe_later [OF Suc.prems that])
  show ?case unfolding drain_prog.simps
    by (rule safe_act_sync) (auto simp: h core_inv_def window_ok_def split: list.split option.split intro: safe_later [OF Suc.prems])
qed simp

lemma safe_header_request [safe_intro]:
  assumes "safe (between sha ord d i) k t" shows "safe (between sha ord d i) (header_request p k) t"
proof -
  note k = safe_later [OF assms]
  let ?f = "\<lambda>(_ :: gotime) (sn :: syncer \<times> node). let s = fst sn in
            if sy_state s \<noteq> SyncingHeaders \<or> sy_headerReqInFlight s then (sn, [] :: node_effect list, False)
            else (let s = s\<lparr>sy_headerReqInFlight := True\<rparr>;
                      s = (if sy_syncPeer s = '''' then s\<lparr>sy_syncPeer := p\<rparr> else s) in ((s, snd sn), [], True))"
  have "safe (between sha ord d i) (look (\<lambda>_ sn. Locator 32 (nd_chain (snd sn))) (\<lambda>loc.
          rpc_start p MsgGetHeaders (GetHeadersPayload loc mx) (HeaderCall p) k)) u" if "t \<le> u" for u mx
    using that by (intro safe_look_any safe_rpc_start k) (auto simp: call_before_def)
  then have "safe (between sha ord d i) (act ?f (\<lambda>go. if \<not> go then k
        else look (\<lambda>_ sn. Locator 32 (nd_chain (snd sn))) (\<lambda>loc.
          rpc_start p MsgGetHeaders (GetHeadersPayload loc mx) (HeaderCall p) k))) u" if "t \<le> u" for u mx
    using that by (intro safe_act_sync) (auto simp: Let_def k core_inv_def window_ok_def)
  then show ?thesis unfolding header_request_def by (intro safe_look_any) (auto intro: k)
qed

lemma safe_advance [safe_intro]:
  assumes "safe (between sha ord d i) k t" shows "safe (between sha ord d i) (advance_prog best k) t"
proof -
  note k = safe_later [OF assms]
  have "safe (between sha ord d i) (case st of SyncingHeaders \<Rightarrow> header_request (if p = '''' then best else p) k
        | SyncingBlocks \<Rightarrow> look (\<lambda>_ sn. syncWorkDone (fst sn)) (\<lambda>done.
            if done then sync_do (\<lambda>_ s. if sy_state s = SyncingBlocks then s\<lparr>sy_state := SyncingHeaders\<rparr> else s) k else k)
        | _ \<Rightarrow> k) u" if "t \<le> u" for st p u
    using that by (auto split: sync_state.split simp: core_inv_def window_ok_def intro!: safe_header_request safe_look_any safe_sync k)
  then show ?thesis unfolding advance_prog_def
    by (intro safe_act_sync) (auto simp: Let_def core_inv_def window_ok_def)
qed

lemma safe_decide [safe_intro]:
  assumes "safe (between sha ord d i) k t" shows "safe (between sha ord d i) (decide_prog od now k) t"
proof -
  note k = safe_later [OF assms]
  have "safe (between sha ord d i) (sync_do (\<lambda>_. resetSyncState) k) u" if "t \<le> u" for u
    using that by (intro safe_sync k) (auto simp: core_drop, simp add: resetSyncState_def)
  then show ?thesis unfolding decide_prog_def
    by (intro safe_look_any) (auto split: option.split prod.split intro!: safe_look_any safe_advance k)
qed

lemma safe_catch_up: "fair_orders od \<Longrightarrow> safe (between sha ord d i) (catch_up_prog od view m) t"
  unfolding catch_up_prog_def
  by (intro safe_look_any)
    (auto simp: leave_backoff_def core_inv_def window_ok_def intro!: safe_look_any safe_tick_inflight safe_dispatch safe_drain safe_sync safe_decide)

lemma core_upsert: "core_inv s \<Longrightarrow> core_inv (s\<lparr>sy_peers := Upsert p (sy_peers s)\<rparr>)"
  using peers_good_upserts [of "sy_peers s" "[p]"] by (simp add: core_inv_def window_ok_def)

lemma safe_probe: "safe (between sha ord d i) (probe_prog ps) t"
  unfolding probe_prog_def
proof (intro safe_look_any)
  fix cfg u
  have "safe (between sha ord d i) (sync_do (\<lambda>_ s. s\<lparr>sy_peers := Upsert p (sy_peers s)\<rparr>)
      (look (\<lambda>now _. now) (\<lambda>start. rpc_start p MsgGetTip GetTipPayload (ProbeCall p start) k))) u"
    if "safe (between sha ord d i) k u" for p k u
    by (intro safe_sync safe_look) (auto simp: core_upsert call_before_def intro!: safe_rpc_start safe_later [OF that])
  then show "safe (between sha ord d i) (if \<not> sc_Transport cfg \<or> \<not> sc_Chain cfg \<or> \<not> sc_RPC cfg then Done
     else each (\<lambda>p k. if p = '''' \<or> p = sc_NodeID cfg then k
            else sync_do (\<lambda>_ s. s\<lparr>sy_peers := Upsert p (sy_peers s)\<rparr>)
              (look (\<lambda>now _. now) (\<lambda>start. rpc_start p MsgGetTip GetTipPayload (ProbeCall p start) k))) ps Done) u"
    by (auto intro!: safe_each)
qed

lemma safe_timeout: "safe (between sha ord d i) (timeout_prog tr) t"
  unfolding timeout_prog_def
proof (rule safe_take_call)
  fix c u assume "\<And>x. c = Some x \<Longrightarrow> call_before u x"
  then show "safe (between sha ord d i) (case c of None \<Rightarrow> Done | Some c \<Rightarrow> rpc_back False c None Done) u"
    using safe_rpc_back [OF _ safe_ends(1)] by (cases c) simp_all
qed

lemma safe_forget: "safe (between sha ord d i) (forget_prog txid) t"
  unfolding forget_prog_def by (auto intro!: safe_sync simp: forget_tx_request_def core_inv_def window_ok_def)

lemma safe_clean: "safe (between sha ord d i) clean_prog t"
  unfolding clean_prog_def mempoolCleanup_def by (auto intro!: safe_node_do between_pool intro: pool_reachable.clean)

lemma safe_submit: "safe (between sha ord d i) (submit_prog tx) t"
  unfolding submit_prog_def Let_def
  by (auto intro!: safe_add_tx safe_look_any safe_has_tx safe_remember safe_emit safe_node_do between_pool pool_reachable.mark)

section \<open>The miner\<close>

lemma safe_mine_start: "safe (between sha ord d i) (mine_start sha) t"
proof -
  have "safe (between sha ord d i) (node_do (\<lambda>now n. n\<lparr>nd_job := Some \<lparr>jb_tip = th,
              jb_header = \<lparr>bh_Height = ht + 1, bh_PrevHash = th, bh_Timestamp = UnixMilli now, bh_Difficulty = nd_difficulty n,
                bh_MinerID = nd_id n, bh_TxRoot = HashTransactions sha txs\<rparr>,
              jb_txs = txs, jb_nonce = 0, jb_attempts = 0\<rparr>\<rparr>) Done) u" for th ht txs u
    by (rule safe_node_do) (simp_all add: between_def job_form_def probes_before_def)
  moreover have "between sha ord d i now (s, n\<lparr>nd_mempool := mp\<rparr>)"
    if "between sha ord d i now (s, n)" "Pop k (nd_mempool n) = (txs, mp)" for now s n k txs mp
    by (rule between_pool [OF that(1)]) (metis pool_reachable.pop that(2) snd_conv)
  ultimately show ?thesis unfolding mine_start_def
    by (intro safe_look_any safe_act) (auto split: prod.split)
qed

lemma safe_count: "safe (between sha ord d i) k t \<Longrightarrow> safe (between sha ord d i) (node_do (\<lambda>_. count_attempts j) k) t"
  by (rule safe_node_do) (auto elim!: between_frame simp: count_attempts_def)

lemma safe_mine_lost: "safe (between sha ord d i) (mine_lost j) t"
  unfolding mine_lost_def by (intro safe_return_txs safe_count safe_ends)

lemma safe_mine_adopt: "safe (between sha ord d i) (mine_adopt j b res) t"
proof -
  have mined: "safe (between sha ord d i) (node_do (\<lambda>_ n. n\<lparr>nd_minedBlocks := nd_minedBlocks n + 1\<rparr>) k) u"
    if "safe (between sha ord d i) k u" for k u
    by (rule safe_node_do [OF _ that]) (auto elim!: between_frame)
  show ?thesis unfolding mine_adopt_def Let_def
    by (auto split: option.split intro!: safe_apply_reorg safe_remove_txs mined safe_look_any safe_report_tip safe_count safe_emit)
qed

lemma safe_mine_attempt:
  assumes "fair_ranging ord" shows "safe (between sha ord d i) (mine_attempt sha ord) t"
proof -
  have hit: "safe (between sha ord d i) (mine_hit sha ord j h) u" for j h u
    unfolding mine_hit_def Let_def
    by (auto intro!: safe_look_any safe_mine_lost safe_add_block [OF assms] safe_mine_adopt)
  have "safe (between sha ord d i) (node_do (\<lambda>_ n. n\<lparr>nd_job := Some j\<rparr>) Done) u" if "job_form sha d i j" for j u
    by (rule safe_node_do) (use that in \<open>simp_all add: between_def probes_before_def\<close>)
  then have again: "safe (between sha ord d i) (node_do (\<lambda>_ n. n\<lparr>nd_job := Some (j\<lparr>jb_attempts := a, jb_nonce := x\<rparr>)\<rparr>) Done) u"
    if "job_form sha d i j" for j u a x using that by (simp add: job_form_def)
  show ?thesis unfolding mine_attempt_def Let_def
    by (rule safe_look) (auto split: option.split simp: hit again between_def)
qed

lemma safe_mine_quit: "safe (between sha ord d i) mine_quit t"
  unfolding mine_quit_def by (rule safe_look_any) (auto split: option.split intro!: safe_count safe_return_txs)

end
