(* ===== verification/NodeFrame.thy ===== *)
theory NodeFrame
  imports NodeReach
begin

text \<open>
  What no operation of a node changes: its id and the configuration of its syncer. A node of a network
  is therefore known by the id it was made with.
\<close>

definition same_node :: "syncer \<times> node \<Rightarrow> syncer \<times> node \<Rightarrow> bool" where
  "same_node sn sn' \<longleftrightarrow> sy_cfg (fst sn') = sy_cfg (fst sn) \<and> nd_id (snd sn') = nd_id (snd sn)"

lemma same_node_refl [simp]: "same_node sn sn"
  by (simp add: same_node_def)

lemma same_node_trans: "same_node a b \<Longrightarrow> same_node b c \<Longrightarrow> same_node a c"
  by (simp add: same_node_def)

section \<open>The configuration of the syncer\<close>

named_theorems cfg_kept

lemma simple_cfg [cfg_kept]:
  "sy_cfg (onBlockArrived h s) = sy_cfg s" "sy_cfg (record_answer now h p s) = sy_cfg s"
  "sy_cfg (fst (HandleInvTx f now i p s)) = sy_cfg s" "sy_cfg (forget_tx_request i s) = sy_cfg s"
  "sy_cfg (probe_result now p r d s) = sy_cfg s" "sy_cfg (header_reply p r s) = sy_cfg s"
  "sy_cfg (rpc_return now c r s) = sy_cfg s" "sy_cfg (fst (probe_start ps s)) = sy_cfg s"
  "sy_cfg (enqueueBlock bc h p kind s) = sy_cfg s" "sy_cfg (enterBackoff now s) = sy_cfg s"
  "sy_cfg (resetSyncState s) = sy_cfg s" "sy_cfg (leave_backoff now s) = sy_cfg s"
  "sy_cfg (fst (maybeStartHeaderRequest bc p s)) = sy_cfg s" "sy_cfg (fst (advance bc p s)) = sy_cfg s"
  by (simp_all add: onBlockArrived_def record_answer_def HandleInvTx_def forget_tx_request_def probe_result_def header_reply_def
      rpc_return_def probe_start_def enqueueBlock_def enterBackoff_def resetSyncState_def drop_sync_work_def leave_backoff_def
      maybeStartHeaderRequest_def advance_def Let_def split: option.split rpc_call.split req_kind.split sync_state.split)

lemma dispatch_cfg:
  assumes "sync_inv s" "fair_ranging (od_peers od)" "dispatchQueuedBlocks od bc now s = Some (s', es)"
  shows "sy_cfg s' = sy_cfg s" "sync_inv s'"
proof -
  from dispatch_ok [OF assms(1,2), of bc now] assms(3) have "\<exists>new. dispatched now bc s s' new \<and> sync_inv s'"
    by (metis option.inject prod.inject)
  then show "sy_cfg s' = sy_cfg s" "sync_inv s'" using dispatched_fields(1) by auto
qed

lemma HandleInvBlock_cfg:
  assumes "sync_inv s" "fair_ranging (od_peers od)" "HandleInvBlock sha od bc now meta p s = Some (s', es)"
  shows "sy_cfg s' = sy_cfg s"
proof -
  have "s' = s \<or> (\<exists>s1. sync_inv s1 \<and> sy_cfg s1 = sy_cfg s \<and> dispatchQueuedBlocks od bc now s1 = Some (s', es))"
    using assms(1,3) enqueueBlock_inv cfg_kept
    by (auto simp: HandleInvBlock_def Let_def split: if_splits sum.splits)
  then show ?thesis using dispatch_cfg [OF _ assms(2)] by force
qed

lemma header_result_cfg:
  assumes "sync_inv s" "fair_ranging (od_peers od)" "header_result od bc now r s = Some (s', es)"
  shows "sy_cfg s' = sy_cfg s" "sync_inv s'"
proof -
  show "sync_inv s'" using header_result_ok [OF assms(1,2), of bc now r] assms(3) by auto
  show "sy_cfg s' = sy_cfg s"
  proof (cases "hr_ok r")
    case False
    then show ?thesis using assms(3) by (auto simp: header_result_def Let_def cfg_kept split: if_splits)
  next
    case True
    let ?s = "s\<lparr>sy_headerReqInFlight := False, sy_headerRetries := 0\<rparr>"
    have i: "sync_inv ?s" using assms(1) by (auto simp: sync_inv_def window_ok_def config_ok_def)
    obtain s1 q where q: "queue_metas bc (hr_peer r) (hr_metas r) ?s False = (s1, q)" by fastforce
    have i1: "sync_inv s1" using queue_metas_inv [OF i, of bc "hr_peer r" "hr_metas r" False] q by simp
    have c1: "sy_cfg s1 = sy_cfg s" using queue_metas_frame [OF q] by (simp add: same_frame_def)
    let ?s2 = "if sy_state s1 = SyncingHeaders then s1\<lparr>sy_state := SyncingBlocks\<rparr> else s1"
    let ?s3 = "if sy_syncPeer ?s2 = '''' then ?s2\<lparr>sy_syncPeer := hr_peer r\<rparr> else ?s2"
    have "sync_inv ?s3" using i1 by (auto simp: sync_inv_def window_ok_def)
    from dispatch_cfg(1) [OF this assms(2), of bc now s' es] assms(3) True q c1 show ?thesis
      by (auto simp: header_result_def Let_def split: if_splits)
  qed
qed

lemma drain_cfg:
  "sync_inv s \<Longrightarrow> fair_ranging (od_peers od) \<Longrightarrow> drain_results od bc now rs s = Some (s', es) \<Longrightarrow> sy_cfg s' = sy_cfg s"
proof (induction rs arbitrary: s es)
  case (Cons r rs)
  from Cons.prems(3) obtain s1 e1 e2 where "header_result od bc now r s = Some (s1, e1)" "drain_results od bc now rs s1 = Some (s', e2)"
    by (auto split: bind_splits)
  then show ?case using header_result_cfg [OF Cons.prems(1,2)] Cons.IH Cons.prems(2) by metis
qed simp

lemma tick_cfg:
  assumes "sync_inv s" "fair_orders od" "tickInflight od bc now s = Some (s', es)"
  shows "sy_cfg s' = sy_cfg s" "sync_inv s'"
proof -
  have f: "fair_ranging (od_peers od)" "fair_ranging (od_inflight od)" using assms(2) by (auto simp: fair_orders_def)
  show "sync_inv s'" using tick_inv [OF assms(1) f, of bc now] assms(3) by auto
  show "sy_cfg s' = sy_cfg s"
  proof (cases "\<not> sc_Transport (sy_cfg s) \<or> \<not> sc_Chain (sy_cfg s) \<or> sy_inflightBlocks s = []")
    case True
    then show ?thesis using assms(3) by (auto simp: tickInflight_def)
  next
    case False
    then show ?thesis using tickInflight_ok [OF assms(1) f, of bc now] assms(3) by (metis option.inject prod.inject)
  qed
qed

lemma decide_cfg: "decide od bc now s = Some (s', es) \<Longrightarrow> sy_cfg s' = sy_cfg s"
  by (auto simp: decide_def split: bind_splits option.splits if_splits prod.splits dest: arg_cong [where f = fst] simp: cfg_kept)
    (metis cfg_kept fst_conv)

lemma catchUp_cfg:
  assumes "sync_inv s" "fair_orders od" "catchUpIfBehind od bc now s = Some (s', es)"
  shows "sy_cfg s' = sy_cfg s"
proof (cases "sc_Chain (sy_cfg s)")
  case True
  then obtain s1 e1 s2 e2 s3 e3 e4 where c: "tickInflight od bc now s = Some (s1, e1)" "dispatchQueuedBlocks od bc now s1 = Some (s2, e2)"
    "drainHeaderResults od bc now s2 = Some (s3, e3)" "decide od bc now (leave_backoff now s3) = Some (s', e4)"
    using assms(3) by (auto simp: catchUpIfBehind_def split: bind_splits)
  have f: "fair_ranging (od_peers od)" using assms(2) by (simp add: fair_orders_def)
  note 1 = tick_cfg [OF assms(1,2) c(1)]
  note 2 = dispatch_cfg [OF 1(2) f c(2)]
  have "sync_inv (s2\<lparr>sy_headersCh := []\<rparr>)" using 2(2) by (simp add: sync_inv_def window_ok_def)
  from drain_cfg [OF this f c(3) [unfolded drainHeaderResults_def]] have "sy_cfg s3 = sy_cfg s2" by simp
  then show ?thesis using 1(1) 2(1) decide_cfg [OF c(4)] by (simp add: cfg_kept)
qed (use assms in \<open>simp add: catchUpIfBehind_def\<close>)

section \<open>The operations of the node\<close>

lemma node_kept [simp]:
  "nd_id (rememberTx tx n) = nd_id n" "nd_id (removeTxsFromBlock b n) = nd_id n"
  "nd_id (fst (SubmitTransaction now tx n)) = nd_id n" "nd_id (snd (acceptTxFromPeer now tx p n)) = nd_id n"
  "nd_id (count_attempts j n) = nd_id n" "nd_id (give_back now j n) = nd_id n" "nd_id (mine_stop now n) = nd_id n"
  "nd_id (mempoolCleanup now n) = nd_id n"
  by (simp_all add: rememberTx_def removeTxsFromBlock_def SubmitTransaction_def acceptTxFromPeer_def count_attempts_def
      give_back_def mine_stop_def mempoolCleanup_def Let_def split: prod.split option.split)

lemma accept_id: "acceptTxFromPeer now tx p n = (a, n') \<Longrightarrow> nd_id n' = nd_id n"
  using node_kept(4) [of now tx p n] by simp

lemma submit_id: "SubmitTransaction now tx n = (n', es) \<Longrightarrow> nd_id n' = nd_id n"
  using node_kept(3) [of now tx n] by simp

lemma mine_begin_id [simp]: "nd_id (mine_begin sha now n) = nd_id n"
  unfolding mine_begin_def Let_def by (simp split: prod.split)

lemma applyReorg_id: "applyReorg clock r n = Some n' \<Longrightarrow> nd_id n' = nd_id n"
  by (auto simp: applyReorg_def split: bind_splits)

lemma onNewBlock_id: "onNewBlock sha ord now b p (n, es) = Some (n', es') \<Longrightarrow> nd_id n' = nd_id n"
  by (auto simp: onNewBlock_def Let_def split: bind_splits if_splits option.splits dest!: applyReorg_id)

lemma mine_try_id:
  assumes "mine_try sha ord now n = Some (n', es)"
  shows "nd_id n' = nd_id n"
proof -
  have f: "nd_id n' = nd_id n" if found: "mine_found sha ord now j h n = Some (n', es)" for j h
  proof (cases "TipHash (nd_chain n) = jb_tip j")
    case True
    let ?b = "\<lparr>blk_Header = jb_header j, blk_Nonce = jb_nonce j, blk_Hash = h, blk_Txs = jb_txs j\<rparr>"
    obtain res err c where a: "AddBlock sha ord (Some ?b) (nd_chain n) = Some (res, err, c)"
      using found True by (auto simp: mine_found_def Let_def split: bind_splits)
    show ?thesis
    proof (cases "err \<noteq> None \<or> \<not> ar_Added res")
      case False
      then have "adopt_mined now j ?b res (n\<lparr>nd_chain := c\<rparr>) = Some (n', es)" using found True a by (simp add: mine_found_def)
      then show ?thesis
        by (auto simp: adopt_mined_def Let_def split: bind_splits option.splits if_splits dest!: applyReorg_id)
    qed (use found True a in \<open>auto simp: mine_found_def\<close>)
  qed (use found in \<open>auto simp: mine_found_def\<close>)
  show ?thesis
  proof (cases "nd_job n")
    case (Some j)
    then show ?thesis using assms f by (auto simp: mine_try_def Let_def split: sum.splits if_splits)
  qed (use assms in \<open>simp add: mine_try_def\<close>)
qed

lemma run_effect_same: "run_effect now e (sn, es) = (sn', es') \<Longrightarrow> same_node sn sn'"
  by (auto simp: run_effect_def rpc_def same_node_def Let_def cfg_kept split: effect.splits prod.splits if_splits)

lemma run_effects_same: "same_node sn (fst (run_effects now es sn))"
proof -
  have "same_node (fst st) (fst (fold (run_effect now) es st))" for st
  proof (induction es arbitrary: st)
    case (Cons e es)
    obtain sn' es' where r: "run_effect now e st = (sn', es')" by fastforce
    then have "same_node (fst st) sn'" using run_effect_same by (metis prod.collapse)
    then show ?case using Cons.IH [of "(sn', es')"] r by (simp add: same_node_def)
  qed simp
  from this [of "(sn, [])"] show ?thesis by (simp add: run_effects_def)
qed

lemma tryDeliver_same: "tryDeliverRPC now msg sn = Some sn' \<Longrightarrow> same_node sn sn'"
  by (auto simp: tryDeliverRPC_def same_node_def cfg_kept split: prod.splits if_splits option.splits)

lemma rpc_timeout_same: "same_node sn (rpc_timeout now tr sn)"
  by (auto simp: rpc_timeout_def same_node_def cfg_kept split: prod.splits option.splits)

lemma on_block_id:
  "on_block sha ord now b p (Some (n, es)) = Some (n', es') \<Longrightarrow> nd_id n' = nd_id n"
  by (simp add: on_block_def onNewBlock_id)

lemma handle_each_same:
  "handle_each sha (on_block sha ord now) p bs (s, w) = (s', Some (n', es')) \<Longrightarrow>
     \<exists>n es. w = Some (n, es) \<and> sy_cfg s' = sy_cfg s \<and> nd_id n' = nd_id n"
proof (induction bs arbitrary: s w)
  case (Cons b bs)
  show ?case
  proof (cases b)
    case (Some x)
    from Cons.prems Some Cons.IH obtain n1 es1 where n1: "on_block sha ord now x p w = Some (n1, es1)"
      "sy_cfg s' = sy_cfg (onBlockArrived (claimed_hash sha x) s)" "nd_id n' = nd_id n1" by fastforce
    then obtain n es where "w = Some (n, es)" by (cases w) (auto simp: on_block_def)
    then show ?thesis using n1 on_block_id by (auto simp: cfg_kept)
  qed (use Cons in auto)
qed simp

lemma HandleMessage_same:
  assumes inv: "sync_inv (fst sn)" and fair: "fair_orders od" and h: "HandleMessage sha ord od now msg sn = Some (sn', es)"
  shows "same_node sn sn'"
proof (cases "tryDeliverRPC now msg sn")
  case (Some x)
  then show ?thesis using h tryDeliver_same by (auto simp: HandleMessage_def)
next
  case None
  obtain s n where sn: "sn = (s, n)" by fastforce
  have f: "fair_ranging (od_peers od)" using fair by (simp add: fair_orders_def)
  have nd: "tryDeliverRPC now msg (s, n) = None" using None sn by simp
  note hm = h [unfolded HandleMessage_def sn nd Let_def option.case prod.case]
  have tx: "same_node (s, n) sn'" if "HandleTx (Some (acceptTxFromPeer now)) now tx p (s, n) = (sn', e)" for tx p e
    using that
    by (auto dest: accept_id simp: HandleTx_def Let_def same_node_def cfg_kept split: if_splits prod.splits)
  have itx: "sy_cfg s' = sy_cfg s" if "HandleInvTx f now i p s = (s', e)" for f i p s' e
    using cfg_kept(3) [of f now i p s] that by simp
  have blk: "same_node (s, n) (s', n')" if "HandleBlock sha (Some (on_block sha ord now)) now (Some b) p (s, Some (n, [])) = (s', Some (n', e))" for b p s' n' e
    using that by (auto simp: HandleBlock_def Let_def same_node_def cfg_kept dest!: on_block_id)
  have blks: "same_node (s, n) (s', n')"
    if "HandleBlocks sha (Some (on_block sha ord now)) now bs p (s, Some (n, [])) = Some (s', Some (n', e))" for bs p s' n' e
  proof -
    from that have "bs = [] \<and> s' = s \<and> n' = n \<or> (\<exists>s1. sy_cfg s1 = sy_cfg s \<and>
        handle_each sha (on_block sha ord now) p bs (s1, Some (n, [])) = (s', Some (n', e)))"
      by (auto simp: HandleBlocks_def split: bind_splits if_splits option.splits) (use cfg_kept(2) in blast)+
    then show ?thesis using handle_each_same [of sha ord now p bs] by (fastforce simp: same_node_def)
  qed
  have ib: "sy_cfg s' = sy_cfg s" if "HandleInvBlock sha od bc now meta p s = Some (s', e)" for bc meta p s' e
    using HandleInvBlock_cfg [OF _ f that] inv sn by simp
  show ?thesis unfolding sn
  proof (cases "msg_Payload msg")
    case (TxPayload t)
    then show "same_node (s, n) sn'" using hm tx by (auto split: if_splits prod.splits bind_splits)
  next
    case (InvTxPayload i)
    then show "same_node (s, n) sn'" using hm itx by (auto simp: same_node_def split: if_splits prod.splits bind_splits)
  next
    case (InvBlockPayload m)
    then show "same_node (s, n) sn'" using hm ib by (auto simp: same_node_def split: if_splits prod.splits bind_splits)
  next
    case (BlockPayload b)
    then show "same_node (s, n) sn'" using hm blk
      by (cases b) (auto split: if_splits prod.splits bind_splits)
  next
    case (BlocksPayload bs)
    then show "same_node (s, n) sn'" using hm blks by (auto split: if_splits prod.splits bind_splits)
  qed (use hm in \<open>auto split: if_splits bind_splits\<close>)
qed

end
