(* ===== verification/Gossip.thy ===== *)
theory Gossip
  imports NodeFrame NodeProps
begin

text \<open>
  How a block spreads: announcement, request, answer and adoption, as calls of the handlers of two
  nodes. The receiver is one that is at the parent of the block and has nothing else to fetch.
\<close>

section \<open>A node that waits for the next block\<close>

definition idle_for :: "hash \<Rightarrow> syncer \<Rightarrow> bool" where
  "idle_for h s \<longleftrightarrow> sc_Transport (sy_cfg s) \<and> sc_Chain (sy_cfg s) \<and> wq_queue (sy_parent s) = [] \<and> wq_queue (sy_sync s) = []
     \<and> wq_queue (sy_inv s) = [] \<and> \<not> is_inflight h s \<and> int (length (sy_inflightBlocks s)) < max_inflight s"

text \<open>The block extends the tip of the chain, the chain does not have it, and no orphan waits for it.\<close>

definition next_block :: "digest \<Rightarrow> block \<Rightarrow> blockchain \<Rightarrow> bool" where
  "next_block sha b bc \<longleftrightarrow> bh_PrevHash (blk_Header b) = bc_tip bc \<and> \<not> HasBlock bc (blk_Hash b) \<and> block_key sha b = blk_Hash b
     \<and> (case GetTip bc of None \<Rightarrow> False | Some tb \<Rightarrow> validateBlockUnlocked sha bc b tb (blk_Hash b) = None)
     \<and> bh_Height (blk_Header b) \<noteq> 0 \<and> blk_Hash b \<noteq> 0
     \<and> (\<forall>(oh, ob) \<in> set (bc_orphans bc). bh_PrevHash (blk_Header ob) \<noteq> blk_Hash b)"

section \<open>The announcement\<close>

lemma queue_only: "wq_queue w = [] \<Longrightarrow> \<lparr>wq_queue = [], wq_queued = wq_queued w\<rparr> = w"
  by (cases w) simp

lemma queue_same:
  "wq_queue (sy_parent s) = [] \<Longrightarrow> s\<lparr>sy_parent := \<lparr>wq_queue = [], wq_queued = wq_queued (sy_parent s)\<rparr>\<rparr> = s"
  "wq_queue (sy_sync s) = [] \<Longrightarrow> s\<lparr>sy_sync := \<lparr>wq_queue = [], wq_queued = wq_queued (sy_sync s)\<rparr>\<rparr> = s"
  "wq_queue (sy_inv s) = [] \<Longrightarrow> s\<lparr>sy_inv := \<lparr>wq_queue = [], wq_queued = wq_queued (sy_inv s)\<rparr>\<rparr> = s"
  by (simp_all only: queue_only) simp_all

lemma pop_idle:
  assumes "wq_queue (sy_parent s) = []" "wq_queue (sy_sync s) = []"
  shows "popNextQueuedLocked s = (case wanted_pop (wq_queue (sy_inv s)) (wq_queued (sy_inv s)) of
     (Some (h, p), w) \<Rightarrow> (Some (h, p, BlkInv), s\<lparr>sy_inv := w\<rparr>) | (None, w) \<Rightarrow> (None, s\<lparr>sy_inv := w\<rparr>))"
  unfolding popNextQueuedLocked_def assms(1) wanted_pop.simps prod.case option.case Let_def queue_same(1) [OF assms(1)]
    assms(2) queue_same(2) [OF assms(2)] ..

lemma front_idle:
  assumes "wq_queue (sy_parent s) = []" "wq_queue (sy_sync s) = []" "wq_queue (sy_inv s) = []"
  shows "dispatch_front now bc best (s, sends) = (s, sends)"
  by (simp add: dispatch_front.simps [of now bc best s] pop_idle [OF assms(1,2)] assms(3) queue_same(3) [OF assms(3)])

lemma batches_idle:
  "wq_queue (sy_sync s) = [] \<Longrightarrow> dispatch_sync now bc p s xs = (s, xs)"
  "wq_queue (sy_inv s) = [] \<Longrightarrow> dispatch_inv now bc p (s, ys) = (s, ys)"
  by (simp_all add: dispatch_sync.simps [of now bc p s] dispatch_inv.simps [of now bc p s])

lemma fetch_idle:
  assumes inv: "sync_inv s" and idle: "idle_for h s" and h: "h \<noteq> 0" "\<not> HasBlock bc h"
    and p: "p \<noteq> ''''" "p \<noteq> self_id s" and fair: "fair_ranging (od_peers od)"
  shows "\<exists>s'. dispatchQueuedBlocks od bc now (enqueueBlock bc h p BlkInv s)
     = Some (s', [Send p (direct_message now (self_id s) p '''' MsgGetBlock (GetBlockPayload h))]) \<and> sy_cfg s' = sy_cfg s"
proof -
  have q: "map_of (wq_queued (sy_inv s)) h = None"
    using inv idle wanted_mem by (auto simp: sync_inv_def idle_for_def)
  let ?w = "\<lparr>wq_queue = [h], wq_queued = al_put h p (wq_queued (sy_inv s))\<rparr>"
  have e: "enqueueBlock bc h p BlkInv s = s\<lparr>sy_inv := ?w\<rparr>"
    using idle h q by (simp add: enqueueBlock_def wanted_add_def idle_for_def)
  let ?s1 = "s\<lparr>sy_inv := ?w\<rparr>"
  have i1: "sync_inv ?s1" using enqueueBlock_inv [OF inv, of bc h p BlkInv] e by simp
  obtain best where best: "best_peer od now ?s1 = Some best" by (rule best_peer_returns [OF i1 fair])
  let ?s2 = "?s1\<lparr>sy_inv := \<lparr>wq_queue = [], wq_queued = al_del h (wq_queued ?w)\<rparr>\<rparr>"
  let ?s3 = "track now h p BlkInv ?s2"
  have pop: "popNextQueuedLocked ?s1 = (Some (h, p, BlkInv), ?s2)"
    using idle pop_idle [of ?s1] by (simp add: idle_for_def map_of_al_put)
  have adm: "admit now bc best h p BlkInv (?s2, []) = (?s3, [(p, h)])"
    using idle h p by (simp add: admit_def idle_for_def is_inflight_def)
  have empty: "wq_queue (sy_parent ?s3) = []" "wq_queue (sy_sync ?s3) = []" "wq_queue (sy_inv ?s3) = []"
    using idle by (simp_all add: idle_for_def track_def)
  have room: "int (length (sy_inflightBlocks ?s1)) < max_inflight ?s1" using idle by (simp add: idle_for_def)
  have front: "dispatch_front now bc best (?s1, []) = (?s3, [(p, h)])"
    using room by (simp only: dispatch_front.simps [of now bc best ?s1] pop adm front_idle [OF empty] if_True prod.case option.case
        if_False req_kind.distinct)
  have on: "sc_Transport (sy_cfg ?s1)" "sc_Chain (sy_cfg ?s1)" using idle by (simp_all add: idle_for_def)
  have "dispatchQueuedBlocks od bc now ?s1 = Some (?s3, [get_block_effect now ?s3 (p, h)])"
    unfolding dispatchQueuedBlocks_def using on best by (simp only: front batches_idle(1) [OF empty(2)] batches_idle(2) [OF empty(3)] Let_def prod.case simp_thms if_False bind.bind_lunit list.map concat.simps append_Nil2)
  moreover have "get_block_effect now ?s3 (p, h) = Send p (direct_message now (self_id s) p '''' MsgGetBlock (GetBlockPayload h))"
    by (simp add: get_block_effect_def track_def)
  ultimately show ?thesis unfolding e by (auto simp: track_def)
qed

lemma announcement_fetches:
  assumes inv: "sync_inv s" "chain_inv sha bc" and idle: "idle_for (blk_Hash b) s" and nb: "next_block sha b bc"
    and p: "p \<noteq> ''''" "p \<noteq> self_id s" and fair: "fair_ranging (od_peers od)"
  shows "\<exists>s'. HandleInvBlock sha od bc now (block_meta_of b (blk_Hash b)) p s
     = Some (s', [Send p (direct_message now (self_id s) p '''' MsgGetBlock (GetBlockPayload (blk_Hash b)))]) \<and> sy_cfg s' = sy_cfg s"
proof -
  obtain tb where tb: "GetTip bc = Some tb" "validateBlockUnlocked sha bc b tb (blk_Hash b) = None"
    using nb by (auto simp: next_block_def split: option.splits)
  have v: "bh_Difficulty (blk_Header b) = bc_difficulty bc" "header_hash sha (blk_Header b) (blk_Nonce b) = blk_Hash b"
    "MeetsDifficulty (blk_Hash b) (bc_difficulty bc)"
    using tb(2) nb by (auto simp: validate_None_iff next_block_def block_key_def)
  have "HasBlock bc (bh_PrevHash (blk_Header b))" using nb tb(1) by (simp add: next_block_def HasBlock_def GetTip_def)
  with fetch_idle [OF inv(1) idle _ _ p fair, of bc now] v nb idle p show ?thesis
    by (simp add: HandleInvBlock_def block_meta_of_def next_block_def idle_for_def)
qed

section \<open>Answer and adoption\<close>

lemma no_trace: "msg_TraceID m = '''' \<Longrightarrow> tryDeliverRPC now m sn = None"
  by (cases sn) (simp add: tryDeliverRPC_def)

lemma hear_announcement:
  assumes inv: "sync_inv s" "chain_inv sha (nd_chain n)" and idle: "idle_for (blk_Hash b) s" and nb: "next_block sha b (nd_chain n)"
    and p: "p \<noteq> ''''" "p \<noteq> self_id s" and fair: "fair_orders od"
  shows "\<exists>s'. HandleMessage sha ord od now (inv_message t p MsgInvBlock (InvBlockPayload (block_meta_of b (blk_Hash b)))) (s, n)
     = Some ((s', n), [Net (Send p (direct_message now (self_id s) p '''' MsgGetBlock (GetBlockPayload (blk_Hash b))))]) \<and>
     sy_cfg s' = sy_cfg s"
  using announcement_fetches [OF inv idle nb p, of od now] fair
  by (auto simp: HandleMessage_def no_trace inv_message_def fair_orders_def)

lemma give_block:
  assumes "BlockByHash (nd_chain n) h = Some b" "q \<noteq> ''''"
  shows "HandleMessage sha ord od now (direct_message t q p '''' MsgGetBlock (GetBlockPayload h)) (s, n)
     = Some ((s, n), [Net (Send q (direct_message now (nd_id n) q '''' MsgBlock (BlockPayload (Some b))))])"
  using assms by (simp add: HandleMessage_def no_trace direct_message_def onGetBlock_def)

lemma adopt_block:
  assumes inv: "chain_inv sha (nd_chain n)" "orphans_waiting (nd_chain n)" and nb: "next_block sha b (nd_chain n)" and fair: "fair_ranging ord"
  shows "\<exists>s' n'. HandleMessage sha ord od now (direct_message t p q '''' MsgBlock (BlockPayload (Some b))) (s, n)
     = Some ((s', n'), [announce now n' b (blk_Hash b), tip_change n' p None]) \<and>
     TipHash (nd_chain n') = blk_Hash b \<and> nd_id n' = nd_id n \<and> BlockByHash (nd_chain n') (blk_Hash b) = Some b"
proof -
  let ?h = "blk_Hash b" let ?bc = "nd_chain n"
  obtain tb where tb: "bc_blocks ?bc (bc_tip ?bc) = Some tb" "validateBlockUnlocked sha ?bc b tb ?h = None"
    using nb by (auto simp: next_block_def GetTip_def split: option.splits)
  have k: "block_key sha b = ?h" "?h \<noteq> 0" "bh_PrevHash (blk_Header b) = bc_tip ?bc" "bh_Height (blk_Header b) \<noteq> 0"
    "bc_blocks ?bc ?h = None" "\<forall>(oh, ob) \<in> set (bc_orphans ?bc). bh_PrevHash (blk_Header ob) \<noteq> ?h"
    using nb by (simp_all add: next_block_def HasBlock_def)
  obtain bc' where A: "AddBlock sha ord (Some b) ?bc = Some (\<lparr>ar_Added = True, ar_IsNewTip = True,
        ar_OldTip = bc_tip ?bc, ar_NewTip = ?h, ar_Reorg = None\<rparr>, None, bc')"
      "bc_tip bc' = ?h" "bc_blocks bc' = (bc_blocks ?bc)(?h \<mapsto> b\<lparr>blk_Hash := ?h\<rparr>)"
    using AddBlock_on_tip [OF inv fair k(3) tb(1)] tb(2) k by metis
  define n' where "n' = removeTxsFromBlock b (n\<lparr>nd_chain := bc', nd_recvBlocks := nd_recvBlocks n + 1\<rparr>)"
  have c: "nd_chain n' = bc'" "nd_id n' = nd_id n" by (simp add: n'_def) (simp add: n'_def removeTxsFromBlock_def)
  have claim: "claimed_hash sha b = ?h" using k(2) by (simp add: claimed_hash_def)
  have "onNewBlock sha ord now b p (n, []) = Some (n', [announce now n' b ?h, tip_change n' p None])"
    using A(1) by (simp add: onNewBlock_def Let_def claim n'_def)
  then have "HandleMessage sha ord od now (direct_message t p q '''' MsgBlock (BlockPayload (Some b))) (s, n)
     = Some ((onBlockArrived ?h (record_answer now ?h p s), n'), [announce now n' b ?h, tip_change n' p None])"
    by (simp add: HandleMessage_def no_trace direct_message_def HandleBlock_def Let_def claim on_block_def)
  moreover have "b\<lparr>blk_Hash := ?h\<rparr> = b" by simp
  ultimately show ?thesis using A(2,3) c by (auto simp: TipHash_def BlockByHash_def)
qed

end
