(* ===== verification/Simulation.thy ===== *)
theory Simulation
  imports NodeMainProps Gossip
begin

text \<open>
  The simulation of \<^verbatim>\<open>cmd/node/main.go\<close> while it runs: nodes that share one process, their handlers
  called by the goroutines of the bus, their loops, the ticker that injects transactions, and nodes
  that join later. Here a handler, a round or an attempt is one step: these are the schedules in which no
  goroutine is interrupted, enough to show what can be reached. \<open>Interleave\<close> has all schedules, critical section
  by critical section, and makes the uninterrupted handler from such steps. A message whose delivery panics ends the process.
\<close>

section \<open>One step\<close>

text \<open>
  What a node does on its own, seen by itself; \<open>ps\<close> are the ids on the bus. The result is the new
  state and what it sends and reports.
\<close>

inductive node_event :: "digest \<Rightarrow> (hash \<times> block) ranging \<Rightarrow> gotime \<Rightarrow> string list \<Rightarrow> syncer \<times> node \<Rightarrow>
    (syncer \<times> node) \<times> node_effect list \<Rightarrow> bool" for sha ord now ps where
  ev_round: "fair_orders od \<Longrightarrow> catchUpIfBehind od (nd_chain n) now s = Some (s', es) \<Longrightarrow>
    node_event sha ord now ps (s, n) (run_effects now es (s', n))"
| ev_probe: "probe_start ps s = (s', es) \<Longrightarrow> node_event sha ord now ps (s, n) (run_effects now es (s', n))"
| ev_forget: "node_event sha ord now ps (s, n) ((forget_tx_request i s, n), [])"
| ev_timeout: "node_event sha ord now ps (s, n) (rpc_timeout now tr (s, n), [])"
| ev_job: "nd_job n = None \<Longrightarrow> node_event sha ord now ps (s, n) ((s, mine_begin sha now n), [])"
| ev_attempt: "mine_try sha ord now n = Some (n', es) \<Longrightarrow> node_event sha ord now ps (s, n) ((s, n'), es)"
| ev_stop: "node_event sha ord now ps (s, n) ((s, mine_stop now n), [])"
| ev_clean: "node_event sha ord now ps (s, n) ((s, mempoolCleanup now n), [])"

text \<open>
  \<^verbatim>\<open>OnTipChange\<close> persists what a call reports (the chain only grows, so the reported tips are in the
  chain after the call), and what it sends goes to the bus.
\<close>

definition persist :: "faults \<Rightarrow> digest \<Rightarrow> gotime \<Rightarrow> blockchain \<Rightarrow> node_effect list \<Rightarrow> store \<times> disk \<Rightarrow> store \<times> disk" where
  "persist ft sha now chain es sd =
     fold (\<lambda>e sd. case e of TipChange ev \<Rightarrow> on_tip_change ft sha now chain ev sd | Net _ \<Rightarrow> sd) es sd"

definition run_node :: "faults \<Rightarrow> digest \<Rightarrow> gotime \<Rightarrow> nat \<Rightarrow> (syncer \<times> node) \<times> node_effect list \<Rightarrow> simulation \<Rightarrow> simulation" where
  "run_node ft sha now i r si =
     (let (sn, es) = r; x = si_nodes si ! i; dir = sn_dir x;
          (st, dk) = persist ft sha now (nd_chain (snd sn)) es (sn_store x, snd (si_files si dir))
      in si\<lparr>si_nodes := (si_nodes si)[i := x\<lparr>sn_state := sn, sn_store := st\<rparr>],
            si_files := (si_files si)(dir := (fst (si_files si dir), dk)),
            si_tr := post_all inproc_Send inproc_Broadcast (net_effects es) (si_tr si)\<rparr>)"

text \<open>The heights and header limits for which \<^verbatim>\<open>GetHeaders\<close> does not overflow.\<close>

definition in_range :: "node \<Rightarrow> bool" where
  "in_range n \<longleftrightarrow> nd_maxHeaders n + uint (TipHeight (nd_chain n)) < 2 ^ 63 - 1"

abbreviation state_of :: "simulation \<Rightarrow> nat \<Rightarrow> syncer \<times> node" where
  "state_of si i \<equiv> sn_state (si_nodes si ! i)"

inductive sim_step :: "faults \<Rightarrow> digest \<Rightarrow> (hash \<times> block) ranging \<Rightarrow> sim_options \<Rightarrow> gotime \<Rightarrow> simulation \<Rightarrow> simulation \<Rightarrow> bool"
  for ft sha ord opt now where
  deliver: "inproc_deliver k (si_tr si) = (Some (h, m), tr) \<Longrightarrow> i < length (si_nodes si) \<Longrightarrow> sim_id (int i) = h \<Longrightarrow>
    fair_orders od \<Longrightarrow> in_range (snd (state_of si i)) \<Longrightarrow> HandleMessage sha ord od now m (state_of si i) = Some r \<Longrightarrow>
    sim_step ft sha ord opt now si (run_node ft sha now i r (si\<lparr>si_tr := tr\<rparr>))"
| event: "i < length (si_nodes si) \<Longrightarrow> mset ps = mset (inproc_Peers (si_tr si)) \<Longrightarrow>
    node_event sha ord now ps (state_of si i) r \<Longrightarrow> sim_step ft sha ord opt now si (run_node ft sha now i r si)"
| tick: "t (2 :: nat) = now \<Longrightarrow> sim_step ft sha ord opt now si (tx_tick t rnd k si)"
| joins: "genesis_file_ok (snd (si_files si (filepath_Join [''data'', sim_id (int (length (si_nodes si)))]))) \<Longrightarrow>
    join_node sha ft clock ord opt (int (length (si_nodes si))) si = Some (Inr si') \<Longrightarrow> sim_step ft sha ord opt now si si'"

inductive sim_reachable :: "faults \<Rightarrow> digest \<Rightarrow> (hash \<times> block) ranging \<Rightarrow> sim_options \<Rightarrow> gotime \<Rightarrow> simulation \<Rightarrow> bool"
  for ft sha ord opt where
  sim_init: "sim_reachable ft sha ord opt t \<lparr>si_tr = sim_transport opt rng, si_nodes = [], si_files = fs, si_txs = 0\<rparr>"
| sim_next: "sim_reachable ft sha ord opt t si \<Longrightarrow> t \<le> now \<Longrightarrow> sim_step ft sha ord opt now si si' \<Longrightarrow>
    sim_reachable ft sha ord opt now si'"

section \<open>The ids of the nodes\<close>

lemma digit_char_inj:
  assumes "m < 10" "n < 10" "digit_char m = digit_char n" shows "m = n"
proof -
  have "distinct ''0123456789abcdef''" by simp
  from nth_eq_iff_index_eq [OF this, of m n] assms show ?thesis by (simp add: digit_char_def)
qed

lemma dec_nat_inj: "dec_nat m = dec_nat n \<Longrightarrow> m = n"
proof (induction m arbitrary: n rule: dec_nat.induct)
  case (1 m)
  consider "m < 10" "n < 10" | "m < 10" "\<not> n < 10" | "\<not> m < 10" "n < 10" | "\<not> m < 10" "\<not> n < 10" by blast
  then show ?case
  proof cases
    case 1
    then show ?thesis using "1.prems" digit_char_inj by (simp add: dec_nat_small)
  next
    case 4
    then have "dec_nat (m div 10) = dec_nat (n div 10)" "digit_char (m mod 10) = digit_char (n mod 10)"
      using "1.prems" by (simp_all add: dec_nat_big)
    then have "m div 10 = n div 10" "m mod 10 = n mod 10" using "1.IH" 4 digit_char_inj by auto
    then show ?thesis by (metis div_mult_mod_eq)
  qed (use "1.prems" dec_nat_nonempty [of "m div 10"] dec_nat_nonempty [of "n div 10"] in \<open>auto simp: dec_nat_small dec_nat_big\<close>)
qed

lemma sim_id_inj [simp]: "sim_id (int i) = sim_id (int j) \<longleftrightarrow> i = j"
  by (auto simp: sim_id_def dec_int_def nat_add_distrib dest: dec_nat_inj)

lemma sim_id_nonempty [simp]: "sim_id i \<noteq> ''''"
  by (simp add: sim_id_def)

section \<open>Every node is a reachable node\<close>

text \<open>
  The ids on the bus are those of the nodes, each under its own handler, and every node is in a state of
  which the theorems on nodes speak.
\<close>

definition node_ok :: "digest \<Rightarrow> (hash \<times> block) ranging \<Rightarrow> gotime \<Rightarrow> nat \<Rightarrow> syncer \<times> node \<Rightarrow> bool" where
  "node_ok sha ord t i sn \<longleftrightarrow> (\<exists>t' \<le> t. node_reachable sha ord t' sn) \<and> nd_id (snd sn) = sim_id (int i)
     \<and> self_id (fst sn) = sim_id (int i) \<and> sc_Transport (sy_cfg (fst sn)) \<and> sc_Chain (sy_cfg (fst sn))"

definition sim_inv :: "digest \<Rightarrow> (hash \<times> block) ranging \<Rightarrow> gotime \<Rightarrow> simulation \<Rightarrow> bool" where
  "sim_inv sha ord t si \<longleftrightarrow> own_handlers (si_tr si)
     \<and> set (inproc_Peers (si_tr si)) = (\<lambda>i. sim_id (int i)) ` {..<length (si_nodes si)}
     \<and> (\<forall>i < length (si_nodes si). node_ok sha ord t i (state_of si i))"

lemma event_ok:
  assumes "node_event sha ord now ps sn r" "node_reachable sha ord t sn" "t \<le> now" "fair_ranging ord"
  shows "(\<exists>t' \<le> now. node_reachable sha ord t' (fst r)) \<and> same_node sn (fst r)"
  using assms(1)
proof cases
  case (ev_round od n s s' es)
  have "good_state sha t (s, n)" using node_reachable_good [OF assms(2,4)] ev_round by simp
  then have "sync_inv s" by (simp add: good_state_def)
  from catchUp_cfg [OF this ev_round(3,4)] run_effects_same [of "(s', n)" now es] have "same_node sn (fst r)"
    using ev_round by (simp add: same_node_def)
  then show ?thesis using ev_round node_reachable.round [OF _ assms(3)] assms(2) by blast
next
  case (ev_probe s s' es n)
  have "sy_cfg s' = sy_cfg s" using cfg_kept(8) [of ps s] ev_probe(3) by simp
  with run_effects_same [of "(s', n)" now es] have "same_node sn (fst r)" using ev_probe by (simp add: same_node_def)
  then show ?thesis using ev_probe node_reachable.probe [OF _ assms(3)] assms(2) by blast
next
  case (ev_forget s n i)
  then show ?thesis using node_reachable.forget_tx assms(2,3) cfg_kept(4) by (fastforce simp: same_node_def)
next
  case (ev_timeout s n tr)
  then show ?thesis using node_reachable.timeout [OF _ assms(3)] rpc_timeout_same assms(2) by (metis fst_conv order_refl)
next
  case (ev_job n s)
  then show ?thesis using node_reachable.job [OF _ assms(3)] assms(2) by (auto simp: same_node_def)
next
  case (ev_attempt n n' es s)
  then show ?thesis using node_reachable.attempt [OF _ assms(3)] assms(2) mine_try_id by (fastforce simp: same_node_def)
next
  case (ev_stop s n)
  then show ?thesis using node_reachable.stop [OF _ assms(3)] assms(2) by (auto simp: same_node_def)
next
  case (ev_clean s n)
  then show ?thesis using node_reachable.clean [OF _ assms(3)] assms(2) by (auto simp: same_node_def)
qed

lemma node_ok_later: "node_ok sha ord t i sn \<Longrightarrow> t \<le> now \<Longrightarrow> node_ok sha ord now i sn"
  unfolding node_ok_def by (meson order_trans)

lemma node_ok_same: "node_ok sha ord t i sn \<Longrightarrow> same_node sn sn' \<Longrightarrow> \<exists>t' \<le> now. node_reachable sha ord t' sn' \<Longrightarrow> node_ok sha ord now i sn'"
  by (simp add: node_ok_def same_node_def)

lemma post_all_frame:
  "own_handlers (post_all inproc_Send inproc_Broadcast es t) = own_handlers t"
  "set (inproc_Peers (post_all inproc_Send inproc_Broadcast es t)) = set (inproc_Peers t)"
  "nb_dropRate (it_bus (post_all inproc_Send inproc_Broadcast es t)) = nb_dropRate (it_bus t)"
proof (induction es arbitrary: t)
  case (Cons e es)
  {
    case 1
    show ?case using Cons(1) inproc_frame by (cases e) simp_all
  next
    case 2
    show ?case using Cons(2) inproc_frame by (cases e) simp_all
  next
    case 3
    show ?case using Cons(3) inproc_frame by (cases e) simp_all
  }
qed simp_all

lemma run_node_parts [simp]:
  "si_tr (run_node ft sha now i r si) = post_all inproc_Send inproc_Broadcast (net_effects (snd r)) (si_tr si)"
  "length (si_nodes (run_node ft sha now i r si)) = length (si_nodes si)"
  "k < length (si_nodes si) \<Longrightarrow> state_of (run_node ft sha now i r si) k = (if k = i then fst r else state_of si k)"
  by (auto simp: run_node_def Let_def split: prod.split)

lemma run_node_inv:
  assumes "sim_inv sha ord now si" "node_ok sha ord now i (fst r)"
  shows "sim_inv sha ord now (run_node ft sha now i r si)"
  using assms by (simp add: sim_inv_def post_all_frame)

lemma tx_tick_inv:
  assumes "sim_inv sha ord now si" "t (2 :: nat) = now"
  shows "sim_inv sha ord now (tx_tick t rnd k si)"
proof (cases "si_nodes si = []")
  case False
  let ?i = "nat (si_txs si mod int (length (si_nodes si)))"
  let ?tx = "NewTransaction (t 0) (t 1) rnd (tx_payload (si_txs si) k)"
  have i: "?i < length (si_nodes si)" using False by (simp add: nat_less_iff)
  obtain s n where sn: "state_of si ?i = (s, n)" by fastforce
  obtain n' es where sub: "SubmitTransaction now ?tx n = (n', es)" by fastforce
  have ok: "node_ok sha ord now ?i (s, n)" using assms(1) i by (auto simp: sim_inv_def simp flip: sn)
  then obtain t' where t': "t' \<le> now" "node_reachable sha ord t' (s, n)" by (auto simp: node_ok_def)
  have "node_reachable sha ord now (s, n')" using node_reachable.submit [OF t'(2,1), of ?tx] sub by simp
  moreover have "same_node (s, n) (s, n')" using submit_id [OF sub] by (simp add: same_node_def)
  ultimately have "node_ok sha ord now ?i (s, n')" using node_ok_same [OF ok] by blast
  moreover have "tx_tick t rnd k si = si\<lparr>si_nodes := (si_nodes si)[?i := (si_nodes si ! ?i)\<lparr>sn_state := (s, n')\<rparr>],
      si_tr := post_all inproc_Send inproc_Broadcast (net_effects es) (si_tr si), si_txs := si_txs si + 1\<rparr>"
    using False sn sub assms(2) by (simp add: tx_tick_def Let_def)
  ultimately show ?thesis using assms(1) i by (auto simp: sim_inv_def post_all_frame nth_list_update)
qed (use assms in \<open>simp add: tx_tick_def\<close>)

lemma join_node_inv:
  assumes inv: "sim_inv sha ord now si" and fair: "fair_ranging ord"
    and gen: "genesis_file_ok (snd (si_files si (filepath_Join [''data'', sim_id (int (length (si_nodes si)))])))"
    and j: "join_node sha ft clock ord opt (int (length (si_nodes si))) si = Some (Inr si')"
  shows "sim_inv sha ord now si'"
proof -
  let ?k = "length (si_nodes si)" let ?id = "sim_id (int ?k)" let ?dir = "filepath_Join [''data'', ?id]"
  obtain st bc dk where oc: "open_chain sha ft clock ord (so_difficulty opt) (snd (si_files si ?dir)) = Some (Inr (st, bc), dk)"
    using j by (auto simp: join_node_def Let_def split: option.splits prod.splits sum.splits)
  let ?cfg = "node_options_config (so_difficulty opt) (so_maxTxPerBlock opt)"
  let ?sn = "NewNode ?id bc (Some (New DefaultConfig)) ?cfg"
  have si': "si' = si\<lparr>si_tr := inproc_Register ?id ?id (si_tr si),
       si_nodes := si_nodes si @ [\<lparr>sn_state = ?sn, sn_store = st, sn_dir = ?dir\<rparr>],
       si_files := (si_files si)(?dir := (fst (si_files si ?dir), dk))\<rparr>"
    using j oc by (simp add: join_node_def Let_def)
  have "chain_reachable sha ord bc \<and> bc_difficulty bc = so_difficulty opt" by (rule open_chain_reachable [OF oc fair gen])
  then have "node_reachable sha ord now ?sn"
    by (intro node_reachable.boot) (simp_all add: node_options_config_def pool_reachable.intros)
  moreover have "nd_id (snd ?sn) = ?id" "self_id (fst ?sn) = ?id" "sc_Transport (sy_cfg (fst ?sn))" "sc_Chain (sy_cfg (fst ?sn))"
    by (simp_all add: NewNode_def Let_def NewSyncer_def)
  ultimately have "node_ok sha ord now ?k ?sn" by (auto simp: node_ok_def)
  moreover have "set (inproc_Peers (inproc_Register ?id ?id (si_tr si))) = insert ?id (set (inproc_Peers (si_tr si)))"
    using set_al_put_keys [of ?id ?id "nb_handlers (it_bus (si_tr si))"]
    by (simp add: inproc_Peers_def PeerIDs_def inproc_Register_def bus_Register_def)
  ultimately show ?thesis using inv own_handlers_Register
    by (auto simp: si' sim_inv_def nth_append less_Suc_eq lessThan_Suc)
qed

lemma sim_step_inv:
  assumes "sim_step ft sha ord opt now si si'" "sim_inv sha ord t si" "t \<le> now" "fair_ranging ord"
  shows "sim_inv sha ord now si'"
proof -
  have inv: "sim_inv sha ord now si" using assms(2) node_ok_later [OF _ assms(3)] unfolding sim_inv_def by blast
  from assms(1) show ?thesis
  proof cases
    case (deliver k h m tr i od r)
    have tr: "own_handlers tr = own_handlers (si_tr si)" "inproc_Peers tr = inproc_Peers (si_tr si)"
      using deliver(2) by (auto simp: inproc_deliver_def own_handlers_def inproc_Peers_def split: if_splits)
    have ok: "node_ok sha ord now i (state_of si i)" using inv deliver(3) by (simp add: sim_inv_def)
    then obtain t' where t': "t' \<le> now" "node_reachable sha ord t' (state_of si i)" by (auto simp: node_ok_def)
    obtain sn' es where r: "r = (sn', es)" by fastforce
    have "node_reachable sha ord now sn'"
      by (rule node_reachable.message [OF t'(2,1) deliver(5) deliver(6) [unfolded in_range_def] deliver(7) [unfolded r]])
    moreover have "sync_inv (fst (state_of si i))" using node_reachable_good [OF t'(2) assms(4)] by (simp add: good_state_def)
    then have "same_node (state_of si i) sn'" using HandleMessage_same [OF _ deliver(5) deliver(7) [unfolded r]] by blast
    ultimately have "node_ok sha ord now i (fst r)" unfolding r fst_conv by (intro node_ok_same [OF ok]) auto
    moreover have "sim_inv sha ord now (si\<lparr>si_tr := tr\<rparr>)" using inv tr by (simp add: sim_inv_def)
    ultimately show ?thesis unfolding deliver(1) by (rule run_node_inv [rotated])
  next
    case (event i ps r)
    have ok: "node_ok sha ord now i (state_of si i)" using inv event(2) by (simp add: sim_inv_def)
    then obtain t' where t': "t' \<le> now" "node_reachable sha ord t' (state_of si i)" by (auto simp: node_ok_def)
    from event_ok [OF event(4) t'(2,1) assms(4)] have "node_ok sha ord now i (fst r)" using node_ok_same [OF ok] by blast
    then show ?thesis unfolding event(1) by (rule run_node_inv [OF inv])
  next
    case (tick t rnd k)
    show ?thesis unfolding tick(1) by (rule tx_tick_inv [OF inv, where t = t]) (rule tick(2))
  next
    case (joins clock)
    show ?thesis by (rule join_node_inv [OF inv assms(4) joins])
  qed
qed

lemma sim_reachable_inv:
  "sim_reachable ft sha ord opt t si \<Longrightarrow> fair_ranging ord \<Longrightarrow> sim_inv sha ord t si"
proof (induction rule: sim_reachable.induct)
  case (sim_init t rng fs)
  show ?case
    by (simp add: sim_inv_def sim_transport_def Let_def inproc_SetDelay_def inproc_SetDropRate_def own_handlers_def inproc_Peers_def
        PeerIDs_def inproc_New_def NewNetworkBus_def bus_SetDelay_def bus_SetDropRate_def)
qed (blast intro: sim_step_inv)

section \<open>Delivering on a bus that loses nothing\<close>

definition lossless :: "string InprocTransport \<Rightarrow> bool" where
  "lossless t \<longleftrightarrow> own_handlers t \<and> \<not> float_less (Some 0) (nb_dropRate (it_bus t))"

lemma deliver_mail:
  assumes "m \<in># inproc_mail t i"
  obtains k t' where "inproc_deliver k t = (Some (i, m), t')" "it_bus t' = it_bus t"
    "\<And>j. inproc_mail t' j = inproc_mail t j - (if j = i then {#m#} else {#})"
proof -
  from assms obtain d where "(d, i, m) \<in> set (it_flight t)" by (auto simp: inproc_mail_def)
  then obtain k where k: "k < length (it_flight t)" "it_flight t ! k = (d, i, m)" by (auto simp: in_set_conv_nth)
  have f: "it_flight t = take k (it_flight t) @ (d, i, m) # drop (Suc k) (it_flight t)"
    using id_take_nth_drop [OF k(1)] k(2) by simp
  let ?t = "t\<lparr>it_flight := take k (it_flight t) @ drop (Suc k) (it_flight t)\<rparr>"
  have "inproc_mail t j = inproc_mail ?t j + (if j = i then {#m#} else {#})" for j
    unfolding inproc_mail_def by (subst f) auto
  then have "inproc_mail ?t j = inproc_mail t j - (if j = i then {#m#} else {#})" for j by simp
  then show ?thesis using k by (intro that [of k ?t]) (simp_all add: inproc_deliver_def)
qed

definition after_delivery :: "nat \<Rightarrow> message \<Rightarrow> (syncer \<times> node) \<times> node_effect list \<Rightarrow> simulation \<Rightarrow> simulation \<Rightarrow> bool" where
  "after_delivery i m r si si' \<longleftrightarrow> length (si_nodes si') = length (si_nodes si)
     \<and> (\<forall>k < length (si_nodes si). state_of si' k = (if k = i then fst r else state_of si k))
     \<and> lossless (si_tr si') \<and> set (inproc_Peers (si_tr si')) = set (inproc_Peers (si_tr si))
     \<and> (\<forall>x \<in> set (inproc_Peers (si_tr si)). inproc_mail (si_tr si') x = inproc_mail (si_tr si) x -
          (if x = sim_id (int i) then {#m#} else {#}) + mset (all_packets same_message same_message () x (net_effects (snd r))))"

lemma deliver_step:
  assumes m: "m \<in># inproc_mail (si_tr si) (sim_id (int i))" and i: "i < length (si_nodes si)" and loss: "lossless (si_tr si)"
    and h: "fair_orders od" "in_range (snd (state_of si i))" "HandleMessage sha ord od now m (state_of si i) = Some r"
  obtains si' where "sim_step ft sha ord opt now si si'" "after_delivery i m r si si'"
proof -
  from m obtain k tr where d: "inproc_deliver k (si_tr si) = (Some (sim_id (int i), m), tr)" "it_bus tr = it_bus (si_tr si)"
    "\<And>j. inproc_mail tr j = inproc_mail (si_tr si) j - (if j = sim_id (int i) then {#m#} else {#})"
    by (rule deliver_mail) (rule that)
  let ?si = "run_node ft sha now i r (si\<lparr>si_tr := tr\<rparr>)"
  have tr: "own_handlers tr" "\<not> float_less (Some 0) (nb_dropRate (it_bus tr))" "set (inproc_Peers tr) = set (inproc_Peers (si_tr si))"
    using loss d(2) by (simp_all add: lossless_def own_handlers_def inproc_Peers_def)
  have "sim_step ft sha ord opt now si ?si" by (rule deliver [OF d(1) i refl h])
  moreover have "after_delivery i m r si ?si"
    using i tr post_all_lossless [OF tr(1,2)] by (simp add: after_delivery_def lossless_def post_all_frame d(3))
  ultimately show ?thesis by (rule that)
qed

section \<open>One block goes from node to node\<close>

text \<open>Only node \<open>i\<close> has changed; what is under way for the others, \<open>a\<close> apart, still is.\<close>

definition only_changed :: "nat \<Rightarrow> nat \<Rightarrow> simulation \<Rightarrow> simulation \<Rightarrow> bool" where
  "only_changed i a si si' \<longleftrightarrow> length (si_nodes si') = length (si_nodes si) \<and> set (inproc_Peers (si_tr si')) = set (inproc_Peers (si_tr si))
     \<and> lossless (si_tr si') \<and> (\<forall>k < length (si_nodes si). k \<noteq> i \<longrightarrow> state_of si' k = state_of si k)
     \<and> (\<forall>x \<in> set (inproc_Peers (si_tr si)). x \<noteq> sim_id (int i) \<and> x \<noteq> sim_id (int a) \<longrightarrow>
          inproc_mail (si_tr si) x \<subseteq># inproc_mail (si_tr si') x)"

lemma net_effects_simps [simp]:
  "net_effects [] = []" "net_effects (Net x # es) = x # net_effects es" "net_effects (TipChange tc # es) = net_effects es"
  by (simp_all add: net_effects_def)

lemma identity_orders: "\<exists>od. fair_orders od"
  by (rule exI [of _ "\<lparr>od_peers = \<lambda>_ xs. xs, od_inflight = \<lambda>_ xs. xs, od_retry = \<lambda>_ xs. xs\<rparr>"])
    (simp add: fair_orders_def fair_ranging_id)

lemma node_ok_parts:
  assumes "node_ok sha ord t i (s, n)" "fair_ranging ord"
  shows "sync_inv s" "chain_inv sha (nd_chain n)" "orphans_waiting (nd_chain n)" "self_id s = sim_id (int i)" "nd_id n = sim_id (int i)"
proof -
  obtain t' where "node_reachable sha ord t' (s, n)" using assms(1) by (auto simp: node_ok_def)
  from node_reachable_good [OF this assms(2)] have "sync_inv s" "node_inv sha n" by (auto simp: good_state_def)
  then show "sync_inv s" "chain_inv sha (nd_chain n)" "orphans_waiting (nd_chain n)" by (simp_all add: node_invD(1,2))
qed (use assms(1) in \<open>auto simp: node_ok_def\<close>)

lemma exchange:
  assumes inv: "sim_inv sha ord t si" and fair: "fair_ranging ord" and loss: "lossless (si_tr si)"
    and i: "i < length (si_nodes si)" and a: "a < length (si_nodes si)" and ia: "i \<noteq> a"
    and has: "BlockByHash (nd_chain (snd (state_of si a))) (blk_Hash b) = Some b" and ra: "in_range (snd (state_of si a))"
    and told: "inv_message t1 (sim_id (int a)) MsgInvBlock (InvBlockPayload (block_meta_of b (blk_Hash b))) \<in># inproc_mail (si_tr si) (sim_id (int i))"
    and idle: "idle_for (blk_Hash b) (fst (state_of si i))" and nb: "next_block sha b (nd_chain (snd (state_of si i)))"
    and ri: "in_range (snd (state_of si i))"
  shows "\<exists>si'. (sim_step ft sha ord opt now)\<^sup>*\<^sup>* si si' \<and> only_changed i a si si' \<and>
     TipHash (nd_chain (snd (state_of si' i))) = blk_Hash b"
proof -
  obtain od where od: "fair_orders od" using identity_orders by blast
  obtain s n where sn: "state_of si i = (s, n)" by fastforce
  obtain sa na where sa: "state_of si a = (sa, na)" by fastforce
  have ok: "node_ok sha ord t i (s, n)" "node_ok sha ord t a (sa, na)" using inv i a by (auto simp: sim_inv_def simp flip: sn sa)
  have peers: "sim_id (int i) \<in> set (inproc_Peers (si_tr si))" "sim_id (int a) \<in> set (inproc_Peers (si_tr si))"
    using inv i a by (auto simp: sim_inv_def)
  note g = node_ok_parts [OF ok(1) fair] and ga = node_ok_parts [OF ok(2) fair]
  let ?get = "direct_message now (sim_id (int i)) (sim_id (int a)) '''' MsgGetBlock (GetBlockPayload (blk_Hash b))"
  let ?blk = "direct_message now (sim_id (int a)) (sim_id (int i)) '''' MsgBlock (BlockPayload (Some b))"
  obtain s1 where 1: "HandleMessage sha ord od now (inv_message t1 (sim_id (int a)) MsgInvBlock (InvBlockPayload (block_meta_of b (blk_Hash b)))) (state_of si i)
      = Some ((s1, n), [Net (Send (sim_id (int a)) ?get)])"
    using hear_announcement [OF g(1,2) _ _ _ _ od, of b "sim_id (int a)" ord now t1] idle nb ia g(4) unfolding sn by auto
  obtain si1 where si1: "sim_step ft sha ord opt now si si1"
    "after_delivery i (inv_message t1 (sim_id (int a)) MsgInvBlock (InvBlockPayload (block_meta_of b (blk_Hash b)))) ((s1, n), [Net (Send (sim_id (int a)) ?get)]) si si1"
    by (rule deliver_step [OF told i loss od ri 1])
  have 2: "HandleMessage sha ord od now ?get (state_of si1 a) = Some ((sa, na), [Net (Send (sim_id (int i)) ?blk)])"
    using si1(2) a ia sa give_block [of na "blk_Hash b" b] has ga(5) by (simp add: after_delivery_def)
  have "?get \<in># inproc_mail (si_tr si1) (sim_id (int a))" using si1(2) peers ia by (simp add: after_delivery_def)
  then obtain si2 where si2: "sim_step ft sha ord opt now si1 si2" "after_delivery a ?get ((sa, na), [Net (Send (sim_id (int i)) ?blk)]) si1 si2"
    by (rule deliver_step [OF _ _ _ od _ 2]) (use si1(2) a ia sa ra in \<open>auto simp: after_delivery_def\<close>)
  obtain s3 n3 where 3: "HandleMessage sha ord od now ?blk (state_of si2 i)
      = Some ((s3, n3), [announce now n3 b (blk_Hash b), tip_change n3 (sim_id (int a)) None])" "TipHash (nd_chain n3) = blk_Hash b"
    "nd_id n3 = sim_id (int i)"
    using adopt_block [OF g(2,3) _ fair, of b od now now "sim_id (int a)" "sim_id (int i)" s1] si1(2) si2(2) i ia nb sn g(5)
    by (auto simp: after_delivery_def)
  have "?blk \<in># inproc_mail (si_tr si2) (sim_id (int i))" using si1(2) si2(2) peers ia by (simp add: after_delivery_def)
  then obtain si3 where si3: "sim_step ft sha ord opt now si2 si3"
    "after_delivery i ?blk ((s3, n3), [announce now n3 b (blk_Hash b), tip_change n3 (sim_id (int a)) None]) si2 si3"
    by (rule deliver_step [OF _ _ _ od _ 3(1)]) (use si1(2) si2(2) i ia sn ri in \<open>auto simp: after_delivery_def\<close>)
  have "(sim_step ft sha ord opt now)\<^sup>*\<^sup>* si si3" using si1(1) si2(1) si3(1) by (meson converse_rtranclp_into_rtranclp rtranclp.rtrancl_refl)
  moreover have "only_changed i a si si3"
    using si1(2) si2(2) si3(2) ia sa by (auto simp: after_delivery_def only_changed_def)
  moreover have "TipHash (nd_chain (snd (state_of si3 i))) = blk_Hash b"
    using si1(2) si2(2) si3(2) i 3(2) by (simp add: after_delivery_def)
  ultimately show ?thesis by blast
qed

section \<open>The bus of a simulation\<close>

text \<open>Only \<^verbatim>\<open>cfg.DropRate\<close> decides whether the bus loses messages.\<close>

lemma sim_step_droprate:
  "sim_step ft sha ord opt now si si' \<Longrightarrow> nb_dropRate (it_bus (si_tr si')) = nb_dropRate (it_bus (si_tr si))"
proof (induction rule: sim_step.induct)
  case (deliver k si h m tr i od r)
  then show ?case by (auto simp: post_all_frame inproc_deliver_def split: if_splits)
next
  case (event i si ps r)
  then show ?case by (simp add: post_all_frame)
next
  case (tick t si rnd k)
  then show ?case by (auto simp: tx_tick_def Let_def post_all_frame split: prod.split)
next
  case (joins si clock si')
  then show ?case
    by (auto simp: join_node_def Let_def inproc_Register_def bus_Register_def split: option.splits prod.splits sum.splits)
qed

lemma sim_lossless:
  assumes "sim_reachable ft sha ord opt t si" "fair_ranging ord" "\<not> float_less (Some 0) (so_dropRate opt)"
  shows "lossless (si_tr si)"
proof -
  have "nb_dropRate (it_bus (si_tr si)) = Some 0"
    using assms(1)
  proof (induction rule: sim_reachable.induct)
    case (sim_init t rng fs)
    show ?case using assms(3)
      by (simp add: sim_transport_def Let_def inproc_SetDelay_def bus_SetDelay_def inproc_New_def NewNetworkBus_def)
  qed (simp add: sim_step_droprate)
  then show ?thesis using sim_reachable_inv [OF assms(1,2)] by (simp add: lossless_def sim_inv_def float_less_def)
qed

section \<open>A block that is mined reaches every node\<close>

text \<open>The node has the tip of \<open>bc\<close>, nothing to fetch, and nothing to do with the block \<open>h\<close> yet.\<close>

definition waits_at :: "blockchain \<Rightarrow> hash \<Rightarrow> syncer \<times> node \<Rightarrow> bool" where
  "waits_at bc h sn \<longleftrightarrow> idle_for h (fst sn) \<and> TipHash (nd_chain (snd sn)) = TipHash bc \<and> GetTip (nd_chain (snd sn)) = GetTip bc
     \<and> bc_difficulty (nd_chain (snd sn)) = bc_difficulty bc \<and> \<not> HasBlock (nd_chain (snd sn)) h
     \<and> (\<forall>(oh, ob) \<in> set (bc_orphans (nd_chain (snd sn))). bh_PrevHash (blk_Header ob) \<noteq> h) \<and> in_range (snd sn)"

lemma waits_next:
  assumes "waits_at bc (blk_Hash b) sn" "bh_PrevHash (blk_Header b) = TipHash bc" "block_key sha b = blk_Hash b"
    "GetTip bc = Some tb" "validateBlockUnlocked sha bc b tb (blk_Hash b) = None" "bh_Height (blk_Header b) \<noteq> 0" "blk_Hash b \<noteq> 0"
  shows "next_block sha b (nd_chain (snd sn))"
  using assms by (simp add: waits_at_def next_block_def validate_None_iff TipHash_def)

lemma spread:
  assumes fair: "fair_ranging ord" and a: "\<And>k. k \<in> set js \<Longrightarrow> k \<noteq> a" and "distinct js"
    and "sim_inv sha ord now si" "lossless (si_tr si)" "a < length (si_nodes si)" "set js \<subseteq> {..<length (si_nodes si)}"
    and "BlockByHash (nd_chain (snd (state_of si a))) (blk_Hash b) = Some b" "in_range (snd (state_of si a))"
    and "\<And>i. i \<in> set js \<Longrightarrow> idle_for (blk_Hash b) (fst (state_of si i)) \<and> next_block sha b (nd_chain (snd (state_of si i))) \<and> in_range (snd (state_of si i))"
    and "\<And>i. i \<in> set js \<Longrightarrow>
       inv_message t1 (sim_id (int a)) MsgInvBlock (InvBlockPayload (block_meta_of b (blk_Hash b))) \<in># inproc_mail (si_tr si) (sim_id (int i))"
  shows "\<exists>si'. (sim_step ft sha ord opt now)\<^sup>*\<^sup>* si si' \<and> length (si_nodes si') = length (si_nodes si) \<and>
     (\<forall>i \<in> set js. TipHash (nd_chain (snd (state_of si' i))) = blk_Hash b) \<and>
     (\<forall>k < length (si_nodes si). k \<notin> set js \<longrightarrow> state_of si' k = state_of si k)"
  using assms(2-)
proof (induction js arbitrary: si)
  case (Cons i js)
  obtain si1 where 1: "(sim_step ft sha ord opt now)\<^sup>*\<^sup>* si si1" "only_changed i a si si1" "TipHash (nd_chain (snd (state_of si1 i))) = blk_Hash b"
    using exchange [OF Cons.prems(3) fair Cons.prems(4) _ Cons.prems(5) _ Cons.prems(7,8), of i t1 ft opt now] Cons.prems(1,6,9,10) by auto
  have inv1: "sim_inv sha ord now si1"
    using 1(1) by (induction rule: rtranclp_induct) (use Cons.prems(3) sim_step_inv [OF _ _ order_refl fair] in auto)
  have peers: "set (inproc_Peers (si_tr si)) = (\<lambda>i. sim_id (int i)) ` {..<length (si_nodes si)}" using Cons.prems(3) by (simp add: sim_inv_def)
  have others: "k < length (si_nodes si)" "k \<noteq> i" "k \<noteq> a" if "k \<in> set js" for k using that Cons.prems(1,2,6) by auto
  have same: "length (si_nodes si1) = length (si_nodes si)" "lossless (si_tr si1)" "state_of si1 a = state_of si a"
    "k \<in> set js \<Longrightarrow> state_of si1 k = state_of si k" for k
    using 1(2) others Cons.prems(1) [of i] Cons.prems(5) by (auto simp: only_changed_def)
  have "\<exists>si2. (sim_step ft sha ord opt now)\<^sup>*\<^sup>* si1 si2 \<and> length (si_nodes si2) = length (si_nodes si1) \<and>
     (\<forall>i \<in> set js. TipHash (nd_chain (snd (state_of si2 i))) = blk_Hash b) \<and>
     (\<forall>k < length (si_nodes si1). k \<notin> set js \<longrightarrow> state_of si2 k = state_of si1 k)"
  proof (rule Cons.IH)
    show "inv_message t1 (sim_id (int a)) MsgInvBlock (InvBlockPayload (block_meta_of b (blk_Hash b))) \<in># inproc_mail (si_tr si1) (sim_id (int k))"
      if "k \<in> set js" for k
      using others [OF that] Cons.prems(10) [of k] that 1(2) peers by (auto simp: only_changed_def intro: mset_subset_eqD)
  qed (use same inv1 others Cons.prems in simp_all)
  then obtain si2 where 2: "(sim_step ft sha ord opt now)\<^sup>*\<^sup>* si1 si2" "length (si_nodes si2) = length (si_nodes si1)"
    "\<forall>i \<in> set js. TipHash (nd_chain (snd (state_of si2 i))) = blk_Hash b"
    "\<forall>k < length (si_nodes si1). k \<notin> set js \<longrightarrow> state_of si2 k = state_of si1 k" by blast
  have "(sim_step ft sha ord opt now)\<^sup>*\<^sup>* si si2" using 1(1) 2(1) by simp
  moreover have "TipHash (nd_chain (snd (state_of si2 i))) = blk_Hash b"
    using 1 2(4) Cons.prems(2,6) by (simp add: only_changed_def)
  moreover have "\<forall>k < length (si_nodes si). k \<notin> set (i # js) \<longrightarrow> state_of si2 k = state_of si k"
    using 1(2) 2(4) by (simp add: only_changed_def)
  ultimately show ?case using 1(2) 2(2,3) by (auto simp: only_changed_def intro!: exI [of _ si2])
qed auto

text \<open>
  C9: A block that a node mines can reach everybody. Take any state the simulation gets into, with no
  losses configured, in which the miner of node \<open>a\<close> has a good nonce on the tip of its chain and every
  other node is at the same tip with nothing to fetch: then there is a run (the miner's attempt, and
  for each other node the announcement, its request and the answer), one schedule in which no goroutine
  interrupts another, after which the mined block is the tip of every node (given that the heights do not run over, and that nobody holds an orphan of the block).
\<close>
theorem mined_block_reaches_all:
  assumes "sim_reachable ft sha ord opt t si" and "t \<le> now" and "fair_ranging ord" and "\<not> float_less (Some 0) (so_dropRate opt)"
    and "a < length (si_nodes si)" and "state_of si a = (s, n)"
    and "nd_job n = Some j" and "TipHash (nd_chain n) = jb_tip j" and "h = header_hash sha (jb_header j) (jb_nonce j)" and "h \<noteq> 0"
    and "MeetsDifficulty h (nd_difficulty n)" and "\<not> HasBlock (nd_chain n) h"
    and "GetTip (nd_chain n) = Some tb" and "sint (bh_Timestamp (blk_Header tb)) \<le> sint (bh_Timestamp (jb_header j))"
    and "bh_Height (jb_header j) \<noteq> 0" and "\<forall>(oh, ob) \<in> set (bc_orphans (nd_chain n)). bh_PrevHash (blk_Header ob) \<noteq> h"
    and "nd_maxHeaders n + uint (TipHeight (nd_chain n)) < 2 ^ 63 - 2"
    and "\<forall>i < length (si_nodes si). i \<noteq> a \<longrightarrow> waits_at (nd_chain n) h (state_of si i)"
  shows "\<exists>si'. (sim_step ft sha ord opt now)\<^sup>*\<^sup>* si si' \<and> length (si_nodes si') = length (si_nodes si) \<and>
     (\<forall>i < length (si_nodes si). TipHash (nd_chain (snd (state_of si' i))) = h)"
proof -
  let ?b = "job_block sha j" let ?N = "length (si_nodes si)" let ?ia = "sim_id (int a)"
  let ?inv = "inv_message now ?ia MsgInvBlock (InvBlockPayload (block_meta_of ?b h))"
  have inv: "sim_inv sha ord t si" by (rule sim_reachable_inv [OF assms(1,3)])
  have loss: "lossless (si_tr si)" by (rule sim_lossless [OF assms(1,3,4)])
  have ok: "node_ok sha ord t a (s, n)" using inv assms(5,6) by (auto simp: sim_inv_def simp flip: assms(6))
  then obtain t' where t': "t' \<le> t" "node_reachable sha ord t' (s, n)" by (auto simp: node_ok_def)
  have id: "nd_id n = ?ia" by (rule node_ok_parts(5) [OF ok assms(3)])
  have ninv: "node_inv sha n" using node_reachable_good [OF t'(2) assms(3)] by (simp add: good_state_def)
  obtain n' tc where m: "mine_try sha ord now n = Some (n', [TipChange tc, Net (Broadcast ?ia ?inv)])"
    "TipHash (nd_chain n') = h" "BlockByHash (nd_chain n') h = Some ?b" "TipHeight (nd_chain n') = TipHeight (nd_chain n) + 1"
    "nd_maxHeaders n' = nd_maxHeaders n"
    using mined_block_adopted [OF t'(2) assms(3,7,8,9,11-16), of now] unfolding id by blast
  let ?r = "((s, n'), [TipChange tc, Net (Broadcast ?ia ?inv)])"
  let ?si = "run_node ft sha now a ?r si"
  have step: "sim_step ft sha ord opt now si ?si"
    using assms(5,6) ev_attempt [OF m(1)] by (intro event [OF _ refl]) simp_all
  have inv1: "sim_inv sha ord now ?si" by (rule sim_step_inv [OF step inv assms(2,3)])
  have st: "state_of ?si k = (if k = a then (s, n') else state_of si k)" if "k < ?N" for k using that by simp
  have hb: "blk_Hash ?b = h" "block_key sha ?b = h" "bh_PrevHash (blk_Header ?b) = TipHash (nd_chain n)"
    using assms(8,9) node_invD(6) [OF ninv assms(7)] by (simp_all add: job_block_def job_ok_def block_key_def)
  have val: "validateBlockUnlocked sha (nd_chain n) ?b tb h = None"
    using mine_found_on_tip [OF ninv assms(3,7,8) _ assms(13,14)] assms(9,11) by simp
  have nxt: "next_block sha ?b (nd_chain (snd (state_of si i)))" if "i < ?N" "i \<noteq> a" for i
    using waits_next [of "nd_chain n" ?b "state_of si i" sha tb] assms(10,13,15,18) hb val that by simp
  have peers: "set (inproc_Peers (si_tr si)) = (\<lambda>i. sim_id (int i)) ` {..<?N}" using inv by (simp add: sim_inv_def)
  have mail: "?inv \<in># inproc_mail (si_tr ?si) (sim_id (int i))" if "i < ?N" "i \<noteq> a" for i
    using post_all_lossless [of "si_tr si" "sim_id (int i)" "[Broadcast ?ia ?inv]"] loss peers that by (auto simp: lossless_def)
  have "in_range n'"
    using assms(17) m(4,5) uint_add_le [of "TipHeight (nd_chain n)" 1] by (simp add: in_range_def)
  moreover have "lossless (si_tr ?si)" using loss by (simp add: lossless_def inproc_frame)
  ultimately have "\<exists>si'. (sim_step ft sha ord opt now)\<^sup>*\<^sup>* ?si si' \<and> length (si_nodes si') = length (si_nodes ?si) \<and>
      (\<forall>i \<in> set (filter (\<lambda>i. i \<noteq> a) [0..<?N]). TipHash (nd_chain (snd (state_of si' i))) = blk_Hash ?b) \<and>
      (\<forall>k < length (si_nodes ?si). k \<notin> set (filter (\<lambda>i. i \<noteq> a) [0..<?N]) \<longrightarrow> state_of si' k = state_of ?si k)"
    using inv1 mail nxt st assms(5,18) m(3) hb(1) by (intro spread [OF assms(3)]) (auto simp: waits_at_def)
  then obtain si' where "(sim_step ft sha ord opt now)\<^sup>*\<^sup>* ?si si'" "length (si_nodes si') = ?N"
    "\<forall>i < ?N. i \<noteq> a \<longrightarrow> TipHash (nd_chain (snd (state_of si' i))) = h" "state_of si' a = (s, n')"
    using assms(5) hb(1) st by auto
  then show ?thesis using step m(2) by (intro exI [of _ si']) (auto intro: converse_rtranclp_into_rtranclp)
qed

lemma sim_good:
  assumes "sim_reachable ft sha ord opt t si" "fair_ranging ord" "i < length (si_nodes si)"
  shows "good_state sha t (state_of si i)"
proof -
  have "node_ok sha ord t i (state_of si i)" using sim_reachable_inv [OF assms(1,2)] assms(3) by (simp add: sim_inv_def)
  then obtain t' where t': "t' \<le> t" "node_reachable sha ord t' (state_of si i)" by (auto simp: node_ok_def)
  then show ?thesis using node_reachable_good [OF t'(2) assms(2)] good_state_later by (cases "state_of si i") blast
qed

section \<open>Two nodes, for the witness\<close>

definition demo_digest1 :: digest where
  "demo_digest1 bs = demo_digest bs + 1"

definition demo_genesis1 :: block where
  "demo_genesis1 = demo_genesis\<lparr>blk_Header := (blk_Header demo_genesis)\<lparr>bh_TxRoot := 1\<rparr>, blk_Hash := 2\<rparr>"

definition demo_chain1 :: blockchain where
  "demo_chain1 = \<lparr>bc_difficulty = 0, bc_blocks = [2 \<mapsto> demo_genesis1], bc_parent = [2 \<mapsto> 0],
     bc_cumWork = [2 \<mapsto> 0], bc_height = [2 \<mapsto> 0], bc_tip = 2, bc_genesis = 2, bc_orphans = []\<rparr>"

definition demo_sim_options :: sim_options where
  "demo_sim_options = \<lparr>so_nodes = 2, so_bootstrap = 2, so_difficulty = 0, so_maxTxPerBlock = 50, so_netDelay = 0, so_dropRate = Some 0\<rparr>"

lemma demo1_hash: "header_hash demo_digest1 h n = demo_digest (PutUint64 n) + 1" "HashTransactions demo_digest1 [] = 1"
  by (simp_all add: demo_digest1_def header_hash_def demo_digest_def HashTransactions_def)

lemma demo_chain1_new: "NewBlockchain demo_digest1 (Some demo_genesis) 0 = Inr demo_chain1"
  by (simp add: NewBlockchain_def Let_def demo_genesis_def demo1_hash demo_nonce demo_chain1_def demo_genesis1_def)

lemma demo_open:
  "\<exists>st. open_chain demo_digest1 no_faults clock ord 0 (snd (demo_disk [demo_genesis])) =
     Some (Inr (st, demo_chain1), snd (demo_disk [demo_genesis]))"
proof -
  obtain st dk where d: "demo_disk [demo_genesis] = (st, dk)" by fastforce
  then have st: "dk_manifest dk = Some (Json st)" "mf_Difficulty st = 0" "mf_Version st = 1" "mf_TipHeight st = 0"
    "dk_blocks dk 0 = Some (Json demo_genesis)" by (auto simp: demo_disk_def Let_def)
  then have o: "Open no_faults demo_digest1 (clock 0) 0 NewGenesisBlock dk = (Inr st, dk)"
    by (simp add: Open_def loadManifest_def no_faults_def)
  have "load_step no_faults (clock 1) 0 [] (st, dk) = Inl demo_genesis"
    using st by (simp add: load_step_def readBlockFile_def no_faults_def)
  then have "LoadMainChain no_faults (clock 1) (st, dk) = Some (Inr [demo_genesis], st, dk)"
    using st(4) by (simp add: LoadMainChain_def max_cap_def load_loop.simps [of _ _ 0] load_loop.simps [of _ _ 1])
  moreover have "restore_chain demo_digest1 ord 0 [demo_genesis] = Some (Inr demo_chain1)"
    by (simp add: restore_chain_def demo_chain1_new)
  ultimately show ?thesis using o d by (simp add: open_chain_def)
qed

lemma demo_join:
  assumes "sim_reachable no_faults demo_digest1 ord demo_sim_options t si" "\<forall>dir. snd (si_files si dir) = snd (demo_disk [demo_genesis])"
  obtains si' x where "sim_reachable no_faults demo_digest1 ord demo_sim_options t si'" "si_nodes si' = si_nodes si @ [x]"
    "sn_state x = NewNode (sim_id (int (length (si_nodes si)))) demo_chain1 (Some (New DefaultConfig)) (node_options_config 0 50)"
    "\<forall>dir. snd (si_files si' dir) = snd (demo_disk [demo_genesis])"
proof -
  obtain st where oc: "open_chain demo_digest1 no_faults int ord 0 (snd (demo_disk [demo_genesis])) =
     Some (Inr (st, demo_chain1), snd (demo_disk [demo_genesis]))" using demo_open by blast
  let ?k = "int (length (si_nodes si))" let ?dir = "filepath_Join [''data'', sim_id ?k]"
  let ?x = "\<lparr>sn_state = NewNode (sim_id ?k) demo_chain1 (Some (New DefaultConfig)) (node_options_config 0 50), sn_store = st, sn_dir = ?dir\<rparr>"
  let ?si = "si\<lparr>si_tr := inproc_Register (sim_id ?k) (sim_id ?k) (si_tr si), si_nodes := si_nodes si @ [?x],
     si_files := (si_files si)(?dir := (fst (si_files si ?dir), snd (demo_disk [demo_genesis])))\<rparr>"
  have "join_node demo_digest1 no_faults int ord demo_sim_options ?k si = Some (Inr ?si)"
    unfolding join_node_def assms(2) [rule_format] by (simp add: Let_def demo_sim_options_def oc)
  moreover have "genesis_file_ok (snd (demo_disk [demo_genesis]))"
    by (simp add: genesis_file_ok_def demo_disk_def Let_def demo_genesis_def)
  ultimately have "sim_step no_faults demo_digest1 ord demo_sim_options t si ?si"
    by (intro joins) (simp_all add: assms(2))
  then have "sim_reachable no_faults demo_digest1 ord demo_sim_options t ?si" by (rule sim_next [OF assms(1) order_refl])
  then show ?thesis using assms(2) by (intro that [of ?si ?x]) simp_all
qed

lemma demo_two:
  obtains si s n where "sim_reachable no_faults demo_digest1 (\<lambda>_ xs. xs) demo_sim_options 5 si" "length (si_nodes si) = 2"
    "NewNode (sim_id 0) demo_chain1 (Some (New DefaultConfig)) (node_options_config 0 50) = (s, n)"
    "state_of si 0 = (s, mine_begin demo_digest1 5 n)"
    "state_of si 1 = NewNode (sim_id 1) demo_chain1 (Some (New DefaultConfig)) (node_options_config 0 50)"
proof -
  let ?o = "\<lambda>(_ :: nat) (xs :: (hash \<times> block) list). xs"
  let ?new = "\<lambda>i. NewNode (sim_id i) demo_chain1 (Some (New DefaultConfig)) (node_options_config 0 50)"
  obtain s n where sn: "?new 0 = (s, n)" by fastforce
  have 0: "sim_reachable no_faults demo_digest1 ?o demo_sim_options 5 \<lparr>si_tr = sim_transport demo_sim_options (\<lambda>_. 0), si_nodes = [],
      si_files = \<lambda>_. (None, snd (demo_disk [demo_genesis])), si_txs = 0\<rparr>" by (rule sim_init)
  obtain si1 x where 1: "sim_reachable no_faults demo_digest1 ?o demo_sim_options 5 si1" "si_nodes si1 = [x]" "sn_state x = ?new 0"
    "\<forall>dir. snd (si_files si1 dir) = snd (demo_disk [demo_genesis])"
    using demo_join [OF 0] by auto
  obtain si2 y where 2: "sim_reachable no_faults demo_digest1 ?o demo_sim_options 5 si2" "si_nodes si2 = [x, y]" "sn_state y = ?new 1"
    by (rule demo_join [OF 1(1,4)]) (simp add: 1(2))
  have "nd_job n = None" using sn by (auto simp: NewNode_def Let_def)
  then have "sim_step no_faults demo_digest1 ?o demo_sim_options 5 si2
      (run_node no_faults demo_digest1 5 0 ((s, mine_begin demo_digest1 5 n), []) si2)"
    using 2 1(3) sn by (intro event [OF _ refl]) (auto intro: ev_job)
  from sim_next [OF 2(1) order_refl this] show ?thesis using 2 sn by (intro that) auto
qed

theorem mined_block_reaches_all_witness:
  "\<exists>si si'. sim_reachable no_faults demo_digest1 (\<lambda>_ xs. xs) demo_sim_options 5 si \<and> length (si_nodes si) = 2 \<and>
     (sim_step no_faults demo_digest1 (\<lambda>_ xs. xs) demo_sim_options 6)\<^sup>*\<^sup>* si si' \<and> (\<forall>i < 2. TipHash (nd_chain (snd (state_of si' i))) = 1)"
proof -
  obtain si s n where d: "sim_reachable no_faults demo_digest1 (\<lambda>_ xs. xs) demo_sim_options 5 si" "length (si_nodes si) = 2"
    "NewNode (sim_id 0) demo_chain1 (Some (New DefaultConfig)) (node_options_config 0 50) = (s, n)"
    "state_of si 0 = (s, mine_begin demo_digest1 5 n)"
    "state_of si 1 = NewNode (sim_id 1) demo_chain1 (Some (New DefaultConfig)) (node_options_config 0 50)" by (rule demo_two)
  have n: "nd_chain n = demo_chain1" "nd_difficulty n = 0" "nd_maxHeaders n = 2000"
    using d(3) by (auto simp: NewNode_def Let_def node_options_config_def)
  obtain j where j: "nd_job (mine_begin demo_digest1 5 n) = Some j" "jb_tip j = 2" "jb_nonce j = 0"
    "bh_Height (jb_header j) = 1" "bh_Timestamp (jb_header j) = 0"
    using mine_begin_job [of demo_digest1 5 n] n by (auto simp: TipHash_def TipHeight_def demo_chain1_def UnixMilli_def)
  have "waits_at demo_chain1 1 (state_of si 1)" unfolding d(5)
    by (simp add: waits_at_def idle_for_def NewNode_def Let_def NewSyncer_def node_options_config_def demo_chain1_def HasBlock_def
        in_range_def TipHeight_def is_inflight_def no_wanted_def)
  then have w: "\<forall>i < length (si_nodes si). i \<noteq> 0 \<longrightarrow> waits_at (nd_chain (mine_begin demo_digest1 5 n)) 1 (state_of si i)"
    using d(2) n by (auto simp: less_2_cases_iff mine_begin_frame)
  have "\<exists>si'. (sim_step no_faults demo_digest1 (\<lambda>_ xs. xs) demo_sim_options 6)\<^sup>*\<^sup>* si si' \<and> length (si_nodes si') = length (si_nodes si) \<and>
     (\<forall>i < length (si_nodes si). TipHash (nd_chain (snd (state_of si' i))) = 1)"
    by (rule mined_block_reaches_all [OF d(1) _ fair_ranging_id _ _ d(4) j(1) _ _ _ _ _ _ _ _ _ _ w, of 6 demo_genesis1])
      (simp_all add: d(2) n j demo1_hash demo_nonce0 TipHash_def HasBlock_def GetTip_def mine_begin_frame mine_begin_max demo_chain1_def
        demo_sim_options_def float_less_def TipHeight_def demo_genesis1_def demo_genesis_def)
  then show ?thesis using d(1,2) by auto
qed

end
