(* ===== verification/Uninterrupted.thy ===== *)
theory Uninterrupted
  imports Goroutines
begin

text \<open>
  The programs of \<open>Goroutines\<close> against the functions of \<open>Syncer\<close> and \<open>Node\<close>: a goroutine that nothing
  interrupts does what the function says. So a step of \<open>Simulation\<close> is a run of the program, from its first
  critical section to its last.
\<close>

section \<open>Running a program\<close>

named_theorems run_simps \<open>uninterrupted runs of the parts of programs\<close>

definition emits :: "node_effect list \<Rightarrow> ('a \<times> node_effect list) option \<Rightarrow> ('a \<times> node_effect list) option" where
  "emits es r = map_option (apsnd ((@) es)) r"

lemma emits_simps [simp]:
  "emits es None = None" "emits es (Some x) = Some (fst x, es @ snd x)" "emits [] r = r" "emits es (emits fs r) = emits (es @ fs) r"
  by (cases x, simp add: emits_def) (cases r, simp_all add: emits_def apsnd_def map_prod_def split_def)+

lemma run_act [run_simps]: "run now (act f k) sn = (case f now sn of (sn', es, x) \<Rightarrow> emits es (run now (k x) sn'))"
  by (simp add: act_def emits_def split: prod.split)

lemma run_look [run_simps]: "run now (look g k) sn = run now (k (g now sn)) sn"
  by (simp add: look_def run_act)

lemma run_sync_do [run_simps]: "run now (sync_do f k) (s, n) = run now k (f now s, n)"
  by (simp add: sync_do_def run_act)

lemma run_node_do [run_simps]: "run now (node_do f k) (s, n) = run now k (s, f now n)"
  by (simp add: node_do_def run_act)

lemma run_emit [run_simps]: "run now (emit e k) sn = emits (e now sn) (run now k sn)"
  by (simp add: emit_def run_act)

lemma run_if_wired [run_simps]:
  "run now (if_wired k p) (s, n) = (if sc_Transport (sy_cfg s) \<and> sc_Chain (sy_cfg s) then run now p (s, n) else run now k (s, n))"
  by (simp add: if_wired_def run_look)

lemma run_has_block [run_simps]: "run now (has_block h k) (s, n) = run now (k (HasBlock (nd_chain n) h)) (s, n)"
  by (simp add: has_block_def run_look)

section \<open>The syncer\<close>

lemma run_enqueue [run_simps]: "run now (enqueue h p kind k) (s, n) = run now k (enqueueBlock (nd_chain n) h p kind s, n)"
  by (auto simp: enqueue_def run_simps enqueueBlock_def enqueue_locked_def)

lemma run_each_emit:
  assumes "\<And>x k. run now (f x k) sn = emits (g x) (run now k sn)"
  shows "run now (each f xs k) sn = emits (concat (map g xs)) (run now k sn)"
  by (induction xs) (simp_all add: assms)

lemma run_ask_best [run_simps]:
  "run now (ask_best od now k) (s, n) = (case best_peer od now s of None \<Rightarrow> None | Some p \<Rightarrow> run now (k p) (s, n))"
  by (simp add: ask_best_def run_look split: option.split)

lemma run_send_block: "run now (send_block r k) (s, n) = emits [Net (get_block_effect now s r)] (run now k (s, n))"
  by (simp add: send_block_def run_emit)

lemma run_send_batch: "run now (send_batch b k) (s, n) = emits (map Net (sendGetBlocks now s b)) (run now k (s, n))"
  by (simp add: send_batch_def run_emit)

lemma run_sends:
  "run now (each send_block rs k) (s, n) = emits (map Net (map (get_block_effect now s) rs)) (run now k (s, n))"
  "run now (each send_batch bs k) (s, n) = emits (map Net (concat (map (sendGetBlocks now s) bs))) (run now k (s, n))"
  using run_each_emit [of now send_block "(s, n)", OF run_send_block] run_each_emit [of now send_batch "(s, n)", OF run_send_batch]
  by (simp_all add: map_concat comp_def)

lemma dispatch_locked_eq:
  "dispatchQueuedBlocks od bc now s =
     (if \<not> sc_Transport (sy_cfg s) \<or> \<not> sc_Chain (sy_cfg s) then Some (s, [])
      else case best_peer od now s of None \<Rightarrow> None
      | Some best \<Rightarrow> (case dispatch_locked now bc best s of (s', sends, batches) \<Rightarrow>
          Some (s', map (get_block_effect now s') sends @ concat (map (sendGetBlocks now s') batches))))"
  by (simp add: dispatchQueuedBlocks_def dispatch_locked_def Let_def split_def split: option.split)

lemma run_dispatch [run_simps]:
  "run now (dispatch od (\<lambda>bc. bc) now k) (s, n) = (case dispatchQueuedBlocks od (nd_chain n) now s of
     None \<Rightarrow> None | Some (s', es) \<Rightarrow> emits (map Net es) (run now k (s', n)))"
  by (simp add: dispatch_def dispatch_locked_eq run_simps run_sends split_def split: option.split)

section \<open>Blocks\<close>

lemma run_return_txs [run_simps]:
  "run now (return_txs txs k) (s, n) = run now k (s, n\<lparr>nd_mempool := Return (\<lambda>_. now) txs (nd_mempool n)\<rparr>)"
  by (induction txs arbitrary: n) (simp_all add: return_txs_def run_simps split_def comp_def)

lemma run_remove_ids [run_simps]: "run now (remove_ids ids k) (s, n) = run now k (s, n\<lparr>nd_mempool := RemoveByID ids (nd_mempool n)\<rparr>)"
  by (simp add: remove_ids_def run_simps)

lemma run_reorg_returns [run_simps]:
  "run now (reorg_returns bs k) (s, n) = (case return_removed (\<lambda>_. now) bs (nd_mempool n) of
     None \<Rightarrow> None | Some mp \<Rightarrow> run now k (s, n\<lparr>nd_mempool := mp\<rparr>))"
  by (induction bs k arbitrary: n rule: reorg_returns.induct) (simp_all add: run_simps split: option.split)

lemma run_apply_reorg [run_simps]:
  "run now (apply_reorg r k) (s, n) = (case applyReorg (\<lambda>_. now) r n of None \<Rightarrow> None | Some n' \<Rightarrow> run now k (s, n'))"
  by (simp add: apply_reorg_def applyReorg_def run_simps split: option.split)

lemma run_remove_txs [run_simps]: "run now (remove_txs b k) (s, n) = run now k (s, removeTxsFromBlock b n)"
  by (simp add: remove_txs_def removeTxsFromBlock_def run_simps)

lemma run_add_block [run_simps]:
  "run now (add_block sha ord b k) (s, n) = (case AddBlock sha ord (Some b) (nd_chain n) of None \<Rightarrow> None
     | Some (res, err, bc) \<Rightarrow> run now (k res (err \<noteq> None)) (s, n\<lparr>nd_chain := bc\<rparr>))"
  by (simp add: add_block_def run_act split: option.split prod.split)

lemma run_report_tip [run_simps]: "run now (report_tip p r k) (s, n) = emits [tip_change n p r] (run now k (s, n))"
  by (simp add: report_tip_def run_simps tip_change_def)

lemma run_on_new_block [run_simps]:
  "run now (on_new_block sha ord b p k) (s, n) = (case onNewBlock sha ord now b p (n, []) of None \<Rightarrow> None
     | Some (n', es) \<Rightarrow> emits es (run now k (s, n')))"
  by (auto simp: on_new_block_def onNewBlock_def run_simps Let_def split: option.split prod.split)

section \<open>Messages\<close>

lemma run_got_block [run_simps]: "run now (got_block h k) (s, n) = run now k (onBlockArrived h s, n)"
  by (simp add: got_block_def run_simps)

lemma run_record_request [run_simps]: "run now (record_request h p k) (s, n) = run now k (record_answer now h p s, n)"
  by (simp add: record_request_def record_answer_def run_simps Let_def split: option.split)

lemma run_handle_inv_block [run_simps]:
  "run now (handle_inv_block sha od (\<lambda>bc. bc) meta p Done) (s, n) = (case HandleInvBlock sha od (nd_chain n) now meta p s of
     None \<Rightarrow> None | Some (s', es) \<Rightarrow> Some ((s', n), map Net es))"
  by (auto simp: handle_inv_block_def HandleInvBlock_def run_simps Let_def split: sum.split option.split)

lemma onNewBlock_out:
  "onNewBlock sha ord now b p (n, es) = (case onNewBlock sha ord now b p (n, []) of None \<Rightarrow> None | Some (n', es') \<Rightarrow> Some (n', es @ es'))"
  by (auto simp: onNewBlock_def Let_def Option.bind_eq_None_conv split: option.split bind_splits prod.split)

lemma run_handle_block [run_simps]:
  "run now (handle_block sha ord b p Done) (s, n) =
     (case HandleBlock sha (Some (on_block sha ord now)) now (Some b) p (s, Some (n, [])) of (s', w) \<Rightarrow>
        (case w of None \<Rightarrow> None | Some (n', es) \<Rightarrow> Some ((s', n'), es)))"
  by (simp add: handle_block_def HandleBlock_def on_block_def run_simps Let_def split: option.split)

lemma handle_each_None: "snd (handle_each sha (on_block sha ord now) p bs (s, None)) = None"
  by (induction bs arbitrary: s) (auto simp: on_block_def split: option.split)

lemma run_handle_each:
  "run now (each (\<lambda>b k. case b of None \<Rightarrow> k
      | Some b \<Rightarrow> got_block (claimed_hash sha b) (on_new_block sha ord b p k)) bs Done) (s, n) =
    (case handle_each sha (on_block sha ord now) p bs (s, Some (n, [])) of (s', w) \<Rightarrow>
        (case w of None \<Rightarrow> None | Some (n', es) \<Rightarrow> Some ((s', n'), es)))"
proof -
  have o: "on_block sha ord now b p (Some w) = onNewBlock sha ord now b p w" for b w by (simp add: on_block_def)
  have "emits es (run now (each (\<lambda>b k. case b of None \<Rightarrow> k
      | Some b \<Rightarrow> got_block (claimed_hash sha b) (on_new_block sha ord b p k)) bs Done) (s, n)) =
    (case handle_each sha (on_block sha ord now) p bs (s, Some (n, es)) of (s', w) \<Rightarrow>
        (case w of None \<Rightarrow> None | Some (n', es) \<Rightarrow> Some ((s', n'), es)))" for es
  proof (induction bs arbitrary: s n es)
    case (Cons b bs)
    show ?case
    proof (cases b)
      case (Some x)
      show ?thesis
      proof (cases "onNewBlock sha ord now x p (n, [])")
        case None
        then show ?thesis using handle_each_None [of sha ord now p bs] onNewBlock_out [of sha ord now x p n es]
          by (simp add: Some run_simps o split_def)
      next
        case (Some r)
        then show ?thesis using Cons.IH [of "es @ snd r" "onBlockArrived (claimed_hash sha x) s" "fst r"]
            onNewBlock_out [of sha ord now x p n es] by (simp add: \<open>b = Some x\<close> run_simps o split_def)
      qed
    qed (simp add: Cons.IH)
  qed simp
  from this [of "[]"] show ?thesis by simp
qed

lemma run_handle_blocks [run_simps]:
  "run now (handle_blocks sha ord bs p Done) (s, n) =
     (case HandleBlocks sha (Some (on_block sha ord now)) now bs p (s, Some (n, [])) of None \<Rightarrow> None
      | Some (s', w) \<Rightarrow> (case w of None \<Rightarrow> None | Some (n', es) \<Rightarrow> Some ((s', n'), es)))"
  by (simp add: handle_blocks_def HandleBlocks_def run_handle_each run_simps Let_def split: option.split prod.split)

lemma run_has_tx [run_simps]: "run now (has_tx i k) (s, n) = run now (k (hasTx n i)) (s, n)"
  by (simp add: has_tx_def run_simps)

lemma run_add_tx [run_simps]:
  "run now (add_tx tx k) (s, n) = (case Add now tx (nd_mempool n) of (added, mp) \<Rightarrow> run now (k added) (s, n\<lparr>nd_mempool := mp\<rparr>))"
  by (simp add: add_tx_def run_act split_def)

lemma run_handle_inv_tx [run_simps]:
  "run now (handle_inv_tx txid p Done) (s, n) = (case HandleInvTx (Some (hasTx n)) now txid p s of (s', es) \<Rightarrow> Some ((s', n), map Net es))"
  by (simp add: handle_inv_tx_def HandleInvTx_def run_simps Let_def)

lemma run_accept_tx [run_simps]:
  "run now (accept_tx tx k) (s, n) = (case acceptTxFromPeer now tx p n of (added, n') \<Rightarrow> run now (k added) (s, n'))"
  by (simp add: accept_tx_def acceptTxFromPeer_def run_simps split: prod.split)

lemma run_handle_tx [run_simps]:
  "run now (handle_tx tx p Done) (s, n) = (case HandleTx (Some (acceptTxFromPeer now)) now tx p (s, n) of (sn, es) \<Rightarrow> Some (sn, map Net es))"
  by (auto simp: handle_tx_def HandleTx_def announce_tx_def run_simps run_accept_tx [of _ _ _ _ _ p] Let_def split: prod.split)

lemma run_rpc_back [run_simps]: "run now (rpc_back False c resp k) (s, n) = run now k (rpc_return now c resp s, n)"
  by (simp add: rpc_back_def rpc_return_def run_simps Let_def split: rpc_call.split)

lemma run_take_call [run_simps]:
  "run now (take_call tr k) (s, n) = run now (k (nd_pendingRPC n tr)) (s, n\<lparr>nd_pendingRPC := (nd_pendingRPC n)(tr := None)\<rparr>)"
  by (simp add: take_call_def run_act)

lemma run_send_to [run_simps]: "run now (send_to p m k) (s, n) = emits [Net (Send p (m now (nd_id n)))] (run now k (s, n))"
  by (simp add: send_to_def run_simps)

lemma run_rpc_start [run_simps]:
  "run now (rpc_start to typ pl c k) (s, n) = (case rpc now to typ pl c (s, n) of (sn, es) \<Rightarrow> emits es (run now k sn))"
  by (simp add: rpc_start_def rpc_def run_simps Let_def)

lemma run_get_tx [run_simps]: "run now (get_tx txid p Done) (s, n) = Some ((s, n), onGetTx now txid p n)"
  by (simp add: get_tx_def onGetTx_def run_simps split: option.split)

lemma run_get_block [run_simps]: "run now (get_block h p Done) (s, n) = Some ((s, n), onGetBlock now h p n)"
  by (simp add: get_block_def block_by_hash_def onGetBlock_def run_simps split: option.split)

lemma run_get_tip [run_simps]: "run now (get_tip p tr Done) (s, n) = Option.bind (onGetTip now p tr n) (\<lambda>es. Some ((s, n), es))"
  by (simp add: get_tip_def onGetTip_def run_simps split: option.split)

lemma run_get_headers [run_simps]: "run now (get_headers loc mx p tr Done) (s, n) = Option.bind (onGetHeaders now loc mx p tr n) (\<lambda>es. Some ((s, n), es))"
  by (simp add: get_headers_def onGetHeaders_def run_simps Let_def split: option.split)

lemma run_collect_blocks [run_simps]:
  "run now (collect_blocks hs acc k) (s, n) = run now (k (acc @ List.map_filter (BlockByHash (nd_chain n)) hs)) (s, n)"
  by (induction hs arbitrary: acc) (simp_all add: block_by_hash_def run_simps map_filter_simps split: option.split)

lemma run_get_blocks [run_simps]: "run now (get_blocks hs p tr Done) (s, n) = Some ((s, n), onGetBlocks now hs p tr n)"
  by (simp add: get_blocks_def onGetBlocks_def run_simps)

text \<open>The handler of the node: what \<open>HandleMessage\<close> says is what its goroutine does when it is alone.\<close>

lemma run_route:
  "tryDeliverRPC now msg (s, n) = None \<Longrightarrow> run now (route sha ord od (\<lambda>bc. bc) msg) (s, n) = HandleMessage sha ord od now msg (s, n)"
  by (simp add: route_def HandleMessage_def run_simps Let_def split: payload.split option.split prod.split)

lemma run_message: "run now (message_prog sha ord od (\<lambda>bc. bc) False msg) (s, n) = HandleMessage sha ord od now msg (s, n)"
proof (cases "msg_TraceID msg = '''' \<or> nd_pendingRPC n (msg_TraceID msg) = None")
  case True
  then have "(nd_pendingRPC n)(msg_TraceID msg := None) = nd_pendingRPC n \<or> msg_TraceID msg = ''''" by auto
  with True run_route [of now msg s n] show ?thesis
    by (auto simp: message_prog_def run_simps tryDeliverRPC_def)
qed (auto simp: message_prog_def HandleMessage_def tryDeliverRPC_def run_simps)

section \<open>The loop of the syncer\<close>

lemma run_reports:
  "run now (each report_timeout ps k) (s, n) = run now k (s\<lparr>sy_peers := fold (ReportTimeout now) ps (sy_peers s)\<rparr>, n)"
  by (induction ps arbitrary: s) (simp_all add: report_timeout_def run_simps)

lemma run_batches:
  "run now (each (\<lambda>(p, hs). each (\<lambda>c. send_batch (p, c)) (cs hs)) xs k) (s, n) =
     emits (map Net (concat (map (\<lambda>(p, hs). concat (map (\<lambda>c. sendGetBlocks now s (p, c)) (cs hs))) xs))) (run now k (s, n))"
proof (induction xs)
  case (Cons x xs)
  have "run now (each (\<lambda>c. send_batch (fst x, c)) ys k) (s, n) = emits (map Net (concat (map (\<lambda>c. sendGetBlocks now s (fst x, c)) ys))) (run now k (s, n))"
    for ys k by (induction ys) (simp_all add: run_send_batch)
  then show ?case using Cons by (simp add: split_def)
qed simp

lemma run_tick_inflight [run_simps]:
  "run now (tick_inflight od now k) (s, n) = (case tickInflight od (nd_chain n) now s of
     None \<Rightarrow> None | Some (s', es) \<Rightarrow> emits (map Net es) (run now k (s', n)))"
proof (cases "best_peer od now s")
  case (Some best)
  obtain s1 t where f: "fold (tick_one now best) (od_inflight od 0 (sy_inflightBlocks s))
      (s, \<lparr>tk_sends = [], tk_retrySync = [], tk_timeouts = [], tk_syncFailed = False\<rparr>) = (s1, t)" by fastforce
  show ?thesis
    by (simp add: tick_inflight_def tickInflight_def tick_locked_def run_simps run_reports run_sends run_batches Some f Let_def del: map_map map_concat)
qed (simp add: tick_inflight_def tickInflight_def run_simps)

lemma run_queue_metas [run_simps]:
  "run now (queue_metas_prog p ms any k) (s, n) = (case queue_metas (nd_chain n) p ms s any of (s', any') \<Rightarrow> run now (k any') (s', n))"
  by (induction ms arbitrary: s any) (simp_all add: run_simps)

lemma run_report_timeout [run_simps]:
  "run now (report_timeout p k) (s, n) = run now k (s\<lparr>sy_peers := ReportTimeout now p (sy_peers s)\<rparr>, n)"
  by (simp add: report_timeout_def run_simps)

lemma run_header [run_simps]:
  "run now (header_prog od (\<lambda>bc. bc) now r k) (s, n) = (case header_result od (nd_chain n) now r s of
     None \<Rightarrow> None | Some (s', es) \<Rightarrow> emits (map Net es) (run now k (s', n)))"
  by (simp add: header_prog_def header_result_def run_simps run_act Let_def split: prod.split option.split)

text \<open>Handling a header result neither reads nor changes the channel.\<close>

abbreviation ch :: "headers_result list \<Rightarrow> syncer \<Rightarrow> syncer" where
  "ch rs s \<equiv> s\<lparr>sy_headersCh := rs\<rparr>"

lemma pop_ch: "popNextQueuedLocked (ch rs s) = apsnd (ch rs) (popNextQueuedLocked s)"
  by (simp add: popNextQueuedLocked_def Let_def split: prod.split option.split)

lemma admit_ch: "admit now bc best h p kind (ch rs s, sends) = apfst (ch rs) (admit now bc best h p kind (s, sends))"
  by (simp add: admit_def is_inflight_def track_def Let_def)

lemma front_ch: "dispatch_front now bc best (ch rs s, sends) = apfst (ch rs) (dispatch_front now bc best (s, sends))"
proof (induction now bc best "(s, sends)" arbitrary: s sends rule: dispatch_front.induct)
  case (1 now bc best s sends)
  show ?case
  proof (cases "int (length (sy_inflightBlocks s)) < max_inflight s")
    case True
    obtain r s1 where p: "popNextQueuedLocked s = (r, s1)" by fastforce
    show ?thesis
    proof (cases r)
      case None
      then show ?thesis using p True by (simp add: dispatch_front.simps [of _ _ _ s] dispatch_front.simps [of _ _ _ "ch rs s"] pop_ch)
    next
      case (Some x)
      obtain h q kind where x: "x = (h, q, kind)" by (cases x)
      obtain s2 sends2 where a: "admit now bc best h q kind (s1, sends) = (s2, sends2)" by fastforce
      have "kind \<noteq> BlkSync \<Longrightarrow> dispatch_front now bc best (ch rs s2, sends2) = apfst (ch rs) (dispatch_front now bc best (s2, sends2))"
        using "1.hyps" [OF True p [symmetric, unfolded Some x] refl refl refl _ a] by blast
      then show ?thesis using p True Some x a
        by (simp add: dispatch_front.simps [of _ _ _ s] dispatch_front.simps [of _ _ _ "ch rs s"] pop_ch admit_ch put_back_sync_def)
    qed
  qed (simp add: dispatch_front.simps [of _ _ _ s] dispatch_front.simps [of _ _ _ "ch rs s"])
qed

lemma take_ch: "take_batch now bc p m (ch rs s) hs = apfst (ch rs) (take_batch now bc p m s hs)"
proof (induction m arbitrary: s hs)
  case (Suc m)
  show ?case
  proof (cases "wq_queue (sy_sync s)")
    case (Cons h q)
    let ?s = "s\<lparr>sy_sync := \<lparr>wq_queue = q, wq_queued = al_del h (wq_queued (sy_sync s))\<rparr>\<rparr>"
    have c: "(ch rs s)\<lparr>sy_sync := x\<rparr> = ch rs (s\<lparr>sy_sync := x\<rparr>)" for x by simp
    have t: "track now h p BlkSync (ch rs ?s) = ch rs (track now h p BlkSync ?s)" by (simp add: track_def)
    show ?thesis using Cons by (simp add: Let_def c t Suc.IH is_inflight_def)
  qed simp
qed simp

lemma sync_ch: "dispatch_sync now bc p (ch rs s) batches = apfst (ch rs) (dispatch_sync now bc p s batches)"
proof (induction now bc p s batches rule: dispatch_sync.induct)
  case (1 now bc p s batches)
  have b: "batch_size (ch rs s) = batch_size s" by (simp add: batch_size_def Let_def)
  obtain s1 hs where t: "take_batch now bc p (nat (batch_size s)) s [] = (s1, hs)" by fastforce
  show ?case
    using "1.IH" [OF _ refl _ _ t [symmetric]]
    by (simp add: dispatch_sync.simps [of _ _ _ s] dispatch_sync.simps [of _ _ _ "ch rs s"] b take_ch t Let_def)
qed

lemma inv_ch: "dispatch_inv now bc best (ch rs s, sends) = apfst (ch rs) (dispatch_inv now bc best (s, sends))"
proof (induction now bc best "(s, sends)" arbitrary: s sends rule: dispatch_inv.induct)
  case (1 now bc best s sends)
  show ?case
  proof (cases "int (length (sy_inflightBlocks s)) < max_inflight s \<and> wq_queue (sy_inv s) \<noteq> []")
    case True
    then obtain h q where h: "int (length (sy_inflightBlocks s)) < max_inflight s" "wq_queue (sy_inv s) = h # q" by (cases "wq_queue (sy_inv s)") auto
    let ?s = "s\<lparr>sy_inv := \<lparr>wq_queue = q, wq_queued = al_del h (wq_queued (sy_inv s))\<rparr>\<rparr>"
    obtain s2 sends2 where a: "(if IsZero h then (?s, sends) else admit now bc best h (go_get '''' (map_of (wq_queued (sy_inv s))) h) BlkInv (?s, sends)) = (s2, sends2)"
      by fastforce
    have c: "(ch rs s)\<lparr>sy_inv := x\<rparr> = ch rs (s\<lparr>sy_inv := x\<rparr>)" for x by simp
    have a': "(if IsZero h then (ch rs ?s, sends) else admit now bc best h (go_get '''' (map_of (wq_queued (sy_inv s))) h) BlkInv (ch rs ?s, sends)) = (ch rs s2, sends2)"
      using a by (auto simp: admit_ch split: if_splits)
    show ?thesis using "1.hyps" [OF h(1,2) refl refl a] h a a'
      by (simp add: dispatch_inv.simps [of _ _ _ s] dispatch_inv.simps [of _ _ _ "ch rs s"] Let_def c)
  next
    case False
    then show ?thesis
      by (auto simp: dispatch_inv.simps [of _ _ _ s] dispatch_inv.simps [of _ _ _ "ch rs s"] split: list.split)
  qed
qed

abbreviation chs :: "headers_result list \<Rightarrow> (syncer \<times> effect list) option \<Rightarrow> (syncer \<times> effect list) option" where
  "chs rs \<equiv> map_option (apfst (ch rs))"

lemma dispatch_ch: "dispatchQueuedBlocks od bc now (ch rs s) = chs rs (dispatchQueuedBlocks od bc now s)"
proof -
  have "dispatch_locked now bc best (ch rs s) = (case dispatch_locked now bc best s of (s', x) \<Rightarrow> (ch rs s', x))" for best
    by (simp add: dispatch_locked_def front_ch sync_ch inv_ch split_def Let_def)
  moreover have "best_peer od now (ch rs s) = best_peer od now s" by (simp add: best_peer_def)
  moreover have "get_block_effect now (ch rs x) = get_block_effect now x" "sendGetBlocks now (ch rs x) = sendGetBlocks now x" for x
    by (simp_all add: fun_eq_iff get_block_effect_def sendGetBlocks_def)
  ultimately show ?thesis by (simp add: dispatch_locked_eq split_def split: option.split)
qed

lemma enqueue_ch: "enqueueBlock bc h p kind (ch rs s) = ch rs (enqueueBlock bc h p kind s)"
  by (simp add: enqueueBlock_def is_inflight_def split: req_kind.split)

lemma metas_ch: "queue_metas bc p ms (ch rs s) any = apfst (ch rs) (queue_metas bc p ms s any)"
  by (induction ms arbitrary: s any) (simp_all add: enqueue_ch)

lemma header_ch: "header_result od bc now r (ch rs s) = chs rs (header_result od bc now r s)"
proof (cases "hr_ok r")
  case True
  obtain s1 q where m: "queue_metas bc (hr_peer r) (hr_metas r) (s\<lparr>sy_headerReqInFlight := False, sy_headerRetries := 0\<rparr>) False = (s1, q)" by fastforce
  have "(ch rs s)\<lparr>sy_headerReqInFlight := False, sy_headerRetries := 0\<rparr> = ch rs (s\<lparr>sy_headerReqInFlight := False, sy_headerRetries := 0\<rparr>)" by simp
  then have m': "queue_metas bc (hr_peer r) (hr_metas r) ((ch rs s)\<lparr>sy_headerReqInFlight := False, sy_headerRetries := 0\<rparr>) False = (ch rs s1, q)"
    unfolding \<open>_ = ch rs _\<close> metas_ch m by simp
  let ?t = "\<lambda>s. let s = (if sy_state s = SyncingHeaders then s\<lparr>sy_state := SyncingBlocks\<rparr> else s)
    in if sy_syncPeer s = '''' then s\<lparr>sy_syncPeer := hr_peer r\<rparr> else s"
  have t: "?t (ch rs s1) = ch rs (?t s1)" by (simp add: Let_def)
  have h: "header_result od bc now r s0 = (if q then dispatchQueuedBlocks od bc now (?t s2) else Some (s2, []))"
    if "queue_metas bc (hr_peer r) (hr_metas r) (s0\<lparr>sy_headerReqInFlight := False, sy_headerRetries := 0\<rparr>) False = (s2, q)" for s0 s2
    using that True by (simp add: header_result_def Let_def)
  show ?thesis unfolding h [OF m] h [OF m'] t by (simp add: dispatch_ch)
qed (simp add: header_result_def Let_def enterBackoff_def drop_sync_work_def)

lemma header_keeps_ch: "header_result od bc now r s = Some (s', es) \<Longrightarrow> sy_headersCh s' = sy_headersCh s"
  using header_ch [of od bc now r "sy_headersCh s" s] by (cases s') auto

lemma run_drain:
  assumes "length (sy_headersCh s) < m"
  shows "run now (drain_prog od (\<lambda>bc. bc) now m k) (s, n) = (case drainHeaderResults od (nd_chain n) now s of
     None \<Rightarrow> None | Some (s', es) \<Rightarrow> emits (map Net es) (run now k (s', n)))"
proof -
  have "run now (drain_prog od (\<lambda>bc. bc) now m k) (ch rs s, n) = (case drain_results od (nd_chain n) now rs (ch [] s) of
     None \<Rightarrow> None | Some (s', es) \<Rightarrow> emits (map Net es) (run now k (s', n)))" if "length rs < m" for rs
    using that
  proof (induction rs arbitrary: s m)
    case Nil
    then show ?case by (cases m) (simp_all add: run_act)
  next
    case (Cons r rs)
    obtain m' where m: "m = Suc m'" "length rs < m'" using Cons.prems by (cases m) auto
    show ?case
    proof (cases "header_result od (nd_chain n) now r (ch [] s)")
      case None
      then show ?thesis using header_ch [of od "nd_chain n" now r rs "ch [] s"] by (simp add: m(1) run_act run_header)
    next
      case (Some x)
      obtain s1 es where x: "x = (s1, es)" by (cases x)
      have "ch [] s1 = s1" using header_keeps_ch [OF Some [unfolded x]] by (cases s1) simp
      then show ?thesis using header_ch [of od "nd_chain n" now r rs "ch [] s"] Cons.IH [OF m(2), of s1] Some x
        by (simp add: m(1) run_act run_header) (simp add: split_def split: option.split)
    qed
  qed
  from this [of "sy_headersCh s"] assms show ?thesis by (simp add: drainHeaderResults_def)
qed

text \<open>What the syncer asks for: sends, then at most one request by RPC, which \<^verbatim>\<open>rpc\<close> sends.\<close>

lemma run_effects_Cons:
  "run_effects now (e # es) sn = (case run_effect now e (sn, []) of (sn', fs) \<Rightarrow> (case run_effects now es sn' of (sn2, gs) \<Rightarrow> (sn2, fs @ gs)))"
proof -
  have "fold (run_effect now) es (sn, fs) = (case fold (run_effect now) es (sn, []) of (sn', gs) \<Rightarrow> (sn', fs @ gs))" for sn fs es
  proof (induction es arbitrary: sn fs)
    case (Cons e es)
    have "\<exists>sn1 g. run_effect now e (sn, fs) = (sn1, fs @ g) \<and> run_effect now e (sn, []) = (sn1, g)"
      by (simp add: run_effect_def split: effect.split prod.split)
    then obtain sn1 g where e: "run_effect now e (sn, fs) = (sn1, fs @ g)" "run_effect now e (sn, []) = (sn1, g)" by blast
    obtain sn2 h where h: "fold (run_effect now) es (sn1, []) = (sn2, h)" by fastforce
    show ?case using Cons.IH [of sn1 "fs @ g", unfolded h] Cons.IH [of sn1 g, unfolded h] by (simp add: e)
  qed simp
  note f = this
  obtain sn1 fs where e: "run_effect now e (sn, []) = (sn1, fs)" by fastforce
  show ?thesis using f [of es sn1 fs] by (simp add: run_effects_def e)
qed

lemma run_effects_sends: "rpcs es = [] \<Longrightarrow> run_effects now (es @ fs) sn = (case run_effects now fs sn of (sn', gs) \<Rightarrow> (sn', map Net es @ gs))"
proof (induction es)
  case (Cons e es)
  then show ?case by (cases e) (simp_all add: run_effects_Cons rpcs_def run_effect_def split_def)
qed simp

lemma run_effects_Nil: "run_effects now [] sn = (sn, [])"
  by (simp add: run_effects_def)

lemma run_header_request [run_simps]:
  "run now (header_request p Done) (s, n) = (case maybeStartHeaderRequest (nd_chain n) p s of (s', es) \<Rightarrow> Some (run_effects now es (s', n)))"
  by (auto simp: header_request_def maybeStartHeaderRequest_def run_simps run_act run_effects_Nil run_effects_Cons run_effect_def Let_def
      split: prod.split)

lemma run_advance [run_simps]:
  "run now (advance_prog best Done) (s, n) = (case advance (nd_chain n) best s of (s', es) \<Rightarrow> Some (run_effects now es (s', n)))"
  by (simp add: advance_prog_def advance_def run_simps run_act run_effects_Nil Let_def split: sync_state.split prod.split)

lemma run_decide [run_simps]:
  "run now (decide_prog od now Done) (s, n) = (case decide od (nd_chain n) now s of None \<Rightarrow> None
     | Some (s', es) \<Rightarrow> Some (run_effects now es (s', n)))"
  by (simp add: decide_prog_def decide_def is_behind_def run_simps run_effects_Nil split: option.split prod.split)

lemma drain_nd: "length (sy_headersCh s) < m \<Longrightarrow> dispatchQueuedBlocks od bc now s = Some (s', es) \<Longrightarrow> length (sy_headersCh s') < m"
  using dispatch_ch [of od bc now "sy_headersCh s" s] by (cases s') auto

lemma tick_ch: "tickInflight od bc now s = Some (s', es) \<Longrightarrow> sy_headersCh s' = sy_headersCh s"
proof -
  have "sy_headersCh (fst (fold (tick_one now best) xs (s, t))) = sy_headersCh s" for best xs t
  proof (induction xs arbitrary: s t)
    case (Cons x xs)
    obtain s1 t1 where "tick_one now best x (s, t) = (s1, t1)" by fastforce
    moreover have "sy_headersCh (fst (tick_one now best x (s, t))) = sy_headersCh s" by (simp add: tick_one_def Let_def split: prod.split)
    ultimately show ?case using Cons.IH [of s1 t1] by simp
  qed simp
  note f = this
  have "sy_headersCh (enterBackoff now x) = sy_headersCh x" for x by (simp add: enterBackoff_def)
  then show "tickInflight od bc now s = Some (s', es) \<Longrightarrow> sy_headersCh s' = sy_headersCh s"
    by (auto simp: tickInflight_def Let_def split_def Option.bind_eq_Some_conv f split: if_splits)
qed

text \<open>A round of the loop of the syncer, with a bound on the results it takes from the channel that is large enough.\<close>

lemma run_catch_up:
  assumes "length (sy_headersCh s) < m"
  shows "run now (catch_up_prog od (\<lambda>bc. bc) m) (s, n) = (case catchUpIfBehind od (nd_chain n) now s of None \<Rightarrow> None
     | Some (s', es) \<Rightarrow> Some (run_effects now es (s', n)))"
proof (cases "sc_Chain (sy_cfg s)")
  case False
  then show ?thesis by (simp add: catch_up_prog_def catchUpIfBehind_def run_simps run_effects_Nil)
next
  case True
  show ?thesis
  proof (cases "tickInflight od (nd_chain n) now s")
    case None
    then show ?thesis using True by (simp add: catch_up_prog_def catchUpIfBehind_def run_simps)
  next
    case t: (Some x)
    obtain s1 e1 where x: "x = (s1, e1)" by (cases x)
    have c1: "length (sy_headersCh s1) < m" using tick_ch t x assms by simp
    show ?thesis
    proof (cases "dispatchQueuedBlocks od (nd_chain n) now s1")
      case None
      then show ?thesis using True t x by (simp add: catch_up_prog_def catchUpIfBehind_def run_simps)
    next
      case d: (Some y)
      obtain s2 e2 where y: "y = (s2, e2)" by (cases y)
      have c2: "length (sy_headersCh s2) < m" using drain_nd [OF c1] d y by simp
      show ?thesis
      proof (cases "drainHeaderResults od (nd_chain n) now s2")
        case None
        then show ?thesis using True t x d y by (simp add: catch_up_prog_def catchUpIfBehind_def run_simps run_drain [OF c2])
      next
        case h: (Some z)
        obtain s3 e3 where z: "z = (s3, e3)" by (cases z)
        have "rpcs (e1 @ e2 @ e3) = []" using tick_rpcs t x dispatch_rpcs d y drain_rpcs h z by (simp add: drainHeaderResults_def)
        note r = run_effects_sends [OF this, unfolded append_assoc]
        show ?thesis using True t x d y h z
          by (simp add: catch_up_prog_def catchUpIfBehind_def run_simps run_drain [OF c2] r split: option.split prod.split)
      qed
    qed
  qed
qed

section \<open>The rest\<close>

lemma run_timeout: "run now (timeout_prog tr) (s, n) = Some (rpc_timeout now tr (s, n), [])"
  by (simp add: timeout_prog_def rpc_timeout_def run_simps fun_upd_idem split: option.split)

lemma run_forget: "run now (forget_prog txid) (s, n) = Some ((forget_tx_request txid s, n), [])"
  by (simp add: forget_prog_def run_simps)

lemma run_clean: "run now clean_prog (s, n) = Some ((s, mempoolCleanup now n), [])"
  by (simp add: clean_prog_def run_simps)

lemma run_submit: "run now (submit_prog tx) (s, n) = (case SubmitTransaction now tx n of (n', es) \<Rightarrow> Some ((s, n'), es))"
  by (simp add: submit_prog_def SubmitTransaction_def run_simps Let_def split: prod.split)

lemma run_mine_start: "run now (mine_start sha) (s, n) = Some ((s, mine_begin sha now n), [])"
  by (simp add: mine_start_def mine_begin_def run_simps run_act Let_def split: prod.split)

lemma run_mine_lost [run_simps]: "run now (mine_lost j) (s, n) = Some ((s, give_back now j n), [])"
  by (simp add: mine_lost_def give_back_def run_simps)

lemma run_mine_adopt [run_simps]:
  "run now (mine_adopt j b res) (s, n) = (case adopt_mined now j b res n of None \<Rightarrow> None | Some (n', es) \<Rightarrow> Some ((s, n'), es))"
  by (auto simp: mine_adopt_def adopt_mined_def run_simps Let_def tip_change_def announce_def count_attempts_def removeTxsFromBlock_def
      split: option.split)

lemma run_mine_attempt: "run now (mine_attempt sha ord) (s, n) = (case mine_try sha ord now n of None \<Rightarrow> None | Some (n', es) \<Rightarrow> Some ((s, n'), es))"
  by (simp add: mine_attempt_def mine_try_def mine_hit_def mine_found_def run_simps Let_def split: option.split sum.split prod.split)

lemma run_mine_quit: "run now mine_quit (s, n) = Some ((s, mine_stop now n), [])"
  by (simp add: mine_quit_def mine_stop_def give_back_def count_attempts_def run_simps split: option.split)

lemma run_each_probe:
  assumes "F = (\<lambda>p k. if p = '''' \<or> p = i then k
            else sync_do (\<lambda>_ s. s\<lparr>sy_peers := Upsert p (sy_peers s)\<rparr>)
              (look (\<lambda>now _. now) (\<lambda>start. rpc_start p MsgGetTip GetTipPayload (ProbeCall p start) k)))"
    and "ts = filter (\<lambda>p. \<not> (p = '''' \<or> p = i)) ps"
  shows "run now (each F ps Done) (s, n) = Some (run_effects now (map (\<lambda>p. StartRPC p MsgGetTip GetTipPayload t) ts)
     (s\<lparr>sy_peers := fold Upsert ts (sy_peers s)\<rparr>, n))"
  using assms(2)
proof (induction ps arbitrary: ts s n)
  case (Cons p ps)
  let ?ts = "filter (\<lambda>p. \<not> (p = '''' \<or> p = i)) ps"
  show ?case
  proof (cases "p = '''' \<or> p = i")
    case True
    then show ?thesis using Cons.IH [OF refl] Cons.prems by (auto simp: assms(1))
  next
    case False
    let ?s = "s\<lparr>sy_peers := Upsert p (sy_peers s)\<rparr>"
    obtain n1 es where r: "\<And>s. rpc now p MsgGetTip GetTipPayload (ProbeCall p now) (s, n) = ((s, n1), es)"
      using False by (simp add: rpc_def Let_def)
    have "run now (each F (p # ps) Done) (s, n) = emits es (run now (each F ps Done) (?s, n1))"
      using False r by (simp add: assms(1) run_simps)
    then show ?thesis using False Cons.IH [OF refl, of ?s n1] Cons.prems r
      by (simp add: run_effects_Cons run_effect_def split_def)
  qed
qed (simp add: run_effects_Nil)

lemma run_probe: "run now (probe_prog ps) (s, n) = (case probe_start ps s of (s', es) \<Rightarrow> Some (run_effects now es (s', n)))"
  using run_each_probe [OF refl refl]
  by (simp add: probe_prog_def probe_start_def probe_targets_def run_simps run_effects_Nil)

end
