(* ===== verification/Interleave.thy ===== *)
theory Interleave
  imports SafeSteps Simulation Uninterrupted
begin

text \<open>
  All goroutines of a simulation together: every node's message handlers, syncer loop, timers and miner, and
  the ticker of \<^verbatim>\<open>main\<close>. One step is one critical section of one goroutine, so every interleaving of the
  sections is a run; nothing a goroutine has read need still hold when its next section runs. A goroutine
  that panics has no further step; where the process would end, the rest of the run is of no interest.
\<close>

section \<open>The goroutines of a simulation\<close>

text \<open>
  The goroutine of the miner of each node, that of \<^verbatim>\<open>main\<close>, and any number of others; each with the node it
  works on and what it still has to do.
\<close>

datatype slot = Worker nat | Miner nat | Ticker

record conc =
  cs_sim :: simulation
  cs_go :: "slot \<Rightarrow> nat \<times> prog"

definition start_go :: "slot \<Rightarrow> nat \<Rightarrow> prog \<Rightarrow> conc \<Rightarrow> conc" where
  "start_go x i p c = c\<lparr>cs_go := (cs_go c)(x := (i, p))\<rparr>"

definition idle :: "slot \<Rightarrow> conc \<Rightarrow> bool" where
  "idle x c \<longleftrightarrow> (case snd (cs_go c x) of Done \<Rightarrow> True | _ \<Rightarrow> False)"

text \<open>
  What the loop of the syncer, its timers and the loop of the mempool start; \<open>ps\<close> are the ids on the bus. Each
  peer is probed in a goroutine of its own, so the peers of one \<^verbatim>\<open>probeTips\<close> may be spread over any number of programs.
\<close>

inductive goroutine :: "string list \<Rightarrow> prog \<Rightarrow> bool" for ps where
  go_round: "fair_orders od \<Longrightarrow> goroutine ps (catch_up_prog od view m)"
| go_probe: "set qs \<subseteq> set ps \<Longrightarrow> goroutine ps (probe_prog qs)"
| go_forget: "goroutine ps (forget_prog txid)"
| go_timeout: "goroutine ps (timeout_prog tr)"
| go_clean: "goroutine ps clean_prog"

text \<open>The miner begins a job when it has none, makes its next attempt, or is told to stop.\<close>

inductive miner_prog :: "digest \<Rightarrow> (hash \<times> block) ranging \<Rightarrow> node \<Rightarrow> prog \<Rightarrow> bool" for sha ord n where
  m_start: "nd_job n = None \<Longrightarrow> miner_prog sha ord n (mine_start sha)"
| m_step: "miner_prog sha ord n (mine_attempt sha ord)"
| m_quit: "miner_prog sha ord n mine_quit"

text \<open>
  \<open>go_step\<close>: the bus hands a message to the handler in a new goroutine, a goroutine is started, or any goroutine
  runs its next section. Its messages go to the bus, and a reported tip to the store of the node.
\<close>

inductive go_step :: "faults \<Rightarrow> digest \<Rightarrow> (hash \<times> block) ranging \<Rightarrow> gotime \<Rightarrow> conc \<Rightarrow> conc \<Rightarrow> bool" for ft sha ord now where
  c_deliver: "inproc_deliver k (si_tr (cs_sim c)) = (Some (sim_id (int i), m), tr) \<Longrightarrow> i < length (si_nodes (cs_sim c)) \<Longrightarrow>
    idle (Worker w) c \<Longrightarrow> fair_orders od \<Longrightarrow>
    go_step ft sha ord now c (start_go (Worker w) i (message_prog sha ord od view late m) (c\<lparr>cs_sim := (cs_sim c)\<lparr>si_tr := tr\<rparr>\<rparr>))"
| c_spawn: "i < length (si_nodes (cs_sim c)) \<Longrightarrow> mset ps = mset (inproc_Peers (si_tr (cs_sim c))) \<Longrightarrow> goroutine ps p \<Longrightarrow>
    idle (Worker w) c \<Longrightarrow> go_step ft sha ord now c (start_go (Worker w) i p c)"
| c_mine: "i < length (si_nodes (cs_sim c)) \<Longrightarrow> miner_prog sha ord (snd (state_of (cs_sim c) i)) p \<Longrightarrow> idle (Miner i) c \<Longrightarrow>
    go_step ft sha ord now c (start_go (Miner i) i p c)"
| c_run: "cs_go c x = (i, Act f k) \<Longrightarrow> i < length (si_nodes (cs_sim c)) \<Longrightarrow>
    go_step ft sha ord now c (start_go x i (k now (state_of (cs_sim c) i))
      (c\<lparr>cs_sim := run_node ft sha now i (f now (state_of (cs_sim c) i)) (cs_sim c)\<rparr>))"

text \<open>A tick of \<^verbatim>\<open>main\<close>: the nodes take turns; and a node that joins, a step of the goroutine that starts it.\<close>

inductive tick_step :: "conc \<Rightarrow> conc \<Rightarrow> bool" where
  c_tick: "idle Ticker c \<Longrightarrow> si_nodes (cs_sim c) \<noteq> [] \<Longrightarrow>
    i = nat (si_txs (cs_sim c) mod int (length (si_nodes (cs_sim c)))) \<Longrightarrow>
    tx = NewTransaction t1 t2 rnd (tx_payload (si_txs (cs_sim c)) k) \<Longrightarrow>
    tick_step c (start_go Ticker i (submit_prog tx) (c\<lparr>cs_sim := (cs_sim c)\<lparr>si_txs := si_txs (cs_sim c) + 1\<rparr>\<rparr>))"

inductive join_step :: "faults \<Rightarrow> digest \<Rightarrow> (hash \<times> block) ranging \<Rightarrow> sim_options \<Rightarrow> int \<Rightarrow> conc \<Rightarrow> conc \<Rightarrow> bool"
  for ft sha ord opt i where
  c_join: "join_node sha ft clock ord opt i (cs_sim c) = Some (Inr si) \<Longrightarrow> join_step ft sha ord opt i c (c\<lparr>cs_sim := si\<rparr>)"

definition tidy_files :: "files \<Rightarrow> bool" where
  "tidy_files fs \<longleftrightarrow> (\<forall>dir. genesis_file_ok (snd (fs dir)))"

text \<open>
  \<open>tidy_files\<close>: the file of the block of height 0, where a data directory has one, holds a block of height 0.
  That holds of empty directories and of all the program writes.
\<close>

inductive conc_reachable :: "faults \<Rightarrow> digest \<Rightarrow> (hash \<times> block) ranging \<Rightarrow> sim_options \<Rightarrow> gotime \<Rightarrow> conc \<Rightarrow> bool"
  for ft sha ord opt where
  conc_init: "tidy_files fs \<Longrightarrow> conc_reachable ft sha ord opt t
    \<lparr>cs_sim = \<lparr>si_tr = sim_transport opt rng, si_nodes = [], si_files = fs, si_txs = 0\<rparr>, cs_go = \<lambda>_. (0, Done)\<rparr>"
| conc_wait: "conc_reachable ft sha ord opt t c \<Longrightarrow> t \<le> now \<Longrightarrow> conc_reachable ft sha ord opt now c"
| conc_go: "conc_reachable ft sha ord opt t c \<Longrightarrow> t \<le> now \<Longrightarrow> go_step ft sha ord now c c' \<Longrightarrow> conc_reachable ft sha ord opt now c'"
| conc_tick: "conc_reachable ft sha ord opt t c \<Longrightarrow> t \<le> now \<Longrightarrow> tick_step c c' \<Longrightarrow> conc_reachable ft sha ord opt now c'"
| conc_join: "conc_reachable ft sha ord opt t c \<Longrightarrow> t \<le> now \<Longrightarrow>
    join_step ft sha ord opt (int (length (si_nodes (cs_sim c)))) c c' \<Longrightarrow> conc_reachable ft sha ord opt now c'"

section \<open>The files\<close>

lemma load_loop_blocks:
  "load_loop ft now h out sd = Some (r, st', dk') \<Longrightarrow> dk_blocks dk' = dk_blocks (snd sd)"
proof -
  define P where "P = (\<lambda>(sd :: store \<times> disk) (r :: block list stored). dk_blocks (snd (snd r)) = dk_blocks (snd sd))"
  have "P sd x" if "load_loop ft now h out sd = Some x" for x
  proof (rule load_loop.raw_induct [OF _ that, of "\<lambda>ft now h out sd x. P sd x"])
    fix rec ft now h out sd x
    assume IH: "\<And>ft now h out sd x. rec ft now h out sd = Some x \<Longrightarrow> P sd x"
      and s: "(if h \<le> mf_TipHeight (fst sd) then (case load_step ft now h out sd of Inl b \<Rightarrow> rec ft now (h + 1) (out @ [b]) sd | Inr r \<Rightarrow> Some r)
        else Some (Inr out, fst sd, snd sd)) = Some x"
    show "P sd x" using s IH
      by (cases sd) (auto simp: P_def load_step_def saveManifest_def Let_def split: if_splits sum.splits)
  qed
  then show "load_loop ft now h out sd = Some (r, st', dk') \<Longrightarrow> dk_blocks dk' = dk_blocks (snd sd)" by (force simp: P_def)
qed

lemma open_chain_tidy:
  assumes "open_chain sha ft now ord d dk = Some (Inr sb, dk')" "genesis_file_ok dk"
  shows "genesis_file_ok dk'"
proof -
  obtain st1 dk1 where o: "Open ft sha (now 0) d NewGenesisBlock dk = (Inr st1, dk1)"
    using assms(1) by (auto simp: open_chain_def split: sum.splits prod.splits)
  obtain r st2 where l: "LoadMainChain ft (now 1) (st1, dk1) = Some (r, st2, dk')"
    using assms(1) o by (auto simp: open_chain_def split: sum.splits prod.splits option.splits)
  have "dk_blocks dk' = dk_blocks dk1"
    using load_loop_blocks [of ft "now 1" 0 "[]" "(st1, dk1)" r st2 dk'] l by (simp add: LoadMainChain_def split: if_splits)
  then show ?thesis using Open_genesis_file [OF o assms(2)] by (simp add: genesis_file_ok_def)
qed

lemma genesis_file_blocks: "dk_blocks dk' = dk_blocks dk \<Longrightarrow> genesis_file_ok dk \<Longrightarrow> genesis_file_ok dk'"
  by (simp add: genesis_file_ok_def)

lemma writeBlockFile_tidy: "writeBlockFile ft sha b dk = (r, dk') \<Longrightarrow> genesis_file_ok dk \<Longrightarrow> genesis_file_ok dk'"
  by (auto simp: writeBlockFile_def genesis_file_ok_def Let_def json_block_def json_header_def split: option.splits sum.splits if_splits)

lemma saveManifest_tidy: "saveManifest ft now st dk = (r, st', dk') \<Longrightarrow> genesis_file_ok dk \<Longrightarrow> genesis_file_ok dk'"
  by (auto simp: saveManifest_def Let_def genesis_file_ok_def split: if_splits)

lemma rollback_tidy: "genesis_file_ok dk \<Longrightarrow> genesis_file_ok (rollback_loop ft h height dk)"
proof (induction ft h height dk rule: rollback_loop.induct)
  case (1 ft h height dk)
  let ?dk = "if ft_remove ft h then dk else dk\<lparr>dk_blocks := (dk_blocks dk)(h := None)\<rparr>"
  have "genesis_file_ok ?dk" using "1.prems" by (simp add: genesis_file_ok_def)
  then show ?case using "1.IH" "1.prems" by (subst rollback_loop.simps) simp
qed

lemma write_added_tidy: "write_added ft sha bs (st, dk) = (r, st', dk') \<Longrightarrow> genesis_file_ok dk \<Longrightarrow> genesis_file_ok dk'"
proof (induction bs arbitrary: st dk)
  case (Cons b bs)
  show ?case
  proof (cases b)
    case (Some x)
    obtain w dk1 where w: "writeBlockFile ft sha (Some x) dk = (w, dk1)" by fastforce
    have "genesis_file_ok dk1" by (rule writeBlockFile_tidy [OF w Cons.prems(2)])
    then show ?thesis using Cons Some w by (cases w) auto
  qed (use Cons in simp)
qed simp

lemma ApplyTipChange_tidy:
  assumes "ApplyTipChange ft sha now chain h r (st, dk) = (e, st', dk')" "genesis_file_ok dk" shows "genesis_file_ok dk'"
proof (cases r)
  case None
  show ?thesis
  proof (cases "BlockByHash chain h")
    case (Some b)
    obtain w dk1 where w: "writeBlockFile ft sha (Some b) dk = (w, dk1)" by fastforce
    have "genesis_file_ok dk1" by (rule writeBlockFile_tidy [OF w assms(2)])
    then show ?thesis using assms None Some w saveManifest_tidy
      by (auto simp: ApplyTipChange_def split: if_splits sum.splits)
  qed (use assms None in \<open>simp add: ApplyTipChange_def\<close>)
next
  case (Some rg)
  note r = this
  show ?thesis
  proof (cases "BlockByHash chain (rg_CommonAncestor rg)")
    case (Some a)
    obtain st1 dk1 where rb: "rollbackTo ft (bh_Height (blk_Header a)) (st, dk) = (st1, dk1)" by fastforce
    then have 1: "genesis_file_ok dk1" using rollback_tidy [OF assms(2)] by (auto simp: rollbackTo_def Let_def split: sum.splits)
    obtain w st2 dk2 where w: "write_added ft sha (rg_Added rg) (st1, dk1) = (w, st2, dk2)" by (metis prod_cases3)
    show ?thesis using assms(1) r Some rb w write_added_tidy [OF w 1] saveManifest_tidy
      by (auto simp: ApplyTipChange_def split: sum.splits)
  qed (use assms r in \<open>simp add: ApplyTipChange_def\<close>)
qed

lemma persist_tidy: "genesis_file_ok (snd sd) \<Longrightarrow> genesis_file_ok (snd (persist ft sha now chain es sd))"
proof -
  have t: "genesis_file_ok (snd (on_tip_change ft sha now chain ev sd))" if "genesis_file_ok (snd sd)" for ev sd
    using that ApplyTipChange_tidy [of ft sha now chain "te_TipHash ev" "te_Reorg ev" "fst sd" "snd sd"]
    by (auto simp: on_tip_change_def split: prod.split)
  show "genesis_file_ok (snd sd) \<Longrightarrow> genesis_file_ok (snd (persist ft sha now chain es sd))"
    unfolding persist_def by (induction es arbitrary: sd) (auto simp: t split: node_effect.split)
qed

lemma run_node_tidy:
  "tidy_files (si_files si) \<Longrightarrow> tidy_files (si_files (run_node ft sha now i r si))"
  using persist_tidy [of "(sn_store (si_nodes si ! i), snd (si_files si (sn_dir (si_nodes si ! i))))" ft sha now "nd_chain (snd (fst r))" "snd r"]
  by (auto simp: run_node_def tidy_files_def Let_def split: prod.split)

lemma join_node_parts:
  assumes "join_node sha ft clock ord opt i si = Some (Inr si')"
  shows "length (si_nodes si') = Suc (length (si_nodes si))" "tidy_files (si_files si) \<Longrightarrow> tidy_files (si_files si')"
proof -
  let ?dir = "filepath_Join [''data'', sim_id i]"
  obtain st bc dk where oc: "open_chain sha ft clock ord (so_difficulty opt) (snd (si_files si ?dir)) = Some (Inr (st, bc), dk)"
    using assms by (auto simp: join_node_def Let_def split: option.splits prod.splits sum.splits)
  then have si': "si_files si' = (si_files si)(?dir := (fst (si_files si ?dir), dk))" "length (si_nodes si') = Suc (length (si_nodes si))"
    using assms by (auto simp: join_node_def Let_def)
  show "length (si_nodes si') = Suc (length (si_nodes si))" by (rule si'(2))
  show "tidy_files (si_files si) \<Longrightarrow> tidy_files (si_files si')"
    using open_chain_tidy [OF oc] by (simp add: tidy_files_def si'(1))
qed

section \<open>Every node is sound at every moment\<close>

definition all_safe :: "digest \<Rightarrow> (hash \<times> block) ranging \<Rightarrow> sim_options \<Rightarrow> gotime \<Rightarrow> conc \<Rightarrow> bool" where
  "all_safe sha ord opt t c \<longleftrightarrow>
     own_handlers (si_tr (cs_sim c)) \<and> tidy_files (si_files (cs_sim c))
     \<and> set (inproc_Peers (si_tr (cs_sim c))) = (\<lambda>i. sim_id (int i)) ` {..<length (si_nodes (cs_sim c))}
     \<and> (\<forall>i < length (si_nodes (cs_sim c)). between sha ord (so_difficulty opt) (sim_id (int i)) t (state_of (cs_sim c) i))
     \<and> (\<forall>x. safe (between sha ord (so_difficulty opt) (sim_id (int (fst (cs_go c x))))) (snd (cs_go c x)) t)"

lemma all_safe_later: "all_safe sha ord opt t c \<Longrightarrow> t \<le> u \<Longrightarrow> all_safe sha ord opt u c"
  unfolding all_safe_def by (blast intro: between_later safe_later)

lemma start_go_safe:
  "all_safe sha ord opt t c \<Longrightarrow> safe (between sha ord (so_difficulty opt) (sim_id (int i))) p t \<Longrightarrow> all_safe sha ord opt t (start_go x i p c)"
  by (simp add: all_safe_def start_go_def)

lemma goroutine_safe: "goroutine ps p \<Longrightarrow> safe (between sha ord d i) p t"
  by (induction rule: goroutine.induct) (rule safe_catch_up safe_probe safe_forget safe_timeout safe_clean, assumption?)+

lemma miner_safe: "miner_prog sha ord n p \<Longrightarrow> fair_ranging ord \<Longrightarrow> safe (between sha ord d i) p t"
  by (induction rule: miner_prog.induct) (simp_all add: safe_mine_start safe_mine_attempt safe_mine_quit)

lemma run_node_between:
  assumes "all_safe sha ord opt now c" "between sha ord (so_difficulty opt) (sim_id (int i)) now (fst r)"
  shows "all_safe sha ord opt now (c\<lparr>cs_sim := run_node ft sha now i r (cs_sim c)\<rparr>)"
  using assms by (simp add: all_safe_def post_all_frame run_node_tidy)

lemma go_step_safe:
  assumes "go_step ft sha ord now c c'" "all_safe sha ord opt now c" "fair_ranging ord"
  shows "all_safe sha ord opt now c'"
  using assms(1)
proof cases
  case (c_deliver k i m tr w od view late)
  have "own_handlers tr = own_handlers (si_tr (cs_sim c))" "inproc_Peers tr = inproc_Peers (si_tr (cs_sim c))"
    using c_deliver(2) by (auto simp: inproc_deliver_def own_handlers_def inproc_Peers_def split: if_splits)
  then have "all_safe sha ord opt now (c\<lparr>cs_sim := (cs_sim c)\<lparr>si_tr := tr\<rparr>\<rparr>)" using assms(2) by (simp add: all_safe_def)
  then show ?thesis unfolding c_deliver(1) by (rule start_go_safe) (rule safe_message [OF assms(3)])
next
  case (c_spawn i ps p w)
  show ?thesis unfolding c_spawn(1) by (rule start_go_safe [OF assms(2) goroutine_safe [OF c_spawn(4)]])
next
  case (c_mine i p)
  show ?thesis unfolding c_mine(1) by (rule start_go_safe [OF assms(2) miner_safe [OF c_mine(3) assms(3)]])
next
  case (c_run x i f k)
  have b: "between sha ord (so_difficulty opt) (sim_id (int i)) now (state_of (cs_sim c) i)" using assms(2) c_run(3) by (simp add: all_safe_def)
  have "safe (between sha ord (so_difficulty opt) (sim_id (int (fst (cs_go c x))))) (snd (cs_go c x)) now"
    using assms(2) unfolding all_safe_def by blast
  with b c_run(2) have s: "between sha ord (so_difficulty opt) (sim_id (int i)) now (fst (f now (state_of (cs_sim c) i)))"
    "safe (between sha ord (so_difficulty opt) (sim_id (int i))) (k now (state_of (cs_sim c) i)) now"
    by (simp_all del: split_paired_All)
  show ?thesis unfolding c_run(1) by (rule start_go_safe [OF run_node_between [OF assms(2) s(1)] s(2)])
qed

lemma tick_step_safe: "tick_step c c' \<Longrightarrow> all_safe sha ord opt now c \<Longrightarrow> all_safe sha ord opt now c'"
proof (induction rule: tick_step.induct)
  case (c_tick c i tx t1 t2 rnd k)
  then have "all_safe sha ord opt now (c\<lparr>cs_sim := (cs_sim c)\<lparr>si_txs := si_txs (cs_sim c) + 1\<rparr>\<rparr>)" by (simp add: all_safe_def)
  then show ?case by (rule start_go_safe) (rule safe_submit)
qed

lemma NewNode_between:
  assumes "chain_reachable sha ord bc" "bc_difficulty bc = so_difficulty opt"
  shows "between sha ord (so_difficulty opt) i t (NewNode i bc (Some (New DefaultConfig)) (node_options_config (so_difficulty opt) (so_maxTxPerBlock opt)))"
proof -
  have "sync_inv (NewSyncer cfg None)" for cfg by (rule NewSyncer_inv(2) [OF NewManager_good])
  then have "core_inv (NewSyncer cfg None)" for cfg by (rule sync_coreD)
  then show ?thesis using assms
    by (simp add: between_def NewNode_def Let_def node_options_config_def probes_before_def pool_reachable.new) (simp add: NewSyncer_def Let_def)
qed

lemma join_step_safe:
  assumes "join_step ft sha ord opt (int (length (si_nodes (cs_sim c)))) c c'" "all_safe sha ord opt now c" "fair_ranging ord"
  shows "all_safe sha ord opt now c'"
  using assms(1)
proof cases
  case (c_join clock si')
  let ?si = "cs_sim c" let ?k = "length (si_nodes ?si)" let ?id = "sim_id (int ?k)" let ?dir = "filepath_Join [''data'', ?id]"
  obtain st bc dk where oc: "open_chain sha ft clock ord (so_difficulty opt) (snd (si_files ?si ?dir)) = Some (Inr (st, bc), dk)"
    using c_join(2) by (auto simp: join_node_def Let_def split: option.splits prod.splits sum.splits)
  let ?sn = "NewNode ?id bc (Some (New DefaultConfig)) (node_options_config (so_difficulty opt) (so_maxTxPerBlock opt))"
  have si': "si' = ?si\<lparr>si_tr := inproc_Register ?id ?id (si_tr ?si),
       si_nodes := si_nodes ?si @ [\<lparr>sn_state = ?sn, sn_store = st, sn_dir = ?dir\<rparr>],
       si_files := (si_files ?si)(?dir := (fst (si_files ?si ?dir), dk))\<rparr>"
    using c_join(2) oc by (simp add: join_node_def Let_def)
  have gen: "genesis_file_ok (snd (si_files ?si ?dir))" "tidy_files (si_files ?si)" using assms(2) by (auto simp: all_safe_def tidy_files_def)
  have "between sha ord (so_difficulty opt) ?id now ?sn"
    using open_chain_reachable [OF oc assms(3) gen(1)] by (intro NewNode_between) auto
  moreover have "set (inproc_Peers (inproc_Register ?id ?id (si_tr ?si))) = insert ?id (set (inproc_Peers (si_tr ?si)))"
    using set_al_put_keys [of ?id ?id "nb_handlers (it_bus (si_tr ?si))"]
    by (simp add: inproc_Peers_def PeerIDs_def inproc_Register_def bus_Register_def)
  moreover have "tidy_files (si_files si')" by (rule join_node_parts(2) [OF c_join(2) gen(2)])
  ultimately show ?thesis using assms(2) own_handlers_Register
    by (auto simp: c_join(1) si' all_safe_def nth_append less_Suc_eq lessThan_Suc)
qed

lemma conc_reachable_safe:
  "conc_reachable ft sha ord opt t c \<Longrightarrow> fair_ranging ord \<Longrightarrow> all_safe sha ord opt t c"
proof (induction rule: conc_reachable.induct)
  case (conc_init fs t rng)
  then show ?case
    by (simp add: all_safe_def sim_transport_def Let_def inproc_SetDelay_def inproc_SetDropRate_def own_handlers_def inproc_Peers_def
        PeerIDs_def inproc_New_def NewNetworkBus_def bus_SetDelay_def bus_SetDropRate_def)
next
  case (conc_wait t c now)
  then show ?case using all_safe_later by blast
next
  case (conc_go t c now c')
  then show ?case using go_step_safe all_safe_later by blast
next
  case (conc_tick t c now c')
  then show ?case using tick_step_safe all_safe_later by blast
next
  case (conc_join t c now c')
  then show ?case using join_step_safe all_safe_later by blast
qed

lemma conc_node:
  assumes "conc_reachable ft sha ord opt t c" "fair_ranging ord" "i < length (si_nodes (cs_sim c))"
  shows "between sha ord (so_difficulty opt) (sim_id (int i)) t (state_of (cs_sim c) i)"
  using conc_reachable_safe [OF assms(1,2)] assms(3) by (simp add: all_safe_def)

text \<open>
  C8: Nodes that share a bus cannot break each other, however their goroutines interleave. A step is one
  critical section (what the code does under one lock, one message sent, or one call of \<^verbatim>\<open>onTipChange\<close>) of any
  goroutine of any node: handlers started by the bus in any order and any number at once, syncer rounds and
  probes, timers and timeouts, the miner, the cleanup, ticks of \<^verbatim>\<open>main\<close>, nodes that join. At every moment every
  node has a chain that \<^verbatim>\<open>AddBlock\<close> has built (so all theorems on chains hold of it) at the difficulty of the
  simulation, a mempool that its operations have built, a syncer within its bounds, and a miner whose job
  names the tip it was begun on and fits its transactions; and the bus has exactly the ids of the nodes, each
  once and each under the handler of its node.
\<close>
theorem simulation_nodes_sound:
  assumes "conc_reachable ft sha ord opt t c" and "fair_ranging ord" and "i < length (si_nodes (cs_sim c))"
    and "state_of (cs_sim c) i = (s, n)"
  shows "chain_reachable sha ord (nd_chain n) \<and> bc_difficulty (nd_chain n) = so_difficulty opt \<and> pool_reachable (nd_mempool n) \<and>
     core_inv s \<and> (\<forall>j. nd_job n = Some j \<longrightarrow> job_form sha (so_difficulty opt) (sim_id (int i)) j) \<and>
     nd_id n = sim_id (int i) \<and> self_id s = sim_id (int i) \<and>
     own_handlers (si_tr (cs_sim c)) \<and> sim_id (int i) \<in> set (inproc_Peers (si_tr (cs_sim c))) \<and>
     card (set (inproc_Peers (si_tr (cs_sim c)))) = length (si_nodes (cs_sim c))"
proof -
  have "between sha ord (so_difficulty opt) (sim_id (int i)) t (s, n)" using conc_node [OF assms(1-3)] assms(4) by simp
  moreover have "own_handlers (si_tr (cs_sim c))"
    "set (inproc_Peers (si_tr (cs_sim c))) = (\<lambda>i. sim_id (int i)) ` {..<length (si_nodes (cs_sim c))}"
    using conc_reachable_safe [OF assms(1,2)] by (simp_all add: all_safe_def)
  moreover have "inj_on (\<lambda>i. sim_id (int i)) {..<length (si_nodes (cs_sim c))}" by (simp add: inj_on_def)
  ultimately show ?thesis using assms(3) by (auto simp: between_def card_image)
qed

section \<open>Two nodes and a miner between its sections, for the witness\<close>

lemma join_node_fresh:
  assumes "\<forall>dir. snd (si_files si dir) = snd (demo_disk [demo_genesis])" "so_difficulty opt = 0"
  obtains si' where "join_node demo_digest1 no_faults clock ord opt i si = Some (Inr si')"
    "length (si_nodes si') = Suc (length (si_nodes si))" "\<forall>dir. snd (si_files si' dir) = snd (demo_disk [demo_genesis])"
proof -
  obtain st where "open_chain demo_digest1 no_faults clock ord 0 (snd (demo_disk [demo_genesis])) =
     Some (Inr (st, demo_chain1), snd (demo_disk [demo_genesis]))" using demo_open by blast
  then show ?thesis using that assms by (fastforce simp: join_node_def Let_def)
qed

lemma demo_tidy: "tidy_files (\<lambda>_. (kf, snd (demo_disk [demo_genesis])))"
  by (simp add: tidy_files_def genesis_file_ok_def demo_disk_def Let_def demo_genesis_def)

lemma conc_demo_join:
  assumes "conc_reachable no_faults demo_digest1 ord opt t c" "so_difficulty opt = 0"
    and "\<forall>dir. snd (si_files (cs_sim c) dir) = snd (demo_disk [demo_genesis])"
  obtains si where "conc_reachable no_faults demo_digest1 ord opt t (c\<lparr>cs_sim := si\<rparr>)"
    "length (si_nodes si) = Suc (length (si_nodes (cs_sim c)))" "\<forall>dir. snd (si_files si dir) = snd (demo_disk [demo_genesis])"
proof -
  obtain si where j: "join_node demo_digest1 no_faults int ord opt (int (length (si_nodes (cs_sim c)))) (cs_sim c) = Some (Inr si)"
    "length (si_nodes si) = Suc (length (si_nodes (cs_sim c)))" "\<forall>dir. snd (si_files si dir) = snd (demo_disk [demo_genesis])"
    using join_node_fresh [OF assms(3,2)] by metis
  from conc_join [OF assms(1) order_refl c_join [OF j(1)]] j(2,3) show ?thesis by (rule that)
qed

lemma act_prog: "look g k = Act (\<lambda>now sn. (sn, [])) (\<lambda>now sn. k (g now sn))"
  by (simp add: look_def act_def)

theorem simulation_nodes_sound_witness:
  "\<exists>c f k. conc_reachable no_faults demo_digest1 (\<lambda>_ xs. xs) demo_sim_options 5 c \<and> length (si_nodes (cs_sim c)) = 2 \<and>
     cs_go c (Miner 0) = (0, Act f k) \<and>
     chain_reachable demo_digest1 (\<lambda>_ xs. xs) (nd_chain (snd (state_of (cs_sim c) 1))) \<and>
     pool_reachable (nd_mempool (snd (state_of (cs_sim c) 1)))"
proof -
  let ?o = "\<lambda>(_ :: nat) (xs :: (hash \<times> block) list). xs"
  let ?fs = "\<lambda>_ :: string. (None :: key_file option, snd (demo_disk [demo_genesis]))"
  let ?c0 = "\<lparr>cs_sim = \<lparr>si_tr = sim_transport demo_sim_options (\<lambda>_. 0), si_nodes = [], si_files = ?fs, si_txs = 0\<rparr>, cs_go = \<lambda>_. (0, Done)\<rparr>"
  have d: "so_difficulty demo_sim_options = 0" by (simp add: demo_sim_options_def)
  have 0: "conc_reachable no_faults demo_digest1 ?o demo_sim_options 5 ?c0" by (rule conc_init [OF demo_tidy])
  obtain si1 where 1: "conc_reachable no_faults demo_digest1 ?o demo_sim_options 5 (?c0\<lparr>cs_sim := si1\<rparr>)" "length (si_nodes si1) = 1"
    "\<forall>dir. snd (si_files si1 dir) = snd (demo_disk [demo_genesis])" using conc_demo_join [OF 0 d] by auto
  obtain si2 where 2: "conc_reachable no_faults demo_digest1 ?o demo_sim_options 5 (?c0\<lparr>cs_sim := si2\<rparr>)" "length (si_nodes si2) = 2"
    by (rule conc_demo_join [OF 1(1) d]) (simp_all add: 1(2,3))
  let ?c2 = "?c0\<lparr>cs_sim := si2\<rparr>"
  have "go_step no_faults demo_digest1 ?o 5 ?c2 (start_go (Miner 0) 0 (mine_attempt demo_digest1 ?o) ?c2)"
    using 2(2) by (intro c_mine m_step) (simp_all add: idle_def)
  from conc_go [OF 2(1) order_refl this]
  have 3: "conc_reachable no_faults demo_digest1 ?o demo_sim_options 5 (start_go (Miner 0) 0 (mine_attempt demo_digest1 ?o) ?c2)" .
  obtain f k where fk: "mine_attempt demo_digest1 ?o = Act f k" by (simp add: mine_attempt_def act_prog)
  obtain s n where sn: "state_of (cs_sim (start_go (Miner 0) 0 (mine_attempt demo_digest1 ?o) ?c2)) 1 = (s, n)" by fastforce
  from simulation_nodes_sound [OF 3 fair_ranging_id _ sn] 2(2) sn have "chain_reachable demo_digest1 ?o (nd_chain n) \<and> pool_reachable (nd_mempool n)"
    by (simp add: start_go_def)
  with 3 2(2) sn fk show ?thesis
    by (intro exI [of _ "start_go (Miner 0) 0 (mine_attempt demo_digest1 ?o) ?c2"] exI [of _ f] exI [of _ k]) (simp add: start_go_def)
qed

section \<open>A goroutine alone\<close>

text \<open>
  A goroutine that nothing interrupts: its sections make the change that \<open>run\<close> computes. With the lemmas of
  \<open>Uninterrupted\<close>, what a step of \<open>sim_step\<close> does to the nodes and the bus is done by such steps.
\<close>

lemma run_alone:
  assumes "run now p (state_of (cs_sim c) i) = Some (sn, es)" "cs_go c x = (i, p)" "i < length (si_nodes (cs_sim c))"
  shows "\<exists>c'. (go_step ft sha ord now)\<^sup>*\<^sup>* c c' \<and> cs_go c' = (cs_go c)(x := (i, Done)) \<and>
     length (si_nodes (cs_sim c')) = length (si_nodes (cs_sim c)) \<and>
     (\<forall>k < length (si_nodes (cs_sim c)). state_of (cs_sim c') k = (if k = i then sn else state_of (cs_sim c) k)) \<and>
     si_tr (cs_sim c') = post_all inproc_Send inproc_Broadcast (net_effects es) (si_tr (cs_sim c))"
  using assms
proof (induction p arbitrary: c es)
  case Done
  then show ?case by (intro exI [of _ c]) auto
next
  case Panic
  then show ?case by simp
next
  case (Act f k)
  let ?sn = "state_of (cs_sim c) i"
  obtain sn1 e1 where f: "f now ?sn = (sn1, e1)" by fastforce
  obtain e2 where r: "run now (k now ?sn) sn1 = Some (sn, e2)" "es = e1 @ e2" using Act.prems(1) f by auto
  let ?c = "start_go x i (k now ?sn) (c\<lparr>cs_sim := run_node ft sha now i (sn1, e1) (cs_sim c)\<rparr>)"
  have s: "go_step ft sha ord now c ?c" using c_run [OF Act.prems(2,3), of ft sha ord now] f by simp
  have st: "state_of (cs_sim ?c) j = (if j = i then sn1 else state_of (cs_sim c) j)" "length (si_nodes (cs_sim ?c)) = length (si_nodes (cs_sim c))"
    if "j < length (si_nodes (cs_sim c))" for j using that by (simp_all add: start_go_def)
  have "run now (k now ?sn) (state_of (cs_sim ?c) i) = Some (sn, e2)" "cs_go ?c x = (i, k now ?sn)" "i < length (si_nodes (cs_sim ?c))"
    using st [OF Act.prems(3)] Act.prems(3) r(1) by (simp_all add: start_go_def)
  from Act.IH [OF rangeI rangeI this] obtain c' where c':
    "(go_step ft sha ord now)\<^sup>*\<^sup>* ?c c'" "cs_go c' = (cs_go ?c)(x := (i, Done))"
    "length (si_nodes (cs_sim c')) = length (si_nodes (cs_sim ?c))"
    "\<forall>j < length (si_nodes (cs_sim ?c)). state_of (cs_sim c') j = (if j = i then sn else state_of (cs_sim ?c) j)"
    "si_tr (cs_sim c') = post_all inproc_Send inproc_Broadcast (net_effects e2) (si_tr (cs_sim ?c))" by (elim exE conjE) (rule that)
  have steps: "(go_step ft sha ord now)\<^sup>*\<^sup>* c c'" using s c'(1) by (rule converse_rtranclp_into_rtranclp)
  have na: "net_effects (e1 @ e2) = net_effects e1 @ net_effects e2" by (simp add: net_effects_def map_filter_def)
  have pa: "post_all f g (xs @ ys) tr = post_all f g ys (post_all f g xs tr)" for f g xs ys and tr :: "string InprocTransport"
    by (induction xs arbitrary: tr) simp_all
  have "post_all inproc_Send inproc_Broadcast (net_effects e2) (post_all inproc_Send inproc_Broadcast (net_effects e1) tr) =
      post_all inproc_Send inproc_Broadcast (net_effects es) tr" for tr :: "string InprocTransport" by (simp add: r(2) na pa)
  moreover have "cs_go c' = (cs_go c)(x := (i, Done))" using c'(2) by (simp add: start_go_def)
  moreover have "si_tr (cs_sim ?c) = post_all inproc_Send inproc_Broadcast (net_effects e1) (si_tr (cs_sim c))" by (simp add: start_go_def)
  ultimately have "si_tr (cs_sim c') = post_all inproc_Send inproc_Broadcast (net_effects es) (si_tr (cs_sim c))"
    "cs_go c' = (cs_go c)(x := (i, Done))" using c'(5) by simp_all
  moreover have "length (si_nodes (cs_sim ?c)) = length (si_nodes (cs_sim c))" by (rule st(2) [OF Act.prems(3)])
  with c'(3,4) st(1) have "length (si_nodes (cs_sim c')) = length (si_nodes (cs_sim c))"
    "\<forall>j < length (si_nodes (cs_sim c)). state_of (cs_sim c') j = (if j = i then sn else state_of (cs_sim c) j)" by simp_all
  ultimately show ?case using steps by blast
qed

lemma handler_alone:
  assumes "inproc_deliver k (si_tr (cs_sim c)) = (Some (sim_id (int i), m), tr)" and "i < length (si_nodes (cs_sim c))"
    and "HandleMessage sha ord od now m (state_of (cs_sim c) i) = Some (sn, es)" and "idle (Worker w) c" and "fair_orders od"
  shows "\<exists>c'. (go_step ft sha ord now)\<^sup>*\<^sup>* c c' \<and> length (si_nodes (cs_sim c')) = length (si_nodes (cs_sim c)) \<and>
     (\<forall>k < length (si_nodes (cs_sim c)). state_of (cs_sim c') k = (if k = i then sn else state_of (cs_sim c) k)) \<and>
     si_tr (cs_sim c') = post_all inproc_Send inproc_Broadcast (net_effects es) tr"
proof -
  obtain s n where s: "state_of (cs_sim c) i = (s, n)" by fastforce
  let ?p = "message_prog sha ord od (\<lambda>bc. bc) False m"
  let ?c = "start_go (Worker w) i ?p (c\<lparr>cs_sim := (cs_sim c)\<lparr>si_tr := tr\<rparr>\<rparr>)"
  have 1: "go_step ft sha ord now c ?c" by (rule c_deliver [OF assms(1,2,4,5)])
  have "run now ?p (state_of (cs_sim ?c) i) = Some (sn, es)" "cs_go ?c (Worker w) = (i, ?p)" "i < length (si_nodes (cs_sim ?c))"
    using assms(2,3) s by (simp_all add: start_go_def run_message)
  from run_alone [OF this] obtain c' where "(go_step ft sha ord now)\<^sup>*\<^sup>* ?c c'" "length (si_nodes (cs_sim c')) = length (si_nodes (cs_sim ?c))"
    "\<forall>k < length (si_nodes (cs_sim ?c)). state_of (cs_sim c') k = (if k = i then sn else state_of (cs_sim ?c) k)"
    "si_tr (cs_sim c') = post_all inproc_Send inproc_Broadcast (net_effects es) (si_tr (cs_sim ?c))" by blast
  then show ?thesis using converse_rtranclp_into_rtranclp [of "go_step ft sha ord now", OF 1]
    by (intro exI [of _ c']) (auto simp: start_go_def)
qed

end
