(* ===== verification/Report.thy ===== *)
theory Report
  imports NodeMain StoreFiles
begin

text \<open>
  What \<^verbatim>\<open>cmd/node/main.go\<close> and \<^verbatim>\<open>metrics.go\<close> print: shares and rates as \<^verbatim>\<open>float64\<close> with a fixed number of
  decimals, durations, the JSON form of the state dump and the summary at the end; and the loop of the
  TCP node, as a function of the sequence of its events.
\<close>

section \<open>Floating point numbers as text\<close>

text \<open>
  \<open>fl\<close> of \<open>Metrics\<close> rounds numbers below two; a larger one is scaled first, which changes nothing in its 53
  significant bits.
\<close>

primrec halvings :: "nat \<Rightarrow> rat \<Rightarrow> nat" where
  "halvings 0 x = 0"
| "halvings (Suc n) x = (if x < 2 then 0 else Suc (halvings n (x / 2)))"

definition f64 :: "rat \<Rightarrow> rat" where
  "f64 x = (let h = halvings 1023 \<bar>x\<bar> in fl (x / 2 ^ h) * 2 ^ h)"

text \<open>\<^verbatim>\<open>float64(a) / float64(b)\<close> for unsigned or non-negative integers, \<open>0\<close> where the code keeps its initial \<^verbatim>\<open>0.0\<close>.\<close>

definition float_share :: "int \<Rightarrow> int \<Rightarrow> rat" where
  "float_share a b = (if b > 0 then f64 (f64 (of_int a) / f64 (of_int b)) else 0)"

text \<open>A decimal with leading zeros, and \<^verbatim>\<open>%.pf\<close> of a number that is not negative: the exact value, ties to even.\<close>

definition pad_dec :: "nat \<Rightarrow> nat \<Rightarrow> string" where
  "pad_dec p n = replicate (p - length (dec_nat n)) (CHR ''0'') @ dec_nat n"

definition format_fixed :: "nat \<Rightarrow> rat \<Rightarrow> string" where
  "format_fixed p x =
     (let n = nat (round_half_even (x * 10 ^ p))
      in dec_nat (n div 10 ^ p) @ (if p = 0 then '''' else ''.'' @ pad_dec p (n mod 10 ^ p)))"

definition percent :: "nat \<Rightarrow> rat \<Rightarrow> string" where
  "percent p share = format_fixed p (f64 (share * 100)) @ ''%''"

section \<open>Durations as text\<close>

text \<open>\<^verbatim>\<open>fmtFrac\<close>: the last \<open>p\<close> digits as a fraction without trailing zeros.\<close>

definition fmtFrac :: "nat \<Rightarrow> nat \<Rightarrow> string" where
  "fmtFrac p u =
     (let ds = rev (dropWhile (\<lambda>c. c = CHR ''0'') (rev (pad_dec p (u mod 10 ^ p))))
      in if p = 0 \<or> ds = [] then '''' else CHR ''.'' # ds)"

text \<open>\<^verbatim>\<open>Duration.String\<close>; the micro sign is U+00B5.\<close>

definition Duration_String :: "duration \<Rightarrow> string" where
  "Duration_String d =
     (let u = nat \<bar>d\<bar>; sign = (if d < 0 then ''-'' else '''') in
      if u = 0 then ''0s''
      else if u < 1000 then sign @ dec_nat u @ ''ns''
      else if u < 1000000 then sign @ dec_nat (u div 1000) @ fmtFrac 3 u @ [CHR 0xC2, CHR 0xB5, CHR ''s'']
      else if u < 1000000000 then sign @ dec_nat (u div 1000000) @ fmtFrac 6 u @ ''ms''
      else (let secs = u div 1000000000; tail = fmtFrac 9 u @ ''s'' in
            if secs < 60 then sign @ dec_nat secs @ tail
            else if secs < 3600 then sign @ dec_nat (secs div 60) @ ''m'' @ dec_nat (secs mod 60) @ tail
            else sign @ dec_nat (secs div 3600) @ ''h'' @ dec_nat (secs div 60 mod 60) @ ''m'' @ dec_nat (secs mod 60) @ tail))"

section \<open>The metrics\<close>

definition metrics_line :: "string \<Rightarrow> peer_metrics \<Rightarrow> string" where
  "metrics_line peerID m =
     (let successRate = (if me_totalRequests m > 0
          then f64 (float_share (me_successCount m) (me_totalRequests m) * 100) else 0)
      in ''  '' @ peerID @ '': requests='' @ dec_int (me_totalRequests m) @ '', success='' @ dec_int (me_successCount m) @
         '' ('' @ format_fixed 1 successRate @ ''%), fail='' @ dec_int (me_failureCount m) @ '', avgRTT='' @
         Duration_String (me_avgRTT m) @ '', consecutiveFail='' @ dec_int (me_consecutiveFailures m) @ [CHR 0x0A])"

text \<open>The ids are collected in the order in which \<^verbatim>\<open>range\<close> visits the map, then sorted.\<close>

definition dumpMetrics :: "string list \<Rightarrow> metrics_tracker \<Rightarrow> string" where
  "dumpMetrics ids mt =
     (if ids = [] then ''No peer metrics available''
      else ''Peer Metrics:'' @ [CHR 0x0A] @
        concat (map (\<lambda>i. case mt_peers mt i of None \<Rightarrow> '''' | Some m \<Rightarrow> metrics_line i m) (sort ids)))"

lemma dumpMetrics_order:
  assumes "distinct ids" "set ids = dom (mt_peers mt)" "distinct ids'" "set ids' = dom (mt_peers mt)"
  shows "dumpMetrics ids mt = dumpMetrics ids' mt"
proof -
  have "sort ids = sort ids'" using assms by (intro sorted_distinct_set_unique) simp_all
  moreover have "ids = [] \<longleftrightarrow> ids' = []" using assms by (metis set_empty)
  ultimately show ?thesis by (simp add: dumpMetrics_def)
qed

section \<open>The state dump as JSON\<close>

definition reorg_json :: "nils \<Rightarrow> reorg \<Rightarrow> json" where
  "reorg_json nil r = JObj [(''CommonAncestor'', hash_json (rg_CommonAncestor r)),
     (''Removed'', list_json nil ''Removed'' (block_ptr_json nil) (rg_Removed r)),
     (''Added'', list_json nil ''Added'' (block_ptr_json nil) (rg_Added r))]"

definition tip_event_json :: "nils \<Rightarrow> tip_event \<Rightarrow> json" where
  "tip_event_json nil ev = JObj [(''NodeID'', JStr (te_NodeID ev)), (''FromPeer'', JStr (te_FromPeer ev)),
     (''Height'', int_json (uint (te_Height ev))), (''TipHash'', hash_json (te_TipHash ev)),
     (''Reorg'', case te_Reorg ev of None \<Rightarrow> JNull | Some r \<Rightarrow> reorg_json nil r)]"

definition debug_block_json :: "nils \<Rightarrow> debug_block \<Rightarrow> json" where
  "debug_block_json nil b = JObj [(''Height'', int_json (uint (db_Height b))), (''Hash'', hash_json (db_Hash b)),
     (''TxCount'', int_json (db_TxCount b)), (''TxIDs'', list_json nil ''TxIDs'' JStr (db_TxIDs b))]"

definition debug_state_json :: "nils \<Rightarrow> debug_state \<Rightarrow> json" where
  "debug_state_json nil ds = JObj [(''NodeID'', JStr (ds_NodeID ds)), (''TipHeight'', int_json (uint (ds_TipHeight ds))),
     (''TipHash'', hash_json (ds_TipHash ds)), (''MempoolSize'', int_json (ds_MempoolSize ds)),
     (''MempoolTxIDs'', list_json nil ''MempoolTxIDs'' JStr (ds_MempoolTxIDs ds)),
     (''MainChain'', list_json nil ''MainChain'' (debug_block_json nil) (ds_MainChain ds))]"

definition dump_json :: "nils \<Rightarrow> tip_event \<Rightarrow> debug_state list \<Rightarrow> json" where
  "dump_json nil ev states = JObj [(''trigger'', tip_event_json nil ev),
     (''nodes'', JArr (map (debug_state_json nil) (sort_key ds_NodeID states)))]"

text \<open>\<^verbatim>\<open>dumpAll\<close>: what is logged, in either form; \<^verbatim>\<open>strings.EqualFold(format, "json")\<close> decides.\<close>

definition dumpAll :: "nils \<Rightarrow> string \<Rightarrow> int \<Rightarrow> int \<Rightarrow> int \<Rightarrow> tip_event \<Rightarrow> node list \<Rightarrow> string option" where
  "dumpAll nil format chainDepth mempoolMax blockTxMax ev ns =
     (if fold_name format = ''JSON''
      then do {
        states \<leftarrow> those (map (DebugState chainDepth mempoolMax blockTxMax) ns);
        Some (''STATE_DUMP_JSON'' @ [CHR 0x0A] @ MarshalIndent (dump_json nil ev states))
      }
      else map_option (log_block ''STATE_DUMP'') (dump_lines chainDepth mempoolMax blockTxMax ev ns))"

text \<open>The flags of the dump, and what a change of the tip logs.\<close>

record dump_flags =
  df_onTip :: bool
  df_format :: string
  df_chainDepth :: int
  df_mempoolMax :: int
  df_blockTxMax :: int

definition tip_log :: "nils \<Rightarrow> dump_flags \<Rightarrow> tip_event \<Rightarrow> node list \<Rightarrow> string list option" where
  "tip_log nil df ev ns =
     (if df_onTip df then map_option (\<lambda>x. [x]) (dumpAll nil (df_format df) (df_chainDepth df) (df_mempoolMax df) (df_blockTxMax df) ev ns)
      else Some [])"

section \<open>The summary\<close>

definition summary_line :: "uint64 \<Rightarrow> uint64 \<Rightarrow> node_row \<Rightarrow> string" where
  "summary_line hashes mined r =
     ''node='' @ nr_ID r @ '' height='' @ dec_nat (unat (nr_Height r)) @ '' mined='' @ dec_nat (unat (nr_Mined r)) @
     ''('' @ percent 2 (float_share (uint (nr_Mined r)) (uint mined)) @ '') received='' @ dec_nat (unat (nr_Received r)) @
     '' hashes='' @ dec_nat (unat (nr_Hashes r)) @ ''('' @ percent 2 (float_share (uint (nr_Hashes r)) (uint hashes)) @ '')''"

definition summary_text :: "int \<Rightarrow> node list \<Rightarrow> string" where
  "summary_text txCount ns = (case summary ns of (hashes, mined, rows) \<Rightarrow>
     log_block ''SIMULATION_SUMMARY'' (summary_head txCount ns # map (summary_line hashes mined) rows))"

section \<open>The program\<close>

text \<open>The flags, parsed; and what runs when \<^verbatim>\<open>main\<close> has reached its loop.\<close>

record main_flags =
  fl_transport :: string
  fl_tcp :: tcp_options
  fl_sim :: sim_options

datatype started = TcpNode tcp_node | Simulating simulation

definition node_main :: "digest \<Rightarrow> nils \<Rightarrow> key_faults \<Rightarrow> byte list \<times> byte list \<Rightarrow> faults \<Rightarrow> (int \<Rightarrow> nat \<Rightarrow> gotime) \<Rightarrow>
    (hash \<times> block) ranging \<Rightarrow> bool \<Rightarrow> (nat \<Rightarrow> rat) \<Rightarrow> main_flags \<Rightarrow> files \<Rightarrow> (start_error + started) option" where
  "node_main sha nil fx generated ft now ord listens rng flags fs =
     (case choose_transport (fl_transport flags) of
        Inl err \<Rightarrow> Some (Inl err)
      | Inr tcp \<Rightarrow>
          if tcp then map_option (map_sum id TcpNode \<circ> fst) (runTCP sha nil fx generated ft (now 0) ord listens (fl_tcp flags) fs)
          else map_option (map_sum id Simulating) (start_simulation sha ft now ord rng (fl_sim flags) fs))"

text \<open>When the time is up all miners are stopped, which gives the transactions of their jobs back, and the summary is logged.\<close>

definition stop_miners :: "gotime \<Rightarrow> simulation \<Rightarrow> simulation" where
  "stop_miners now si = si\<lparr>si_nodes := map (\<lambda>x. x\<lparr>sn_state := apsnd (mine_stop now) (sn_state x)\<rparr>) (si_nodes si)\<rparr>"

definition sim_end :: "gotime \<Rightarrow> simulation \<Rightarrow> string" where
  "sim_end now si = (let si = stop_miners now si in summary_text (si_txs si) (map (snd \<circ> sn_state) (si_nodes si)))"

text \<open>The loop of the TCP node: what it logs when it returns.\<close>

datatype tcp_event = TcpTick "nat \<Rightarrow> gotime" "byte list" int | TcpTimeUp | TcpInterrupt

fun tcp_loop :: "nils \<Rightarrow> tcp_event list \<Rightarrow> int \<Rightarrow> tcp_node \<Rightarrow> (string \<times> tcp_node) option" where
  "tcp_loop nil [] txCount nd = None"
| "tcp_loop nil (TcpInterrupt # es) txCount nd = Some (''TCP_NODE_STOP reason=interrupt txs='' @ dec_int txCount, nd)"
| "tcp_loop nil (TcpTimeUp # es) txCount nd = Some (''TCP_NODE_STOP reason=duration txs='' @ dec_int txCount, nd)"
| "tcp_loop nil (TcpTick t rnd k # es) txCount nd =
     (case tcp_tx_tick nil t rnd k txCount nd of (nd, txCount) \<Rightarrow> tcp_loop nil es txCount nd)"

section \<open>The dump is JSON\<close>

lemma json_ints_dump: "json_ints (dump_json nil ev states)"
  by (auto simp: dump_json_def tip_event_json_def reorg_json_def debug_state_json_def debug_block_json_def json_ints_simps
      json_ints_block split: option.split)

end
