(* ===== verification/Program.thy ===== *)
theory Program
  imports Report Interleave
begin

text \<open>
  The node program as a whole, in its default mode: \<^verbatim>\<open>main\<close> starts the bootstrap nodes, then its loop
  (ticks and the deadline) and the goroutine of the late nodes run beside all goroutines of the nodes, which
  mine and synchronise from the moment they are started. Each of its runs is a run of the simulation, so the
  theorems on simulations hold for the program.
\<close>

section \<open>The main function\<close>

text \<open>\<open>ms_next\<close> is the variable \<^verbatim>\<open>i\<close> of the two loops that start nodes.\<close>

datatype phase = Booting | Looping | TimeUp

record main_state =
  ms_conc :: conc
  ms_next :: int
  ms_phase :: phase

text \<open>
  An error of \<^verbatim>\<open>newNode\<close> ends the process: there is no step then. The deadline is seen between two ticks; the
  goroutine of the late nodes looks at \<^verbatim>\<open>stopJoin\<close> only while it waits, so it may go on for a while.
\<close>

inductive main_step :: "faults \<Rightarrow> digest \<Rightarrow> (hash \<times> block) ranging \<Rightarrow> sim_options \<Rightarrow> gotime \<Rightarrow> main_state \<Rightarrow> main_state \<Rightarrow> bool"
  for ft sha ord opt now where
  main_go: "go_step ft sha ord now (ms_conc m) c \<Longrightarrow> main_step ft sha ord opt now m (m\<lparr>ms_conc := c\<rparr>)"
| main_boot: "ms_phase m = Booting \<Longrightarrow> ms_next m < bootstrap_count opt \<Longrightarrow> join_step ft sha ord opt (ms_next m) (ms_conc m) c \<Longrightarrow>
    main_step ft sha ord opt now m (m\<lparr>ms_conc := c, ms_next := ms_next m + 1\<rparr>)"
| main_ready: "ms_phase m = Booting \<Longrightarrow> \<not> ms_next m < bootstrap_count opt \<Longrightarrow> main_step ft sha ord opt now m (m\<lparr>ms_phase := Looping\<rparr>)"
| main_tick: "ms_phase m = Looping \<Longrightarrow> tick_step (ms_conc m) c \<Longrightarrow> main_step ft sha ord opt now m (m\<lparr>ms_conc := c\<rparr>)"
| main_late: "ms_phase m \<noteq> Booting \<Longrightarrow> ms_next m < so_nodes opt \<Longrightarrow> join_step ft sha ord opt (ms_next m) (ms_conc m) c \<Longrightarrow>
    main_step ft sha ord opt now m (m\<lparr>ms_conc := c, ms_next := ms_next m + 1\<rparr>)"
| main_deadline: "ms_phase m = Looping \<Longrightarrow> idle Ticker (ms_conc m) \<Longrightarrow> main_step ft sha ord opt now m (m\<lparr>ms_phase := TimeUp\<rparr>)"

definition main_start :: "sim_options \<Rightarrow> (nat \<Rightarrow> rat) \<Rightarrow> files \<Rightarrow> main_state" where
  "main_start opt rng fs = \<lparr>ms_conc = \<lparr>cs_sim = \<lparr>si_tr = sim_transport opt rng, si_nodes = [], si_files = fs, si_txs = 0\<rparr>,
     cs_go = \<lambda>_. (0, Done)\<rparr>, ms_next = 0, ms_phase = Booting\<rparr>"

inductive main_reachable :: "faults \<Rightarrow> digest \<Rightarrow> (hash \<times> block) ranging \<Rightarrow> sim_options \<Rightarrow> (nat \<Rightarrow> rat) \<Rightarrow> files \<Rightarrow> gotime \<Rightarrow> main_state \<Rightarrow> bool"
  for ft sha ord opt rng fs where
  main_init: "main_reachable ft sha ord opt rng fs t (main_start opt rng fs)"
| main_next: "main_reachable ft sha ord opt rng fs t m \<Longrightarrow> t \<le> now \<Longrightarrow> main_step ft sha ord opt now m m' \<Longrightarrow>
    main_reachable ft sha ord opt rng fs now m'"

section \<open>The program runs the simulation\<close>

lemma go_step_nodes: "go_step ft sha ord now c c' \<Longrightarrow> length (si_nodes (cs_sim c')) = length (si_nodes (cs_sim c))"
  by (induction rule: go_step.induct) (simp_all add: start_go_def)

lemma tick_step_nodes: "tick_step c c' \<Longrightarrow> length (si_nodes (cs_sim c')) = length (si_nodes (cs_sim c))"
  by (induction rule: tick_step.induct) (simp add: start_go_def)

lemma join_step_nodes: "join_step ft sha ord opt i c c' \<Longrightarrow> length (si_nodes (cs_sim c')) = Suc (length (si_nodes (cs_sim c)))"
  by (induction rule: join_step.induct) (simp add: join_node_parts(1))

definition main_inv :: "faults \<Rightarrow> digest \<Rightarrow> (hash \<times> block) ranging \<Rightarrow> sim_options \<Rightarrow> gotime \<Rightarrow> main_state \<Rightarrow> bool" where
  "main_inv ft sha ord opt t m \<longleftrightarrow> conc_reachable ft sha ord opt t (ms_conc m)
     \<and> ms_next m = int (length (si_nodes (cs_sim (ms_conc m)))) \<and> ms_next m \<le> so_nodes opt
     \<and> (ms_phase m = Booting \<longrightarrow> ms_next m \<le> bootstrap_count opt) \<and> (ms_phase m \<noteq> Booting \<longrightarrow> bootstrap_count opt \<le> ms_next m)"

lemma main_step_inv:
  assumes "main_step ft sha ord opt now m m'" "main_inv ft sha ord opt t m" "t \<le> now" "1 \<le> so_nodes opt"
  shows "main_inv ft sha ord opt now m'"
proof -
  have r: "conc_reachable ft sha ord opt t (ms_conc m)" "ms_next m = int (length (si_nodes (cs_sim (ms_conc m))))"
    "ms_next m \<le> so_nodes opt" "ms_phase m = Booting \<longrightarrow> ms_next m \<le> bootstrap_count opt" "ms_phase m \<noteq> Booting \<longrightarrow> bootstrap_count opt \<le> ms_next m"
    using assms(2) unfolding main_inv_def by blast+
  note later = conc_wait [OF r(1) assms(3)]
  have b: "bootstrap_count opt \<le> so_nodes opt" using assms(4) by (auto simp: bootstrap_count_def Let_def)
  from assms(1) show ?thesis
  proof cases
    case (main_go c)
    then show ?thesis using conc_go [OF r(1) assms(3)] r(2-) by (simp add: main_inv_def go_step_nodes)
  next
    case (main_boot c)
    then show ?thesis using conc_join [OF r(1) assms(3)] r(2-) b join_step_nodes by (simp add: main_inv_def)
  next
    case main_ready
    then show ?thesis using later r(2-) by (simp add: main_inv_def)
  next
    case (main_tick c)
    then show ?thesis using conc_tick [OF r(1) assms(3)] r(2-) by (simp add: main_inv_def tick_step_nodes)
  next
    case (main_late c)
    then show ?thesis using conc_join [OF r(1) assms(3)] r(2-) join_step_nodes by (simp add: main_inv_def)
  next
    case main_deadline
    then show ?thesis using later r(2-) by (simp add: main_inv_def)
  qed
qed

lemma main_reachable_inv:
  assumes "main_reachable ft sha ord opt rng fs t m" "tidy_files fs" "1 \<le> so_nodes opt"
  shows "main_inv ft sha ord opt t m"
  using assms(1)
proof (induction rule: main_reachable.induct)
  case (main_init t)
  then show ?case using conc_init [OF assms(2)] assms(3)
    by (simp add: main_inv_def main_start_def) (auto simp: bootstrap_count_def Let_def)
qed (blast intro: main_step_inv assms(3))

text \<open>The bootstrap phase with nothing else running in between is \<open>join_nodes\<close>.\<close>

lemma join_nodes_boot:
  assumes "join_nodes sha ft now ord opt k i si = Some (Inr si')" "i + int k \<le> bootstrap_count opt"
    and "main_reachable ft sha ord opt rng fs t \<lparr>ms_conc = \<lparr>cs_sim = si, cs_go = g\<rparr>, ms_next = i, ms_phase = Booting\<rparr>"
  shows "main_reachable ft sha ord opt rng fs t \<lparr>ms_conc = \<lparr>cs_sim = si', cs_go = g\<rparr>, ms_next = i + int k, ms_phase = Booting\<rparr>"
  using assms
proof (induction k arbitrary: i si)
  case (Suc k)
  obtain si1 where j: "join_node sha ft (now i) ord opt i si = Some (Inr si1)"
    and r: "join_nodes sha ft now ord opt k (i + 1) si1 = Some (Inr si')"
    using Suc.prems(1) by (auto split: option.splits sum.splits)
  let ?m = "\<lparr>ms_conc = \<lparr>cs_sim = si, cs_go = g\<rparr>, ms_next = i, ms_phase = Booting\<rparr>"
  have "join_step ft sha ord opt i (ms_conc ?m) (\<lparr>cs_sim = si1, cs_go = g\<rparr>)"
    using c_join [of sha ft "now i" ord opt i "ms_conc ?m" si1] j by simp
  then have "main_step ft sha ord opt t ?m \<lparr>ms_conc = \<lparr>cs_sim = si1, cs_go = g\<rparr>, ms_next = i + 1, ms_phase = Booting\<rparr>"
    using main_boot [of ?m opt ft sha ord "\<lparr>cs_sim = si1, cs_go = g\<rparr>" t] Suc.prems(2) by simp
  from Suc.IH [OF r _ main_next [OF Suc.prems(3) order_refl this]] Suc.prems(2) show ?case by (simp add: algebra_simps)
qed simp

lemma node_main_boots:
  assumes "node_main sha nil fx generated ft clock ord listens rng flags fs = Some (Inr (Simulating si))"
  shows "1 \<le> so_nodes (fl_sim flags)"
    "main_reachable ft sha ord (fl_sim flags) rng fs t \<lparr>ms_conc = \<lparr>cs_sim = si, cs_go = \<lambda>_. (0, Done)\<rparr>,
       ms_next = bootstrap_count (fl_sim flags), ms_phase = Looping\<rparr>"
proof -
  let ?opt = "fl_sim flags"
  have s: "start_simulation sha ft clock ord rng ?opt fs = Some (Inr si)"
  proof (cases "choose_transport (fl_transport flags)")
    case (Inr tcp)
    have no: "map_sum id TcpNode x \<noteq> Inr (Simulating si)" for x :: "start_error + tcp_node" by (cases x) simp_all
    have yes: "map_sum id Simulating x = Inr (Simulating si) \<Longrightarrow> x = Inr si" for x :: "start_error + simulation" by (cases x) simp_all
    show ?thesis using assms(1) Inr no yes by (auto simp: node_main_def split: if_splits)
  qed (use assms(1) in \<open>simp add: node_main_def\<close>)
  then show n: "1 \<le> so_nodes ?opt" by (auto simp: start_simulation_def split: if_splits)
  have b: "0 \<le> bootstrap_count ?opt" by (simp add: bootstrap_count_def Let_def)
  let ?m = "\<lparr>ms_conc = \<lparr>cs_sim = si, cs_go = \<lambda>_. (0, Done)\<rparr>, ms_next = bootstrap_count ?opt, ms_phase = Booting\<rparr>"
  have "main_reachable ft sha ord ?opt rng fs t ?m"
    using join_nodes_boot [of sha ft clock ord ?opt "nat (bootstrap_count ?opt)" 0 _ si rng fs t "\<lambda>_. (0, Done)"]
      main_init [of ft sha ord ?opt rng fs t] s b n by (simp add: start_simulation_def main_start_def)
  from main_next [OF this order_refl main_ready] show "main_reachable ft sha ord ?opt rng fs t (\<lparr>ms_conc = \<lparr>cs_sim = si, cs_go = \<lambda>_. (0, Done)\<rparr>,
       ms_next = bootstrap_count ?opt, ms_phase = Looping\<rparr>)" by simp
qed

text \<open>
  C10: The default mode of the program is a run of the simulation. Whatever the order in which \<^verbatim>\<open>main\<close> starts
  its nodes, ticks and runs out of time, the late nodes join, and messages are delivered and all goroutines of
  all nodes run in between, the state is one that the simulation of the preceding property gets into; the
  nodes are numbered in the order of their start, there are at least the bootstrap nodes once the loop runs
  and never more than the flags ask for, and every node is sound. What \<open>node_main\<close> builds, the bootstrap
  nodes started without interruption, is such a state. (It is assumed that the data directories are empty or
  were written by the program: a file of the block of height 0 holds a block of height 0.)
\<close>
theorem main_runs_simulation:
  assumes "1 \<le> so_nodes (fl_sim flags)" and "tidy_files fs" and "fair_ranging ord"
    and "main_reachable ft sha ord (fl_sim flags) rng fs t m"
  shows "conc_reachable ft sha ord (fl_sim flags) t (ms_conc m) \<and>
     ms_next m = int (length (si_nodes (cs_sim (ms_conc m)))) \<and> ms_next m \<le> so_nodes (fl_sim flags) \<and>
     (ms_phase m \<noteq> Booting \<longrightarrow> bootstrap_count (fl_sim flags) \<le> ms_next m) \<and>
     (\<forall>i < length (si_nodes (cs_sim (ms_conc m))).
        between sha ord (so_difficulty (fl_sim flags)) (sim_id (int i)) t (state_of (cs_sim (ms_conc m)) i)) \<and>
     (\<forall>si. node_main sha nil fx generated ft clock ord listens rng flags fs = Some (Inr (Simulating si)) \<longrightarrow>
        main_reachable ft sha ord (fl_sim flags) rng fs t \<lparr>ms_conc = \<lparr>cs_sim = si, cs_go = \<lambda>_. (0, Done)\<rparr>,
          ms_next = bootstrap_count (fl_sim flags), ms_phase = Looping\<rparr>)"
proof -
  have "main_inv ft sha ord (fl_sim flags) t m" by (rule main_reachable_inv [OF assms(4,2,1)])
  then show ?thesis using conc_node [OF _ assms(3)] node_main_boots(2) by (auto simp: main_inv_def)
qed

section \<open>A first run, for the witness\<close>

definition demo_flags :: main_flags where
  "demo_flags = \<lparr>fl_transport = '''', fl_tcp = demo_options, fl_sim = demo_sim_options\<lparr>so_bootstrap := 1\<rparr>\<rparr>"

text \<open>One bootstrap node; the ticker submits a transaction to it, and the second node joins before the deadline.\<close>

theorem main_runs_simulation_witness:
  "\<exists>m. main_reachable no_faults demo_digest1 (\<lambda>_ xs. xs) (fl_sim demo_flags) (\<lambda>_. 0) (\<lambda>_. (None, snd (demo_disk [demo_genesis]))) 5 m \<and>
     ms_next m = 2 \<and> si_txs (cs_sim (ms_conc m)) = 1 \<and>
     conc_reachable no_faults demo_digest1 (\<lambda>_ xs. xs) (fl_sim demo_flags) 5 (ms_conc m)"
proof -
  let ?fs = "\<lambda>_ :: string. (None :: key_file option, snd (demo_disk [demo_genesis]))"
  let ?o = "\<lambda>(_ :: nat) (xs :: (hash \<times> block) list). xs"
  let ?opt = "fl_sim demo_flags"
  have opt: "so_difficulty ?opt = 0" "bootstrap_count ?opt = 1" "so_nodes ?opt = 2"
    by (simp_all add: demo_flags_def demo_sim_options_def bootstrap_count_def)
  let ?si0 = "\<lparr>si_tr = sim_transport ?opt (\<lambda>_. 0), si_nodes = [], si_files = ?fs, si_txs = 0\<rparr>"
  obtain si where j: "join_node demo_digest1 no_faults (\<lambda>_. 0) ?o ?opt 0 ?si0 = Some (Inr si)" "length (si_nodes si) = 1"
    "\<forall>dir. snd (si_files si dir) = snd (demo_disk [demo_genesis])"
    using join_node_fresh [of ?si0 ?opt "\<lambda>_. 0" ?o 0] opt(1) by auto
  have t0: "si_txs si = 0" using j(1) by (auto simp: join_node_def Let_def split: option.splits prod.splits sum.splits)
  have "choose_transport '''' = Inr False" by (simp add: choose_transport_def Let_def)
  then have m: "node_main demo_digest1 (\<lambda>_. False) no_key_faults ([], []) no_faults (\<lambda>_ _. 0) ?o True (\<lambda>_. 0) demo_flags ?fs = Some (Inr (Simulating si))"
    using j(1) opt(2,3) by (simp add: node_main_def start_simulation_def demo_flags_def)
  let ?m1 = "\<lparr>ms_conc = \<lparr>cs_sim = si, cs_go = \<lambda>_. (0, Done)\<rparr>, ms_next = 1, ms_phase = Looping\<rparr>"
  have 1: "main_reachable no_faults demo_digest1 ?o ?opt (\<lambda>_. 0) ?fs 5 ?m1"
    using node_main_boots(2) [OF m, of 5] opt(2) by simp
  let ?tx = "NewTransaction 0 0 [] (tx_payload (si_txs si) 1)"
  let ?c2 = "start_go Ticker 0 (submit_prog ?tx) ((ms_conc ?m1)\<lparr>cs_sim := si\<lparr>si_txs := 1\<rparr>\<rparr>)"
  have "tick_step (ms_conc ?m1) ?c2"
    using c_tick [of "ms_conc ?m1" 0 ?tx 0 0 "[]" 1] j(2) t0 by (force simp: idle_def)
  then have "main_step no_faults demo_digest1 ?o ?opt 5 ?m1 (?m1\<lparr>ms_conc := ?c2\<rparr>)" by (intro main_tick) simp_all
  from main_next [OF 1 order_refl this]
  have 2: "main_reachable no_faults demo_digest1 ?o ?opt (\<lambda>_. 0) ?fs 5 (?m1\<lparr>ms_conc := ?c2\<rparr>)" .
  obtain si3 where j3: "join_node demo_digest1 no_faults (\<lambda>_. 0) ?o ?opt 1 (cs_sim ?c2) = Some (Inr si3)"
    by (rule join_node_fresh [of "cs_sim ?c2" ?opt "\<lambda>_. 0" ?o 1]) (simp_all add: j(3) opt(1) start_go_def)
  have t3: "si_txs si3 = 1" using j3 by (auto simp: join_node_def Let_def start_go_def split: option.splits prod.splits sum.splits)
  let ?m3 = "(?m1\<lparr>ms_conc := ?c2\<rparr>)\<lparr>ms_conc := ?c2\<lparr>cs_sim := si3\<rparr>, ms_next := 2\<rparr>"
  have "main_step no_faults demo_digest1 ?o ?opt 5 (?m1\<lparr>ms_conc := ?c2\<rparr>) ?m3"
    using main_late [of "?m1\<lparr>ms_conc := ?c2\<rparr>" ?opt no_faults demo_digest1 ?o "?c2\<lparr>cs_sim := si3\<rparr>" 5] c_join [OF j3] opt(3) by simp
  from main_next [OF 2 order_refl this] have 3: "main_reachable no_faults demo_digest1 ?o ?opt (\<lambda>_. 0) ?fs 5 ?m3" .
  from main_runs_simulation [OF _ demo_tidy fair_ranging_id 3] 3 t3 opt(3) show ?thesis by (intro exI [of _ ?m3]) auto
qed

end
