(* ===== verification/Spec2Isabelle.thy ===== *)
theory Spec2Isabelle
  imports ChainProps Mempool SyncerProps NodeProps StoreCrash HandshakeProps TcpMail Bus NodeMainProps Cli Lifecycle Agreement StoreFiles Interleave Program Connect
begin

text \<open>
  A verification library of simchain-go, a proof-of-work block chain in Go: nodes that mine, gossip blocks
  and transactions, catch up with heavier peers headers first, keep their main chain on disk, and talk in
  memory or over TCP on one machine. Paths below are relative to \<^verbatim>\<open>src/\<close>.

  \<^bold>\<open>The program and its parts.\<close> A \<^verbatim>\<open>Node\<close> owns a chain, a mempool and a \<^verbatim>\<open>Syncer\<close>; the
  \<^verbatim>\<open>Syncer\<close> owns a peer manager and the metrics of the peers. A \<^verbatim>\<open>Transport\<close> carries the messages:
  the bus in memory or TCP with a signed handshake and length-prefixed JSON. \<^verbatim>\<open>cmd/node\<close> puts the parts
  together (and a \<^verbatim>\<open>Store\<close> below the chain of a TCP node), \<^verbatim>\<open>cmd/cli\<close> is a client that submits one
  transaction.

  \<^bold>\<open>Theories and code.\<close>
  \<^item> \<open>Prelude\<close>: Go maps (a missing key reads as the zero value), association lists, iteration orders, the
    collections of lemmas.
  \<^item> \<open>GoTypes\<close>, \<open>Messages\<close>, \<open>Transport\<close>: \<^verbatim>\<open>internal/types\<close> and the interface
    \<^verbatim>\<open>internal/transport/transport.go\<close>. What an operation sends is a list of effects.
  \<^item> \<open>Json\<close>, \<open>JsonParse\<close>, \<open>Base64\<close>, \<open>Codec\<close>: the JSON of the messages: printing, the grammar of the
    scanner, and the decoding into each struct.
  \<^item> \<open>Pow\<close>: \<^verbatim>\<open>internal/crypto/pow.go\<close>.
  \<^item> \<open>ChainWalk\<close> (the loops along parent pointers), \<open>Chain\<close> (state and \<^verbatim>\<open>AddBlock\<close>), \<open>ChainInv\<close> (the
    invariant), \<open>ChainSync\<close> (locator, metas, main chain), \<open>ChainProps\<close>, \<open>ChainTip\<close>, \<open>Agreement\<close>:
    \<^verbatim>\<open>internal/blockchain/chain.go\<close>. \<open>Demo\<close> holds inputs for the witnesses.
  \<^item> \<open>Mempool\<close>: \<^verbatim>\<open>internal/mempool/mempool.go\<close>. \<open>Peers\<close>: \<^verbatim>\<open>internal/peer/peermanager.go\<close>.
    \<open>Metrics\<close>: \<^verbatim>\<open>internal/syncer/metrics.go\<close>.
  \<^item> \<open>Syncer\<close>, \<open>SyncerInv\<close>, \<open>SyncerProps\<close>: \<^verbatim>\<open>internal/syncer/syncer.go\<close>.
  \<^item> \<open>Node\<close>, \<open>NodeInv\<close>, \<open>NodeReach\<close>, \<open>NodeProps\<close>, \<open>NodeFrame\<close> (what no operation changes),
    \<open>Gossip\<close> (announcement, request, answer and adoption of a block): \<^verbatim>\<open>internal/node/node.go\<close>. \<open>Lifecycle\<close>: how syncer and
    miner start and stop.
  \<^item> \<open>Store\<close>, \<open>StoreInv\<close>, \<open>StoreProps\<close>, \<open>StoreCrash\<close>: \<^verbatim>\<open>internal/store/store.go\<close> on a disk of JSON
    values; \<open>StoreFiles\<close>: the named files, temporary files and bytes below it.
  \<^item> \<open>Identity\<close>, \<open>NetAddr\<close>, \<open>Frame\<close>, \<open>Handshake\<close>, \<open>HandshakeProps\<close>, \<open>Tcp\<close>, \<open>TcpProps\<close>, \<open>TcpMail\<close>,
    \<open>Connect\<close> (the life of one connection, from the handshake to the end of its read loop):
    \<^verbatim>\<open>internal/identity\<close> and \<^verbatim>\<open>internal/transport/tcp\<close>. \<open>Bus\<close>: \<^verbatim>\<open>internal/network/bus.go\<close> and
    \<^verbatim>\<open>internal/transport/inproc\<close>.
  \<^item> \<open>NodeMain\<close>, \<open>NodeMainProps\<close>: \<^verbatim>\<open>cmd/node/main.go\<close>; \<open>Simulation\<close>: the nodes of one process while they run, a whole
    handler, round or attempt being one step; \<open>Report\<close>: the loop of a TCP node, the dumps and the summary.
  \<^item> \<open>Goroutines\<close>: the goroutines of a node (handlers, rounds of the syncer, probes, timers, miner) as programs of
    critical sections; \<open>Uninterrupted\<close>: run alone they are the functions of \<open>Syncer\<close> and \<open>Node\<close>; \<open>SafeSteps\<close>: each
    section keeps the invariant of a node whatever came before it; \<open>Interleave\<close>: the programs of all nodes of a
    simulation run together; \<open>Program\<close>: the loops of \<^verbatim>\<open>main\<close> beside them. \<open>Cli\<close>: \<^verbatim>\<open>cmd/cli/main.go\<close>.

  \<^bold>\<open>How the code is represented.\<close> A struct is a record, with a field for a field; a Go map is a HOL map
  where only its content matters and an association list where its order does; integers have their width;
  big.Int is int; a Go string is a list of bytes. A pointer method returns the new state. A method that can
  panic, or whose loop is not known to end, returns an option: None is the panic or the endless loop, so
  that a theorem with Some says that the call returns. An error of Go is a value of a sum or a Boolean.
  What runs under one mutex is one step. A handler that takes several locks in turn is a function (its run
  when nothing interrupts it) and a program whose steps are its critical sections; what it has read stays in
  the program while the node changes. Goroutines interleave as the rules of
  inductive relations (\<open>chain_reachable\<close>, \<open>pool_reachable\<close>, \<open>sync_reachable\<close>, \<open>node_reachable\<close>, \<open>sim_reachable\<close>,
  \<open>tcp_step\<close>, \<open>wire_step\<close>, \<open>sim_step\<close>, \<open>life_step\<close>, \<open>mine_step\<close>, and between critical sections \<open>go_step\<close>,
  \<open>conc_reachable\<close>, \<open>main_step\<close>), whose reachable states carry the invariants. Arguments of the definitions: the digest SHA-256, ed25519
  signing and verifying, random bytes and numbers, the clock, which file operations fail, the order in
  which Go visits a map.

  \<^bold>\<open>Interfaces.\<close> Locales state what a client relies on; every one is interpreted on the model:
  \<open>block_tree\<close> (parents, heights, genesis) by \<open>ct\<close> on the chain; \<open>tx_pool\<close> by \<open>pool\<close> on the mempool;
  \<open>running_best\<close> (a scan that keeps the best so far) by \<open>best\<close> on the choice of the peer;
  \<open>fetch_queue\<close> by \<open>fq\<close> on the download queues; \<open>mail_transport\<close> (messages may be lost and
  reordered) by \<open>bus\<close> on the transport in memory; \<open>fifo_transport\<close> (lost only) by \<open>wire\<close> on TCP, and a
  sublocale makes it a \<open>mail_transport\<close>.

  \<^bold>\<open>What is shown.\<close>
  \<^item> Chain: \<^verbatim>\<open>AddBlock\<close> returns and keeps the invariant on every argument; every stored block passed the
    whole validation; the tip is a heaviest block, the first seen of equals; no orphan stays whose parent is
    stored, whatever the order of visits; the reorganisation report is the two exact segments; chains with
    the same tip have the same headers as long as the digest does not collide.
  \<^item> Mempool: lists, sets and caps agree in every reachable pool; the in-place filter is the plain filter;
    a popped and returned transaction is kept.
  \<^item> Peers and metrics: the peer chosen is greatest in the documented order; peers in cooldown are not
    chosen; the counters refine the history of requests.
  \<^item> Syncer: window, retry and queue bounds in every reachable state; what a dispatch requests; retries end;
    the outcome of a header round; with \<open>Lifecycle\<close>: with calls one after the other one loop runs at most,
    nothing panics and a \<^verbatim>\<open>Stop\<close> that waits can return.
  \<^item> Node: which message stops the process, that a found block extends the chain and is announced, what a
    reorganisation returns to the mempool, what header requests answer; the invariant in every reachable state.
  \<^item> Store: the files follow the main chain as long as no orphan is connected, a restart restores tip and chain, a gap cuts them; a
    process that stops on any disk of a tip change starts again with a beginning of the old or the new chain; the bytes on disk implement the disk of the
    model, and a write that stops anywhere leaves the old disk or the new one.
  \<^item> Codec and frames: what is written is read back, byte for byte, and what is accepted is well typed.
  \<^item> Handshake and TCP: honest ends agree; an accepted peer has shown a signature over the nonce of the
    session, and this holds of everybody in the table of a running transport; limits on peers and hosts; frames reach the other side in order and whole.
  \<^item> Programs: a TCP node that reaches its main loop is in reachable states; a submitted transaction gets into
    the mempool of a node that admits the client and has room for it; in every interleaving of the critical sections
    of all goroutines every node of a simulation keeps its invariant (chain, mempool, syncer, job, identity),
    and the default mode of \<^verbatim>\<open>main\<close> is such a run from the first node to the deadline; on a lossless bus a block
    mined on the common tip can reach every node (one schedule, its handlers uninterrupted).
  The theorems named with a fault (such as \<open>one_message_crashes\<close>) say what the code does where that is
  not what it means to do.

  \<^bold>\<open>Termination, fuel and bounds.\<close> Loops that count heights or lengths down are functions with a measure.
  The loops that meet at a common ancestor are partial functions, shown to return under the invariant;
  so is the loading loop of the store, shown to return on the disks the program writes. The orphan passes end because each one
  shrinks the orphan map. The JSON parser has fuel twice the length of the text plus one, which is enough
  for every text (\<open>parse_fuel\<close>); nesting is limited to 10000 as in \<^verbatim>\<open>encoding/json\<close>. No other
  definition has fuel.

  \<^bold>\<open>Limits of the model.\<close> Decoding into a slice that a repeated key has filled before sees only its
  length; a payload of unknown type is kept as a JSON value; \<^verbatim>\<open>rand.Read\<close> does not fail; floating point
  is written out as far as the code compares it and prints it (rounding to nearest even of shares and
  their decimals); a rate limiter is an argument. Fairness of
  the scheduler is not assumed, so liveness is stated for the steps that are taken. In \<open>Interleave\<close> a call of \<^verbatim>\<open>OnTipChange\<close> (the store has a lock of
  its own) and the start of a node are one step, the loops of \<^verbatim>\<open>dispatchQueuedBlocks\<close> ask some chain (\<open>view\<close>, any
  function of the present one) while blocks may arrive, a round reads any number of header results (the bound of
  \<open>drain_prog\<close> is arbitrary), and a round, a probe or a timer may start at any time. The steps of a TCP transport
  end with \<^verbatim>\<open>Stop\<close>, which forgets the peers but not their counters; \<^verbatim>\<open>removePeer\<close> is one step. The calls of the
  peer manager are taken to lock in the order of their clock readings.

  \<^bold>\<open>Not modelled.\<close> Log lines, sleeps and tickers; the parsing of the flags (their values are arguments) and the
  signals; the tests.
\<close>

section \<open>Properties across components\<close>

text \<open>
  C25: Both transports keep the promises a node relies on. Whatever list of sends and broadcasts a node
  hands over: in memory the deliveries under way for a node grow by some of the messages meant for it,
  each at most once, by all of them when nothing is dropped and the node is registered, and by none
  otherwise; over TCP, in every state that can be reached, the write queue of a peer grows by some of
  the frames meant for it, in their order, and nothing is queued for anybody else.
\<close>

theorem transports_keep_promises:
  assumes "own_handlers t" and "tcp_reachable reach cfg w" and "spoken_by (\<lambda>j. j = tr_localID (wd_tr w)) es"
  shows "(\<exists>ps. mset ps \<subseteq># mset (all_packets same_message same_message () i es) \<and>
       inproc_mail (post_all inproc_Send inproc_Broadcast es t) i = inproc_mail t i + mset ps \<and>
       (i \<notin> set (inproc_Peers t) \<longrightarrow> ps = []) \<and>
       (\<not> float_less (Some 0) (nb_dropRate (it_bus t)) \<and> i \<in> set (inproc_Peers t) \<longrightarrow>
          mset ps = mset (all_packets same_message same_message () i es))) \<and>
     (\<exists>fs. subseq fs (all_packets (sent_frames nil) (cast_frames nil) (cf_MaxMessageSize (default_config cfg)) i es) \<and>
       peer_queue (post_all (tcp_Send nil) (tcp_Broadcast nil) es (wd_tr w)) i = peer_queue (wd_tr w) i @ fs \<and>
       (i \<notin> set (tcp_Peers (wd_tr w)) \<longrightarrow> fs = []))"
proof (rule conjI)
  have "spoken_by (\<lambda>_. True) es" by (simp add: spoken_by_def list_all_iff split: effect.split)
  from bus.post_all_mail [OF assms(1) this, of i] post_all_lossless [OF assms(1), of i es]
  show "\<exists>ps. mset ps \<subseteq># mset (all_packets same_message same_message () i es) \<and>
       inproc_mail (post_all inproc_Send inproc_Broadcast es t) i = inproc_mail t i + mset ps \<and>
       (i \<notin> set (inproc_Peers t) \<longrightarrow> ps = []) \<and>
       (\<not> float_less (Some 0) (nb_dropRate (it_bus t)) \<and> i \<in> set (inproc_Peers t) \<longrightarrow>
          mset ps = mset (all_packets same_message same_message () i es))"
    by (metis add_left_cancel)
  have "cf_MaxMessageSize (tr_cfg (wd_tr w)) = cf_MaxMessageSize (default_config cfg)"
    using tcp_reachable_inv [OF assms(2)] by (simp add: tcp_inv_def tr_ok_def)
  moreover have "set (al_keys (tr_peers (wd_tr w))) = set (tcp_Peers (wd_tr w))" by (simp add: tcp_Peers_def)
  ultimately show "\<exists>fs. subseq fs (all_packets (sent_frames nil) (cast_frames nil) (cf_MaxMessageSize (default_config cfg)) i es) \<and>
       peer_queue (post_all (tcp_Send nil) (tcp_Broadcast nil) es (wd_tr w)) i = peer_queue (wd_tr w) i @ fs \<and>
       (i \<notin> set (tcp_Peers (wd_tr w)) \<longrightarrow> fs = [])"
    using wire.post_all_queue [OF reachable_not_own_peer [OF assms(2)] assms(3), of nil i] by simp
qed

definition demo_bus :: "string InprocTransport" where
  "demo_bus = inproc_Register ''you'' ''you'' (inproc_Register ''me'' ''me'' (inproc_New (\<lambda>_. 1 / 2)))"

theorem transports_keep_promises_witness:
  "\<exists>fs. inproc_mail (post_all inproc_Send inproc_Broadcast [Broadcast ''me'' (demo_inv ''t1''), Send ''me'' (demo_inv ''t2'')] demo_bus) ''you''
       = {#demo_inv ''t1''#} \<and>
     subseq fs (cast_frames (\<lambda>_. False) (cf_MaxMessageSize (default_config demo_config)) ''me'' (demo_inv ''t1'')) \<and>
     peer_queue (post_all (tcp_Send (\<lambda>_. False)) (tcp_Broadcast (\<lambda>_. False))
       [Broadcast ''me'' (demo_inv ''t1''), Send ''me'' (demo_inv ''t2'')] (wd_tr demo_world)) ''you'' = fs"
proof -
  have b: "own_handlers demo_bus" unfolding demo_bus_def by (intro own_handlers_Register own_handlers_New)
  have p: "set (inproc_Peers demo_bus) = {''me'', ''you''}" "\<not> float_less (Some 0) (nb_dropRate (it_bus demo_bus))"
    "inproc_mail demo_bus ''you'' = {#}" "peer_queue (wd_tr demo_world) ''you'' = []"
    by (auto simp: demo_bus_def inproc_Peers_def PeerIDs_def inproc_Register_def bus_Register_def inproc_New_def NewNetworkBus_def
        float_less_def inproc_mail_def peer_queue_def demo_world_def demo_peer_def)
  have s: "spoken_by (\<lambda>j. j = tr_localID (wd_tr demo_world)) [Broadcast ''me'' (demo_inv ''t1''), Send ''me'' (demo_inv ''t2'')]"
    by (simp add: spoken_by_def demo_world_def demo_transport_def)
  from transports_keep_promises [OF b demo_reachable s, of "''you''" "\<lambda>_. False"] p show ?thesis
    by (auto simp del: post_all.simps)
qed

end
